(* ===== verification/Awds_Prelude.thy ===== *)
theory Awds_Prelude
  imports Main "HOL-Library.Word"
begin

text \<open>
  Shared vocabulary of the development: the machine integer types of the sources, byte
  buffers with \<open>memcpy\<close>-like reads and writes, \<open>memcmp\<close>, results that carry an error, and
  \<open>std::map\<close> as an association list that is kept sorted by its keys (the order in which
  its iterators visit it).  The collections \<open>buf_simps\<close> and \<open>omap_simps\<close> gather
  the rewrite rules the component theories use.
\<close>

section \<open>Machine integers\<close>

type_synonym byte = "8 word"
type_synonym u16 = "16 word"
type_synonym u32 = "32 word"
type_synonym u64 = "64 word"

text \<open>Below the sign bit the signed and the unsigned reading agree.\<close>

lemma sint_eq_unat:
  fixes x :: "'a::len word"
  assumes "unat x < 2 ^ (LENGTH('a) - 1)"
  shows "sint x = int (unat x)"
proof -
  have "int (unat x) < int (2 ^ (LENGTH('a) - 1))"
    using assms by (simp only: of_nat_less_iff)
  moreover have "- (2 ^ (LENGTH('a) - 1)) \<le> (0 :: int)" by simp
  then have "- (2 ^ (LENGTH('a) - 1)) \<le> uint x"
    using order_trans uint_ge_0 by blast
  ultimately show ?thesis
    by (simp add: sint_uint signed_take_bit_int_eq_self)
qed

section \<open>Byte buffers\<close>

named_theorems buf_simps

definition mem_read :: "byte list \<Rightarrow> nat \<Rightarrow> nat \<Rightarrow> byte list" where
  "mem_read buf off n = take n (drop off buf)"

definition mem_write :: "byte list \<Rightarrow> nat \<Rightarrow> byte list \<Rightarrow> byte list" where
  "mem_write buf off bs = take off buf @ bs @ drop (off + length bs) buf"

text \<open>
  A write that leaves the buffer changes its length, so a lemma that a length is kept is a
  lemma that no write was out of bounds.
\<close>

lemma length_mem_write [buf_simps, simp]:
  "off + length bs \<le> length buf \<Longrightarrow> length (mem_write buf off bs) = length buf"
  by (simp add: mem_write_def)

lemma length_mem_read [buf_simps, simp]:
  "off + n \<le> length buf \<Longrightarrow> length (mem_read buf off n) = n"
  by (simp add: mem_read_def)

lemma mem_read_write_same [buf_simps]:
  assumes "off + length bs \<le> length buf" "n = length bs"
  shows "mem_read (mem_write buf off bs) off n = bs"
  using assms by (simp add: mem_read_def mem_write_def)

lemma mem_read_write_before [buf_simps]:
  assumes "off + length bs \<le> length buf" "off' + n \<le> off"
  shows "mem_read (mem_write buf off bs) off' n = mem_read buf off' n"
proof -
  have "n \<le> off - off'" "off' \<le> off" "off \<le> length buf"
    using assms by auto
  then show ?thesis
    by (simp add: mem_read_def mem_write_def drop_take min_absorb1 min_absorb2)
qed

lemma mem_read_write_after [buf_simps]:
  assumes "off + length bs \<le> length buf" "off + length bs \<le> off'"
  shows "mem_read (mem_write buf off bs) off' n = mem_read buf off' n"
  using assms by (simp add: mem_read_def mem_write_def min_def)

lemma mem_read_write_inside [buf_simps]:
  assumes "off + length bs \<le> length buf" "i + n \<le> length bs"
  shows "mem_read (mem_write buf off bs) (off + i) n = mem_read bs i n"
proof -
  have "off \<le> length buf" using assms by simp
  then show ?thesis
    using assms by (simp add: mem_read_def mem_write_def min_absorb2)
qed

lemma mem_write_twice [buf_simps]:
  assumes "off + length bs \<le> length buf" "length cs = length bs"
  shows "mem_write (mem_write buf off bs) off cs = mem_write buf off cs"
  using assms by (simp add: mem_write_def)

lemma mem_write_read_id [buf_simps]:
  assumes "off + n \<le> length buf"
  shows "mem_write buf off (mem_read buf off n) = buf"
proof -
  have "take n (drop off buf) @ drop (off + n) buf = drop off buf"
    by (metis add.commute append_take_drop_id drop_drop)
  with assms show ?thesis
    by (simp add: mem_read_def mem_write_def min_def)
qed

text \<open>A write of adjacent blocks is the write of their concatenation.\<close>

lemma mem_write_append:
  assumes "off + length as + length bs \<le> length buf"
  shows "mem_write (mem_write buf off as) (off + length as) bs = mem_write buf off (as @ bs)"
proof -
  have "off \<le> length buf" "off + length as \<le> length buf"
    using assms by auto
  then show ?thesis
    by (simp add: mem_write_def min_absorb2 ac_simps)
qed

lemma mem_read_append:
  assumes "off + m + n \<le> length buf"
  shows "mem_read buf off (m + n) = mem_read buf off m @ mem_read buf (off + m) n"
  using assms by (simp add: mem_read_def take_add add.commute)

lemma mem_write_Nil [simp]: "mem_write buf off [] = buf"
  by (simp add: mem_write_def)

text \<open>Single bytes.\<close>

lemma nth_mem_write_out [buf_simps]:
  assumes "off + length bs \<le> length buf" "i < length buf" "i < off \<or> off + length bs \<le> i"
  shows "mem_write buf off bs ! i = buf ! i"
  using assms by (auto simp: mem_write_def nth_append min_def)

lemma nth_mem_write_in [buf_simps]:
  assumes "off + length bs \<le> length buf" "off \<le> i" "i < off + length bs"
  shows "mem_write buf off bs ! i = bs ! (i - off)"
proof -
  have "min (length buf) off = off" "i - off < length bs"
    using assms by auto
  then show ?thesis
    using assms by (simp add: mem_write_def nth_append)
qed

lemma mem_read_update_out [buf_simps]:
  assumes "i < off \<or> off + n \<le> i"
  shows "mem_read (buf[i := b]) off n = mem_read buf off n"
proof (cases "i < off")
  case True
  then show ?thesis by (simp add: mem_read_def)
next
  case False
  with assms have "off \<le> i" "n \<le> i - off" by auto
  then show ?thesis by (simp add: mem_read_def drop_update_swap)
qed

section \<open>memcmp\<close>

text \<open>
  \<open>memcmp\<close> compares bytes as unsigned values; only the sign of its result is specified, and
  only the sign is used by the sources.
\<close>

fun memcmp :: "byte list \<Rightarrow> byte list \<Rightarrow> int" where
  "memcmp (x # xs) (y # ys) =
     (if x = y then memcmp xs ys else if x < y then -1 else 1)"
| "memcmp _ _ = 0"

lemma memcmp_eq_0: "length xs = length ys \<Longrightarrow> memcmp xs ys = 0 \<longleftrightarrow> xs = ys"
  by (induction xs ys rule: memcmp.induct) auto

lemma memcmp_swap: "length xs = length ys \<Longrightarrow> memcmp ys xs = - memcmp xs ys"
  by (induction xs ys rule: memcmp.induct) auto

section \<open>Results that carry an error\<close>

fun rbind :: "'e + 'a \<Rightarrow> ('a \<Rightarrow> 'e + 'b) \<Rightarrow> 'e + 'b" where
  "rbind (Inl e) f = Inl e"
| "rbind (Inr x) f = f x"

lemma rbind_Inr_iff: "rbind m f = Inr y \<longleftrightarrow> (\<exists>x. m = Inr x \<and> f x = Inr y)"
  by (cases m) auto

section \<open>std::map as a sorted association list\<close>

named_theorems omap_simps

type_synonym ('k, 'v) omap = "('k \<times> 'v) list"

fun om_insert :: "'k::linorder \<Rightarrow> 'v \<Rightarrow> ('k, 'v) omap \<Rightarrow> ('k, 'v) omap" where
  "om_insert k v [] = [(k, v)]"
| "om_insert k v ((k', v') # m) =
     (if k < k' then (k, v) # (k', v') # m
      else if k = k' then (k, v) # m
      else (k', v') # om_insert k v m)"

definition om_erase :: "'k \<Rightarrow> ('k, 'v) omap \<Rightarrow> ('k, 'v) omap" where
  "om_erase k m = filter (\<lambda>e. fst e \<noteq> k) m"

definition om_find :: "'k \<Rightarrow> ('k, 'v) omap \<Rightarrow> 'v option" where
  "om_find k m = map_of m k"

definition om_ok :: "('k::linorder, 'v) omap \<Rightarrow> bool" where
  "om_ok m \<longleftrightarrow> sorted_wrt (<) (map fst m)"

lemma om_ok_Nil [simp]: "om_ok []"
  by (simp add: om_ok_def)

lemma om_ok_Cons [simp]:
  "om_ok ((k, v) # m) \<longleftrightarrow> (\<forall>k' \<in> set (map fst m). k < k') \<and> om_ok m"
  by (simp add: om_ok_def)

lemma om_ok_distinct: "om_ok m \<Longrightarrow> distinct (map fst m)"
  by (simp add: om_ok_def strict_sorted_iff)

lemma om_insert_keys [omap_simps]:
  "set (map fst (om_insert k v m)) = insert k (set (map fst m))"
  by (induction k v m rule: om_insert.induct) auto

lemma om_insert_ok [omap_simps]: "om_ok m \<Longrightarrow> om_ok (om_insert k v m)"
proof (induction k v m rule: om_insert.induct)
  case (2 k v k' v' m)
  then show ?case
    using om_insert_keys [of k v m] by (auto simp del: set_map)
qed simp

lemma om_find_insert [omap_simps]:
  "om_ok m \<Longrightarrow> om_find k' (om_insert k v m) = (if k' = k then Some v else om_find k' m)"
proof (induction k v m rule: om_insert.induct)
  case (2 k v k1 v1 m)
  then show ?case
    by (auto simp: om_find_def)
qed (simp add: om_find_def)

lemma om_erase_ok [omap_simps]: "om_ok m \<Longrightarrow> om_ok (om_erase k m)"
  by (induction m) (auto simp: om_erase_def)

lemma om_find_erase [omap_simps]:
  "om_find k' (om_erase k m) = (if k' = k then None else om_find k' m)"
  by (induction m) (auto simp: om_find_def om_erase_def)

lemma om_erase_keys [omap_simps]:
  "set (map fst (om_erase k m)) = set (map fst m) - {k}"
  by (auto simp: om_erase_def)

lemma om_find_None [omap_simps]: "om_find k m = None \<longleftrightarrow> k \<notin> set (map fst m)"
  by (simp add: om_find_def map_of_eq_None_iff)

lemma om_find_Some_mem: "om_find k m = Some v \<Longrightarrow> (k, v) \<in> set m"
  by (simp add: om_find_def map_of_SomeD)

lemma om_find_mem: "om_ok m \<Longrightarrow> om_find k m = Some v \<longleftrightarrow> (k, v) \<in> set m"
  by (simp add: om_find_def om_ok_distinct)

definition om_adjust :: "'k \<Rightarrow> ('v \<Rightarrow> 'v) \<Rightarrow> ('k, 'v) omap \<Rightarrow> ('k, 'v) omap" where
  "om_adjust k f m = map (\<lambda>(k', v). (k', if k' = k then f v else v)) m"

lemma om_adjust_keys [omap_simps, simp]: "map fst (om_adjust k f m) = map fst m"
  by (simp add: om_adjust_def case_prod_beta)

lemma om_adjust_ok [omap_simps, simp]: "om_ok (om_adjust k f m) = om_ok m"
  by (simp add: om_ok_def)

lemma om_find_adjust [omap_simps]:
  "om_find k' (om_adjust k f m) =
     (if k' = k then map_option f (om_find k' m) else om_find k' m)"
  by (induction m) (auto simp: om_find_def om_adjust_def)

text \<open>
  The interface the components use: a container with a lookup, an insertion, an erasure and
  a representation invariant.  The laws below are all the clients rely on.
\<close>

locale finite_map =
  fixes find :: "'k \<Rightarrow> 'm \<Rightarrow> 'v option"
    and insert :: "'k \<Rightarrow> 'v \<Rightarrow> 'm \<Rightarrow> 'm"
    and erase :: "'k \<Rightarrow> 'm \<Rightarrow> 'm"
    and ok :: "'m \<Rightarrow> bool"
  assumes insert_ok: "ok m \<Longrightarrow> ok (insert k v m)"
    and erase_ok: "ok m \<Longrightarrow> ok (erase k m)"
    and find_insert: "ok m \<Longrightarrow> find k' (insert k v m) = (if k' = k then Some v else find k' m)"
    and find_erase: "ok m \<Longrightarrow> find k' (erase k m) = (if k' = k then None else find k' m)"
begin

lemma find_insert_same: "ok m \<Longrightarrow> find k (insert k v m) = Some v"
  by (simp add: find_insert)

lemma find_insert_other: "ok m \<Longrightarrow> k' \<noteq> k \<Longrightarrow> find k' (insert k v m) = find k' m"
  by (simp add: find_insert)

lemma erase_insert: "ok m \<Longrightarrow> find k m = None \<Longrightarrow> find k' (erase k (insert k v m)) = find k' m"
  by (simp add: find_insert find_erase insert_ok)

lemma insert_erase_find:
  "ok m \<Longrightarrow> find k' (insert k v (erase k m)) = find k' (insert k v m)"
  by (simp add: find_insert find_erase erase_ok)

end

interpretation omap: finite_map om_find om_insert om_erase om_ok
  by unfold_locales (simp_all add: om_insert_ok om_erase_ok om_find_insert om_find_erase)

end
