(* ===== verification/Node_Id.thy ===== *)
theory Node_Id
  imports Awds_Prelude
begin

text \<open>
  Station identifiers (\<open>src/src/awds/AbstractId.h\<close>, \<open>src/src/awds/NodeId.h\<close>) and the
  big-endian conversion of integers to byte arrays (\<open>src/src/awds/toArray.h\<close>).  A
  \<open>NodeId\<close> is the specialisation of the template for six bytes, which keeps the identifier
  in one 64-bit integer.  The lemmas relate it to the generic, byte-wise template, to the
  i386 variant, and to the byte order in which the identifiers travel.
\<close>

unbundle bit_operations_syntax

section \<open>Integers and byte arrays (toArray.h)\<close>

fun toArray_loop :: "nat \<Rightarrow> 'a::len word \<Rightarrow> byte list \<Rightarrow> byte list" where
  "toArray_loop 0 v arr = arr"
| "toArray_loop (Suc i) v arr = toArray_loop i (drop_bit 8 v) (ucast v # arr)"

text \<open>The loop fills the array from its last byte, so the bytes are consed.\<close>

definition toArray :: "'a::len word \<Rightarrow> byte list" where
  "toArray v = toArray_loop (LENGTH('a) div 8) v []"

fun fromArray_loop :: "'a::len word \<Rightarrow> byte list \<Rightarrow> 'a word" where
  "fromArray_loop v [] = v"
| "fromArray_loop v (b # bs) = fromArray_loop (push_bit 8 v OR ucast b) bs"

definition fromArray :: "byte list \<Rightarrow> 'a::len word" where
  "fromArray arr = fromArray_loop 0 (take (LENGTH('a) div 8) arr)"

text \<open>The variants for i386: a little-endian load or store and a byte swap.\<close>

definition load_le16 :: "byte list \<Rightarrow> u16" where
  "load_le16 arr = ucast (arr ! 0) OR push_bit 8 (ucast (arr ! 1))"

definition load_le32 :: "byte list \<Rightarrow> u32" where
  "load_le32 arr = ucast (arr ! 0) OR push_bit 8 (ucast (arr ! 1))
     OR push_bit 16 (ucast (arr ! 2)) OR push_bit 24 (ucast (arr ! 3))"

definition bswap_16 :: "u16 \<Rightarrow> u16" where
  "bswap_16 x = push_bit 8 x OR drop_bit 8 x"

definition bswap_32 :: "u32 \<Rightarrow> u32" where
  "bswap_32 x = push_bit 24 (take_bit 8 x) OR push_bit 16 (take_bit 8 (drop_bit 8 x))
     OR push_bit 8 (take_bit 8 (drop_bit 16 x)) OR drop_bit 24 x"

definition fromArray_i386_u16 :: "byte list \<Rightarrow> u16" where
  "fromArray_i386_u16 arr = bswap_16 (load_le16 arr)"

definition fromArray_i386_u32 :: "byte list \<Rightarrow> u32" where
  "fromArray_i386_u32 arr = bswap_32 (load_le32 arr)"

section \<open>The identifier template (AbstractId.h)\<close>

text \<open>The generic template keeps its bytes in an array.\<close>

fun AbstractID_num_loop :: "nat \<Rightarrow> u32 \<Rightarrow> byte list \<Rightarrow> byte list" where
  "AbstractID_num_loop 0 num ident = ident"
| "AbstractID_num_loop (Suc i) num ident =
     AbstractID_num_loop i (drop_bit 8 num) (ucast (num AND 0xFF) # ident)"

definition AbstractID_num :: "nat \<Rightarrow> u32 \<Rightarrow> byte list" where
  "AbstractID_num sz num = AbstractID_num_loop sz num []"

fun lexi_bool_op :: "(nat \<Rightarrow> nat \<Rightarrow> bool) \<Rightarrow> byte list \<Rightarrow> byte list \<Rightarrow> bool" where
  "lexi_bool_op rel (x # xs) (y # ys) =
     (if x = y then lexi_bool_op rel xs ys
      else if \<not> rel (unat x) (unat y) then False
      else True)"
| "lexi_bool_op rel _ _ = rel 0 0"

definition hexnum :: string where
  "hexnum = ''0123456789ABCDEF''"

fun AbstractID_print :: "byte list \<Rightarrow> string" where
  "AbstractID_print [] = []"
| "AbstractID_print (b # bs) =
     hexnum ! (unat b div 16) # hexnum ! (unat b mod 16) # AbstractID_print bs"

text \<open>The specialisation for six bytes.\<close>

datatype NodeId = NodeId (id_d: u64)

definition NodeId_default :: NodeId where
  "NodeId_default = NodeId 0"

definition NodeId_num :: "u32 \<Rightarrow> NodeId" where
  "NodeId_num num = NodeId (ucast num)"

fun NodeId_fromArray_loop :: "u64 \<Rightarrow> byte list \<Rightarrow> u64" where
  "NodeId_fromArray_loop v [] = v"
| "NodeId_fromArray_loop v (b # bs) = NodeId_fromArray_loop ((v * 0x100) OR ucast b) bs"

definition NodeId_fromArray :: "byte list \<Rightarrow> NodeId" where
  "NodeId_fromArray arr = NodeId (NodeId_fromArray_loop 0 (take 6 arr))"

fun NodeId_toArray_loop :: "nat \<Rightarrow> u64 \<Rightarrow> byte list \<Rightarrow> byte list" where
  "NodeId_toArray_loop 0 dd arr = arr"
| "NodeId_toArray_loop (Suc i) dd arr = NodeId_toArray_loop i (dd div 0x100) (ucast dd # arr)"

definition NodeId_toArray :: "NodeId \<Rightarrow> byte list" where
  "NodeId_toArray i = NodeId_toArray_loop 6 (id_d i) []"

definition NodeId_fromArray_i386 :: "byte list \<Rightarrow> NodeId" where
  "NodeId_fromArray_i386 arr =
     (let s = bswap_16 (load_le16 arr);
          l = bswap_32 (load_le32 (drop 2 arr))
      in NodeId ((ucast s * 0x100000000) OR ucast l))"

text \<open>The buffer of the output operator is filled from its end, two digits at a time.\<close>

fun NodeId_print_loop :: "nat \<Rightarrow> u64 \<Rightarrow> string \<Rightarrow> string" where
  "NodeId_print_loop 0 dd buf = buf"
| "NodeId_print_loop (Suc i) dd buf =
     (let x = (ucast dd :: byte)
      in NodeId_print_loop i (dd div 0x100)
           (hexnum ! (unat x div 16) # hexnum ! (unat x mod 16) # buf))"

definition NodeId_print :: "NodeId \<Rightarrow> string" where
  "NodeId_print i = NodeId_print_loop 6 (id_d i) []"

text \<open>The comparison operators compare the integers.\<close>

definition NodeId_lt :: "NodeId \<Rightarrow> NodeId \<Rightarrow> bool" where
  "NodeId_lt a b \<longleftrightarrow> id_d a < id_d b"

definition NodeId_le :: "NodeId \<Rightarrow> NodeId \<Rightarrow> bool" where
  "NodeId_le a b \<longleftrightarrow> id_d a \<le> id_d b"

text \<open>They make the identifiers a linear order, so that the library's ordered containers apply.\<close>

instantiation NodeId :: linorder
begin

definition less_NodeId :: "NodeId \<Rightarrow> NodeId \<Rightarrow> bool" where
  "less_NodeId = NodeId_lt"

definition less_eq_NodeId :: "NodeId \<Rightarrow> NodeId \<Rightarrow> bool" where
  "less_eq_NodeId = NodeId_le"

instance
  by standard
    (auto simp: less_NodeId_def less_eq_NodeId_def NodeId_lt_def NodeId_le_def
      intro: NodeId.expand)

end

lemma NodeId_less_d: "a < b \<longleftrightarrow> id_d a < id_d b" for a b :: NodeId
  by (simp add: less_NodeId_def NodeId_lt_def)

lemma NodeId_le_d: "a \<le> b \<longleftrightarrow> id_d a \<le> id_d b" for a b :: NodeId
  by (simp add: less_eq_NodeId_def NodeId_le_def)

text \<open>Identifiers that fit in six bytes: every one that came from an array or a number.\<close>

definition NodeId_ok :: "NodeId \<Rightarrow> bool" where
  "NodeId_ok i \<longleftrightarrow> unat (id_d i) < 2 ^ 48"

section \<open>Big-endian values\<close>

fun be_nat_from :: "nat \<Rightarrow> byte list \<Rightarrow> nat" where
  "be_nat_from v [] = v"
| "be_nat_from v (b # bs) = be_nat_from (v * 256 + unat b) bs"

abbreviation be_nat :: "byte list \<Rightarrow> nat" where
  "be_nat \<equiv> be_nat_from 0"

fun be_bytes :: "nat \<Rightarrow> nat \<Rightarrow> byte list" where
  "be_bytes 0 v = []"
| "be_bytes (Suc k) v = be_bytes k (v div 256) @ [of_nat (v mod 256)]"

lemma length_be_bytes [simp]: "length (be_bytes k v) = k"
  by (induction k v rule: be_bytes.induct) auto

lemma be_nat_from_append:
  "be_nat_from v (xs @ ys) = be_nat_from (be_nat_from v xs) ys"
  by (induction v xs rule: be_nat_from.induct) auto

lemma be_nat_from_shift: "be_nat_from v bs = v * 256 ^ length bs + be_nat bs"
proof (induction bs arbitrary: v)
  case (Cons b bs)
  show ?case
    using Cons [of "v * 256 + unat b"] Cons [of "unat b"]
    by (simp add: algebra_simps)
qed simp

lemma unat_byte_less: "unat (b :: byte) < 256"
  using unsigned_less [of b, where ?'a = nat] by simp

lemma be_nat_less: "be_nat bs < 256 ^ length bs"
proof (induction bs)
  case (Cons b bs)
  have "unat b * 256 ^ length bs + be_nat bs < (unat b + 1) * 256 ^ length bs"
    using Cons by (simp add: algebra_simps)
  also have "\<dots> \<le> 256 * 256 ^ length bs"
    using unat_byte_less [of b] by (intro mult_right_mono) auto
  finally show ?case
    by (simp add: be_nat_from_shift [of "unat b"])
qed simp

lemma unat_of_nat_byte: "unat (of_nat (v mod 256) :: byte) = v mod 256"
  by (simp add: unat_of_nat)

lemma be_nat_be_bytes: "be_nat (be_bytes k v) = v mod 256 ^ k"
proof (induction k arbitrary: v)
  case (Suc k)
  have "v mod 256 ^ Suc k = (v div 256) mod 256 ^ k * 256 + v mod 256"
    by (simp add: mod_mult2_eq mult.commute)
  then show ?case
    by (simp add: be_nat_from_append Suc unat_of_nat_byte)
qed simp

lemma be_bytes_be_nat: "be_bytes (length bs) (be_nat bs) = bs"
proof (induction bs rule: rev_induct)
  case (snoc b bs)
  have "be_nat (bs @ [b]) div 256 = be_nat bs" "be_nat (bs @ [b]) mod 256 = unat b"
    using unat_byte_less [of b] by (simp_all add: be_nat_from_append)
  with snoc show ?case by simp
qed simp

text \<open>Of arrays of one length, the numeric order is the \<open>memcmp\<close> order.\<close>

lemma be_nat_less_iff:
  "length xs = length ys \<Longrightarrow> be_nat xs < be_nat ys \<longleftrightarrow> memcmp xs ys < 0"
proof (induction xs ys rule: memcmp.induct)
  case (1 x xs y ys)
  let ?k = "256 ^ length ys :: nat"
  have len: "length xs = length ys"
    using "1.prems" by simp
  have split: "be_nat (x # xs) = unat x * ?k + be_nat xs" "be_nat (y # ys) = unat y * ?k + be_nat ys"
    using len by (simp_all add: be_nat_from_shift [of "unat _"])
  have lt: "be_nat xs < ?k" "be_nat ys < ?k"
    using be_nat_less [of xs] be_nat_less [of ys] len by simp_all
  consider "x = y" | "x < y" | "y < x"
    by fastforce
  then show ?case
  proof cases
    case 1
    then show ?thesis
      using "1.IH" len split by simp
  next
    case 2
    then have "unat x + 1 \<le> unat y" by (simp add: word_less_nat_alt)
    then have "(unat x + 1) * ?k \<le> unat y * ?k" by (rule mult_right_mono) simp
    moreover have "x \<noteq> y" using 2 by simp
    ultimately show ?thesis
      using 2 split lt by (simp add: algebra_simps)
  next
    case 3
    then have "unat y + 1 \<le> unat x" by (simp add: word_less_nat_alt)
    then have "(unat y + 1) * ?k \<le> unat x * ?k" by (rule mult_right_mono) simp
    then show ?thesis
      using 3 split lt by (auto simp: algebra_simps)
  qed
qed auto

section \<open>Words and big-endian values\<close>

lemma unat_push_bit_8: 
  fixes v :: "'a::len word"
  assumes "unat v * 256 < 2 ^ LENGTH('a)"
  shows "unat (push_bit 8 v) = unat v * 256"
proof -
  have "unat (push_bit 8 v) = take_bit LENGTH('a) (push_bit 8 (unat v))"
    by (rule unsigned_push_bit_eq)
  also have "push_bit 8 (unat v) = unat v * 256"
    by (simp add: push_bit_eq_mult)
  also have "take_bit LENGTH('a) (unat v * 256) = unat v * 256"
    using assms by (rule take_bit_nat_eq_self)
  finally show ?thesis .
qed

lemma unat_ucast_byte: "8 \<le> LENGTH('a) \<Longrightarrow> unat (ucast (b :: byte) :: 'a::len word) = unat b"
proof -
  assume "8 \<le> LENGTH('a)"
  then have "(2::nat) ^ 8 \<le> 2 ^ LENGTH('a)" by (intro power_increasing) auto
  with unat_byte_less [of b] have "unat b < 2 ^ LENGTH('a)" by simp
  then show ?thesis by (simp add: unsigned_ucast_eq take_bit_nat_eq_self)
qed

lemma or_byte_eq_plus: 
  fixes v :: "'a::len word"
  shows "push_bit 8 v OR ucast (b::byte) = push_bit 8 v + ucast b"
  by (rule disjunctive_add [symmetric]) (auto simp: bit_simps dest: bit_imp_le_length)

lemma unat_or_byte: 
  fixes v :: "'a::len word"
  assumes "8 \<le> LENGTH('a)" "unat v * 256 + unat b < 2 ^ LENGTH('a)"
  shows "unat (push_bit 8 v OR ucast (b::byte)) = unat v * 256 + unat b"
proof -
  have "unat (push_bit 8 v) = unat v * 256"
    using assms by (intro unat_push_bit_8) simp
  moreover have "unat (ucast b :: 'a word) = unat b"
    using assms by (intro unat_ucast_byte)
  ultimately show ?thesis
    using assms(2) by (simp only: or_byte_eq_plus unat_word_ariths(1)) simp
qed

lemma unat_fromArray_loop:
  fixes v :: "'a::len word"
  assumes "8 \<le> LENGTH('a)" "(unat v + 1) * 256 ^ length bs \<le> 2 ^ LENGTH('a)"
  shows "unat (fromArray_loop v bs) = be_nat_from (unat v) bs"
  using assms(2)
proof (induction bs arbitrary: v)
  case (Cons b bs)
  have "unat b + 1 \<le> 256" using unat_byte_less [of b] by simp
  then have "(unat v * 256 + unat b + 1) * 256 ^ length bs \<le> (unat v + 1) * 256 * 256 ^ length bs"
    by (intro mult_right_mono) auto
  also have "\<dots> \<le> 2 ^ LENGTH('a)"
    using Cons.prems by (simp add: algebra_simps)
  finally have 1: "(unat v * 256 + unat b + 1) * 256 ^ length bs \<le> 2 ^ LENGTH('a)" .
  have "(unat v * 256 + unat b + 1) * 1 \<le> (unat v * 256 + unat b + 1) * 256 ^ length bs"
    by (intro mult_left_mono) auto
  with 1 have "(unat v * 256 + unat b + 1) * 1 \<le> 2 ^ LENGTH('a)"
    by (rule order_trans [rotated])
  then have "unat v * 256 + unat b < 2 ^ LENGTH('a)" by simp
  then have "unat (push_bit 8 v OR ucast b) = unat v * 256 + unat b"
    using assms(1) by (rule unat_or_byte [rotated])
  with 1 Cons.IH show ?case by simp
qed simp

lemma toArray_loop_be_bytes:
  fixes v :: "'a::len word"
  assumes "8 \<le> LENGTH('a)"
  shows "toArray_loop k v arr = be_bytes k (unat v) @ arr"
proof (induction k arbitrary: v arr)
  case (Suc k)
  have "unat (drop_bit 8 v) = unat v div 256"
  proof -
    have "unat (drop_bit 8 v) = drop_bit 8 (take_bit LENGTH('a) (unat v))"
      by (rule unsigned_drop_bit_eq)
    then show ?thesis by (simp add: drop_bit_eq_div take_bit_nat_eq_self)
  qed
  moreover have "(ucast v :: byte) = of_nat (unat v mod 256)"
    by (rule word_unat_eq_iff [THEN iffD2]) (simp add: unsigned_ucast_eq take_bit_eq_mod unat_of_nat)
  ultimately show ?case using Suc by simp
qed simp

text \<open>
  A machine integer whose width is a multiple of eight survives the trip through a byte array,
  and so does a byte array of that width.
\<close>

lemma toArray_be_bytes:
  fixes v :: "'a::len word"
  assumes "8 \<le> LENGTH('a)"
  shows "toArray v = be_bytes (LENGTH('a) div 8) (unat v)"
  using assms by (simp add: toArray_def toArray_loop_be_bytes)

lemma length_toArray:
  fixes v :: "'a::len word"
  assumes "8 \<le> LENGTH('a)"
  shows "length (toArray v) = LENGTH('a) div 8"
  using assms by (simp add: toArray_be_bytes)

lemma unat_fromArray:
  assumes "8 \<le> LENGTH('a)" "LENGTH('a) div 8 \<le> length arr"
  shows "unat (fromArray arr :: 'a::len word) = be_nat (take (LENGTH('a) div 8) arr)"
proof -
  have "(256::nat) ^ (LENGTH('a) div 8) = 2 ^ (8 * (LENGTH('a) div 8))"
    by (simp add: power_mult)
  also have "\<dots> \<le> 2 ^ LENGTH('a)"
    by (intro power_increasing) auto
  finally show ?thesis
    using assms by (simp add: fromArray_def unat_fromArray_loop min_absorb2)
qed

lemma fromArray_toArray:
  fixes v :: "'a::len word"
  assumes "8 dvd LENGTH('a)"
  shows "fromArray (toArray v @ rest) = v"
proof -
  from assms obtain k where k: "LENGTH('a) = 8 * k" ..
  then have "0 < k" by (metis len_gt_0 mult_0_right gr0I less_irrefl)
  with k have len: "8 \<le> LENGTH('a)" "LENGTH('a) div 8 = k" by auto
  have "unat (fromArray (toArray v @ rest) :: 'a word) = be_nat (be_bytes k (unat v))"
    using len by (simp add: unat_fromArray toArray_be_bytes)
  also have "\<dots> = unat v mod 2 ^ LENGTH('a)"
    by (simp add: be_nat_be_bytes k power_mult)
  finally show ?thesis by (simp add: word_unat_eq_iff)
qed

lemma toArray_fromArray:
  assumes "8 dvd LENGTH('a)" "length arr = LENGTH('a) div 8"
  shows "toArray (fromArray arr :: 'a::len word) = arr"
proof -
  from assms obtain k where k: "LENGTH('a) = 8 * k" by auto
  then have "0 < k" by (metis len_gt_0 mult_0_right gr0I less_irrefl)
  with k have len: "8 \<le> LENGTH('a)" "LENGTH('a) div 8 = k" by auto
  then show ?thesis
    using assms be_bytes_be_nat [of arr] by (simp add: toArray_be_bytes unat_fromArray)
qed

section \<open>Identifiers and big-endian values\<close>

lemma NodeId_fromArray_loop_eq: "NodeId_fromArray_loop v bs = fromArray_loop v bs"
  by (induction v bs rule: NodeId_fromArray_loop.induct) (simp_all add: push_bit_eq_mult)

lemma NodeId_toArray_loop_eq: "NodeId_toArray_loop k v arr = toArray_loop k v arr"
  by (induction k v arr rule: NodeId_toArray_loop.induct) (simp_all add: drop_bit_eq_div)

lemma NodeId_toArray_be_bytes: "NodeId_toArray i = be_bytes 6 (unat (id_d i))"
  by (simp add: NodeId_toArray_def NodeId_toArray_loop_eq toArray_loop_be_bytes)

lemma length_NodeId_toArray [simp]: "length (NodeId_toArray i) = 6"
  by (simp add: NodeId_toArray_be_bytes)

lemma unat_NodeId_fromArray: "unat (id_d (NodeId_fromArray arr)) = be_nat (take 6 arr)"
proof -
  have "(256::nat) ^ length (take 6 arr) \<le> 256 ^ 6"
    by (intro power_increasing) auto
  then show ?thesis
    by (simp add: NodeId_fromArray_def NodeId_fromArray_loop_eq unat_fromArray_loop)
qed

lemma NodeId_fromArray_ok [simp]: "NodeId_ok (NodeId_fromArray arr)"
proof -
  have "be_nat (take 6 arr) < 256 ^ length (take 6 arr)"
    by (rule be_nat_less)
  also have "\<dots> \<le> 256 ^ 6"
    by (intro power_increasing) auto
  finally show ?thesis by (simp add: NodeId_ok_def unat_NodeId_fromArray)
qed

lemma NodeId_eq_iff: "a = b \<longleftrightarrow> unat (id_d a) = unat (id_d b)"
  by (cases a; cases b) (simp add: word_unat_eq_iff)

lemma NodeId_less_iff: "a < b \<longleftrightarrow> unat (id_d a) < unat (id_d b)"
  by (simp add: NodeId_less_d word_less_nat_alt)

lemma NodeId_fromArray_toArray [simp]:
  "NodeId_ok i \<Longrightarrow> NodeId_fromArray (NodeId_toArray i @ rest) = i"
  by (simp add: NodeId_eq_iff unat_NodeId_fromArray NodeId_toArray_be_bytes be_nat_be_bytes
      NodeId_ok_def)

lemma NodeId_fromArray_toArray' [simp]:
  "NodeId_ok i \<Longrightarrow> NodeId_fromArray (NodeId_toArray i) = i"
  using NodeId_fromArray_toArray [of i "[]"] by simp

lemma NodeId_toArray_fromArray [simp]:
  "length arr = 6 \<Longrightarrow> NodeId_toArray (NodeId_fromArray arr) = arr"
  using be_bytes_be_nat [of arr] by (simp add: NodeId_toArray_be_bytes unat_NodeId_fromArray)

lemma be_nat_NodeId_toArray: "NodeId_ok i \<Longrightarrow> be_nat (NodeId_toArray i) = unat (id_d i)"
  by (simp add: NodeId_toArray_be_bytes be_nat_be_bytes NodeId_ok_def)

lemma NodeId_less_memcmp:
  "NodeId_ok a \<Longrightarrow> NodeId_ok b \<Longrightarrow> a < b \<longleftrightarrow> memcmp (NodeId_toArray a) (NodeId_toArray b) < 0"
  using be_nat_less_iff [of "NodeId_toArray a" "NodeId_toArray b"]
  by (simp add: NodeId_less_iff be_nat_NodeId_toArray)

lemma NodeId_toArray_inject:
  "NodeId_ok a \<Longrightarrow> NodeId_ok b \<Longrightarrow> NodeId_toArray a = NodeId_toArray b \<longleftrightarrow> a = b"
  by (metis NodeId_fromArray_toArray')

lemma NodeId_num_ok [simp]: "NodeId_ok (NodeId_num num)"
proof -
  have "unat num < 2 ^ 32" using unsigned_less [of num, where ?'a = nat] by simp
  then show ?thesis
    by (simp add: NodeId_ok_def NodeId_num_def unsigned_ucast_eq take_bit_nat_eq_self)
qed

lemma NodeId_default_ok [simp]: "NodeId_ok NodeId_default"
  by (simp add: NodeId_ok_def NodeId_default_def)

section \<open>The i386 variants\<close>

lemma bit_byte_ge: "8 \<le> n \<Longrightarrow> bit (b :: byte) n \<longleftrightarrow> False"
  using bit_imp_le_length [of b n] by auto

lemma bit_u32_ge: "32 \<le> n \<Longrightarrow> bit (b :: u32) n \<longleftrightarrow> False"
  using bit_imp_le_length [of b n] by auto

lemma bit_load_le32: "bit (load_le32 (a # b # c # e # r)) n \<longleftrightarrow> 
  (if n < 8 then bit a n else if n < 16 then bit b (n - 8) else if n < 24 then bit c (n - 16) else if n < 32 then bit e (n - 24) else False)"
  by (simp add: load_le32_def bit_simps bit_byte_ge) auto
lemma bit_bswap_32: "bit (bswap_32 x) n \<longleftrightarrow> 
  (if n < 8 then bit x (24 + n) else if n < 16 then bit x (8 + n) else if n < 24 then bit x (n - 8) else if n < 32 then bit x (n - 24) else False)"
  by (simp add: bswap_32_def bit_simps bit_u32_ge add.commute) auto

lemma bit_fromArray_u32: "bit (fromArray_loop 0 [a, b, c, e] :: u32) n \<longleftrightarrow> 
  (if n < 8 then bit e n else if n < 16 then bit c (n - 8) else if n < 24 then bit b (n - 16) else if n < 32 then bit a (n - 24) else False)"
  by (simp add: bit_simps bit_byte_ge) auto
lemma i386_32: "bswap_32 (load_le32 (a # b # c # e # r)) = fromArray_loop 0 [a, b, c, e]"
proof (rule bit_eqI)
  fix n :: nat
  have "n - 8 < 16 \<and> \<not> n - 8 < 8" if "16 \<le> n" "n < 24" using that by auto
  then show "bit (bswap_32 (load_le32 (a # b # c # e # r))) n = bit (fromArray_loop 0 [a, b, c, e] :: u32) n"
   by (simp only: bit_bswap_32 bit_load_le32 bit_fromArray_u32) auto
qed

lemma i386_16: "bswap_16 (load_le16 (a # b # r)) = fromArray_loop 0 [a, b]"
  by (rule bit_eqI)
    (auto simp: bswap_16_def load_le16_def bit_simps dest: bit_imp_le_length)

lemma NodeId_fromArray_halves:
  "NodeId (ucast (fromArray_loop 0 [a, b] :: u16) * 0x100000000 OR ucast (fromArray_loop 0 [c, e, f, g] :: u32)) = NodeId_fromArray [a,b,c,e,f,g]"
proof -
  have lt: "be_nat [a,b] < 256^2" "be_nat [c,e,f,g] < 256^4"
    using be_nat_less [of "[a,b]"] be_nat_less [of "[c,e,f,g]"] by auto
  have u: "unat (fromArray_loop 0 [a, b] :: u16) = be_nat [a, b]"
    "unat (fromArray_loop 0 [c, e, f, g] :: u32) = be_nat [c, e, f, g]"
    by (subst unat_fromArray_loop; simp)+
  let ?s = "ucast (fromArray_loop 0 [a, b] :: u16) :: u64" and ?l = "ucast (fromArray_loop 0 [c, e, f, g] :: u32) :: u64"
  have us: "unat ?s = be_nat [a, b]" "unat ?l = be_nat [c, e, f, g]"
    using lt u by (simp_all only: unsigned_ucast_eq) (simp_all add: take_bit_nat_eq_self)
  have "?s * 0x100000000 OR ?l = push_bit 32 ?s + ?l"
  proof -
    have "\<not> bit (push_bit 32 ?s) n \<or> \<not> bit ?l n" for n
      using bit_u32_ge [of n "fromArray_loop 0 [c, e, f, g]"]
      by (auto simp: bit_push_bit_iff bit_ucast_iff simp del: fromArray_loop.simps)
    then have "push_bit 32 ?s + ?l = push_bit 32 ?s OR ?l"
      by (intro disjunctive_add) blast
    then show ?thesis by (simp add: push_bit_eq_mult del: fromArray_loop.simps)
  qed
  also have "unat \<dots> = be_nat [a,b] * 256 ^ 4 + be_nat [c,e,f,g]"
    using lt us by (simp only: push_bit_eq_mult unat_word_ariths) simp
  also have "\<dots> = be_nat [a,b,c,e,f,g]"
    by simp
  finally show ?thesis
    by (simp add: NodeId_eq_iff unat_NodeId_fromArray)
qed

section \<open>The byte-wise comparison operators\<close>

lemma lexi_less: "length xs = length ys \<Longrightarrow> lexi_bool_op (<) xs ys \<longleftrightarrow> memcmp xs ys < 0"
  by (induction xs ys rule: memcmp.induct) (auto simp: word_less_nat_alt)

lemma lexi_eq: "length xs = length ys \<Longrightarrow> lexi_bool_op (=) xs ys \<longleftrightarrow> memcmp xs ys = 0"
  by (induction xs ys rule: memcmp.induct) (auto simp: word_unat_eq_iff)

lemma lexi_neq: "length xs = length ys \<Longrightarrow> lexi_bool_op (\<noteq>) xs ys \<longleftrightarrow> memcmp xs ys \<noteq> 0"
  by (induction xs ys rule: memcmp.induct) (auto simp: word_unat_eq_iff)

lemma lexi_le: "length xs = length ys \<Longrightarrow> lexi_bool_op (\<le>) xs ys \<longleftrightarrow> memcmp xs ys \<le> 0"
  by (induction xs ys rule: memcmp.induct) (auto simp: word_less_nat_alt word_unat_eq_iff)

lemma lexi_greater: "length xs = length ys \<Longrightarrow> lexi_bool_op (>) xs ys \<longleftrightarrow> memcmp xs ys > 0"
  by (induction xs ys rule: memcmp.induct) (auto simp: word_less_nat_alt word_unat_eq_iff)

lemma NodeId_eq_memcmp:
  "NodeId_ok a \<Longrightarrow> NodeId_ok b \<Longrightarrow> a = b \<longleftrightarrow> memcmp (NodeId_toArray a) (NodeId_toArray b) = 0"
  using memcmp_eq_0 [of "NodeId_toArray a" "NodeId_toArray b"] by (simp add: NodeId_toArray_inject)

lemma AbstractID_num_loop_eq:
  "AbstractID_num_loop k num ident = toArray_loop k num ident"
proof (induction k num ident rule: AbstractID_num_loop.induct)
  case (2 i num ident)
  have "(ucast (num AND 0xFF) :: byte) = ucast num"
  proof (rule bit_eqI)
    fix n
    assume "possible_bit TYPE(8 word) n"
    then have "n < 8" by simp
    moreover have "num AND 0xFF = take_bit 8 num"
      by (simp add: take_bit_eq_mask mask_eq_exp_minus_1)
    ultimately show "bit (ucast (num AND 0xFF) :: byte) n = bit (ucast num :: byte) n"
      by (simp add: bit_simps)
  qed
  with 2 show ?case by simp
qed simp

lemma NodeId_print_eq: "NodeId_print i = AbstractID_print (NodeId_toArray i)"
proof -
  have "NodeId_print_loop k v (AbstractID_print arr) = AbstractID_print (NodeId_toArray_loop k v arr)"
    for k v arr
    by (induction k v arr rule: NodeId_toArray_loop.induct)
      (simp_all add: Let_def flip: AbstractID_print.simps(2))
  from this [of 6 "id_d i" "[]"] show ?thesis
    by (simp add: NodeId_print_def NodeId_toArray_def)
qed

section \<open>Properties\<close>

text \<open>
  Identifiers survive the trip through a packet.  Reading six bytes and writing
  them back gives the same bytes; writing an identifier that fits in six bytes and reading it
  back gives the identifier, whatever follows it in the buffer; and every identifier read
  from a buffer fits in six bytes.
\<close>

theorem NodeId_array_roundtrip:
  assumes "NodeId_ok i" "length arr = 6"
  shows "NodeId_fromArray (NodeId_toArray i @ rest) = i \<and>
    NodeId_toArray (NodeId_fromArray arr) = arr \<and> NodeId_ok (NodeId_fromArray (arr @ rest))"
  using assms by simp

theorem NodeId_array_roundtrip_witness:
  "NodeId_fromArray (NodeId_toArray (NodeId 0x0A12CF0041B0) @ [7]) = NodeId 0x0A12CF0041B0 \<and>
   NodeId_toArray (NodeId_fromArray [10, 18, 207, 0, 65, 176]) = [10, 18, 207, 0, 65, 176] \<and>
   NodeId_ok (NodeId_fromArray ([10, 18, 207, 0, 65, 176] @ [7]))"
  by (rule NodeId_array_roundtrip) (simp_all add: NodeId_ok_def)

text \<open>
  Property C26: the comparison operators of the six-byte specialisation, which compare one
  64-bit integer, agree with the byte-wise operators of the generic template on the bytes of
  the identifiers, and with \<open>memcmp\<close>.
\<close>

theorem NodeId_order_lexicographic:
  assumes "NodeId_ok a" "NodeId_ok b"
  shows "NodeId_lt a b = lexi_bool_op (<) (NodeId_toArray a) (NodeId_toArray b) \<and>
    NodeId_le a b = lexi_bool_op (\<le>) (NodeId_toArray a) (NodeId_toArray b) \<and>
    NodeId_lt b a = lexi_bool_op (>) (NodeId_toArray a) (NodeId_toArray b) \<and>
    (a = b) = lexi_bool_op (=) (NodeId_toArray a) (NodeId_toArray b) \<and>
    (a \<noteq> b) = lexi_bool_op (\<noteq>) (NodeId_toArray a) (NodeId_toArray b) \<and>
    (a < b) = NodeId_lt a b \<and> (a \<le> b) = NodeId_le a b \<and>
    NodeId_lt a b = (memcmp (NodeId_toArray a) (NodeId_toArray b) < 0)"
  unfolding less_NodeId_def [symmetric] less_eq_NodeId_def [symmetric]
  using assms NodeId_less_memcmp [of a b] NodeId_less_memcmp [of b a] NodeId_eq_memcmp [of a b]
    memcmp_swap [of "NodeId_toArray a" "NodeId_toArray b"]
  by (auto simp: lexi_less lexi_le lexi_greater lexi_eq lexi_neq order.order_iff_strict)

theorem NodeId_order_lexicographic_witness:
  "NodeId_lt (NodeId 0x1FF) (NodeId 0x200) =
     lexi_bool_op (<) (NodeId_toArray (NodeId 0x1FF)) (NodeId_toArray (NodeId 0x200))"
  by (rule NodeId_order_lexicographic [THEN conjunct1]) (simp_all add: NodeId_ok_def)

text \<open>
  The i386 variants, which load a word and swap its bytes, compute the same
  integers and the same identifier as the portable loops.
\<close>

theorem fromArray_i386_equiv:
  assumes "length arr = 6"
  shows "NodeId_fromArray_i386 arr = NodeId_fromArray arr \<and>
    fromArray_i386_u16 arr = fromArray arr \<and> fromArray_i386_u32 arr = fromArray arr"
proof -
  obtain a b c e f g where arr: "arr = [a, b, c, e, f, g]"
    using assms by (auto simp: numeral_eq_Suc length_Suc_conv)
  show ?thesis
    unfolding arr NodeId_fromArray_i386_def fromArray_i386_u16_def fromArray_i386_u32_def
    using NodeId_fromArray_halves [of a b c e f g]
    by (simp add: Let_def i386_16 i386_32 fromArray_def del: fromArray_loop.simps)
qed

theorem fromArray_i386_equiv_witness:
  "NodeId_fromArray_i386 [1, 2, 3, 4, 5, 6] = NodeId_fromArray [1, 2, 3, 4, 5, 6] \<and>
   fromArray_i386_u16 [1, 2, 3, 4, 5, 6] = fromArray [1, 2, 3, 4, 5, 6] \<and>
   fromArray_i386_u32 [1, 2, 3, 4, 5, 6] = fromArray [1, 2, 3, 4, 5, 6]"
  by (rule fromArray_i386_equiv) simp

text \<open>
  \<open>toArray<T>\<close> and \<open>fromArray<T>\<close> are inverse to each other for every integer
  type whose width is a whole number of bytes, and \<open>toArray<T>\<close> writes exactly that many
  bytes.
\<close>

theorem toArray_fromArray_inverse:
  fixes v :: "'a::len word"
  assumes "8 dvd LENGTH('a)" "length arr = LENGTH('a) div 8"
  shows "fromArray (toArray v @ rest) = v \<and> toArray (fromArray arr :: 'a word) = arr \<and>
    length (toArray v) = LENGTH('a) div 8"
proof -
  have "8 \<le> LENGTH('a)"
    using assms(1) by (intro dvd_imp_le) auto
  then show ?thesis
    using assms by (simp add: fromArray_toArray toArray_fromArray length_toArray)
qed

theorem toArray_fromArray_inverse_witness:
  "fromArray (toArray (0xBEEF :: u16) @ [1]) = (0xBEEF :: u16) \<and>
   toArray (fromArray [0xBE, 0xEF] :: u16) = [0xBE, 0xEF] \<and>
   length (toArray (0xBEEF :: u16)) = LENGTH(16) div 8"
  by (rule toArray_fromArray_inverse) simp_all

end
