(* ===== verification/Kernel_Base.thy ===== *)
theory Kernel_Base
  imports Node_Id
begin

text \<open>
  The data of the kernel module: the constants of \<open>src/linux-module/awds_defines.h\<close>, the
  structures and global variables of \<open>src/linux-module/awds_module.h\<close> and \<open>awds_module.c\<close>,
  and the way its functions are modelled.

  Objects live in heaps, one map per structure, and are named by addresses; an address that
  is not in its map has been freed or was never allocated.  A function of the module takes
  the state and returns either a fault (a null or freed pointer is dereferenced, an array is
  read out of bounds, a mutex is taken a second time, a loop does not end) or its result and the new state.  The
  functions of Linux the module calls are the fields of \<open>linux\<close>, an argument of the
  functions that use them.
\<close>

unbundle bit_operations_syntax

section \<open>awds_defines.h\<close>

definition PF_AWDS :: int where "PF_AWDS = 32"
definition ETH_P_AWDS :: u16 where "ETH_P_AWDS = 0x8334"
definition AWDS_HLEN :: nat where "AWDS_HLEN = 23"
definition AWDS_DEST_OFFSET :: nat where "AWDS_DEST_OFFSET = 9"
definition AWDS_NEXTHOP_OFFSET :: nat where "AWDS_NEXTHOP_OFFSET = 15"
definition AWDS_TTL_OFFSET :: nat where "AWDS_TTL_OFFSET = 21"
definition AWDS_FLOODTYPE_OFFSET :: nat where "AWDS_FLOODTYPE_OFFSET = 17"
definition AWDS_IOC_MAX_NR :: nat where "AWDS_IOC_MAX_NR = 2"
definition PACKET_BEACON :: int where "PACKET_BEACON = 0"
definition PACKET_FLOOD :: int where "PACKET_FLOOD = 1"
definition PACKET_UNICAST :: int where "PACKET_UNICAST = 2"
definition PACKET_FOREWARD :: int where "PACKET_FOREWARD = 3"
definition FLOOD_PACKET_TOPO :: int where "FLOOD_PACKET_TOPO = 0"
definition FLOOD_PACKET_MCAST :: int where "FLOOD_PACKET_MCAST = 1"
definition FLOOD_PACKET_PRIV :: int where "FLOOD_PACKET_PRIV = 2"
definition MAX_AWDS_COUNT :: nat where "MAX_AWDS_COUNT = 4"
definition MAX_AWDS_INDEX :: int where "MAX_AWDS_INDEX = int MAX_AWDS_COUNT - 1"
definition MAX_AWDS_UC_INTERVAL :: int where "MAX_AWDS_UC_INTERVAL = 15"
definition EAWDSINVAL :: int where "EAWDSINVAL = 1"
definition EAWDSEXIST :: int where "EAWDSEXIST = 2"
definition EAWDSFULL :: int where "EAWDSFULL = 3"
definition EAWDSNOMUTEX :: int where "EAWDSNOMUTEX = 4"
definition EAWDSMISSING :: int where "EAWDSMISSING = 5"
definition AWDS_LOCAL_CONFIG :: u16 where "AWDS_LOCAL_CONFIG = push_bit 0 1"
definition AWDS_FORWARD_CONFIG :: u16 where "AWDS_FORWARD_CONFIG = push_bit 1 1"

text \<open>The Linux constants the module uses.\<close>

definition ETH_ALEN :: nat where "ETH_ALEN = 6"
definition ETH_HLEN :: nat where "ETH_HLEN = 14"
definition EINVAL :: int where "EINVAL = 22"
definition ENXIO :: int where "ENXIO = 6"
definition EAGAIN :: int where "EAGAIN = 11"
definition ENOMEM :: int where "ENOMEM = 12"
definition EFAULT :: int where "EFAULT = 14"
definition ENODEV :: int where "ENODEV = 19"
definition ENOTTY :: int where "ENOTTY = 25"
definition EADDRINUSE :: int where "EADDRINUSE = 98"
definition ENETDOWN :: int where "ENETDOWN = 100"
definition ENOBUFS :: int where "ENOBUFS = 105"
definition ENOIOCTLCMD :: int where "ENOIOCTLCMD = 515"

lemmas awds_defines =
  PF_AWDS_def ETH_P_AWDS_def AWDS_HLEN_def AWDS_DEST_OFFSET_def AWDS_NEXTHOP_OFFSET_def
  AWDS_TTL_OFFSET_def AWDS_FLOODTYPE_OFFSET_def AWDS_IOC_MAX_NR_def PACKET_BEACON_def
  PACKET_FLOOD_def PACKET_UNICAST_def PACKET_FOREWARD_def FLOOD_PACKET_TOPO_def
  FLOOD_PACKET_MCAST_def FLOOD_PACKET_PRIV_def MAX_AWDS_COUNT_def MAX_AWDS_INDEX_def
  MAX_AWDS_UC_INTERVAL_def EAWDSINVAL_def EAWDSEXIST_def EAWDSFULL_def EAWDSNOMUTEX_def
  EAWDSMISSING_def AWDS_LOCAL_CONFIG_def AWDS_FORWARD_CONFIG_def ETH_ALEN_def ETH_HLEN_def

lemmas errno_defs =
  EINVAL_def ENXIO_def EAGAIN_def ENOMEM_def EFAULT_def ENODEV_def ENOTTY_def EADDRINUSE_def
  ENETDOWN_def ENOBUFS_def ENOIOCTLCMD_def

section \<open>Structures\<close>

type_synonym addr = nat

record sockaddr_awds =
  sa_family :: int
  sa_ifindex :: int
  sa_addr :: "byte list"

record awds_uc_dest_table =
  uc_prev :: "addr option"
  uc_next :: "addr option"
  uc_mac :: "byte list"
  uc_time :: int

record awds_instance =
  in_index :: int
  in_sock :: "addr option"
  in_lock :: bool

record awds_interface =
  if_next :: "addr option"
  if_prev :: "addr option"
  if_index :: int
  if_dev :: "addr option"
  if_addr :: sockaddr_awds

text \<open>
  A socket buffer: \<open>skb_data\<close> is what \<open>skb->data\<close> points to, \<open>skb_head\<close> the bytes that lie
  in front of it in the same buffer (the link-level header of a received frame).
\<close>

record sk_buff =
  skb_head :: "byte list"
  skb_data :: "byte list"
  skb_dev :: addr
  skb_protocol :: u16

definition skb_len :: "sk_buff \<Rightarrow> nat" where
  "skb_len skb = length (skb_data skb)"

definition skb_push :: "nat \<Rightarrow> sk_buff \<Rightarrow> sk_buff" where
  "skb_push n skb =
     skb\<lparr>skb_head := take (length (skb_head skb) - n) (skb_head skb),
         skb_data := drop (length (skb_head skb) - n) (skb_head skb) @ skb_data skb\<rparr>"

definition skb_pull :: "nat \<Rightarrow> sk_buff \<Rightarrow> sk_buff" where
  "skb_pull n skb =
     skb\<lparr>skb_head := skb_head skb @ take n (skb_data skb), skb_data := drop n (skb_data skb)\<rparr>"

text \<open>
  A socket: \<open>ifcount\<close>, \<open>interf\<close> and \<open>table\<close> are the fields of \<open>struct awds_sock\<close>; the
  receive queue, the reference count and the error, shutdown and memory state belong to the
  \<open>struct sock\<close> inside it.
\<close>

record awds_sock =
  sk_ifcount :: int
  sk_interf :: "addr option"
  sk_table :: "addr option"
  sk_receive_queue :: "sk_buff list"
  sk_refcnt :: int
  sk_err :: int
  sk_error_queue_empty :: bool
  sk_rcv_shutdown :: bool
  sk_writeable :: bool

record awds_packet_statistic =
  rx_total_packets :: u32
  rx_total_unicast :: u32
  rx_total_beacon :: u32
  rx_total_flood :: u32
  rx_total_foreward :: u32
  rx_local_unicast :: u32
  rx_local_unicast_failed :: u32
  rx_forwarded_unicast :: u32
  rx_flood_topo :: u32
  rx_flood_mcast :: u32
  rx_flood_private :: u32
  tx_total :: u32

definition awds_stats_init :: awds_packet_statistic where
  "awds_stats_init = \<lparr>rx_total_packets = 0, rx_total_unicast = 0, rx_total_beacon = 0,
     rx_total_flood = 0, rx_total_foreward = 0, rx_local_unicast = 0,
     rx_local_unicast_failed = 0, rx_forwarded_unicast = 0, rx_flood_topo = 0,
     rx_flood_mcast = 0, rx_flood_private = 0, tx_total = 0\<rparr>"

section \<open>The state of the module\<close>

text \<open>
  \<open>k_next\<close> is the next address \<open>kmalloc\<close> gives out.  The routing table is the memory
  \<open>awds_routing\<close> points to.  \<open>k_freed_skb\<close>, \<open>k_sent\<close> and \<open>k_delivered\<close> record the
  buffers that were freed, queued for transmission and handed to a local device.
\<close>

record kernel =
  k_mutex :: bool
  k_instance_index :: int
  k_instances :: "addr option list"
  k_inst :: "addr \<rightharpoonup> awds_instance"
  k_iface :: "addr \<rightharpoonup> awds_interface"
  k_sock :: "addr \<rightharpoonup> awds_sock"
  k_uc :: "addr \<rightharpoonup> awds_uc_dest_table"
  k_next :: addr
  k_dev_refs :: "addr \<Rightarrow> int"
  k_routing :: "byte list option"
  k_routing_count :: u32
  k_configuration :: u16
  k_statistics :: u16
  k_stats :: awds_packet_statistic
  k_sent :: "sk_buff list"
  k_delivered :: "sk_buff list"
  k_freed_skb :: "sk_buff list"

text \<open>
  What the module uses of Linux: the device table, whether a device is up, the outcome of
  transmitting, delivering and queueing a buffer, of an allocation and of a copy from user
  space, and the clock.
\<close>

record linux =
  lx_dev_get_by_index :: "int \<Rightarrow> addr option"
  lx_dev_getbyhwaddr :: "byte list \<Rightarrow> addr option"
  lx_dev_up :: "addr \<Rightarrow> bool"
  lx_dev_queue_xmit :: "sk_buff \<Rightarrow> int"
  lx_net_xmit_errno :: "int \<Rightarrow> int"
  lx_netif_rx_ni :: "sk_buff \<Rightarrow> int"
  lx_eth_type_trans :: "sk_buff \<Rightarrow> addr \<Rightarrow> sk_buff \<times> u16"
  lx_sock_queue_rcv_skb :: "awds_sock \<Rightarrow> sk_buff \<Rightarrow> int"
  lx_kmalloc_fails :: "addr \<Rightarrow> bool"
  lx_access_ok :: "nat \<Rightarrow> bool"
  lx_time_sec :: int

section \<open>Computations with faults\<close>

datatype kfault = NullPointer | FreedPointer | OutOfBounds | DeadLock | Diverges

type_synonym 'a kres = "kfault + 'a \<times> kernel"
type_synonym 'a kcomp = "kernel \<Rightarrow> 'a kres"

named_theorems kernel_simps

definition kreturn :: "'a \<Rightarrow> 'a kcomp" where
  "kreturn x s = Inr (x, s)"

definition kfail :: "kfault \<Rightarrow> 'a kcomp" where
  "kfail e s = Inl e"

definition kbind :: "'a kcomp \<Rightarrow> ('a \<Rightarrow> 'b kcomp) \<Rightarrow> 'b kcomp" where
  "kbind m f s = (case m s of Inl e \<Rightarrow> Inl e | Inr (x, s') \<Rightarrow> f x s')"

definition kthen :: "'a kcomp \<Rightarrow> 'b kcomp \<Rightarrow> 'b kcomp" where
  "kthen m n = kbind m (\<lambda>_. n)"

definition kget :: "(kernel \<Rightarrow> 'a) \<Rightarrow> 'a kcomp" where
  "kget f s = Inr (f s, s)"

definition kmod :: "(kernel \<Rightarrow> kernel) \<Rightarrow> unit kcomp" where
  "kmod f s = Inr ((), f s)"

text \<open>The outcome of a loop: \<open>None\<close> if it does not end.\<close>

definition kloop :: "(kfault + 'a) option \<Rightarrow> 'a kcomp" where
  "kloop r = (case r of None \<Rightarrow> kfail Diverges | Some (Inl e) \<Rightarrow> kfail e | Some (Inr x) \<Rightarrow> kreturn x)"

text \<open>Reading an object through a pointer.\<close>

definition deref :: "(kernel \<Rightarrow> addr \<rightharpoonup> 'a) \<Rightarrow> addr option \<Rightarrow> 'a kcomp" where
  "deref h p s =
     (case p of None \<Rightarrow> Inl NullPointer
      | Some a \<Rightarrow> (case h s a of None \<Rightarrow> Inl FreedPointer | Some x \<Rightarrow> Inr (x, s)))"

definition mutex_lock :: "unit kcomp" where
  "mutex_lock s = (if k_mutex s then Inl DeadLock else Inr ((), s\<lparr>k_mutex := True\<rparr>))"

definition mutex_unlock :: "unit kcomp" where
  "mutex_unlock s = Inr ((), s\<lparr>k_mutex := False\<rparr>)"

definition mutex_is_locked :: "bool kcomp" where
  "mutex_is_locked = kget k_mutex"

definition kmalloc :: "linux \<Rightarrow> addr option kcomp" where
  "kmalloc lx s =
     (if lx_kmalloc_fails lx (k_next s) then Inr (None, s\<lparr>k_next := k_next s + 1\<rparr>)
      else Inr (Some (k_next s), s\<lparr>k_next := k_next s + 1\<rparr>))"

lemmas kcomp_defs [kernel_simps] =
  kreturn_def kfail_def kbind_def kthen_def kget_def kmod_def kloop_def deref_def mutex_lock_def
  mutex_unlock_def mutex_is_locked_def kmalloc_def

lemma kbind_assoc: "kbind (kbind m f) g = kbind m (\<lambda>x. kbind (f x) g)"
  by (rule ext) (simp add: kbind_def split: sum.splits prod.splits)

lemma kbind_return [simp]: "kbind (kreturn x) f = f x" "kbind m kreturn = m"
  by (rule ext, simp add: kbind_def kreturn_def split: sum.splits prod.splits)+

text \<open>Incrementing a statistics counter is conditional on the module parameter.\<close>

definition count_stat :: "(awds_packet_statistic \<Rightarrow> awds_packet_statistic) \<Rightarrow> unit kcomp" where
  "count_stat f = kmod (\<lambda>s. if k_statistics s = 1 then s\<lparr>k_stats := f (k_stats s)\<rparr> else s)"

section \<open>Loading and unloading\<close>

text \<open>The global variables before the module is initialised.\<close>

definition kernel_static :: kernel where
  "kernel_static = \<lparr>k_mutex = False, k_instance_index = 0,
     k_instances = replicate MAX_AWDS_COUNT None, k_inst = Map.empty, k_iface = Map.empty,
     k_sock = Map.empty, k_uc = Map.empty, k_next = 1, k_dev_refs = (\<lambda>_. 0), k_routing = None,
     k_routing_count = 0, k_configuration = AWDS_LOCAL_CONFIG OR AWDS_FORWARD_CONFIG,
     k_statistics = 1, k_stats = awds_stats_init, k_sent = [], k_delivered = [], k_freed_skb = []\<rparr>"

text \<open>
  The registrations with Linux (the sysfs group, the packet type, the socket family) have no
  effect on the state; the result of the first is what is returned.
\<close>

definition awds_init_module :: "int \<Rightarrow> kernel \<Rightarrow> int \<times> kernel" where
  "awds_init_module sysfs_result s =
     (sysfs_result, s\<lparr>k_routing := None, k_mutex := False, k_instance_index := -1\<rparr>)"

definition awds_cleanup_module :: "kernel \<Rightarrow> kernel" where
  "awds_cleanup_module s = (if k_routing s \<noteq> None then s\<lparr>k_routing := None\<rparr> else s)"

text \<open>A loaded module, and a system on which every call succeeds, for examples.\<close>

definition kernel_loaded :: kernel where
  "kernel_loaded = snd (awds_init_module 0 kernel_static)"

definition linux_up :: linux where
  "linux_up = \<lparr>lx_dev_get_by_index = (\<lambda>i. Some (nat i)), lx_dev_getbyhwaddr = (\<lambda>_. None),
     lx_dev_up = (\<lambda>_. True), lx_dev_queue_xmit = (\<lambda>_. 0), lx_net_xmit_errno = (\<lambda>e. - e),
     lx_netif_rx_ni = (\<lambda>_. 0), lx_eth_type_trans = (\<lambda>skb dev. (skb, 0)),
     lx_sock_queue_rcv_skb = (\<lambda>_ _. 0), lx_kmalloc_fails = (\<lambda>_. False),
     lx_access_ok = (\<lambda>_. True), lx_time_sec = 0\<rparr>"

lemmas kernel_loaded_defs =
  kernel_loaded_def awds_init_module_def kernel_static_def linux_up_def MAX_AWDS_COUNT_def

end
