(* ===== verification/Kernel_Route.thy ===== *)
theory Kernel_Route
  imports Kernel_Base
begin

text \<open>
  The routing half of \<open>src/linux-module/awds_module.c\<close>: the \<open>ioctl\<close> calls that install the
  table and the configuration, the packet statistics, the binary search for a destination and
  the retransmission of a packet to its next hop.
\<close>

unbundle bit_operations_syntax

section \<open>ioctl\<close>

text \<open>
  The fields of an \<open>ioctl\<close> command and the three commands of the module (\<open>_IOW\<close> and
  \<open>_IOR\<close> with a pointer of eight bytes).
\<close>

definition IOC_NR :: "u32 \<Rightarrow> nat" where
  "IOC_NR cmd = unat (cmd AND 0xFF)"

definition IOC_TYPE :: "u32 \<Rightarrow> nat" where
  "IOC_TYPE cmd = unat (drop_bit 8 cmd AND 0xFF)"

definition IOC_SIZE :: "u32 \<Rightarrow> nat" where
  "IOC_SIZE cmd = unat (drop_bit 16 cmd AND 0x3FFF)"

definition IOC_DIR :: "u32 \<Rightarrow> u32" where
  "IOC_DIR cmd = drop_bit 30 cmd AND 3"

definition IOC_WRITE :: u32 where "IOC_WRITE = 1"
definition IOC_READ :: u32 where "IOC_READ = 2"

definition IOC :: "u32 \<Rightarrow> nat \<Rightarrow> u32 \<Rightarrow> u32 \<Rightarrow> u32" where
  "IOC d ty nr sz = push_bit 30 d OR push_bit 16 sz OR push_bit 8 (of_nat ty) OR nr"

definition AWDS_IOC_MAGIC :: nat where "AWDS_IOC_MAGIC = of_char (CHR ''k'')"
definition AIOCSRTTBL :: u32 where "AIOCSRTTBL = IOC IOC_WRITE AWDS_IOC_MAGIC 0 8"
definition AIOCSCFGNR :: u32 where "AIOCSCFGNR = IOC IOC_WRITE AWDS_IOC_MAGIC 1 8"
definition AIOCGCFGNR :: u32 where "AIOCGCFGNR = IOC IOC_READ AWDS_IOC_MAGIC 2 8"

text \<open>
  The memory of the caller from the address \<open>arg\<close> on.  A copy returns the number of bytes
  that could not be copied; the rest of the target is then filled with zeros.
\<close>

definition copy_from_user :: "byte list \<Rightarrow> nat \<Rightarrow> nat \<Rightarrow> byte list \<times> int" where
  "copy_from_user usr off n =
     (let bs = mem_read usr off n
      in (bs @ replicate (n - length bs) 0, int (n - length bs)))"

definition copy_to_user :: "byte list \<Rightarrow> byte list \<Rightarrow> byte list \<times> int" where
  "copy_to_user usr bs =
     (mem_write usr 0 (take (length usr) bs), int (length bs - length usr))"

definition sizeof_routing_entry :: nat where
  "sizeof_routing_entry = 2 * ETH_ALEN"

definition load_int :: "byte list \<Rightarrow> int" where
  "load_int bs = sint (load_le32 bs)"

definition store_short :: "u16 \<Rightarrow> byte list" where
  "store_short v = [ucast v, ucast (drop_bit 8 v)]"

text \<open>
  The result is the error code and the memory of the caller.  \<open>out_unlock\<close> is reached with
  the mutex held from the failures of the table, and without it from the default case.
\<close>

definition awds_socket_ioctl :: "linux \<Rightarrow> u32 \<Rightarrow> byte list \<Rightarrow> (int \<times> byte list) kcomp" where
  "awds_socket_ioctl lx cmd usr =
     (if IOC_TYPE cmd = AWDS_IOC_MAGIC \<and> IOC_NR cmd > AWDS_IOC_MAX_NR
      then kreturn (- ENOTTY, usr)
      else if (IOC_DIR cmd AND IOC_READ \<noteq> 0 \<or> IOC_DIR cmd AND IOC_WRITE \<noteq> 0)
        \<and> \<not> lx_access_ok lx (IOC_SIZE cmd)
      then kreturn (- EFAULT, usr)
      else if cmd = AIOCSCFGNR then
        let (d, err) = copy_from_user usr 0 4; data = load_int d in
        if err \<noteq> 0 then kreturn (err, usr)
        else kthen (kmod (\<lambda>s. if data \<noteq> sint (k_configuration s)
                              then s\<lparr>k_configuration := word_of_int data\<rparr> else s))
             (kreturn (0, usr))
      else if cmd = AIOCGCFGNR then
        kbind (kget k_configuration) (\<lambda>c.
          let (usr', err) = copy_to_user usr (store_short c) in kreturn (err, usr'))
      else if cmd = AIOCSRTTBL then
        let (d, err) = copy_from_user usr 0 4; data = load_int d in
        if err \<noteq> 0 then kreturn (err, usr)
        else if data > 0 \<and> data mod int sizeof_routing_entry = 0 then
          kthen mutex_lock (kthen (kmod (\<lambda>s. s\<lparr>k_routing := None\<rparr>))
            (kbind (kmalloc lx) (\<lambda>p.
               if p = None then kthen mutex_unlock (kreturn (- ENOMEM, usr))
               else let (tbl, left) = copy_from_user usr 4 (nat data) in
                 kthen (kmod (\<lambda>s. s\<lparr>k_routing := Some tbl\<rparr>))
                   (if left \<noteq> 0 then kthen mutex_unlock (kreturn (0, usr))
                    else kthen (kmod (\<lambda>s. s\<lparr>k_routing_count :=
                             of_nat (nat data div sizeof_routing_entry)\<rparr>))
                      (kthen mutex_unlock (kreturn (0, usr)))))))
        else kreturn (0, usr)
      else kthen mutex_unlock (kreturn (- ENOIOCTLCMD, usr)))"

section \<open>Statistics\<close>

definition skb_byte :: "sk_buff \<Rightarrow> nat \<Rightarrow> byte kcomp" where
  "skb_byte skb i = (if i < skb_len skb then kreturn (skb_data skb ! i) else kfail OutOfBounds)"

definition skb_bytes :: "sk_buff \<Rightarrow> nat \<Rightarrow> nat \<Rightarrow> byte list kcomp" where
  "skb_bytes skb off n =
     (if off + n \<le> skb_len skb then kreturn (mem_read (skb_data skb) off n) else kfail OutOfBounds)"

definition awds_count_packet :: "sk_buff \<Rightarrow> unit kcomp" where
  "awds_count_packet skb =
     (if skb_len skb < ETH_ALEN + 3 then kreturn ()
      else kthen (kmod (\<lambda>s. s\<lparr>k_stats := k_stats s\<lparr>rx_total_packets :=
                                  rx_total_packets (k_stats s) + 1\<rparr>\<rparr>))
        (kbind (skb_byte skb 0) (\<lambda>t.
          let ty = uint t in
          if ty = PACKET_BEACON then
            kmod (\<lambda>s. s\<lparr>k_stats := k_stats s\<lparr>rx_total_beacon := rx_total_beacon (k_stats s) + 1\<rparr>\<rparr>)
          else if ty = PACKET_FLOOD then
            kthen (kmod (\<lambda>s. s\<lparr>k_stats := k_stats s\<lparr>rx_total_flood := rx_total_flood (k_stats s) + 1\<rparr>\<rparr>))
             (if skb_len skb \<ge> AWDS_FLOODTYPE_OFFSET then
                kbind (skb_byte skb AWDS_FLOODTYPE_OFFSET) (\<lambda>f.
                  let ft = uint f in
                  if ft = FLOOD_PACKET_TOPO then
                    kmod (\<lambda>s. s\<lparr>k_stats := k_stats s\<lparr>rx_flood_topo := rx_flood_topo (k_stats s) + 1\<rparr>\<rparr>)
                  else if ft = FLOOD_PACKET_MCAST then
                    kmod (\<lambda>s. s\<lparr>k_stats := k_stats s\<lparr>rx_flood_mcast := rx_flood_mcast (k_stats s) + 1\<rparr>\<rparr>)
                  else if ft = FLOOD_PACKET_PRIV then
                    kmod (\<lambda>s. s\<lparr>k_stats := k_stats s\<lparr>rx_flood_private := rx_flood_private (k_stats s) + 1\<rparr>\<rparr>)
                  else kreturn ())
              else kreturn ())
          else if ty = PACKET_UNICAST then
            kmod (\<lambda>s. s\<lparr>k_stats := k_stats s\<lparr>rx_total_unicast := rx_total_unicast (k_stats s) + 1\<rparr>\<rparr>)
          else if ty = PACKET_FOREWARD then
            kmod (\<lambda>s. s\<lparr>k_stats := k_stats s\<lparr>rx_total_foreward := rx_total_foreward (k_stats s) + 1\<rparr>\<rparr>)
          else kreturn ())))"

definition awds_get_packet_type :: "sk_buff \<Rightarrow> int" where
  "awds_get_packet_type skb =
     (if skb_len skb < ETH_ALEN + 3 then -1 else uint (skb_data skb ! 0))"

section \<open>The routing table\<close>

definition routing_dest :: "byte list \<Rightarrow> nat \<Rightarrow> byte list" where
  "routing_dest tbl i = mem_read tbl (sizeof_routing_entry * i) ETH_ALEN"

definition routing_nexthop :: "byte list \<Rightarrow> nat \<Rightarrow> byte list" where
  "routing_nexthop tbl i = mem_read tbl (sizeof_routing_entry * i + ETH_ALEN) ETH_ALEN"

text \<open>One access \<open>awds_routing[mid].dest\<close>.\<close>

definition routing_access :: "byte list option \<Rightarrow> int \<Rightarrow> kfault + byte list" where
  "routing_access tbl mid =
     (case tbl of None \<Rightarrow> Inl NullPointer
      | Some t \<Rightarrow>
          if mid < 0 \<or> sizeof_routing_entry * (nat mid + 1) > length t then Inl OutOfBounds
          else Inr (routing_dest t (nat mid)))"

text \<open>The loop of the binary search; \<open>None\<close> is a loop that does not end.\<close>

partial_function (option) awds_search ::
  "byte list option \<Rightarrow> byte list \<Rightarrow> int \<Rightarrow> int \<Rightarrow> (kfault + nat option) option" where
  "awds_search tbl dst head end' =
     (if head = end' then Some (Inr None)
      else let mid = head + (end' - head) div 2 in
        case routing_access tbl mid of
          Inl e \<Rightarrow> Some (Inl e)
        | Inr d \<Rightarrow>
            let cmp = memcmp d dst in
            if cmp = 0 then Some (Inr (Some (nat mid)))
            else if cmp < 0 then awds_search tbl dst (mid + 1) end'
            else awds_search tbl dst head mid)"

declare awds_search.simps [code]

text \<open>The result is the index of the entry that the returned pointer designates.\<close>

definition awds_check_routing_locked :: "sk_buff \<Rightarrow> nat option kcomp" where
  "awds_check_routing_locked skb =
     kbind (kget k_routing_count) (\<lambda>n.
       if n = 0 then kreturn None
       else kbind (skb_bytes skb AWDS_DEST_OFFSET ETH_ALEN) (\<lambda>dst.
         kbind (kget k_routing) (\<lambda>tbl.
           case awds_search tbl dst 0 (sint n) of
             None \<Rightarrow> kfail Diverges
           | Some (Inl e) \<Rightarrow> kfail e
           | Some (Inr r) \<Rightarrow> kreturn r)))"

definition awds_check_routing :: "sk_buff \<Rightarrow> nat option kcomp" where
  "awds_check_routing skb =
     kthen mutex_lock (kbind (awds_check_routing_locked skb) (\<lambda>e. kthen mutex_unlock (kreturn e)))"

section \<open>Transmission\<close>

text \<open>\<open>dev_queue_xmit\<close> takes the buffer over, whatever it returns.\<close>

definition awds_send :: "linux \<Rightarrow> sk_buff \<Rightarrow> int kcomp" where
  "awds_send lx skb =
     (if \<not> lx_dev_up lx (skb_dev skb)
      then kthen (kmod (\<lambda>s. s\<lparr>k_freed_skb := k_freed_skb s @ [skb]\<rparr>)) (kreturn (- ENETDOWN))
      else kthen (kmod (\<lambda>s. s\<lparr>k_sent := k_sent s @ [skb]\<rparr>))
        (let err = lx_dev_queue_xmit lx skb;
             err = (if err > 0 then lx_net_xmit_errno lx err else err)
         in kreturn err))"

definition skb_write :: "nat \<Rightarrow> byte list \<Rightarrow> sk_buff \<Rightarrow> sk_buff kcomp" where
  "skb_write off bs skb =
     (if off + length bs \<le> skb_len skb
      then kreturn (skb\<lparr>skb_data := mem_write (skb_data skb) off bs\<rparr>) else kfail OutOfBounds)"

text \<open>The link-level header in front of the data: destination, source, type.\<close>

definition ethhdr_redirect :: "byte list \<Rightarrow> sk_buff \<Rightarrow> sk_buff kcomp" where
  "ethhdr_redirect nxt skb =
     (let h = skb_head skb; base = length h - ETH_HLEN in
      if length h < ETH_HLEN then kfail OutOfBounds
      else kreturn (skb\<lparr>skb_head :=
        mem_write (mem_write h (base + ETH_ALEN) (mem_read h base ETH_ALEN)) base nxt\<rparr>))"

text \<open>The result also gives the buffer as it is afterwards.\<close>

definition awds_do_retransmit_locked ::
  "linux \<Rightarrow> sk_buff \<Rightarrow> byte list \<Rightarrow> (int \<times> sk_buff) kcomp" where
  "awds_do_retransmit_locked lx skb nexthop =
     kbind (skb_byte skb AWDS_TTL_OFFSET) (\<lambda>ttl.
       let ttl = ttl - 1 in
       if ttl = 0 then kreturn (- EINVAL, skb)
       else kbind (skb_write AWDS_TTL_OFFSET [ttl] skb) (\<lambda>skb.
         kbind (ethhdr_redirect nexthop skb) (\<lambda>skb.
         kbind (skb_write AWDS_NEXTHOP_OFFSET nexthop skb) (\<lambda>skb.
           let skb = skb_push ETH_HLEN skb in
           kbind (awds_send lx skb) (\<lambda>err. kreturn (err, skb))))))"

definition awds_do_retransmit ::
  "linux \<Rightarrow> sk_buff \<Rightarrow> byte list \<Rightarrow> (int \<times> sk_buff) kcomp" where
  "awds_do_retransmit lx skb nexthop =
     kthen mutex_lock (kbind (awds_do_retransmit_locked lx skb nexthop) (\<lambda>r.
       kthen mutex_unlock (kreturn r)))"

section \<open>Correctness of the search\<close>

definition routing_sorted :: "byte list \<Rightarrow> nat \<Rightarrow> bool" where
  "routing_sorted tbl n \<longleftrightarrow>
     (\<forall>j < n. \<forall>i < j. memcmp (routing_dest tbl i) (routing_dest tbl j) < 0)"

lemma length_routing_dest:
  "sizeof_routing_entry * (i + 1) \<le> length tbl \<Longrightarrow> length (routing_dest tbl i) = 6"
  by (simp add: routing_dest_def sizeof_routing_entry_def ETH_ALEN_def)

lemma routing_sorted_below:
  assumes "routing_sorted tbl n" "i \<le> mid" "mid < n" "memcmp (routing_dest tbl mid) dst < 0"
    and len: "length (routing_dest tbl mid) = length dst"
  shows "routing_dest tbl i \<noteq> dst"
proof
  assume eq: "routing_dest tbl i = dst"
  then have "i < mid"
    using assms(2,4) memcmp_eq_0 [OF len] by (cases "i = mid") auto
  then have "memcmp dst (routing_dest tbl mid) < 0"
    using assms(1,3) eq by (auto simp: routing_sorted_def)
  then show False
    using assms(4) memcmp_swap [OF len] by linarith
qed

lemma routing_sorted_above:
  assumes "routing_sorted tbl n" "mid \<le> i" "i < n" "memcmp (routing_dest tbl mid) dst > 0"
    and len: "length (routing_dest tbl mid) = length dst"
  shows "routing_dest tbl i \<noteq> dst"
proof
  assume eq: "routing_dest tbl i = dst"
  then have "mid < i"
    using assms(2,4) memcmp_eq_0 [OF len] by (cases "i = mid") auto
  then have "memcmp (routing_dest tbl mid) dst < 0"
    using assms(1,3) eq by (auto simp: routing_sorted_def)
  then show False using assms(4) by linarith
qed

text \<open>
  The loop ends from every interval inside the table and stays inside the table; what it
  returns is an entry for the destination, and with a sorted table it misses none.
\<close>

lemma awds_search_returns:
  assumes "head \<le> stop" "stop \<le> n" "sizeof_routing_entry * n \<le> length tbl" "length dst = 6"
  shows "\<exists>r. awds_search (Some tbl) dst (int head) (int stop) = Some (Inr r) \<and>
    (\<forall>i. r = Some i \<longrightarrow> i < n \<and> routing_dest tbl i = dst) \<and>
    (routing_sorted tbl n \<longrightarrow> r = None \<longrightarrow> (\<forall>i. head \<le> i \<and> i < stop \<longrightarrow> routing_dest tbl i \<noteq> dst))"
  using assms
proof (induction "stop - head" arbitrary: head stop rule: less_induct)
  case less
  show ?case
  proof (cases "head = stop")
    case True
    then show ?thesis by (subst awds_search.simps) auto
  next
    case False
    define mid where "mid = head + (stop - head) div 2"
    have mid: "head \<le> mid" "mid < stop" "int head + (int stop - int head) div 2 = int mid"
      using False less.prems(1) by (auto simp: mid_def zdiv_int of_nat_diff)
    have "sizeof_routing_entry * (mid + 1) \<le> sizeof_routing_entry * n"
      using mid less.prems by (intro mult_le_mono2) auto
    then have fits: "sizeof_routing_entry * (mid + 1) \<le> length tbl"
      using less.prems by linarith
    then have acc: "routing_access (Some tbl) (int mid) = Inr (routing_dest tbl mid)"
      by (simp add: routing_access_def)
    have len: "length (routing_dest tbl mid) = length dst"
      using length_routing_dest [OF fits] less.prems by simp
    let ?cmp = "memcmp (routing_dest tbl mid) dst"
    consider "?cmp = 0" | "?cmp < 0" | "?cmp > 0" by linarith
    then show ?thesis
    proof cases
      case 1
      then have "routing_dest tbl mid = dst" using memcmp_eq_0 [OF len] by simp
      with 1 show ?thesis
        using False mid acc less.prems by (subst awds_search.simps) (auto simp: Let_def)
    next
      case 2
      then have step: "awds_search (Some tbl) dst (int head) (int stop) =
          awds_search (Some tbl) dst (int (mid + 1)) (int stop)"
        using False mid acc by (subst awds_search.simps) (simp add: Let_def add.commute)
      have below: "routing_dest tbl i \<noteq> dst" if "routing_sorted tbl n" "i \<le> mid" for i
        using routing_sorted_below [OF that _ 2 len] mid less.prems(2) by simp
      have "stop - (mid + 1) < stop - head" "mid + 1 \<le> stop"
        using mid by auto
      from less.hyps [OF this less.prems(2-4)] obtain r where
        r: "awds_search (Some tbl) dst (int (mid + 1)) (int stop) = Some (Inr r)"
          "\<forall>i. r = Some i \<longrightarrow> i < n \<and> routing_dest tbl i = dst"
          "routing_sorted tbl n \<longrightarrow> r = None \<longrightarrow>
             (\<forall>i. mid + 1 \<le> i \<and> i < stop \<longrightarrow> routing_dest tbl i \<noteq> dst)"
        by blast
      have "routing_dest tbl i \<noteq> dst"
        if "routing_sorted tbl n" "r = None" "head \<le> i \<and> i < stop" for i
        using that r(3) below by (cases "i \<le> mid") auto
      then show ?thesis unfolding step using r by blast
    next
      case 3
      then have step: "awds_search (Some tbl) dst (int head) (int stop) =
          awds_search (Some tbl) dst (int head) (int mid)"
        using False mid acc by (subst awds_search.simps) (simp add: Let_def)
      have above: "routing_dest tbl i \<noteq> dst" if "routing_sorted tbl n" "mid \<le> i" "i < stop" for i
        using routing_sorted_above [OF that(1,2) _ 3 len] that less.prems(2) by simp
      have "mid - head < stop - head" "mid \<le> n"
        using mid less.prems(2) by auto
      from less.hyps [OF this(1) mid(1) this(2) less.prems(3-4)] obtain r where
        r: "awds_search (Some tbl) dst (int head) (int mid) = Some (Inr r)"
          "\<forall>i. r = Some i \<longrightarrow> i < n \<and> routing_dest tbl i = dst"
          "routing_sorted tbl n \<longrightarrow> r = None \<longrightarrow>
             (\<forall>i. head \<le> i \<and> i < mid \<longrightarrow> routing_dest tbl i \<noteq> dst)"
        by blast
      have "routing_dest tbl i \<noteq> dst"
        if "routing_sorted tbl n" "r = None" "head \<le> i \<and> i < stop" for i
        using that r(3) above by (cases "mid \<le> i") auto
      then show ?thesis unfolding step using r by blast
    qed
  qed
qed

lemma awds_check_routing_returns:
  assumes "k_routing s = Some tbl" "n = unat (k_routing_count s)" "n < 2 ^ 31"
    and "sizeof_routing_entry * n \<le> length tbl" "skb_len skb \<ge> AWDS_DEST_OFFSET + ETH_ALEN"
    and dst: "dst = mem_read (skb_data skb) AWDS_DEST_OFFSET ETH_ALEN"
  shows "\<exists>r. awds_check_routing_locked skb s = Inr (r, s) \<and>
    (\<forall>i. r = Some i \<longrightarrow> i < n \<and> routing_dest tbl i = dst) \<and>
    (routing_sorted tbl n \<longrightarrow> r = None \<longrightarrow> (\<forall>i < n. routing_dest tbl i \<noteq> dst))"
proof -
  have len: "length dst = 6"
    using assms by (simp add: skb_len_def ETH_ALEN_def AWDS_DEST_OFFSET_def)
  have n: "sint (k_routing_count s) = int n"
    using assms(2,3) by (simp add: sint_eq_unat)
  from awds_search_returns [of 0 n n tbl dst] assms(4) len obtain r where
    "awds_search (Some tbl) dst 0 (int n) = Some (Inr r)"
    "\<forall>i. r = Some i \<longrightarrow> i < n \<and> routing_dest tbl i = dst"
    "routing_sorted tbl n \<longrightarrow> r = None \<longrightarrow> (\<forall>i < n. routing_dest tbl i \<noteq> dst)"
    by auto
  then show ?thesis
    using assms(1,5) n by (cases "k_routing_count s = 0")
      (auto simp: awds_check_routing_locked_def kernel_simps skb_bytes_def assms(2) dst)
qed

section \<open>Tables as the daemon writes them\<close>

lemma ioctl_commands [simp]:
  "IOC_NR AIOCSRTTBL = 0" "IOC_SIZE AIOCSRTTBL = 8" "IOC_DIR AIOCSRTTBL = 1"
  "AIOCSRTTBL \<noteq> AIOCSCFGNR" "AIOCSRTTBL \<noteq> AIOCGCFGNR"
  by (simp_all add: IOC_NR_def IOC_SIZE_def IOC_DIR_def AIOCSRTTBL_def AIOCSCFGNR_def
      AIOCGCFGNR_def IOC_def IOC_WRITE_def IOC_READ_def AWDS_IOC_MAGIC_def)

text \<open>The effect of the table command once the header and the table have been copied.\<close>

lemma ioctl_set_table:
  assumes "\<not> k_mutex s" "lx_access_ok lx 8" "0 < n"
    and "copy_from_user usr 0 4 = (hdr, 0)" "load_int hdr = int (sizeof_routing_entry * n)"
    and "copy_from_user usr 4 (sizeof_routing_entry * n) = (tbl, 0)"
  shows "awds_socket_ioctl lx AIOCSRTTBL usr s =
    (if lx_kmalloc_fails lx (k_next s)
     then Inr ((- ENOMEM, usr), s\<lparr>k_mutex := False, k_routing := None, k_next := k_next s + 1\<rparr>)
     else Inr ((0, usr), s\<lparr>k_mutex := False, k_routing := Some tbl, k_next := k_next s + 1,
       k_routing_count := of_nat n\<rparr>))"
proof -
  have "int (sizeof_routing_entry * n) > 0" "int (sizeof_routing_entry * n) mod int sizeof_routing_entry = 0"
    "nat (int (sizeof_routing_entry * n)) = sizeof_routing_entry * n"
    "sizeof_routing_entry * n div sizeof_routing_entry = n"
    using assms(3) by (simp_all add: sizeof_routing_entry_def ETH_ALEN_def)
  then show ?thesis
    unfolding awds_socket_ioctl_def using assms
    by (simp add: AWDS_IOC_MAX_NR_def kernel_simps Let_def del: of_nat_mult)
qed

definition routing_image :: "(byte list \<times> byte list) list \<Rightarrow> byte list" where
  "routing_image es = concat (map (\<lambda>(d, h). d @ h) es)"

definition entries_ok :: "(byte list \<times> byte list) list \<Rightarrow> bool" where
  "entries_ok es \<longleftrightarrow> (\<forall>(d, h) \<in> set es. length d = 6 \<and> length h = 6)"

definition store_int :: "u32 \<Rightarrow> byte list" where
  "store_int w = [ucast w, ucast (drop_bit 8 w), ucast (drop_bit 16 w), ucast (drop_bit 24 w)]"

lemma load_store_int: "load_le32 (store_int w @ rest) = w"
proof (rule bit_eqI)
  fix n
  assume "possible_bit TYPE(32 word) n"
  then have "n < 32" by simp
  then consider "n < 8" | "8 \<le> n \<and> n < 16" | "16 \<le> n \<and> n < 24" | "24 \<le> n \<and> n < 32" by linarith
  then show "bit (load_le32 (store_int w @ rest)) n = bit w n"
    by cases (auto simp: store_int_def bit_load_le32 bit_simps)
qed

lemma length_routing_image: "entries_ok es \<Longrightarrow> length (routing_image es) = 12 * length es"
  by (induction es) (auto simp: routing_image_def entries_ok_def)

lemma routing_image_nth:
  assumes "entries_ok es" "i < length es"
  shows "routing_dest (routing_image es) i = fst (es ! i)"
    and "routing_nexthop (routing_image es) i = snd (es ! i)"
proof -
  have split: "routing_image es = routing_image (take i es) @
      (fst (es ! i) @ snd (es ! i)) @ routing_image (drop (Suc i) es)"
    using assms(2) by (subst id_take_nth_drop [OF assms(2)])
      (simp add: routing_image_def case_prod_beta)
  have "entries_ok (take i es)" using assms(1) by (auto simp: entries_ok_def dest: in_set_takeD)
  then have len: "length (routing_image (take i es)) = 12 * i"
    using assms(2) by (simp add: length_routing_image)
  have "length (fst (es ! i)) = 6" "length (snd (es ! i)) = 6"
    using assms nth_mem by (fastforce simp: entries_ok_def case_prod_beta)+
  with len show "routing_dest (routing_image es) i = fst (es ! i)"
    "routing_nexthop (routing_image es) i = snd (es ! i)"
    by (simp_all add: split routing_dest_def routing_nexthop_def mem_read_def
        sizeof_routing_entry_def ETH_ALEN_def)
qed

lemma routing_sorted_image:
  assumes "entries_ok es" "sorted_wrt (\<lambda>a b. memcmp (fst a) (fst b) < 0) es"
  shows "routing_sorted (routing_image es) (length es)"
  using assms by (auto simp: routing_sorted_def routing_image_nth sorted_wrt_iff_nth_less)

lemma sorted_entries_distinct:
  assumes "sorted_wrt (\<lambda>a b. memcmp (fst a) (fst b) < 0) es" "entries_ok es"
  shows "distinct (map fst es)"
  unfolding distinct_conv_nth
proof (intro allI impI)
  fix i j
  assume ij: "i < length (map fst es)" "j < length (map fst es)" "i \<noteq> j"
  have "memcmp d d = 0" for d by (simp add: memcmp_eq_0)
  then show "map fst es ! i \<noteq> map fst es ! j"
    using assms(1) ij by (cases i j rule: linorder_cases)
      (auto simp: sorted_wrt_iff_nth_less, (metis less_irrefl)+)
qed

text \<open>What the search returns, in terms of the entries.\<close>

definition next_hop_result :: "kernel \<Rightarrow> nat option \<Rightarrow> byte list option" where
  "next_hop_result s r = map_option (\<lambda>i. routing_nexthop (the (k_routing s)) i) r"

lemma check_routing_image:
  assumes "k_routing s = Some (routing_image es)" "k_routing_count s = of_nat (length es)"
    and "length es < 2 ^ 31" "entries_ok es" "sorted_wrt (\<lambda>a b. memcmp (fst a) (fst b) < 0) es"
    and "skb_len skb \<ge> AWDS_DEST_OFFSET + ETH_ALEN"
  shows "\<exists>r. awds_check_routing_locked skb s = Inr (r, s) \<and>
    next_hop_result s r = map_of es (mem_read (skb_data skb) AWDS_DEST_OFFSET ETH_ALEN)"
proof -
  let ?dst = "mem_read (skb_data skb) AWDS_DEST_OFFSET ETH_ALEN"
  have n: "length es = unat (k_routing_count s)"
    using assms(2,3) by (simp add: unsigned_of_nat take_bit_nat_eq_self)
  have "sizeof_routing_entry * length es \<le> length (routing_image es)"
    by (simp add: length_routing_image assms(4) sizeof_routing_entry_def ETH_ALEN_def)
  from awds_check_routing_returns [OF assms(1) n assms(3) this assms(6) refl] obtain r where
    r: "awds_check_routing_locked skb s = Inr (r, s)"
      "\<forall>i. r = Some i \<longrightarrow> i < length es \<and> routing_dest (routing_image es) i = ?dst"
      "r = None \<longrightarrow> (\<forall>i < length es. routing_dest (routing_image es) i \<noteq> ?dst)"
    using routing_sorted_image [OF assms(4,5)] by blast
  have "next_hop_result s r = map_of es ?dst"
  proof (cases r)
    case None
    then have "?dst \<notin> fst ` set es"
      using r(3) assms(4) by (fastforce simp: in_set_conv_nth routing_image_nth)
    then show ?thesis using None by (simp add: next_hop_result_def map_of_eq_None_iff [symmetric])
  next
    case (Some i)
    then have "(?dst, snd (es ! i)) \<in> set es"
      using r(2) assms(4) by (metis nth_mem prod.collapse routing_image_nth(1))
    then show ?thesis
      using Some r(2) assms(1,4) sorted_entries_distinct [OF assms(5,4)]
      by (simp add: next_hop_result_def routing_image_nth)
  qed
  with r(1) show ?thesis by blast
qed

text \<open>Installing a table and looking a destination up in it.\<close>

lemma install_then_route:
  assumes "\<not> k_mutex s" "lx_access_ok lx 8" "\<not> lx_kmalloc_fails lx (k_next s)"
    and "es \<noteq> []" "12 * length es < 2 ^ 31" "entries_ok es"
    and "sorted_wrt (\<lambda>a b. memcmp (fst a) (fst b) < 0) es"
    and "usr = store_int (of_nat (12 * length es)) @ routing_image es @ rest"
  shows "\<exists>s'. awds_socket_ioctl lx AIOCSRTTBL usr s = Inr ((0, usr), s') \<and> \<not> k_mutex s' \<and>
    (\<forall>skb. skb_len skb \<ge> AWDS_DEST_OFFSET + ETH_ALEN \<longrightarrow>
      (\<exists>r. awds_check_routing skb s' = Inr (r, s') \<and>
        next_hop_result s' r = map_of es (mem_read (skb_data skb) AWDS_DEST_OFFSET ETH_ALEN)))"
proof -
  define s' where "s' = s\<lparr>k_mutex := False, k_next := k_next s + 1,
      k_routing := Some (routing_image es), k_routing_count := of_nat (length es)\<rparr>"
  have data: "load_int (mem_read usr 0 4) = int (12 * length es)"
  proof -
    have "mem_read usr 0 4 = store_int (of_nat (12 * length es))"
      by (simp add: assms(8) mem_read_def store_int_def)
    moreover have "unat (of_nat (12 * length es) :: u32) = 12 * length es"
      using assms(5) by (simp add: unsigned_of_nat take_bit_nat_eq_self del: of_nat_mult)
    ultimately show ?thesis
      using load_store_int [of "of_nat (12 * length es)" "[]"] assms(5)
      by (simp add: load_int_def sint_eq_unat del: of_nat_mult)
  qed
  have tbl: "mem_read usr 4 (12 * length es) = routing_image es"
    using length_routing_image [OF assms(6)] by (simp add: assms(8) mem_read_def store_int_def)
  have sz: "sizeof_routing_entry = 12"
    by (simp add: sizeof_routing_entry_def ETH_ALEN_def)
  have "awds_socket_ioctl lx AIOCSRTTBL usr s = Inr ((0, usr), s')"
    using ioctl_set_table [OF assms(1,2), of "length es" usr "mem_read usr 0 4" "routing_image es"]
      assms(3,4) data tbl length_routing_image [OF assms(6)]
    by (simp add: sz s'_def copy_from_user_def Let_def assms(8) mem_read_def store_int_def)
  moreover have "\<exists>r. awds_check_routing skb s' = Inr (r, s') \<and>
      next_hop_result s' r = map_of es (mem_read (skb_data skb) AWDS_DEST_OFFSET ETH_ALEN)"
    if "skb_len skb \<ge> AWDS_DEST_OFFSET + ETH_ALEN" for skb
  proof -
    let ?s = "s'\<lparr>k_mutex := True\<rparr>"
    have "\<exists>r. awds_check_routing_locked skb ?s = Inr (r, ?s) \<and>
        next_hop_result ?s r = map_of es (mem_read (skb_data skb) AWDS_DEST_OFFSET ETH_ALEN)"
      using assms(5-7) that by (intro check_routing_image) (simp_all add: s'_def)
    then show ?thesis
      by (auto simp: awds_check_routing_def kernel_simps s'_def next_hop_result_def)
  qed
  ultimately show ?thesis by (auto simp: s'_def)
qed

section \<open>The forwarded frame\<close>

lemma retransmit_expired:
  assumes "AWDS_HLEN \<le> skb_len skb" "ttl = skb_data skb ! AWDS_TTL_OFFSET" "ttl = 1"
  shows "awds_do_retransmit_locked lx skb nxt s = Inr ((- EINVAL, skb), s)"
  using assms by (simp add: awds_do_retransmit_locked_def kernel_simps skb_byte_def awds_defines)

lemma retransmit_frame:
  assumes "AWDS_HLEN \<le> skb_len skb" "skb_head skb = front @ eth_dst @ eth_src @ eth_type"
    and "length eth_dst = 6" "length eth_src = 6" "length eth_type = 2" "length nxt = 6"
    and "ttl = skb_data skb ! AWDS_TTL_OFFSET" "ttl \<noteq> 1"
  shows "\<exists>out. skb_dev out = skb_dev skb \<and> skb_data out = nxt @ eth_dst @ eth_type @
      mem_write ((skb_data skb)[AWDS_TTL_OFFSET := ttl - 1]) AWDS_NEXTHOP_OFFSET nxt \<and>
    (\<forall>s. awds_do_retransmit_locked lx skb nxt s = kbind (awds_send lx out) (\<lambda>err. kreturn (err, out)) s)"
proof -
  have h: "mem_write (mem_write (front @ eth_dst @ eth_src @ eth_type) (length front + 6) eth_dst)
      (length front) nxt = front @ nxt @ eth_dst @ eth_type"
    using assms(3-6) by (simp add: mem_write_def)
  have w: "mem_write (skb_data skb) 21 [b] = (skb_data skb)[21 := b]" for b
    using assms(1) by (simp add: mem_write_def skb_len_def AWDS_HLEN_def upd_conv_take_nth_drop)
  have r: "mem_read (front @ eth_dst @ eth_src @ eth_type) (length front) 6 = eth_dst"
    using assms(3) by (simp add: mem_read_def)
  let ?out = "skb\<lparr>skb_head := front, skb_data := nxt @ eth_dst @ eth_type @
      mem_write ((skb_data skb)[21 := ttl - 1]) 15 nxt\<rparr>"
  have "awds_do_retransmit_locked lx skb nxt s = kbind (awds_send lx ?out) (\<lambda>err. kreturn (err, ?out)) s" for s
    using assms h w r
    by (simp add: awds_do_retransmit_locked_def skb_byte_def skb_write_def skb_len_def
        ethhdr_redirect_def awds_defines Let_def skb_push_def)
  then show ?thesis by (intro exI [of _ ?out]) (simp add: awds_defines)
qed

section \<open>Properties\<close>

text \<open>
  The lookup of a destination in the kernel ends, never reads outside the
  installed table, and finds the entry.  For every table of \<open>n\<close> entries, sorted or not, it
  returns without a fault, and a returned entry carries the destination of the packet; if the
  table is sorted by \<open>memcmp\<close> it fails only when no entry has that destination.
\<close>

theorem awds_check_routing_correct:
  assumes "k_routing s = Some tbl" "n = unat (k_routing_count s)" "n < 2 ^ 31"
    and "sizeof_routing_entry * n \<le> length tbl" "skb_len skb \<ge> AWDS_DEST_OFFSET + ETH_ALEN"
    and "dst = mem_read (skb_data skb) AWDS_DEST_OFFSET ETH_ALEN"
  shows "\<exists>r. awds_check_routing_locked skb s = Inr (r, s) \<and>
    (\<forall>i. r = Some i \<longrightarrow> i < n \<and> routing_dest tbl i = dst) \<and>
    (routing_sorted tbl n \<longrightarrow> (r = None) = (\<forall>i < n. routing_dest tbl i \<noteq> dst))"
  using awds_check_routing_returns [OF assms] by (metis not_None_eq)

theorem awds_check_routing_correct_witness:
  "let s = kernel_loaded\<lparr>k_routing := Some (replicate 24 1), k_routing_count := 2\<rparr>
   in \<exists>r. awds_check_routing_locked
      \<lparr>skb_head = [], skb_data = replicate 20 1, skb_dev = 0, skb_protocol = 0\<rparr> s = Inr (r, s)"
  using awds_check_routing_correct
    [of "kernel_loaded\<lparr>k_routing := Some (replicate 24 1), k_routing_count := 2\<rparr>" "replicate 24 1" 2
      "\<lparr>skb_head = [], skb_data = replicate 20 1, skb_dev = 0, skb_protocol = 0\<rparr>"
      "mem_read (replicate 20 1) AWDS_DEST_OFFSET ETH_ALEN"]
  by (auto simp: sizeof_routing_entry_def skb_len_def awds_defines Let_def)

text \<open>
  Installing a table and looking destinations up fit together.  When the daemon
  passes a table whose destinations ascend in byte order, the call succeeds and releases the
  mutex, and afterwards every packet is matched to exactly the next hop the table gives for
  its destination, or to none if the table has no entry for it.
\<close>

theorem ioctl_table_then_route:
  assumes "\<not> k_mutex s" "lx_access_ok lx 8" "\<not> lx_kmalloc_fails lx (k_next s)"
    and "es \<noteq> []" "12 * length es < 2 ^ 31" "entries_ok es"
    and "sorted_wrt (\<lambda>a b. memcmp (fst a) (fst b) < 0) es"
    and "usr = store_int (of_nat (12 * length es)) @ routing_image es @ rest"
  shows "\<exists>s'. awds_socket_ioctl lx AIOCSRTTBL usr s = Inr ((0, usr), s') \<and> \<not> k_mutex s' \<and>
    (\<forall>skb. skb_len skb \<ge> AWDS_DEST_OFFSET + ETH_ALEN \<longrightarrow>
      (\<exists>r. awds_check_routing skb s' = Inr (r, s') \<and>
        next_hop_result s' r = map_of es (mem_read (skb_data skb) AWDS_DEST_OFFSET ETH_ALEN)))"
  by (rule install_then_route [OF assms])

theorem ioctl_table_then_route_witness:
  "\<exists>s'. awds_socket_ioctl linux_up AIOCSRTTBL
      (store_int (of_nat (12 * 1)) @ routing_image [(replicate 6 1, replicate 6 2)]) kernel_loaded =
    Inr ((0, store_int (of_nat (12 * 1)) @ routing_image [(replicate 6 1, replicate 6 2)]), s') \<and>
    \<not> k_mutex s'"
  using ioctl_table_then_route [of kernel_loaded linux_up "[(replicate 6 1, replicate 6 2)]"
      "store_int (of_nat (12 * 1)) @ routing_image [(replicate 6 1, replicate 6 2)]" "[]"]
  by (auto simp: kernel_loaded_defs entries_ok_def)

text \<open>
  Property C29: forwarding a packet in the kernel.  Unless the time to live runs out, the
  frame that is queued for transmission is addressed to the next hop, from the address the
  frame was received on, with its type kept; inside, the next hop field is set and the time
  to live is one less, and every other byte of the packet is unchanged.  A packet whose time
  to live runs out is not touched.
\<close>

theorem awds_do_retransmit_effect:
  assumes "AWDS_HLEN \<le> skb_len skb" "skb_head skb = front @ eth_dst @ eth_src @ eth_type"
    and "length eth_dst = 6" "length eth_src = 6" "length eth_type = 2" "length nxt = 6"
    and "lx_dev_up lx (skb_dev skb)" "ttl = skb_data skb ! AWDS_TTL_OFFSET"
  shows "if ttl = 1 then awds_do_retransmit_locked lx skb nxt s = Inr ((- EINVAL, skb), s)
    else \<exists>err out. awds_do_retransmit_locked lx skb nxt s = Inr ((err, out), s\<lparr>k_sent := k_sent s @ [out]\<rparr>) \<and>
      skb_data out = nxt @ eth_dst @ eth_type @
        mem_write ((skb_data skb)[AWDS_TTL_OFFSET := ttl - 1]) AWDS_NEXTHOP_OFFSET nxt"
proof (cases "ttl = 1")
  case True
  then show ?thesis using retransmit_expired [OF assms(1,8)] by simp
next
  case False
  obtain out where "skb_dev out = skb_dev skb" "skb_data out = nxt @ eth_dst @ eth_type @
        mem_write ((skb_data skb)[AWDS_TTL_OFFSET := ttl - 1]) AWDS_NEXTHOP_OFFSET nxt"
      "awds_do_retransmit_locked lx skb nxt s = kbind (awds_send lx out) (\<lambda>err. kreturn (err, out)) s"
    using retransmit_frame [OF assms(1-6,8) False, of lx] by blast
  then show ?thesis
    using False assms(7) by (simp add: awds_send_def kernel_simps Let_def)
qed

theorem awds_do_retransmit_effect_witness:
  "\<exists>err out. awds_do_retransmit_locked linux_up
      \<lparr>skb_head = replicate 6 4 @ replicate 6 5 @ [0x83, 0x34], skb_data = replicate 30 9,
       skb_dev = 0, skb_protocol = 0\<rparr> (replicate 6 7) kernel_loaded =
     Inr ((err, out), kernel_loaded\<lparr>k_sent := k_sent kernel_loaded @ [out]\<rparr>)"
  using awds_do_retransmit_effect
    [of "\<lparr>skb_head = replicate 6 4 @ replicate 6 5 @ [0x83, 0x34], skb_data = replicate 30 9,
       skb_dev = 0, skb_protocol = 0\<rparr>" "[]" "replicate 6 4" "replicate 6 5" "[0x83, 0x34]"
      "replicate 6 7" linux_up 9 kernel_loaded]
  by (auto simp: skb_len_def awds_defines linux_up_def)

text \<open>
  A table that cannot be allocated leaves the module in a state in which the
  next lookup dereferences a null pointer, if a table was installed before: the call reports
  \<open>-ENOMEM\<close> and frees the old table, but keeps the number of its entries.
\<close>

theorem ioctl_out_of_memory_fault:
  assumes "\<not> k_mutex s" "lx_access_ok lx 8" "lx_kmalloc_fails lx (k_next s)" "k_routing_count s = 1"
    and "usr = store_int 12 @ replicate 12 0" "skb_len skb \<ge> AWDS_DEST_OFFSET + ETH_ALEN"
  shows "\<exists>s'. awds_socket_ioctl lx AIOCSRTTBL usr s = Inr ((- ENOMEM, usr), s') \<and>
    awds_check_routing_locked skb s' = Inl NullPointer"
proof -
  have sz: "sizeof_routing_entry = 12"
    by (simp add: sizeof_routing_entry_def ETH_ALEN_def)
  have "load_int (store_int 12) = 12"
    using load_store_int [of 12 "[]"] by (simp add: load_int_def sint_eq_unat)
  then have "awds_socket_ioctl lx AIOCSRTTBL usr s = Inr ((- ENOMEM, usr),
      s\<lparr>k_mutex := False, k_routing := None, k_next := k_next s + 1\<rparr>)"
    using ioctl_set_table [OF assms(1,2), of 1 usr "store_int 12" "replicate 12 0"] assms(3)
    by (simp add: sz assms(5) copy_from_user_def Let_def mem_read_def store_int_def)
  moreover have "awds_check_routing_locked skb (s\<lparr>k_mutex := False, k_routing := None, k_next := k_next s + 1\<rparr>) =
      Inl NullPointer"
    using assms(4,6) by (simp add: awds_check_routing_locked_def kernel_simps skb_bytes_def
        awds_search.simps routing_access_def)
  ultimately show ?thesis by blast
qed

theorem ioctl_out_of_memory_fault_witness:
  "\<exists>s'. awds_socket_ioctl (linux_up\<lparr>lx_kmalloc_fails := \<lambda>_. True\<rparr>) AIOCSRTTBL
      (store_int 12 @ replicate 12 0)
      (kernel_loaded\<lparr>k_routing := Some (replicate 12 1), k_routing_count := 1\<rparr>) =
    Inr ((- ENOMEM, store_int 12 @ replicate 12 0), s') \<and>
    awds_check_routing_locked \<lparr>skb_head = [], skb_data = replicate 20 1, skb_dev = 0, skb_protocol = 0\<rparr> s' =
      Inl NullPointer"
  by (rule ioctl_out_of_memory_fault)
    (simp_all add: kernel_loaded_defs skb_len_def awds_defines)

end
