(* ===== verification/Kernel_Unicast.thy ===== *)
theory Kernel_Unicast
  imports Kernel_Route
begin

text \<open>
  The table of unicast destinations of a socket (\<open>awds_instert_unicast_table\<close> and
  \<open>awds_check_unicast_table\<close> in \<open>src/linux-module/awds_module.c\<close>): a doubly linked list in
  the heap.  A packet for a known destination that was refreshed within the last 15 seconds
  may be delivered to the local device directly; any other packet goes to the daemon and
  enters or refreshes its destination.
\<close>

section \<open>The operations\<close>

text \<open>\<open>while (sk->table->prev) sk->table = sk->table->prev\<close>\<close>

partial_function (option) uc_first ::
  "(addr \<rightharpoonup> awds_uc_dest_table) \<Rightarrow> addr \<Rightarrow> (kfault + addr) option" where
  "uc_first h a =
     (case h a of None \<Rightarrow> Some (Inl FreedPointer)
      | Some e \<Rightarrow> (case uc_prev e of None \<Rightarrow> Some (Inr a) | Some p \<Rightarrow> uc_first h p))"

declare uc_first.simps [code]

definition set_sk_table :: "addr \<Rightarrow> addr option \<Rightarrow> kernel \<Rightarrow> kernel" where
  "set_sk_table sk p s = s\<lparr>k_sock := (k_sock s)(sk := map_option (\<lambda>k. k\<lparr>sk_table := p\<rparr>) (k_sock s sk))\<rparr>"

definition awds_instert_unicast_table :: "linux \<Rightarrow> addr \<Rightarrow> sk_buff \<Rightarrow> unit kcomp" where
  "awds_instert_unicast_table lx sk skb =
     kbind (deref k_sock (Some sk)) (\<lambda>k.
     kbind (skb_bytes skb AWDS_HLEN ETH_ALEN) (\<lambda>mac.
     case sk_table k of
       Some t \<Rightarrow>
         kbind (kget k_uc) (\<lambda>h.
         case uc_first h t of
           None \<Rightarrow> kfail Diverges
         | Some (Inl e) \<Rightarrow> kfail e
         | Some (Inr f) \<Rightarrow>
             kthen (kmod (set_sk_table sk (Some f)))
             (kbind (kmalloc lx) (\<lambda>p.
              kbind (deref k_uc (Some f)) (\<lambda>e.
              kthen (kmod (\<lambda>s. s\<lparr>k_uc := (k_uc s)(f \<mapsto> e\<lparr>uc_prev := p\<rparr>)\<rparr>))
              (case p of None \<Rightarrow> kreturn ()
               | Some n \<Rightarrow>
                   kmod (\<lambda>s. set_sk_table sk (Some n) (s\<lparr>k_uc := (k_uc s)(n \<mapsto>
                     \<lparr>uc_prev = None, uc_next = Some f, uc_mac = mac, uc_time = lx_time_sec lx\<rparr>)\<rparr>)))))))
     | None \<Rightarrow>
         kbind (kmalloc lx) (\<lambda>p.
           case p of None \<Rightarrow> kmod (set_sk_table sk None)
           | Some n \<Rightarrow>
               kmod (\<lambda>s. set_sk_table sk (Some n) (s\<lparr>k_uc := (k_uc s)(n \<mapsto>
                 \<lparr>uc_prev = None, uc_next = None, uc_mac = mac, uc_time = lx_time_sec lx\<rparr>)\<rparr>)))))"

definition uc_too_old :: "int \<Rightarrow> awds_uc_dest_table \<Rightarrow> bool" where
  "uc_too_old now e \<longleftrightarrow> now - uc_time e - MAX_AWDS_UC_INTERVAL > 0"

text \<open>Taking an entry out of the list and freeing it.\<close>

definition uc_unlink ::
  "addr \<Rightarrow> awds_uc_dest_table \<Rightarrow> (addr \<rightharpoonup> awds_uc_dest_table) \<Rightarrow> kfault + (addr \<rightharpoonup> awds_uc_dest_table)" where
  "uc_unlink a e h =
     (let h1 = (case uc_prev e of None \<Rightarrow> Inr h
                | Some p \<Rightarrow> (case h p of None \<Rightarrow> Inl FreedPointer
                    | Some ep \<Rightarrow> Inr (h(p \<mapsto> ep\<lparr>uc_next := uc_next e\<rparr>))))
      in case h1 of Inl f \<Rightarrow> Inl f
         | Inr h1 \<Rightarrow>
             (case uc_next e of None \<Rightarrow> Inr (h1(a := None))
              | Some n \<Rightarrow> (case h1 n of None \<Rightarrow> Inl FreedPointer
                  | Some en \<Rightarrow> Inr ((h1(n \<mapsto> en\<lparr>uc_prev := uc_prev e\<rparr>))(a := None)))))"

text \<open>The loop that looks for the destination and removes old entries on its way.\<close>

partial_function (option) uc_find ::
  "byte list \<Rightarrow> int \<Rightarrow> addr option \<Rightarrow> (addr \<rightharpoonup> awds_uc_dest_table) \<Rightarrow>
   (kfault + addr option \<times> (addr \<rightharpoonup> awds_uc_dest_table)) option" where
  "uc_find mac now tbl h =
     (case tbl of None \<Rightarrow> Some (Inr (None, h))
      | Some a \<Rightarrow>
          (case h a of None \<Rightarrow> Some (Inl FreedPointer)
           | Some e \<Rightarrow>
               if memcmp (uc_mac e) mac = 0 then Some (Inr (Some a, h))
               else if uc_too_old now e then
                 (case uc_unlink a e h of Inl f \<Rightarrow> Some (Inl f)
                  | Inr h' \<Rightarrow> uc_find mac now (uc_next e) h')
               else uc_find mac now (uc_next e) h))"

declare uc_find.simps [code]

definition awds_check_unicast_table :: "linux \<Rightarrow> addr \<Rightarrow> sk_buff \<Rightarrow> int kcomp" where
  "awds_check_unicast_table lx sk skb =
     kbind (deref k_sock (Some sk)) (\<lambda>k.
     if skb_len skb < AWDS_HLEN + ETH_ALEN then kreturn 0
     else kbind (skb_bytes skb AWDS_HLEN ETH_ALEN) (\<lambda>mac.
       kbind (kget k_uc) (\<lambda>h.
       case uc_find mac (lx_time_sec lx) (sk_table k) h of
         None \<Rightarrow> kfail Diverges
       | Some (Inl f) \<Rightarrow> kfail f
       | Some (Inr (tbl, h')) \<Rightarrow>
           kthen (kmod (\<lambda>s. s\<lparr>k_uc := h'\<rparr>))
           (case tbl of
              Some a \<Rightarrow>
                kbind (deref k_uc (Some a)) (\<lambda>e.
                if uc_too_old (lx_time_sec lx) e
                then kthen (kmod (\<lambda>s. s\<lparr>k_uc := (k_uc s)(a \<mapsto> e\<lparr>uc_time := lx_time_sec lx\<rparr>)\<rparr>))
                       (kreturn 0)
                else kreturn 1)
            | None \<Rightarrow> kthen (awds_instert_unicast_table lx sk skb) (kreturn 0)))))"

section \<open>Linked list segments\<close>

text \<open>
  \<open>uc_seg h pv p as nx lst\<close>: from the pointer \<open>p\<close> the addresses \<open>as\<close> are linked in both
  directions; \<open>pv\<close> precedes the first, \<open>nx\<close> follows the last, and \<open>lst\<close> is the last one
  (\<open>pv\<close> if there is none).
\<close>

fun uc_seg ::
  "(addr \<rightharpoonup> awds_uc_dest_table) \<Rightarrow> addr option \<Rightarrow> addr option \<Rightarrow> addr list \<Rightarrow> addr option \<Rightarrow>
   addr option \<Rightarrow> bool" where
  "uc_seg h pv p [] nx lst \<longleftrightarrow> p = nx \<and> lst = pv"
| "uc_seg h pv p (a # as) nx lst \<longleftrightarrow>
     p = Some a \<and> (case h a of None \<Rightarrow> False
       | Some e \<Rightarrow> uc_prev e = pv \<and> uc_seg h (Some a) (uc_next e) as nx lst)"

definition uc_list :: "(addr \<rightharpoonup> awds_uc_dest_table) \<Rightarrow> addr option \<Rightarrow> addr list \<Rightarrow> bool" where
  "uc_list h p as \<longleftrightarrow> distinct as \<and> (\<exists>lst. uc_seg h None p as None lst)"

lemma uc_seg_append:
  "uc_seg h pv p (as @ bs) nx lst \<longleftrightarrow> (\<exists>m l. uc_seg h pv p as m l \<and> uc_seg h l m bs nx lst)"
  by (induction as arbitrary: pv p) (auto split: option.splits)

lemma uc_seg_upd [simp]:
  "b \<notin> set as \<Longrightarrow> uc_seg (h(b := v)) pv p as nx lst = uc_seg h pv p as nx lst"
  by (induction as arbitrary: pv p) (auto split: option.splits)

lemma uc_seg_dom: "uc_seg h pv p as nx lst \<Longrightarrow> a \<in> set as \<Longrightarrow> h a \<noteq> None"
  by (induction as arbitrary: pv p) (auto split: option.splits)

lemma uc_first_list: "uc_list h (Some a) (a # as) \<Longrightarrow> uc_first h a = Some (Inr a)"
  by (subst uc_first.simps) (auto simp: uc_list_def split: option.splits)

section \<open>The loop on a well-formed list\<close>

definition uc_view :: "(addr \<rightharpoonup> awds_uc_dest_table) \<Rightarrow> addr \<Rightarrow> (byte list \<times> int) option" where
  "uc_view h a = map_option (\<lambda>e. (uc_mac e, uc_time e)) (h a)"

definition uc_match :: "(addr \<rightharpoonup> awds_uc_dest_table) \<Rightarrow> byte list \<Rightarrow> addr \<Rightarrow> bool" where
  "uc_match h mac a \<longleftrightarrow> map_option fst (uc_view h a) = Some mac"

definition uc_old :: "(addr \<rightharpoonup> awds_uc_dest_table) \<Rightarrow> int \<Rightarrow> addr \<Rightarrow> bool" where
  "uc_old h now a \<longleftrightarrow> now - snd (the (uc_view h a)) - MAX_AWDS_UC_INTERVAL > 0"

text \<open>The entries that are left: old ones in front of the destination disappear.\<close>

fun uc_kept :: "(addr \<rightharpoonup> awds_uc_dest_table) \<Rightarrow> byte list \<Rightarrow> int \<Rightarrow> addr list \<Rightarrow> addr list" where
  "uc_kept h mac now [] = []"
| "uc_kept h mac now (a # as) =
     (if uc_match h mac a then a # as
      else if uc_old h now a then uc_kept h mac now as
      else a # uc_kept h mac now as)"

lemma uc_kept_cong:
  "(\<And>a. a \<in> set as \<Longrightarrow> uc_view h a = uc_view h' a) \<Longrightarrow>
   uc_kept h mac now as = uc_kept h' mac now as"
  by (induction as) (auto simp: uc_match_def uc_old_def)

lemma find_match_cong:
  "(\<And>a. a \<in> set as \<Longrightarrow> uc_view h a = uc_view h' a) \<Longrightarrow>
   find (uc_match h mac) as = find (uc_match h' mac) as"
  by (induction as) (auto simp: uc_match_def)

lemma set_uc_kept: "set (uc_kept h mac now as) \<subseteq> set as"
  by (induction as) auto

lemma uc_seg_set_last:
  "uc_seg h pv p (pre @ [q]) m l \<Longrightarrow> q \<notin> set pre \<Longrightarrow> h q = Some eq \<Longrightarrow>
   uc_seg (h(q \<mapsto> eq\<lparr>uc_next := m'\<rparr>)) pv p (pre @ [q]) m' (Some q)"
  by (induction pre arbitrary: pv p) (auto split: option.splits)

lemma uc_seg_set_first:
  assumes "uc_seg h pv p (n # as) nx lst" "n \<notin> set as" "h n = Some en"
  shows "uc_seg (h(n \<mapsto> en\<lparr>uc_prev := pv'\<rparr>)) pv' p (n # as) nx lst"
  using assms by auto

text \<open>Removing an entry that has a predecessor keeps both neighbouring segments linked.\<close>

lemma uc_unlink_seg:
  assumes "distinct (pre @ q # a # as)"
    and "uc_seg h None tbl (pre @ [q]) (Some a) (Some q)" "uc_seg h (Some q) (Some a) (a # as) None lst"
    and "h a = Some e"
  shows "\<exists>h' lst'. uc_unlink a e h = Inr h' \<and> uc_seg h' None tbl (pre @ [q]) (uc_next e) (Some q) \<and>
    uc_seg h' (Some q) (uc_next e) as None lst' \<and>
    (\<forall>b. b \<noteq> a \<longrightarrow> uc_view h' b = uc_view h b) \<and>
    (\<forall>b. b \<notin> set (pre @ q # a # as) \<longrightarrow> h' b = h b)"
proof -
  have e: "uc_prev e = Some q" "uc_seg h (Some a) (uc_next e) as None lst"
    using assms(3,4) by auto
  obtain eq where eq: "h q = Some eq"
    using uc_seg_dom [OF assms(2), of q] by auto
  let ?h1 = "h(q \<mapsto> eq\<lparr>uc_next := uc_next e\<rparr>)"
  have pre: "uc_seg ?h1 None tbl (pre @ [q]) (uc_next e) (Some q)"
    using uc_seg_set_last [OF assms(2) _ eq] assms(1) by auto
  have as1: "uc_seg ?h1 (Some a) (uc_next e) as None lst"
    using e(2) assms(1) by auto
  show ?thesis
  proof (cases as)
    case Nil
    then have nx: "uc_next e = None" using e(2) by simp
    let ?h' = "?h1(a := None)"
    have "uc_seg ?h' None tbl (pre @ [q]) (uc_next e) (Some q)"
      using pre assms(1) by auto
    then show ?thesis
      using e eq nx Nil by (auto simp: uc_unlink_def uc_view_def)
  next
    case (Cons n as')
    then obtain en where nx: "uc_next e = Some n" and en: "?h1 n = Some en"
      using e(2) uc_seg_dom [OF as1, of n] by auto
    let ?h2 = "?h1(n \<mapsto> en\<lparr>uc_prev := Some q\<rparr>)"
    let ?h' = "?h2(a := None)"
    have "n \<notin> set as'" using assms(1) Cons by simp
    then have "uc_seg ?h2 (Some q) (uc_next e) as None lst"
      unfolding Cons by (rule uc_seg_set_first [OF as1 [unfolded Cons] _ en])
    then have 1: "uc_seg ?h' (Some q) (uc_next e) as None lst"
      using assms(1) by auto
    have 2: "uc_seg ?h' None tbl (pre @ [q]) (uc_next e) (Some q)"
      using pre assms(1) Cons by auto
    have "uc_unlink a e h = Inr ?h'"
      using e(1) eq nx en by (simp add: uc_unlink_def)
    moreover have "uc_view ?h' b = uc_view h b" if "b \<noteq> a" for b
      using that eq en by (auto simp: uc_view_def)
    moreover have "?h' b = h b" if "b \<notin> set (pre @ q # a # as)" for b
      using that Cons by auto
    ultimately show ?thesis using 1 2 by blast
  qed
qed

text \<open>
  The loop ends without a fault on every well-formed list whose first entry is not to be
  removed; it finds the destination if it is there and leaves a well-formed list.
\<close>

lemma uc_find_list:
  assumes "distinct (pre @ as)" "uc_seg h None tbl pre p l" "uc_seg h l p as None lst"
    and "pre = [] \<Longrightarrow> as \<noteq> [] \<Longrightarrow> uc_match h mac (hd as) \<or> \<not> uc_old h now (hd as)"
    and "\<And>a. a \<in> set as \<Longrightarrow> length (fst (the (uc_view h a))) = length mac"
  shows "\<exists>h' lst'. uc_find mac now p h = Some (Inr (find (uc_match h mac) as, h')) \<and>
    uc_seg h' None tbl (pre @ uc_kept h mac now as) None lst' \<and>
    (\<forall>a \<in> set (pre @ uc_kept h mac now as). uc_view h' a = uc_view h a) \<and>
    (\<forall>a. a \<notin> set (pre @ as) \<longrightarrow> h' a = h a)"
  using assms
proof (induction as arbitrary: pre p l h lst)
  case Nil
  then show ?case by (subst uc_find.simps) auto
next
  case (Cons a as)
  then obtain e where e: "h a = Some e" "p = Some a" "uc_prev e = l"
      "uc_seg h (Some a) (uc_next e) as None lst"
    by (auto split: option.splits)
  have mac: "(memcmp (uc_mac e) mac = 0) = uc_match h mac a"
    using Cons.prems(5) [of a] e memcmp_eq_0 [of "uc_mac e" mac]
    by (auto simp: uc_match_def uc_view_def)
  have old: "uc_too_old now e = uc_old h now a"
    using e by (simp add: uc_too_old_def uc_old_def uc_view_def)
  have seg: "uc_seg h None tbl (pre @ [a]) (uc_next e) (Some a)"
    unfolding uc_seg_append using Cons.prems(2) e by auto
  consider "uc_match h mac a" | "\<not> uc_match h mac a" "\<not> uc_old h now a"
    | "\<not> uc_match h mac a" "uc_old h now a" by blast
  then show ?case
  proof cases
    case 1
    have "uc_find mac now p h = Some (Inr (Some a, h))"
      using 1 mac e by (subst uc_find.simps) simp
    moreover have "uc_seg h None tbl (pre @ a # as) None lst"
      unfolding uc_seg_append using Cons.prems by blast
    ultimately show ?thesis using 1 by auto
  next
    case 2
    have "uc_find mac now p h = uc_find mac now (uc_next e) h"
      using 2 mac old e by (subst uc_find.simps) simp
    then show ?thesis
      using Cons.IH [of "pre @ [a]" h "uc_next e" "Some a" lst] 2 e(4) seg Cons.prems by simp
  next
    case 3
    then obtain pre' q where pre: "pre = pre' @ [q]"
      using Cons.prems(4) by (cases pre rule: rev_cases) auto
    then have l: "l = Some q" using Cons.prems(2) by (auto simp: uc_seg_append split: option.splits)
    obtain h' lst' where h': "uc_unlink a e h = Inr h'" "uc_seg h' None tbl (pre' @ [q]) (uc_next e) (Some q)"
        "uc_seg h' (Some q) (uc_next e) as None lst'" "\<forall>b. b \<noteq> a \<longrightarrow> uc_view h' b = uc_view h b"
        "\<forall>b. b \<notin> set (pre' @ q # a # as) \<longrightarrow> h' b = h b"
      using uc_unlink_seg [of pre' q a as h tbl lst e] Cons.prems(1-3) e l by (auto simp: pre)
    have view: "uc_view h' b = uc_view h b" if "b \<in> set as" for b
      using h'(4) that Cons.prems(1) by auto
    have "uc_find mac now p h = uc_find mac now (uc_next e) h'"
      using 3 mac old e h'(1) by (subst uc_find.simps) simp
    moreover note Cons.IH [of pre h' "uc_next e" "Some q" lst']
    ultimately show ?thesis
      using 3 h' view Cons.prems pre
        find_match_cong [of as h' h mac] uc_kept_cong [of as h' h mac now] set_uc_kept [of h mac now as]
      by (fastforce simp: ball_Un)
  qed
qed

lemma uc_seg_time [simp]:
  "h a = Some e \<Longrightarrow> uc_seg (h(a \<mapsto> e\<lparr>uc_time := x\<rparr>)) pv p as nx lst = uc_seg h pv p as nx lst"
  by (induction as arbitrary: pv p) (auto split: option.splits)

lemma find_kept: "find (uc_match h mac) (uc_kept h mac now as) = find (uc_match h mac) as"
  by (induction as) auto

lemma distinct_kept: "distinct as \<Longrightarrow> distinct (uc_kept h mac now as)"
  using set_uc_kept by (induction as) fastforce+

lemma kept_hd:
  "as \<noteq> [] \<Longrightarrow> uc_match h mac (hd as) \<or> \<not> uc_old h now (hd as) \<Longrightarrow>
   \<exists>bs. uc_kept h mac now as = hd as # bs"
  by (cases as) auto

lemma find_Some_mem: "find P as = Some a \<Longrightarrow> a \<in> set as"
  by (auto simp: find_Some_iff)

lemma find_match_view:
  "find (uc_match h mac) as = Some a \<Longrightarrow> \<exists>e. h a = Some e \<and> uc_mac e = mac"
  by (auto simp: find_Some_iff uc_match_def uc_view_def)

text \<open>A fresh entry for a destination is the first one the loop meets.\<close>

definition uc_fresh :: "(addr \<rightharpoonup> awds_uc_dest_table) \<Rightarrow> byte list \<Rightarrow> int \<Rightarrow> addr list \<Rightarrow> bool" where
  "uc_fresh h mac now as \<longleftrightarrow> (\<exists>a. find (uc_match h mac) as = Some a \<and> \<not> uc_old h now a)"

lemma uc_fresh_refresh:
  assumes "find (uc_match h mac) as = Some a" "h a = Some e"
  shows "uc_fresh (h(a \<mapsto> e\<lparr>uc_time := now\<rparr>)) mac now as"
proof -
  have "find (uc_match (h(a \<mapsto> e\<lparr>uc_time := now\<rparr>)) mac) as = find (uc_match h mac) as"
    by (rule arg_cong [where f = "\<lambda>P. find P as"], rule ext)
      (use assms(2) in \<open>auto simp: uc_match_def uc_view_def\<close>)
  then show ?thesis
    using assms by (auto simp: uc_fresh_def uc_old_def uc_view_def MAX_AWDS_UC_INTERVAL_def)
qed

lemma insert_unicast_list:
  assumes sk: "k_sock s sk = Some k" and list: "uc_list (k_uc s) (sk_table k) as"
    and len: "AWDS_HLEN + ETH_ALEN \<le> skb_len skb" and ok: "\<not> lx_kmalloc_fails lx (k_next s)"
    and free: "k_next s \<notin> set as" and mac: "mac = mem_read (skb_data skb) AWDS_HLEN ETH_ALEN"
  shows "\<exists>s' k'. awds_instert_unicast_table lx sk skb s = Inr ((), s') \<and> k_sock s' sk = Some k' \<and>
    uc_list (k_uc s') (sk_table k') (k_next s # as) \<and>
    uc_fresh (k_uc s') mac (lx_time_sec lx) (k_next s # as)"
proof (cases as)
  case Nil
  then have "sk_table k = None" using list by (auto simp: uc_list_def)
  then show ?thesis
    using sk len ok Nil mac
    by (auto simp: awds_instert_unicast_table_def kernel_simps skb_bytes_def set_sk_table_def
        uc_list_def uc_fresh_def uc_match_def uc_old_def uc_view_def MAX_AWDS_UC_INTERVAL_def)
next
  case (Cons f as')
  then obtain e lst where e: "sk_table k = Some f" "k_uc s f = Some e" "uc_prev e = None"
      "uc_seg (k_uc s) (Some f) (uc_next e) as' None lst" "distinct (f # as')"
    using list by (auto simp: uc_list_def split: option.splits)
  have "uc_first (k_uc s) f = Some (Inr f)"
    using uc_first_list list e(1) Cons by metis
  then show ?thesis
    using sk len ok Cons mac e free
    by (auto simp: awds_instert_unicast_table_def kernel_simps skb_bytes_def set_sk_table_def
        uc_list_def uc_fresh_def uc_match_def uc_old_def uc_view_def MAX_AWDS_UC_INTERVAL_def)
qed

section \<open>Properties\<close>

text \<open>
  Property C31: the table of unicast destinations.  On a well-formed list whose first entry is
  not an outdated entry of another destination, the check ends without a fault and leaves a
  well-formed list.  It lets the packet pass to the local device exactly if the destination
  was refreshed within the last 15 seconds; otherwise the packet goes to the daemon.  In both
  cases the destination is fresh afterwards, so that packets of the following 15 seconds pass.
\<close>

theorem awds_check_unicast_table_correct:
  assumes "k_sock s sk = Some k" "uc_list (k_uc s) (sk_table k) as"
    and "AWDS_HLEN + ETH_ALEN \<le> skb_len skb" "mac = mem_read (skb_data skb) AWDS_HLEN ETH_ALEN"
    and "\<not> lx_kmalloc_fails lx (k_next s)" "k_next s \<notin> set as"
    and "\<And>a. a \<in> set as \<Longrightarrow> length (fst (the (uc_view (k_uc s) a))) = 6"
    and "as \<noteq> [] \<Longrightarrow> uc_match (k_uc s) mac (hd as) \<or> \<not> uc_old (k_uc s) (lx_time_sec lx) (hd as)"
  shows "\<exists>r s' k' as'. awds_check_unicast_table lx sk skb s = Inr (r, s') \<and>
    r = (if uc_fresh (k_uc s) mac (lx_time_sec lx) as then 1 else 0) \<and>
    k_sock s' sk = Some k' \<and> uc_list (k_uc s') (sk_table k') as' \<and>
    uc_fresh (k_uc s') mac (lx_time_sec lx) as'"
proof -
  let ?now = "lx_time_sec lx" and ?as = "uc_kept (k_uc s) mac (lx_time_sec lx) as"
  have mac: "length mac = 6"
    using assms(3,4) by (simp add: skb_len_def awds_defines)
  obtain lst where "distinct ([] @ as)" "uc_seg (k_uc s) None (sk_table k) as None lst"
    using assms(2) by (auto simp: uc_list_def)
  with uc_find_list [of "[]" as "k_uc s" "sk_table k" "sk_table k" None lst mac ?now]
  obtain h' lst' where h': "uc_find mac ?now (sk_table k) (k_uc s) =
        Some (Inr (find (uc_match (k_uc s) mac) as, h'))"
      "uc_seg h' None (sk_table k) ?as None lst'"
      "\<forall>a \<in> set ?as. uc_view h' a = uc_view (k_uc s) a"
    using assms(7,8) mac by auto
  have list: "uc_list h' (sk_table k) ?as"
    using h'(2) assms(2) distinct_kept by (auto simp: uc_list_def)
  have find: "find (uc_match h' mac) ?as = find (uc_match (k_uc s) mac) as"
    using find_match_cong [of ?as h' "k_uc s" mac] h'(3) find_kept by metis
  show ?thesis
  proof (cases "find (uc_match (k_uc s) mac) as")
    case None
    let ?s = "s\<lparr>k_uc := h'\<rparr>"
    have "k_next ?s \<notin> set ?as" using set_uc_kept assms(6) by fastforce
    from insert_unicast_list [of ?s sk k ?as skb lx mac, OF _ _ assms(3) _ this assms(4)]
    show ?thesis
      using None list assms(1,3-5) h'(1)
      by (fastforce simp: awds_check_unicast_table_def kernel_simps skb_bytes_def uc_fresh_def)
  next
    case (Some a)
    then have "a \<in> set ?as" using find find_Some_mem by metis
    then have view: "uc_old h' ?now a = uc_old (k_uc s) ?now a"
      using h'(3) by (simp add: uc_old_def)
    obtain e where e: "h' a = Some e" using Some find find_match_view by metis
    then have old: "uc_too_old ?now e = uc_old h' ?now a"
      by (simp add: uc_too_old_def uc_old_def uc_view_def)
    have "uc_fresh (h'(a \<mapsto> e\<lparr>uc_time := ?now\<rparr>)) mac ?now ?as"
      using uc_fresh_refresh e Some find by metis
    moreover have "uc_list (h'(a \<mapsto> e\<lparr>uc_time := ?now\<rparr>)) (sk_table k) ?as"
      using list e by (simp add: uc_list_def)
    ultimately show ?thesis
      using Some assms(1,3,4) h'(1) list find view e old
      by (cases "uc_old h' ?now a")
        (auto simp: awds_check_unicast_table_def kernel_simps skb_bytes_def uc_fresh_def)
  qed
qed

text \<open>
  An outdated entry at the head of the table is freed but stays the head.  With
  a single entry older than 15 seconds, a packet for another destination frees the entry and
  then dereferences the freed memory while it inserts its own.
\<close>

theorem awds_check_unicast_table_use_after_free:
  assumes "k_sock s sk = Some k" "sk_table k = Some a"
    and "k_uc s a = Some e" "uc_prev e = None" "uc_next e = None" "length (uc_mac e) = 6"
    and "uc_mac e \<noteq> mem_read (skb_data skb) AWDS_HLEN ETH_ALEN"
    and "lx_time_sec lx > uc_time e + MAX_AWDS_UC_INTERVAL"
    and "AWDS_HLEN + ETH_ALEN \<le> skb_len skb"
  shows "awds_check_unicast_table lx sk skb s = Inl FreedPointer"
proof -
  let ?mac = "mem_read (skb_data skb) AWDS_HLEN ETH_ALEN"
  have "length ?mac = 6" using assms(9) by (simp add: skb_len_def awds_defines)
  then have "memcmp (uc_mac e) ?mac \<noteq> 0"
    using assms(6,7) memcmp_eq_0 [of "uc_mac e" ?mac] by simp
  moreover have "uc_too_old (lx_time_sec lx) e" using assms(8) by (simp add: uc_too_old_def)
  ultimately have "uc_find ?mac (lx_time_sec lx) (Some a) (k_uc s) =
      Some (Inr (None, (k_uc s)(a := None)))"
    using assms(3-5) uc_find.simps [of ?mac "lx_time_sec lx" None]
    by (subst uc_find.simps) (simp add: uc_unlink_def)
  moreover have "uc_first ((k_uc s)(a := None)) a = Some (Inl FreedPointer)"
    by (subst uc_first.simps) simp
  ultimately show ?thesis
    using assms(1,2,9)
    by (simp add: awds_check_unicast_table_def awds_instert_unicast_table_def kernel_simps
        skb_bytes_def)
qed

text \<open>A socket with no queue and a given table, for examples.\<close>

definition example_sock :: "addr option \<Rightarrow> awds_sock" where
  "example_sock tbl = \<lparr>sk_ifcount = 1, sk_interf = None, sk_table = tbl, sk_receive_queue = [],
     sk_refcnt = 1, sk_err = 0, sk_error_queue_empty = True, sk_rcv_shutdown = False,
     sk_writeable = True\<rparr>"

theorem awds_check_unicast_table_correct_witness:
  "let s = kernel_loaded\<lparr>k_sock := [9 \<mapsto> example_sock None]\<rparr>
   in \<exists>r s'. awds_check_unicast_table linux_up 9
      \<lparr>skb_head = [], skb_data = replicate 40 1, skb_dev = 0, skb_protocol = 0\<rparr> s = Inr (r, s') \<and> r = 0"
  using awds_check_unicast_table_correct
    [of "kernel_loaded\<lparr>k_sock := [9 \<mapsto> example_sock None]\<rparr>" 9 "example_sock None" "[]"
      "\<lparr>skb_head = [], skb_data = replicate 40 1, skb_dev = 0, skb_protocol = 0\<rparr>"
      "mem_read (replicate 40 1) AWDS_HLEN ETH_ALEN" linux_up]
  by (auto simp: kernel_loaded_defs uc_list_def uc_fresh_def skb_len_def awds_defines example_sock_def)

theorem awds_check_unicast_table_use_after_free_witness:
  "awds_check_unicast_table (linux_up\<lparr>lx_time_sec := 16\<rparr>) 9
      \<lparr>skb_head = [], skb_data = replicate 40 1, skb_dev = 0, skb_protocol = 0\<rparr>
      (kernel_loaded\<lparr>k_sock := [9 \<mapsto> example_sock (Some 5)],
        k_uc := [5 \<mapsto> \<lparr>uc_prev = None, uc_next = None, uc_mac = replicate 6 2, uc_time = 0\<rparr>]\<rparr>) =
    Inl FreedPointer"
  using awds_check_unicast_table_use_after_free [of
      "kernel_loaded\<lparr>k_sock := [9 \<mapsto> example_sock (Some 5)],
        k_uc := [5 \<mapsto> \<lparr>uc_prev = None, uc_next = None, uc_mac = replicate 6 2, uc_time = 0\<rparr>]\<rparr>" 9
      "example_sock (Some 5)" 5 "\<lparr>uc_prev = None, uc_next = None, uc_mac = replicate 6 2, uc_time = 0\<rparr>"
      "\<lparr>skb_head = [], skb_data = replicate 40 1, skb_dev = 0, skb_protocol = 0\<rparr>"
      "linux_up\<lparr>lx_time_sec := 16\<rparr>"]
  by (simp add: example_sock_def skb_len_def awds_defines mem_read_def)

end
