(* ===== verification/Kernel_Instances.thy ===== *)
theory Kernel_Instances
  imports Kernel_Unicast
begin

text \<open>
  The instances and their interfaces (\<open>src/linux-module/awds_module.c\<close>, the helper functions
  from \<open>__awds_create_instance\<close> on, and the socket calls that use them).  An instance is a
  daemon that has bound a socket; its interfaces form a doubly linked list that hangs off the
  socket, and the instances are kept in an array of four slots.  A function of the source whose name
  starts with two underscores, which is to be called with the lock held, ends in \<open>_locked\<close> here.
\<close>

section \<open>The lock of an instance\<close>

definition inst_lock :: "addr option \<Rightarrow> unit kcomp" where
  "inst_lock p = kbind (deref k_inst p) (\<lambda>i.
     if in_lock i then kfail DeadLock
     else kmod (\<lambda>s. s\<lparr>k_inst := (k_inst s)(the p \<mapsto> i\<lparr>in_lock := True\<rparr>)\<rparr>))"

definition inst_unlock :: "addr option \<Rightarrow> unit kcomp" where
  "inst_unlock p = kbind (deref k_inst p) (\<lambda>i.
     kmod (\<lambda>s. s\<lparr>k_inst := (k_inst s)(the p \<mapsto> i\<lparr>in_lock := False\<rparr>)\<rparr>))"

definition mod_sock :: "addr \<Rightarrow> (awds_sock \<Rightarrow> awds_sock) \<Rightarrow> unit kcomp" where
  "mod_sock a f = kbind (deref k_sock (Some a)) (\<lambda>k. kmod (\<lambda>s. s\<lparr>k_sock := (k_sock s)(a \<mapsto> f k)\<rparr>))"

definition mod_iface :: "addr \<Rightarrow> (awds_interface \<Rightarrow> awds_interface) \<Rightarrow> unit kcomp" where
  "mod_iface a f = kbind (deref k_iface (Some a)) (\<lambda>e. kmod (\<lambda>s. s\<lparr>k_iface := (k_iface s)(a \<mapsto> f e)\<rparr>))"

definition dev_hold :: "addr \<Rightarrow> unit kcomp" where
  "dev_hold d = kmod (\<lambda>s. s\<lparr>k_dev_refs := (k_dev_refs s)(d := k_dev_refs s d + 1)\<rparr>)"

definition dev_put :: "addr \<Rightarrow> unit kcomp" where
  "dev_put d = kmod (\<lambda>s. s\<lparr>k_dev_refs := (k_dev_refs s)(d := k_dev_refs s d - 1)\<rparr>)"

text \<open>Dropping the last reference frees the socket.\<close>

definition sock_put :: "addr \<Rightarrow> unit kcomp" where
  "sock_put a = kbind (deref k_sock (Some a)) (\<lambda>k.
     if sk_refcnt k = 1 then kmod (\<lambda>s. s\<lparr>k_sock := (k_sock s)(a := None)\<rparr>)
     else kmod (\<lambda>s. s\<lparr>k_sock := (k_sock s)(a \<mapsto> k\<lparr>sk_refcnt := sk_refcnt k - 1\<rparr>)\<rparr>))"

section \<open>Finding interfaces and instances\<close>

partial_function (option) iface_find ::
  "(addr \<rightharpoonup> awds_interface) \<Rightarrow> addr \<Rightarrow> addr option \<Rightarrow> (kfault + addr option) option" where
  "iface_find h dev p =
     (case p of None \<Rightarrow> Some (Inr None)
      | Some a \<Rightarrow> (case h a of None \<Rightarrow> Some (Inl FreedPointer)
          | Some e \<Rightarrow> if if_dev e = Some dev then Some (Inr (Some a))
                       else iface_find h dev (if_next e)))"

declare iface_find.simps [code]

definition awds_find_interface_locked :: "addr option \<Rightarrow> addr \<Rightarrow> addr option kcomp" where
  "awds_find_interface_locked inst dev =
     kbind (deref k_inst inst) (\<lambda>i.
       if \<not> in_lock i then kreturn None
       else kbind (deref k_sock (in_sock i)) (\<lambda>k.
         kbind (kget k_iface) (\<lambda>h. kloop (iface_find h dev (sk_interf k)))))"

definition awds_find_interface :: "addr option \<Rightarrow> addr \<Rightarrow> addr option kcomp" where
  "awds_find_interface inst dev =
     kthen (inst_lock inst) (kbind (awds_find_interface_locked inst dev) (\<lambda>r.
       kthen (inst_unlock inst) (kreturn r)))"

text \<open>A read of \<open>awds_instances[i]\<close>.\<close>

definition instances_get :: "nat \<Rightarrow> addr option kcomp" where
  "instances_get i s =
     (if i < length (k_instances s) then Inr (k_instances s ! i, s) else Inl OutOfBounds)"

fun find_sock_loop :: "addr \<Rightarrow> nat list \<Rightarrow> int kcomp" where
  "find_sock_loop sk [] = kreturn (- EAWDSMISSING)"
| "find_sock_loop sk (i # is) =
     kbind (instances_get i) (\<lambda>p. kbind (deref k_inst p) (\<lambda>inst.
       if in_sock inst = Some sk then kreturn (int i) else find_sock_loop sk is))"

definition instance_slots :: "kernel \<Rightarrow> nat list" where
  "instance_slots s = [0..<nat (k_instance_index s + 1)]"

definition awds_find_instance_index_by_sock_locked :: "addr \<Rightarrow> int kcomp" where
  "awds_find_instance_index_by_sock_locked sk =
     kbind mutex_is_locked (\<lambda>l.
       if \<not> l then kreturn (- EAWDSNOMUTEX)
       else kbind (kget instance_slots) (find_sock_loop sk))"

definition awds_find_instance_index_by_sock :: "addr \<Rightarrow> int kcomp" where
  "awds_find_instance_index_by_sock sk =
     kthen mutex_lock (kbind (awds_find_instance_index_by_sock_locked sk) (\<lambda>r.
       kthen mutex_unlock (kreturn r)))"

definition awds_find_instance_by_sock_locked :: "addr \<Rightarrow> addr option kcomp" where
  "awds_find_instance_by_sock_locked sk =
     kbind mutex_is_locked (\<lambda>l.
       if \<not> l then kreturn None
       else kbind (awds_find_instance_index_by_sock_locked sk) (\<lambda>index.
         if index = - EAWDSMISSING then kreturn None
         else if index < 0 then kfail OutOfBounds
         else instances_get (nat index)))"

definition awds_find_instance_by_sock :: "addr \<Rightarrow> addr option kcomp" where
  "awds_find_instance_by_sock sk =
     kthen mutex_lock (kbind (awds_find_instance_by_sock_locked sk) (\<lambda>r.
       kthen mutex_unlock (kreturn r)))"

fun find_dev_loop :: "addr \<Rightarrow> nat list \<Rightarrow> addr option kcomp" where
  "find_dev_loop dev [] = kreturn None"
| "find_dev_loop dev (i # is) =
     kbind (instances_get i) (\<lambda>p. kbind (awds_find_interface p dev) (\<lambda>r.
       if r \<noteq> None then instances_get i else find_dev_loop dev is))"

definition awds_find_instance_by_dev_locked :: "addr \<Rightarrow> addr option kcomp" where
  "awds_find_instance_by_dev_locked dev =
     kbind mutex_is_locked (\<lambda>l.
       if \<not> l then kreturn None
       else kbind (kget instance_slots) (find_dev_loop dev))"

text \<open>The instance that was found is not what is returned.\<close>

definition awds_find_instance_by_dev :: "addr \<Rightarrow> addr option kcomp" where
  "awds_find_instance_by_dev dev =
     kthen mutex_lock (kthen (awds_find_instance_by_dev_locked dev)
       (kthen mutex_unlock (kreturn None)))"

section \<open>The array of instances\<close>

definition awds_add_instance_locked :: "addr option \<Rightarrow> int kcomp" where
  "awds_add_instance_locked inst =
     kbind mutex_is_locked (\<lambda>l.
       if \<not> l then kreturn (- EAWDSNOMUTEX)
       else if inst = None then kreturn (- EAWDSINVAL)
       else kbind (kget k_instance_index) (\<lambda>cur.
         kbind (kget k_instances) (\<lambda>arr.
         if list_ex (\<lambda>i. arr ! nat cur = inst) [0..<nat (cur + 1)] then kreturn (- EAWDSEXIST)
         else if cur = MAX_AWDS_INDEX then kreturn (- EAWDSFULL)
         else kthen (kmod (\<lambda>s. s\<lparr>k_instance_index := cur + 1\<rparr>))
           (kbind (deref k_inst inst) (\<lambda>i.
            kthen (kmod (\<lambda>s. s\<lparr>k_inst := (k_inst s)(the inst \<mapsto> i\<lparr>in_index := cur + 1\<rparr>),
                k_instances := (k_instances s)[nat (cur + 1) := inst]\<rparr>))
              (kreturn 0))))))"

definition awds_add_instance :: "addr option \<Rightarrow> int kcomp" where
  "awds_add_instance inst =
     kthen mutex_lock (kbind (awds_add_instance_locked inst) (\<lambda>r. kthen mutex_unlock (kreturn r)))"

definition awds_del_instance_locked :: "addr option \<Rightarrow> int kcomp" where
  "awds_del_instance_locked inst =
     kbind (deref k_inst inst) (\<lambda>i.
     kbind mutex_is_locked (\<lambda>l.
       if \<not> l then kreturn (- EAWDSNOMUTEX)
       else kbind (kget instance_slots) (\<lambda>slots.
         kbind (kget k_instances) (\<lambda>arr.
         case find (\<lambda>j. arr ! j = inst) slots of
           None \<Rightarrow> kreturn (- EAWDSINVAL)
         | Some j \<Rightarrow>
             kthen (kmod (\<lambda>s. s\<lparr>k_instances := (k_instances s)[j := None],
                k_inst := (k_inst s)(the inst \<mapsto> i\<lparr>in_index := -1, in_sock := None\<rparr>)\<rparr>))
             (kthen (case in_sock i of None \<Rightarrow> kreturn () | Some sk \<Rightarrow> sock_put sk)
             (kthen (kmod (\<lambda>s. s\<lparr>k_instance_index := k_instance_index s - 1\<rparr>))
               (kreturn 0)))))))"

definition awds_del_instance :: "addr option \<Rightarrow> int kcomp" where
  "awds_del_instance inst =
     kthen mutex_lock (kbind (awds_del_instance_locked inst) (\<lambda>r. kthen mutex_unlock (kreturn r)))"

section \<open>The interfaces of an instance\<close>

text \<open>
  The walk to the last interface.  It counts the steps; \<open>None\<close> inside the result is the
  interface met again on the way.
\<close>

partial_function (option) iface_last ::
  "(addr \<rightharpoonup> awds_interface) \<Rightarrow> addr \<Rightarrow> addr \<Rightarrow> int \<Rightarrow> (kfault + (addr \<times> int) option) option" where
  "iface_last h new a n =
     (case h a of None \<Rightarrow> Some (Inl FreedPointer)
      | Some e \<Rightarrow> (case if_next e of None \<Rightarrow> Some (Inr (Some (a, n)))
          | Some b \<Rightarrow> if a = new then Some (Inr None) else iface_last h new b (n + 1)))"

declare iface_last.simps [code]

definition awds_add_interface_locked :: "addr option \<Rightarrow> addr option \<Rightarrow> int kcomp" where
  "awds_add_interface_locked inst iface =
     kbind (deref k_inst inst) (\<lambda>i.
     if \<not> in_lock i then kreturn (- EAWDSNOMUTEX)
     else case iface of
       None \<Rightarrow> kreturn (- EAWDSINVAL)
     | Some new \<Rightarrow>
         kbind (deref k_sock (in_sock i)) (\<lambda>k.
         let finish = (\<lambda>n. kthen (mod_iface new (\<lambda>e. e\<lparr>if_index := n\<rparr>))
               (kthen (mod_sock (the (in_sock i)) (\<lambda>k. k\<lparr>sk_ifcount := sk_ifcount k + 1\<rparr>))
                 (kreturn n))) in
         case sk_interf k of
           None \<Rightarrow> kthen (mod_sock (the (in_sock i)) (\<lambda>k. k\<lparr>sk_interf := Some new\<rparr>)) (finish 0)
         | Some first \<Rightarrow>
             if first = new then kreturn (- EAWDSINVAL)
             else kbind (kget k_iface) (\<lambda>h. kbind (kloop (iface_last h new first 0)) (\<lambda>r.
               case r of None \<Rightarrow> kreturn (- EAWDSINVAL)
               | Some (l, n) \<Rightarrow>
                   kthen (mod_iface l (\<lambda>e. e\<lparr>if_next := Some new\<rparr>))
                   (kthen (mod_iface new (\<lambda>e. e\<lparr>if_prev := Some l\<rparr>)) (finish n))))))"

definition awds_add_interface :: "addr option \<Rightarrow> addr option \<Rightarrow> int kcomp" where
  "awds_add_interface inst iface =
     kthen (inst_lock inst) (kbind (awds_add_interface_locked inst iface) (\<lambda>r.
       kthen (inst_unlock inst) (kreturn r)))"

definition awds_del_interface_locked :: "addr option \<Rightarrow> addr option \<Rightarrow> int kcomp" where
  "awds_del_interface_locked inst iface =
     kbind (deref k_inst inst) (\<lambda>i.
     if \<not> in_lock i then kreturn (- EAWDSNOMUTEX)
     else case iface of
       None \<Rightarrow> kreturn 0
     | Some a \<Rightarrow>
         kbind (deref k_iface iface) (\<lambda>e.
         kthen (case if_prev e of None \<Rightarrow> kreturn ()
                | Some p \<Rightarrow> mod_iface p (\<lambda>x. x\<lparr>if_next := if_next e\<rparr>))
         (kthen (case if_next e of None \<Rightarrow> kreturn ()
                | Some n \<Rightarrow> mod_iface n (\<lambda>x. x\<lparr>if_prev := if_prev e\<rparr>))
         (kthen (case if_dev e of None \<Rightarrow> kfail NullPointer | Some d \<Rightarrow> dev_put d)
         (kthen (kmod (\<lambda>s. s\<lparr>k_iface := (k_iface s)(a := None)\<rparr>))
         (case in_sock i of None \<Rightarrow> kfail NullPointer
          | Some sk \<Rightarrow> kthen (mod_sock sk (\<lambda>k. k\<lparr>sk_ifcount := sk_ifcount k - 1\<rparr>)) (kreturn 0)))))))"

definition awds_del_interface :: "addr option \<Rightarrow> addr option \<Rightarrow> int kcomp" where
  "awds_del_interface inst iface =
     kthen (inst_lock inst) (kbind (awds_del_interface_locked inst iface) (\<lambda>r.
       kthen (inst_unlock inst) (kreturn r)))"

text \<open>On the path that succeeds the lock is not released.\<close>

definition awds_release_interface :: "addr option \<Rightarrow> addr option \<Rightarrow> int kcomp" where
  "awds_release_interface inst iface =
     kthen (inst_lock inst)
       (if inst \<noteq> None \<and> iface \<noteq> None
        then kthen (awds_del_interface_locked inst iface) (kreturn 0)
        else kthen (inst_unlock inst) (kreturn (- EAWDSINVAL)))"

definition awds_create_interface :: "linux \<Rightarrow> addr option \<Rightarrow> sockaddr_awds \<Rightarrow> int kcomp" where
  "awds_create_interface lx inst addr =
     (case lx_dev_get_by_index lx (sa_ifindex addr) of
        None \<Rightarrow> kreturn (- EAWDSINVAL)
      | Some dev \<Rightarrow>
          kthen (dev_hold dev)
          (kbind (awds_find_interface inst dev) (\<lambda>r.
           if r \<noteq> None then kthen (dev_put dev) (kreturn (- EADDRINUSE))
           else kbind (kmalloc lx) (\<lambda>p.
             case p of
               None \<Rightarrow> kthen (dev_put dev) (kreturn (- ENOBUFS))
             | Some a \<Rightarrow>
                 kbind (kmalloc lx) (\<lambda>q.
                 if q = None then kthen (dev_put dev) (kreturn (- ENOBUFS))
                 else kthen (kmod (\<lambda>s. s\<lparr>k_iface := (k_iface s)(a \<mapsto>
                         \<lparr>if_next = None, if_prev = None, if_index = sa_ifindex addr,
                          if_dev = Some dev, if_addr = addr\<rparr>)\<rparr>))
                   (kbind (awds_add_interface inst (Some a)) (\<lambda>ret.
                    if ret \<noteq> 0 then kthen (awds_release_interface inst (Some a)) (kreturn ret)
                    else kreturn ret)))))))"

section \<open>Creating and releasing an instance\<close>

definition awds_create_instance_locked :: "linux \<Rightarrow> addr \<Rightarrow> sockaddr_awds \<Rightarrow> int kcomp" where
  "awds_create_instance_locked lx sk addr =
     kbind (kget k_instance_index) (\<lambda>cur.
     if cur \<ge> MAX_AWDS_INDEX
     then kthen (kmod (\<lambda>s. s\<lparr>k_instance_index := MAX_AWDS_INDEX\<rparr>)) (kreturn (- ENOBUFS))
     else kbind (kmalloc lx) (\<lambda>p.
       case p of None \<Rightarrow> kreturn (- ENOBUFS)
       | Some a \<Rightarrow>
           kthen (kmod (\<lambda>s. s\<lparr>k_inst := (k_inst s)(a \<mapsto>
             \<lparr>in_index = -1, in_sock = Some sk, in_lock = False\<rparr>)\<rparr>))
           (kthen (mod_sock sk (\<lambda>k. k\<lparr>sk_interf := None, sk_table := None\<rparr>))
           (kbind (awds_create_interface lx p addr) (\<lambda>ret.
            if ret = 0 then kthen (awds_add_instance_locked p) (kreturn ret)
            else kthen (kmod (\<lambda>s. s\<lparr>k_inst := (k_inst s)(a := None)\<rparr>)) (kreturn ret))))))"

text \<open>The loop reads the \<open>next\<close> field of the interface it has just released.\<close>

partial_function (option) release_loop ::
  "addr option \<Rightarrow> addr option \<Rightarrow> kernel \<Rightarrow> (int kres) option" where
  "release_loop inst iface s =
     (case iface of None \<Rightarrow> Some (Inr (0, s))
      | Some a \<Rightarrow>
          (case awds_release_interface inst iface s of
             Inl f \<Rightarrow> Some (Inl f)
           | Inr (ret, s') \<Rightarrow>
               if ret \<noteq> 0 then Some (Inr (ret, s'))
               else (case deref k_iface iface s' of
                       Inl f \<Rightarrow> Some (Inl f)
                     | Inr (e, s'') \<Rightarrow> release_loop inst (if_next e) s'')))"

declare release_loop.simps [code]

definition awds_release_instance_locked :: "addr option \<Rightarrow> int kcomp" where
  "awds_release_instance_locked inst =
     kbind mutex_is_locked (\<lambda>l.
     if \<not> l then kreturn (- EAWDSNOMUTEX)
     else kbind (deref k_inst inst) (\<lambda>i.
       case in_sock i of None \<Rightarrow> kfail NullPointer
       | Some sk \<Rightarrow>
           kbind (deref k_sock (Some sk)) (\<lambda>k.
           kthen (mod_sock sk (\<lambda>k. k\<lparr>sk_interf := None\<rparr>))
           (kbind (\<lambda>s. case release_loop inst (sk_interf k) s of None \<Rightarrow> Inl Diverges | Some r \<Rightarrow> r) (\<lambda>ret.
            if ret \<noteq> 0 then kreturn ret
            else kbind (awds_del_instance_locked inst) (\<lambda>ret.
              if ret = 0 then kthen (kmod (\<lambda>s. s\<lparr>k_inst := (k_inst s)(the inst := None)\<rparr>)) (kreturn ret)
              else kreturn ret))))))"

section \<open>The socket calls\<close>

text \<open>A socket starts with all fields of \<open>struct awds_sock\<close> zero and one reference.\<close>

definition awds_create_socket :: "linux \<Rightarrow> (int \<times> addr option) kcomp" where
  "awds_create_socket lx =
     kbind (kmalloc lx) (\<lambda>p.
       case p of None \<Rightarrow> kfail NullPointer
       | Some a \<Rightarrow> kthen (kmod (\<lambda>s. s\<lparr>k_sock := (k_sock s)(a \<mapsto>
           \<lparr>sk_ifcount = 0, sk_interf = None, sk_table = None, sk_receive_queue = [],
            sk_refcnt = 1, sk_err = 0, sk_error_queue_empty = True, sk_rcv_shutdown = False,
            sk_writeable = True\<rparr>)\<rparr>))
           (kreturn (0, Some a)))"

definition awds_socket_bind :: "linux \<Rightarrow> addr \<Rightarrow> sockaddr_awds \<Rightarrow> int kcomp" where
  "awds_socket_bind lx sk addr =
     kthen mutex_lock
       (kbind (awds_find_instance_by_sock_locked sk) (\<lambda>inst.
        kbind (if inst \<noteq> None then awds_create_interface lx inst addr
               else awds_create_instance_locked lx sk addr) (\<lambda>res.
        kthen mutex_unlock (kreturn res))))"

definition awds_socket_release :: "addr \<Rightarrow> int kcomp" where
  "awds_socket_release sk =
     kthen mutex_lock
       (kbind (awds_find_instance_by_sock_locked sk) (\<lambda>inst.
        kthen (if inst \<noteq> None then awds_release_instance_locked inst
               else kthen (sock_put sk) (kreturn (- EAWDSINVAL)))
        (kthen mutex_unlock (kreturn 0))))"

section \<open>Well-formed instances\<close>

fun if_list :: "(addr \<rightharpoonup> awds_interface) \<Rightarrow> addr option \<Rightarrow> addr list \<Rightarrow> bool" where
  "if_list h p [] \<longleftrightarrow> p = None"
| "if_list h p (a # as) \<longleftrightarrow> p = Some a \<and> (case h a of None \<Rightarrow> False | Some e \<Rightarrow> if_list h (if_next e) as)"

lemma if_list_upd [simp]: "b \<notin> set as \<Longrightarrow> if_list (h(b := v)) p as = if_list h p as"
  by (induction as arbitrary: p) (auto split: option.splits)

lemma if_list_dom: "if_list h p as \<Longrightarrow> a \<in> set as \<Longrightarrow> a \<in> dom h"
  by (induction as arbitrary: p) (auto split: option.splits)

lemma iface_find_list:
  "if_list h p as \<Longrightarrow> iface_find h dev p = Some (Inr (find (\<lambda>a. if_dev (the (h a)) = Some dev) as))"
  by (induction as arbitrary: p; subst iface_find.simps) (auto split: option.splits)

lemma find_append_None: "find P xs = None \<Longrightarrow> find P (xs @ ys) = find P ys"
  by (induction xs) (auto split: if_splits)

text \<open>
  An instance is well formed if it is not locked, its socket exists and the interfaces of the
  socket form a list.  The array is well formed if the slots up to the index hold well-formed
  instances.
\<close>

definition inst_ok :: "kernel \<Rightarrow> addr \<Rightarrow> bool" where
  "inst_ok s a \<longleftrightarrow> (\<exists>i sk k as. k_inst s a = Some i \<and> \<not> in_lock i \<and> in_sock i = Some sk \<and>
     k_sock s sk = Some k \<and> if_list (k_iface s) (sk_interf k) as)"

definition instances_ok :: "kernel \<Rightarrow> bool" where
  "instances_ok s \<longleftrightarrow> length (k_instances s) = MAX_AWDS_COUNT \<and> -1 \<le> k_instance_index s \<and>
     k_instance_index s \<le> MAX_AWDS_INDEX \<and>
     (\<forall>i \<in> set (instance_slots s). \<exists>a. k_instances s ! i = Some a \<and> inst_ok s a)"

definition bound_to :: "kernel \<Rightarrow> addr \<Rightarrow> nat \<Rightarrow> bool" where
  "bound_to s sk i \<longleftrightarrow> (\<exists>a inst. k_instances s ! i = Some a \<and> k_inst s a = Some inst \<and>
     in_sock inst = Some sk)"

lemma find_sock_loop_ok:
  assumes "\<forall>i \<in> set is. i < length (k_instances s) \<and> (\<exists>a. k_instances s ! i = Some a \<and> inst_ok s a)"
  shows "find_sock_loop sk is s =
    Inr (case find (bound_to s sk) is of None \<Rightarrow> - EAWDSMISSING | Some i \<Rightarrow> int i, s)"
  using assms
  by (induction "is") (auto simp: kernel_simps instances_get_def inst_ok_def bound_to_def)

lemma instance_slots_less:
  "instances_ok s \<Longrightarrow> i \<in> set (instance_slots s) \<Longrightarrow> i < length (k_instances s)"
  by (auto simp: instances_ok_def instance_slots_def awds_defines)

lemma find_index_by_sock_ok:
  assumes "instances_ok s" "k_mutex s"
  shows "awds_find_instance_index_by_sock_locked sk s =
    Inr (case find (bound_to s sk) (instance_slots s) of None \<Rightarrow> - EAWDSMISSING | Some i \<Rightarrow> int i, s)"
  using assms find_sock_loop_ok [of "instance_slots s" s sk] instance_slots_less [OF assms(1)]
  by (auto simp: awds_find_instance_index_by_sock_locked_def kernel_simps instances_ok_def)

lemma find_instance_by_sock_ok:
  assumes "instances_ok s" "k_mutex s"
  shows "awds_find_instance_by_sock_locked sk s =
    Inr (case find (bound_to s sk) (instance_slots s) of None \<Rightarrow> None | Some i \<Rightarrow> k_instances s ! i, s)"
proof (cases "find (bound_to s sk) (instance_slots s)")
  case None
  then show ?thesis
    using assms find_index_by_sock_ok [OF assms]
    by (simp add: awds_find_instance_by_sock_locked_def kernel_simps)
next
  case (Some i)
  then have "i < length (k_instances s)"
    using instance_slots_less [OF assms(1)] find_Some_mem by metis
  then show ?thesis
    using assms find_index_by_sock_ok [OF assms] Some
    by (simp add: awds_find_instance_by_sock_locked_def kernel_simps EAWDSMISSING_def instances_get_def)
qed

lemma find_interface_ok:
  assumes "inst_ok s a"
  shows "\<exists>r. awds_find_interface (Some a) dev s = Inr (r, s)"
proof -
  obtain i sk k as where i: "k_inst s a = Some i" "\<not> in_lock i" "in_sock i = Some sk"
      "k_sock s sk = Some k" "if_list (k_iface s) (sk_interf k) as"
    using assms by (auto simp: inst_ok_def)
  then have "i\<lparr>in_lock := False\<rparr> = i" by simp
  with i show ?thesis
    using iface_find_list [OF i(5)]
    by (simp add: awds_find_interface_def awds_find_interface_locked_def inst_lock_def inst_unlock_def
        kernel_simps fun_upd_idem)
qed

section \<open>Binding a new socket\<close>

text \<open>The state after a socket \<open>sk\<close> has been bound to the device \<open>dev\<close> for the first time.\<close>

definition after_bind :: "addr \<Rightarrow> awds_sock \<Rightarrow> addr \<Rightarrow> sockaddr_awds \<Rightarrow> kernel \<Rightarrow> kernel" where
  "after_bind sk k dev addr s =
     (let a = k_next s; b = k_next s + 1; n = k_instance_index s + 1 in
      s\<lparr>k_next := Suc (Suc (Suc (k_next s))), k_instance_index := n, k_instances := (k_instances s)[nat n := Some a],
        k_inst := (k_inst s)(a \<mapsto> \<lparr>in_index = n, in_sock = Some sk, in_lock = False\<rparr>),
        k_iface := (k_iface s)(b \<mapsto> \<lparr>if_next = None, if_prev = None, if_index = 0,
           if_dev = Some dev, if_addr = addr\<rparr>),
        k_sock := (k_sock s)(sk \<mapsto> k\<lparr>sk_table := None, sk_interf := Some b,
           sk_ifcount := sk_ifcount k + 1\<rparr>),
        k_dev_refs := (k_dev_refs s)(dev := k_dev_refs s dev + 1)\<rparr>)"

lemma create_instance_ok:
  assumes "instances_ok s" "k_mutex s" "k_sock s sk = Some k" "k_instance_index s < MAX_AWDS_INDEX"
    and "lx_dev_get_by_index lx (sa_ifindex addr) = Some dev" "\<And>p. \<not> lx_kmalloc_fails lx p"
    and "k_inst s (k_next s) = None"
  shows "awds_create_instance_locked lx sk addr s = Inr (0, after_bind sk k dev addr s)"
proof -
  have new: "k_instances s ! nat (k_instance_index s) \<noteq> Some (k_next s)"
    if "0 \<le> k_instance_index s"
  proof -
    have "nat (k_instance_index s) \<in> set (instance_slots s)"
      using that by (simp add: instance_slots_def)
    then show ?thesis
      using assms(1,7) by (auto simp: instances_ok_def inst_ok_def)
  qed
  then have "\<not> list_ex (\<lambda>i. k_instances s ! nat (k_instance_index s) = Some (k_next s))
      [0..<nat (k_instance_index s + 1)]"
    by (auto simp: list_ex_iff)
  then show ?thesis
    using assms(2-7)
    by (simp add: awds_create_instance_locked_def awds_create_interface_def awds_add_instance_locked_def
        awds_add_interface_def awds_add_interface_locked_def awds_find_interface_def
        awds_find_interface_locked_def inst_lock_def inst_unlock_def mod_sock_def mod_iface_def
        dev_hold_def kernel_simps iface_find.simps after_bind_def Let_def)
qed

lemma instances_ok_after_bind:
  assumes "instances_ok s" "k_sock s sk = Some k" "k_instance_index s < MAX_AWDS_INDEX"
    and "k_inst s (k_next s) = None" "k_iface s (k_next s + 1) = None"
    and "\<And>i. i \<in> set (instance_slots s) \<Longrightarrow> \<not> bound_to s sk i"
  shows "instances_ok (after_bind sk k dev addr s)"
proof -
  let ?s = "after_bind sk k dev addr s" and ?n = "nat (k_instance_index s + 1)"
  have idx: "-1 \<le> k_instance_index s" "length (k_instances s) = 4"
    using assms(1) by (auto simp: instances_ok_def awds_defines)
  have old: "inst_ok ?s a" if a: "inst_ok s a" "k_inst s a = Some i" "in_sock i \<noteq> Some sk" for a i
  proof -
    obtain sk' k' as where i: "\<not> in_lock i" "in_sock i = Some sk'" "k_sock s sk' = Some k'"
        "if_list (k_iface s) (sk_interf k') as"
      using a(1,2) by (auto simp: inst_ok_def)
    have "a \<noteq> k_next s" using a(2) assms(4) by auto
    moreover have "k_next s + 1 \<notin> set as"
      using if_list_dom [OF i(4)] assms(5) by force
    ultimately show ?thesis
      unfolding inst_ok_def using a(2,3) i
      by (intro exI [of _ i] exI [of _ sk'] exI [of _ k'] exI [of _ as])
        (auto simp: after_bind_def Let_def)
  qed
  have "inst_ok ?s (k_next s)"
    unfolding inst_ok_def
    by (rule exI, rule exI [of _ sk], rule exI, rule exI [of _ "[k_next s + 1]"])
      (auto simp: after_bind_def Let_def)
  then have "\<exists>a. k_instances ?s ! ?n = Some a \<and> inst_ok ?s a"
    using assms(3) idx by (auto simp: after_bind_def Let_def awds_defines)
  moreover have "\<exists>a. k_instances ?s ! j = Some a \<and> inst_ok ?s a" if "j < ?n" for j
  proof -
    have j: "j \<in> set (instance_slots s)" using that by (simp add: instance_slots_def)
    then obtain a where a: "k_instances s ! j = Some a" "inst_ok s a"
      using assms(1) by (auto simp: instances_ok_def)
    then obtain i where "k_inst s a = Some i" by (auto simp: inst_ok_def)
    with a old assms(6) [OF j] have "inst_ok ?s a" by (auto simp: bound_to_def)
    then show ?thesis using a(1) that by (auto simp: after_bind_def Let_def)
  qed
  moreover have "set (instance_slots ?s) = {..<?n} \<union> {?n}"
    using idx(1) by (auto simp: instance_slots_def after_bind_def Let_def)
  moreover have "length (k_instances ?s) = MAX_AWDS_COUNT" "-1 \<le> k_instance_index ?s"
    "k_instance_index ?s \<le> MAX_AWDS_INDEX"
    using assms(1,3) by (auto simp: instances_ok_def after_bind_def Let_def)
  ultimately show ?thesis
    unfolding instances_ok_def by auto
qed

lemma bound_to_after_bind:
  assumes "instances_ok s" "k_inst s (k_next s) = None" "i \<in> set (instance_slots s)"
  shows "bound_to (after_bind sk k dev addr s) sk' i = bound_to s sk' i"
proof -
  obtain a where "k_instances s ! i = Some a" "inst_ok s a"
    using assms(1,3) by (auto simp: instances_ok_def)
  moreover from this have "a \<noteq> k_next s" using assms(2) by (auto simp: inst_ok_def)
  moreover have "i \<noteq> nat (k_instance_index s + 1)" using assms(3) by (auto simp: instance_slots_def)
  ultimately show ?thesis by (auto simp: bound_to_def after_bind_def Let_def)
qed

section \<open>Properties\<close>

text \<open>
  Property C32: the first \<open>bind\<close> of a socket.  With a free slot and working allocations the
  call returns 0 and releases the mutex; the array of instances is well formed again, the
  socket is found in it, in the new slot, and exactly one reference to the device is held.
\<close>

theorem awds_socket_bind_new:
  assumes "instances_ok s" "\<not> k_mutex s" "k_sock s sk = Some k" "k_instance_index s < MAX_AWDS_INDEX"
    and "lx_dev_get_by_index lx (sa_ifindex addr) = Some dev" "\<And>p. \<not> lx_kmalloc_fails lx p"
    and "k_inst s (k_next s) = None" "k_iface s (k_next s + 1) = None"
    and "\<And>i. i \<in> set (instance_slots s) \<Longrightarrow> \<not> bound_to s sk i"
  shows "\<exists>s'. awds_socket_bind lx sk addr s = Inr (0, s') \<and> \<not> k_mutex s' \<and> instances_ok s' \<and>
    awds_find_instance_by_sock sk s' = Inr (Some (k_next s), s') \<and>
    k_instance_index s' = k_instance_index s + 1 \<and> k_dev_refs s' dev = k_dev_refs s dev + 1"
proof -
  let ?s = "s\<lparr>k_mutex := True\<rparr>" and ?s' = "after_bind sk k dev addr s"
  have ok: "instances_ok (s'\<lparr>k_mutex := b\<rparr>) = instances_ok s'"
    "bound_to (s'\<lparr>k_mutex := b\<rparr>) = bound_to s'" "instance_slots (s'\<lparr>k_mutex := b\<rparr>) = instance_slots s'"
    for s' b
    by (auto simp: instances_ok_def inst_ok_def instance_slots_def bound_to_def fun_eq_iff)
  have none: "find (bound_to s sk) (instance_slots s) = None"
    using assms(9) by (simp add: find_None_iff)
  have "awds_create_instance_locked lx sk addr ?s = Inr (0, ?s'\<lparr>k_mutex := True\<rparr>)"
    using create_instance_ok [of ?s sk k lx addr dev] assms(1,3-7)
    by (simp add: ok after_bind_def Let_def)
  then have "awds_socket_bind lx sk addr s = Inr (0, ?s'\<lparr>k_mutex := False\<rparr>)"
    using assms(1,2) find_instance_by_sock_ok [of ?s sk] none
    by (simp add: awds_socket_bind_def kernel_simps ok)
  moreover have ok': "instances_ok ?s'"
    using assms by (intro instances_ok_after_bind) auto
  moreover have "find (bound_to ?s' sk) (instance_slots ?s') = Some (nat (k_instance_index s + 1))"
  proof -
    have idx: "-1 \<le> k_instance_index s" "k_instance_index s < 3" "length (k_instances s) = 4"
      using assms(1,4) by (auto simp: instances_ok_def awds_defines)
    have "instance_slots ?s' = instance_slots s @ [nat (k_instance_index s + 1)]"
    proof -
      have "nat (k_instance_index s + 1 + 1) = Suc (nat (k_instance_index s + 1))"
        using idx(1) by linarith
      then show ?thesis by (simp add: instance_slots_def after_bind_def Let_def)
    qed
    moreover have "find (bound_to ?s' sk) (instance_slots s) = None"
      unfolding find_None_iff using bound_to_after_bind [OF assms(1,7)] assms(9) by auto
    moreover have "bound_to ?s' sk (nat (k_instance_index s + 1))"
      using idx by (simp add: bound_to_def after_bind_def Let_def)
    ultimately show ?thesis by (simp add: find_append_None)
  qed
  then have "awds_find_instance_by_sock sk (?s'\<lparr>k_mutex := False\<rparr>) =
      Inr (k_instances ?s' ! nat (k_instance_index s + 1), ?s'\<lparr>k_mutex := False\<rparr>)"
    using find_instance_by_sock_ok [of "?s'\<lparr>k_mutex := True\<rparr>" sk] ok'
    by (simp add: ok awds_find_instance_by_sock_def kernel_simps)
  moreover have "k_instances ?s' ! nat (k_instance_index s + 1) = Some (k_next s)"
    "k_instance_index ?s' = k_instance_index s + 1" "k_dev_refs ?s' dev = k_dev_refs s dev + 1"
    using assms(1,4) by (auto simp: after_bind_def Let_def instances_ok_def awds_defines)
  ultimately show ?thesis by (auto simp: ok)
qed

theorem awds_socket_bind_new_witness:
  "\<exists>s'. awds_socket_bind linux_up 9 \<lparr>sa_family = PF_AWDS, sa_ifindex = 2, sa_addr = replicate 6 1\<rparr>
      (kernel_loaded\<lparr>k_sock := [9 \<mapsto> example_sock None]\<rparr>) = Inr (0, s') \<and> \<not> k_mutex s' \<and>
    k_instance_index s' = 0 \<and> k_dev_refs s' 2 = 1"
  using awds_socket_bind_new [of "kernel_loaded\<lparr>k_sock := [9 \<mapsto> example_sock None]\<rparr>" 9
      "example_sock None" linux_up "\<lparr>sa_family = PF_AWDS, sa_ifindex = 2, sa_addr = replicate 6 1\<rparr>" 2]
  by (auto simp: kernel_loaded_defs instances_ok_def instance_slots_def awds_defines)

text \<open>
  Closing a bound socket reads freed memory.  The loop that releases the
  interfaces of an instance follows the \<open>next\<close> pointer of the interface it has just freed.
\<close>

theorem awds_socket_release_use_after_free:
  assumes "instances_ok s" "\<not> k_mutex s" "find (bound_to s sk) (instance_slots s) = Some j"
    and "k_instances s ! j = Some a" "k_inst s a = Some i" "in_sock i = Some sk" "\<not> in_lock i"
    and "k_sock s sk = Some k" "sk_interf k = Some b" "k_iface s b = Some e"
    and "if_prev e = None" "if_next e = None" "if_dev e = Some dev"
  shows "awds_socket_release sk s = Inl FreedPointer"
proof -
  have ok: "instances_ok (s\<lparr>k_mutex := True\<rparr>) = instances_ok s"
    "bound_to (s\<lparr>k_mutex := True\<rparr>) = bound_to s" "instance_slots (s\<lparr>k_mutex := True\<rparr>) = instance_slots s"
    by (auto simp: instances_ok_def inst_ok_def instance_slots_def bound_to_def fun_eq_iff)
  have find: "awds_find_instance_by_sock_locked sk (s\<lparr>k_mutex := True\<rparr>) = Inr (Some a, s\<lparr>k_mutex := True\<rparr>)"
    using find_instance_by_sock_ok [of "s\<lparr>k_mutex := True\<rparr>" sk] assms(1,3,4) by (simp add: ok)
  show ?thesis
    using find assms(2,5-13)
    by (simp add: awds_socket_release_def kernel_simps awds_release_instance_locked_def
        release_loop.simps awds_release_interface_def awds_del_interface_locked_def inst_lock_def
        mod_sock_def dev_put_def)
qed

text \<open>
  An instance can have two interfaces only, and the third \<open>bind\<close> leaves it
  locked.  \<open>__awds_add_interface\<close> returns the position of the interface, which is 1 for the
  third; the caller takes it for an error and releases the interface, and the release does
  not unlock the instance.  The call reports 1, and any later search of the instance for an
  interface blocks for ever.
\<close>

theorem awds_bind_third_interface_deadlock:
  assumes "k_inst s a = Some i" "in_sock i = Some sk" "\<not> in_lock i" "k_sock s sk = Some k"
    and "sk_interf k = Some b" "k_iface s b = Some e" "if_next e = Some c" "b \<noteq> c"
    and "k_iface s c = Some e'" "if_next e' = None"
    and "lx_dev_get_by_index lx (sa_ifindex addr) = Some dev" "if_dev e \<noteq> Some dev" "if_dev e' \<noteq> Some dev"
    and "\<And>p. \<not> lx_kmalloc_fails lx p" "k_next s \<noteq> b" "k_next s \<noteq> c"
  shows "\<exists>s'. awds_create_interface lx (Some a) addr s = Inr (1, s') \<and>
    k_dev_refs s' = k_dev_refs s \<and> awds_find_interface (Some a) d s' = Inl DeadLock"
proof -
  have find: "iface_find (k_iface s) dev (Some b) = Some (Inr None)"
    using iface_find_list [of "k_iface s" "Some b" "[b, c]" dev] assms by simp
  let ?h = "(k_iface s)(k_next s \<mapsto> \<lparr>if_next = None, if_prev = None, if_index = sa_ifindex addr,
    if_dev = Some dev, if_addr = addr\<rparr>)"
  have last: "iface_last ?h (k_next s) b 0 = Some (Inr (Some (c, 1)))"
    using assms by (subst iface_last.simps, subst iface_last.simps) simp
  show ?thesis
    using assms find last
    by (simp add: awds_create_interface_def kernel_simps dev_hold_def awds_find_interface_def
        awds_find_interface_locked_def inst_lock_def inst_unlock_def awds_add_interface_def
        awds_add_interface_locked_def mod_iface_def mod_sock_def awds_release_interface_def
        awds_del_interface_locked_def dev_put_def)
qed

text \<open>A module with one instance, for examples: its socket has the given interfaces.\<close>

definition example_iface :: "addr option \<Rightarrow> addr option \<Rightarrow> addr \<Rightarrow> awds_interface" where
  "example_iface nx pv dev = \<lparr>if_next = nx, if_prev = pv, if_index = 0, if_dev = Some dev,
     if_addr = \<lparr>sa_family = PF_AWDS, sa_ifindex = int dev, sa_addr = replicate 6 1\<rparr>\<rparr>"

definition example_bound :: "(addr \<rightharpoonup> awds_interface) \<Rightarrow> kernel" where
  "example_bound ifaces = kernel_loaded\<lparr>k_instance_index := 0, k_next := 100,
     k_instances := [Some 5, None, None, None],
     k_inst := [5 \<mapsto> \<lparr>in_index = 0, in_sock = Some 9, in_lock = False\<rparr>],
     k_sock := [9 \<mapsto> (example_sock None)\<lparr>sk_interf := Some 20\<rparr>], k_iface := ifaces\<rparr>"

lemma example_bound_ok:
  "if_list ifaces (Some 20) as \<Longrightarrow> instances_ok (example_bound ifaces)"
  "find (bound_to (example_bound ifaces) 9) (instance_slots (example_bound ifaces)) = Some 0"
  by (auto simp: example_bound_def instances_ok_def inst_ok_def instance_slots_def awds_defines
      example_sock_def bound_to_def)

theorem awds_socket_release_use_after_free_witness:
  "awds_socket_release 9 (example_bound [20 \<mapsto> example_iface None None 2]) = Inl FreedPointer"
proof -
  let ?s = "example_bound [20 \<mapsto> example_iface None None 2]"
  have "instances_ok ?s"
    by (rule example_bound_ok(1) [of _ "[20]"]) (simp add: example_iface_def)
  then show ?thesis
    using awds_socket_release_use_after_free [of ?s 9 0 5 _ "(example_sock None)\<lparr>sk_interf := Some 20\<rparr>"
        20 "example_iface None None 2" 2] example_bound_ok(2) [of "[20 \<mapsto> example_iface None None 2]"]
    by (simp add: example_bound_def kernel_loaded_defs example_iface_def)
qed

theorem awds_bind_third_interface_deadlock_witness:
  "\<exists>s'. awds_create_interface linux_up (Some 5)
      \<lparr>sa_family = PF_AWDS, sa_ifindex = 4, sa_addr = replicate 6 1\<rparr>
      (example_bound [20 \<mapsto> example_iface (Some 21) None 2, 21 \<mapsto> example_iface None (Some 20) 3]) =
      Inr (1, s') \<and> awds_find_interface (Some 5) 2 s' = Inl DeadLock"
  using awds_bind_third_interface_deadlock [of
      "example_bound [20 \<mapsto> example_iface (Some 21) None 2, 21 \<mapsto> example_iface None (Some 20) 3]" 5
      "\<lparr>in_index = 0, in_sock = Some 9, in_lock = False\<rparr>" 9 "(example_sock None)\<lparr>sk_interf := Some 20\<rparr>"
      20 "example_iface (Some 21) None 2" 21 "example_iface None (Some 20) 3" linux_up
      "\<lparr>sa_family = PF_AWDS, sa_ifindex = 4, sa_addr = replicate 6 1\<rparr>" 4 2]
  by (auto simp: example_bound_def kernel_loaded_defs example_iface_def)

end
