(* ===== verification/Kernel_Socket.thy ===== *)
theory Kernel_Socket
  imports Kernel_Instances
begin

text \<open>
  Receiving and sending in the kernel module (\<open>src/linux-module/awds_module.c\<close>): local
  delivery, the packet handler \<open>awds_packet_rcv\<close>, and the socket calls \<open>poll\<close>, \<open>sendmsg\<close> and
  \<open>recvmsg\<close> with the wait for a packet.
\<close>

unbundle bit_operations_syntax

section \<open>Local delivery\<close>

text \<open>
  \<open>netif_rx_ni\<close> takes the buffer over: it delivers it or, with a result that is not 0,
  drops it.  After a failure the header is put back and the buffer is used again.
\<close>

definition awds_do_local_retransmit_locked :: "linux \<Rightarrow> sk_buff \<Rightarrow> (int \<times> sk_buff) kcomp" where
  "awds_do_local_retransmit_locked lx skb =
     kbind (skb_bytes skb AWDS_HLEN ETH_ALEN) (\<lambda>hw.
     case lx_dev_getbyhwaddr lx hw of
       None \<Rightarrow> kreturn (- ENODEV, skb)
     | Some dev \<Rightarrow>
         kthen (dev_hold dev)
         (let old = skb; skb = skb_pull AWDS_HLEN skb;
              (skb, proto) = lx_eth_type_trans lx skb dev;
              skb = skb\<lparr>skb_protocol := proto, skb_dev := dev\<rparr>;
              err = lx_netif_rx_ni lx skb
          in kthen (kmod (\<lambda>s. if err = 0 then s\<lparr>k_delivered := k_delivered s @ [skb]\<rparr>
                             else s\<lparr>k_freed_skb := k_freed_skb s @ [skb]\<rparr>))
            (kthen (dev_put dev)
            (if err \<noteq> 0 then
               kthen (count_stat (\<lambda>t. t\<lparr>rx_local_unicast_failed := rx_local_unicast_failed t + 1\<rparr>))
                 (kreturn (err, (skb_push AWDS_HLEN skb)\<lparr>skb_dev := skb_dev old,
                    skb_protocol := skb_protocol old\<rparr>))
             else kthen (count_stat (\<lambda>t. t\<lparr>rx_local_unicast := rx_local_unicast t + 1\<rparr>))
                 (kreturn (err, skb))))))"

definition awds_do_local_retransmit :: "linux \<Rightarrow> sk_buff \<Rightarrow> (int \<times> sk_buff) kcomp" where
  "awds_do_local_retransmit lx skb =
     kthen mutex_lock (kbind (awds_do_local_retransmit_locked lx skb) (\<lambda>r.
       kthen mutex_unlock (kreturn r)))"

section \<open>The packet handler\<close>

definition kfree_skb :: "sk_buff \<Rightarrow> unit kcomp" where
  "kfree_skb skb = kmod (\<lambda>s. s\<lparr>k_freed_skb := k_freed_skb s @ [skb]\<rparr>)"

text \<open>Handing the buffer to the daemon.\<close>

definition queue_to_daemon :: "linux \<Rightarrow> addr \<Rightarrow> sk_buff \<Rightarrow> unit kcomp" where
  "queue_to_daemon lx sk skb =
     kbind (deref k_sock (Some sk)) (\<lambda>k.
       if lx_sock_queue_rcv_skb lx k skb \<noteq> 0 then kfree_skb skb
       else mod_sock sk (\<lambda>k. k\<lparr>sk_receive_queue := sk_receive_queue k @ [skb]\<rparr>))"

text \<open>
  A unicast packet: \<open>None\<close> if the buffer has been dealt with, and otherwise the buffer that
  goes to the daemon.
\<close>

definition rcv_unicast :: "linux \<Rightarrow> addr option \<Rightarrow> addr \<Rightarrow> addr \<Rightarrow> sk_buff \<Rightarrow> sk_buff option kcomp" where
  "rcv_unicast lx inst sk dev skb =
     kbind (awds_find_interface inst dev) (\<lambda>ifp.
     kbind (deref k_iface ifp) (\<lambda>e.
     kbind (skb_bytes skb AWDS_DEST_OFFSET ETH_ALEN) (\<lambda>dst.
     kbind (kget k_configuration) (\<lambda>cfg.
     let self = memcmp (sa_addr (if_addr e)) dst in
     kbind (if self = 0 \<and> cfg AND AWDS_LOCAL_CONFIG \<noteq> 0
            then kbind (awds_check_unicast_table lx sk skb) (\<lambda>r.
              if r \<noteq> 0 then kbind (awds_do_local_retransmit_locked lx skb) (\<lambda>(err, skb).
                kreturn (err = 0, skb))
              else kreturn (False, skb))
            else kreturn (False, skb)) (\<lambda>(done, skb).
     if done then kreturn None
     else kbind (awds_check_routing_locked skb) (\<lambda>entry.
       case entry of
         Some i \<Rightarrow>
           if self \<noteq> 0 \<and> cfg AND AWDS_FORWARD_CONFIG \<noteq> 0
           then kbind (kget k_routing) (\<lambda>tbl.
             kbind (awds_do_retransmit_locked lx skb (routing_nexthop (the tbl) i)) (\<lambda>(err, skb).
               if err = 0
               then kthen (count_stat (\<lambda>t. t\<lparr>rx_forwarded_unicast := rx_forwarded_unicast t + 1\<rparr>))
                      (kreturn None)
               else kreturn (Some skb)))
           else kreturn (Some skb)
       | None \<Rightarrow> kreturn (Some skb)))))))"

definition awds_packet_rcv :: "linux \<Rightarrow> sk_buff \<Rightarrow> addr \<Rightarrow> unit kcomp" where
  "awds_packet_rcv lx skb dev =
     (if skb_protocol skb \<noteq> ETH_P_AWDS then kreturn ()
      else kbind (awds_find_instance_by_dev_locked (skb_dev skb)) (\<lambda>inst.
        if inst = None then kfree_skb skb
        else kbind (kget k_statistics) (\<lambda>st.
          kthen (if st = 1 then awds_count_packet skb else kreturn ())
          (kbind (deref k_inst inst) (\<lambda>i.
           case in_sock i of None \<Rightarrow> kfail NullPointer
           | Some sk \<Rightarrow>
               if awds_get_packet_type skb = PACKET_UNICAST
               then kbind (rcv_unicast lx inst sk dev skb) (\<lambda>r.
                 case r of None \<Rightarrow> kreturn () | Some skb \<Rightarrow> queue_to_daemon lx sk skb)
               else queue_to_daemon lx sk skb)))))"

section \<open>Waiting for a packet\<close>

text \<open>
  What happens while the caller sleeps: how the socket changes, whether a signal is pending,
  and the time that is left.
\<close>

record wakeup =
  wk_signal :: bool
  wk_timeo :: int
  wk_sock :: "awds_sock \<Rightarrow> awds_sock"

definition sock_error :: "awds_sock \<Rightarrow> int \<times> awds_sock" where
  "sock_error k = (- sk_err k, k\<lparr>sk_err := 0\<rparr>)"

definition MAX_SCHEDULE_TIMEOUT :: int where "MAX_SCHEDULE_TIMEOUT = 2 ^ 63 - 1"
definition ERESTARTSYS :: int where "ERESTARTSYS = 512"
definition EINTR :: int where "EINTR = 4"

definition sock_intr_errno :: "int \<Rightarrow> int" where
  "sock_intr_errno timeo = (if timeo = MAX_SCHEDULE_TIMEOUT then - ERESTARTSYS else - EINTR)"

text \<open>The result, the error that is stored, the remaining time and the socket.\<close>

definition wait_for_packet :: "wakeup \<Rightarrow> int \<Rightarrow> awds_sock \<Rightarrow> int \<times> int option \<times> int \<times> awds_sock" where
  "wait_for_packet w timeo k =
     (let (error, k) = sock_error k in
      if error \<noteq> 0 then (error, Some error, timeo, k)
      else if sk_receive_queue k \<noteq> [] then (error, None, timeo, k)
      else if sk_rcv_shutdown k then (1, Some 0, timeo, k)
      else if wk_signal w then
        let error = sock_intr_errno timeo in (error, Some error, timeo, k)
      else (0, None, wk_timeo w, wk_sock w k))"

text \<open>\<open>None\<close>: the caller is still asleep when the list of wakeups is used up.\<close>

fun peek_loop :: "wakeup list \<Rightarrow> int \<Rightarrow> awds_sock \<Rightarrow> (sk_buff option \<times> int option \<times> awds_sock) option" where
  "peek_loop ws timeo k =
     (case sk_receive_queue k of
        skb # q \<Rightarrow> Some (Some skb, None, k\<lparr>sk_receive_queue := q\<rparr>)
      | [] \<Rightarrow>
          if timeo = 0 then Some (None, Some (- EAGAIN), k)
          else (case ws of [] \<Rightarrow> None
            | w # ws' \<Rightarrow>
                let (ret, err, timeo', k') = wait_for_packet w timeo k in
                if ret \<noteq> 0 then Some (None, err, k') else peek_loop ws' timeo' k'))"

definition awds_socket_peek_skb ::
  "wakeup list \<Rightarrow> bool \<Rightarrow> int \<Rightarrow> awds_sock \<Rightarrow> (sk_buff option \<times> int option \<times> awds_sock) option" where
  "awds_socket_peek_skb ws dontwait rcvtimeo k =
     (let (error, k) = sock_error k in
      if error \<noteq> 0 then Some (None, Some error, k)
      else peek_loop ws (if dontwait then 0 else rcvtimeo) k)"

section \<open>poll, sendmsg and recvmsg\<close>

definition POLLIN :: u32 where "POLLIN = 0x0001"
definition POLLOUT :: u32 where "POLLOUT = 0x0004"
definition POLLERR :: u32 where "POLLERR = 0x0008"
definition POLLRDNORM :: u32 where "POLLRDNORM = 0x0040"
definition POLLWRNORM :: u32 where "POLLWRNORM = 0x0100"
definition POLLWRBAND :: u32 where "POLLWRBAND = 0x0200"

definition awds_socket_poll :: "awds_sock \<Rightarrow> u32" where
  "awds_socket_poll k =
     (let mask = 0;
          mask = (if sk_err k \<noteq> 0 \<or> \<not> sk_error_queue_empty k then mask OR POLLERR else mask);
          mask = (if sk_receive_queue k \<noteq> [] \<or> sk_rcv_shutdown k
                  then mask OR (POLLIN OR POLLRDNORM) else mask);
          mask = (if sk_writeable k then mask OR (POLLOUT OR POLLWRNORM OR POLLWRBAND) else mask)
      in mask)"

text \<open>
  \<open>alloc_err\<close>, \<open>hard_header\<close> and \<open>copy_err\<close> stand for what \<open>sock_alloc_send_skb\<close>,
  \<open>dev_hard_header\<close> and \<open>memcpy_fromiovec\<close> report.
\<close>

definition awds_socket_sendmsg ::
  "linux \<Rightarrow> int option \<Rightarrow> (addr \<Rightarrow> byte list \<Rightarrow> int \<times> byte list) \<Rightarrow> int \<Rightarrow> sockaddr_awds option \<Rightarrow>
   byte list \<Rightarrow> int kcomp" where
  "awds_socket_sendmsg lx alloc_err hard_header copy_err msg_name payload =
     (case msg_name of None \<Rightarrow> kreturn (- EINVAL)
      | Some addr \<Rightarrow>
          if sa_family addr \<noteq> PF_AWDS then kreturn (- EINVAL)
          else (case lx_dev_get_by_index lx (sa_ifindex addr) of
              None \<Rightarrow> kreturn (- ENXIO)
            | Some dev \<Rightarrow>
                kthen (dev_hold dev)
                (case alloc_err of Some err \<Rightarrow> kthen (dev_put dev) (kreturn err)
                 | None \<Rightarrow>
                     let (err, hdr) = hard_header dev (sa_addr addr);
                         skb = \<lparr>skb_head = [], skb_data = hdr @ payload, skb_dev = dev,
                                skb_protocol = ETH_P_AWDS\<rparr>
                     in if err < 0 then kthen (kfree_skb skb) (kthen (dev_put dev) (kreturn err))
                        else if copy_err < 0
                        then kthen (kfree_skb skb) (kthen (dev_put dev) (kreturn copy_err))
                        else kbind (awds_send lx skb) (\<lambda>err.
                          kthen (dev_put dev)
                          (if err \<noteq> 0 then kreturn err
                           else kthen (count_stat (\<lambda>t. t\<lparr>tx_total := tx_total t + 1\<rparr>))
                             (kreturn (int (length payload))))))))"

text \<open>
  The result is the number of bytes, the address of the interface, whether \<open>MSG_TRUNC\<close> is
  set in the message flags, and the bytes; \<open>None\<close> is a call that is still waiting.
\<close>

definition awds_socket_recvmsg ::
  "wakeup list \<Rightarrow> bool \<Rightarrow> bool \<Rightarrow> int \<Rightarrow> int \<Rightarrow> addr \<Rightarrow> nat \<Rightarrow>
   (int \<times> sockaddr_awds option \<times> bool \<times> byte list) option kcomp" where
  "awds_socket_recvmsg ws dontwait trunc rcvtimeo copy_err sk total_len =
     kbind (awds_find_instance_by_sock sk) (\<lambda>inst.
     kbind (deref k_sock (Some sk)) (\<lambda>k.
     if sk_ifcount k = 0 then kreturn (Some (- EINVAL, None, False, []))
     else case awds_socket_peek_skb ws dontwait rcvtimeo k of
       None \<Rightarrow> kreturn None
     | Some (skb, err, k') \<Rightarrow>
         kthen (mod_sock sk (\<lambda>_. k'))
         (case skb of
            None \<Rightarrow> kreturn (Some (case err of None \<Rightarrow> 0 | Some e \<Rightarrow> e, None, False, []))
          | Some skb \<Rightarrow>
              if inst = None then kreturn (Some (0, None, False, []))
              else kbind (awds_find_interface inst (skb_dev skb)) (\<lambda>ifp.
                kbind (case ifp of None \<Rightarrow> kreturn None
                       | Some a \<Rightarrow> kbind (deref k_iface (Some a)) (\<lambda>e. kreturn (Some (if_addr e)))) (\<lambda>name.
                let len = skb_len skb; copied = min total_len len; truncated = total_len < len in
                kthen (kfree_skb skb)
                (if copy_err \<noteq> 0 then kreturn (Some (copy_err, name, truncated, []))
                 else kreturn (Some (if trunc then int len else int copied, name, truncated,
                   take copied (skb_data skb)))))))))"

declare peek_loop.simps [simp del]

section \<open>The instance and the interface of a device\<close>

lemma find_interface_list:
  assumes "k_inst s a = Some i" "\<not> in_lock i" "in_sock i = Some sk" "k_sock s sk = Some k"
    and "if_list (k_iface s) (sk_interf k) as"
  shows "awds_find_interface (Some a) dev s =
    Inr (find (\<lambda>b. if_dev (the (k_iface s b)) = Some dev) as, s)"
proof -
  have "i\<lparr>in_lock := False\<rparr> = i" using assms(2) by simp
  then show ?thesis
    using assms iface_find_list [OF assms(5)]
    by (simp add: awds_find_interface_def awds_find_interface_locked_def inst_lock_def inst_unlock_def
        kernel_simps fun_upd_idem)
qed

definition inst_iface :: "kernel \<Rightarrow> addr \<Rightarrow> addr \<Rightarrow> addr option" where
  "inst_iface s a dev = (case awds_find_interface (Some a) dev s of Inl _ \<Rightarrow> None | Inr (r, _) \<Rightarrow> r)"

lemma find_interface_eq:
  "inst_ok s a \<Longrightarrow> awds_find_interface (Some a) dev s = Inr (inst_iface s a dev, s)"
  using find_interface_ok [of s a dev] by (auto simp: inst_iface_def)

lemma inst_iface_stats:
  assumes "inst_ok s a"
  shows "inst_ok (s\<lparr>k_stats := t\<rparr>) a" "inst_iface (s\<lparr>k_stats := t\<rparr>) a dev = inst_iface s a dev"
proof -
  show ok: "inst_ok (s\<lparr>k_stats := t\<rparr>) a" using assms by (auto simp: inst_ok_def)
  obtain i sk k as where i: "k_inst s a = Some i" "\<not> in_lock i" "in_sock i = Some sk"
      "k_sock s sk = Some k" "if_list (k_iface s) (sk_interf k) as"
    using assms by (auto simp: inst_ok_def)
  show "inst_iface (s\<lparr>k_stats := t\<rparr>) a dev = inst_iface s a dev"
    using i find_interface_list [OF i, of dev]
      find_interface_list [of "s\<lparr>k_stats := t\<rparr>" a i sk k as dev]
    by (simp add: inst_iface_def)
qed

definition owns :: "kernel \<Rightarrow> addr \<Rightarrow> nat \<Rightarrow> bool" where
  "owns s dev i \<longleftrightarrow> inst_iface s (the (k_instances s ! i)) dev \<noteq> None"

lemma find_dev_loop_ok:
  assumes "\<forall>i \<in> set is. i < length (k_instances s) \<and> (\<exists>a. k_instances s ! i = Some a \<and> inst_ok s a)"
  shows "find_dev_loop dev is s =
    Inr (case find (owns s dev) is of None \<Rightarrow> None | Some i \<Rightarrow> k_instances s ! i, s)"
  using assms
  by (induction "is") (auto simp: kernel_simps instances_get_def owns_def find_interface_eq)

lemma find_instance_by_dev_ok:
  assumes "instances_ok s" "k_mutex s"
  shows "awds_find_instance_by_dev_locked dev s =
    Inr (case find (owns s dev) (instance_slots s) of None \<Rightarrow> None | Some i \<Rightarrow> k_instances s ! i, s)"
  using assms find_dev_loop_ok [of "instance_slots s" s dev] instance_slots_less [OF assms(1)]
  by (auto simp: awds_find_instance_by_dev_locked_def kernel_simps instances_ok_def)

text \<open>Counting changes the statistics only.\<close>

lemma count_unicast:
  assumes "9 \<le> skb_len skb" "skb_data skb ! 0 = 2"
  shows "\<exists>t. awds_count_packet skb s = Inr ((), s\<lparr>k_stats := t\<rparr>)"
  using assms by (auto simp: awds_count_packet_def kernel_simps skb_byte_def awds_defines Let_def)

section \<open>Properties\<close>

text \<open>
  The packet handler drops every AWDS packet while nobody holds the mutex of
  the instances.  It searches the instance with a function that returns nothing unless the
  mutex is held, but the line that takes the mutex is commented out.
\<close>

theorem awds_packet_rcv_without_mutex:
  assumes "skb_protocol skb = ETH_P_AWDS" "\<not> k_mutex s"
  shows "awds_packet_rcv lx skb dev s = Inr ((), s\<lparr>k_freed_skb := k_freed_skb s @ [skb]\<rparr>)"
  using assms by (simp add: awds_packet_rcv_def awds_find_instance_by_dev_locked_def kernel_simps
      kfree_skb_def)

theorem awds_packet_rcv_without_mutex_witness:
  "awds_packet_rcv linux_up \<lparr>skb_head = [], skb_data = [0], skb_dev = 2, skb_protocol = ETH_P_AWDS\<rparr> 2
     (example_bound [20 \<mapsto> example_iface None None 2]) =
   Inr ((), (example_bound [20 \<mapsto> example_iface None None 2])\<lparr>k_freed_skb :=
     k_freed_skb (example_bound [20 \<mapsto> example_iface None None 2]) @
     [\<lparr>skb_head = [], skb_data = [0], skb_dev = 2, skb_protocol = ETH_P_AWDS\<rparr>]\<rparr>)"
  by (rule awds_packet_rcv_without_mutex) (simp_all add: example_bound_def kernel_loaded_defs)

text \<open>
  A unicast frame for another station that the module can forward: the device belongs to an
  instance, the routing table is the image of \<open>es\<close> and has an entry for the destination, and
  the time to live does not run out.
\<close>

definition forwardable ::
  "kernel \<Rightarrow> sk_buff \<Rightarrow> addr \<Rightarrow> (byte list \<times> byte list) list \<Rightarrow> byte list \<Rightarrow> bool" where
  "forwardable s skb dev es nxt \<longleftrightarrow>
     instances_ok s \<and> k_mutex s \<and> skb_protocol skb = ETH_P_AWDS \<and> skb_dev skb = dev \<and>
     AWDS_HLEN \<le> skb_len skb \<and> skb_data skb ! 0 = 2 \<and> skb_data skb ! AWDS_TTL_OFFSET \<noteq> 1 \<and>
     ETH_HLEN \<le> length (skb_head skb) \<and>
     k_routing s = Some (routing_image es) \<and> k_routing_count s = of_nat (length es) \<and>
     length es < 2 ^ 31 \<and> entries_ok es \<and> sorted_wrt (\<lambda>a b. memcmp (fst a) (fst b) < 0) es \<and>
     map_of es (mem_read (skb_data skb) AWDS_DEST_OFFSET ETH_ALEN) = Some nxt \<and>
     k_configuration s AND AWDS_FORWARD_CONFIG \<noteq> 0"

text \<open>The frame that leaves: its bytes from the link-level header on.\<close>

definition forwarded_bytes :: "sk_buff \<Rightarrow> byte list \<Rightarrow> byte list" where
  "forwarded_bytes skb nxt =
     (let eth = drop (length (skb_head skb) - ETH_HLEN) (skb_head skb) in
      nxt @ take 6 eth @ drop 12 eth @
      mem_write ((skb_data skb)[AWDS_TTL_OFFSET := skb_data skb ! AWDS_TTL_OFFSET - 1])
        AWDS_NEXTHOP_OFFSET nxt)"

lemma retransmit_forwarded:
  assumes "AWDS_HLEN \<le> skb_len skb" "ETH_HLEN \<le> length (skb_head skb)" "length nxt = 6"
    and "skb_data skb ! AWDS_TTL_OFFSET \<noteq> 1"
  shows "\<exists>out. skb_dev out = skb_dev skb \<and> skb_data out = forwarded_bytes skb nxt \<and>
    (\<forall>s. awds_do_retransmit_locked lx skb nxt s = kbind (awds_send lx out) (\<lambda>err. kreturn (err, out)) s)"
proof -
  let ?n = "length (skb_head skb) - ETH_HLEN"
  let ?eth = "drop ?n (skb_head skb)"
  have "skb_head skb = take ?n (skb_head skb) @ take 6 ?eth @ take 6 (drop 6 ?eth) @ drop 12 ?eth"
    using append_take_drop_id [of 6 "drop 6 ?eth"] append_take_drop_id [of 6 ?eth]
      append_take_drop_id [of ?n "skb_head skb"] by (simp add: add.commute)
  moreover have "length (take 6 ?eth) = 6" "length (take 6 (drop 6 ?eth)) = 6" "length (drop 12 ?eth) = 2"
    using assms(2) by (simp_all add: ETH_HLEN_def)
  ultimately show ?thesis
    using retransmit_frame [OF assms(1) _ _ _ _ assms(3) refl assms(4)]
    unfolding forwarded_bytes_def Let_def by blast
qed

lemma rcv_unicast_forward:
  assumes "forwardable s skb dev es nxt" "inst_ok s a" "inst_iface s a dev = Some b"
    and "k_iface s b = Some e" "length (sa_addr (if_addr e)) = 6"
    and "sa_addr (if_addr e) \<noteq> mem_read (skb_data skb) AWDS_DEST_OFFSET ETH_ALEN"
  shows "rcv_unicast lx (Some a) sk dev skb s =
    kbind (awds_do_retransmit_locked lx skb nxt) (\<lambda>(err, skb).
      if err = 0 then kthen (count_stat (\<lambda>t. t\<lparr>rx_forwarded_unicast := rx_forwarded_unicast t + 1\<rparr>))
        (kreturn None)
      else kreturn (Some skb)) s"
proof -
  let ?dst = "mem_read (skb_data skb) AWDS_DEST_OFFSET ETH_ALEN"
  note fwd = assms(1) [unfolded forwardable_def]
  have long: "AWDS_DEST_OFFSET + ETH_ALEN \<le> skb_len skb"
    using fwd by (simp add: awds_defines)
  then have "length ?dst = 6" by (simp add: skb_len_def awds_defines)
  then have self: "memcmp (sa_addr (if_addr e)) ?dst \<noteq> 0"
    using assms(5,6) memcmp_eq_0 [of "sa_addr (if_addr e)" ?dst] by simp
  obtain r where r: "awds_check_routing_locked skb s = Inr (r, s)" "next_hop_result s r = Some nxt"
    using check_routing_image [of s es skb] fwd long by auto
  then obtain n where n: "r = Some n" "routing_nexthop (the (k_routing s)) n = nxt"
    by (auto simp: next_hop_result_def)
  then show ?thesis
    using self r(1) fwd long assms(3,4) find_interface_eq [OF assms(2), of dev]
    by (simp add: rcv_unicast_def kbind_def kget_def kreturn_def deref_def skb_bytes_def Let_def)
qed

lemma packet_rcv_forward:
  assumes "forwardable s skb dev es nxt" "find (owns s dev) (instance_slots s) = Some j"
    and "k_instances s ! j = Some a" "k_inst s a = Some i" "in_sock i = Some sk"
    and "inst_iface s a dev = Some b" "k_iface s b = Some e" "length (sa_addr (if_addr e)) = 6"
    and "sa_addr (if_addr e) \<noteq> mem_read (skb_data skb) AWDS_DEST_OFFSET ETH_ALEN"
  shows "\<exists>t. awds_packet_rcv lx skb dev s =
    kbind (awds_do_retransmit_locked lx skb nxt) (\<lambda>(err, skb).
      if err = 0 then count_stat (\<lambda>t. t\<lparr>rx_forwarded_unicast := rx_forwarded_unicast t + 1\<rparr>)
      else queue_to_daemon lx sk skb) (s\<lparr>k_stats := t\<rparr>)"
proof -
  note fwd = assms(1) [unfolded forwardable_def]
  have ok: "inst_ok s a"
    using assms(2,3) fwd find_Some_mem [OF assms(2)] by (auto simp: instances_ok_def)
  obtain t where t: "(if k_statistics s = 1 then awds_count_packet skb else kreturn ()) s =
      Inr ((), s\<lparr>k_stats := t\<rparr>)"
    using count_unicast [of skb s] fwd
    by (cases "k_statistics s = 1") (auto simp: kreturn_def awds_defines intro: that [of "k_stats s"])
  have "forwardable (s\<lparr>k_stats := t\<rparr>) skb dev es nxt"
    using fwd by (auto simp: forwardable_def instances_ok_def inst_ok_def instance_slots_def)
  then have "rcv_unicast lx (Some a) sk dev skb (s\<lparr>k_stats := t\<rparr>) =
    kbind (awds_do_retransmit_locked lx skb nxt) (\<lambda>(err, skb).
      if err = 0 then kthen (count_stat (\<lambda>t. t\<lparr>rx_forwarded_unicast := rx_forwarded_unicast t + 1\<rparr>))
        (kreturn None)
      else kreturn (Some skb)) (s\<lparr>k_stats := t\<rparr>)"
    using assms(6-9) inst_iface_stats [OF ok] by (intro rcv_unicast_forward) auto
  moreover have "awds_get_packet_type skb = PACKET_UNICAST"
    using fwd by (simp add: awds_get_packet_type_def awds_defines)
  moreover have "awds_find_instance_by_dev_locked dev s = Inr (Some a, s)"
    using find_instance_by_dev_ok [of s dev] fwd assms(2,3) by simp
  ultimately have "awds_packet_rcv lx skb dev s = kbind (\<lambda>s. rcv_unicast lx (Some a) sk dev skb s)
      (\<lambda>r. case r of None \<Rightarrow> kreturn () | Some skb \<Rightarrow> queue_to_daemon lx sk skb) (s\<lparr>k_stats := t\<rparr>)"
    using t assms(4,5) fwd
    by (simp add: awds_packet_rcv_def kbind_def kthen_def kget_def deref_def)
  then show ?thesis
    using \<open>rcv_unicast lx (Some a) sk dev skb (s\<lparr>k_stats := t\<rparr>) = _\<close>
    by (intro exI [of _ t])
      (auto simp: kbind_def kthen_def kreturn_def count_stat_def kmod_def split: sum.splits prod.splits)
qed

lemma forwardable_nxt: "forwardable s skb dev es nxt \<Longrightarrow> length nxt = 6"
  by (auto simp: forwardable_def entries_ok_def dest!: map_of_SomeD)

text \<open>
  Property C30: with the mutex held, a unicast packet for another station is forwarded in the
  kernel.  If the sorted routing table has a next hop for its destination and the device
  accepts the frame, exactly one frame is sent, addressed to that next hop with the time to
  live decremented, and neither is the packet queued for the daemon nor is any buffer freed.
\<close>

theorem awds_packet_rcv_forwards:
  assumes "forwardable s skb dev es nxt" "find (owns s dev) (instance_slots s) = Some j"
    and "k_instances s ! j = Some a" "k_inst s a = Some i" "in_sock i = Some sk"
    and "inst_iface s a dev = Some b" "k_iface s b = Some e" "length (sa_addr (if_addr e)) = 6"
    and "sa_addr (if_addr e) \<noteq> mem_read (skb_data skb) AWDS_DEST_OFFSET ETH_ALEN"
    and "lx_dev_up lx dev" "\<And>f. lx_dev_queue_xmit lx f = 0"
  shows "\<exists>s' out. awds_packet_rcv lx skb dev s = Inr ((), s') \<and> k_sent s' = k_sent s @ [out] \<and>
    skb_data out = forwarded_bytes skb nxt \<and> k_sock s' = k_sock s \<and> k_freed_skb s' = k_freed_skb s"
proof -
  obtain out where out: "skb_dev out = skb_dev skb" "skb_data out = forwarded_bytes skb nxt"
      "\<And>s. awds_do_retransmit_locked lx skb nxt s = kbind (awds_send lx out) (\<lambda>err. kreturn (err, out)) s"
    using retransmit_forwarded [OF _ _ forwardable_nxt [OF assms(1)]] assms(1)
    unfolding forwardable_def by metis
  have up: "lx_dev_up lx (skb_dev out)"
    using assms(1,10) out(1) by (simp add: forwardable_def)
  from packet_rcv_forward [OF assms(1-9), of lx] obtain t where
    "awds_packet_rcv lx skb dev s = kbind (awds_do_retransmit_locked lx skb nxt) (\<lambda>(err, skb).
      if err = 0 then count_stat (\<lambda>t. t\<lparr>rx_forwarded_unicast := rx_forwarded_unicast t + 1\<rparr>)
      else queue_to_daemon lx sk skb) (s\<lparr>k_stats := t\<rparr>)"
    by blast
  then show ?thesis
    using up out(2,3) assms(11) by (simp add: kbind_def awds_send_def kernel_simps count_stat_def)
qed

text \<open>
  A buffer that could not be sent is used again after it was freed.  If the
  device is down, \<open>awds_send\<close> frees the buffer and reports an error, and the packet handler
  then queues the same buffer for the daemon.
\<close>

theorem awds_packet_rcv_freed_buffer_queued:
  assumes "forwardable s skb dev es nxt" "find (owns s dev) (instance_slots s) = Some j"
    and "k_instances s ! j = Some a" "k_inst s a = Some i" "in_sock i = Some sk"
    and "inst_iface s a dev = Some b" "k_iface s b = Some e" "length (sa_addr (if_addr e)) = 6"
    and "sa_addr (if_addr e) \<noteq> mem_read (skb_data skb) AWDS_DEST_OFFSET ETH_ALEN"
    and "\<not> lx_dev_up lx dev" "k_sock s sk = Some k" "\<And>k f. lx_sock_queue_rcv_skb lx k f = 0"
  shows "\<exists>s' out k'. awds_packet_rcv lx skb dev s = Inr ((), s') \<and>
    k_freed_skb s' = k_freed_skb s @ [out] \<and> k_sock s' sk = Some k' \<and>
    sk_receive_queue k' = sk_receive_queue k @ [out]"
proof -
  obtain out where out: "skb_dev out = skb_dev skb"
      "\<And>s. awds_do_retransmit_locked lx skb nxt s = kbind (awds_send lx out) (\<lambda>err. kreturn (err, out)) s"
    using retransmit_forwarded [OF _ _ forwardable_nxt [OF assms(1)]] assms(1)
    unfolding forwardable_def by metis
  have down: "\<not> lx_dev_up lx (skb_dev out)"
    using assms(1,10) out(1) by (simp add: forwardable_def)
  from packet_rcv_forward [OF assms(1-9), of lx] obtain t where
    "awds_packet_rcv lx skb dev s = kbind (awds_do_retransmit_locked lx skb nxt) (\<lambda>(err, skb).
      if err = 0 then count_stat (\<lambda>t. t\<lparr>rx_forwarded_unicast := rx_forwarded_unicast t + 1\<rparr>)
      else queue_to_daemon lx sk skb) (s\<lparr>k_stats := t\<rparr>)"
    by blast
  then show ?thesis
    using down out(2) assms(11,12)
    by (simp add: kbind_def awds_send_def kernel_simps queue_to_daemon_def mod_sock_def ENETDOWN_def)
qed

text \<open>An instance on device 2, a route, and a frame for the destination of the route.\<close>

definition example_router :: kernel where
  "example_router = (example_bound [20 \<mapsto> example_iface None None 2])\<lparr>k_mutex := True,
     k_routing := Some (routing_image [(replicate 6 7, replicate 6 8)]), k_routing_count := 1\<rparr>"

definition example_frame :: sk_buff where
  "example_frame = \<lparr>skb_head = replicate 14 0, skb_data = 2 # replicate 8 0 @ replicate 6 7 @ replicate 20 9,
     skb_dev = 2, skb_protocol = ETH_P_AWDS\<rparr>"

lemma example_router_ok:
  "instances_ok example_router" "instance_slots example_router = [0]"
  "inst_iface example_router 5 2 = Some 20" "owns example_router 2 0"
proof -
  show ok: "instances_ok example_router"
    using example_bound_ok(1) [of "[20 \<mapsto> example_iface None None 2]" "[20]"]
    by (auto simp: example_router_def instances_ok_def inst_ok_def instance_slots_def example_iface_def)
  show "instance_slots example_router = [0]"
    by (simp add: instance_slots_def example_router_def example_bound_def)
  show "inst_iface example_router 5 2 = Some 20"
    using find_interface_list [of example_router 5 "\<lparr>in_index = 0, in_sock = Some 9, in_lock = False\<rparr>" 9
        "(example_sock None)\<lparr>sk_interf := Some 20\<rparr>" "[20]" 2]
    by (simp add: inst_iface_def example_router_def example_bound_def example_iface_def)
  then show "owns example_router 2 0"
    by (simp add: owns_def) (simp add: example_router_def example_bound_def)
qed

lemma example_frame_fields:
  "mem_read (skb_data example_frame) AWDS_DEST_OFFSET ETH_ALEN = replicate 6 7"
  "skb_data example_frame ! AWDS_TTL_OFFSET = 9" "skb_data example_frame ! 0 = 2"
  "skb_len example_frame = 35"
  by (simp_all add: example_frame_def mem_read_def awds_defines skb_len_def drop_Cons' nth_Cons' nth_append)

lemma example_forwardable:
  "forwardable example_router example_frame 2 [(replicate 6 7, replicate 6 8)] (replicate 6 8)"
  unfolding forwardable_def example_frame_fields
  by (intro conjI example_router_ok(1))
    (simp_all add: example_router_def example_bound_def kernel_loaded_defs entries_ok_def
      awds_defines, simp_all add: example_frame_def awds_defines)

lemma example_router_fields:
  "k_instances example_router ! 0 = Some 5" "k_iface example_router 20 = Some (example_iface None None 2)"
  "k_inst example_router 5 = Some \<lparr>in_index = 0, in_sock = Some 9, in_lock = False\<rparr>"
  "k_sock example_router 9 = Some ((example_sock None)\<lparr>sk_interf := Some 20\<rparr>)"
  by (simp_all add: example_router_def example_bound_def)

theorem awds_packet_rcv_forwards_witness:
  "\<exists>s' out. awds_packet_rcv linux_up example_frame 2 example_router = Inr ((), s') \<and>
    k_sent s' = k_sent example_router @ [out] \<and>
    skb_data out = forwarded_bytes example_frame (replicate 6 8)"
proof -
  have "\<exists>s' out. awds_packet_rcv linux_up example_frame 2 example_router = Inr ((), s') \<and>
      k_sent s' = k_sent example_router @ [out] \<and>
      skb_data out = forwarded_bytes example_frame (replicate 6 8) \<and>
      k_sock s' = k_sock example_router \<and> k_freed_skb s' = k_freed_skb example_router"
    by (rule awds_packet_rcv_forwards [OF example_forwardable _ example_router_fields(1,3) _
          example_router_ok(3) example_router_fields(2)])
      (simp_all add: example_router_ok example_frame_fields linux_up_def example_iface_def)
  then show ?thesis by blast
qed

theorem awds_packet_rcv_freed_buffer_queued_witness:
  "\<exists>s' out k'. awds_packet_rcv (linux_up\<lparr>lx_dev_up := \<lambda>_. False\<rparr>) example_frame 2 example_router =
      Inr ((), s') \<and>
    k_freed_skb s' = k_freed_skb example_router @ [out] \<and> k_sock s' 9 = Some k' \<and>
    sk_receive_queue k' = sk_receive_queue ((example_sock None)\<lparr>sk_interf := Some 20\<rparr>) @ [out]"
  by (rule awds_packet_rcv_freed_buffer_queued [OF example_forwardable _ example_router_fields(1,3) _
        example_router_ok(3) example_router_fields(2)])
    (simp_all add: example_router_ok example_router_fields example_frame_fields linux_up_def
      example_iface_def)

lemma poll_POLLIN:
  "awds_socket_poll k AND POLLIN \<noteq> 0 \<longleftrightarrow> sk_receive_queue k \<noteq> [] \<or> sk_rcv_shutdown k"
  by (simp add: awds_socket_poll_def Let_def POLLIN_def POLLOUT_def POLLERR_def POLLRDNORM_def
      POLLWRNORM_def POLLWRBAND_def)

text \<open>
  \<open>poll\<close> agrees with receiving.  When it reports a socket as readable, the wait
  for a packet never sleeps, whatever would happen meanwhile: it returns the oldest queued
  packet and removes it, or reports the pending error, or the end of the stream after a
  shutdown.
\<close>

theorem poll_readable_no_sleep:
  assumes "awds_socket_poll k AND POLLIN \<noteq> 0" "timeo \<noteq> 0"
  shows "awds_socket_peek_skb [w] False timeo k =
    Some (if sk_err k \<noteq> 0 then (None, Some (- sk_err k), k\<lparr>sk_err := 0\<rparr>)
      else (case sk_receive_queue k of
              skb # q \<Rightarrow> (Some skb, None, k\<lparr>sk_receive_queue := q\<rparr>)
            | [] \<Rightarrow> (None, Some 0, k)))"
proof -
  have k: "k\<lparr>sk_err := 0\<rparr> = k" if "sk_err k = 0" using that by simp
  show ?thesis
    using assms k unfolding poll_POLLIN
    by (auto simp: awds_socket_peek_skb_def sock_error_def peek_loop.simps wait_for_packet_def
        split: list.splits)
qed

theorem poll_readable_no_sleep_witness:
  "awds_socket_peek_skb [\<lparr>wk_signal = False, wk_timeo = 0, wk_sock = (\<lambda>k. k)\<rparr>] False 5
      ((example_sock None)\<lparr>sk_receive_queue := [example_frame]\<rparr>) =
    Some (Some example_frame, None, (example_sock None)\<lparr>sk_receive_queue := []\<rparr>)"
proof -
  have "awds_socket_poll ((example_sock None)\<lparr>sk_receive_queue := [example_frame]\<rparr>) AND POLLIN \<noteq> 0"
    unfolding poll_POLLIN by simp
  from poll_readable_no_sleep [OF this, of 5 "\<lparr>wk_signal = False, wk_timeo = 0, wk_sock = (\<lambda>k. k)\<rparr>"]
  show ?thesis by (simp add: example_sock_def)
qed

end
