(* ===== verification/Packet.thy ===== *)
theory Packet
  imports Node_Id
begin

text \<open>
  Packets and the access classes for their headers: \<open>BasePacket.h\<close>, \<open>SrcPacket.h\<close>,
  \<open>Flood.h\<close>, \<open>UnicastPacket.h\<close>, \<open>FlowPacket.h\<close> and \<open>TraceUcPacket.h\<close> under
  \<open>src/src/awds\<close>.  A packet is a record with its 4096-byte buffer; an access class is a
  group of functions on that record, one per member function.  The locale \<open>header_field\<close>
  states what a field promises (reading after writing, and the bytes it leaves alone), and is
  interpreted on every field of every header.
\<close>

unbundle bit_operations_syntax

section \<open>BasePacket.h\<close>

datatype PacketType = PacketTypeBeacon | PacketTypeFlood | PacketTypeUnicast | PacketTypeForward

fun PacketType_val :: "PacketType \<Rightarrow> byte" where
  "PacketType_val PacketTypeBeacon = 0"
| "PacketType_val PacketTypeFlood = 1"
| "PacketType_val PacketTypeUnicast = 2"
| "PacketType_val PacketTypeForward = 3"

definition MaxSize :: nat where
  "MaxSize = 0x1000"

text \<open>A send callback is named by a number; \<open>None\<close> is the null pointer.\<close>

record BasePacket =
  buffer :: "byte list"
  psize :: nat
  refcount :: int
  send_cb :: "nat option"
  pkt_dest :: NodeId

definition new_BasePacket :: BasePacket where
  "new_BasePacket = \<lparr>buffer = replicate MaxSize 0, psize = 0, refcount = 1, send_cb = None,
     pkt_dest = NodeId_default\<rparr>"

definition setSendCallback :: "nat \<Rightarrow> BasePacket \<Rightarrow> BasePacket option" where
  "setSendCallback cb p = (if send_cb p = None then Some (p\<lparr>send_cb := Some cb\<rparr>) else None)"

definition pkt_ref :: "BasePacket \<Rightarrow> BasePacket" where
  "pkt_ref p = p\<lparr>refcount := refcount p + 1\<rparr>"

text \<open>
  \<open>unref\<close> asserts a positive count.  When the count becomes zero the callback, if there is
  one, is called with size \<open>-1\<close> and the packet is deleted.
\<close>

datatype unref_result =
  UnrefAssertFails
  | StillReferenced BasePacket
  | Deleted "(nat \<times> int) option"

definition pkt_unref :: "BasePacket \<Rightarrow> unref_result" where
  "pkt_unref p =
     (if \<not> refcount p > 0 then UnrefAssertFails
      else let p = p\<lparr>refcount := refcount p - 1\<rparr>
        in if refcount p = 0 then Deleted (map_option (\<lambda>cb. (cb, -1)) (send_cb p))
           else StillReferenced p)"

definition getType :: "BasePacket \<Rightarrow> PacketType" where
  "getType p =
     (let t = buffer p ! 0 AND 3
      in if t = 0 then PacketTypeBeacon else if t = 1 then PacketTypeFlood
         else if t = 2 then PacketTypeUnicast else PacketTypeForward)"

definition setType :: "PacketType \<Rightarrow> BasePacket \<Rightarrow> BasePacket" where
  "setType pt p = p\<lparr>buffer := (buffer p)[0 := (buffer p ! 0 AND NOT 3) OR PacketType_val pt]\<rparr>"

definition setDest :: "NodeId \<Rightarrow> BasePacket \<Rightarrow> BasePacket" where
  "setDest i p = p\<lparr>pkt_dest := i\<rparr>"

section \<open>SrcPacket.h\<close>

definition OffsetSrc :: nat where "OffsetSrc = 1"
definition OffsetSeq :: nat where "OffsetSeq = OffsetSrc + 6"
definition SrcPacketEnd :: nat where "SrcPacketEnd = OffsetSeq + 2"

definition setSrc :: "NodeId \<Rightarrow> BasePacket \<Rightarrow> BasePacket" where
  "setSrc i p = p\<lparr>buffer := mem_write (buffer p) OffsetSrc (NodeId_toArray i)\<rparr>"

definition getSrc :: "BasePacket \<Rightarrow> NodeId" where
  "getSrc p = NodeId_fromArray (mem_read (buffer p) OffsetSrc 6)"

definition setSeq :: "u16 \<Rightarrow> BasePacket \<Rightarrow> BasePacket" where
  "setSeq num p = p\<lparr>buffer := mem_write (buffer p) OffsetSeq (toArray num)\<rparr>"

definition getSeq :: "BasePacket \<Rightarrow> u16" where
  "getSeq p = fromArray (mem_read (buffer p) OffsetSeq 2)"

text \<open>The control bits share the first byte with the packet type; other bits are asserted away.\<close>

definition setControlBit :: "nat \<Rightarrow> bool \<Rightarrow> BasePacket \<Rightarrow> BasePacket option" where
  "setControlBit b v p =
     (if b \<ge> 2 \<and> b \<le> 7
      then Some (p\<lparr>buffer := (buffer p)[0 := (buffer p ! 0 AND NOT (push_bit b 1))
             OR push_bit b (if v then 1 else 0)]\<rparr>)
      else None)"

definition getControlBit :: "nat \<Rightarrow> BasePacket \<Rightarrow> bool option" where
  "getControlBit b p =
     (if b \<ge> 2 \<and> b \<le> 7 then Some (buffer p ! 0 AND push_bit b 1 \<noteq> 0) else None)"

definition setTraceFlag :: "bool \<Rightarrow> BasePacket \<Rightarrow> BasePacket" where
  "setTraceFlag v p = the (setControlBit 7 v p)"

definition getTraceFlag :: "BasePacket \<Rightarrow> bool" where
  "getTraceFlag p = the (getControlBit 7 p)"

section \<open>Flood.h\<close>

datatype FloodType = FloodTypeTopo | FloodTypeMCast | FloodTypePrivate

fun FloodType_val :: "FloodType \<Rightarrow> int" where
  "FloodType_val FloodTypeTopo = 0"
| "FloodType_val FloodTypeMCast = 1"
| "FloodType_val FloodTypePrivate = 2"

definition Flood_OffsetLastHop :: nat where "Flood_OffsetLastHop = SrcPacketEnd"
definition Flood_OffsetTTL :: nat where "Flood_OffsetTTL = Flood_OffsetLastHop + 6"
definition Flood_OffsetFloodType :: nat where "Flood_OffsetFloodType = Flood_OffsetTTL + 1"
definition FloodHeaderEnd :: nat where "FloodHeaderEnd = Flood_OffsetFloodType + 1"

definition Flood :: "BasePacket \<Rightarrow> BasePacket" where
  "Flood p = setType PacketTypeFlood p"

definition Flood_getTTL :: "BasePacket \<Rightarrow> int" where
  "Flood_getTTL p = uint (buffer p ! Flood_OffsetTTL)"

definition Flood_setTTL :: "int \<Rightarrow> BasePacket \<Rightarrow> BasePacket" where
  "Flood_setTTL ttl p = p\<lparr>buffer := (buffer p)[Flood_OffsetTTL := word_of_int ttl]\<rparr>"

definition Flood_decrTTL :: "BasePacket \<Rightarrow> BasePacket" where
  "Flood_decrTTL p =
     p\<lparr>buffer := (buffer p)[Flood_OffsetTTL := buffer p ! Flood_OffsetTTL - 1]\<rparr>"

definition Flood_incTTL :: "BasePacket \<Rightarrow> BasePacket" where
  "Flood_incTTL p =
     p\<lparr>buffer := (buffer p)[Flood_OffsetTTL := buffer p ! Flood_OffsetTTL + 1]\<rparr>"

definition getLastHop :: "BasePacket \<Rightarrow> NodeId" where
  "getLastHop p = NodeId_fromArray (mem_read (buffer p) Flood_OffsetLastHop 6)"

definition setLastHop :: "NodeId \<Rightarrow> BasePacket \<Rightarrow> BasePacket" where
  "setLastHop i p = p\<lparr>buffer := mem_write (buffer p) Flood_OffsetLastHop (NodeId_toArray i)\<rparr>"

text \<open>The flood type is read through a signed \<open>char\<close>.\<close>

definition getFloodType :: "BasePacket \<Rightarrow> int" where
  "getFloodType p = sint (buffer p ! Flood_OffsetFloodType)"

definition setFloodType :: "int \<Rightarrow> BasePacket \<Rightarrow> BasePacket" where
  "setFloodType ft p = p\<lparr>buffer := (buffer p)[Flood_OffsetFloodType := word_of_int ft]\<rparr>"

section \<open>UnicastPacket.h\<close>

definition OffsetUcDest :: nat where "OffsetUcDest = SrcPacketEnd"
definition OffsetNextHop :: nat where "OffsetNextHop = OffsetUcDest + 6"
definition Uc_OffsetTTL :: nat where "Uc_OffsetTTL = OffsetNextHop + 6"
definition OffsetUcType :: nat where "OffsetUcType = Uc_OffsetTTL + 1"
definition UnicastPacketEnd :: nat where "UnicastPacketEnd = OffsetUcType + 1"

definition UnicastPacket :: "BasePacket \<Rightarrow> BasePacket" where
  "UnicastPacket p = setType PacketTypeUnicast p"

definition Uc_getTTL :: "BasePacket \<Rightarrow> int" where
  "Uc_getTTL p = uint (buffer p ! Uc_OffsetTTL)"

definition Uc_setTTL :: "int \<Rightarrow> BasePacket \<Rightarrow> BasePacket" where
  "Uc_setTTL ttl p = p\<lparr>buffer := (buffer p)[Uc_OffsetTTL := word_of_int ttl]\<rparr>"

definition Uc_decrTTL :: "BasePacket \<Rightarrow> BasePacket" where
  "Uc_decrTTL p = p\<lparr>buffer := (buffer p)[Uc_OffsetTTL := buffer p ! Uc_OffsetTTL - 1]\<rparr>"

definition Uc_incTTL :: "BasePacket \<Rightarrow> BasePacket" where
  "Uc_incTTL p = p\<lparr>buffer := (buffer p)[Uc_OffsetTTL := buffer p ! Uc_OffsetTTL + 1]\<rparr>"

definition getUcDest :: "BasePacket \<Rightarrow> NodeId" where
  "getUcDest p = NodeId_fromArray (mem_read (buffer p) OffsetUcDest 6)"

definition setUcDest :: "NodeId \<Rightarrow> BasePacket \<Rightarrow> BasePacket" where
  "setUcDest i p = p\<lparr>buffer := mem_write (buffer p) OffsetUcDest (NodeId_toArray i)\<rparr>"

definition getNextHop :: "BasePacket \<Rightarrow> NodeId" where
  "getNextHop p = NodeId_fromArray (mem_read (buffer p) OffsetNextHop 6)"

definition setNextHop :: "NodeId \<Rightarrow> BasePacket \<Rightarrow> BasePacket" where
  "setNextHop i p = p\<lparr>buffer := mem_write (buffer p) OffsetNextHop (NodeId_toArray i)\<rparr>"

definition getUcPacketType :: "BasePacket \<Rightarrow> int" where
  "getUcPacketType p = uint (buffer p ! OffsetUcType)"

definition setUcPacketType :: "int \<Rightarrow> BasePacket \<Rightarrow> BasePacket" where
  "setUcPacketType t p = p\<lparr>buffer := (buffer p)[OffsetUcType := word_of_int t]\<rparr>"

section \<open>FlowPacket.h\<close>

definition OffsetFlowDest :: nat where "OffsetFlowDest = SrcPacketEnd"
definition OffsetFlowId :: nat where "OffsetFlowId = OffsetFlowDest + 6"
definition OffsetFlowType :: nat where "OffsetFlowType = OffsetFlowId + 4"
definition FlowPacketEnd :: nat where "FlowPacketEnd = OffsetFlowType + 4"

definition getFlowId :: "BasePacket \<Rightarrow> u32" where
  "getFlowId p = fromArray (mem_read (buffer p) OffsetFlowId 4)"

definition setFlowId :: "u32 \<Rightarrow> BasePacket \<Rightarrow> BasePacket" where
  "setFlowId v p = p\<lparr>buffer := mem_write (buffer p) OffsetFlowId (toArray v)\<rparr>"

definition getFlowDest :: "BasePacket \<Rightarrow> NodeId" where
  "getFlowDest p = NodeId_fromArray (mem_read (buffer p) OffsetFlowDest 6)"

definition setFlowDest :: "NodeId \<Rightarrow> BasePacket \<Rightarrow> BasePacket" where
  "setFlowDest i p = p\<lparr>buffer := mem_write (buffer p) OffsetFlowDest (NodeId_toArray i)\<rparr>"

definition getFlowType :: "BasePacket \<Rightarrow> u32" where
  "getFlowType p = fromArray (mem_read (buffer p) OffsetFlowType 4)"

definition setFlowType :: "u32 \<Rightarrow> BasePacket \<Rightarrow> BasePacket" where
  "setFlowType v p = p\<lparr>buffer := mem_write (buffer p) OffsetFlowType (toArray v)\<rparr>"

section \<open>TraceUcPacket.h\<close>

definition OffsetTraceEnd :: nat where "OffsetTraceEnd = UnicastPacketEnd"
definition TraceUcPacketEnd :: nat where "TraceUcPacketEnd = OffsetTraceEnd + 2"

definition TraceUcPacket :: "BasePacket \<Rightarrow> BasePacket" where
  "TraceUcPacket p = UnicastPacket p"

definition setTracePointer :: "nat \<Rightarrow> BasePacket \<Rightarrow> BasePacket" where
  "setTracePointer off p =
     p\<lparr>buffer := mem_write (buffer p) OffsetTraceEnd (toArray (of_nat off :: u16))\<rparr>"

definition getTracePointer :: "BasePacket \<Rightarrow> nat" where
  "getTracePointer p = unat (fromArray (mem_read (buffer p) OffsetTraceEnd 2) :: u16)"

text \<open>Appending a node returns whether there was room.\<close>

definition appendNode :: "NodeId \<Rightarrow> BasePacket \<Rightarrow> bool \<times> BasePacket" where
  "appendNode i p =
     (let off = getTracePointer p
      in if off + 6 \<ge> psize p then (False, p)
         else (True, setTracePointer (off + 6)
                 (p\<lparr>buffer := mem_write (buffer p) off (NodeId_toArray i)\<rparr>)))"

lemmas offset_defs =
  OffsetSrc_def OffsetSeq_def SrcPacketEnd_def
  Flood_OffsetLastHop_def Flood_OffsetTTL_def Flood_OffsetFloodType_def FloodHeaderEnd_def
  OffsetUcDest_def OffsetNextHop_def Uc_OffsetTTL_def OffsetUcType_def UnicastPacketEnd_def
  OffsetFlowDest_def OffsetFlowId_def OffsetFlowType_def FlowPacketEnd_def
  OffsetTraceEnd_def TraceUcPacketEnd_def

section \<open>The interface of a header field\<close>

definition pkt_ok :: "BasePacket \<Rightarrow> bool" where
  "pkt_ok p \<longleftrightarrow> length (buffer p) = MaxSize"

text \<open>
  A header field occupies \<open>n\<close> bytes from \<open>off\<close>.  It promises that a written value is read
  back, that writing touches only its own bytes of the buffer and nothing else of the
  packet, and that reading depends on its own bytes only.
\<close>

locale header_field =
  fixes get :: "BasePacket \<Rightarrow> 'v"
    and set :: "'v \<Rightarrow> BasePacket \<Rightarrow> BasePacket"
    and off n :: nat
    and valid :: "'v \<Rightarrow> bool"
  assumes get_set: "pkt_ok p \<Longrightarrow> valid v \<Longrightarrow> get (set v p) = v"
    and set_ok: "pkt_ok p \<Longrightarrow> pkt_ok (set v p)"
    and frame: "pkt_ok p \<Longrightarrow> i < MaxSize \<Longrightarrow> i < off \<or> off + n \<le> i \<Longrightarrow>
      buffer (set v p) ! i = buffer p ! i"
    and frame_rest: "set v p = p\<lparr>buffer := buffer (set v p)\<rparr>"
    and get_local: "pkt_ok p \<Longrightarrow> pkt_ok q \<Longrightarrow>
      (\<And>i. off \<le> i \<Longrightarrow> i < off + n \<Longrightarrow> buffer p ! i = buffer q ! i) \<Longrightarrow> get p = get q"
    and in_range: "off + n \<le> MaxSize"
begin

lemma rest_set:
  "psize (set v p) = psize p" "refcount (set v p) = refcount p"
  "pkt_dest (set v p) = pkt_dest p" "send_cb (set v p) = send_cb p"
  by (subst frame_rest, simp)+

end

text \<open>Two fields that do not overlap.\<close>

locale disjoint_fields =
  a: header_field get set off n valid + b: header_field get' set' off' n' valid'
  for get :: "BasePacket \<Rightarrow> 'v" and set :: "'v \<Rightarrow> BasePacket \<Rightarrow> BasePacket" and off n valid
    and get' :: "BasePacket \<Rightarrow> 'w" and set' :: "'w \<Rightarrow> BasePacket \<Rightarrow> BasePacket" and off' n' valid' +
  assumes disjoint: "off + n \<le> off' \<or> off' + n' \<le> off"
begin

lemma get_other: "pkt_ok p \<Longrightarrow> get (set' v p) = get p"
  using a.in_range disjoint
  by (intro a.get_local b.set_ok b.frame) auto

lemma get_other': "pkt_ok p \<Longrightarrow> get' (set v p) = get' p"
  using b.in_range disjoint
  by (intro b.get_local a.set_ok a.frame) auto

lemma set_commute:
  assumes "pkt_ok p" "valid v" "valid' w"
  shows "get (set' w (set v p)) = v \<and> get' (set' w (set v p)) = w \<and>
    get (set v (set' w p)) = v \<and> get' (set v (set' w p)) = w"
  using assms by (simp add: get_other get_other' a.get_set b.get_set a.set_ok b.set_ok)

end

text \<open>The three shapes of fields the headers use: identifiers, integers and single bytes.\<close>

lemma node_field:
  assumes "off + 6 \<le> MaxSize"
  shows "header_field (\<lambda>p. NodeId_fromArray (mem_read (buffer p) off 6))
    (\<lambda>i p. p\<lparr>buffer := mem_write (buffer p) off (NodeId_toArray i)\<rparr>) off 6 NodeId_ok"
proof (unfold_locales, goal_cases)
  case (5 p q)
  then have "mem_read (buffer p) off 6 = mem_read (buffer q) off 6"
    using assms by (auto simp: list_eq_iff_nth_eq pkt_ok_def) (simp add: mem_read_def pkt_ok_def)
  then show ?case by simp
qed (use assms in \<open>simp_all add: pkt_ok_def buf_simps\<close>)

lemma word_field:
  assumes "off + k \<le> MaxSize" "8 dvd LENGTH('a::len)" "LENGTH('a) div 8 = k"
  shows "header_field (\<lambda>p. fromArray (mem_read (buffer p) off k) :: 'a word)
    (\<lambda>v p. p\<lparr>buffer := mem_write (buffer p) off (toArray v)\<rparr>) off k (\<lambda>_. True)"
proof -
  have len: "8 \<le> LENGTH('a)"
    using assms(2) by (intro dvd_imp_le) auto
  then have l: "length (toArray v) = k" for v :: "'a word"
    using assms by (simp add: length_toArray)
  have rt: "fromArray (toArray v) = v" for v :: "'a word"
    using fromArray_toArray [of v "[]"] assms len by simp
  show ?thesis
  proof (unfold_locales, goal_cases)
    case (5 p q)
    then have "mem_read (buffer p) off k = mem_read (buffer q) off k"
      using assms by (auto simp: list_eq_iff_nth_eq pkt_ok_def) (simp add: mem_read_def pkt_ok_def)
    then show ?case by simp
  qed (use assms in \<open>simp_all add: pkt_ok_def buf_simps l rt\<close>)
qed

lemma byte_field:
  assumes "off < MaxSize" "\<And>v. valid v \<Longrightarrow> dec (enc v) = v"
  shows "header_field (\<lambda>p. dec (buffer p ! off))
    (\<lambda>v p. p\<lparr>buffer := (buffer p)[off := enc v]\<rparr>) off 1 valid"
  by unfold_locales (use assms in \<open>auto simp: pkt_ok_def nth_list_update\<close>)

text \<open>A field whose values are converted before they are written and after they are read.\<close>

lemma coded_field:
  assumes "header_field get put off n valid" "\<And>v. valid' v \<Longrightarrow> valid (enc v) \<and> dec (enc v) = v"
  shows "header_field (\<lambda>p. dec (get p)) (\<lambda>v. put (enc v)) off n valid'"
proof (unfold_locales, goal_cases)
  case (5 p q)
  then have "get p = get q" by (intro header_field.get_local [OF assms(1)])
  then show ?case by simp
qed (use assms(2) header_field.get_set [OF assms(1)] header_field.set_ok [OF assms(1)]
    header_field.frame [OF assms(1)] header_field.frame_rest [OF assms(1)]
    header_field.in_range [OF assms(1)] in \<open>auto\<close>)

section \<open>The fields of the headers\<close>

text \<open>A byte holds an unsigned value below 256 or a signed value between -128 and 127.\<close>

definition ubyte_ok :: "int \<Rightarrow> bool" where
  "ubyte_ok v \<longleftrightarrow> 0 \<le> v \<and> v < 256"

definition sbyte_ok :: "int \<Rightarrow> bool" where
  "sbyte_ok v \<longleftrightarrow> -128 \<le> v \<and> v < 128"

lemma ubyte_dec_enc: "ubyte_ok v \<Longrightarrow> uint (word_of_int v :: byte) = v"
  by (simp add: ubyte_ok_def unsigned_of_int take_bit_int_eq_self)

lemma sbyte_dec_enc: "sbyte_ok v \<Longrightarrow> sint (word_of_int v :: byte) = v"
  by (simp add: sbyte_ok_def signed_of_int signed_take_bit_int_eq_self)

interpretation src: header_field getSrc setSrc OffsetSrc 6 NodeId_ok
  using node_field [of OffsetSrc]
  by (simp add: getSrc_def [abs_def] setSrc_def [abs_def] offset_defs MaxSize_def)

interpretation seq: header_field getSeq setSeq OffsetSeq 2 "\<lambda>_. True"
  using word_field [of OffsetSeq 2, where ?'a = 16]
  by (simp add: getSeq_def [abs_def] setSeq_def [abs_def] offset_defs MaxSize_def)

interpretation fl_last: header_field getLastHop setLastHop Flood_OffsetLastHop 6 NodeId_ok
  using node_field [of Flood_OffsetLastHop]
  by (simp add: getLastHop_def [abs_def] setLastHop_def [abs_def] offset_defs MaxSize_def)

interpretation fl_ttl: header_field Flood_getTTL Flood_setTTL Flood_OffsetTTL 1 ubyte_ok
  using byte_field [of Flood_OffsetTTL ubyte_ok uint word_of_int]
  by (simp add: Flood_getTTL_def [abs_def] Flood_setTTL_def [abs_def] offset_defs MaxSize_def ubyte_dec_enc)

interpretation fl_type: header_field getFloodType setFloodType Flood_OffsetFloodType 1 sbyte_ok
  using byte_field [of Flood_OffsetFloodType sbyte_ok sint word_of_int]
  by (simp add: getFloodType_def [abs_def] setFloodType_def [abs_def] offset_defs MaxSize_def sbyte_dec_enc)

interpretation uc_dest: header_field getUcDest setUcDest OffsetUcDest 6 NodeId_ok
  using node_field [of OffsetUcDest]
  by (simp add: getUcDest_def [abs_def] setUcDest_def [abs_def] offset_defs MaxSize_def)

interpretation uc_next: header_field getNextHop setNextHop OffsetNextHop 6 NodeId_ok
  using node_field [of OffsetNextHop]
  by (simp add: getNextHop_def [abs_def] setNextHop_def [abs_def] offset_defs MaxSize_def)

interpretation uc_ttl: header_field Uc_getTTL Uc_setTTL Uc_OffsetTTL 1 ubyte_ok
  using byte_field [of Uc_OffsetTTL ubyte_ok uint word_of_int]
  by (simp add: Uc_getTTL_def [abs_def] Uc_setTTL_def [abs_def] offset_defs MaxSize_def ubyte_dec_enc)

interpretation uc_type: header_field getUcPacketType setUcPacketType OffsetUcType 1 ubyte_ok
  using byte_field [of OffsetUcType ubyte_ok uint word_of_int]
  by (simp add: getUcPacketType_def [abs_def] setUcPacketType_def [abs_def] offset_defs MaxSize_def ubyte_dec_enc)

interpretation fw_dest: header_field getFlowDest setFlowDest OffsetFlowDest 6 NodeId_ok
  using node_field [of OffsetFlowDest]
  by (simp add: getFlowDest_def [abs_def] setFlowDest_def [abs_def] offset_defs MaxSize_def)

interpretation fw_id: header_field getFlowId setFlowId OffsetFlowId 4 "\<lambda>_. True"
  using word_field [of OffsetFlowId 4, where ?'a = 32]
  by (simp add: getFlowId_def [abs_def] setFlowId_def [abs_def] offset_defs MaxSize_def)

interpretation fw_type: header_field getFlowType setFlowType OffsetFlowType 4 "\<lambda>_. True"
  using word_field [of OffsetFlowType 4, where ?'a = 32]
  by (simp add: getFlowType_def [abs_def] setFlowType_def [abs_def] offset_defs MaxSize_def)

interpretation tr_ptr: header_field getTracePointer setTracePointer OffsetTraceEnd 2 "\<lambda>v. v < 2 ^ 16"
  using coded_field [OF word_field [of OffsetTraceEnd 2, where ?'a = 16],
      where dec = unat and enc = of_nat and valid' = "\<lambda>v. v < 2 ^ 16"]
  by (simp add: getTracePointer_def [abs_def] setTracePointer_def [abs_def] offset_defs MaxSize_def
      unsigned_of_nat take_bit_nat_eq_self)

lemmas field_other = disjoint_fields.get_other [OF disjoint_fields.intro]
lemmas field_other' = disjoint_fields.get_other' [OF disjoint_fields.intro]

named_theorems hdr_simps

lemmas hdr_same [hdr_simps] =
  src.get_set src.set_ok src.rest_set
  seq.get_set [simplified] seq.set_ok seq.rest_set
  fl_last.get_set fl_last.set_ok fl_last.rest_set
  fl_ttl.get_set fl_ttl.set_ok fl_ttl.rest_set
  fl_type.get_set fl_type.set_ok fl_type.rest_set
  uc_dest.get_set uc_dest.set_ok uc_dest.rest_set
  uc_next.get_set uc_next.set_ok uc_next.rest_set
  uc_ttl.get_set uc_ttl.set_ok uc_ttl.rest_set
  uc_type.get_set uc_type.set_ok uc_type.rest_set
  fw_dest.get_set fw_dest.set_ok fw_dest.rest_set
  fw_id.get_set [simplified] fw_id.set_ok fw_id.rest_set
  fw_type.get_set [simplified] fw_type.set_ok fw_type.rest_set
  tr_ptr.get_set tr_ptr.set_ok tr_ptr.rest_set

lemmas uc_other [hdr_simps] =
  field_other [OF src.header_field_axioms seq.header_field_axioms disjoint_fields_axioms.intro,
    unfolded offset_defs, simplified]
  field_other' [OF src.header_field_axioms seq.header_field_axioms disjoint_fields_axioms.intro,
    unfolded offset_defs, simplified]
  field_other [OF src.header_field_axioms uc_dest.header_field_axioms disjoint_fields_axioms.intro,
    unfolded offset_defs, simplified]
  field_other' [OF src.header_field_axioms uc_dest.header_field_axioms disjoint_fields_axioms.intro,
    unfolded offset_defs, simplified]
  field_other [OF src.header_field_axioms uc_next.header_field_axioms disjoint_fields_axioms.intro,
    unfolded offset_defs, simplified]
  field_other' [OF src.header_field_axioms uc_next.header_field_axioms disjoint_fields_axioms.intro,
    unfolded offset_defs, simplified]
  field_other [OF src.header_field_axioms uc_ttl.header_field_axioms disjoint_fields_axioms.intro,
    unfolded offset_defs, simplified]
  field_other' [OF src.header_field_axioms uc_ttl.header_field_axioms disjoint_fields_axioms.intro,
    unfolded offset_defs, simplified]
  field_other [OF src.header_field_axioms uc_type.header_field_axioms disjoint_fields_axioms.intro,
    unfolded offset_defs, simplified]
  field_other' [OF src.header_field_axioms uc_type.header_field_axioms disjoint_fields_axioms.intro,
    unfolded offset_defs, simplified]
  field_other [OF seq.header_field_axioms uc_dest.header_field_axioms disjoint_fields_axioms.intro,
    unfolded offset_defs, simplified]
  field_other' [OF seq.header_field_axioms uc_dest.header_field_axioms disjoint_fields_axioms.intro,
    unfolded offset_defs, simplified]
  field_other [OF seq.header_field_axioms uc_next.header_field_axioms disjoint_fields_axioms.intro,
    unfolded offset_defs, simplified]
  field_other' [OF seq.header_field_axioms uc_next.header_field_axioms disjoint_fields_axioms.intro,
    unfolded offset_defs, simplified]
  field_other [OF seq.header_field_axioms uc_ttl.header_field_axioms disjoint_fields_axioms.intro,
    unfolded offset_defs, simplified]
  field_other' [OF seq.header_field_axioms uc_ttl.header_field_axioms disjoint_fields_axioms.intro,
    unfolded offset_defs, simplified]
  field_other [OF seq.header_field_axioms uc_type.header_field_axioms disjoint_fields_axioms.intro,
    unfolded offset_defs, simplified]
  field_other' [OF seq.header_field_axioms uc_type.header_field_axioms disjoint_fields_axioms.intro,
    unfolded offset_defs, simplified]
  field_other [OF uc_dest.header_field_axioms uc_next.header_field_axioms disjoint_fields_axioms.intro,
    unfolded offset_defs, simplified]
  field_other' [OF uc_dest.header_field_axioms uc_next.header_field_axioms disjoint_fields_axioms.intro,
    unfolded offset_defs, simplified]
  field_other [OF uc_dest.header_field_axioms uc_ttl.header_field_axioms disjoint_fields_axioms.intro,
    unfolded offset_defs, simplified]
  field_other' [OF uc_dest.header_field_axioms uc_ttl.header_field_axioms disjoint_fields_axioms.intro,
    unfolded offset_defs, simplified]
  field_other [OF uc_dest.header_field_axioms uc_type.header_field_axioms disjoint_fields_axioms.intro,
    unfolded offset_defs, simplified]
  field_other' [OF uc_dest.header_field_axioms uc_type.header_field_axioms disjoint_fields_axioms.intro,
    unfolded offset_defs, simplified]
  field_other [OF uc_next.header_field_axioms uc_ttl.header_field_axioms disjoint_fields_axioms.intro,
    unfolded offset_defs, simplified]
  field_other' [OF uc_next.header_field_axioms uc_ttl.header_field_axioms disjoint_fields_axioms.intro,
    unfolded offset_defs, simplified]
  field_other [OF uc_next.header_field_axioms uc_type.header_field_axioms disjoint_fields_axioms.intro,
    unfolded offset_defs, simplified]
  field_other' [OF uc_next.header_field_axioms uc_type.header_field_axioms disjoint_fields_axioms.intro,
    unfolded offset_defs, simplified]
  field_other [OF uc_ttl.header_field_axioms uc_type.header_field_axioms disjoint_fields_axioms.intro,
    unfolded offset_defs, simplified]
  field_other' [OF uc_ttl.header_field_axioms uc_type.header_field_axioms disjoint_fields_axioms.intro,
    unfolded offset_defs, simplified]

lemmas fl_other [hdr_simps] =
  field_other [OF src.header_field_axioms fl_last.header_field_axioms disjoint_fields_axioms.intro,
    unfolded offset_defs, simplified]
  field_other' [OF src.header_field_axioms fl_last.header_field_axioms disjoint_fields_axioms.intro,
    unfolded offset_defs, simplified]
  field_other [OF src.header_field_axioms fl_ttl.header_field_axioms disjoint_fields_axioms.intro,
    unfolded offset_defs, simplified]
  field_other' [OF src.header_field_axioms fl_ttl.header_field_axioms disjoint_fields_axioms.intro,
    unfolded offset_defs, simplified]
  field_other [OF src.header_field_axioms fl_type.header_field_axioms disjoint_fields_axioms.intro,
    unfolded offset_defs, simplified]
  field_other' [OF src.header_field_axioms fl_type.header_field_axioms disjoint_fields_axioms.intro,
    unfolded offset_defs, simplified]
  field_other [OF seq.header_field_axioms fl_last.header_field_axioms disjoint_fields_axioms.intro,
    unfolded offset_defs, simplified]
  field_other' [OF seq.header_field_axioms fl_last.header_field_axioms disjoint_fields_axioms.intro,
    unfolded offset_defs, simplified]
  field_other [OF seq.header_field_axioms fl_ttl.header_field_axioms disjoint_fields_axioms.intro,
    unfolded offset_defs, simplified]
  field_other' [OF seq.header_field_axioms fl_ttl.header_field_axioms disjoint_fields_axioms.intro,
    unfolded offset_defs, simplified]
  field_other [OF seq.header_field_axioms fl_type.header_field_axioms disjoint_fields_axioms.intro,
    unfolded offset_defs, simplified]
  field_other' [OF seq.header_field_axioms fl_type.header_field_axioms disjoint_fields_axioms.intro,
    unfolded offset_defs, simplified]
  field_other [OF fl_last.header_field_axioms fl_ttl.header_field_axioms disjoint_fields_axioms.intro,
    unfolded offset_defs, simplified]
  field_other' [OF fl_last.header_field_axioms fl_ttl.header_field_axioms disjoint_fields_axioms.intro,
    unfolded offset_defs, simplified]
  field_other [OF fl_last.header_field_axioms fl_type.header_field_axioms disjoint_fields_axioms.intro,
    unfolded offset_defs, simplified]
  field_other' [OF fl_last.header_field_axioms fl_type.header_field_axioms disjoint_fields_axioms.intro,
    unfolded offset_defs, simplified]
  field_other [OF fl_ttl.header_field_axioms fl_type.header_field_axioms disjoint_fields_axioms.intro,
    unfolded offset_defs, simplified]
  field_other' [OF fl_ttl.header_field_axioms fl_type.header_field_axioms disjoint_fields_axioms.intro,
    unfolded offset_defs, simplified]

lemmas fw_other [hdr_simps] =
  field_other [OF src.header_field_axioms fw_dest.header_field_axioms disjoint_fields_axioms.intro,
    unfolded offset_defs, simplified]
  field_other' [OF src.header_field_axioms fw_dest.header_field_axioms disjoint_fields_axioms.intro,
    unfolded offset_defs, simplified]
  field_other [OF src.header_field_axioms fw_id.header_field_axioms disjoint_fields_axioms.intro,
    unfolded offset_defs, simplified]
  field_other' [OF src.header_field_axioms fw_id.header_field_axioms disjoint_fields_axioms.intro,
    unfolded offset_defs, simplified]
  field_other [OF src.header_field_axioms fw_type.header_field_axioms disjoint_fields_axioms.intro,
    unfolded offset_defs, simplified]
  field_other' [OF src.header_field_axioms fw_type.header_field_axioms disjoint_fields_axioms.intro,
    unfolded offset_defs, simplified]
  field_other [OF seq.header_field_axioms fw_dest.header_field_axioms disjoint_fields_axioms.intro,
    unfolded offset_defs, simplified]
  field_other' [OF seq.header_field_axioms fw_dest.header_field_axioms disjoint_fields_axioms.intro,
    unfolded offset_defs, simplified]
  field_other [OF seq.header_field_axioms fw_id.header_field_axioms disjoint_fields_axioms.intro,
    unfolded offset_defs, simplified]
  field_other' [OF seq.header_field_axioms fw_id.header_field_axioms disjoint_fields_axioms.intro,
    unfolded offset_defs, simplified]
  field_other [OF seq.header_field_axioms fw_type.header_field_axioms disjoint_fields_axioms.intro,
    unfolded offset_defs, simplified]
  field_other' [OF seq.header_field_axioms fw_type.header_field_axioms disjoint_fields_axioms.intro,
    unfolded offset_defs, simplified]
  field_other [OF fw_dest.header_field_axioms fw_id.header_field_axioms disjoint_fields_axioms.intro,
    unfolded offset_defs, simplified]
  field_other' [OF fw_dest.header_field_axioms fw_id.header_field_axioms disjoint_fields_axioms.intro,
    unfolded offset_defs, simplified]
  field_other [OF fw_dest.header_field_axioms fw_type.header_field_axioms disjoint_fields_axioms.intro,
    unfolded offset_defs, simplified]
  field_other' [OF fw_dest.header_field_axioms fw_type.header_field_axioms disjoint_fields_axioms.intro,
    unfolded offset_defs, simplified]
  field_other [OF fw_id.header_field_axioms fw_type.header_field_axioms disjoint_fields_axioms.intro,
    unfolded offset_defs, simplified]
  field_other' [OF fw_id.header_field_axioms fw_type.header_field_axioms disjoint_fields_axioms.intro,
    unfolded offset_defs, simplified]

section \<open>The control byte\<close>

lemma PacketType_val_bits: "bit (PacketType_val pt) i \<Longrightarrow> i < 2"
  by (cases pt) (auto simp: bit_simps bit_1_iff numeral_2_eq_2 less_Suc_eq_0_disj
      bit_numeral_rec split: nat.splits dest: bit_imp_le_length)

lemma bit_3: "bit (3 :: int) i \<longleftrightarrow> i < 2"
proof -
  have "bit (mask 2 :: int) i \<longleftrightarrow> i < 2"
    by (auto simp: bit_simps)
  then show ?thesis by (simp add: mask_eq_exp_minus_1)
qed

lemma set_type_bits:
  "(((b AND NOT 3) OR PacketType_val pt) AND 3) = PacketType_val pt"
  by (rule bit_eqI)
    (use PacketType_val_bits [of pt] in \<open>auto simp: bit_simps bit_3 dest: bit_imp_le_length\<close>)

lemma set_type_other_bits:
  "i \<ge> 2 \<Longrightarrow> bit ((b AND NOT 3) OR PacketType_val pt) i = bit (b :: byte) i"
  using PacketType_val_bits [of pt i] by (auto simp: bit_simps bit_3 dest: bit_imp_le_length)

lemma getControlBit_bit:
  "2 \<le> b \<Longrightarrow> b \<le> 7 \<Longrightarrow> getControlBit b p = Some (bit (buffer p ! 0) b)"
  by (auto simp: getControlBit_def push_bit_of_1 and_exp_eq_0_iff_not_bit)

lemma setControlBit_bits:
  assumes "setControlBit b v p = Some q" "buffer p \<noteq> []"
  shows "bit (buffer q ! 0) i = (if i = b then v else bit (buffer p ! 0) i)"
  using assms
  by (auto simp: setControlBit_def bit_simps bit_1_iff split: if_splits)
    (use bit_imp_le_length in fastforce)+

lemma getType_bits:
  "getType p = getType q \<longleftrightarrow> buffer p ! 0 AND 3 = buffer q ! 0 AND 3"
proof -
  have "x AND 3 \<in> {0, 1, 2, 3 :: byte}" for x :: byte
  proof -
    have "x AND 3 = take_bit 2 x"
      by (rule bit_eqI) (auto simp: bit_simps bit_3)
    then have "unat (x AND 3) < 4"
      using take_bit_nat_less_exp [of 2 "unat x"] by (simp add: unsigned_take_bit_eq)
    then have "unat (x AND 3) \<in> {0, 1, 2, 3}" by auto
    then show ?thesis by (auto simp: word_unat_eq_iff)
  qed
  from this [of "buffer p ! 0"] this [of "buffer q ! 0"] show ?thesis
    by (auto simp: getType_def Let_def)
qed

lemma getType_setType: "buffer p \<noteq> [] \<Longrightarrow> getType (setType pt p) = pt"
  using set_type_bits [of "buffer p ! 0" pt]
  by (cases pt) (auto simp: getType_def setType_def Let_def nth_list_update)

interpretation pk_type: header_field getType setType 0 1 "\<lambda>_. True"
proof (unfold_locales, goal_cases)
  case (1 p v)
  then show ?case by (intro getType_setType) (auto simp: pkt_ok_def MaxSize_def)
next
  case (5 p q)
  then show ?case by (simp add: getType_bits)
qed (auto simp: setType_def pkt_ok_def MaxSize_def)

lemma setTraceFlag_eq: "setControlBit 7 v p = Some (setTraceFlag v p)"
  by (simp add: setTraceFlag_def setControlBit_def)

lemma getTraceFlag_bit: "getTraceFlag p = bit (buffer p ! 0) 7"
  by (simp add: getTraceFlag_def getControlBit_bit)

interpretation pk_trace: header_field getTraceFlag setTraceFlag 0 1 "\<lambda>_. True"
proof (unfold_locales, goal_cases)
  case (1 p v)
  then have "buffer p \<noteq> []" by (auto simp: pkt_ok_def MaxSize_def)
  from setControlBit_bits [OF setTraceFlag_eq this, of v 7] show ?case
    by (simp add: getTraceFlag_bit)
next
  case (5 p q)
  then show ?case by (simp add: getTraceFlag_bit)
qed (auto simp: setTraceFlag_def setControlBit_def pkt_ok_def MaxSize_def)

lemma type_trace_independent [hdr_simps]:
  assumes "pkt_ok p"
  shows "getTraceFlag (setType pt p) = getTraceFlag p" "getType (setTraceFlag v p) = getType p"
proof -
  have ne: "buffer p \<noteq> []" using assms by (auto simp: pkt_ok_def MaxSize_def)
  show "getTraceFlag (setType pt p) = getTraceFlag p"
    using ne set_type_other_bits [of 7 "buffer p ! 0" pt]
    by (simp add: getTraceFlag_bit setType_def)
  have "buffer (setTraceFlag v p) ! 0 AND 3 = buffer p ! 0 AND 3"
    using setControlBit_bits [OF setTraceFlag_eq ne, of v]
    by (intro bit_eqI) (auto simp: bit_simps bit_3)
  then show "getType (setTraceFlag v p) = getType p"
    by (simp add: getType_bits)
qed

lemmas control_other [hdr_simps] =
  field_other [OF pk_type.header_field_axioms src.header_field_axioms disjoint_fields_axioms.intro,
    unfolded offset_defs, simplified]
  field_other' [OF pk_type.header_field_axioms src.header_field_axioms disjoint_fields_axioms.intro,
    unfolded offset_defs, simplified]
  field_other [OF pk_type.header_field_axioms seq.header_field_axioms disjoint_fields_axioms.intro,
    unfolded offset_defs, simplified]
  field_other' [OF pk_type.header_field_axioms seq.header_field_axioms disjoint_fields_axioms.intro,
    unfolded offset_defs, simplified]
  field_other [OF pk_type.header_field_axioms fl_last.header_field_axioms disjoint_fields_axioms.intro,
    unfolded offset_defs, simplified]
  field_other' [OF pk_type.header_field_axioms fl_last.header_field_axioms disjoint_fields_axioms.intro,
    unfolded offset_defs, simplified]
  field_other [OF pk_type.header_field_axioms fl_ttl.header_field_axioms disjoint_fields_axioms.intro,
    unfolded offset_defs, simplified]
  field_other' [OF pk_type.header_field_axioms fl_ttl.header_field_axioms disjoint_fields_axioms.intro,
    unfolded offset_defs, simplified]
  field_other [OF pk_type.header_field_axioms fl_type.header_field_axioms disjoint_fields_axioms.intro,
    unfolded offset_defs, simplified]
  field_other' [OF pk_type.header_field_axioms fl_type.header_field_axioms disjoint_fields_axioms.intro,
    unfolded offset_defs, simplified]
  field_other [OF pk_type.header_field_axioms uc_dest.header_field_axioms disjoint_fields_axioms.intro,
    unfolded offset_defs, simplified]
  field_other' [OF pk_type.header_field_axioms uc_dest.header_field_axioms disjoint_fields_axioms.intro,
    unfolded offset_defs, simplified]
  field_other [OF pk_type.header_field_axioms uc_next.header_field_axioms disjoint_fields_axioms.intro,
    unfolded offset_defs, simplified]
  field_other' [OF pk_type.header_field_axioms uc_next.header_field_axioms disjoint_fields_axioms.intro,
    unfolded offset_defs, simplified]
  field_other [OF pk_type.header_field_axioms uc_ttl.header_field_axioms disjoint_fields_axioms.intro,
    unfolded offset_defs, simplified]
  field_other' [OF pk_type.header_field_axioms uc_ttl.header_field_axioms disjoint_fields_axioms.intro,
    unfolded offset_defs, simplified]
  field_other [OF pk_type.header_field_axioms uc_type.header_field_axioms disjoint_fields_axioms.intro,
    unfolded offset_defs, simplified]
  field_other' [OF pk_type.header_field_axioms uc_type.header_field_axioms disjoint_fields_axioms.intro,
    unfolded offset_defs, simplified]
  field_other [OF pk_type.header_field_axioms fw_dest.header_field_axioms disjoint_fields_axioms.intro,
    unfolded offset_defs, simplified]
  field_other' [OF pk_type.header_field_axioms fw_dest.header_field_axioms disjoint_fields_axioms.intro,
    unfolded offset_defs, simplified]
  field_other [OF pk_type.header_field_axioms fw_id.header_field_axioms disjoint_fields_axioms.intro,
    unfolded offset_defs, simplified]
  field_other' [OF pk_type.header_field_axioms fw_id.header_field_axioms disjoint_fields_axioms.intro,
    unfolded offset_defs, simplified]
  field_other [OF pk_type.header_field_axioms fw_type.header_field_axioms disjoint_fields_axioms.intro,
    unfolded offset_defs, simplified]
  field_other' [OF pk_type.header_field_axioms fw_type.header_field_axioms disjoint_fields_axioms.intro,
    unfolded offset_defs, simplified]
  field_other [OF pk_type.header_field_axioms tr_ptr.header_field_axioms disjoint_fields_axioms.intro,
    unfolded offset_defs, simplified]
  field_other' [OF pk_type.header_field_axioms tr_ptr.header_field_axioms disjoint_fields_axioms.intro,
    unfolded offset_defs, simplified]
  field_other [OF pk_trace.header_field_axioms src.header_field_axioms disjoint_fields_axioms.intro,
    unfolded offset_defs, simplified]
  field_other' [OF pk_trace.header_field_axioms src.header_field_axioms disjoint_fields_axioms.intro,
    unfolded offset_defs, simplified]
  field_other [OF pk_trace.header_field_axioms seq.header_field_axioms disjoint_fields_axioms.intro,
    unfolded offset_defs, simplified]
  field_other' [OF pk_trace.header_field_axioms seq.header_field_axioms disjoint_fields_axioms.intro,
    unfolded offset_defs, simplified]
  field_other [OF pk_trace.header_field_axioms fl_last.header_field_axioms disjoint_fields_axioms.intro,
    unfolded offset_defs, simplified]
  field_other' [OF pk_trace.header_field_axioms fl_last.header_field_axioms disjoint_fields_axioms.intro,
    unfolded offset_defs, simplified]
  field_other [OF pk_trace.header_field_axioms fl_ttl.header_field_axioms disjoint_fields_axioms.intro,
    unfolded offset_defs, simplified]
  field_other' [OF pk_trace.header_field_axioms fl_ttl.header_field_axioms disjoint_fields_axioms.intro,
    unfolded offset_defs, simplified]
  field_other [OF pk_trace.header_field_axioms fl_type.header_field_axioms disjoint_fields_axioms.intro,
    unfolded offset_defs, simplified]
  field_other' [OF pk_trace.header_field_axioms fl_type.header_field_axioms disjoint_fields_axioms.intro,
    unfolded offset_defs, simplified]
  field_other [OF pk_trace.header_field_axioms uc_dest.header_field_axioms disjoint_fields_axioms.intro,
    unfolded offset_defs, simplified]
  field_other' [OF pk_trace.header_field_axioms uc_dest.header_field_axioms disjoint_fields_axioms.intro,
    unfolded offset_defs, simplified]
  field_other [OF pk_trace.header_field_axioms uc_next.header_field_axioms disjoint_fields_axioms.intro,
    unfolded offset_defs, simplified]
  field_other' [OF pk_trace.header_field_axioms uc_next.header_field_axioms disjoint_fields_axioms.intro,
    unfolded offset_defs, simplified]
  field_other [OF pk_trace.header_field_axioms uc_ttl.header_field_axioms disjoint_fields_axioms.intro,
    unfolded offset_defs, simplified]
  field_other' [OF pk_trace.header_field_axioms uc_ttl.header_field_axioms disjoint_fields_axioms.intro,
    unfolded offset_defs, simplified]
  field_other [OF pk_trace.header_field_axioms uc_type.header_field_axioms disjoint_fields_axioms.intro,
    unfolded offset_defs, simplified]
  field_other' [OF pk_trace.header_field_axioms uc_type.header_field_axioms disjoint_fields_axioms.intro,
    unfolded offset_defs, simplified]
  field_other [OF pk_trace.header_field_axioms fw_dest.header_field_axioms disjoint_fields_axioms.intro,
    unfolded offset_defs, simplified]
  field_other' [OF pk_trace.header_field_axioms fw_dest.header_field_axioms disjoint_fields_axioms.intro,
    unfolded offset_defs, simplified]
  field_other [OF pk_trace.header_field_axioms fw_id.header_field_axioms disjoint_fields_axioms.intro,
    unfolded offset_defs, simplified]
  field_other' [OF pk_trace.header_field_axioms fw_id.header_field_axioms disjoint_fields_axioms.intro,
    unfolded offset_defs, simplified]
  field_other [OF pk_trace.header_field_axioms fw_type.header_field_axioms disjoint_fields_axioms.intro,
    unfolded offset_defs, simplified]
  field_other' [OF pk_trace.header_field_axioms fw_type.header_field_axioms disjoint_fields_axioms.intro,
    unfolded offset_defs, simplified]
  field_other [OF pk_trace.header_field_axioms tr_ptr.header_field_axioms disjoint_fields_axioms.intro,
    unfolded offset_defs, simplified]
  field_other' [OF pk_trace.header_field_axioms tr_ptr.header_field_axioms disjoint_fields_axioms.intro,
    unfolded offset_defs, simplified]

lemmas control_same [hdr_simps] =
  pk_type.get_set [simplified] pk_type.set_ok pk_type.rest_set
  pk_trace.get_set [simplified] pk_trace.set_ok pk_trace.rest_set

lemmas trace_other [hdr_simps] =
  field_other [OF tr_ptr.header_field_axioms src.header_field_axioms disjoint_fields_axioms.intro,
    unfolded offset_defs, simplified]
  field_other' [OF tr_ptr.header_field_axioms src.header_field_axioms disjoint_fields_axioms.intro,
    unfolded offset_defs, simplified]
  field_other [OF tr_ptr.header_field_axioms seq.header_field_axioms disjoint_fields_axioms.intro,
    unfolded offset_defs, simplified]
  field_other' [OF tr_ptr.header_field_axioms seq.header_field_axioms disjoint_fields_axioms.intro,
    unfolded offset_defs, simplified]
  field_other [OF tr_ptr.header_field_axioms uc_dest.header_field_axioms disjoint_fields_axioms.intro,
    unfolded offset_defs, simplified]
  field_other' [OF tr_ptr.header_field_axioms uc_dest.header_field_axioms disjoint_fields_axioms.intro,
    unfolded offset_defs, simplified]
  field_other [OF tr_ptr.header_field_axioms uc_next.header_field_axioms disjoint_fields_axioms.intro,
    unfolded offset_defs, simplified]
  field_other' [OF tr_ptr.header_field_axioms uc_next.header_field_axioms disjoint_fields_axioms.intro,
    unfolded offset_defs, simplified]
  field_other [OF tr_ptr.header_field_axioms uc_ttl.header_field_axioms disjoint_fields_axioms.intro,
    unfolded offset_defs, simplified]
  field_other' [OF tr_ptr.header_field_axioms uc_ttl.header_field_axioms disjoint_fields_axioms.intro,
    unfolded offset_defs, simplified]
  field_other [OF tr_ptr.header_field_axioms uc_type.header_field_axioms disjoint_fields_axioms.intro,
    unfolded offset_defs, simplified]
  field_other' [OF tr_ptr.header_field_axioms uc_type.header_field_axioms disjoint_fields_axioms.intro,
    unfolded offset_defs, simplified]

section \<open>Reference counting\<close>

text \<open>A packet that is released a number of times.\<close>

fun unref_times :: "nat \<Rightarrow> BasePacket \<Rightarrow> unref_result" where
  "unref_times 0 p = StillReferenced p"
| "unref_times (Suc n) p =
     (case unref_times n p of
        StillReferenced q \<Rightarrow> pkt_unref q
      | r \<Rightarrow> UnrefAssertFails)"

lemma unref_times_less:
  "int n < refcount p \<Longrightarrow> unref_times n p = StillReferenced (p\<lparr>refcount := refcount p - int n\<rparr>)"
  by (induction n) (auto simp: pkt_unref_def Let_def algebra_simps)

lemma refcount_refs: "(pkt_ref ^^ k) p = p\<lparr>refcount := refcount p + int k\<rparr>"
  by (induction k) (auto simp: pkt_ref_def)

section \<open>Properties\<close>

text \<open>The header of a unicast packet, written field by field as \<open>AwdsRouting\<close> does.\<close>

definition write_unicast ::
  "NodeId \<Rightarrow> u16 \<Rightarrow> NodeId \<Rightarrow> NodeId \<Rightarrow> int \<Rightarrow> int \<Rightarrow> BasePacket \<Rightarrow> BasePacket" where
  "write_unicast src seq dst nxt ttl ty p =
     setUcPacketType ty (Uc_setTTL ttl (setNextHop nxt (setUcDest dst (setSeq seq
       (setSrc src (UnicastPacket p))))))"

text \<open>
  A unicast header keeps its fields apart.  After the type, source, sequence
  number, destination, next hop, time to live and payload type have been written, every one
  of them is read back, the trace flag is as it was, and neither the payload nor the size of
  the packet has changed.
\<close>

theorem unicast_header_roundtrip:
  assumes "pkt_ok p" "NodeId_ok src" "NodeId_ok dst" "NodeId_ok nxt" "ubyte_ok ttl" "ubyte_ok ty"
    and "q = write_unicast src seq dst nxt ttl ty p"
  shows "getType q = PacketTypeUnicast \<and> getSrc q = src \<and> getSeq q = seq \<and> getUcDest q = dst \<and>
    getNextHop q = nxt \<and> Uc_getTTL q = ttl \<and> getUcPacketType q = ty \<and>
    getTraceFlag q = getTraceFlag p \<and> psize q = psize p \<and> pkt_ok q \<and>
    drop UnicastPacketEnd (buffer q) = drop UnicastPacketEnd (buffer p)"
proof -
  have "buffer q ! i = buffer p ! i" if "UnicastPacketEnd \<le> i" "i < MaxSize" for i
    using assms(1) that unfolding assms(7) write_unicast_def UnicastPacket_def
    by (simp add: uc_type.frame uc_ttl.frame uc_next.frame uc_dest.frame seq.frame src.frame
        pk_type.frame hdr_simps offset_defs)
  moreover have "pkt_ok q"
    using assms by (simp add: write_unicast_def UnicastPacket_def hdr_simps)
  ultimately have "drop UnicastPacketEnd (buffer q) = drop UnicastPacketEnd (buffer p)"
    using assms(1) by (auto simp: list_eq_iff_nth_eq pkt_ok_def)
  then show ?thesis
    using assms by (simp add: write_unicast_def UnicastPacket_def hdr_simps)
qed

theorem unicast_header_roundtrip_witness:
  "getNextHop (write_unicast (NodeId 1) 7 (NodeId 2) (NodeId 3) 255 0 new_BasePacket) = NodeId 3 \<and>
   Uc_getTTL (write_unicast (NodeId 1) 7 (NodeId 2) (NodeId 3) 255 0 new_BasePacket) = 255"
  using unicast_header_roundtrip [of new_BasePacket "NodeId 1" "NodeId 2" "NodeId 3" 255 0
      "write_unicast (NodeId 1) 7 (NodeId 2) (NodeId 3) 255 0 new_BasePacket" 7]
  by (simp add: pkt_ok_def new_BasePacket_def NodeId_ok_def ubyte_ok_def)

text \<open>The header of a flooded packet.\<close>

definition write_flood :: "NodeId \<Rightarrow> u16 \<Rightarrow> NodeId \<Rightarrow> int \<Rightarrow> int \<Rightarrow> BasePacket \<Rightarrow> BasePacket" where
  "write_flood src seq lh ttl ft p =
     setFloodType ft (Flood_setTTL ttl (setLastHop lh (setSeq seq (setSrc src (Flood p)))))"

text \<open>
  A flood header keeps its fields apart, in the same sense; the flood type is
  read as a signed byte.  Decrementing the time to live, which is done at every hop,
  changes that field only, modulo 256.
\<close>

theorem flood_header_roundtrip:
  assumes "pkt_ok p" "NodeId_ok src" "NodeId_ok lh" "ubyte_ok ttl" "sbyte_ok ft"
    and "q = write_flood src seq lh ttl ft p"
  shows "getType q = PacketTypeFlood \<and> getSrc q = src \<and> getSeq q = seq \<and> getLastHop q = lh \<and>
    Flood_getTTL q = ttl \<and> getFloodType q = ft \<and> getTraceFlag q = getTraceFlag p \<and>
    psize q = psize p \<and> pkt_ok q \<and> Flood_decrTTL q = Flood_setTTL ((ttl - 1) mod 256) q"
proof -
  have fields: "getType q = PacketTypeFlood \<and> getSrc q = src \<and> getSeq q = seq \<and> getLastHop q = lh \<and>
    Flood_getTTL q = ttl \<and> getFloodType q = ft \<and> getTraceFlag q = getTraceFlag p \<and>
    psize q = psize p \<and> pkt_ok q"
    using assms by (simp add: write_flood_def Flood_def hdr_simps)
  then have "buffer q ! Flood_OffsetTTL = word_of_int ttl"
    unfolding Flood_getTTL_def by (metis word_of_int_uint)
  moreover have "(word_of_int ((ttl - 1) mod 256) :: byte) = word_of_int (ttl - 1)"
    by (simp only: word_of_int_eq_iff) (simp add: take_bit_eq_mod)
  ultimately show ?thesis
    using fields by (simp add: Flood_decrTTL_def Flood_setTTL_def)
qed

theorem flood_header_roundtrip_witness:
  "Flood_getTTL (write_flood (NodeId 1) 7 (NodeId 2) 1 0 new_BasePacket) = 1 \<and>
   Flood_decrTTL (write_flood (NodeId 1) 7 (NodeId 2) 1 0 new_BasePacket) =
     Flood_setTTL 0 (write_flood (NodeId 1) 7 (NodeId 2) 1 0 new_BasePacket)"
  using flood_header_roundtrip [of new_BasePacket "NodeId 1" "NodeId 2" 1 0
      "write_flood (NodeId 1) 7 (NodeId 2) 1 0 new_BasePacket" 7]
  by (simp add: pkt_ok_def new_BasePacket_def NodeId_ok_def ubyte_ok_def sbyte_ok_def)

text \<open>
  Recording the route in a traced packet is memory safe.  Whatever trace pointer
  arrives from the network, \<open>appendNode\<close> never writes beyond the received bytes; when it
  reports success and the pointer lay behind the header, the station is found where the
  pointer was, the pointer has moved by one identifier, and every other header field and all
  earlier entries are unchanged; when it reports no room, nothing has changed.
\<close>

theorem appendNode_safe:
  assumes "pkt_ok p" "psize p \<le> MaxSize" "NodeId_ok i" "appendNode i p = (r, q)"
  shows "pkt_ok q \<and> psize q = psize p \<and> (r \<longleftrightarrow> getTracePointer p + 6 < psize p) \<and>
    (\<not> r \<longrightarrow> q = p) \<and>
    (r \<and> TraceUcPacketEnd \<le> getTracePointer p \<longrightarrow>
       getTracePointer q = getTracePointer p + 6 \<and>
       NodeId_fromArray (mem_read (buffer q) (getTracePointer p) 6) = i \<and>
       getSrc q = getSrc p \<and> getUcDest q = getUcDest p \<and> getNextHop q = getNextHop p \<and>
       mem_read (buffer q) TraceUcPacketEnd (getTracePointer p - TraceUcPacketEnd) =
         mem_read (buffer p) TraceUcPacketEnd (getTracePointer p - TraceUcPacketEnd))"
proof (cases "getTracePointer p + 6 \<ge> psize p")
  case True
  then show ?thesis using assms by (auto simp: appendNode_def Let_def)
next
  case False
  define p' where "p' = p\<lparr>buffer := mem_write (buffer p) (getTracePointer p) (NodeId_toArray i)\<rparr>"
  have q: "q = setTracePointer (getTracePointer p + 6) p'" "r"
    using False assms(4) by (auto simp: appendNode_def Let_def p'_def)
  have fit: "getTracePointer p + 6 \<le> length (buffer p)"
    using False assms(1,2) by (simp add: pkt_ok_def)
  then have ok: "pkt_ok p'" "psize p' = psize p"
    using assms(1) by (simp_all add: p'_def pkt_ok_def)
  have len: "length (buffer p) = 4096" "length (buffer p') = 4096"
    using assms(1) ok by (simp_all add: pkt_ok_def MaxSize_def)
  have q_p': "mem_read (buffer q) off n = mem_read (buffer p') off n"
    if "off + n \<le> 23 \<or> 25 \<le> off" for off n
    using that len by (auto simp: q(1) setTracePointer_def offset_defs length_toArray
        mem_read_write_after mem_read_write_before)
  have p'_p: "mem_read (buffer p') off n = mem_read (buffer p) off n"
    if "off + n \<le> getTracePointer p" for off n
    using fit that by (simp add: p'_def buf_simps)
  have behind: "NodeId_fromArray (mem_read (buffer q) (getTracePointer p) 6) = i \<and>
       getSrc q = getSrc p \<and> getUcDest q = getUcDest p \<and> getNextHop q = getNextHop p \<and>
       mem_read (buffer q) TraceUcPacketEnd (getTracePointer p - TraceUcPacketEnd) =
         mem_read (buffer p) TraceUcPacketEnd (getTracePointer p - TraceUcPacketEnd)"
    if "TraceUcPacketEnd \<le> getTracePointer p"
  proof -
    have "mem_read (buffer p') (getTracePointer p) 6 = NodeId_toArray i"
      using fit by (simp add: p'_def buf_simps)
    then show ?thesis
      using that assms(3)
      by (simp add: q_p' p'_p getSrc_def getUcDest_def getNextHop_def offset_defs)
  qed
  have "getTracePointer q = getTracePointer p + 6"
    using fit len ok by (simp add: q(1) tr_ptr.get_set)
  then show ?thesis
    using False q(2) ok behind unfolding q(1) by (simp add: hdr_simps)
qed

theorem appendNode_safe_witness:
  "let p = setTracePointer 25 (new_BasePacket\<lparr>psize := 100\<rparr>)
   in fst (appendNode (NodeId 5) p) \<and> getTracePointer (snd (appendNode (NodeId 5) p)) = 31"
proof -
  let ?p = "setTracePointer 25 (new_BasePacket\<lparr>psize := 100\<rparr>)"
  have ok: "pkt_ok (new_BasePacket\<lparr>psize := 100\<rparr>)"
    by (simp add: pkt_ok_def new_BasePacket_def)
  then have "pkt_ok ?p" "psize ?p = 100" "getTracePointer ?p = 25"
    by (simp_all add: hdr_simps)
  then show ?thesis
    using appendNode_safe [of ?p "NodeId 5" "fst (appendNode (NodeId 5) ?p)" "snd (appendNode (NodeId 5) ?p)"]
    by (simp add: MaxSize_def NodeId_ok_def offset_defs Let_def)
qed

text \<open>
  A packet that has been taken over \<open>k\<close> more times is deleted by exactly the
  \<open>k + 1\<close>-st release, with its send callback reporting size \<open>-1\<close>, never before; one release
  more runs into the assertion.
\<close>

theorem refcount_lifetime:
  assumes "refcount p = 1" "n \<le> k"
  shows "unref_times n ((pkt_ref ^^ k) p) = StillReferenced (p\<lparr>refcount := int (k + 1 - n)\<rparr>) \<and>
    unref_times (k + 1) ((pkt_ref ^^ k) p) = Deleted (map_option (\<lambda>cb. (cb, -1)) (send_cb p)) \<and>
    unref_times (k + 2) ((pkt_ref ^^ k) p) = UnrefAssertFails"
  using assms by (auto simp: refcount_refs unref_times_less pkt_unref_def of_nat_diff)

theorem refcount_lifetime_witness:
  "unref_times 1 ((pkt_ref ^^ 2) new_BasePacket) = StillReferenced (new_BasePacket\<lparr>refcount := 2\<rparr>) \<and>
   unref_times 3 ((pkt_ref ^^ 2) new_BasePacket) = Deleted None"
  using refcount_lifetime [of new_BasePacket 1 2] by (simp add: new_BasePacket_def)

end
