(* ===== verification/Beacon.thy ===== *)
theory Beacon
  imports Packet "HOL-Library.Signed_Division" "HOL-Library.Multiset"
begin

text \<open>
  Beacon packets (\<open>src/src/awds/beacon.h\<close>, \<open>src/src/beacon.cc\<close>) and the description of a
  neighbor (\<open>src/src/awds/NodeDescr.h\<close>).  Points in time and durations are integers in one
  unit; the constructor \<open>gea::Duration(n, d)\<close> and the conversion to nanoseconds are
  arguments of the functions that use them.
\<close>

unbundle bit_operations_syntax

section \<open>Constants (settings.h)\<close>

definition BEACON_INTERVAL :: int where "BEACON_INTERVAL = 1400"
definition TOPO_INTERVAL :: int where "TOPO_INTERVAL = 1000"
definition NR_BEACON_TRIGGER_FAIL :: int where "NR_BEACON_TRIGGER_FAIL = 8"
definition QUEUE_LENGTH :: nat where "QUEUE_LENGTH = 10"

section \<open>The header of a beacon\<close>

definition OffsetPeriod :: nat where "OffsetPeriod = SrcPacketEnd"
definition OffsetNumNoMpr :: nat where "OffsetNumNoMpr = OffsetPeriod + 2"
definition OffsetNumMpr :: nat where "OffsetNumMpr = OffsetNumNoMpr + 1"
definition OffsetLNeigh :: nat where "OffsetLNeigh = OffsetNumMpr + 1"

lemmas beacon_offsets = OffsetPeriod_def OffsetNumNoMpr_def OffsetNumMpr_def OffsetLNeigh_def offset_defs

definition Beacon :: "BasePacket \<Rightarrow> BasePacket" where
  "Beacon p = setType PacketTypeBeacon p"

definition getPeriod :: "(int \<Rightarrow> int \<Rightarrow> int) \<Rightarrow> BasePacket \<Rightarrow> int" where
  "getPeriod Duration p = Duration (uint (fromArray (mem_read (buffer p) OffsetPeriod 2) :: u16)) 1000"

definition setPeriod :: "(int \<Rightarrow> int) \<Rightarrow> int \<Rightarrow> BasePacket \<Rightarrow> BasePacket" where
  "setPeriod getNanoSecsLL d p =
     p\<lparr>buffer := mem_write (buffer p) OffsetPeriod
        (toArray (word_of_int (getNanoSecsLL d sdiv 1000000) :: u16))\<rparr>"

text \<open>The two counts are signed characters.\<close>

definition getNumNoMpr :: "BasePacket \<Rightarrow> int" where
  "getNumNoMpr p = sint (buffer p ! OffsetNumNoMpr)"

definition setNumNoMpr :: "int \<Rightarrow> BasePacket \<Rightarrow> BasePacket" where
  "setNumNoMpr n p = p\<lparr>buffer := (buffer p)[OffsetNumNoMpr := word_of_int n]\<rparr>"

definition getNumMpr :: "BasePacket \<Rightarrow> int" where
  "getNumMpr p = sint (buffer p ! OffsetNumMpr)"

definition setNumMpr :: "int \<Rightarrow> BasePacket \<Rightarrow> BasePacket" where
  "setNumMpr n p = p\<lparr>buffer := (buffer p)[OffsetNumMpr := word_of_int n]\<rparr>"

interpretation bc_nompr: header_field getNumNoMpr setNumNoMpr OffsetNumNoMpr 1 sbyte_ok
  using byte_field [of OffsetNumNoMpr sbyte_ok sint word_of_int]
  by (simp add: getNumNoMpr_def [abs_def] setNumNoMpr_def [abs_def] beacon_offsets MaxSize_def sbyte_dec_enc)

interpretation bc_mpr: header_field getNumMpr setNumMpr OffsetNumMpr 1 sbyte_ok
  using byte_field [of OffsetNumMpr sbyte_ok sint word_of_int]
  by (simp add: getNumMpr_def [abs_def] setNumMpr_def [abs_def] beacon_offsets MaxSize_def sbyte_dec_enc)

section \<open>The neighbors listed in a beacon\<close>

text \<open>
  The entry \<open>m\<close> of the list; \<open>None\<close> is a read outside the buffer of the packet.
\<close>

definition neigh_entry :: "BasePacket \<Rightarrow> int \<Rightarrow> NodeId option" where
  "neigh_entry p m =
     (let off = int OffsetLNeigh + m * 6 in
      if off < 0 \<or> off + 6 > int MaxSize then None
      else Some (NodeId_fromArray (mem_read (buffer p) (nat off) 6)))"

text \<open>
  The binary search.  The outer option is \<open>None\<close> if the loop does not end, the inner one if
  it reads outside the buffer.
\<close>

partial_function (option) hasNeighBinsearch ::
  "BasePacket \<Rightarrow> int \<Rightarrow> int \<Rightarrow> NodeId \<Rightarrow> bool option option" where
  "hasNeighBinsearch p a b i =
     (if a = b then Some (Some False)
      else let m = (a + b) sdiv 2 in
        case neigh_entry p m of
          None \<Rightarrow> Some None
        | Some mId \<Rightarrow>
            if mId = i then Some (Some True)
            else if mId < i then hasNeighBinsearch p (m + 1) b i
            else hasNeighBinsearch p a m i)"

declare hasNeighBinsearch.simps [code]

definition hasMpr :: "BasePacket \<Rightarrow> NodeId \<Rightarrow> bool option option" where
  "hasMpr p i = hasNeighBinsearch p 0 (getNumMpr p) i"

definition hasNoMpr :: "BasePacket \<Rightarrow> NodeId \<Rightarrow> bool option option" where
  "hasNoMpr p i = hasNeighBinsearch p (getNumMpr p) (getNumMpr p + getNumNoMpr p) i"

definition Beacon_hasNeigh :: "BasePacket \<Rightarrow> NodeId \<Rightarrow> bool option option" where
  "Beacon_hasNeigh p i =
     (case hasMpr p i of Some (Some False) \<Rightarrow> hasNoMpr p i | r \<Rightarrow> r)"

section \<open>Descriptions of neighbors (NodeDescr.h)\<close>

text \<open>\<open>nd_lastBeacon\<close> is the last beacon itself; \<open>None\<close> is the null pointer.\<close>

record NodeDescr =
  nd_id :: NodeId
  nd_lastBeacon :: "BasePacket option"
  nd_lastBeaconTime :: int
  nd_beaconInterval :: int
  nd_linkValidity :: int
  nd_beaconHist :: u32
  nd_active :: bool
  nd_mpr :: bool

definition updateActive :: "NodeDescr \<Rightarrow> bool \<times> NodeDescr" where
  "updateActive n =
     (let n = n\<lparr>nd_linkValidity := nd_lastBeaconTime n + nd_beaconInterval n * NR_BEACON_TRIGGER_FAIL\<rparr>;
          last12received = nd_beaconHist n > 0xFFF00000
      in if \<not> nd_active n \<and> last12received then (True, n\<lparr>nd_active := True\<rparr>) else (False, n))"

definition updateInactive :: "int \<Rightarrow> NodeDescr \<Rightarrow> bool \<times> NodeDescr" where
  "updateInactive lastEventTime n =
     (let lastBeacon2old = nd_linkValidity n \<le> lastEventTime
      in if nd_active n \<and> lastBeacon2old then (True, n\<lparr>nd_active := False\<rparr>) else (False, n))"

definition isGood :: "NodeDescr \<Rightarrow> bool" where
  "isGood n = nd_active n"

definition isBidiGood :: "NodeId \<Rightarrow> NodeDescr \<Rightarrow> bool option option" where
  "isBidiGood myId n =
     (case nd_lastBeacon n of None \<Rightarrow> Some (Some False)
      | Some b \<Rightarrow>
          (case Beacon_hasNeigh (Beacon b) myId of
             Some (Some True) \<Rightarrow> Some (Some (isGood n))
           | r \<Rightarrow> r))"

definition isExpired :: "int \<Rightarrow> NodeDescr \<Rightarrow> bool" where
  "isExpired lastEventTime n \<longleftrightarrow>
     \<not> nd_active n \<and> nd_lastBeaconTime n + nd_beaconInterval n * 32 < lastEventTime"

definition NodeDescr_init :: "NodeId \<Rightarrow> BasePacket \<Rightarrow> int \<Rightarrow> NodeDescr \<Rightarrow> NodeDescr" where
  "NodeDescr_init i p t n = n\<lparr>nd_active := False, nd_mpr := True, nd_beaconHist := 0, nd_id := i,
     nd_lastBeacon := Some p, nd_lastBeaconTime := t\<rparr>"

text \<open>The loop that counts the bits of the history; the assertion asks for at least one.\<close>

lemma and_pred_less: "x \<noteq> (0 :: u32) \<Longrightarrow> unat (x AND (x - 1)) < unat x"
proof -
  assume "x \<noteq> 0"
  then have "unat (x - 1) < unat x"
    by (metis unat_minus_one unat_gt_0 diff_less less_numeral_extra(1))
  moreover have "unat (x AND (x - 1)) \<le> unat (x - 1)"
    by (simp add: word_and_le1 flip: word_le_nat_alt)
  ultimately show ?thesis by simp
qed

function quality_loop :: "u32 \<Rightarrow> byte \<Rightarrow> byte" where
  "quality_loop x n =
     (let n = n + 1; x' = x AND (x - 1)
      in if x' \<noteq> 0 then quality_loop x' n else n)"
  by pat_completeness auto
termination
  by (relation "measure (\<lambda>(x, _). unat x)") (auto intro!: and_pred_less)

declare quality_loop.simps [simp del]

definition quality :: "NodeDescr \<Rightarrow> byte option" where
  "quality n =
     (let c = (if nd_beaconHist n \<noteq> 0 then quality_loop (nd_beaconHist n) 0 else 0)
      in if c > 0 then Some c else None)"

section \<open>Writing the list of neighbors\<close>

text \<open>One of the two loops of \<open>setNeigh\<close>: the buffer, the write position and the count.\<close>

fun write_neigh ::
  "(NodeDescr \<Rightarrow> bool) \<Rightarrow> NodeDescr list \<Rightarrow> byte list \<times> nat \<times> int \<Rightarrow> byte list \<times> nat \<times> int" where
  "write_neigh sel [] st = st"
| "write_neigh sel (n # ns) (buf, addr, num) =
     write_neigh sel ns
       (if sel n then (mem_write buf addr (NodeId_toArray (nd_id n)), addr + 6, num + 1)
        else (buf, addr, num))"

definition Beacon_setNeigh :: "NodeDescr list \<Rightarrow> BasePacket \<Rightarrow> BasePacket" where
  "Beacon_setNeigh neighbors p =
     (let (buf, addr, numMpr) =
            write_neigh (\<lambda>n. isGood n \<and> nd_mpr n) neighbors (buffer p, OffsetLNeigh, 0);
          (buf, addr, numNoMpr) =
            write_neigh (\<lambda>n. isGood n \<and> \<not> nd_mpr n) neighbors (buf, addr, 0);
          p = setNumNoMpr numNoMpr (setNumMpr numMpr (p\<lparr>buffer := buf\<rparr>))
      in p\<lparr>psize := nat (int OffsetLNeigh + (numMpr + numNoMpr) * 6)\<rparr>)"

section \<open>The list of stations at a distance of two hops\<close>

text \<open>
  \<open>dyn\<close> is not initialised by the constructor that sets \<open>stat\<close>; it is written by
  \<open>stat2dyn\<close> before it is read.
\<close>

record Hop2RefCount =
  h2_stat :: u16
  h2_dyn :: u16

type_synonym Hop2List = "(NodeId, Hop2RefCount) omap"

definition num_listed :: "BasePacket \<Rightarrow> nat" where
  "num_listed p = nat (getNumNoMpr p + getNumMpr p)"

definition listed :: "BasePacket \<Rightarrow> nat \<Rightarrow> NodeId" where
  "listed p k = NodeId_fromArray (mem_read (buffer p) (OffsetLNeigh + 6 * k) 6)"

definition add2Hop_step :: "NodeId \<Rightarrow> Hop2List \<Rightarrow> Hop2List" where
  "add2Hop_step n2hop l =
     (case om_find n2hop l of
        None \<Rightarrow> om_insert n2hop \<lparr>h2_stat = 1, h2_dyn = 0\<rparr> l
      | Some c \<Rightarrow> om_adjust n2hop (\<lambda>c. c\<lparr>h2_stat := h2_stat c + 1\<rparr>) l)"

definition add2Hop :: "BasePacket \<Rightarrow> Hop2List \<Rightarrow> Hop2List" where
  "add2Hop p l = fold add2Hop_step (map (listed p) [0..<num_listed p]) l"

text \<open>\<open>None\<close>: the assertion that the station is in the list fails.\<close>

definition remove2Hop_step :: "NodeId \<Rightarrow> Hop2List option \<Rightarrow> Hop2List option" where
  "remove2Hop_step n2hop l =
     (case l of None \<Rightarrow> None
      | Some l \<Rightarrow>
          (case om_find n2hop l of
             None \<Rightarrow> None
           | Some c \<Rightarrow>
               if h2_stat c - 1 = 0 then Some (om_erase n2hop l)
               else Some (om_adjust n2hop (\<lambda>c. c\<lparr>h2_stat := h2_stat c - 1\<rparr>) l)))"

definition remove2Hop :: "BasePacket \<Rightarrow> Hop2List \<Rightarrow> Hop2List option" where
  "remove2Hop p l = fold remove2Hop_step (map (listed p) [0..<num_listed p]) (Some l)"

text \<open>The selection of multipoint relays is switched off in the source: every neighbor stays one.\<close>

definition tryRemoveFromMpr :: "BasePacket \<Rightarrow> Hop2List \<Rightarrow> bool" where
  "tryRemoveFromMpr p l = True"

section \<open>Counting bits\<close>

definition popcount :: "u32 \<Rightarrow> nat" where
  "popcount x = card {i. bit x i}"

lemma bits_subset: "{i. bit (x :: u32) i} \<subseteq> {..<32}"
proof
  fix i
  assume "i \<in> {i. bit x i}"
  then show "i \<in> {..<32}" using bit_imp_le_length [of x i] by simp
qed

lemma finite_bits: "finite {i. bit (x :: u32) i}"
  by (rule finite_subset [OF bits_subset]) simp

lemma popcount_and_pred:
  assumes "x \<noteq> (0 :: u32)"
  shows "popcount x = Suc (popcount (x AND (x - 1)))"
proof -
  define k where "k = (LEAST i. bit x i)"
  obtain i where "bit x i" using assms by (metis bit_eq_iff bit_0_eq bot_apply bot_bool_def)
  then have k: "bit x k" "\<And>j. j < k \<Longrightarrow> \<not> bit x j"
    unfolding k_def by (auto intro: LeastI dest: not_less_Least)
  have k32: "k < 32" using k(1) bit_imp_le_length by fastforce
  define y where "y = x XOR 2 ^ k"
  have y: "bit y j \<longleftrightarrow> (if j = k then False else bit x j)" for j
    using k(1) k32 by (auto simp: y_def bit_simps)
  have "x = y + 2 ^ k"
  proof -
    have "y + 2 ^ k = y OR 2 ^ k" using y by (intro disjunctive_add) (auto simp: bit_simps)
    also have "\<dots> = x" using k(1) k32 by (intro bit_eqI) (auto simp: bit_simps y)
    finally show ?thesis by simp
  qed
  then have "x - 1 = y + mask k" by (simp add: mask_eq_exp_minus_1)
  also have "\<dots> = y OR mask k"
    using y k(2) by (intro disjunctive_add) (auto simp: bit_simps)
  finally have pred: "x - 1 = y OR mask k" .
  have "bit (x AND (x - 1)) j = bit y j" for j
  proof -
    have "bit (x AND (x - 1)) j \<longleftrightarrow> bit x j \<and> (bit y j \<or> j < k)"
      unfolding pred bit_and_iff bit_or_iff bit_mask_iff using k32 by auto
    then show ?thesis using y [of j] k(2) [of j] by (cases "j < k"; cases "j = k") auto
  qed
  then have "x AND (x - 1) = y" by (intro bit_eqI)
  moreover have "{i. bit x i} = insert k {i. bit y i}" using y k(1) by auto
  moreover have "k \<notin> {i. bit y i}" using y by simp
  ultimately show ?thesis using finite_bits [of y] by (simp add: popcount_def)
qed

lemma popcount_0 [simp]: "popcount 0 = 0"
  by (simp add: popcount_def)

lemma popcount_le: "popcount x \<le> 32"
proof -
  have "card {i. bit x i} \<le> card {..<32 :: nat}"
    by (intro card_mono bits_subset) simp
  then show ?thesis by (simp add: popcount_def)
qed

lemma quality_loop_popcount: "x \<noteq> 0 \<Longrightarrow> quality_loop x n = n + of_nat (popcount x)"
proof (induction x n rule: quality_loop.induct)
  case (1 x n)
  then show ?case
    by (cases "x AND (x - 1) = 0")
      (simp_all add: quality_loop.simps [of x] popcount_and_pred [of x] Let_def)
qed

section \<open>Correctness of the search\<close>

lemma neigh_entry_listed:
  "m < 254 \<Longrightarrow> neigh_entry p (int m) = Some (listed p m)"
  by (auto simp: neigh_entry_def listed_def beacon_offsets MaxSize_def Let_def nat_add_distrib
      nat_mult_distrib algebra_simps)

definition listed_sorted :: "BasePacket \<Rightarrow> nat \<Rightarrow> nat \<Rightarrow> bool" where
  "listed_sorted p a b \<longleftrightarrow> (\<forall>j < b. \<forall>i < j. a \<le> i \<longrightarrow> listed p i < listed p j)"

lemma listed_sorted_upper:
  assumes "listed_sorted p a b" "a \<le> m" "m < b" "listed p m < i"
  shows "i \<in> listed p ` {a..<b} \<longleftrightarrow> i \<in> listed p ` {m + 1..<b}"
proof -
  have "listed p k < i" if "k \<in> {a..m}" for k
  proof -
    have "listed p k \<le> listed p m"
      using assms that by (cases "k = m") (auto simp: listed_sorted_def intro: less_imp_le)
    then show ?thesis using assms(4) by (rule le_less_trans)
  qed
  then have "i \<notin> listed p ` {a..m}" by fastforce
  moreover have "{a..<b} = {a..m} \<union> {m + 1..<b}" using assms by auto
  ultimately show ?thesis by (simp add: image_Un)
qed

lemma listed_sorted_lower:
  assumes "listed_sorted p a b" "a \<le> m" "m < b" "i < listed p m"
  shows "i \<in> listed p ` {a..<b} \<longleftrightarrow> i \<in> listed p ` {a..<m}"
proof -
  have "i < listed p k" if "k \<in> {m..<b}" for k
  proof -
    have "listed p m \<le> listed p k"
      using assms that by (cases "k = m") (auto simp: listed_sorted_def intro: less_imp_le)
    then show ?thesis using assms(4) by (rule less_le_trans [rotated])
  qed
  then have "i \<notin> listed p ` {m..<b}" by fastforce
  moreover have "{a..<b} = {a..<m} \<union> {m..<b}" using assms by auto
  ultimately show ?thesis by (simp add: image_Un)
qed

lemma listed_sorted_sub:
  "listed_sorted p a b \<Longrightarrow> a \<le> a' \<Longrightarrow> b' \<le> b \<Longrightarrow> listed_sorted p a' b'"
  by (auto simp: listed_sorted_def)

lemma binsearch_returns:
  assumes "a \<le> b" "b \<le> 254"
  shows "\<exists>r. hasNeighBinsearch p (int a) (int b) i = Some (Some r) \<and>
    (r \<longrightarrow> i \<in> listed p ` {a..<b}) \<and> (listed_sorted p a b \<longrightarrow> (r \<longleftrightarrow> i \<in> listed p ` {a..<b}))"
  using assms
proof (induction "b - a" arbitrary: a b rule: less_induct)
  case less
  show ?case
  proof (cases "a = b")
    case True
    then show ?thesis by (subst hasNeighBinsearch.simps) auto
  next
    case False
    define m where "m = (a + b) div 2"
    have m: "a \<le> m" "m < b" "(int a + int b) sdiv 2 = int m" "b - (m + 1) < b - a" "m + 1 \<le> b"
        "m - a < b - a" "m \<le> 254" "{m + 1..<b} \<subseteq> {a..<b}" "{a..<m} \<subseteq> {a..<b}"
      using False less.prems by (auto simp: m_def signed_divide_int_def zdiv_int sgn_if)
    have entry: "neigh_entry p (int m) = Some (listed p m)"
      using m less.prems by (intro neigh_entry_listed) auto
    have unfold: "hasNeighBinsearch p (int a) (int b) i =
        (if listed p m = i then Some (Some True)
         else if listed p m < i then hasNeighBinsearch p (int (m + 1)) (int b) i
         else hasNeighBinsearch p (int a) (int m) i)"
      using False m entry by (subst hasNeighBinsearch.simps) (simp add: Let_def add.commute)
    consider "listed p m = i" | "listed p m < i" | "\<not> listed p m = i" "\<not> listed p m < i" "i < listed p m"
      by (metis linorder_cases)
    then show ?thesis
    proof cases
      case 1
      then have "i \<in> listed p ` {a..<b}" using m by auto
      with 1 show ?thesis using unfold by (intro exI [of _ True]) simp
    next
      case 2
      from less.hyps [OF m(4,5) less.prems(2)] obtain r where
        "hasNeighBinsearch p (int (m + 1)) (int b) i = Some (Some r)"
        "r \<longrightarrow> i \<in> listed p ` {m + 1..<b}"
        "listed_sorted p (m + 1) b \<longrightarrow> (r \<longleftrightarrow> i \<in> listed p ` {m + 1..<b})" by blast
      then show ?thesis
        using 2 unfold m(8) listed_sorted_upper [OF _ m(1,2) 2] listed_sorted_sub [of p a b "m + 1" b] m(1)
        by (intro exI [of _ r]) auto
    next
      case 3
      from less.hyps [OF m(6) m(1) m(7)] obtain r where
        "hasNeighBinsearch p (int a) (int m) i = Some (Some r)"
        "r \<longrightarrow> i \<in> listed p ` {a..<m}"
        "listed_sorted p a m \<longrightarrow> (r \<longleftrightarrow> i \<in> listed p ` {a..<m})" by blast
      then show ?thesis
        using 3(1,2) unfold m(9) listed_sorted_lower [OF _ m(1,2) 3(3)] listed_sorted_sub [of p a b a m] m(2)
        by (intro exI [of _ r]) auto
    qed
  qed
qed

section \<open>What is written is what is found\<close>

definition id_bytes :: "NodeId list \<Rightarrow> byte list" where
  "id_bytes ids = concat (map NodeId_toArray ids)"

lemma length_id_bytes [simp]: "length (id_bytes ids) = 6 * length ids"
  by (induction ids) (simp_all add: id_bytes_def)

lemma id_bytes_simps [simp]: "id_bytes [] = []" "id_bytes (i # is) = NodeId_toArray i @ id_bytes is"
  by (simp_all add: id_bytes_def)

lemma id_bytes_append: "id_bytes (is @ js) = id_bytes is @ id_bytes js"
  by (simp add: id_bytes_def)

lemma read_id_bytes: "k < length ids \<Longrightarrow> mem_read (id_bytes ids) (6 * k) 6 = NodeId_toArray (ids ! k)"
proof (induction ids arbitrary: k)
  case (Cons i ids)
  then show ?case
    by (cases k) (simp_all add: id_bytes_def mem_read_def)
qed simp

lemma write_neigh_eq:
  "addr + 6 * length (filter sel ns) \<le> length buf \<Longrightarrow>
   write_neigh sel ns (buf, addr, num) =
     (mem_write buf addr (id_bytes (map nd_id (filter sel ns))),
      addr + 6 * length (filter sel ns), num + int (length (filter sel ns)))"
proof (induction ns arbitrary: buf addr num)
  case (Cons n ns)
  show ?case
  proof (cases "sel n")
    case True
    then have "addr + 6 + 6 * length (filter sel ns) \<le> length buf"
      using Cons.prems by simp
    then show ?thesis
      using True Cons.IH [of "addr + 6" "mem_write buf addr (NodeId_toArray (nd_id n))" "num + 1"]
        mem_write_append [of addr "NodeId_toArray (nd_id n)" "id_bytes (map nd_id (filter sel ns))" buf]
      by simp
  next
    case False
    then show ?thesis using Cons by simp
  qed
qed simp

definition mpr_ids :: "NodeDescr list \<Rightarrow> NodeId list" where
  "mpr_ids ns = map nd_id (filter (\<lambda>n. isGood n \<and> nd_mpr n) ns)"

definition nompr_ids :: "NodeDescr list \<Rightarrow> NodeId list" where
  "nompr_ids ns = map nd_id (filter (\<lambda>n. isGood n \<and> \<not> nd_mpr n) ns)"

lemma length_ids: "length (mpr_ids ns) \<le> length ns" "length (nompr_ids ns) \<le> length ns"
  by (simp_all add: mpr_ids_def nompr_ids_def)

lemma setNeigh_eq:
  assumes "pkt_ok p" "length ns \<le> 40"
  shows "Beacon_setNeigh ns p =
    (setNumNoMpr (int (length (nompr_ids ns))) (setNumMpr (int (length (mpr_ids ns)))
      (p\<lparr>buffer := mem_write (buffer p) OffsetLNeigh (id_bytes (mpr_ids ns @ nompr_ids ns))\<rparr>)))
    \<lparr>psize := OffsetLNeigh + 6 * length (mpr_ids ns @ nompr_ids ns)\<rparr>"
proof -
  let ?m = "mpr_ids ns" and ?n = "nompr_ids ns"
  have len: "length ?m \<le> 40" "length ?n \<le> 40"
    using assms(2) length_ids [of ns] by simp_all
  have buf: "length (buffer p) = 4096" using assms(1) by (simp add: pkt_ok_def MaxSize_def)
  have 1: "write_neigh (\<lambda>n. isGood n \<and> nd_mpr n) ns (buffer p, OffsetLNeigh, 0) =
      (mem_write (buffer p) OffsetLNeigh (id_bytes ?m), OffsetLNeigh + 6 * length ?m, int (length ?m))"
    using len buf by (subst write_neigh_eq) (simp_all add: mpr_ids_def beacon_offsets)
  let ?buf = "mem_write (buffer p) OffsetLNeigh (id_bytes ?m)"
  have 2: "write_neigh (\<lambda>n. isGood n \<and> \<not> nd_mpr n) ns (?buf, OffsetLNeigh + 6 * length ?m, 0) =
      (mem_write (buffer p) OffsetLNeigh (id_bytes (?m @ ?n)),
       OffsetLNeigh + 6 * length ?m + 6 * length ?n, int (length ?n))"
    using len buf mem_write_append [of OffsetLNeigh "id_bytes ?m" "id_bytes ?n" "buffer p"]
    by (subst write_neigh_eq) (simp_all add: nompr_ids_def beacon_offsets id_bytes_append)
  have "nat (int OffsetLNeigh + (int (length ?m) + int (length ?n)) * 6) =
      OffsetLNeigh + 6 * length (?m @ ?n)"
    by simp
  then show ?thesis
    unfolding Beacon_setNeigh_def 1 Let_def prod.case 2 by simp
qed

lemma listed_setNeigh:
  assumes "pkt_ok p" "length ns \<le> 40" "k < length (mpr_ids ns @ nompr_ids ns)"
    and "\<forall>n \<in> set ns. NodeId_ok (nd_id n)"
  shows "listed (Beacon_setNeigh ns p) k = (mpr_ids ns @ nompr_ids ns) ! k"
proof -
  let ?ids = "mpr_ids ns @ nompr_ids ns"
  have len: "length ?ids \<le> 80"
    using assms(2) length_ids [of ns] by simp
  let ?b = "mem_write (buffer p) OffsetLNeigh (id_bytes ?ids)"
  have buf: "OffsetLNeigh + length (id_bytes ?ids) \<le> length (buffer p)"
    using assms(1) len by (simp add: pkt_ok_def MaxSize_def beacon_offsets)
  have "mem_read (buffer (Beacon_setNeigh ns p)) (OffsetLNeigh + 6 * k) 6 =
      mem_read ?b (OffsetLNeigh + 6 * k) 6"
    unfolding setNeigh_eq [OF assms(1,2)]
    by (simp add: setNumNoMpr_def setNumMpr_def mem_read_update_out beacon_offsets)
  also have "\<dots> = NodeId_toArray (?ids ! k)"
    using buf assms(3) read_id_bytes [OF assms(3)] by (simp add: mem_read_write_inside)
  finally show ?thesis
    using assms(3,4) nth_mem [OF assms(3)] by (auto simp: listed_def mpr_ids_def nompr_ids_def)
qed

lemma setNeigh_fields:
  assumes "pkt_ok p" "length ns \<le> 40"
  shows "getNumMpr (Beacon_setNeigh ns p) = int (length (mpr_ids ns))"
    "getNumNoMpr (Beacon_setNeigh ns p) = int (length (nompr_ids ns))"
    "pkt_ok (Beacon_setNeigh ns p)"
    "psize (Beacon_setNeigh ns p) = OffsetLNeigh + 6 * length (mpr_ids ns @ nompr_ids ns)"
proof -
  let ?p = "p\<lparr>buffer := mem_write (buffer p) OffsetLNeigh (id_bytes (mpr_ids ns @ nompr_ids ns))\<rparr>"
  have len: "length (mpr_ids ns) \<le> 40" "length (nompr_ids ns) \<le> 40"
    using assms(2) length_ids [of ns] by simp_all
  then have ok: "pkt_ok ?p" using assms(1) by (simp add: pkt_ok_def MaxSize_def beacon_offsets)
  have sb: "sbyte_ok (int (length (mpr_ids ns)))" "sbyte_ok (int (length (nompr_ids ns)))"
    using len by (simp_all add: sbyte_ok_def)
  have psize: "getNumMpr (q\<lparr>psize := n\<rparr>) = getNumMpr q" "getNumNoMpr (q\<lparr>psize := n\<rparr>) = getNumNoMpr q"
    "pkt_ok (q\<lparr>psize := n\<rparr>) = pkt_ok q" for q n
    by (simp_all add: getNumMpr_def getNumNoMpr_def pkt_ok_def)
  have other: "getNumMpr (setNumNoMpr v q) = getNumMpr q" for v q
    by (simp add: getNumMpr_def setNumNoMpr_def beacon_offsets)
  show "getNumMpr (Beacon_setNeigh ns p) = int (length (mpr_ids ns))"
    "getNumNoMpr (Beacon_setNeigh ns p) = int (length (nompr_ids ns))"
    "pkt_ok (Beacon_setNeigh ns p)"
    "psize (Beacon_setNeigh ns p) = OffsetLNeigh + 6 * length (mpr_ids ns @ nompr_ids ns)"
    unfolding setNeigh_eq [OF assms]
    by (simp_all add: psize other bc_mpr.get_set bc_mpr.set_ok bc_nompr.get_set bc_nompr.set_ok ok sb)
qed

lemma sorted_wrt_filter_ids:
  "sorted_wrt (<) (map nd_id ns) \<Longrightarrow> sorted_wrt (<) (map nd_id (filter P ns))"
  by (induction ns) auto

text \<open>The part of the list from \<open>a\<close> to \<open>b\<close>, as identifiers.\<close>

lemma binsearch_ids:
  assumes "\<And>k. a \<le> k \<Longrightarrow> k < b \<Longrightarrow> listed p k = ids ! (k - a)" "b = a + length ids" "b \<le> 254"
    and "sorted_wrt (<) ids"
  shows "hasNeighBinsearch p (int a) (int b) i = Some (Some (i \<in> set ids))"
proof -
  have "listed_sorted p a b"
    using assms by (auto simp: listed_sorted_def sorted_wrt_iff_nth_less)
  moreover have "listed p ` {a..<b} = set ids"
  proof -
    have "listed p ` {a..<b} = (\<lambda>k. ids ! (k - a)) ` {a..<b}"
      using assms(1) by (intro image_cong) auto
    also have "\<dots> = (!) ids ` ((\<lambda>k. k - a) ` {a..<b})" by (simp add: image_image)
    also have "(\<lambda>k. k - a) ` {a..<b} = {0..<length ids}"
      using assms(2) by (auto simp: image_iff intro!: bexI [of _ "_ + a"])
    finally show ?thesis by (auto simp: set_conv_nth)
  qed
  ultimately show ?thesis
    using binsearch_returns [of a b p i] assms(2,3) by auto
qed

lemma setNeigh_search_in:
  assumes "pkt_ok p" "length ns \<le> 40" "sorted_wrt (<) (map nd_id ns)"
    and "\<forall>n \<in> set ns. NodeId_ok (nd_id n)"
    and q: "listed q = listed (Beacon_setNeigh ns p)" "getNumMpr q = getNumMpr (Beacon_setNeigh ns p)"
      "getNumNoMpr q = getNumNoMpr (Beacon_setNeigh ns p)"
  shows "hasMpr q i = Some (Some (i \<in> set (mpr_ids ns)))"
    "hasNoMpr q i = Some (Some (i \<in> set (nompr_ids ns)))"
proof -
  let ?m = "length (mpr_ids ns)" and ?n = "length (nompr_ids ns)"
  have len: "?m \<le> 40" "?n \<le> 40"
    using assms(2) length_ids [of ns] by simp_all
  have sorted: "sorted_wrt (<) (mpr_ids ns)" "sorted_wrt (<) (nompr_ids ns)"
    using assms(3) by (simp_all add: mpr_ids_def nompr_ids_def sorted_wrt_filter_ids)
  show "hasMpr q i = Some (Some (i \<in> set (mpr_ids ns)))"
    unfolding hasMpr_def q setNeigh_fields [OF assms(1,2)]
    using len listed_setNeigh [OF assms(1,2) _ assms(4)]
    by (subst binsearch_ids [of 0 ?m, simplified, OF _ _ _ sorted(1)]) (auto simp: nth_append q)
  have "hasNeighBinsearch q (int ?m) (int (?m + ?n)) i = Some (Some (i \<in> set (nompr_ids ns)))"
    using len listed_setNeigh [OF assms(1,2) _ assms(4)]
    by (intro binsearch_ids sorted(2)) (auto simp: nth_append q)
  then show "hasNoMpr q i = Some (Some (i \<in> set (nompr_ids ns)))"
    unfolding hasNoMpr_def q setNeigh_fields [OF assms(1,2)] by simp
qed

lemmas setNeigh_search = setNeigh_search_in [OF _ _ _ _ refl refl refl]

lemma hasNeigh_ids:
  assumes "hasMpr q i = Some (Some (i \<in> set (mpr_ids ns)))" "hasNoMpr q i = Some (Some (i \<in> set (nompr_ids ns)))"
  shows "Beacon_hasNeigh q i = Some (Some (\<exists>n \<in> set ns. nd_id n = i \<and> isGood n))"
proof -
  have "(\<exists>n \<in> set ns. nd_id n = i \<and> isGood n) \<longleftrightarrow> i \<in> set (mpr_ids ns) \<or> i \<in> set (nompr_ids ns)"
    by (auto simp: mpr_ids_def nompr_ids_def)
  then show ?thesis using assms by (cases "i \<in> set (mpr_ids ns)") (simp_all add: Beacon_hasNeigh_def)
qed

section \<open>Reference counts of the two-hop list\<close>

text \<open>The list represents a multiset of stations if its counts are those of the multiset.\<close>

definition h2_rep :: "Hop2List \<Rightarrow> NodeId multiset \<Rightarrow> bool" where
  "h2_rep l M \<longleftrightarrow> om_ok l \<and>
     (\<forall>i. map_option h2_stat (om_find i l) =
       (if i \<in># M then Some (of_nat (count M i)) else None))"

definition listed_mset :: "BasePacket \<Rightarrow> NodeId multiset" where
  "listed_mset p = mset (map (listed p) [0..<num_listed p])"

lemma add2Hop_step_rep:
  assumes "h2_rep l M"
  shows "h2_rep (add2Hop_step i l) (add_mset i M)"
proof -
  have ok: "om_ok l" and rep: "\<And>j. map_option h2_stat (om_find j l) =
      (if j \<in># M then Some (of_nat (count M j)) else None)"
    using assms by (auto simp: h2_rep_def)
  have "map_option h2_stat (om_find j (add2Hop_step i l)) =
      (if j \<in># add_mset i M then Some (of_nat (count (add_mset i M) j)) else None)" for j
    using ok rep [of i] rep [of j]
    by (cases "om_find i l") (auto simp: add2Hop_step_def om_find_insert om_find_adjust not_in_iff split: if_splits)
  moreover have "om_ok (add2Hop_step i l)"
    using ok by (auto simp: add2Hop_step_def om_insert_ok split: option.splits)
  ultimately show ?thesis by (simp add: h2_rep_def)
qed

lemma count_le_size: "count M i \<le> size M"
proof -
  have "replicate_mset (count M i) i \<subseteq># M"
    by (simp flip: count_le_replicate_mset_subset_eq)
  from size_mset_mono [OF this] show ?thesis by simp
qed

lemma remove2Hop_step_rep:
  assumes "h2_rep l M" "i \<in># M" "size M < 2 ^ 16"
  shows "\<exists>l'. remove2Hop_step i (Some l) = Some l' \<and> h2_rep l' (M - {#i#})"
proof -
  have ok: "om_ok l" and rep: "\<And>j. map_option h2_stat (om_find j l) =
      (if j \<in># M then Some (of_nat (count M j)) else None)"
    using assms by (auto simp: h2_rep_def)
  have small: "0 < count M i" "count M i < 2 ^ 16"
    using assms(2,3) count_le_size [of M i] by auto
  then obtain c where c: "om_find i l = Some c" "h2_stat c = of_nat (count M i)"
    using rep [of i] assms(2) by auto
  have gt: "count M i \<noteq> 1 \<Longrightarrow> 1 < count M i" using small(1) by linarith
  have pred: "h2_stat c - 1 = of_nat (count M i - 1)"
    using small by (simp add: c(2) of_nat_diff)
  have zero: "(of_nat (count M i - 1) :: u16) = 0 \<longleftrightarrow> count M i = 1"
  proof -
    have "unat (of_nat (count M i - 1) :: u16) = count M i - 1"
      using small by (simp only: unsigned_of_nat) (simp add: take_bit_nat_eq_self)
    moreover have "(w :: u16) = 0 \<longleftrightarrow> unat w = 0" for w by (simp add: unat_eq_0)
    ultimately show ?thesis using small by (metis One_nat_def Suc_pred diff_self_eq_0)
  qed
  let ?l = "if count M i = 1 then om_erase i l
    else om_adjust i (\<lambda>c. c\<lparr>h2_stat := h2_stat c - 1\<rparr>) l"
  have "map_option h2_stat (om_find j ?l) =
      (if j \<in># M - {#i#} then Some (of_nat (count (M - {#i#}) j)) else None)" for j
    using rep [of j] c(1) pred gt assms(2)
    by (cases "j = i"; cases "count M i = 1") (auto simp: om_find_erase om_find_adjust in_diff_count)
  moreover have "om_ok ?l" using ok by (simp add: om_erase_ok)
  moreover have "remove2Hop_step i (Some l) = Some ?l"
    using c(1) pred zero by (simp add: remove2Hop_step_def)
  ultimately show ?thesis by (auto simp: h2_rep_def)
qed

lemma add2Hop_fold_rep: "h2_rep l M \<Longrightarrow> h2_rep (fold add2Hop_step is l) (mset is + M)"
proof (induction "is" arbitrary: l M)
  case (Cons i "is")
  from Cons.IH [OF add2Hop_step_rep [OF Cons.prems, of i]] show ?case by simp
qed simp

lemma remove2Hop_fold_rep:
  "h2_rep l M \<Longrightarrow> mset is \<subseteq># M \<Longrightarrow> size M < 2 ^ 16 \<Longrightarrow>
   \<exists>l'. fold remove2Hop_step is (Some l) = Some l' \<and> h2_rep l' (M - mset is)"
proof (induction "is" arbitrary: l M)
  case (Cons i "is")
  have "i \<in># M" using Cons.prems(2) by (simp add: mset_subset_eq_insertD)
  with remove2Hop_step_rep [OF Cons.prems(1) this Cons.prems(3)] obtain l' where
    "remove2Hop_step i (Some l) = Some l'" "h2_rep l' (M - {#i#})" by blast
  moreover have "mset is \<subseteq># M - {#i#}"
    using Cons.prems(2) by (metis add_mset_remove_trivial mset.simps(2) subset_eq_diff_conv
        mset_subset_eq_add_mset_cancel insert_DiffM \<open>i \<in># M\<close>)
  moreover have "size (M - {#i#}) < 2 ^ 16"
    using Cons.prems(3) size_Diff_submset [of "{#i#}" M] \<open>i \<in># M\<close> by (simp add: size_Diff_singleton)
  ultimately show ?case
    using Cons.IH [of l' "M - {#i#}"] by (simp add: diff_diff_add_mset)
qed simp

section \<open>Properties\<close>

text \<open>
  Property C33: a station finds in a beacon exactly what the sender put there.  For every
  table of at most 40 neighbors that is sorted by identifier, the beacon that \<open>setNeigh\<close>
  writes stays inside its buffer, and the binary searches of the receiver end and report
  exactly the active relays, the other active neighbors, and all active neighbors.
\<close>

theorem beacon_neighbors_roundtrip:
  assumes "pkt_ok p" "length ns \<le> 40" "sorted_wrt (<) (map nd_id ns)"
    and "\<forall>n \<in> set ns. NodeId_ok (nd_id n)" "q = Beacon_setNeigh ns p"
  shows "pkt_ok q \<and> psize q \<le> MaxSize \<and>
    hasMpr q i = Some (Some (\<exists>n \<in> set ns. nd_id n = i \<and> isGood n \<and> nd_mpr n)) \<and>
    hasNoMpr q i = Some (Some (\<exists>n \<in> set ns. nd_id n = i \<and> isGood n \<and> \<not> nd_mpr n)) \<and>
    Beacon_hasNeigh q i = Some (Some (\<exists>n \<in> set ns. nd_id n = i \<and> isGood n))"
proof -
  have "OffsetLNeigh + 6 * length (mpr_ids ns @ nompr_ids ns) \<le> MaxSize"
    using assms(2) length_ids [of ns] by (simp add: beacon_offsets MaxSize_def)
  moreover have "(i \<in> set (mpr_ids ns)) = (\<exists>n \<in> set ns. nd_id n = i \<and> isGood n \<and> nd_mpr n)"
    "(i \<in> set (nompr_ids ns)) = (\<exists>n \<in> set ns. nd_id n = i \<and> isGood n \<and> \<not> nd_mpr n)"
    by (auto simp: mpr_ids_def nompr_ids_def)
  ultimately show ?thesis
    using setNeigh_search [OF assms(1-4), of i] setNeigh_fields [OF assms(1,2)] assms(5)
      hasNeigh_ids [OF setNeigh_search [OF assms(1-4), of i]] by simp
qed

text \<open>
  The bit loop of \<open>quality\<close> counts the beacons received among the last 32.  It
  returns a number between 1 and 32, and its assertion fails exactly for an empty history.
\<close>

theorem quality_popcount:
  "quality n = (if nd_beaconHist n = 0 then None else Some (of_nat (popcount (nd_beaconHist n)))) \<and>
   popcount (nd_beaconHist n) \<le> 32 \<and> (nd_beaconHist n \<noteq> 0 \<longleftrightarrow> popcount (nd_beaconHist n) > 0)"
proof -
  have pos: "0 < popcount x" if "x \<noteq> 0" for x
    using popcount_and_pred [OF that] by simp
  moreover have "(of_nat (popcount x) :: byte) > 0" if "x \<noteq> 0" for x
    using pos [OF that] popcount_le [of x]
    by (simp add: word_greater_zero_iff word_unat_eq_iff unsigned_of_nat take_bit_nat_eq_self)
  ultimately show ?thesis
    using popcount_le by (auto simp: quality_def quality_loop_popcount)
qed

text \<open>
  The two-hop list counts in how many beacons a station is listed.  If the list
  represents a multiset of stations, adding a beacon adds its stations; removing a beacon
  whose stations are all in the multiset never fails the assertion and takes them out again,
  as long as fewer than 65536 entries are counted.
\<close>

theorem hop2list_counts:
  assumes "h2_rep l M" "listed_mset p \<subseteq># M" "size M < 2 ^ 16"
  shows "h2_rep (add2Hop q l) (listed_mset q + M) \<and>
    (\<exists>l'. remove2Hop p l = Some l' \<and> h2_rep l' (M - listed_mset p))"
  using assms add2Hop_fold_rep [OF assms(1)] remove2Hop_fold_rep [OF assms(1)]
  unfolding add2Hop_def remove2Hop_def listed_mset_def by blast

text \<open>
  A beacon with a count byte of 255 hangs the receiver.  The count is read as
  the signed value -1, the bounds of the binary search then miss each other, and the search
  for a station behind the first entry never ends.
\<close>

theorem hasMpr_negative_count_diverges:
  assumes "getNumMpr p = -1" "listed p 0 < i"
  shows "hasMpr p i = None"
proof -
  have entry: "neigh_entry p 0 = Some (listed p 0)"
    using neigh_entry_listed [of 0 p] by simp
  have div: "(0 + -1 :: int) sdiv 2 = 0" "(1 + -1 :: int) sdiv 2 = 0"
    by (simp_all add: signed_divide_int_def)
  have step: "hasNeighBinsearch p 0 (-1) i = hasNeighBinsearch p 1 (-1) i"
    by (subst hasNeighBinsearch.simps) (use entry assms(2) div in \<open>auto simp: Let_def\<close>)
  have "\<not> (a = 1 \<and> b = -1 \<and> p' = p \<and> i' = i)"
    if "hasNeighBinsearch p' a b i' = Some r" for p' a b i' r
    using that
  proof (rule hasNeighBinsearch.raw_induct [rotated, of _ _ _ _ _
        "\<lambda>p' a b i' r. \<not> (a = 1 \<and> b = -1 \<and> p' = p \<and> i' = i)"], goal_cases)
    case (1 f p' a b i' r)
    have "listed p 0 \<noteq> i" using assms(2) by auto
    with 1 show ?case
      using entry assms(2) div 1(1) [of p 1 "-1" i r] by (auto simp: Let_def split: if_splits)
  qed
  then have "hasNeighBinsearch p 1 (-1) i = None" by (metis option.exhaust)
  then show ?thesis by (simp add: hasMpr_def assms(1) step)
qed

text \<open>An active neighbor and a packet with one listed station, for examples.\<close>

definition example_descr :: "NodeId \<Rightarrow> NodeDescr" where
  "example_descr i = \<lparr>nd_id = i, nd_lastBeacon = None, nd_lastBeaconTime = 0, nd_beaconInterval = 1,
     nd_linkValidity = 8, nd_beaconHist = 0xFFFFFFFF, nd_active = True, nd_mpr = True\<rparr>"

lemma example_pkt_ok: "pkt_ok new_BasePacket"
  by (simp add: pkt_ok_def new_BasePacket_def)

theorem beacon_neighbors_roundtrip_witness:
  "Beacon_hasNeigh (Beacon_setNeigh [example_descr (NodeId 4), example_descr (NodeId 9)] new_BasePacket)
     (NodeId 9) = Some (Some True)"
  using beacon_neighbors_roundtrip [OF example_pkt_ok, of "[example_descr (NodeId 4), example_descr (NodeId 9)]"
      "Beacon_setNeigh [example_descr (NodeId 4), example_descr (NodeId 9)] new_BasePacket" "NodeId 9"]
  by (simp add: example_descr_def NodeId_ok_def isGood_def NodeId_less_d)

theorem hop2list_counts_witness:
  "\<exists>l'. remove2Hop new_BasePacket [] = Some l' \<and> h2_rep l' {#}"
proof -
  have "getNumNoMpr new_BasePacket = 0" "getNumMpr new_BasePacket = 0"
    by (simp_all add: getNumNoMpr_def getNumMpr_def new_BasePacket_def MaxSize_def beacon_offsets)
  then have "listed_mset new_BasePacket = {#}"
    by (simp add: listed_mset_def num_listed_def)
  then show ?thesis
    using hop2list_counts [of "[]" "{#}" new_BasePacket new_BasePacket]
    by (simp add: h2_rep_def om_find_def)
qed

theorem hasMpr_negative_count_diverges_witness:
  "hasMpr (setNumMpr (-1) new_BasePacket) (NodeId 1) = None"
proof (rule hasMpr_negative_count_diverges)
  show "getNumMpr (setNumMpr (-1) new_BasePacket) = -1"
    using bc_mpr.get_set [OF example_pkt_ok, of "-1"] by (simp add: sbyte_ok_def)
  have "mem_read (buffer (setNumMpr (-1) new_BasePacket)) 13 6 = replicate 6 0"
    by (simp add: setNumMpr_def new_BasePacket_def beacon_offsets MaxSize_def mem_read_update_out)
      (simp add: mem_read_def)
  then have "listed (setNumMpr (-1) new_BasePacket) 0 = NodeId 0"
    by (simp add: listed_def beacon_offsets NodeId_fromArray_def numeral_eq_Suc)
  then show "listed (setNumMpr (-1) new_BasePacket) 0 < NodeId 1"
    by (simp add: NodeId_less_d)
qed

end
