(* ===== verification/Topo_Base.thy ===== *)
theory Topo_Base
  imports Beacon
begin

text \<open>
  The data of the topology (\<open>src/src/awds/Topology.h\<close>, \<open>Metric.h\<close>) and its small
  operations: links with their counterpart pointers, node descriptions, the adjacency list,
  lookups, names and the notification of observers.

  A \<open>LinkQuality\<close> lives in the buffer of a vector.  Buffers have numbers; a pointer to a
  link is a buffer number and an index, and it can be followed only while a node of the
  adjacency list owns that buffer and its vector is long enough.  The types of the GEA library
  are parameters: points in time and durations are integers, and \<open>Duration(n, d)\<close> is the
  function \<open>te_duration\<close> of the environment.
\<close>

section \<open>Results\<close>

datatype topo_error = AssertFails | DanglingPointer | Uninitialised

section \<open>Links and nodes (Topology.h)\<close>

type_synonym link_quality_t = u16

definition max_quality :: link_quality_t where
  "max_quality = 0xFFFF"

type_synonym lq_ptr = "nat \<times> nat"

record LinkQuality =
  counterpart :: "lq_ptr option"
  neighbor :: NodeId
  lq_quality :: link_quality_t
  metric_weight :: u32

definition LinkQuality_default :: LinkQuality where
  "LinkQuality_default =
     \<lparr>counterpart = None, neighbor = NodeId_default, lq_quality = 0, metric_weight = 0\<rparr>"

definition LinkQuality_new :: "NodeId \<Rightarrow> link_quality_t \<Rightarrow> LinkQuality" where
  "LinkQuality_new n w = \<lparr>counterpart = None, neighbor = n, lq_quality = w, metric_weight = 0\<rparr>"

text \<open>
  The constructor of \<open>NDescr\<close> leaves the distance unset; \<open>calcRoutes\<close> writes it before it
  is read.  Names are C strings without their final zero.
\<close>

record NDescr =
  linklist :: "LinkQuality list"
  ll_buffer :: nat
  nextHop :: NodeId
  prevHop :: NodeId
  nodeValidity :: int
  edgeValidity :: int
  distance :: u64
  nd_index :: int
  nodeName :: "byte list"

definition NDescr_new :: "nat \<Rightarrow> NDescr" where
  "NDescr_new b = \<lparr>linklist = [], ll_buffer = b, nextHop = NodeId_default, prevHop = NodeId_default,
     nodeValidity = 0, edgeValidity = 0, distance = 0, nd_index = 0, nodeName = []\<rparr>"

definition update_nodeValidity :: "int \<Rightarrow> NDescr \<Rightarrow> NDescr" where
  "update_nodeValidity new_v d = (if nodeValidity d < new_v then d\<lparr>nodeValidity := new_v\<rparr> else d)"

type_synonym AdjList = "(NodeId, NDescr) omap"

fun enumerate_from :: "int \<Rightarrow> AdjList \<Rightarrow> AdjList" where
  "enumerate_from idx [] = []"
| "enumerate_from idx ((i, d) # a) = (i, d\<lparr>nd_index := idx\<rparr>) # enumerate_from (idx + 1) a"

definition enumerateNodes :: "AdjList \<Rightarrow> AdjList" where
  "enumerateNodes a = enumerate_from 0 a"

section \<open>Pointers to links\<close>

definition lq_get :: "AdjList \<Rightarrow> lq_ptr \<Rightarrow> LinkQuality option" where
  "lq_get a p =
     (case find (\<lambda>(_, d). ll_buffer d = fst p) a of
        None \<Rightarrow> None
      | Some (_, d) \<Rightarrow> if snd p < length (linklist d) then Some (linklist d ! snd p) else None)"

definition lq_update :: "lq_ptr \<Rightarrow> (LinkQuality \<Rightarrow> LinkQuality) \<Rightarrow> AdjList \<Rightarrow> AdjList" where
  "lq_update p f a =
     map (\<lambda>(i, d). (i, if ll_buffer d = fst p
        then d\<lparr>linklist := (linklist d)[snd p := f (linklist d ! snd p)]\<rparr> else d)) a"

text \<open>A write through a pointer, which faults if the link is gone.\<close>

definition lq_modify :: "lq_ptr \<Rightarrow> (LinkQuality \<Rightarrow> LinkQuality) \<Rightarrow> AdjList \<Rightarrow> topo_error + AdjList" where
  "lq_modify p f a = (if lq_get a p = None then Inl DanglingPointer else Inr (lq_update p f a))"

definition lq_read :: "lq_ptr \<Rightarrow> AdjList \<Rightarrow> topo_error + LinkQuality" where
  "lq_read p a = (case lq_get a p of None \<Rightarrow> Inl DanglingPointer | Some l \<Rightarrow> Inr l)"

definition remove_reference :: "lq_ptr \<Rightarrow> AdjList \<Rightarrow> topo_error + AdjList" where
  "remove_reference self a =
     rbind (lq_read self a) (\<lambda>l.
       case counterpart l of None \<Rightarrow> Inr a
       | Some c \<Rightarrow>
           rbind (lq_modify c (\<lambda>l. l\<lparr>counterpart := None\<rparr>) a)
             (lq_modify self (\<lambda>l. l\<lparr>counterpart := None\<rparr>)))"

definition set_counterpart :: "lq_ptr \<Rightarrow> lq_ptr option \<Rightarrow> AdjList \<Rightarrow> topo_error + AdjList" where
  "set_counterpart self lq a =
     rbind (case lq of None \<Rightarrow> Inr a | Some c \<Rightarrow> lq_modify c (\<lambda>l. l\<lparr>counterpart := Some self\<rparr>) a)
       (lq_modify self (\<lambda>l. l\<lparr>counterpart := lq\<rparr>))"

definition get_qualities ::
  "lq_ptr \<Rightarrow> AdjList \<Rightarrow> topo_error + (link_quality_t \<times> link_quality_t) option" where
  "get_qualities self a =
     rbind (lq_read self a) (\<lambda>l.
       case counterpart l of None \<Rightarrow> Inr None
       | Some c \<Rightarrow> rbind (lq_read c a) (\<lambda>l'. Inr (Some (lq_quality l, lq_quality l'))))"

definition set_metric_weight :: "lq_ptr \<Rightarrow> u32 \<Rightarrow> AdjList \<Rightarrow> topo_error + AdjList" where
  "set_metric_weight self mw a =
     rbind (lq_modify self (\<lambda>l. l\<lparr>metric_weight := mw\<rparr>) a) (\<lambda>a.
       rbind (lq_read self a) (\<lambda>l.
         case counterpart l of None \<Rightarrow> Inr a
         | Some c \<Rightarrow> lq_modify c (\<lambda>l. l\<lparr>metric_weight := mw\<rparr>) a))"

section \<open>The metric (Metric.h)\<close>

text \<open>The base class is the hop count; the subclasses override the two functions \<open>my_\<dots>\<close>.\<close>

definition Metric_my_get_quality :: "NodeDescr \<Rightarrow> link_quality_t" where
  "Metric_my_get_quality ndescr = 10"

definition Metric_my_calculate :: "link_quality_t \<Rightarrow> link_quality_t \<Rightarrow> u32" where
  "Metric_my_calculate forward backward = 1"

definition get_quality :: "(NodeDescr \<Rightarrow> link_quality_t) \<Rightarrow> NodeDescr \<Rightarrow> link_quality_t" where
  "get_quality my_get_quality ndescr = max (min (my_get_quality ndescr) max_quality) 1"

definition max_weight :: u32 where
  "max_weight = (- 1) div 1024"

definition calculate ::
  "(link_quality_t \<Rightarrow> link_quality_t \<Rightarrow> u32) \<Rightarrow> lq_ptr \<Rightarrow> AdjList \<Rightarrow> topo_error + AdjList" where
  "calculate my_calculate self a =
     rbind (get_qualities self a) (\<lambda>q.
       let mw = (case q of None \<Rightarrow> - 1 | Some (f, b) \<Rightarrow> my_calculate f b);
           mw = min mw max_weight
       in set_metric_weight self mw a)"

section \<open>Lookups\<close>

text \<open>\<open>std::lower_bound\<close> as the library implements it: halving of the length.\<close>

function lower_bound :: "('a \<Rightarrow> bool) \<Rightarrow> 'a list \<Rightarrow> nat \<Rightarrow> nat \<Rightarrow> nat" where
  "lower_bound below xs first len =
     (if len = 0 then first
      else let half = len div 2; mid = first + half
        in if below (xs ! mid) then lower_bound below xs (mid + 1) (len - half - 1)
           else lower_bound below xs first half)"
  by pat_completeness auto
termination
  by (relation "measure (\<lambda>(_, _, _, len). len)") auto

declare lower_bound.simps [simp del]

definition cmp_nodeid_quality :: "LinkQuality \<Rightarrow> NodeId \<Rightarrow> bool" where
  "cmp_nodeid_quality q i \<longleftrightarrow> neighbor q < i"

definition findLinkQuality :: "NodeId \<Rightarrow> NDescr \<Rightarrow> lq_ptr option" where
  "findLinkQuality i d =
     (let k = lower_bound (\<lambda>q. cmp_nodeid_quality q i) (linklist d) 0 (length (linklist d))
      in if k = length (linklist d) \<or> neighbor (linklist d ! k) \<noteq> i then None
         else Some (ll_buffer d, k))"

definition AdjList_find_link :: "NodeId \<Rightarrow> NodeId \<Rightarrow> AdjList \<Rightarrow> LinkQuality option" where
  "AdjList_find_link from to a =
     (case om_find from a of None \<Rightarrow> None
      | Some d \<Rightarrow> find (\<lambda>l. neighbor l = to) (linklist d))"

definition AdjList_has_link :: "NodeId \<Rightarrow> NodeId \<Rightarrow> AdjList \<Rightarrow> bool" where
  "AdjList_has_link from to a =
     (case om_find from a of None \<Rightarrow> False
      | Some d \<Rightarrow> (\<exists>l \<in> set (linklist d). neighbor l = to))"

end
