(* ===== verification/Metric_Etx.thy ===== *)
theory Metric_Etx
  imports Topo_Base
begin

text \<open>
  The ETX metric (\<open>src/src/EtxMetric.cc\<close>): a link announces how many of the last 32 beacons were
  lost, scaled to 16 bits, and the weight of a link is the expected number of transmissions, computed
  from the announcements of both ends.  The division by zero of the source is an error value.
\<close>

section \<open>The metric\<close>

datatype metric_error = MetricDivisionByZero | BeaconHistoryEmpty | FloatOutOfRange | MetricTimeRange

definition Etx_scale :: u32 where
  "Etx_scale = 2048"

definition Etx_my_get_quality :: "NodeDescr \<Rightarrow> metric_error + link_quality_t" where
  "Etx_my_get_quality ndescr =
     (case quality ndescr of
        None \<Rightarrow> Inl BeaconHistoryEmpty
      | Some c \<Rightarrow> let q = 32 - ucast c :: link_quality_t in Inr (q * (max_quality div 32)))"

definition Etx_my_calculate :: "link_quality_t \<Rightarrow> link_quality_t \<Rightarrow> metric_error + u32" where
  "Etx_my_calculate forward backward =
     (let forward = forward div (max_quality div 32);
          backward = backward div (max_quality div 32);
          d = (32 - ucast forward) * (32 - ucast backward) :: u32
      in if d = 0 then Inl MetricDivisionByZero else Inr ((1024 * Etx_scale) div d))"

section \<open>Facts\<close>

text \<open>The step of the announced values and the first value that stands for no beacon at all.\<close>

abbreviation etx_step :: nat where "etx_step \<equiv> 2047"
abbreviation etx_dead :: nat where "etx_dead \<equiv> 65504"

lemma max_quality_step: "max_quality div 32 = (2047 :: link_quality_t)"
  by (simp add: max_quality_def)

lemma unat_quality_div: "unat (f div (2047 :: link_quality_t)) = unat f div etx_step"
  by (simp add: unat_div)

lemma unat_quality_less: "unat (f :: link_quality_t) < 65536"
  using unsigned_less [of f] by simp

lemma quality_div_le: "unat (f :: link_quality_t) div etx_step \<le> 32"
  using unat_quality_less [of f] by simp

lemma quality_div_less_iff: "unat (f :: link_quality_t) div etx_step < 32 \<longleftrightarrow> unat f < etx_dead"
  by auto

lemma unat_loss: "unat (32 - ucast (f div (2047 :: link_quality_t)) :: u32) = 32 - unat f div etx_step"
proof -
  have u: "unat (ucast (f div (2047 :: link_quality_t)) :: u32) = unat f div etx_step"
    using quality_div_le [of f] by (simp add: unat_quality_div unsigned_ucast_eq take_bit_nat_eq_self)
  have "(ucast (f div (2047 :: link_quality_t)) :: u32) \<le> 32"
    unfolding word_le_nat_alt u using quality_div_le [of f] by simp
  then show ?thesis by (simp add: unat_sub u)
qed

lemma unat_losses:
  "unat ((32 - ucast (f div (2047 :: link_quality_t))) * (32 - ucast (b div (2047 :: link_quality_t))) :: u32) =
     (32 - unat f div etx_step) * (32 - unat b div etx_step)"
proof -
  have "(32 - unat f div etx_step) * (32 - unat b div etx_step) \<le> 32 * (32 :: nat)"
    by (intro mult_le_mono) simp_all
  then have "(32 - unat f div etx_step) * (32 - unat b div etx_step) < 2 ^ LENGTH(32)" by simp
  then show ?thesis
    by (simp add: unat_word_ariths unat_loss)
qed

text \<open>The function, on natural numbers.\<close>

lemma Etx_my_calculate_eq:
  "Etx_my_calculate f b =
     (let d = (32 - unat f div etx_step) * (32 - unat b div etx_step)
      in if d = 0 then Inl MetricDivisionByZero else Inr (of_nat (2 ^ 21 div d)))"
proof -
  let ?d = "(32 - ucast (f div 2047)) * (32 - ucast (b div 2047)) :: u32"
  have z: "?d = 0 \<longleftrightarrow> (32 - unat f div etx_step) * (32 - unat b div etx_step) = 0"
    unfolding unat_losses [symmetric] by (simp only: unat_eq_0)
  have "(1024 * Etx_scale) div ?d = of_nat (2 ^ 21 div unat ?d)"
    by (simp add: Etx_scale_def word_arith_nat_div [of "0x200000 :: u32"])
  then show ?thesis
    unfolding Etx_my_calculate_def max_quality_step Let_def z unat_losses by simp
qed

lemma etx_value_bounds:
  assumes "0 < c" "c \<le> 32 * 32"
  shows "2048 \<le> 2 ^ 21 div (c :: nat)" "2 ^ 21 div c \<le> (2 ^ 21 :: nat)"
proof -
  have "2 ^ 21 div (32 * 32) \<le> 2 ^ 21 div c"
    using assms by (intro div_le_mono2)
  then show "2048 \<le> 2 ^ 21 div (c :: nat)" by simp
qed (rule div_le_dividend)

section \<open>Properties\<close>

lemma unat_etx_quality:
  assumes "quality n = Some c"
  obtains q where "Etx_my_get_quality n = Inr q" "unat q = (32 - unat c) * etx_step" "0 < unat c" "unat c \<le> 32"
proof -
  have c: "0 < unat c" "unat c \<le> 32"
  proof -
    show "0 < unat c" using assms by (auto simp: quality_def Let_def word_less_nat_alt split: if_splits)
    have "nd_beaconHist n \<noteq> 0" "c = of_nat (popcount (nd_beaconHist n))"
      using assms by (auto simp: quality_def quality_loop_popcount Let_def split: if_splits)
    moreover have "popcount (nd_beaconHist n) \<le> 32" by (rule popcount_le)
    ultimately show "unat c \<le> 32" by (simp add: unsigned_of_nat take_bit_nat_eq_self)
  qed
  have u: "unat (ucast c :: link_quality_t) = unat c"
    using c by (simp add: unsigned_ucast_eq take_bit_nat_eq_self)
  then have "unat (32 - ucast c :: link_quality_t) = 32 - unat c"
    using c by (subst unat_sub) (simp_all add: word_le_nat_alt)
  moreover have "(32 - unat c) * etx_step < 2 ^ LENGTH(16)"
  proof -
    have "(32 - unat c) * etx_step \<le> 31 * etx_step" using c by (intro mult_le_mono) auto
    then show ?thesis by simp
  qed
  moreover define q :: link_quality_t where "q = 32 - ucast c"
  ultimately have "unat q = 32 - unat c" "unat q * etx_step < 2 ^ LENGTH(16)" by simp_all
  then have m: "unat (q * 2047) = (32 - unat c) * etx_step"
    by (simp add: unat_word_ariths)
  show thesis
    by (rule that [OF _ m c])
      (simp add: Etx_my_get_quality_def assms max_quality_step Let_def q_def)
qed


text \<open>What a station announces for a neighbor, after the clamping of the base class.\<close>

definition Etx_get_quality :: "NodeDescr \<Rightarrow> metric_error + link_quality_t" where
  "Etx_get_quality n = rbind (Etx_my_get_quality n) (\<lambda>q. Inr (get_quality (\<lambda>_. q) n))"

lemma Etx_get_quality_div:
  assumes "quality n = Some c"
  obtains q where "Etx_get_quality n = Inr q" "unat q div etx_step = 32 - unat c" "0 < unat c" "unat c \<le> 32"
proof -
  obtain q where q: "Etx_my_get_quality n = Inr q" "unat q = (32 - unat c) * etx_step" "0 < unat c" "unat c \<le> 32"
    by (rule unat_etx_quality [OF assms])
  have m: "min q max_quality = q"
    by (simp add: max_quality_def word_le_nat_alt min_def) (use unat_quality_less [of q] in simp)
  have "unat (max q 1) = max (unat q) 1"
    by (simp add: max_def word_le_nat_alt)
  then have "unat (max q 1) div etx_step = 32 - unat c"
    using q(2) by (cases "32 - unat c = 0") (simp_all add: max_def)
  then show thesis
    by (intro that [of "max q 1"] q(3,4)) (simp_all add: Etx_get_quality_def q(1) get_quality_def m)
qed

text \<open>
  The weight of a link is its expected transmission count.  If a station has received
  \<open>c\<close> of the last 32 beacons of a neighbor and the neighbor \<open>d\<close> of its own, then what
  they announce gives the link the weight \<open>2048 * (32 / c) * (32 / d)\<close>, rounded down, which lies between
  2048 for a perfect link and \<open>2 ^ 21\<close>, below the limit at which the base class cuts off.
\<close>

theorem etx_weight_is_transmission_count:
  assumes "quality n = Some c" "quality m = Some d"
  shows "\<exists>f b w. Etx_get_quality n = Inr f \<and> Etx_get_quality m = Inr b \<and> Etx_my_calculate f b = Inr w \<and>
    unat w = 2048 * 32 * 32 div (unat c * unat d) \<and> 2048 \<le> unat w \<and> unat w \<le> 2 ^ 21 \<and>
    min w ((- 1) div 1024) = w"
proof -
  obtain f where f: "Etx_get_quality n = Inr f" "unat f div etx_step = 32 - unat c" "0 < unat c" "unat c \<le> 32"
    by (rule Etx_get_quality_div [OF assms(1)])
  obtain b where b: "Etx_get_quality m = Inr b" "unat b div etx_step = 32 - unat d" "0 < unat d" "unat d \<le> 32"
    by (rule Etx_get_quality_div [OF assms(2)])
  have cd: "0 < unat c * unat d" "unat c * unat d \<le> 32 * 32"
    using f(3,4) b(3,4) by (simp, intro mult_le_mono)
  have w: "Etx_my_calculate f b = Inr (of_nat (2 ^ 21 div (unat c * unat d)))"
    using f(3,4) b(3,4) by (simp add: Etx_my_calculate_eq f(2) b(2) Let_def)
  note bounds = etx_value_bounds [OF cd]
  have u: "unat (of_nat (2 ^ 21 div (unat c * unat d)) :: u32) = 2 ^ 21 div (unat c * unat d)"
    unfolding unsigned_of_nat of_nat_id
    by (rule take_bit_nat_eq_self, rule le_less_trans [OF bounds(2)]) simp
  have "min (of_nat (2 ^ 21 div (unat c * unat d)) :: u32) ((- 1) div 1024) = of_nat (2 ^ 21 div (unat c * unat d))"
    using le_trans [OF bounds(2), of 4194303] u by (intro min_absorb1) (simp add: word_le_nat_alt unat_div)
  then show ?thesis
    using f(1) b(1) w u bounds by (intro exI conjI) simp_all
qed

text \<open>
  Announcements of 65504 and more make the metric divide by zero, and only
  these do.  No station that runs this metric sends them, but a topology packet may carry
  them: every other metric announces 65535 for a link it has not measured.
\<close>

theorem etx_divides_by_zero:
  "Etx_my_calculate f b = Inl MetricDivisionByZero \<longleftrightarrow> unat f \<ge> 65504 \<or> unat b \<ge> 65504"
  using quality_div_less_iff [of f] quality_div_less_iff [of b] quality_div_le [of f] quality_div_le [of b]
  by (auto simp: Etx_my_calculate_eq Let_def)

definition etx_neighbor :: "u32 \<Rightarrow> NodeDescr" where
  "etx_neighbor hist = \<lparr>nd_id = NodeId 1, nd_lastBeacon = None, nd_lastBeaconTime = 0, nd_beaconInterval = 0,
     nd_linkValidity = 0, nd_beaconHist = hist, nd_active = True, nd_mpr = True\<rparr>"

lemma example_quality: "quality (etx_neighbor 0xF0000000) = Some 4" "quality (etx_neighbor 0x3) = Some 2"
  by code_simp+

theorem etx_weight_is_transmission_count_witness:
  "\<exists>f b w. Etx_get_quality (etx_neighbor 0xF0000000) = Inr f \<and> Etx_get_quality (etx_neighbor 0x3) = Inr b \<and>
     Etx_my_calculate f b = Inr w \<and> unat w = 262144"
  using etx_weight_is_transmission_count [OF example_quality] by auto

end
