(* ===== verification/Topo_Routes.thy ===== *)
theory Topo_Routes
  imports Topo_Base
begin

text \<open>
  The computation of routes: \<open>calcRoutes\<close> (Dijkstra's algorithm with a vector that is sorted
  anew in every round) and \<open>calcNextHop\<close> of \<open>src/src/Topology.cc\<close>, and the proof that they
  find the shortest paths and the first hops on them.

  \<open>std::sort\<close> leaves the order of equal elements open; it is the parameter \<open>srt\<close>, with the
  promise of the language standard as the locale \<open>std_sort\<close>.
\<close>

section \<open>calcRoutes and calcNextHop\<close>

definition UINT_MAX :: u64 where
  "UINT_MAX = 0xFFFFFFFF"

text \<open>The distance of an element of the vector; the iterators point to nodes of the list.\<close>

definition dist_of :: "AdjList \<Rightarrow> NodeId \<Rightarrow> u64" where
  "dist_of a i = (case om_find i a of None \<Rightarrow> 0 | Some d \<Rightarrow> distance d)"

definition dist_comp :: "AdjList \<Rightarrow> NodeId \<Rightarrow> NodeId \<Rightarrow> bool" where
  "dist_comp a x y \<longleftrightarrow> dist_of a x > dist_of a y"

text \<open>The loop over the links of the nearest node.\<close>

fun relax :: "NodeId \<Rightarrow> LinkQuality list \<Rightarrow> AdjList \<Rightarrow> topo_error + AdjList" where
  "relax nearest [] a = Inr a"
| "relax nearest (l # ls) a =
     (if dist_of a nearest = UINT_MAX then Inr a
      else case om_find (neighbor l) a of
          None \<Rightarrow> relax nearest ls a
        | Some neigh \<Rightarrow>
            if metric_weight l = 0 then Inl AssertFails
            else let newDist = (ucast (dist_of a nearest + ucast (metric_weight l)) :: u32)
              in relax nearest ls
                   (if ucast newDist < distance neigh
                    then om_adjust (neighbor l) (\<lambda>d. d\<lparr>distance := ucast newDist, prevHop := nearest\<rparr>) a
                    else a))"

text \<open>
  The loop over the unfinished nodes.  The outer option is \<open>None\<close> if the loop does not end.
\<close>

partial_function (option) calc_loop ::
  "((NodeId \<Rightarrow> NodeId \<Rightarrow> bool) \<Rightarrow> NodeId list \<Rightarrow> NodeId list) \<Rightarrow> NodeId list \<Rightarrow> AdjList \<Rightarrow>
   (topo_error + AdjList) option" where
  "calc_loop srt todo a =
     (if todo = [] then Some (Inr a)
      else let todo = srt (dist_comp a) todo; nearest = List.last todo in
        if \<not> dist_of a nearest \<le> dist_of a (hd todo) then Some (Inl AssertFails)
        else case om_find nearest a of
            None \<Rightarrow> Some (Inl DanglingPointer)
          | Some ndescr \<Rightarrow>
              (case relax nearest (linklist ndescr) a of
                 Inl e \<Rightarrow> Some (Inl e)
               | Inr a \<Rightarrow> calc_loop srt (butlast todo) a))"

declare calc_loop.simps [code]

definition calc_init :: "NodeId \<Rightarrow> AdjList \<Rightarrow> AdjList" where
  "calc_init myNodeId a =
     map (\<lambda>(i, d). (i, if i = myNodeId
        then d\<lparr>nextHop := myNodeId, distance := 0, prevHop := myNodeId\<rparr>
        else d\<lparr>nextHop := myNodeId, distance := UINT_MAX\<rparr>)) a"

text \<open>
  The recursion along the previous hops, with the subscript operator of the map on nodes that
  exist; on a node that does not exist it would create one with an unset distance.
\<close>

partial_function (option) calcNextHop ::
  "NodeId \<Rightarrow> NodeId \<Rightarrow> AdjList \<Rightarrow> (topo_error + AdjList) option" where
  "calcNextHop myNodeId i a =
     (case om_find i a of None \<Rightarrow> Some (Inl Uninitialised)
      | Some d \<Rightarrow>
          if distance d = UINT_MAX
          then Some (Inr (om_adjust i (\<lambda>d. d\<lparr>nextHop := myNodeId\<rparr>) a))
          else if nextHop d \<noteq> myNodeId then Some (Inr a)
          else if prevHop d = myNodeId
          then Some (Inr (om_adjust i (\<lambda>d. d\<lparr>nextHop := i\<rparr>) a))
          else case om_find (prevHop d) a of None \<Rightarrow> Some (Inl Uninitialised)
            | Some d' \<Rightarrow>
                if distance d < distance d' then Some (Inl AssertFails)
                else Option.bind (calcNextHop myNodeId (prevHop d) a) (\<lambda>r.
                  case r of
                    Inl e \<Rightarrow> Some (Inl e)
                  | Inr a \<Rightarrow>
                      (case om_find (prevHop d) a of None \<Rightarrow> Some (Inl Uninitialised)
                       | Some d' \<Rightarrow> Some (Inr (om_adjust i (\<lambda>d. d\<lparr>nextHop := nextHop d'\<rparr>) a)))))"

declare calcNextHop.simps [code]

fun calcNextHops :: "NodeId \<Rightarrow> NodeId list \<Rightarrow> AdjList \<Rightarrow> (topo_error + AdjList) option" where
  "calcNextHops myNodeId [] a = Some (Inr a)"
| "calcNextHops myNodeId (i # is) a =
     (case calcNextHop myNodeId i a of
        None \<Rightarrow> None
      | Some (Inl e) \<Rightarrow> Some (Inl e)
      | Some (Inr a) \<Rightarrow> calcNextHops myNodeId is a)"

definition calcRoutes ::
  "((NodeId \<Rightarrow> NodeId \<Rightarrow> bool) \<Rightarrow> NodeId list \<Rightarrow> NodeId list) \<Rightarrow> NodeId \<Rightarrow> AdjList \<Rightarrow>
   (topo_error + AdjList) option" where
  "calcRoutes srt myNodeId a =
     (if om_find myNodeId a = None then Some (Inl AssertFails)
      else let a = calc_init myNodeId a in
        case calc_loop srt (map fst a) a of
          None \<Rightarrow> None
        | Some (Inl e) \<Rightarrow> Some (Inl e)
        | Some (Inr a) \<Rightarrow> calcNextHops myNodeId (map fst a) a)"

section \<open>The promise of std::sort\<close>

locale std_sort =
  fixes srt :: "('a \<Rightarrow> 'a \<Rightarrow> bool) \<Rightarrow> 'a list \<Rightarrow> 'a list"
  assumes permutes: "mset (srt c xs) = mset xs"
    and sorts: "(\<And>x y. c x y \<Longrightarrow> \<not> c y x) \<Longrightarrow> (\<And>x y z. \<not> c x y \<Longrightarrow> \<not> c y z \<Longrightarrow> \<not> c x z) \<Longrightarrow>
      sorted_wrt (\<lambda>x y. \<not> c y x) (srt c xs)"
begin

lemma srt_Nil_iff [simp]: "srt c xs = [] \<longleftrightarrow> xs = []"
  using permutes [of c xs] by (metis mset_zero_iff)

lemma set_srt: "set (srt c xs) = set xs"
  by (metis permutes set_mset_mset)

lemma length_srt: "length (srt c xs) = length xs"
  by (metis permutes size_mset)

text \<open>Sorted by a key in descending order, the last element has the smallest key.\<close>

lemma last_smallest:
  fixes key :: "'a \<Rightarrow> 'k::linorder"
  assumes "x \<in> set xs"
  shows "key (List.last (srt (\<lambda>x y. key x > key y) xs)) \<le> key x"
proof -
  let ?s = "srt (\<lambda>x y. key x > key y) xs"
  have sorted: "sorted_wrt (\<lambda>x y. key y \<le> key x) ?s"
    using sorts [of "\<lambda>x y. key x > key y" xs] by (auto simp: not_less)
  have "?s \<noteq> []" "x \<in> set ?s"
    using assms by (auto simp: set_srt)
  then obtain ys where ys: "?s = ys @ [List.last ?s]"
    by (metis append_butlast_last_id)
  then have "\<forall>y \<in> set ys. key (List.last ?s) \<le> key y"
    using sorted by (metis sorted_wrt_append list.set_intros(1))
  then show ?thesis
    using ys \<open>x \<in> set ?s\<close> by (metis Un_iff empty_iff empty_set order_refl set_ConsD set_append)
qed

end

text \<open>Insertion sort keeps that promise.\<close>

fun insert_by :: "('a \<Rightarrow> 'a \<Rightarrow> bool) \<Rightarrow> 'a \<Rightarrow> 'a list \<Rightarrow> 'a list" where
  "insert_by c x [] = [x]"
| "insert_by c x (y # ys) = (if c y x then y # insert_by c x ys else x # y # ys)"

definition sort_by :: "('a \<Rightarrow> 'a \<Rightarrow> bool) \<Rightarrow> 'a list \<Rightarrow> 'a list" where
  "sort_by c xs = foldr (insert_by c) xs []"

lemma mset_insert_by [simp]: "mset (insert_by c x xs) = add_mset x (mset xs)"
  by (induction c x xs rule: insert_by.induct) auto

lemma set_insert_by [simp]: "set (insert_by c x xs) = insert x (set xs)"
  by (metis mset_insert_by set_mset_add_mset_insert set_mset_mset)

lemma sorted_insert_by:
  assumes "\<And>x y. c x y \<Longrightarrow> \<not> c y x" "\<And>x y z. \<not> c x y \<Longrightarrow> \<not> c y z \<Longrightarrow> \<not> c x z"
    and "sorted_wrt (\<lambda>x y. \<not> c y x) xs"
  shows "sorted_wrt (\<lambda>x y. \<not> c y x) (insert_by c x xs)"
  using assms(3)
proof (induction xs)
  case (Cons y ys)
  show ?case
  proof (cases "c y x")
    case True
    then show ?thesis using Cons assms(1) [of y x] by simp
  next
    case False
    then have "\<forall>z \<in> set ys. \<not> c z x" using Cons.prems assms(2) [of _ y x] by auto
    then show ?thesis using Cons.prems False by simp
  qed
qed simp

interpretation sort_by: std_sort "sort_by :: ('a \<Rightarrow> 'a \<Rightarrow> bool) \<Rightarrow> 'a list \<Rightarrow> 'a list"
proof
  fix c :: "'a \<Rightarrow> 'a \<Rightarrow> bool" and xs :: "'a list"
  show "mset (sort_by c xs) = mset xs"
    by (induction xs) (simp_all add: sort_by_def)
  assume "\<And>x y. c x y \<Longrightarrow> \<not> c y x" "\<And>x y z. \<not> c x y \<Longrightarrow> \<not> c y z \<Longrightarrow> \<not> c x z"
  then have "sorted_wrt (\<lambda>x y. \<not> c y x) (insert_by c x ys)"
    if "sorted_wrt (\<lambda>x y. \<not> c y x) ys" for x ys
    using that by (rule sorted_insert_by)
  then show "sorted_wrt (\<lambda>x y. \<not> c y x) (sort_by c xs)"
    by (induction xs) (simp_all add: sort_by_def)
qed

section \<open>The graph\<close>

text \<open>
  What the algorithm does not change: the nodes and their links.  An edge leads to a node that
  exists; the loop skips the other links.
\<close>

type_synonym graph = "(NodeId, LinkQuality list) omap"

definition graph_of :: "AdjList \<Rightarrow> graph" where
  "graph_of a = map (\<lambda>(i, d). (i, linklist d)) a"

definition edge :: "graph \<Rightarrow> NodeId \<Rightarrow> NodeId \<Rightarrow> nat \<Rightarrow> bool" where
  "edge g u v w \<longleftrightarrow> (\<exists>ls l. om_find u g = Some ls \<and> l \<in> set ls \<and> neighbor l = v \<and>
     w = unat (metric_weight l) \<and> om_find v g \<noteq> None)"

inductive walk :: "graph \<Rightarrow> NodeId \<Rightarrow> NodeId \<Rightarrow> nat \<Rightarrow> bool" for g where
  walk_start: "om_find u g \<noteq> None \<Longrightarrow> walk g u u 0"
| walk_step: "walk g u v c \<Longrightarrow> edge g v x w \<Longrightarrow> walk g u x (c + w)"

text \<open>The length of the shortest walk, \<open>None\<close> if there is none.\<close>

definition shortest :: "graph \<Rightarrow> NodeId \<Rightarrow> NodeId \<Rightarrow> nat \<Rightarrow> bool" where
  "shortest g u v c \<longleftrightarrow> walk g u v c \<and> (\<forall>c'. walk g u v c' \<longrightarrow> c \<le> c')"

definition weights_ok :: "graph \<Rightarrow> bool" where
  "weights_ok g \<longleftrightarrow>
     (\<forall>(i, ls) \<in> set g. \<forall>l \<in> set ls. metric_weight l \<noteq> 0 \<and> metric_weight l \<le> max_weight)"

lemma om_find_graph_of [simp]: "om_find i (graph_of a) = map_option linklist (om_find i a)"
  by (induction a) (auto simp: om_find_def graph_of_def)

lemma graph_of_adjust:
  "(\<And>d. linklist (f d) = linklist d) \<Longrightarrow> graph_of (om_adjust i f a) = graph_of a"
  by (auto simp: graph_of_def om_adjust_def)

lemma keys_graph_of: "map fst (graph_of a) = map fst a"
  by (simp add: graph_of_def case_prod_beta)

lemma walk_refl_trans: "walk g v x c' \<Longrightarrow> walk g u v c \<Longrightarrow> walk g u x (c + c')"
  by (induction rule: walk.induct) (auto simp: add.assoc [symmetric] intro: walk.intros)

lemma edge_walk: "edge g u v w \<Longrightarrow> walk g u v w"
  using walk_step [of g u u 0 v w] walk_start [of u g] by (auto simp: edge_def)

lemma walk_node: "walk g u v c \<Longrightarrow> om_find u g \<noteq> None \<and> om_find v g \<noteq> None"
  by (induction rule: walk.induct) (auto simp: edge_def)

definition max_w :: nat where
  "max_w = 4194303"

lemma unat_max_weight: "unat max_weight = max_w"
  by (simp add: max_weight_def max_w_def)

lemma edge_weight:
  assumes "weights_ok g" "edge g u v w"
  shows "0 < w" "w \<le> max_w"
proof -
  from assms(2) obtain ls l where l: "om_find u g = Some ls" "l \<in> set ls" "w = unat (metric_weight l)"
    by (auto simp: edge_def)
  with assms(1) have "metric_weight l \<noteq> 0 \<and> metric_weight l \<le> max_weight"
    by (force simp: weights_ok_def dest: om_find_Some_mem)
  then show "0 < w" "w \<le> max_w"
    using l(3) by (auto simp: word_le_nat_alt unat_max_weight unat_gt_0)
qed

section \<open>The relaxation of the links of one node\<close>

definition dn :: "AdjList \<Rightarrow> NodeId \<Rightarrow> nat" where
  "dn a i = unat (dist_of a i)"

definition prev_of :: "AdjList \<Rightarrow> NodeId \<Rightarrow> NodeId" where
  "prev_of a i = (case om_find i a of None \<Rightarrow> i | Some d \<Rightarrow> prevHop d)"

definition hop_of :: "AdjList \<Rightarrow> NodeId \<Rightarrow> NodeId" where
  "hop_of a i = (case om_find i a of None \<Rightarrow> i | Some d \<Rightarrow> nextHop d)"

definition far :: nat where
  "far = 4294967295"

lemma UINT_MAX_far: "dist_of a i = UINT_MAX \<longleftrightarrow> dn a i = far"
  by (simp add: dn_def UINT_MAX_def far_def word_unat_eq_iff)

lemma unat_newDist:
  assumes "unat (x :: u64) + unat (w :: u32) < 2 ^ 32"
  shows "unat (ucast (ucast (x + ucast w) :: u32) :: u64) = unat x + unat w"
proof -
  have "unat (ucast w :: u64) = unat w"
    by (simp add: unsigned_ucast_eq take_bit_nat_eq_self order_less_trans [OF unsigned_less])
  then have "unat (x + ucast w) = unat x + unat w"
    using assms by (simp add: unat_word_ariths)
  then show ?thesis
    using assms by (simp add: unsigned_ucast_eq unsigned_take_bit_eq take_bit_nat_eq_self)
qed

text \<open>
  What one pass over the links does: no distance grows, every link is respected, and where a
  distance has changed it comes from the node itself along one of the links.
\<close>

definition relaxed :: "NodeId \<Rightarrow> LinkQuality list \<Rightarrow> AdjList \<Rightarrow> AdjList \<Rightarrow> bool" where
  "relaxed u ls a b \<longleftrightarrow> graph_of b = graph_of a \<and> (\<forall>v. hop_of b v = hop_of a v) \<and>
     (\<forall>v. dn b v \<le> dn a v) \<and>
     (\<forall>l \<in> set ls. om_find (neighbor l) a \<noteq> None \<longrightarrow>
        dn b (neighbor l) \<le> dn a u + unat (metric_weight l)) \<and>
     (\<forall>v. dn b v = dn a v \<and> prev_of b v = prev_of a v \<or>
        prev_of b v = u \<and> om_find v a \<noteq> None \<and>
        (\<exists>l \<in> set ls. neighbor l = v \<and> dn b v = dn a u + unat (metric_weight l)))"

lemma relaxedD:
  assumes "relaxed u ls a b"
  shows "graph_of b = graph_of a" "hop_of b v = hop_of a v" "dn b v \<le> dn a v"
    and "l \<in> set ls \<Longrightarrow> om_find (neighbor l) a \<noteq> None \<Longrightarrow>
       dn b (neighbor l) \<le> dn a u + unat (metric_weight l)"
    and "dn b v = dn a v \<and> prev_of b v = prev_of a v \<or>
       prev_of b v = u \<and> om_find v a \<noteq> None \<and>
       (\<exists>l \<in> set ls. neighbor l = v \<and> dn b v = dn a u + unat (metric_weight l))"
  using assms by (simp_all add: relaxed_def)

lemma find_None_graph: "graph_of b = graph_of a \<Longrightarrow> om_find v b = None \<longleftrightarrow> om_find v a = None"
  by (metis map_option_is_None om_find_graph_of)

lemma relaxed_trans:
  assumes "relaxed u [l] a b" "relaxed u ls b c" "dn b u = dn a u"
  shows "relaxed u (l # ls) a c"
proof -
  note ab = relaxedD [OF assms(1)] and bc = relaxedD [OF assms(2)]
  have same: "om_find v b = None \<longleftrightarrow> om_find v a = None" for v
    by (rule find_None_graph) (rule ab(1))
  have "dn c (neighbor k) \<le> dn a u + unat (metric_weight k)"
    if "k \<in> set (l # ls)" "om_find (neighbor k) a \<noteq> None" for k
  proof (cases "k = l")
    case True
    then show ?thesis using ab(4) [of l] bc(3) [of "neighbor l"] that(2) by (simp add: order_trans)
  next
    case False
    then show ?thesis using bc(4) [of k] that same assms(3) by simp
  qed
  moreover have "dn c v = dn a v \<and> prev_of c v = prev_of a v \<or>
      prev_of c v = u \<and> om_find v a \<noteq> None \<and>
      (\<exists>k \<in> set (l # ls). neighbor k = v \<and> dn c v = dn a u + unat (metric_weight k))" for v
    using ab(5) [of v] bc(5) [of v] same [of v] assms(3) by auto
  moreover have "dn c v \<le> dn a v" for v using ab(3) bc(3) order_trans by blast
  ultimately show ?thesis using ab(1,2) bc(1,2) by (simp add: relaxed_def)
qed

lemma relaxed_Nil: "relaxed u [] a a"
  by (simp add: relaxed_def)

lemma relax_one:
  assumes "om_find v a = Some d" "newDist < distance d" "v = neighbor l"
    and "unat newDist = dn a u + unat (metric_weight l)"
  shows "relaxed u [l] a (om_adjust v (\<lambda>d. d\<lparr>distance := newDist, prevHop := u\<rparr>) a)"
    (is "relaxed u [l] a ?b")
proof -
  have "dn ?b x = (if x = v then unat newDist else dn a x)"
    "prev_of ?b x = (if x = v then u else prev_of a x)" "hop_of ?b x = hop_of a x" for x
    using assms(1) by (auto simp: dn_def dist_of_def prev_of_def hop_of_def om_find_adjust
        split: option.splits)
  moreover have "unat newDist \<le> dn a v"
    using assms(1,2) by (simp add: dn_def dist_of_def word_less_nat_alt)
  ultimately show ?thesis
    using assms by (auto simp: relaxed_def graph_of_adjust)
qed

lemma relax_relaxed:
  assumes "dn a u + max_w < far" "\<forall>l \<in> set ls. metric_weight l \<noteq> 0 \<and> metric_weight l \<le> max_weight"
  shows "\<exists>b. relax u ls a = Inr b \<and> relaxed u ls a b"
  using assms
proof (induction ls arbitrary: a)
  case Nil
  then show ?case by (auto intro: relaxed_Nil)
next
  case (Cons l ls)
  have w: "0 < unat (metric_weight l)" "unat (metric_weight l) \<le> max_w"
    using Cons.prems(2) by (auto simp: word_le_nat_alt unat_max_weight unat_gt_0)
  have near: "dist_of a u \<noteq> UINT_MAX"
    using Cons.prems(1) by (simp add: UINT_MAX_far)
  define newDist where
    "newDist = (ucast (ucast (dist_of a u + ucast (metric_weight l)) :: u32) :: u64)"
  have nd: "unat newDist = dn a u + unat (metric_weight l)"
    unfolding newDist_def dn_def using Cons.prems(1) w
    by (intro unat_newDist) (simp add: dn_def far_def)
  obtain b where b: "relax u (l # ls) a = relax u ls b" "relaxed u [l] a b" "dn b u = dn a u"
  proof (cases "om_find (neighbor l) a")
    case None
    then show thesis
      using near that [of a] by (simp add: relaxed_def)
  next
    case (Some d)
    have nz: "metric_weight l \<noteq> 0" using Cons.prems(2) by simp
    show thesis
    proof (cases "newDist < distance d")
      case True
      have ne: "neighbor l \<noteq> u"
      proof
        assume "neighbor l = u"
        then have "dn a u = unat (distance d)" using Some by (simp add: dn_def dist_of_def)
        then show False using True nd w by (simp add: word_less_nat_alt)
      qed
      have "dn (om_adjust (neighbor l) f a) u = dn a u" for f
        using ne by (simp add: dn_def dist_of_def om_find_adjust)
      then show thesis
        using near nz Some True relax_one [OF Some True refl nd]
        by (intro that [of "om_adjust (neighbor l) (\<lambda>d. d\<lparr>distance := newDist, prevHop := u\<rparr>) a"])
          (simp_all add: newDist_def Let_def)
    next
      case False
      then have "unat newDist \<ge> dn a (neighbor l)"
        using Some by (simp add: dn_def dist_of_def word_less_nat_alt)
      then show thesis
        using near nz Some False nd by (intro that [of a]) (simp_all add: newDist_def Let_def relaxed_def)
    qed
  qed
  obtain c where c: "relax u ls b = Inr c" "relaxed u ls b c"
    using Cons.IH [of b] Cons.prems b(3) by auto
  show ?case using b c relaxed_trans by metis
qed

section \<open>The invariant of the loop\<close>

text \<open>
  A node is finished when it has left the vector.  The distance of a node other than the source
  comes from a finished node along a link; links of finished nodes are respected; finished
  nodes are not farther than unfinished ones; and every distance is bounded by the number of
  finished nodes, which keeps the 32-bit sums from wrapping.
\<close>

definition finished :: "AdjList \<Rightarrow> NodeId list \<Rightarrow> NodeId \<Rightarrow> bool" where
  "finished a todo v \<longleftrightarrow> om_find v a \<noteq> None \<and> v \<notin> set todo"

definition via_prev :: "AdjList \<Rightarrow> NodeId \<Rightarrow> bool" where
  "via_prev a v \<longleftrightarrow> dn a (prev_of a v) \<noteq> far \<and>
     (\<exists>w. edge (graph_of a) (prev_of a v) v w \<and> dn a v = dn a (prev_of a v) + w)"

definition dijkstra_inv :: "NodeId \<Rightarrow> NodeId list \<Rightarrow> AdjList \<Rightarrow> bool" where
  "dijkstra_inv s todo a \<longleftrightarrow>
     set todo \<subseteq> set (map fst a) \<and> distinct todo \<and> dn a s = 0 \<and> prev_of a s = s \<and>
     (\<forall>v. dn a v \<noteq> far \<longrightarrow> dn a v \<le> (length a - length todo) * max_w) \<and>
     (\<forall>v. om_find v a \<noteq> None \<longrightarrow> v \<noteq> s \<longrightarrow> dn a v \<noteq> far \<longrightarrow>
        finished a todo (prev_of a v) \<and> via_prev a v) \<and>
     (\<forall>u v w. finished a todo u \<longrightarrow> dn a u \<noteq> far \<longrightarrow> edge (graph_of a) u v w \<longrightarrow>
        dn a v < far \<and> dn a v \<le> dn a u + w) \<and>
     (\<forall>u v. finished a todo u \<longrightarrow> v \<in> set todo \<longrightarrow> dn a u \<le> dn a v) \<and>
     (\<forall>v. dn a v \<le> far)"

lemma dijkstra_invD:
  assumes "dijkstra_inv s todo a"
  shows "set todo \<subseteq> set (map fst a)" "distinct todo" "dn a s = 0" "prev_of a s = s"
    "dn a v \<noteq> far \<Longrightarrow> dn a v \<le> (length a - length todo) * max_w"
    "om_find v a \<noteq> None \<Longrightarrow> v \<noteq> s \<Longrightarrow> dn a v \<noteq> far \<Longrightarrow> finished a todo (prev_of a v) \<and> via_prev a v"
    "finished a todo u \<Longrightarrow> dn a u \<noteq> far \<Longrightarrow> edge (graph_of a) u v w \<Longrightarrow>
       dn a v < far \<and> dn a v \<le> dn a u + w"
    "finished a todo u \<Longrightarrow> v \<in> set todo \<Longrightarrow> dn a u \<le> dn a v"
    "dn a v \<le> far"
  using assms unfolding dijkstra_inv_def by blast+

lemma length_graph: "graph_of b = graph_of a \<Longrightarrow> length b = length a"
  by (metis graph_of_def length_map)

lemma keys_graph: "graph_of b = graph_of a \<Longrightarrow> map fst b = map fst a"
  by (metis keys_graph_of)

text \<open>A round that finds only unreachable nodes.\<close>

lemma dijkstra_step_far:
  assumes inv: "dijkstra_inv s todo a" and u: "u \<in> set todo" "\<forall>v \<in> set todo. dn a u \<le> dn a v"
    and todo': "set todo' = set todo - {u}" "distinct todo'" and far: "dn a u = far"
  shows "dijkstra_inv s todo' a"
proof -
  note D = dijkstra_invD [OF inv]
  have fin: "finished a todo' v \<longleftrightarrow> finished a todo v \<or> v = u" for v
    using u(1) D(1) todo'(1) by (auto simp: finished_def om_find_None)
  have len: "length todo' \<le> length todo"
    using todo' D(2) card_mono [of "set todo" "set todo'"] by (metis Diff_subset List.finite_set distinct_card)
  have "dn a v \<le> (length a - length todo') * max_w" if "dn a v \<noteq> far" for v
    using D(5) [OF that] len by (meson diff_le_mono2 mult_le_mono1 order_trans)
  moreover have "dn a x \<le> dn a v" if "finished a todo' x" "v \<in> set todo'" for x v
    using that fin D(8) u(2) todo'(1) by auto
  ultimately show ?thesis
    unfolding dijkstra_inv_def using D(1-4,6,7,9) todo' fin far by blast
qed

text \<open>A round that finishes a reachable node.\<close>

lemma dijkstra_step_near:
  assumes inv: "dijkstra_inv s todo a" and ok: "weights_ok (graph_of a)"
    and u: "u \<in> set todo" "\<forall>v \<in> set todo. dn a u \<le> dn a v" "om_find u a = Some d"
    and todo': "set todo' = set todo - {u}" "distinct todo'" "Suc (length todo') = length todo"
    and near: "dn a u \<noteq> far" "dn a u + max_w < far" and r: "relaxed u (linklist d) a b"
  shows "dijkstra_inv s todo' b"
proof -
  note D = dijkstra_invD [OF inv] and R = relaxedD [OF r]
  have g: "graph_of b = graph_of a" by (rule R(1))
  have none: "om_find v b = None \<longleftrightarrow> om_find v a = None" for v by (rule find_None_graph [OF g])
  have link: "edge (graph_of a) u (neighbor l) (unat (metric_weight l))"
    if "l \<in> set (linklist d)" "om_find (neighbor l) a \<noteq> None" for l
    using u(3) that by (auto simp: edge_def)
  have changed: "prev_of b v = u \<and> (\<exists>w. edge (graph_of a) u v w \<and> dn b v = dn a u + w \<and> 0 < w \<and> w \<le> max_w)
      \<and> dn b v < far" if "dn b v \<noteq> dn a v \<or> prev_of b v \<noteq> prev_of a v" for v
  proof -
    from R(5) [of v] that obtain l where l: "l \<in> set (linklist d)" "neighbor l = v"
      "dn b v = dn a u + unat (metric_weight l)" "prev_of b v = u" "om_find v a \<noteq> None" by auto
    with link [OF l(1)] edge_weight [OF ok] near(2) show ?thesis
      by (metis add_le_mono order_le_less_trans order_refl)
  qed
  have fin: "finished b todo' v \<longleftrightarrow> finished a todo v \<or> v = u" for v
    using u todo'(1) by (auto simp: finished_def none)
  have below: "dn a v \<le> dn a u" if "finished b todo' v" for v
    using that fin D(8) [OF _ u(1)] by auto
  have keep: "dn b v = dn a v" "prev_of b v = prev_of a v" if "finished b todo' v" for v
    using below [OF that] changed [of v] R(3) [of v] by (auto, fastforce+)
  have src: "dn b s = 0 \<and> prev_of b s = s"
    using D(3,4) R(3) [of s] changed [of s] by fastforce
  have "length todo \<le> length a"
    using D(1,2) card_mono [of "set (map fst a)" "set todo"] card_length [of "map fst a"]
    by (simp add: distinct_card)
  then have "length a - length todo' = Suc (length a - length todo)"
    using todo'(3) by simp
  then have bound: "dn b v \<le> (length b - length todo') * max_w" if "dn b v \<noteq> far" for v
    using that changed [of v] D(5) [of v] D(5) [OF near(1)] length_graph [OF g]
    by (cases "dn b v = dn a v") auto
  have via: "finished b todo' (prev_of b v) \<and> via_prev b v"
    if v: "om_find v b \<noteq> None" "v \<noteq> s" "dn b v \<noteq> far" for v
  proof (cases "dn b v = dn a v \<and> prev_of b v = prev_of a v")
    case True
    then have "finished b todo' (prev_of a v)" "via_prev a v" using v none fin D(6) [of v] by auto
    then show ?thesis using True keep(1) [of "prev_of a v"] g by (simp add: via_prev_def)
  next
    case False
    then show ?thesis using changed [of v] fin [of u] keep(1) [of u] near(1) g by (auto simp: via_prev_def)
  qed
  have links: "dn b v < far \<and> dn b v \<le> dn b x + w"
    if x: "finished b todo' x" "dn b x \<noteq> far" "edge (graph_of b) x v w" for x v w
  proof (cases "x = u")
    case True
    then obtain l where "l \<in> set (linklist d)" "neighbor l = v" "w = unat (metric_weight l)" "om_find v a \<noteq> None"
      using x(3) u(3) g by (auto simp: edge_def)
    then have "dn b v \<le> dn a u + w" "w \<le> max_w" using R(4) [of l] edge_weight [OF ok] x(3) g by auto
    then show ?thesis using True keep(1) [OF x(1)] near(2) by simp
  next
    case False
    then show ?thesis using D(7) [of x v w] x fin g keep(1) [OF x(1)] R(3) [of v] by fastforce
  qed
  have order: "dn b x \<le> dn b v" if "finished b todo' x" "v \<in> set todo'" for x v
    using keep(1) [OF that(1)] below [OF that(1)] changed [of v] u(2) that(2) todo'(1) by fastforce
  have "dn b v \<le> far" for v using D(9) [of v] R(3) [of v] by simp
  then show ?thesis
    unfolding dijkstra_inv_def using src bound via links order D(1) todo'(1,2) keys_graph [OF g] by fastforce
qed

lemma relax_far: "dist_of a u = UINT_MAX \<Longrightarrow> relax u ls a = Inr a"
  by (cases ls) simp_all

text \<open>
  One round: the sorted vector ends with a nearest node, the assertion holds, and the invariant
  is kept.  The bound of 1024 nodes is the one the divisor of the largest weight allows.
\<close>

lemma calc_loop_round:
  assumes "std_sort srt" "dijkstra_inv s todo a" "weights_ok (graph_of a)" "length a \<le> 1024" "todo \<noteq> []"
    and "todo' = srt (dist_comp a) todo"
  shows "\<exists>b. calc_loop srt todo a = calc_loop srt (butlast todo') b \<and>
    dijkstra_inv s (butlast todo') b \<and> graph_of b = graph_of a \<and> (\<forall>v. hop_of b v = hop_of a v) \<and>
    length (butlast todo') < length todo"
proof -
  note D = dijkstra_invD [OF assms(2)]
  define u where "u = List.last todo'"
  have set': "set todo' = set todo" "length todo' = length todo" "mset todo' = mset todo"
    unfolding assms(6) using std_sort.set_srt [OF assms(1)] std_sort.length_srt [OF assms(1)]
      std_sort.permutes [OF assms(1)] by auto
  have ne: "todo' \<noteq> []" using set'(2) assms(5) by auto
  then have split: "todo' = butlast todo' @ [u]" by (simp add: u_def)
  have "distinct todo'" using D(2) set'(3) by (metis mset_eq_imp_distinct_iff)
  then have but: "set (butlast todo') = set todo - {u}" "distinct (butlast todo')"
    using set'(1) split distinct_butlast by (metis Diff_insert_absorb Un_insert_right append_Nil2
        distinct_append disjoint_insert(1) list.simps(15) set_append empty_set, auto)
  have len: "Suc (length (butlast todo')) = length todo"
    using set'(2) split by (metis length_append_singleton)
  have u: "u \<in> set todo" using set'(1) split by (metis in_set_conv_decomp)
  have least: "dist_of a u \<le> dist_of a v" if "v \<in> set todo" for v
    using std_sort.last_smallest [OF assms(1) that, of "dist_of a"]
    by (simp add: u_def assms(6) dist_comp_def [abs_def])
  then have min: "\<forall>v \<in> set todo. dn a u \<le> dn a v" by (simp add: dn_def word_le_nat_alt)
  have front: "dist_of a u \<le> dist_of a (hd todo')" using least set'(1) ne by (metis hd_in_set)
  obtain d where d: "om_find u a = Some d"
    using u D(1) om_find_None [of u a] by (cases "om_find u a") auto
  have loop: "calc_loop srt todo a = calc_loop srt (butlast todo') b"
    if "relax u (linklist d) a = Inr b" for b
    using that assms(5) front d
    by (subst calc_loop.simps) (simp add: Let_def u_def flip: assms(6))
  show ?thesis
  proof (cases "dn a u = far")
    case True
    then show ?thesis
      using loop [OF relax_far] dijkstra_step_far [OF assms(2) u min but] len
      by (auto simp: UINT_MAX_far)
  next
    case False
    have "dn a u \<le> (length a - length todo) * max_w" by (rule D(5) [OF False])
    also have "\<dots> \<le> 1023 * max_w" using assms(4) len by (intro mult_le_mono1) simp
    finally have near: "dn a u + max_w < far" by (simp add: max_w_def far_def)
    have "\<forall>l \<in> set (linklist d). metric_weight l \<noteq> 0 \<and> metric_weight l \<le> max_weight"
      using assms(3) om_find_Some_mem [OF d] by (auto simp: weights_ok_def graph_of_def)
    with relax_relaxed [OF near] obtain b where b: "relax u (linklist d) a = Inr b" "relaxed u (linklist d) a b"
      by blast
    then show ?thesis
      using loop [OF b(1)] dijkstra_step_near [OF assms(2,3) u min d but len False near b(2)] len
        relaxedD(1,2) [OF b(2)] by auto
  qed
qed

lemma calc_loop_returns:
  assumes "std_sort srt" "dijkstra_inv s todo a" "weights_ok (graph_of a)" "length a \<le> 1024"
  shows "\<exists>b. calc_loop srt todo a = Some (Inr b) \<and> dijkstra_inv s [] b \<and>
    graph_of b = graph_of a \<and> (\<forall>v. hop_of b v = hop_of a v)"
  using assms(2-4)
proof (induction "length todo" arbitrary: todo a rule: less_induct)
  case less
  show ?case
  proof (cases "todo = []")
    case True
    then show ?thesis using less.prems(1) by (auto simp: calc_loop.simps)
  next
    case False
    from calc_loop_round [OF assms(1) less.prems this refl] obtain b where
      b: "calc_loop srt todo a = calc_loop srt (butlast (srt (dist_comp a) todo)) b"
        "dijkstra_inv s (butlast (srt (dist_comp a) todo)) b" "graph_of b = graph_of a"
        "\<forall>v. hop_of b v = hop_of a v" "length (butlast (srt (dist_comp a) todo)) < length todo"
      by blast
    with less.hyps [OF b(5,2)] less.prems length_graph [OF b(3)] show ?thesis by auto
  qed
qed

section \<open>Shortest paths\<close>

lemma dijkstra_walk:
  assumes "dijkstra_inv s [] a" "weights_ok (graph_of a)" "om_find s a \<noteq> None"
    and "om_find v a \<noteq> None" "dn a v \<noteq> far"
  shows "walk (graph_of a) s v (dn a v)"
  using assms(4,5)
proof (induction "dn a v" arbitrary: v rule: less_induct)
  case less
  show ?case
  proof (cases "v = s")
    case True
    then show ?thesis using dijkstra_invD(3) [OF assms(1)] assms(3) by (auto intro: walk_start)
  next
    case False
    from dijkstra_invD(6) [OF assms(1) less.prems(1) False less.prems(2)] obtain w where
      w: "edge (graph_of a) (prev_of a v) v w" "dn a v = dn a (prev_of a v) + w" "dn a (prev_of a v) \<noteq> far"
        "om_find (prev_of a v) a \<noteq> None"
      by (auto simp: via_prev_def finished_def)
    then show ?thesis
      using less.hyps [of "prev_of a v"] edge_weight(1) [OF assms(2) w(1)] walk_step by fastforce
  qed
qed

lemma dijkstra_lower:
  assumes "dijkstra_inv s [] a"
  shows "walk (graph_of a) u v c \<Longrightarrow> u = s \<Longrightarrow> dn a v < far \<and> dn a v \<le> c"
proof (induction rule: walk.induct)
  case (walk_start u)
  then show ?case using dijkstra_invD(3) [OF assms] by (simp add: far_def)
next
  case (walk_step u v c x w)
  then have "finished a [] v" using walk_node [OF walk_step(1)] by (simp add: finished_def)
  with dijkstra_invD(7) [OF assms this _ walk_step(2)] walk_step show ?case by fastforce
qed

lemma dijkstra_shortest:
  assumes "dijkstra_inv s [] a" "weights_ok (graph_of a)" "om_find s a \<noteq> None" "om_find v a \<noteq> None"
  shows "dn a v = far \<longleftrightarrow> (\<nexists>c. walk (graph_of a) s v c)"
    and "dn a v \<noteq> far \<Longrightarrow> shortest (graph_of a) s v (dn a v)"
  using dijkstra_walk [OF assms] dijkstra_lower [OF assms(1), of s v] unfolding shortest_def
  by (metis less_irrefl)+

section \<open>Next hops\<close>

text \<open>The first node after the source on the chain of previous hops.\<close>

inductive first_hop :: "AdjList \<Rightarrow> NodeId \<Rightarrow> NodeId \<Rightarrow> NodeId \<Rightarrow> bool" for a s where
  first_direct: "om_find v a \<noteq> None \<Longrightarrow> v \<noteq> s \<Longrightarrow> dn a v \<noteq> far \<Longrightarrow> prev_of a v = s \<Longrightarrow> first_hop a s v v"
| first_via: "om_find v a \<noteq> None \<Longrightarrow> v \<noteq> s \<Longrightarrow> dn a v \<noteq> far \<Longrightarrow> prev_of a v \<noteq> s \<Longrightarrow>
    first_hop a s (prev_of a v) h \<Longrightarrow> first_hop a s v h"

lemma first_hop_reachable: "first_hop a s v h \<Longrightarrow> v \<noteq> s \<and> h \<noteq> s \<and> dn a v \<noteq> far"
  by (induction rule: first_hop.induct) auto

lemma first_hop_on_path:
  assumes "dijkstra_inv s [] a"
  shows "first_hop a s v h \<Longrightarrow> \<exists>w c. edge (graph_of a) s h w \<and> walk (graph_of a) h v c \<and> dn a v = w + c"
proof (induction rule: first_hop.induct)
  case (first_direct v)
  then have "via_prev a v" using dijkstra_invD(6) [OF assms, of v] by simp
  then have "edge (graph_of a) s v (dn a v)"
    using first_direct dijkstra_invD(3) [OF assms] by (auto simp: via_prev_def)
  moreover have "walk (graph_of a) v v 0" using first_direct by (auto intro: walk_start)
  ultimately show ?case by (metis add_0_right)
next
  case (first_via v h)
  then have "via_prev a v" using dijkstra_invD(6) [OF assms, of v] by simp
  with first_via.IH show ?case by (fastforce simp: via_prev_def intro: walk_step)
qed

text \<open>What stays while next hops are entered, and what the entered ones are.\<close>

definition hops_inv :: "NodeId \<Rightarrow> AdjList \<Rightarrow> AdjList \<Rightarrow> bool" where
  "hops_inv s a b \<longleftrightarrow> graph_of b = graph_of a \<and> (\<forall>v. dn b v = dn a v) \<and> (\<forall>v. prev_of b v = prev_of a v) \<and>
     (\<forall>v. om_find v a \<noteq> None \<longrightarrow> hop_of b v = s \<or> first_hop a s v (hop_of b v))"

lemma hops_inv_enter:
  assumes "hops_inv s a b" "h = s \<or> first_hop a s v h"
  shows "hops_inv s a (om_adjust v (\<lambda>d. d\<lparr>nextHop := h\<rparr>) b)"
proof -
  have "dn (om_adjust v (\<lambda>d. d\<lparr>nextHop := h\<rparr>) b) x = dn b x"
    "prev_of (om_adjust v (\<lambda>d. d\<lparr>nextHop := h\<rparr>) b) x = prev_of b x"
    "om_find x b \<noteq> None \<Longrightarrow>
       hop_of (om_adjust v (\<lambda>d. d\<lparr>nextHop := h\<rparr>) b) x = (if x = v then h else hop_of b x)" for x
    by (auto simp: dn_def dist_of_def prev_of_def hop_of_def om_find_adjust split: option.splits)
  moreover have "om_find x a = None \<longleftrightarrow> om_find x b = None" for x
    using assms(1) find_None_graph [of a b x] by (auto simp: hops_inv_def)
  ultimately show ?thesis
    using assms by (simp add: hops_inv_def graph_of_adjust)
qed

lemma hop_of_enter: "om_find v b \<noteq> None \<Longrightarrow> hop_of (om_adjust v (\<lambda>d. d\<lparr>nextHop := h\<rparr>) b) v = h"
  by (auto simp: hop_of_def om_find_adjust)

text \<open>
  Entering the next hop of one node: the recursion ends because distances decrease along the
  previous hops, and hops that were entered before are kept.
\<close>

definition hop_entered :: "NodeId \<Rightarrow> AdjList \<Rightarrow> AdjList \<Rightarrow> NodeId \<Rightarrow> AdjList \<Rightarrow> bool" where
  "hop_entered s a b v b' \<longleftrightarrow> hops_inv s a b' \<and>
     (\<forall>x. om_find x a \<noteq> None \<longrightarrow> hop_of b x \<noteq> s \<longrightarrow> hop_of b' x = hop_of b x) \<and>
     (v \<noteq> s \<longrightarrow> dn a v \<noteq> far \<longrightarrow> first_hop a s v (hop_of b' v))"

lemma calcNextHop_returns:
  assumes "dijkstra_inv s [] a" "weights_ok (graph_of a)"
    and "hops_inv s a b" "om_find v a \<noteq> None"
  shows "\<exists>b'. calcNextHop s v b = Some (Inr b') \<and> hop_entered s a b v b'"
  using assms(3,4)
proof (induction "dn a v" arbitrary: v b rule: less_induct)
  case less
  note I = less.prems(1) [unfolded hops_inv_def]
  obtain d where d: "om_find v b = Some d" using less.prems I find_None_graph [of b a v] by auto
  have dp: "distance d = UINT_MAX \<longleftrightarrow> dn a v = far" "nextHop d = hop_of b v" "prevHop d = prev_of a v"
  proof -
    have "dn b v = dn a v" "prev_of b v = prev_of a v" using I by blast+
    then show "distance d = UINT_MAX \<longleftrightarrow> dn a v = far" "nextHop d = hop_of b v" "prevHop d = prev_of a v"
      using d UINT_MAX_far [of b v] by (simp_all add: dist_of_def hop_of_def prev_of_def [of b])
  qed
  have found: "om_find v b \<noteq> None" using d by simp
  have enter: "hop_entered s a b v (om_adjust v (\<lambda>d. d\<lparr>nextHop := h\<rparr>) b')"
    if "hop_entered s a b u b'" "om_find v b' \<noteq> None" "hop_of b v = s" "h = s \<or> first_hop a s v h"
      "v \<noteq> s \<Longrightarrow> dn a v \<noteq> far \<Longrightarrow> h \<noteq> s" for u b' h
    using that hops_inv_enter [of s a b' h v] hop_of_enter [OF that(2), of h]
    by (auto simp: hop_entered_def hop_of_def om_find_adjust)
  have self: "hop_entered s a b s b" using less.prems(1) by (simp add: hop_entered_def)
  consider "dn a v = far" | "dn a v \<noteq> far" "hop_of b v \<noteq> s" | "dn a v \<noteq> far" "hop_of b v = s" "prev_of a v = s"
    | "dn a v \<noteq> far" "hop_of b v = s" "prev_of a v \<noteq> s" by blast
  then show ?case
  proof cases
    case 1
    then have "hop_of b v = s" using I less.prems(2) first_hop_reachable by blast
    with 1 show ?thesis
      using d dp(1) enter [OF self found, of s] by (subst calcNextHop.simps) simp
  next
    case 2
    then show ?thesis
      using d dp I less.prems self by (subst calcNextHop.simps) (auto simp: hop_entered_def)
  next
    case 3
    then have "v = s \<or> first_hop a s v v" using less.prems(2) by (auto intro: first_direct)
    with 3 show ?thesis
      using d dp enter [OF self found, of v] by (subst calcNextHop.simps) simp
  next
    case 4
    let ?u = "prev_of a v"
    have vs: "v \<noteq> s" using 4(3) dijkstra_invD(4) [OF assms(1)] by auto
    then have "finished a [] ?u \<and> via_prev a v" using dijkstra_invD(6) [OF assms(1) less.prems(2)] 4(1) by blast
    then have u: "om_find ?u a \<noteq> None" "dn a ?u < dn a v" "dn a ?u \<noteq> far"
      using edge_weight(1) [OF assms(2)] by (auto simp: finished_def via_prev_def)
    from less.hyps [OF u(2) less.prems(1) u(1)] obtain b1 where
      b1: "calcNextHop s ?u b = Some (Inr b1)" "hop_entered s a b ?u b1" by blast
    then have "graph_of b1 = graph_of a" by (simp add: hop_entered_def hops_inv_def)
    then obtain d1 where d1: "om_find ?u b1 = Some d1" "om_find v b1 \<noteq> None"
      using u(1) less.prems(2) find_None_graph [of b1 a] by (metis not_None_eq)
    have "first_hop a s v (nextHop d1)"
      using b1(2) u(3) 4 vs d1 less.prems(2) first_via [of v a s "nextHop d1"]
      by (auto simp: hop_entered_def hop_of_def)
    moreover obtain d' where "om_find ?u b = Some d'" "\<not> distance d < distance d'"
    proof -
      obtain d' where d': "om_find ?u b = Some d'" using u(1) I find_None_graph [of b a ?u] by (metis not_None_eq)
      moreover have "dn b ?u = dn a ?u" "dn b v = dn a v" using I by blast+
      ultimately have "unat (distance d') = dn a ?u" "unat (distance d) = dn a v"
        using d by (simp_all add: dn_def [of b] dist_of_def [of b])
      then show thesis using that d' u(2) by (simp add: word_less_nat_alt)
    qed
    ultimately show ?thesis
      using d dp 4 d1(1) b1(1) enter [OF b1(2) d1(2) 4(2), of "nextHop d1"]
        first_hop_reachable by (subst calcNextHop.simps) auto
  qed
qed

lemma calcNextHops_returns:
  assumes "dijkstra_inv s [] a" "weights_ok (graph_of a)"
    and "hops_inv s a b" "\<forall>v \<in> set is. om_find v a \<noteq> None"
  shows "\<exists>b'. calcNextHops s is b = Some (Inr b') \<and> hops_inv s a b' \<and>
    (\<forall>x. om_find x a \<noteq> None \<longrightarrow> hop_of b x \<noteq> s \<longrightarrow> hop_of b' x = hop_of b x) \<and>
    (\<forall>v \<in> set is. v \<noteq> s \<longrightarrow> dn a v \<noteq> far \<longrightarrow> first_hop a s v (hop_of b' v))"
  using assms(3,4)
proof (induction "is" arbitrary: b)
  case (Cons i "is")
  from calcNextHop_returns [OF assms(1,2) Cons.prems(1)] Cons.prems(2) obtain b1 where
    b1: "calcNextHop s i b = Some (Inr b1)" "hop_entered s a b i b1" by auto
  then have inv: "hops_inv s a b1" by (simp add: hop_entered_def)
  from Cons.IH [OF inv] Cons.prems(2) obtain b' where
    b': "calcNextHops s is b1 = Some (Inr b')" "hops_inv s a b'"
      "\<forall>x. om_find x a \<noteq> None \<longrightarrow> hop_of b1 x \<noteq> s \<longrightarrow> hop_of b' x = hop_of b1 x"
      "\<forall>v \<in> set is. v \<noteq> s \<longrightarrow> dn a v \<noteq> far \<longrightarrow> first_hop a s v (hop_of b' v)" by auto
  have "first_hop a s i (hop_of b' i)" if "i \<noteq> s" "dn a i \<noteq> far"
    using b1(2) b'(3) that Cons.prems(2) first_hop_reachable [of a s i "hop_of b1 i"]
    by (simp add: hop_entered_def)
  with b1 b' show ?case by (auto simp: hop_entered_def)
qed simp

section \<open>The routes\<close>

lemma om_find_calc_init:
  "om_find i (calc_init s a) = map_option (\<lambda>d. if i = s then d\<lparr>nextHop := s, distance := 0, prevHop := s\<rparr>
     else d\<lparr>nextHop := s, distance := UINT_MAX\<rparr>) (om_find i a)"
  by (induction a) (auto simp: om_find_def calc_init_def)

lemma graph_of_calc_init: "graph_of (calc_init s a) = graph_of a"
  by (auto simp: graph_of_def calc_init_def)

lemma dijkstra_inv_init:
  assumes "om_ok a" "om_find s a \<noteq> None"
  shows "dijkstra_inv s (map fst (calc_init s a)) (calc_init s a)"
proof -
  let ?a = "calc_init s a"
  have dn: "dn ?a v = (if v = s \<or> om_find v a = None then 0 else far)" for v
    using assms(2) by (auto simp: dn_def dist_of_def om_find_calc_init UINT_MAX_def far_def split: option.splits)
  have "prev_of ?a s = s" using assms(2) by (auto simp: prev_of_def om_find_calc_init)
  moreover have "distinct (map fst ?a)" using om_ok_distinct [OF assms(1)]
    by (simp add: calc_init_def case_prod_beta comp_def)
  moreover have "\<not> finished ?a (map fst ?a) v" for v by (simp add: finished_def om_find_None)
  ultimately show ?thesis
    using dn by (simp add: dijkstra_inv_def om_find_calc_init)
qed

text \<open>What the computation leaves behind, seen from the source \<open>s\<close>.\<close>

definition routes :: "NodeId \<Rightarrow> AdjList \<Rightarrow> bool" where
  "routes s b \<longleftrightarrow> (\<forall>v. om_find v b \<noteq> None \<longrightarrow>
     (dn b v = far \<longleftrightarrow> (\<nexists>c. walk (graph_of b) s v c)) \<and>
     (dn b v \<noteq> far \<longrightarrow> shortest (graph_of b) s v (dn b v)) \<and>
     (if v = s \<or> dn b v = far then hop_of b v = s
      else \<exists>w c. edge (graph_of b) s (hop_of b v) w \<and> walk (graph_of b) (hop_of b v) v c \<and> dn b v = w + c))"

lemma calcRoutes_routes:
  assumes "std_sort srt" "om_ok a" "om_find s a \<noteq> None" "weights_ok (graph_of a)" "length a \<le> 1024"
  shows "\<exists>b. calcRoutes srt s a = Some (Inr b) \<and> graph_of b = graph_of a \<and> routes s b"
proof -
  let ?i = "calc_init s a"
  have "length ?i \<le> 1024" using assms(5) by (simp add: calc_init_def)
  with calc_loop_returns [OF assms(1) dijkstra_inv_init [OF assms(2,3)]] obtain c where
    c: "calc_loop srt (map fst ?i) ?i = Some (Inr c)" "dijkstra_inv s [] c" "graph_of c = graph_of a"
      "\<And>v. hop_of c v = hop_of ?i v"
    using assms(4) by (auto simp: graph_of_calc_init)
  have wok: "weights_ok (graph_of c)" using assms(4) c(3) by simp
  have src: "om_find s c \<noteq> None" using find_None_graph [OF c(3)] assms(3) by simp
  have "hop_of ?i v = s" if "om_find v a \<noteq> None" for v
    using that by (auto simp: hop_of_def om_find_calc_init)
  then have "hops_inv s c c"
    using find_None_graph [OF c(3)] by (simp add: hops_inv_def c(4))
  with calcNextHops_returns [OF c(2) wok, of c "map fst c"] obtain b where
    b: "calcNextHops s (map fst c) c = Some (Inr b)" "hops_inv s c b"
      "\<forall>v \<in> set (map fst c). v \<noteq> s \<longrightarrow> dn c v \<noteq> far \<longrightarrow> first_hop c s v (hop_of b v)"
    by (auto simp: om_find_None)
  have g: "graph_of b = graph_of c" "dn b v = dn c v" for v using b(2) by (auto simp: hops_inv_def)
  have "routes s b" unfolding routes_def
  proof (intro allI impI)
    fix v assume "om_find v b \<noteq> None"
    then have v: "om_find v c \<noteq> None" using find_None_graph [OF g(1)] by simp
    have "hop_of b v = s" if "v = s \<or> dn c v = far"
      using that b(2) v first_hop_reachable [of c s v "hop_of b v"] unfolding hops_inv_def by blast
    moreover have "first_hop c s v (hop_of b v)" if "v \<noteq> s" "dn c v \<noteq> far"
      using b(3) that v om_find_None [of v c] by auto
    ultimately show "(dn b v = far \<longleftrightarrow> (\<nexists>c. walk (graph_of b) s v c)) \<and>
     (dn b v \<noteq> far \<longrightarrow> shortest (graph_of b) s v (dn b v)) \<and>
     (if v = s \<or> dn b v = far then hop_of b v = s
      else \<exists>w c. edge (graph_of b) s (hop_of b v) w \<and> walk (graph_of b) (hop_of b v) v c \<and> dn b v = w + c)"
      using dijkstra_shortest [OF c(2) wok src v] first_hop_on_path [OF c(2)] g by simp
  qed
  with c b g(1) assms(3) show ?thesis by (simp add: calcRoutes_def Let_def)
qed

text \<open>
  The next hop is itself on a shortest path: what remains from it is shortest, too.
\<close>

lemma routes_next_hop:
  assumes "routes s b" "weights_ok (graph_of b)" "shortest (graph_of b) s v c" "v \<noteq> s"
  shows "\<exists>w c'. edge (graph_of b) s (hop_of b v) w \<and> shortest (graph_of b) (hop_of b v) v c' \<and> c = w + c'"
proof -
  have v: "om_find v b \<noteq> None" "walk (graph_of b) s v c"
    using assms(3) walk_node [of "graph_of b" s v c] by (auto simp: shortest_def)
  then have "dn b v \<noteq> far" "dn b v = c"
    using assms(1,3) by (auto simp: routes_def shortest_def intro!: le_antisym)
  then obtain w c' where w: "edge (graph_of b) s (hop_of b v) w" "walk (graph_of b) (hop_of b v) v c'" "c = w + c'"
    using assms(1,4) v(1) unfolding routes_def by metis
  have "c' \<le> c''" if "walk (graph_of b) (hop_of b v) v c''" for c''
    using walk_refl_trans [OF that edge_walk [OF w(1)]] assms(3) w(3) by (auto simp: shortest_def)
  with w show ?thesis by (auto simp: shortest_def)
qed

section \<open>Properties\<close>

text \<open>
  Property C4: the routes are the shortest paths.  On a topology of at most 1024 nodes whose link
  weights come from the metric, the computation ends without a failed assertion and without a
  wrapped sum; it keeps the nodes and links; the distance of a node is the length of a shortest
  walk from this station, and the largest unsigned number exactly for unreachable nodes.
\<close>

theorem calcRoutes_shortest:
  assumes "std_sort srt" "om_ok a" "om_find s a \<noteq> None" "weights_ok (graph_of a)" "length a \<le> 1024"
  shows "\<exists>b. calcRoutes srt s a = Some (Inr b) \<and> graph_of b = graph_of a \<and>
    (\<forall>v d. om_find v b = Some d \<longrightarrow>
       (distance d = UINT_MAX \<longleftrightarrow> (\<nexists>c. walk (graph_of a) s v c)) \<and>
       (distance d \<noteq> UINT_MAX \<longrightarrow> shortest (graph_of a) s v (unat (distance d))))"
proof -
  obtain b where b: "calcRoutes srt s a = Some (Inr b)" "graph_of b = graph_of a" "routes s b"
    using calcRoutes_routes [OF assms] by blast
  have "dn b v = unat (distance d) \<and> (distance d = UINT_MAX \<longleftrightarrow> dn b v = far)"
    if "om_find v b = Some d" for v d
    using that UINT_MAX_far [of b v] by (simp add: dn_def dist_of_def)
  then show ?thesis using b by (fastforce simp: routes_def)
qed

text \<open>
  Property C9: the next hops are right.  After the computation the next hop of a reachable
  station is a neighbor of this one, and the link to it followed by a shortest path from it is
  a shortest path; the next hop of an unreachable station and of this station itself is this
  station's own identifier.
\<close>

theorem calcRoutes_next_hops:
  assumes "std_sort srt" "om_ok a" "om_find s a \<noteq> None" "weights_ok (graph_of a)" "length a \<le> 1024"
  shows "\<exists>b. calcRoutes srt s a = Some (Inr b) \<and> (\<forall>v d. om_find v b = Some d \<longrightarrow>
    (if v = s \<or> (\<nexists>c. walk (graph_of a) s v c) then nextHop d = s
     else \<exists>w c. edge (graph_of a) s (nextHop d) w \<and> shortest (graph_of a) (nextHop d) v c \<and>
       shortest (graph_of a) s v (w + c)))"
proof -
  obtain b where b: "calcRoutes srt s a = Some (Inr b)" "graph_of b = graph_of a" "routes s b"
    using calcRoutes_routes [OF assms] by blast
  have "if v = s \<or> (\<nexists>c. walk (graph_of a) s v c) then nextHop d = s
     else \<exists>w c. edge (graph_of a) s (nextHop d) w \<and> shortest (graph_of a) (nextHop d) v c \<and>
       shortest (graph_of a) s v (w + c)" if v: "om_find v b = Some d" for v d
  proof -
    have hop: "hop_of b v = nextHop d" using v by (simp add: hop_of_def)
    have R: "dn b v = far \<longleftrightarrow> (\<nexists>c. walk (graph_of a) s v c)"
      "dn b v \<noteq> far \<Longrightarrow> shortest (graph_of a) s v (dn b v)"
      "v = s \<or> dn b v = far \<Longrightarrow> nextHop d = s"
      using b(2,3) v hop by (auto simp: routes_def)
    then show ?thesis
      using routes_next_hop [OF b(3), of v "dn b v"] assms(4) b(2) hop by metis
  qed
  with b(1) show ?thesis by blast
qed

text \<open>The station to which the station \<open>u\<close> forwards a packet for \<open>dest\<close>.\<close>

definition station_hop ::
  "((NodeId \<Rightarrow> NodeId \<Rightarrow> bool) \<Rightarrow> NodeId list \<Rightarrow> NodeId list) \<Rightarrow> (NodeId \<Rightarrow> AdjList) \<Rightarrow> NodeId \<Rightarrow> NodeId \<Rightarrow> NodeId" where
  "station_hop srt tables dest u =
     (case calcRoutes srt u (tables u) of Some (Inr b) \<Rightarrow> hop_of b dest | _ \<Rightarrow> u)"

lemma station_hop_progress:
  assumes "std_sort srt" "om_ok a" "weights_ok g" "length a \<le> 1024" "graph_of a = g" "tables u = a"
    and "shortest g u v c" "u \<noteq> v"
  shows "\<exists>c'. shortest g (station_hop srt tables v u) v c' \<and> c' < c"
proof -
  have "om_find u a \<noteq> None" using assms(5,7) walk_node [of g u v c] by (auto simp: shortest_def)
  with calcRoutes_routes [OF assms(1,2)] obtain b where
    b: "calcRoutes srt u a = Some (Inr b)" "graph_of b = g" "routes u b"
    using assms(3-5) by blast
  then have "station_hop srt tables v u = hop_of b v" by (simp add: station_hop_def assms(6))
  with routes_next_hop [OF b(3)] edge_weight(1) [OF assms(3)] b(2) assms(3,7,8) show ?thesis
    by (metis less_add_same_cancel2)
qed

text \<open>
  Property C6: packets arrive.  Let every station hold the same nodes and links, with its own
  tables of routes, and forward a packet for a reachable destination to its next hop.  Then the
  packet reaches the destination, in at most as many hops as the length of the shortest path;
  in particular it does not run in a loop.
\<close>

theorem packets_arrive:
  assumes "std_sort srt" "weights_ok g"
    and "\<forall>u. om_ok (tables u) \<and> length (tables u) \<le> 1024 \<and> graph_of (tables u) = g"
    and "shortest g u v c"
  shows "\<exists>n \<le> c. (station_hop srt tables v ^^ n) u = v"
  using assms(4)
proof (induction c arbitrary: u rule: less_induct)
  case (less c)
  show ?case
  proof (cases "u = v")
    case True
    then show ?thesis by (intro exI [of _ 0]) simp
  next
    case False
    with station_hop_progress [OF assms(1) _ assms(2) _ _ refl less.prems] assms(3) obtain c' where
      "shortest g (station_hop srt tables v u) v c'" "c' < c" by blast
    with less.IH obtain n where "n \<le> c'" "(station_hop srt tables v ^^ n) (station_hop srt tables v u) = v"
      by blast
    then show ?thesis using \<open>c' < c\<close>
      by (intro exI [of _ "Suc n"]) (simp add: funpow_Suc_right del: funpow.simps)
  qed
qed

section \<open>Witnesses\<close>

text \<open>A line of three stations; the direct link between the ends is worse than the detour.\<close>

definition example_link :: "nat \<Rightarrow> u32 \<Rightarrow> LinkQuality" where
  "example_link i w = \<lparr>counterpart = None, neighbor = NodeId (of_nat i), lq_quality = 1, metric_weight = w\<rparr>"

definition example_adj :: AdjList where
  "example_adj =
     [(NodeId 1, NDescr_new 0\<lparr>linklist := [example_link 2 3, example_link 3 10]\<rparr>),
      (NodeId 2, NDescr_new 1\<lparr>linklist := [example_link 1 3, example_link 3 4]\<rparr>),
      (NodeId 3, NDescr_new 2\<lparr>linklist := [example_link 1 10, example_link 2 4]\<rparr>)]"

lemma example_adj_ok:
  "om_ok example_adj" "weights_ok (graph_of example_adj)" "length example_adj \<le> 1024"
  "om_find (NodeId 1) example_adj \<noteq> None"
  by (simp_all add: example_adj_def example_link_def om_ok_def weights_ok_def graph_of_def max_weight_def
      om_find_def NodeId_less_d)

theorem calcRoutes_shortest_witness:
  "\<exists>b. calcRoutes sort_by (NodeId 1) example_adj = Some (Inr b) \<and> graph_of b = graph_of example_adj"
  using calcRoutes_shortest [OF sort_by.std_sort_axioms example_adj_ok(1,4,2,3)] by blast

theorem calcRoutes_next_hops_witness:
  "\<exists>b. calcRoutes sort_by (NodeId 1) example_adj = Some (Inr b) \<and>
     (\<forall>d. om_find (NodeId 1) b = Some d \<longrightarrow> nextHop d = NodeId 1)"
  using calcRoutes_next_hops [OF sort_by.std_sort_axioms example_adj_ok(1,4,2,3)] by fastforce

lemma example_find: "om_find (NodeId 1) (graph_of example_adj) = Some [example_link 2 3, example_link 3 10]"
  "om_find (NodeId 2) (graph_of example_adj) \<noteq> None"
  by (simp_all only: example_adj_def graph_of_def om_find_def list.map prod.case map_of.simps fst_conv
      NodeId.inject) simp_all

lemma example_edges: "edge (graph_of example_adj) (NodeId 1) v w \<Longrightarrow> 3 \<le> w"
  unfolding edge_def example_find(1) by (auto simp: example_link_def)

lemma walk_first_step:
  "walk g u v c \<Longrightarrow> u \<noteq> v \<Longrightarrow> \<exists>x w. edge g u x w \<and> w \<le> c"
proof (induction rule: walk.induct)
  case (walk_step u v c x w)
  show ?case
  proof (cases "u = v")
    case True
    then show ?thesis using walk_step(2) le_add2 [of w c] by blast
  next
    case False
    then show ?thesis using walk_step(3) trans_le_add1 [of _ c w] by blast
  qed
qed simp

theorem packets_arrive_witness:
  "\<exists>n \<le> 3. (station_hop sort_by (\<lambda>_. example_adj) (NodeId 2) ^^ n) (NodeId 1) = NodeId 2"
proof -
  have "edge (graph_of example_adj) (NodeId 1) (NodeId 2) 3"
    unfolding edge_def example_find(1) 
    by (rule exI [of _ "[example_link 2 3, example_link 3 10]"], rule exI [of _ "example_link 2 3"]) (use example_find(2) in \<open>simp add: example_link_def\<close>)
  then have "walk (graph_of example_adj) (NodeId 1) (NodeId 2) 3" by (rule edge_walk)
  moreover have "3 \<le> c" if "walk (graph_of example_adj) (NodeId 1) (NodeId 2) c" for c
    using walk_first_step [OF that] example_edges by fastforce
  ultimately have "shortest (graph_of example_adj) (NodeId 1) (NodeId 2) 3" by (simp add: shortest_def)
  then show ?thesis
    by (intro packets_arrive [OF sort_by.std_sort_axioms example_adj_ok(2)]) (simp add: example_adj_ok(1,3))
qed

end
