(* ===== verification/Topo_Packet.thy ===== *)
theory Topo_Packet
  imports Topo_Base
begin

text \<open>
  Topology packets: \<open>src/src/awds/TopoPacket.h\<close> and \<open>src/src/TopoPacket.cc\<close>.  A packet is a
  flood packet with a validity in milliseconds, a count, one entry of eight bytes per link (the
  identifier of the neighbor and a quality) and the name of the station.
\<close>

definition OffsetValidity :: nat where "OffsetValidity = FloodHeaderEnd"
definition OffsetNumLinks :: nat where "OffsetNumLinks = OffsetValidity + 4"
definition OffsetLinks :: nat where "OffsetLinks = OffsetNumLinks + 1"

lemmas topo_offsets = OffsetValidity_def OffsetNumLinks_def OffsetLinks_def offset_defs

definition TopoPacket :: "BasePacket \<Rightarrow> BasePacket" where
  "TopoPacket p = setFloodType (FloodType_val FloodTypeTopo) (Flood p)"

definition getNumLinks :: "BasePacket \<Rightarrow> nat" where
  "getNumLinks p = unat (buffer p ! OffsetNumLinks)"

definition getValidity :: "(int \<Rightarrow> int \<Rightarrow> int) \<Rightarrow> BasePacket \<Rightarrow> int" where
  "getValidity duration p =
     duration (uint (fromArray (mem_read (buffer p) OffsetValidity 4) :: u32)) 1000"

definition setValidity :: "int \<Rightarrow> BasePacket \<Rightarrow> BasePacket" where
  "setValidity d p =
     p\<lparr>buffer := mem_write (buffer p) OffsetValidity (toArray (word_of_int d :: u32))\<rparr>"

text \<open>The iterator over the neighbors: a position in the buffer.\<close>

definition TopoPacketNeighItr_next :: "nat \<Rightarrow> nat" where
  "TopoPacketNeighItr_next ptr = ptr + 6 + 2"

definition TopoPacketNeighItr_get :: "byte list \<Rightarrow> nat \<Rightarrow> NodeId" where
  "TopoPacketNeighItr_get buf ptr = NodeId_fromArray (mem_read buf ptr 6)"

text \<open>
  The loop over the neighbors.  The results are those of the search in the last beacon of a
  neighbor: \<open>None\<close> if it does not end, \<open>Some None\<close> if it reads outside the beacon.  The quality
  function is the one of the installed metric as it is after its \<open>update\<close>.
\<close>

fun topo_write ::
  "NodeId \<Rightarrow> (NodeDescr \<Rightarrow> link_quality_t) \<Rightarrow> NodeDescr list \<Rightarrow> byte list \<Rightarrow> nat \<Rightarrow> byte \<Rightarrow>
   (byte list \<times> nat \<times> byte) option option" where
  "topo_write myNodeId qual [] buf addr n = Some (Some (buf, addr, n))"
| "topo_write myNodeId qual (d # ds) buf addr n =
     (case isBidiGood myNodeId d of
        None \<Rightarrow> None
      | Some None \<Rightarrow> Some None
      | Some (Some False) \<Rightarrow> topo_write myNodeId qual ds buf addr n
      | Some (Some True) \<Rightarrow>
          let buf = mem_write buf addr (NodeId_toArray (nd_id d));
              buf = mem_write buf (addr + 6) (toArray (qual d))
          in topo_write myNodeId qual ds buf (addr + 6 + 2) (n + 1))"

definition TopoPacket_setNeigh ::
  "NodeId \<Rightarrow> (NodeDescr \<Rightarrow> link_quality_t) \<Rightarrow> byte list \<Rightarrow> NodeDescr list \<Rightarrow> BasePacket \<Rightarrow>
   BasePacket option option" where
  "TopoPacket_setNeigh myNodeId my_get_quality name neighbors p =
     (case topo_write myNodeId (get_quality my_get_quality) neighbors (buffer p) OffsetLinks 0 of
        None \<Rightarrow> None
      | Some None \<Rightarrow> Some None
      | Some (Some (buf, addr, n)) \<Rightarrow>
          let len = min (length name) 32;
              buf = buf[addr := of_nat len];
              buf = mem_write buf (addr + 1) (take len name);
              buf = buf[OffsetNumLinks := n]
          in Some (Some (p\<lparr>buffer := buf, psize := OffsetLinks + (6 + 2) * unat n + len + 1\<rparr>)))"

section \<open>Reading what was written\<close>

text \<open>An entry of the packet, and the bytes of a list of entries.\<close>

definition topo_entry :: "byte list \<Rightarrow> nat \<Rightarrow> NodeId \<times> link_quality_t" where
  "topo_entry buf k =
     (NodeId_fromArray (mem_read buf (OffsetLinks + 8 * k) 6),
      fromArray (mem_read buf (OffsetLinks + 8 * k + 6) 2))"

definition entry_bytes :: "(NodeId \<times> link_quality_t) list \<Rightarrow> byte list" where
  "entry_bytes es = concat (map (\<lambda>(i, q). NodeId_toArray i @ toArray q) es)"

lemma entry_bytes_simps [simp]:
  "entry_bytes [] = []" "entry_bytes ((i, q) # es) = NodeId_toArray i @ toArray q @ entry_bytes es"
  by (simp_all add: entry_bytes_def)

lemma length_toArray_u16 [simp]: "length (toArray (q :: u16)) = 2"
  by (simp add: length_toArray)

lemma length_entry_bytes [simp]: "length (entry_bytes es) = 8 * length es"
  by (induction es) auto

text \<open>The neighbors that are announced.\<close>

definition announced :: "NodeId \<Rightarrow> NodeDescr list \<Rightarrow> NodeDescr list" where
  "announced myNodeId ds = filter (\<lambda>d. isBidiGood myNodeId d = Some (Some True)) ds"

definition searchable :: "NodeId \<Rightarrow> NodeDescr \<Rightarrow> bool" where
  "searchable myNodeId d \<longleftrightarrow> (\<exists>b. isBidiGood myNodeId d = Some (Some b))"

lemma topo_write_eq:
  assumes "\<forall>d \<in> set ds. searchable i d" "addr + 8 * length ds \<le> length buf"
  shows "topo_write i q ds buf addr n = Some (Some
    (mem_write buf addr (entry_bytes (map (\<lambda>d. (nd_id d, q d)) (announced i ds))),
     addr + 8 * length (announced i ds), n + of_nat (length (announced i ds))))"
  using assms
proof (induction ds arbitrary: buf addr n)
  case (Cons d ds)
  let ?b1 = "mem_write buf addr (NodeId_toArray (nd_id d) @ toArray (q d))"
  have two: "mem_write (mem_write buf addr (NodeId_toArray (nd_id d))) (addr + 6) (toArray (q d)) = ?b1"
    using mem_write_append [of addr "NodeId_toArray (nd_id d)" "toArray (q d)" buf] Cons.prems(2) by simp
  obtain b where b: "isBidiGood i d = Some (Some b)" using Cons.prems(1) by (auto simp: searchable_def)
  show ?case
  proof (cases b)
    case True
    have "mem_write ?b1 (8 + addr) xs = mem_write buf addr ((NodeId_toArray (nd_id d) @ toArray (q d)) @ xs)"
      if "addr + 8 + length xs \<le> length buf" for xs
      using mem_write_append [of addr "NodeId_toArray (nd_id d) @ toArray (q d)" xs buf] that by (simp add: add.commute)
    moreover have le: "length (announced i ds) \<le> length ds" by (simp add: announced_def)
    ultimately have "mem_write ?b1 (8 + addr) (entry_bytes (map (\<lambda>d. (nd_id d, q d)) (announced i ds))) =
        mem_write buf addr (entry_bytes (map (\<lambda>d. (nd_id d, q d)) (d # announced i ds)))"
      using Cons.prems(2) by simp
    then show ?thesis
      using b True Cons two by (simp add: announced_def)
  next
    case False
    then show ?thesis using b Cons by (simp add: announced_def)
  qed
qed (simp add: announced_def)

lemma read_entry_bytes:
  assumes "k < length es"
  shows "mem_read (entry_bytes es) (8 * k) 6 = NodeId_toArray (fst (es ! k))"
    and "mem_read (entry_bytes es) (8 * k + 6) 2 = toArray (snd (es ! k))"
proof -
  have "entry_bytes es = entry_bytes (take k es) @ NodeId_toArray (fst (es ! k)) @
      toArray (snd (es ! k)) @ entry_bytes (drop (Suc k) es)"
    by (subst id_take_nth_drop [OF assms]) (simp add: entry_bytes_def case_prod_beta)
  then show "mem_read (entry_bytes es) (8 * k) 6 = NodeId_toArray (fst (es ! k))"
    "mem_read (entry_bytes es) (8 * k + 6) 2 = toArray (snd (es ! k))"
    using assms by (simp_all add: mem_read_def)
qed

lemma list_update_mem_write: "i < length buf \<Longrightarrow> buf[i := x] = mem_write buf i [x]"
  by (simp add: mem_write_def upd_conv_take_nth_drop)

lemma mem_write_update_before:
  assumes "i < off" "off \<le> length buf"
  shows "(mem_write buf off xs)[i := x] = mem_write (buf[i := x]) off xs"
proof -
  have "i < length (take off buf)" using assms by simp
  then show ?thesis
    using assms(1) by (simp add: mem_write_def list_update_append1 take_update_swap del: length_take)
qed

text \<open>The packet as one write behind the header.\<close>

definition topo_body :: "(NodeId \<times> link_quality_t) list \<Rightarrow> byte list \<Rightarrow> byte list" where
  "topo_body es name = of_nat (length es) # entry_bytes es @ of_nat (min (length name) 32) # take 32 name"

lemma length_topo_body [simp]: "length (topo_body es name) = 8 * length es + min (length name) 32 + 2"
  by (simp add: topo_body_def)

lemma setNeigh_body:
  assumes "pkt_ok p" "length ns \<le> 40" "\<forall>d \<in> set ns. searchable i d"
    and "es = map (\<lambda>d. (nd_id d, get_quality mq d)) (announced i ns)"
  shows "TopoPacket_setNeigh i mq name ns p = Some (Some
    (p\<lparr>buffer := mem_write (buffer p) OffsetNumLinks (topo_body es name),
       psize := OffsetNumLinks + length (topo_body es name)\<rparr>))"
proof -
  let ?len = "min (length name) 32" and ?addr = "OffsetLinks + 8 * length es"
  have n: "length es \<le> 40" "length (announced i ns) = length es"
    using assms(2,4) le_trans [OF length_filter_le] by (auto simp: announced_def)
  have len: "length (buffer p) = MaxSize" using assms(1) by (simp add: pkt_ok_def)
  let ?B = "mem_write (buffer p) OffsetLinks (entry_bytes es)"
  have w: "topo_write i (get_quality mq) ns (buffer p) OffsetLinks 0 = Some (Some (?B, ?addr, of_nat (length es)))"
    using topo_write_eq [OF assms(3), of OffsetLinks "buffer p" "get_quality mq" 0] assms(2)
    by (simp add: n(2) len topo_offsets MaxSize_def flip: assms(4))
  have "?B[?addr := of_nat ?len] = mem_write (buffer p) OffsetLinks (entry_bytes es @ [of_nat ?len])"
    using n len mem_write_append [of OffsetLinks "entry_bytes es" "[of_nat ?len]" "buffer p"]
    by (subst list_update_mem_write) (simp_all add: topo_offsets MaxSize_def)
  moreover have "mem_write (mem_write (buffer p) OffsetLinks (entry_bytes es @ [of_nat ?len])) (?addr + 1) (take ?len name) =
      mem_write (buffer p) OffsetLinks (entry_bytes es @ of_nat ?len # take ?len name)" (is "_ = ?C")
    using n len mem_write_append [of OffsetLinks "entry_bytes es @ [of_nat ?len]" "take ?len name" "buffer p"]
    by (simp add: topo_offsets MaxSize_def)
  moreover have "?C[OffsetNumLinks := of_nat (length es)] =
      mem_write ((buffer p)[OffsetNumLinks := of_nat (length es)]) OffsetLinks (entry_bytes es @ of_nat ?len # take ?len name)"
    by (rule mem_write_update_before) (simp_all add: topo_offsets len MaxSize_def)
  moreover have "\<dots> = mem_write (buffer p) OffsetNumLinks (topo_body es name)"
    using n len mem_write_append [of OffsetNumLinks "[of_nat (length es)]" "entry_bytes es @ of_nat ?len # take ?len name" "buffer p"]
    by (subst list_update_mem_write) (simp_all add: topo_offsets MaxSize_def topo_body_def min_def)
  moreover have "unat (of_nat (length es) :: byte) = length es"
    using n by (simp add: unsigned_of_nat take_bit_nat_eq_self)
  moreover have "OffsetLinks + (6 + 2) * length es + ?len + 1 = OffsetNumLinks + length (topo_body es name)"
    by (simp add: OffsetLinks_def)
  ultimately show ?thesis
    by (simp only: TopoPacket_setNeigh_def w option.case prod.case Let_def)
qed

lemma topo_body_read:
  assumes "length buf = MaxSize" "length es \<le> 40" "buf' = mem_write buf OffsetNumLinks (topo_body es name)"
    and "addr = OffsetLinks + 8 * length es"
  shows "buf' ! OffsetNumLinks = of_nat (length es)"
    "k < length es \<Longrightarrow> NodeId_ok (fst (es ! k)) \<Longrightarrow> topo_entry buf' k = es ! k"
    "buf' ! addr = of_nat (min (length name) 32)"
    "mem_read buf' (addr + 1) (min (length name) 32) = take 32 name"
    "off + n \<le> OffsetNumLinks \<Longrightarrow> mem_read buf' off n = mem_read buf off n"
proof -
  have fits: "OffsetNumLinks + length (topo_body es name) \<le> length buf"
    using assms(1,2) by (simp add: topo_offsets MaxSize_def)
  have at: "mem_read buf' (OffsetNumLinks + i) m = mem_read (topo_body es name) i m"
    if "i + m \<le> length (topo_body es name)" for i m
    using mem_read_write_inside [OF fits that] assms(3) by simp
  have nth: "buf' ! (OffsetNumLinks + i) = topo_body es name ! i" if "i < length (topo_body es name)" for i
    using nth_mem_write_in [OF fits, of "OffsetNumLinks + i"] that assms(3) by simp
  show "buf' ! OffsetNumLinks = of_nat (length es)" using nth [of 0] by (simp add: topo_body_def)
  show "buf' ! addr = of_nat (min (length name) 32)"
    using nth [of "1 + 8 * length es"] assms(4) by (simp add: topo_body_def OffsetLinks_def nth_append)
  show "mem_read buf' (addr + 1) (min (length name) 32) = take 32 name"
    using at [of "2 + 8 * length es" "min (length name) 32"] assms(4)
    by (simp add: topo_body_def OffsetLinks_def mem_read_def add.commute min_def)
  show "mem_read buf' off n = mem_read buf off n" if "off + n \<le> OffsetNumLinks"
    using mem_read_write_before [OF fits that] assms(3) by simp
  show "topo_entry buf' k = es ! k" if k: "k < length es" "NodeId_ok (fst (es ! k))"
  proof -
    have "mem_read (topo_body es name) (1 + i) m = mem_read (entry_bytes es) i m" if "i + m \<le> 8 * length es" for i m
      using that by (simp add: topo_body_def mem_read_def)
    then have "mem_read buf' (OffsetLinks + 8 * k) 6 = NodeId_toArray (fst (es ! k))"
      "mem_read buf' (OffsetLinks + 8 * k + 6) 2 = toArray (snd (es ! k))"
      using at [of "1 + 8 * k" 6] at [of "1 + (8 * k + 6)" 2] k read_entry_bytes [OF k(1)]
      by (simp_all only: OffsetLinks_def add.assoc) simp_all
    then show ?thesis
      using fromArray_toArray [of "snd (es ! k)" "[]"] NodeId_fromArray_toArray [OF k(2), of "[]"]
      by (simp add: topo_entry_def)
  qed
qed

text \<open>
  Property C34: what a station announces is what the others read.  For at most 40 neighbors the
  packet is written inside its buffer; its count is the number of bidirectional neighbors, its
  entries are their identifiers in order with the qualities of the metric, none of them zero,
  and the name follows; source, sequence number and validity are kept.
\<close>

theorem topo_packet_roundtrip:
  assumes "pkt_ok p" "length ns \<le> 40" "\<forall>d \<in> set ns. searchable i d \<and> NodeId_ok (nd_id d)"
    and "ds = announced i ns" "addr = OffsetLinks + 8 * length ds"
  shows "\<exists>q. TopoPacket_setNeigh i mq name ns p = Some (Some q) \<and> pkt_ok q \<and> psize q \<le> MaxSize \<and>
    getNumLinks q = length ds \<and>
    (\<forall>k < length ds. topo_entry (buffer q) k = (nd_id (ds ! k), get_quality mq (ds ! k)) \<and>
       get_quality mq (ds ! k) \<noteq> 0) \<and>
    unat (buffer q ! addr) = min (length name) 32 \<and>
    mem_read (buffer q) (addr + 1) (min (length name) 32) = take 32 name \<and>
    getSrc q = getSrc p \<and> getSeq q = getSeq p \<and> getValidity dur q = getValidity dur p"
proof -
  let ?es = "map (\<lambda>d. (nd_id d, get_quality mq d)) ds"
  let ?q = "p\<lparr>buffer := mem_write (buffer p) OffsetNumLinks (topo_body ?es name),
       psize := OffsetNumLinks + length (topo_body ?es name)\<rparr>"
  have n: "length ?es \<le> 40" "set ds \<subseteq> set ns"
    using assms(2,4) le_trans [OF length_filter_le] by (auto simp: announced_def)
  have len: "length (buffer p) = MaxSize" using assms(1) by (simp add: pkt_ok_def)
  note R = topo_body_read [OF len n(1) refl refl, where name = name]
  have "TopoPacket_setNeigh i mq name ns p = Some (Some ?q)"
    using setNeigh_body [OF assms(1,2) _ refl] assms(3,4) by simp
  moreover have "pkt_ok ?q" "psize ?q \<le> MaxSize"
    using n len by (simp_all add: pkt_ok_def topo_offsets MaxSize_def)
  moreover have "getNumLinks ?q = length ds" "unat (buffer ?q ! addr) = min (length name) 32"
    using R(1,3) n(1) assms(5) by (simp_all add: getNumLinks_def unsigned_of_nat take_bit_nat_eq_self)
  moreover have "topo_entry (buffer ?q) k = (nd_id (ds ! k), get_quality mq (ds ! k)) \<and>
       get_quality mq (ds ! k) \<noteq> 0" if "k < length ds" for k
  proof -
    have "ds ! k \<in> set ns" using that n(2) by auto
    then show ?thesis
      using R(2) [of k] assms(3) that by (auto simp: get_quality_def max_quality_def max_def)
  qed
  moreover have "mem_read (buffer ?q) (addr + 1) (min (length name) 32) = take 32 name"
    using R(4) assms(5) by simp
  moreover have "getSrc ?q = getSrc p" "getSeq ?q = getSeq p" "getValidity dur ?q = getValidity dur p"
    using R(5) [of OffsetSrc 6] R(5) [of OffsetSeq 2] R(5) [of OffsetValidity 4]
    by (simp_all add: getSrc_def getSeq_def getValidity_def topo_offsets)
  ultimately show ?thesis by blast
qed

section \<open>Witness\<close>

text \<open>A neighbor whose last beacon lists the station 0.\<close>

definition example_neighbor :: NodeDescr where
  "example_neighbor = (example_descr (NodeId 7))\<lparr>nd_lastBeacon := Some (setNumMpr 1 new_BasePacket), nd_active := True\<rparr>"

lemma example_neighbor_announced:
  "isBidiGood (NodeId 0) example_neighbor = Some (Some True)"
proof -
  let ?b = "Beacon (setNumMpr 1 new_BasePacket)"
  have "getNumMpr ?b = 1"
    by (simp add: getNumMpr_def Beacon_def setType_def setNumMpr_def new_BasePacket_def beacon_offsets MaxSize_def)
  moreover have "mem_read (buffer ?b) 13 6 = replicate 6 0"
    by (simp add: Beacon_def setType_def setNumMpr_def new_BasePacket_def beacon_offsets MaxSize_def mem_read_update_out)
      (simp add: mem_read_def)
  then have "neigh_entry ?b 0 = Some (NodeId 0)"
    by (simp add: neigh_entry_def beacon_offsets MaxSize_def NodeId_fromArray_def numeral_eq_Suc)
  ultimately have "hasMpr ?b (NodeId 0) = Some (Some True)"
    by (simp add: hasMpr_def hasNeighBinsearch.simps [of _ 0 1] signed_divide_int_def)
  then show ?thesis
    by (simp add: isBidiGood_def example_neighbor_def Beacon_hasNeigh_def isGood_def)
qed

theorem topo_packet_roundtrip_witness:
  "\<exists>q. TopoPacket_setNeigh (NodeId 0) Metric_my_get_quality [65] [example_neighbor] new_BasePacket = Some (Some q) \<and>
     getNumLinks q = 1 \<and> topo_entry (buffer q) 0 = (NodeId 7, 10)"
proof -
  have one: "announced (NodeId 0) [example_neighbor] = [example_neighbor]"
    by (simp add: announced_def example_neighbor_announced)
  have nd: "nd_id example_neighbor = NodeId 7" by (simp add: example_neighbor_def example_descr_def)
  then have ok: "\<forall>d \<in> set [example_neighbor]. searchable (NodeId 0) d \<and> NodeId_ok (nd_id d)"
    by (auto simp: searchable_def example_neighbor_announced NodeId_ok_def)
  have "get_quality Metric_my_get_quality example_neighbor = 10"
    by (simp add: get_quality_def Metric_my_get_quality_def max_quality_def)
  with nd topo_packet_roundtrip [OF example_pkt_ok _ ok one [symmetric] refl, of Metric_my_get_quality "[65]"]
  show ?thesis by fastforce
qed

end
