(* ===== verification/Topo_Feed.thy ===== *)
theory Topo_Feed
  imports Topo_Routes Topo_Packet Kernel_Route
begin

text \<open>
  The topology object (\<open>src/src/Topology.cc\<close>): its state, the notification of observers, the
  parsing of topology packets by \<open>feed\<close>, the removal of outdated nodes and links, and
  \<open>updateTopology\<close>, which recomputes the routes and hands the table to the kernel module.

  Calls that leave the object are recorded in a log: the observers of nodes and links, the
  installed metric, the subscribers of the topology descriptions (an XML description is a list of
  items) and the kernel.  What the metric computes, the durations of the GEA library and
  \<open>std::sort\<close> are the parameters in the record \<open>topo_env\<close>.
\<close>

section \<open>The state\<close>

record topo_env =
  te_duration :: "int \<Rightarrow> int \<Rightarrow> int"
  te_calculate :: "link_quality_t \<Rightarrow> link_quality_t \<Rightarrow> u32"
  te_sort :: "(NodeId \<Rightarrow> NodeId \<Rightarrow> bool) \<Rightarrow> NodeId list \<Rightarrow> NodeId list"

datatype xml_item =
  AddNode NodeId "byte list"
  | ModifyNode NodeId "byte list"
  | RemoveNode NodeId
  | AddEdge NodeId NodeId link_quality_t
  | ModifyEdge NodeId NodeId link_quality_t
  | RemoveEdge NodeId NodeId

datatype topo_event =
  NodesChanged nat
  | NodeAdded nat NodeId
  | NodeRemoved nat NodeId
  | LinksChanged nat
  | LinkAdded nat NodeId NodeId
  | LinkRemoved nat NodeId NodeId
  | XmlTopologyDelta "xml_item list"
  | DotTopology
  | MetricBeginUpdate
  | MetricEndUpdate
  | MetricAddNode NodeId
  | MetricDelNode NodeId
  | KernelUpdate "byte list"

record RTopology =
  adjList :: AdjList
  dirty :: bool
  locked :: bool
  myNodeId :: NodeId
  own_nodeName :: "byte list"
  next_buffer :: nat
  lastEventTime :: int
  xml_subscribed :: bool
  dot_subscribed :: bool
  nodeObservers :: "nat list"
  linkObservers :: "nat list"
  linuxbasic_cb :: bool
  topo_log :: "topo_event list"

definition emit :: "topo_event list \<Rightarrow> RTopology \<Rightarrow> RTopology" where
  "emit es t = t\<lparr>topo_log := topo_log t @ es\<rparr>"

section \<open>Observers\<close>

definition sendNodesChanged :: "RTopology \<Rightarrow> RTopology" where
  "sendNodesChanged t = emit (map NodesChanged (nodeObservers t)) t"

definition sendNodeAdded :: "NodeId \<Rightarrow> RTopology \<Rightarrow> RTopology" where
  "sendNodeAdded i t = emit (map (\<lambda>obs. NodeAdded obs i) (nodeObservers t)) t"

definition sendNodeRemoved :: "NodeId \<Rightarrow> RTopology \<Rightarrow> RTopology" where
  "sendNodeRemoved i t = emit (map (\<lambda>obs. NodeRemoved obs i) (nodeObservers t)) t"

definition sendLinksChanged :: "RTopology \<Rightarrow> RTopology" where
  "sendLinksChanged t = emit (map LinksChanged (linkObservers t)) t"

definition sendLinkAdded :: "NodeId \<Rightarrow> NodeId \<Rightarrow> RTopology \<Rightarrow> RTopology" where
  "sendLinkAdded from to t = emit (map (\<lambda>obs. LinkAdded obs from to) (linkObservers t)) t"

definition sendLinkRemoved :: "NodeId \<Rightarrow> NodeId \<Rightarrow> RTopology \<Rightarrow> RTopology" where
  "sendLinkRemoved from to t = emit (map (\<lambda>obs. LinkRemoved obs from to) (linkObservers t)) t"

section \<open>Names and lookups\<close>

definition c_string :: "string \<Rightarrow> byte list" where
  "c_string s = map of_char s"

text \<open>The characters that need no quoting, and the decimal number of the others.\<close>

definition is_plain :: "byte \<Rightarrow> bool" where
  "is_plain c \<longleftrightarrow> 48 \<le> c \<and> c \<le> 57 \<or> 65 \<le> c \<and> c \<le> 90 \<or> 97 \<le> c \<and> c \<le> 122 \<or>
     c \<in> set (c_string ''-+*?$%/()[]{}^;._'')"

fun decimal :: "nat \<Rightarrow> string" where
  "decimal n = (if n < 10 then [''0123456789'' ! n] else decimal (n div 10) @ [''0123456789'' ! (n mod 10)])"

declare decimal.simps [simp del]

definition decimal_int :: "int \<Rightarrow> string" where
  "decimal_int i = (if i < 0 then ''-'' @ decimal (nat (- i)) else decimal (nat i))"

definition quote_char :: "byte \<Rightarrow> byte list" where
  "quote_char c = (if is_plain c then [c] else c_string (''&#'' @ decimal_int (sint c) @ '';''))"

text \<open>
  The name of a node of the list; the source follows the iterator before it is compared with
  the end, so the lookup of an absent node is an error.
\<close>

definition getNameOfNode :: "NodeId \<Rightarrow> AdjList \<Rightarrow> topo_error + byte list" where
  "getNameOfNode i a =
     (case om_find i a of None \<Rightarrow> Inl DanglingPointer
      | Some d \<Rightarrow>
          let n = nodeName d;
              ret = n;
              ambiguous = (n = [] \<or> (\<exists>(i', d') \<in> set a. nodeName d' = n \<and> i' \<noteq> i));
              ret = (if ambiguous then ret @ c_string (''['' @ NodeId_print i @ '']'') else ret)
          in Inr (concat (map quote_char ret)))"

definition hasNode :: "NodeId \<Rightarrow> RTopology \<Rightarrow> bool" where
  "hasNode node t \<longleftrightarrow> om_find node (adjList t) \<noteq> None"

definition hasLink :: "NodeId \<Rightarrow> NodeId \<Rightarrow> RTopology \<Rightarrow> bool" where
  "hasLink from to t = AdjList_has_link from to (adjList t)"

definition getNumNodes :: "RTopology \<Rightarrow> nat" where
  "getNumNodes t = length (adjList t)"

definition setLocked :: "bool \<Rightarrow> RTopology \<Rightarrow> RTopology" where
  "setLocked b t = t\<lparr>locked := b\<rparr>"

definition getLocked :: "RTopology \<Rightarrow> bool" where
  "getLocked t = locked t"

text \<open>Finding the entry of a node, or making one that is valid for a tenth of a second.\<close>

definition getNodeEntry :: "topo_env \<Rightarrow> NodeId \<Rightarrow> RTopology \<Rightarrow> topo_error + RTopology" where
  "getNodeEntry env i t =
     (case om_find i (adjList t) of
        Some _ \<Rightarrow> Inr t
      | None \<Rightarrow>
          let v = lastEventTime t + te_duration env 1 10;
              d = NDescr_new (next_buffer t)\<lparr>nodeValidity := v, edgeValidity := v\<rparr>;
              t = t\<lparr>adjList := om_insert i d (adjList t), next_buffer := next_buffer t + 1\<rparr>;
              t = sendNodeAdded i (sendNodesChanged t)
          in if xml_subscribed t
             then rbind (getNameOfNode i (adjList t)) (\<lambda>n. Inr (emit [XmlTopologyDelta [AddNode i n]] t))
             else Inr t)"

definition on_node :: "NodeId \<Rightarrow> (NDescr \<Rightarrow> NDescr) \<Rightarrow> RTopology \<Rightarrow> RTopology" where
  "on_node i f t = t\<lparr>adjList := om_adjust i f (adjList t)\<rparr>"

definition on_links :: "(AdjList \<Rightarrow> topo_error + AdjList) \<Rightarrow> RTopology \<Rightarrow> topo_error + RTopology" where
  "on_links f t = rbind (f (adjList t)) (\<lambda>a. Inr (t\<lparr>adjList := a\<rparr>))"

section \<open>Removing what is outdated\<close>

fun remove_references :: "nat \<Rightarrow> nat \<Rightarrow> nat \<Rightarrow> AdjList \<Rightarrow> topo_error + AdjList" where
  "remove_references b k 0 a = Inr a"
| "remove_references b k (Suc n) a =
     rbind (remove_reference (b, k) a) (remove_references b (Suc k) n)"

text \<open>The local variables of \<open>removeOldNodes\<close>.\<close>

record remove_state =
  rs_topo :: RTopology
  rs_edges :: "xml_item list"
  rs_nodes :: "xml_item list"
  rs_removed :: bool
  rs_timeout :: int

definition remove_edges :: "NodeId \<Rightarrow> NDescr \<Rightarrow> remove_state \<Rightarrow> topo_error + remove_state" where
  "remove_edges i d r =
     rbind (on_links (remove_references (ll_buffer d) 0 (length (linklist d))) (rs_topo r)) (\<lambda>t.
       let ns = map neighbor (linklist d);
           r = (if xml_subscribed t \<or> linkObservers t \<noteq> []
                then r\<lparr>rs_topo := fold (sendLinkRemoved i) ns t,
                       rs_edges := rs_edges r @ map (RemoveEdge i) ns\<rparr>
                else r\<lparr>rs_topo := t\<rparr>)
       in Inr (r\<lparr>rs_topo := on_node i (\<lambda>d. d\<lparr>linklist := []\<rparr>) (rs_topo r), rs_removed := True\<rparr>))"

definition remove_node :: "NodeId \<Rightarrow> remove_state \<Rightarrow> remove_state" where
  "remove_node i r =
     (let t = rs_topo r;
          r = (if xml_subscribed t \<or> linkObservers t \<noteq> [] then r\<lparr>rs_nodes := rs_nodes r @ [RemoveNode i]\<rparr> else r)
      in r\<lparr>rs_removed := True, rs_topo := sendNodeRemoved i (t\<lparr>adjList := om_erase i (adjList t)\<rparr>)\<rparr>)"

text \<open>The loop over the nodes; the list holds the nodes that were there at the beginning.\<close>

fun remove_loop :: "NodeId list \<Rightarrow> remove_state \<Rightarrow> topo_error + remove_state" where
  "remove_loop [] r = Inr r"
| "remove_loop (i # is) r =
     (case om_find i (adjList (rs_topo r)) of None \<Rightarrow> Inl DanglingPointer
      | Some d \<Rightarrow>
          let t = lastEventTime (rs_topo r) in
          rbind (if edgeValidity d \<le> t then remove_edges i d r else Inr r) (\<lambda>r.
            remove_loop is
              (if nodeValidity d \<le> t then remove_node i r
               else if nodeValidity d < rs_timeout r then r\<lparr>rs_timeout := nodeValidity d\<rparr> else r)))"

definition removeOldNodes :: "topo_env \<Rightarrow> RTopology \<Rightarrow> topo_error + (int \<times> RTopology)" where
  "removeOldNodes env t =
     (let nextTimeout = lastEventTime t + te_duration env 31415 10 in
      if adjList t = [] then Inl AssertFails
      else if locked t then Inr (nextTimeout, t)
      else rbind (remove_loop (map fst (adjList t))
          \<lparr>rs_topo = t, rs_edges = [], rs_nodes = [], rs_removed = False, rs_timeout = nextTimeout\<rparr>) (\<lambda>r.
        let t = rs_topo r;
            t = (if xml_subscribed t \<and> rs_removed r
                 then sendLinksChanged (sendNodesChanged (emit [XmlTopologyDelta (rs_edges r @ rs_nodes r)] t))
                 else t)
        in Inr (rs_timeout r, t)))"

definition topo_reset :: "topo_env \<Rightarrow> int \<Rightarrow> RTopology \<Rightarrow> topo_error + RTopology" where
  "topo_reset env now t =
     (let t = t\<lparr>dirty := True, adjList := map (\<lambda>(i, d). (i, if i \<noteq> myNodeId t
            then d\<lparr>nodeValidity := now, edgeValidity := now\<rparr> else d)) (adjList t)\<rparr>
      in rbind (removeOldNodes env t) (\<lambda>(_, t). Inr t))"

section \<open>Updating the routes and the kernel\<close>

text \<open>The table for the kernel: its length in bytes, then per node the identifier and the next hop.\<close>

fun write_table :: "nat \<Rightarrow> AdjList \<Rightarrow> byte list \<Rightarrow> byte list" where
  "write_table c [] buf = buf"
| "write_table c ((i, d) # a) buf =
     (let buf = mem_write buf (4 + c * 6) (NodeId_toArray i);
          buf = mem_write buf (4 + (c + 1) * 6) (NodeId_toArray (nextHop d))
      in write_table (c + 2) a buf)"

definition topology_data :: "AdjList \<Rightarrow> byte list" where
  "topology_data a =
     (let node_count = length a;
          buf = replicate (4 + node_count * 2 * 6) 0;
          total_bytes = of_nat (node_count * 2 * 6)
      in write_table 0 a (mem_write buf 0 (store_int total_bytes)))"

definition updateTopology :: "topo_env \<Rightarrow> RTopology \<Rightarrow> (topo_error + RTopology) option" where
  "updateTopology env t =
     (case removeOldNodes env t of Inl e \<Rightarrow> Some (Inl e)
      | Inr (_, t) \<Rightarrow>
          (case calcRoutes (te_sort env) (myNodeId t) (adjList t) of
             None \<Rightarrow> None
           | Some (Inl e) \<Rightarrow> Some (Inl e)
           | Some (Inr a) \<Rightarrow>
               let t = t\<lparr>adjList := a, dirty := False\<rparr>
               in Some (Inr (if linuxbasic_cb t then emit [KernelUpdate (topology_data a)] t else t))))"

text \<open>The caller passes its variable for the next hop, which is written only if there is an entry.\<close>

definition RTopology_getNextHop ::
  "topo_env \<Rightarrow> NodeId \<Rightarrow> NodeId \<Rightarrow> RTopology \<Rightarrow> (topo_error + (NodeId \<times> bool) \<times> RTopology) option" where
  "RTopology_getNextHop env dest nextHop0 t =
     (case (if dirty t then updateTopology env t else Some (Inr t)) of
        None \<Rightarrow> None
      | Some (Inl e) \<Rightarrow> Some (Inl e)
      | Some (Inr t) \<Rightarrow>
          let (nh, found) = (case om_find dest (adjList t) of None \<Rightarrow> (nextHop0, False) | Some d \<Rightarrow> (nextHop d, True));
              found = (if nh = myNodeId t then False else found)
          in Some (Inr ((nh, found), t)))"

section \<open>Feeding a packet\<close>

text \<open>
  The loop over the entries.  It stops at an entry out of order; the assertion on the length that
  follows it fails then.  The result holds the links, the last node read and the position.
\<close>

fun parse_links ::
  "byte list \<Rightarrow> nat \<Rightarrow> nat \<Rightarrow> LinkQuality list \<Rightarrow> NodeId \<Rightarrow> topo_error + (LinkQuality list \<times> NodeId \<times> nat)" where
  "parse_links buf addr 0 acc node = Inr (acc, node, addr)"
| "parse_links buf addr (Suc n) acc node =
     (let node = NodeId_fromArray (mem_read buf addr 6);
          q = fromArray (mem_read buf (addr + 6) 2);
          addr = addr + 6 + 2
      in if q = 0 then Inl AssertFails
         else if acc \<noteq> [] \<and> neighbor (List.last acc) \<ge> node then Inr (acc, node, addr)
         else parse_links buf addr n (acc @ [LinkQuality_new node q]) node)"

text \<open>The local variables of the merge of the old and the new links.\<close>

record feed_state =
  fs_topo :: RTopology
  fs_xml :: "xml_item list"
  fs_changed :: bool

text \<open>
  The counterpart of a link is looked up in the entry of the neighbor, which is made if needed;
  it is also valid as long as the packet says.
\<close>

definition neighbor_entry ::
  "topo_env \<Rightarrow> NodeId \<Rightarrow> NodeId \<Rightarrow> int option \<Rightarrow> RTopology \<Rightarrow> topo_error + lq_ptr option \<times> RTopology" where
  "neighbor_entry env src n newValidity t =
     rbind (getNodeEntry env n t) (\<lambda>t.
       let t = (case newValidity of None \<Rightarrow> t | Some v \<Rightarrow> on_node n (update_nodeValidity v) t)
       in case om_find n (adjList t) of None \<Rightarrow> Inl DanglingPointer
          | Some d \<Rightarrow> Inr (findLinkQuality src d, t))"

definition xml_if :: "RTopology \<Rightarrow> xml_item \<Rightarrow> xml_item list" where
  "xml_if t x = (if xml_subscribed t then [x] else [])"

text \<open>Case 1: the link is kept.\<close>

definition keep_link ::
  "topo_env \<Rightarrow> NodeId \<Rightarrow> int \<Rightarrow> lq_ptr \<Rightarrow> LinkQuality \<Rightarrow> LinkQuality \<Rightarrow> feed_state \<Rightarrow> topo_error + feed_state" where
  "keep_link env src newValidity self l l_old f =
     rbind (neighbor_entry env src (neighbor l) (Some newValidity) (fs_topo f)) (\<lambda>(c, t).
     rbind (on_links (set_counterpart self c) t) (\<lambda>t.
     rbind (on_links (calculate (te_calculate env) self) t) (\<lambda>t.
       Inr (if lq_quality l \<noteq> lq_quality l_old
            then f\<lparr>fs_topo := t\<lparr>dirty := True\<rparr>,
                   fs_xml := fs_xml f @ xml_if t (ModifyEdge src (neighbor l) (lq_quality l))\<rparr>
            else f\<lparr>fs_topo := t\<rparr>))))"

text \<open>Case 2: a new link.  The metric is told the last node of the packet.\<close>

definition new_link ::
  "topo_env \<Rightarrow> NodeId \<Rightarrow> NodeId \<Rightarrow> int \<Rightarrow> lq_ptr \<Rightarrow> LinkQuality \<Rightarrow> feed_state \<Rightarrow> topo_error + feed_state" where
  "new_link env src node newValidity self l f =
     rbind (neighbor_entry env src (neighbor l) (Some newValidity) (fs_topo f)) (\<lambda>(c, t).
     rbind (on_links (set_counterpart self c) t) (\<lambda>t.
       let xml = fs_xml f @ xml_if t (AddEdge src (neighbor l) (lq_quality l));
           t = sendLinkAdded src (neighbor l) t
       in rbind (on_links (calculate (te_calculate env) self) (t\<lparr>dirty := True\<rparr>)) (\<lambda>t.
            let t = (if src = myNodeId t then emit [MetricAddNode node] t else t)
            in Inr \<lparr>fs_topo = t, fs_xml = xml, fs_changed = True\<rparr>)))"

text \<open>Case 3: an old link was removed.\<close>

definition old_link ::
  "topo_env \<Rightarrow> NodeId \<Rightarrow> NodeId \<Rightarrow> LinkQuality \<Rightarrow> feed_state \<Rightarrow> topo_error + feed_state" where
  "old_link env src node l_old f =
     rbind (neighbor_entry env src (neighbor l_old) None (fs_topo f)) (\<lambda>(c, t).
     rbind (case c of None \<Rightarrow> Inr t | Some p \<Rightarrow> on_links (set_counterpart p None) t) (\<lambda>t.
       let xml = fs_xml f @ xml_if t (RemoveEdge src (neighbor l_old));
           t = (sendLinkRemoved src (neighbor l_old) t)\<lparr>dirty := True\<rparr>;
           t = (if src = myNodeId t then emit [MetricDelNode node] t else t)
       in Inr \<lparr>fs_topo = t, fs_xml = xml, fs_changed = True\<rparr>))"

text \<open>
  The loop.  The new links are in buffer \<open>b\<close> from index \<open>k\<close> on; their neighbors and qualities,
  which do not change, are given as a list.
\<close>

fun feed_merge ::
  "topo_env \<Rightarrow> NodeId \<Rightarrow> NodeId \<Rightarrow> int \<Rightarrow> nat \<Rightarrow> nat \<Rightarrow> LinkQuality list \<Rightarrow> LinkQuality list \<Rightarrow>
   feed_state \<Rightarrow> topo_error + feed_state" where
  "feed_merge env src node v b k [] [] f = Inr f"
| "feed_merge env src node v b k (l # ls) [] f =
     rbind (new_link env src node v (b, k) l f) (feed_merge env src node v b (Suc k) ls [])"
| "feed_merge env src node v b k [] (m # ms) f =
     rbind (old_link env src node m f) (feed_merge env src node v b k [] ms)"
| "feed_merge env src node v b k (l # ls) (m # ms) f =
     (if neighbor l = neighbor m
      then rbind (keep_link env src v (b, k) l m f) (feed_merge env src node v b (Suc k) ls ms)
      else if neighbor l < neighbor m
      then rbind (new_link env src node v (b, k) l f) (feed_merge env src node v b (Suc k) ls (m # ms))
      else rbind (old_link env src node m f) (feed_merge env src node v b k (l # ls) ms))"

text \<open>The name at the end of the packet.\<close>

definition parse_name :: "BasePacket \<Rightarrow> nat \<Rightarrow> byte list option" where
  "parse_name p addr =
     (if psize p > addr
      then let namelen = min (unat (buffer p ! addr)) 32
        in Some (takeWhile (\<lambda>c. c \<noteq> 0) (mem_read (buffer p) (addr + 1) namelen))
      else None)"

definition feed_name :: "NodeId \<Rightarrow> BasePacket \<Rightarrow> nat \<Rightarrow> feed_state \<Rightarrow> topo_error + feed_state" where
  "feed_name src p addr f =
     (let t = fs_topo f in
      case (parse_name p addr, om_find src (adjList t)) of
        (Some name, Some d) \<Rightarrow>
          let t' = on_node src (\<lambda>d. d\<lparr>nodeName := name\<rparr>) t
          in if xml_subscribed t \<and> nodeName d \<noteq> name
             then rbind (getNameOfNode src (adjList t')) (\<lambda>n.
                    Inr (f\<lparr>fs_topo := t', fs_xml := fs_xml f @ [ModifyNode src n]\<rparr>))
             else Inr (f\<lparr>fs_topo := t'\<rparr>)
      | (Some name, None) \<Rightarrow> Inl DanglingPointer
      | _ \<Rightarrow> Inr f)"

text \<open>The notifications at the end.\<close>

definition feed_notify :: "feed_state \<Rightarrow> RTopology" where
  "feed_notify f =
     (let t = fs_topo f;
          t = (if fs_xml f \<noteq> [] then emit [XmlTopologyDelta (fs_xml f)] t else t);
          t = (if fs_changed f then sendLinksChanged t else t)
      in if dirty t \<and> dot_subscribed t then emit [DotTopology] t else t)"

definition feed_links ::
  "topo_env \<Rightarrow> BasePacket \<Rightarrow> NodeId \<Rightarrow> int \<Rightarrow> LinkQuality list \<Rightarrow> nat \<Rightarrow> RTopology \<Rightarrow> (topo_error + RTopology) option" where
  "feed_links env p src newValidity old b t =
     (let n = getNumLinks p;
          t = (if src = myNodeId t then emit [MetricBeginUpdate] t else t)
      in case rbind (parse_links (buffer p) OffsetLinks n [] NodeId_default) (\<lambda>(links, node, addr).
          if length links \<noteq> n then Inl AssertFails
          else rbind (feed_merge env src node newValidity b 0 links old
                 \<lparr>fs_topo = on_node src (\<lambda>d. d\<lparr>linklist := links\<rparr>) t, fs_xml = [], fs_changed = False\<rparr>) (\<lambda>f.
            let f = (if src = myNodeId t then f\<lparr>fs_topo := emit [MetricEndUpdate] (fs_topo f)\<rparr> else f)
            in rbind (feed_name src p addr f) (\<lambda>f. Inr (feed_notify f)))) of
        Inl e \<Rightarrow> Some (Inl e)
      | Inr t \<Rightarrow> if dirty t then updateTopology env t else Some (Inr t))"

definition feed :: "topo_env \<Rightarrow> BasePacket \<Rightarrow> RTopology \<Rightarrow> (topo_error + RTopology) option" where
  "feed env p t =
     (if locked t then Some (Inr t)
      else if psize p < OffsetLinks + 1 then Some (Inr t)
      else let src = getSrc p; n = getNumLinks p in
        case getNodeEntry env src t of Inl e \<Rightarrow> Some (Inl e)
        | Inr t \<Rightarrow>
            if \<not> getValidity (te_duration env) p > 0 then Some (Inl AssertFails)
            else let newValidity = lastEventTime t + getValidity (te_duration env) p;
                t = on_node src (\<lambda>d. (update_nodeValidity newValidity d)\<lparr>edgeValidity := newValidity\<rparr>) t;
                old = (case om_find src (adjList t) of None \<Rightarrow> [] | Some d \<Rightarrow> linklist d);
                b = next_buffer t;
                t = (on_node src (\<lambda>d. d\<lparr>linklist := replicate n LinkQuality_default, ll_buffer := b\<rparr>) t)
                      \<lparr>next_buffer := b + 1\<rparr>
              in if psize p < OffsetLinks + n * (6 + 2) then Some (Inr t)
                 else feed_links env p src newValidity old b t)"

section \<open>Construction\<close>

text \<open>
  The constructor: a list with the station itself, valid for five intervals, which is cleaned up
  at once.  The name is empty and the base metric is installed.
\<close>

definition RTopology_new :: "topo_env \<Rightarrow> NodeId \<Rightarrow> int \<Rightarrow> bool \<Rightarrow> topo_error + (int \<times> RTopology)" where
  "RTopology_new env i now cb =
     (let v = now + te_duration env (5 * TOPO_INTERVAL) 1000
      in removeOldNodes env
        \<lparr>adjList = [(i, NDescr_new 0\<lparr>nodeValidity := v, edgeValidity := v\<rparr>)], dirty = True, locked = False,
         myNodeId = i, own_nodeName = [], next_buffer = 1, lastEventTime = now, xml_subscribed = False,
         dot_subscribed = False, nodeObservers = [], linkObservers = [], linuxbasic_cb = cb, topo_log = []\<rparr>)"

end
