(* ===== verification/Flood_History.thy ===== *)
theory Flood_History
  imports Node_Id
begin

text \<open>
  The ring buffer that remembers recent flood packets (\<open>src/src/awds/FloodHistory.h\<close>,
  \<open>src/src/FloodHistory.cc\<close>), against the specification of a filter that knows the most
  recent entries up to its capacity, newest first.
\<close>

section \<open>The ring buffer\<close>

record Entry =
  ent_id :: NodeId
  ent_seq :: u16

definition FLOOD_HISTORY_NUM_ENTRIES :: nat where
  "FLOOD_HISTORY_NUM_ENTRIES = 0x80"

record FloodHistory =
  fh_end :: nat
  fh_count :: nat
  fh_hist :: "Entry list"

text \<open>The constructor leaves the entries uninitialised; they are an argument here.\<close>

definition new_FloodHistory :: "Entry list \<Rightarrow> FloodHistory" where
  "new_FloodHistory mem = \<lparr>fh_end = 0, fh_count = 0, fh_hist = mem\<rparr>"

definition FloodHistory_insert :: "NodeId \<Rightarrow> u16 \<Rightarrow> FloodHistory \<Rightarrow> FloodHistory" where
  "FloodHistory_insert i s fh =
     (let e = (fh_end fh + 1) mod FLOOD_HISTORY_NUM_ENTRIES
      in \<lparr>fh_end = e, fh_count = min (fh_count fh + 1) FLOOD_HISTORY_NUM_ENTRIES,
          fh_hist = (fh_hist fh)[e := \<lparr>ent_id = i, ent_seq = s\<rparr>]\<rparr>)"

fun contains_loop :: "FloodHistory \<Rightarrow> NodeId \<Rightarrow> u16 \<Rightarrow> nat \<Rightarrow> nat \<Rightarrow> bool" where
  "contains_loop fh i s p 0 = False"
| "contains_loop fh i s p (Suc n) =
     (if ent_seq (fh_hist fh ! p) = s \<and> ent_id (fh_hist fh ! p) = i then True
      else contains_loop fh i s (if p = 0 then FLOOD_HISTORY_NUM_ENTRIES - 1 else p - 1) n)"

definition FloodHistory_contains :: "FloodHistory \<Rightarrow> NodeId \<Rightarrow> u16 \<Rightarrow> bool" where
  "FloodHistory_contains fh i s = contains_loop fh i s (fh_end fh) (fh_count fh)"

text \<open>The sequence numbers that are printed, whatever the number of valid entries.\<close>

definition printHistoryOfNode :: "FloodHistory \<Rightarrow> NodeId \<Rightarrow> u16 list" where
  "printHistoryOfNode fh i =
     map ent_seq (filter (\<lambda>e. ent_id e = i)
       (map (\<lambda>k. fh_hist fh ! k) [0..<FLOOD_HISTORY_NUM_ENTRIES]))"

section \<open>Specification: a recency filter\<close>

text \<open>
  A recency filter behaves as a list of its entries, newest first, cut at its capacity.
\<close>

locale recency_filter =
  fixes ins :: "'e \<Rightarrow> 's \<Rightarrow> 's"
    and mem :: "'s \<Rightarrow> 'e \<Rightarrow> bool"
    and ok :: "'s \<Rightarrow> bool"
    and recent :: "'s \<Rightarrow> 'e list"
    and capacity :: nat
  assumes ins_ok: "ok s \<Longrightarrow> ok (ins e s)"
    and recent_ins: "ok s \<Longrightarrow> recent (ins e s) = take capacity (e # recent s)"
    and mem_recent: "ok s \<Longrightarrow> mem s e \<longleftrightarrow> e \<in> set (recent s)"
    and capacity_pos: "0 < capacity"
begin

lemma fold_ok: "ok s \<Longrightarrow> ok (fold ins es s)"
  by (induction es arbitrary: s) (auto simp: ins_ok)

lemma take_Cons_take: "take capacity (e # take capacity xs) = take capacity (e # xs)"
  using capacity_pos by (cases capacity) (simp_all add: min_def)

lemma recent_fold: "ok s \<Longrightarrow> es \<noteq> [] \<Longrightarrow> recent (fold ins es s) = take capacity (rev es @ recent s)"
proof (induction es rule: rev_induct)
  case (snoc e es)
  show ?case
  proof (cases "es = []")
    case True
    then show ?thesis using snoc.prems by (simp add: recent_ins)
  next
    case False
    then show ?thesis
      using snoc by (simp add: recent_ins fold_ok take_Cons_take del: take_append)
  qed
qed simp

lemma mem_fold:
  "ok s \<Longrightarrow> es \<noteq> [] \<Longrightarrow> mem (fold ins es s) e \<longleftrightarrow> e \<in> set (take capacity (rev es @ recent s))"
  by (simp add: mem_recent fold_ok recent_fold)

lemma mem_just_inserted: "ok s \<Longrightarrow> length es < capacity \<Longrightarrow> mem (fold ins es (ins e s)) e"
proof (cases "es = []")
  case True
  assume "ok s"
  then show ?thesis
    using True capacity_pos by (cases capacity) (simp_all add: mem_recent ins_ok recent_ins)
next
  case False
  assume s: "ok s" "length es < capacity"
  then have "mem (fold ins es (ins e s)) e \<longleftrightarrow>
      e \<in> set (take capacity (rev es @ take capacity (e # recent s)))"
    using False by (simp add: mem_fold ins_ok recent_ins)
  moreover have "e \<in> set (take (capacity - length es) (take capacity (e # recent s)))"
    using s(2) by (cases "capacity - length es") (auto simp: take_Cons')
  ultimately show ?thesis by simp
qed

end

section \<open>The ring buffer is a recency filter\<close>

definition fh_ok :: "FloodHistory \<Rightarrow> bool" where
  "fh_ok fh \<longleftrightarrow> length (fh_hist fh) = FLOOD_HISTORY_NUM_ENTRIES \<and>
     fh_end fh < FLOOD_HISTORY_NUM_ENTRIES \<and> fh_count fh \<le> FLOOD_HISTORY_NUM_ENTRIES"

definition fh_back :: "nat \<Rightarrow> nat \<Rightarrow> nat" where
  "fh_back p k = (if k \<le> p then p - k else FLOOD_HISTORY_NUM_ENTRIES + p - k)"

definition fh_pair :: "Entry \<Rightarrow> NodeId \<times> u16" where
  "fh_pair e = (ent_id e, ent_seq e)"

definition fh_recent :: "FloodHistory \<Rightarrow> (NodeId \<times> u16) list" where
  "fh_recent fh = map (\<lambda>k. fh_pair (fh_hist fh ! fh_back (fh_end fh) k)) [0..<fh_count fh]"

lemma contains_loop_iff:
  assumes "p < FLOOD_HISTORY_NUM_ENTRIES" "n \<le> FLOOD_HISTORY_NUM_ENTRIES"
  shows "contains_loop fh i s p n \<longleftrightarrow> (\<exists>k < n. fh_pair (fh_hist fh ! fh_back p k) = (i, s))"
  using assms
proof (induction n arbitrary: p)
  case (Suc n)
  let ?p' = "if p = 0 then FLOOD_HISTORY_NUM_ENTRIES - 1 else p - 1"
  have p': "?p' < FLOOD_HISTORY_NUM_ENTRIES"
    using Suc.prems by (auto simp: FLOOD_HISTORY_NUM_ENTRIES_def)
  have prev: "fh_back ?p' k = fh_back p (Suc k)" if "k < n" for k
    using that Suc.prems by (auto simp: fh_back_def FLOOD_HISTORY_NUM_ENTRIES_def)
  have "contains_loop fh i s p (Suc n) \<longleftrightarrow>
      fh_pair (fh_hist fh ! fh_back p 0) = (i, s) \<or> contains_loop fh i s ?p' n"
    by (auto simp: fh_pair_def fh_back_def)
  also have "\<dots> \<longleftrightarrow> fh_pair (fh_hist fh ! fh_back p 0) = (i, s) \<or>
      (\<exists>k < n. fh_pair (fh_hist fh ! fh_back p (Suc k)) = (i, s))"
    using Suc.IH [OF p'] Suc.prems prev by auto
  also have "\<dots> \<longleftrightarrow> (\<exists>k < Suc n. fh_pair (fh_hist fh ! fh_back p k) = (i, s))"
    using less_Suc_eq_0_disj by auto
  finally show ?case .
qed simp

lemma fh_recent_insert:
  assumes "fh_ok fh"
  shows "fh_recent (FloodHistory_insert i s fh) =
    take FLOOD_HISTORY_NUM_ENTRIES ((i, s) # fh_recent fh)"
proof (rule nth_equalityI)
  let ?fh = "FloodHistory_insert i s fh"
  show len: "length (fh_recent ?fh) =
      length (take FLOOD_HISTORY_NUM_ENTRIES ((i, s) # fh_recent fh))"
    using assms by (auto simp: fh_recent_def FloodHistory_insert_def Let_def)
  fix k
  assume "k < length (fh_recent ?fh)"
  then have k: "k < FLOOD_HISTORY_NUM_ENTRIES" "k \<le> fh_count fh"
    by (auto simp: fh_recent_def FloodHistory_insert_def Let_def)
  let ?e = "(fh_end fh + 1) mod FLOOD_HISTORY_NUM_ENTRIES"
  have e: "?e < FLOOD_HISTORY_NUM_ENTRIES" "fh_end fh < FLOOD_HISTORY_NUM_ENTRIES"
    "?e = (if fh_end fh = 127 then 0 else fh_end fh + 1)"
    using assms by (auto simp: FLOOD_HISTORY_NUM_ENTRIES_def fh_ok_def)
  have idx: "fh_back ?e k = ?e \<longleftrightarrow> k = 0" "k \<noteq> 0 \<Longrightarrow> fh_back ?e k = fh_back (fh_end fh) (k - 1)"
    unfolding e(3) using k e(2) by (auto simp: fh_back_def FLOOD_HISTORY_NUM_ENTRIES_def)
  have nth: "fh_recent ?fh ! k = fh_pair ((fh_hist fh)[?e := \<lparr>ent_id = i, ent_seq = s\<rparr>] ! fh_back ?e k)"
    using k by (simp add: fh_recent_def FloodHistory_insert_def Let_def del: upt_Suc)
  show "fh_recent ?fh ! k = take FLOOD_HISTORY_NUM_ENTRIES ((i, s) # fh_recent fh) ! k"
  proof (cases "k = 0")
    case True
    then have "fh_back ?e k = ?e" using idx by blast
    then show ?thesis
      using True nth k e(1) assms by (simp add: fh_pair_def fh_ok_def)
  next
    case False
    then have "k - 1 < fh_count fh" using k by auto
    with False show ?thesis
      unfolding nth using k idx by (simp add: fh_recent_def nth_Cons')
  qed
qed

interpretation fh: recency_filter "\<lambda>(i, s). FloodHistory_insert i s"
  "\<lambda>fh (i, s). FloodHistory_contains fh i s" fh_ok fh_recent FLOOD_HISTORY_NUM_ENTRIES
proof (unfold_locales, goal_cases)
  case (1 s e)
  then show ?case
    by (auto simp: fh_ok_def FloodHistory_insert_def Let_def FLOOD_HISTORY_NUM_ENTRIES_def
        split: prod.splits)
next
  case (2 s e)
  then show ?case by (auto simp: fh_recent_insert split: prod.splits)
next
  case (3 s e)
  then show ?case
    by (auto simp: FloodHistory_contains_def contains_loop_iff fh_ok_def fh_recent_def
        split: prod.splits)
next
  case 4
  then show ?case by (simp add: FLOOD_HISTORY_NUM_ENTRIES_def)
qed

lemma new_fh_ok: "length mem = FLOOD_HISTORY_NUM_ENTRIES \<Longrightarrow> fh_ok (new_FloodHistory mem)"
  by (simp add: fh_ok_def new_FloodHistory_def FLOOD_HISTORY_NUM_ENTRIES_def)

lemma fh_recent_new: "fh_recent (new_FloodHistory mem) = []"
  by (simp add: fh_recent_def new_FloodHistory_def)

section \<open>Properties\<close>

text \<open>
  Property C27: the flood history refines its specification.  Starting from any uninitialised
  memory, after any sequence of insertions the ring buffer reports a packet exactly when the
  packet is among the last 128 inserted ones; memory that was never written is never reported.
\<close>

theorem FloodHistory_contains_recent:
  assumes "length mem = FLOOD_HISTORY_NUM_ENTRIES"
  shows "FloodHistory_contains
      (fold (\<lambda>(i, s). FloodHistory_insert i s) es (new_FloodHistory mem)) i s \<longleftrightarrow>
    (i, s) \<in> set (take FLOOD_HISTORY_NUM_ENTRIES (rev es))"
proof (cases "es = []")
  case True
  then show ?thesis by (simp add: FloodHistory_contains_def new_FloodHistory_def)
next
  case False
  then show ?thesis
    using fh.mem_fold [OF new_fh_ok [OF assms] False, of "(i, s)"]
    by (simp add: fh_recent_new)
qed

theorem FloodHistory_contains_recent_witness:
  "\<not> FloodHistory_contains (fold (\<lambda>(i, s). FloodHistory_insert i s) [(NodeId 1, 5)]
      (new_FloodHistory (replicate FLOOD_HISTORY_NUM_ENTRIES \<lparr>ent_id = NodeId 0, ent_seq = 0\<rparr>)))
      (NodeId 0) 0"
  by (subst FloodHistory_contains_recent) (simp_all add: FLOOD_HISTORY_NUM_ENTRIES_def)

text \<open>
  A packet that has been seen is recognised as a duplicate until 128 other
  packets have been recorded, in every well-formed history.
\<close>

theorem FloodHistory_remembers:
  assumes "fh_ok fh" "length es < FLOOD_HISTORY_NUM_ENTRIES"
  shows "FloodHistory_contains
    (fold (\<lambda>(i, s). FloodHistory_insert i s) es (FloodHistory_insert i s fh)) i s"
  using fh.mem_just_inserted [OF assms, of "(i, s)"] by simp

theorem FloodHistory_remembers_witness:
  "FloodHistory_contains
    (fold (\<lambda>(i, s). FloodHistory_insert i s) [(NodeId 2, 1), (NodeId 3, 1)]
      (FloodHistory_insert (NodeId 9) 4 (new_FloodHistory
        (replicate FLOOD_HISTORY_NUM_ENTRIES \<lparr>ent_id = NodeId 0, ent_seq = 0\<rparr>)))) (NodeId 9) 4"
  by (rule FloodHistory_remembers)
    (simp_all add: new_fh_ok FLOOD_HISTORY_NUM_ENTRIES_def)

end
