(* ===== verification/Isqrt.thy ===== *)
theory Isqrt
  imports Awds_Prelude
begin

text \<open>
  The integer square root (\<open>src/src/sqrt_int.c\<close>), on 64-bit \<open>long\<close> values: \<open>>\<close> and \<open>>=\<close>
  are signed comparisons and \<open>>>\<close> is the arithmetic shift.
\<close>

unbundle bit_operations_syntax

section \<open>The routine\<close>

lemma signed_shift_decreases:
  fixes x :: u64
  assumes "0 < sint x"
  shows "sint (signed_drop_bit 2 x) < sint x"
proof -
  have "sint (signed_drop_bit 2 x) = sint x div 4"
    by (simp add: sint_signed_drop_bit_eq drop_bit_eq_div)
  with assms show ?thesis by auto
qed

function isqrt_loop :: "u64 \<Rightarrow> u64 \<Rightarrow> u64 \<Rightarrow> u64" where
  "isqrt_loop squaredbit remainder root =
     (if 0 < sint squaredbit then
        if sint remainder \<ge> sint (squaredbit OR root)
        then isqrt_loop (signed_drop_bit 2 squaredbit) (remainder - (squaredbit OR root))
               (signed_drop_bit 1 root OR squaredbit)
        else isqrt_loop (signed_drop_bit 2 squaredbit) remainder (signed_drop_bit 1 root)
      else root)"
  by pat_completeness auto
termination
  by (relation "measure (\<lambda>(sb, _, _). nat (sint sb))") (simp_all add: signed_shift_decreases)

declare isqrt_loop.simps [simp del]

definition isqrt :: "u64 \<Rightarrow> u64" where
  "isqrt x =
     (if sint x < 1 then 0
      else isqrt_loop (drop_bit 1 (NOT 0) AND NOT (drop_bit 2 (NOT 0))) x 0)"

section \<open>Words below the sign bit\<close>

lemma sint_nonneg: "unat (x :: u64) < 2 ^ 63 \<Longrightarrow> sint x = int (unat x)"
  by (rule sint_eq_unat) simp

lemma signed_drop_bit_nonneg:
  assumes "unat (x :: u64) < 2 ^ 63"
  shows "unat (signed_drop_bit n x) = unat x div 2 ^ n"
proof -
  have "unat x div 2 ^ n < 2 ^ 63"
    using assms by (meson div_le_dividend order_le_less_trans)
  then have "sint (signed_drop_bit n x) = int (unat x div 2 ^ n)"
    using assms by (simp add: sint_signed_drop_bit_eq sint_nonneg drop_bit_eq_div zdiv_int)
  then have "signed_drop_bit n x = word_of_nat (unat x div 2 ^ n)"
    by (metis of_int_of_nat_eq scast_eq scast_id)
  then show ?thesis
    using assms by (simp add: unsigned_of_nat take_bit_nat_eq_self div_less_dividend
        order_le_less_trans [OF div_le_dividend])
qed

text \<open>A single bit below a multiple of a larger power adds to it.\<close>

lemma or_disjoint_nat: "(2 :: nat) ^ j OR r * 2 ^ Suc j = 2 ^ j + r * 2 ^ Suc j"
proof -
  have "\<not> bit ((2 :: nat) ^ j) n \<or> \<not> bit (r * 2 ^ Suc j) n" for n
    unfolding push_bit_eq_mult [of "Suc j" r, symmetric]
    by (auto simp: bit_exp_iff bit_push_bit_iff simp del: push_bit_Suc)
  then show ?thesis by (simp add: disjunctive_add)
qed

lemma unat_or_disjoint:
  assumes "unat (a :: u64) = 2 ^ j" "unat b = r * 2 ^ Suc j"
  shows "unat (a OR b) = 2 ^ j + r * 2 ^ Suc j"
  by (simp only: unsigned_or_eq assms or_disjoint_nat)

lemma or_less: "unat (a :: u64) < 2 ^ 63 \<Longrightarrow> unat b < 2 ^ 63 \<Longrightarrow> unat (a OR b) < 2 ^ 63"
  by (simp only: unsigned_or_eq) (metis or_eq_0_iff take_bit_nat_eq_self_iff take_bit_or)

section \<open>Correctness of the loop\<close>

text \<open>
  While \<open>m\<close> bits of the root are missing, the root found so far is \<open>r * 2 ^ m\<close>, kept as
  \<open>r * 4 ^ m\<close>, and the remainder is what its square leaves of \<open>x\<close>.
\<close>

definition isqrt_inv :: "nat \<Rightarrow> nat \<Rightarrow> nat \<Rightarrow> u64 \<Rightarrow> u64 \<Rightarrow> u64 \<Rightarrow> bool" where
  "isqrt_inv x m r sb rem root \<longleftrightarrow>
     unat sb = 4 ^ m div 4 \<and> unat root = r * 4 ^ m \<and>
     unat rem + r * r * 4 ^ m = x \<and> x < (r + 1) * (r + 1) * 4 ^ m"

lemma isqrt_inv_small:
  assumes "isqrt_inv x (Suc k) r sb rem root" "x < 2 ^ 63" "k < 32"
  shows "unat sb < 2 ^ 63" "unat root < 2 ^ 63" "unat rem < 2 ^ 63"
proof -
  have "(4 :: nat) ^ k \<le> 4 ^ 31" using assms(3) by (intro power_increasing) auto
  then show "unat sb < 2 ^ 63" using assms(1) by (simp add: isqrt_inv_def)
  have "r * 4 ^ Suc k \<le> r * r * 4 ^ Suc k" by (cases r) auto
  then have "unat root \<le> x"
    using assms(1) unfolding isqrt_inv_def by linarith
  then show "unat root < 2 ^ 63" using assms(2) by (rule le_less_trans)
  show "unat rem < 2 ^ 63" using assms by (simp add: isqrt_inv_def)
qed

lemma isqrt_or:
  assumes "isqrt_inv x (Suc k) r sb rem root"
  shows "unat (sb OR root) = 4 ^ k + r * 4 ^ Suc k"
proof -
  have "unat sb = 2 ^ (2 * k)" "unat root = (2 * r) * 2 ^ Suc (2 * k)"
    using assms by (simp_all add: isqrt_inv_def power_mult)
  from unat_or_disjoint [OF this] show ?thesis by (simp add: power_mult)
qed

lemma isqrt_inv_step_take:
  assumes inv: "isqrt_inv x (Suc k) r sb rem root" and x: "x < 2 ^ 63" "k < 32"
    and ge: "sint rem \<ge> sint (sb OR root)"
  shows "isqrt_inv x k (2 * r + 1) (signed_drop_bit 2 sb) (rem - (sb OR root))
    (signed_drop_bit 1 root OR sb)"
proof -
  note small = isqrt_inv_small [OF inv x]
  have sor: "sint (sb OR root) = int (4 ^ k + r * 4 ^ Suc k)"
    using sint_nonneg [OF or_less [OF small(1,2)]] isqrt_or [OF inv] by simp
  have ge': "4 ^ k + r * 4 ^ Suc k \<le> unat rem"
    using ge sint_nonneg [OF small(3)] unfolding sor by linarith
  then have "sb OR root \<le> rem"
    by (simp add: word_le_nat_alt isqrt_or [OF inv])
  then have rem: "unat (rem - (sb OR root)) = unat rem - (4 ^ k + r * 4 ^ Suc k)"
    by (simp add: unat_sub isqrt_or [OF inv])
  have "unat (signed_drop_bit 1 root) = r * 2 ^ Suc (2 * k)"
    using small inv signed_drop_bit_nonneg [of root 1] by (simp add: isqrt_inv_def power_mult)
  moreover have sb: "unat sb = 2 ^ (2 * k)"
    using inv by (simp add: isqrt_inv_def power_mult)
  ultimately have "unat (signed_drop_bit 1 root OR sb) = 2 ^ (2 * k) + r * 2 ^ Suc (2 * k)"
    by (metis or.commute unat_or_disjoint)
  then have root: "unat (signed_drop_bit 1 root OR sb) = (2 * r + 1) * 4 ^ k"
    using power_mult [of "2 :: nat" 2 k] by (simp add: algebra_simps)
  have "unat (signed_drop_bit 2 sb) = 4 ^ k div 4"
    using small(1) inv signed_drop_bit_nonneg [of sb 2] by (simp add: isqrt_inv_def)
  then show ?thesis
    using inv ge' root rem unfolding isqrt_inv_def by (simp add: algebra_simps)
qed

lemma isqrt_inv_step_skip:
  assumes inv: "isqrt_inv x (Suc k) r sb rem root" and x: "x < 2 ^ 63" "k < 32"
    and less: "\<not> sint rem \<ge> sint (sb OR root)"
  shows "isqrt_inv x k (2 * r) (signed_drop_bit 2 sb) rem (signed_drop_bit 1 root)"
proof -
  note small = isqrt_inv_small [OF inv x]
  have sor: "sint (sb OR root) = int (4 ^ k + r * 4 ^ Suc k)"
    using sint_nonneg [OF or_less [OF small(1,2)]] isqrt_or [OF inv] by simp
  have "unat rem < 4 ^ k + r * 4 ^ Suc k"
    using less sint_nonneg [OF small(3)] unfolding sor by linarith
  moreover have "unat (signed_drop_bit 1 root) = 2 * r * 4 ^ k"
    using small inv signed_drop_bit_nonneg [of root 1] by (simp add: isqrt_inv_def)
  moreover have "unat (signed_drop_bit 2 sb) = 4 ^ k div 4"
    using small(1) inv signed_drop_bit_nonneg [of sb 2] by (simp add: isqrt_inv_def)
  ultimately show ?thesis
    using inv unfolding isqrt_inv_def by (simp add: algebra_simps)
qed

lemma isqrt_loop_correct:
  assumes "isqrt_inv x m r sb rem root" "x < 2 ^ 63" "m \<le> 32"
  shows "let y = unat (isqrt_loop sb rem root) in y * y \<le> x \<and> x < (y + 1) * (y + 1)"
  using assms
proof (induction m arbitrary: r sb rem root)
  case 0
  then have "sb = 0" by (simp add: isqrt_inv_def unat_eq_0)
  then show ?case using 0 by (subst isqrt_loop.simps) (simp add: isqrt_inv_def Let_def)
next
  case (Suc k)
  have k: "k < 32" using Suc.prems by simp
  have "0 < sint sb"
    using Suc.prems sint_nonneg [OF isqrt_inv_small(1) [OF Suc.prems(1,2) k]]
    by (simp add: isqrt_inv_def)
  then show ?case
    using Suc.IH [OF isqrt_inv_step_take [OF Suc.prems(1,2) k]]
      Suc.IH [OF isqrt_inv_step_skip [OF Suc.prems(1,2) k]] Suc.prems k
    by (subst isqrt_loop.simps) auto
qed

lemma isqrt_root:
  "let y = int (unat (isqrt x)); v = max 0 (sint x) in y * y \<le> v \<and> v < (y + 1) * (y + 1)"
proof (cases "sint x < 1")
  case True
  then show ?thesis by (simp add: isqrt_def)
next
  case False
  have x: "unat x < 2 ^ 63" "0 < sint x"
    using False sint_lt [of x] by (auto simp: unat_eq_nat_uint nat_less_iff uint_sint take_bit_int_eq_self)
  have "unat (drop_bit 1 (NOT 0) AND NOT (drop_bit 2 (NOT 0)) :: u64) = 4 ^ 32 div 4"
    by (simp add: mask_eq_exp_minus_1)
  then have "isqrt_inv (unat x) 32 0 (drop_bit 1 (NOT 0) AND NOT (drop_bit 2 (NOT 0))) x 0"
    using x(1) by (simp add: isqrt_inv_def)
  from isqrt_loop_correct [OF this x(1)] False
  have "unat (isqrt x) * unat (isqrt x) \<le> unat x \<and>
      unat x < (unat (isqrt x) + 1) * (unat (isqrt x) + 1)"
    unfolding isqrt_def Let_def by simp
  then have "int (unat (isqrt x) * unat (isqrt x)) \<le> int (unat x) \<and>
      int (unat x) < int ((unat (isqrt x) + 1) * (unat (isqrt x) + 1))"
    by (simp only: of_nat_le_iff of_nat_less_iff)
  moreover have "max 0 (sint x) = int (unat x)"
    using x sint_nonneg [OF x(1)] by simp
  ultimately show ?thesis
    unfolding Let_def by (simp only: of_nat_mult of_nat_add of_nat_1)
qed

section \<open>Properties\<close>

text \<open>
  Property C28: for every 64-bit value the routine returns the integer square root: zero for
  a value that is not positive, and otherwise the largest integer whose square does not
  exceed the argument.
\<close>

theorem isqrt_correct:
  "let y = int (unat (isqrt x)); v = max 0 (sint x) in y * y \<le> v \<and> v < (y + 1) * (y + 1)"
  by (rule isqrt_root)

end
