(* ===== verification/Awds_Routing.thy ===== *)
theory Awds_Routing
  imports Topo_Feed Flood_History Isqrt
begin

text \<open>
  The routing daemon (\<open>src/src/awds/AwdsRouting.h\<close>, \<open>src/src/AwdsRouting.cc\<close>): the list of
  neighbors and its maintenance by beacons and timers, the generation of beacons and topology
  packets, and the handling of flood, unicast and flow packets.

  The state is a record.  Calls that leave the daemon (packets that are sent, timers, packets
  that are delivered to a registered receiver) are recorded in a log.  Packets are shared by
  pointers and counted: a packet has an address, and the count is kept by address; its contents are
  passed along with the address.  What the code calls but does not define is in the record
  \<open>routing_env\<close>: the GEA library, the installed metric, the cryptographic unit, the firewall,
  the result of sending, and the receivers, which may change the packet and the whole state.
\<close>

section \<open>Results\<close>

datatype rt_error =
  TopoError topo_error
  | RtAssertFails
  | RtNullPointer
  | ArrayOutOfBounds
  | BeaconOutOfBounds
  | UndefinedShift
  | DivisionByZero

text \<open>The outer option is \<open>None\<close> if a loop does not end.\<close>

type_synonym 'a rt_result = "(rt_error + 'a) option"

definition oreturn :: "'a \<Rightarrow> 'a rt_result" where
  "oreturn x = Some (Inr x)"

definition ofail :: "rt_error \<Rightarrow> 'a rt_result" where
  "ofail e = Some (Inl e)"

definition obind :: "'a rt_result \<Rightarrow> ('a \<Rightarrow> 'b rt_result) \<Rightarrow> 'b rt_result" where
  "obind m f = (case m of None \<Rightarrow> None | Some (Inl e) \<Rightarrow> Some (Inl e) | Some (Inr x) \<Rightarrow> f x)"

definition lift_topo :: "(topo_error + 'a) option \<Rightarrow> 'a rt_result" where
  "lift_topo m = map_option (map_sum TopoError id) m"

text \<open>The result of a search in a beacon.\<close>

definition lift_search :: "'a option option \<Rightarrow> 'a rt_result" where
  "lift_search m = (case m of None \<Rightarrow> None | Some None \<Rightarrow> ofail BeaconOutOfBounds | Some (Some x) \<Rightarrow> oreturn x)"

lemma obind_simps [simp]:
  "obind (oreturn x) f = f x" "obind (ofail e) f = ofail e" "obind None f = None"
  by (simp_all add: obind_def oreturn_def ofail_def)

lemma oreturn_inject [simp]: "oreturn x = oreturn y \<longleftrightarrow> x = y" "oreturn x \<noteq> ofail e" "ofail e \<noteq> oreturn x" "oreturn x \<noteq> None"
  by (simp_all add: oreturn_def ofail_def)

lemma obind_return_iff: "obind m f = oreturn y \<longleftrightarrow> (\<exists>x. m = oreturn x \<and> f x = oreturn y)"
  by (auto simp: obind_def oreturn_def split: option.split sum.split)

lemma lift_topo_return [simp]: "lift_topo (Some (Inr x)) = oreturn x"
  by (simp add: lift_topo_def oreturn_def)

section \<open>The state\<close>

datatype PeriodType = Constant | Adaptive

datatype timer = BeaconTimer | TopoTimer | LinkFailTimer

datatype rt_event =
  SendPacket BasePacket bool
  | WaitFor timer int
  | MetricUpdate
  | PacketReleased nat
  | Deliver nat nat BasePacket

text \<open>
  \<open>rt_neighbors\<close> is the array of \<open>MaxNeighbors\<close> elements, of which the first \<open>rt_numNeigh\<close> are
  in use; an element is the address of the last beacon and the description, which holds the contents of
  that beacon.  A receiver is a function and its data pointer, both as numbers.  The time is
  \<open>GEA.lastEventTime\<close>, which the topology reads as well and is kept there.
\<close>

record AwdsRouting =
  rt_myNodeId :: NodeId
  rt_BroadcastId :: NodeId
  rt_topoPeriod_ms :: int
  rt_topoPeriodType :: PeriodType
  rt_topology :: RTopology
  rt_floodHistory :: FloodHistory
  rt_hop2list :: Hop2List
  rt_unicastRegister :: "(int, nat \<times> nat) omap"
  rt_broadcastRegister :: "(int, nat \<times> nat) omap"
  rt_neighbors :: "(nat \<times> NodeDescr) list"
  rt_numNeigh :: nat
  rt_linkFail_blocked :: bool
  rt_beaconSeq :: u16
  rt_beaconPeriod :: int
  rt_nextBeacon :: int
  rt_floodSeq :: u16
  rt_unicastSeq :: u16
  rt_flowReceiverMap :: "(u32, nat \<times> nat) omap"
  rt_forwardingTable :: "(u32, NodeId) omap"
  rt_verbose :: bool
  rt_refs :: "nat \<Rightarrow> int"
  rt_next_packet :: nat
  rt_log :: "rt_event list"

record crypto_unit =
  cu_verifySignature :: "NodeId \<Rightarrow> byte list \<Rightarrow> u64 \<Rightarrow> (nat \<times> nat) list \<Rightarrow> bool"
  cu_sign :: "byte list \<Rightarrow> nat \<Rightarrow> (nat \<times> nat) list \<Rightarrow> byte list"

record routing_env =
  re_topo :: topo_env
  re_nanosecs :: "int \<Rightarrow> int"
  re_get_quality :: "NodeDescr \<Rightarrow> link_quality_t"
  re_crypto :: "crypto_unit option"
  re_firewall :: "(BasePacket \<Rightarrow> bool) option"
  re_send :: "BasePacket \<Rightarrow> bool \<Rightarrow> bool"
  re_call :: "nat \<Rightarrow> nat \<Rightarrow> BasePacket \<times> AwdsRouting \<Rightarrow> BasePacket \<times> AwdsRouting"

definition MaxNeighbors :: nat where
  "MaxNeighbors = 40"

definition rt_time :: "AwdsRouting \<Rightarrow> int" where
  "rt_time r = lastEventTime (rt_topology r)"

definition rt_emit :: "rt_event \<Rightarrow> AwdsRouting \<Rightarrow> AwdsRouting" where
  "rt_emit e r = r\<lparr>rt_log := rt_log r @ [e]\<rparr>"

text \<open>The neighbors in use.\<close>

definition rt_neigh :: "AwdsRouting \<Rightarrow> NodeDescr list" where
  "rt_neigh r = map snd (take (rt_numNeigh r) (rt_neighbors r))"

text \<open>
  Counting the references of the packet at an address.  References that the sending side takes are
  not counted: sending is an event.  When the last counted reference is given up, this is an event too.
\<close>

definition rt_ref :: "nat \<Rightarrow> AwdsRouting \<Rightarrow> AwdsRouting" where
  "rt_ref pid r = r\<lparr>rt_refs := (rt_refs r)(pid := rt_refs r pid + 1)\<rparr>"

definition rt_unref :: "nat \<Rightarrow> AwdsRouting \<Rightarrow> AwdsRouting rt_result" where
  "rt_unref pid r =
     (if \<not> rt_refs r pid > 0 then ofail RtAssertFails
      else let r = r\<lparr>rt_refs := (rt_refs r)(pid := rt_refs r pid - 1)\<rparr>
        in oreturn (if rt_refs r pid = 0 then rt_emit (PacketReleased pid) r else r))"

definition rt_new_packet :: "AwdsRouting \<Rightarrow> nat \<times> AwdsRouting" where
  "rt_new_packet r =
     (rt_next_packet r, r\<lparr>rt_refs := (rt_refs r)(rt_next_packet r := 1), rt_next_packet := rt_next_packet r + 1\<rparr>)"

section \<open>The list of neighbors\<close>

partial_function (option) findNeigh_loop ::
  "(nat \<times> NodeDescr) list \<Rightarrow> NodeId \<Rightarrow> int \<Rightarrow> int \<Rightarrow> (rt_error + int) option" where
  "findNeigh_loop ns i a b =
     (if a = b then Some (Inr (- a - 1))
      else let m = (a + b) sdiv 2 in
        if m < 0 \<or> m \<ge> int (length ns) then Some (Inl ArrayOutOfBounds)
        else if nd_id (snd (ns ! nat m)) = i then Some (Inr m)
        else if nd_id (snd (ns ! nat m)) < i then findNeigh_loop ns i (m + 1) b
        else findNeigh_loop ns i a m)"

declare findNeigh_loop.simps [code]

definition findNeigh :: "NodeId \<Rightarrow> AwdsRouting \<Rightarrow> int rt_result" where
  "findNeigh i r = findNeigh_loop (rt_neighbors r) i 0 (int (rt_numNeigh r))"

definition hasNeigh :: "NodeId \<Rightarrow> AwdsRouting \<Rightarrow> bool rt_result" where
  "hasNeigh i r = obind (findNeigh i r) (\<lambda>idx. oreturn (idx \<ge> 0))"

text \<open>\<open>memmove\<close> of the elements from \<open>idx\<close> to the end by one place.\<close>

definition shift_neighbors :: "nat \<Rightarrow> nat \<Rightarrow> 'a list \<Rightarrow> 'a list" where
  "shift_neighbors idx num ns = take (idx + 1) ns @ take (num - idx) (drop idx ns) @ drop (num + 1) ns"

definition beacon_hist :: "u16 \<Rightarrow> BasePacket \<Rightarrow> u32 \<Rightarrow> u32 option" where
  "beacon_hist seq last_beacon hist =
     (let lostBeacon = unat (ucast (seq - getSeq last_beacon) :: byte)
      in if lostBeacon \<ge> 32 then None else Some (drop_bit lostBeacon hist OR 0x80000000))"

text \<open>A new neighbor is inserted at its place; a known one loses the two-hop entries of its last beacon.\<close>

definition enter_neigh :: "nat \<Rightarrow> BasePacket \<Rightarrow> int \<Rightarrow> AwdsRouting \<Rightarrow> (nat \<times> AwdsRouting) rt_result" where
  "enter_neigh pid p idx r =
     (if idx < 0 then
        let idx = nat (- idx - 1);
            ns = shift_neighbors idx (rt_numNeigh r) (rt_neighbors r);
            ns = ns[idx := (pid, NodeDescr_init (getSrc p) p (rt_time r) (snd (ns ! idx)))];
            r = r\<lparr>rt_neighbors := ns, rt_numNeigh := rt_numNeigh r + 1\<rparr>
        in if \<not> rt_numNeigh r \<le> MaxNeighbors then ofail RtAssertFails
           else oreturn (idx, (rt_ref pid r)\<lparr>rt_hop2list := add2Hop p (rt_hop2list r)\<rparr>)
      else case nd_lastBeacon (snd (rt_neighbors r ! nat idx)) of
          None \<Rightarrow> ofail RtNullPointer
        | Some b \<Rightarrow>
            (case remove2Hop (Beacon b) (rt_hop2list r) of
               None \<Rightarrow> ofail RtAssertFails
             | Some l \<Rightarrow> oreturn (nat idx, r\<lparr>rt_hop2list := add2Hop p l\<rparr>)))"

text \<open>The rest of \<open>refreshNeigh\<close>: history, references, times and the job that checks for failures.\<close>

definition update_neigh :: "routing_env \<Rightarrow> nat \<Rightarrow> BasePacket \<Rightarrow> nat \<Rightarrow> AwdsRouting \<Rightarrow> AwdsRouting rt_result" where
  "update_neigh env pid p idx r =
     (let (old, n) = rt_neighbors r ! idx in
      case nd_lastBeacon n of None \<Rightarrow> ofail RtNullPointer
      | Some b \<Rightarrow>
          (case beacon_hist (getSeq p) (Beacon b) (nd_beaconHist n) of
             None \<Rightarrow> ofail UndefinedShift
           | Some h \<Rightarrow>
               obind (rt_unref old r) (\<lambda>r.
                 let n = n\<lparr>nd_beaconHist := h, nd_lastBeacon := Some p, nd_lastBeaconTime := rt_time r,
                        nd_beaconInterval := getPeriod (te_duration (re_topo env)) p\<rparr>;
                     r = rt_ref pid r;
                     (activated, n) = updateActive n;
                     r = r\<lparr>rt_neighbors := (rt_neighbors r)[idx := (pid, n)]\<rparr>
                 in oreturn (if activated \<and> \<not> rt_linkFail_blocked r
                      then rt_emit (WaitFor LinkFailTimer (nd_linkValidity n)) (r\<lparr>rt_linkFail_blocked := True\<rparr>)
                      else r))))"

definition refreshNeigh :: "routing_env \<Rightarrow> nat \<Rightarrow> BasePacket \<Rightarrow> AwdsRouting \<Rightarrow> (bool \<times> AwdsRouting) rt_result" where
  "refreshNeigh env pid p r =
     (if getType p \<noteq> PacketTypeBeacon then ofail RtAssertFails
      else let p = Beacon p in
        obind (findNeigh (getSrc p) r) (\<lambda>idx.
          if idx < 0 \<and> rt_numNeigh r = MaxNeighbors then oreturn (False, r)
          else if \<not> rt_numNeigh r < MaxNeighbors then ofail RtAssertFails
          else obind (enter_neigh pid p idx r) (\<lambda>(k, r).
            obind (update_neigh env pid p k r) (\<lambda>r. oreturn (idx < 0, r)))))"

text \<open>The signature takes the last 32 bytes; the length wraps if the packet is shorter.\<close>

definition recv_beacon :: "routing_env \<Rightarrow> nat \<Rightarrow> BasePacket \<Rightarrow> AwdsRouting \<Rightarrow> AwdsRouting rt_result" where
  "recv_beacon env pid p r =
     (let p = Beacon p; neighbor = getSrc p in
      if (case re_crypto env of None \<Rightarrow> False
          | Some c \<Rightarrow> \<not> cu_verifySignature c neighbor (buffer p) (of_nat (psize p) - 32) [])
      then oreturn r
      else obind (refreshNeigh env pid p r) (\<lambda>(_, r). oreturn r))"

text \<open>
  The loop that removes expired neighbors: \<open>i\<close> is the position that is read, \<open>newnum\<close> the one that
  is written, and the first argument the number of elements left.
\<close>

fun compact :: "nat \<Rightarrow> int \<Rightarrow> nat \<Rightarrow> nat \<Rightarrow> (nat \<times> NodeDescr) list \<Rightarrow> (nat \<times> NodeDescr) list \<times> nat" where
  "compact 0 t i newnum ns = (ns, newnum)"
| "compact (Suc k) t i newnum ns =
     (if \<not> isExpired t (snd (ns ! i))
      then compact k t (Suc i) (Suc newnum) (if newnum \<noteq> i then ns[newnum := ns ! i] else ns)
      else compact k t (Suc i) newnum ns)"

definition removeOldNeigh :: "AwdsRouting \<Rightarrow> AwdsRouting rt_result" where
  "removeOldNeigh r =
     (let (ns, newnum) = compact (rt_numNeigh r) (rt_time r) 0 0 (rt_neighbors r);
          r = r\<lparr>rt_neighbors := ns, rt_numNeigh := newnum\<rparr>
      in if \<not> rt_numNeigh r \<le> MaxNeighbors then ofail RtAssertFails else oreturn r)"

definition stat2dyn :: "AwdsRouting \<Rightarrow> AwdsRouting" where
  "stat2dyn r = r\<lparr>rt_hop2list := map (\<lambda>(i, c). (i, c\<lparr>h2_dyn := h2_stat c\<rparr>)) (rt_hop2list r)\<rparr>"

fun mpr_loop :: "Hop2List \<Rightarrow> (nat \<times> NodeDescr) list \<Rightarrow> (nat \<times> NodeDescr) list rt_result" where
  "mpr_loop l [] = oreturn []"
| "mpr_loop l ((a, n) # ns) =
     (case nd_lastBeacon n of None \<Rightarrow> ofail RtNullPointer
      | Some b \<Rightarrow> obind (mpr_loop l ns) (\<lambda>ns. oreturn ((a, n\<lparr>nd_mpr := tryRemoveFromMpr (Beacon b) l\<rparr>) # ns)))"

definition calcMpr :: "AwdsRouting \<Rightarrow> AwdsRouting rt_result" where
  "calcMpr r =
     (let r = stat2dyn r; num = rt_numNeigh r in
      obind (mpr_loop (rt_hop2list r) (take num (rt_neighbors r))) (\<lambda>ns.
        oreturn (r\<lparr>rt_neighbors := ns @ drop num (rt_neighbors r)\<rparr>)))"

section \<open>Flood packets\<close>

definition newFloodPacket :: "int \<Rightarrow> AwdsRouting \<Rightarrow> nat \<times> BasePacket \<times> AwdsRouting" where
  "newFloodPacket floodType r =
     (let (pid, r) = rt_new_packet r;
          p = Flood new_BasePacket;
          p = setSrc (rt_myNodeId r) p;
          p = setLastHop (rt_myNodeId r) p;
          p = setFloodType floodType p;
          p = Flood_setTTL 32 p;
          p = setSeq (rt_floodSeq r) p;
          p = setDest (rt_BroadcastId r) p
      in (pid, p, r\<lparr>rt_floodSeq := rt_floodSeq r + 1\<rparr>))"

text \<open>The bytes a relay changes are left out of the signature.\<close>

definition noSign :: "(nat \<times> nat) list" where
  "noSign = [(Flood_OffsetLastHop, 6 + 1)]"

text \<open>Handling of the contents: topology packets go to the topology, others to their receiver.\<close>

definition deliver :: "routing_env \<Rightarrow> (nat \<times> nat) option \<Rightarrow> BasePacket \<Rightarrow> AwdsRouting \<Rightarrow> BasePacket \<times> AwdsRouting" where
  "deliver env e p r =
     (case e of None \<Rightarrow> (p, r)
      | Some (cb, d) \<Rightarrow> re_call env cb d (p, rt_emit (Deliver cb d p) r))"

text \<open>\<open>None\<close> inside the result: the signature is wrong and the packet is dropped.\<close>

definition flood_contents :: "routing_env \<Rightarrow> BasePacket \<Rightarrow> AwdsRouting \<Rightarrow> (BasePacket \<times> AwdsRouting) option rt_result" where
  "flood_contents env p r =
     (if getFloodType p = FloodType_val FloodTypeTopo then
        let p = TopoPacket p in
        if (case re_crypto env of None \<Rightarrow> False
            | Some c \<Rightarrow> \<not> cu_verifySignature c (getSrc p) (buffer p) (of_nat (psize p) - 32) noSign)
        then oreturn None
        else obind (lift_topo (feed (re_topo env) p (rt_topology r))) (\<lambda>t. oreturn (Some (p, r\<lparr>rt_topology := t\<rparr>)))
      else oreturn (Some (deliver env (om_find (getFloodType p) (rt_broadcastRegister r)) p r)))"

definition flood_repeat :: "routing_env \<Rightarrow> BasePacket \<Rightarrow> AwdsRouting \<Rightarrow> (BasePacket \<times> AwdsRouting) rt_result" where
  "flood_repeat env p r =
     obind (findNeigh (getLastHop p) r) (\<lambda>nIdx.
     obind (if nIdx \<ge> 0
            then (case nd_lastBeacon (snd (rt_neighbors r ! nat nIdx)) of
                    None \<Rightarrow> ofail RtNullPointer
                  | Some b \<Rightarrow> lift_search (hasNoMpr (Beacon b) (rt_myNodeId r)))
            else oreturn False) (\<lambda>noMpr.
       if noMpr then oreturn (p, r)
       else let p = setLastHop (rt_myNodeId r) p;
              p = Flood_decrTTL p
         in if Flood_getTTL p = 0 then oreturn (p, r)
            else let p = setDest (rt_BroadcastId r) p in oreturn (p, rt_emit (SendPacket p False) r)))"

definition recv_flood :: "routing_env \<Rightarrow> BasePacket \<Rightarrow> AwdsRouting \<Rightarrow> (BasePacket \<times> AwdsRouting) rt_result" where
  "recv_flood env p r =
     (let p = Flood p; srcId = getSrc p; srcSeq = getSeq p in
      if FloodHistory_contains (rt_floodHistory r) srcId srcSeq then oreturn (p, r)
      else let r = r\<lparr>rt_floodHistory := FloodHistory_insert srcId srcSeq (rt_floodHistory r)\<rparr> in
        if Flood_getTTL p = 0 then oreturn (p, r)
        else obind (flood_contents env p r) (\<lambda>c.
          case c of None \<Rightarrow> oreturn (TopoPacket p, r)
          | Some (p, r) \<Rightarrow> flood_repeat env p r))"

definition sendBroadcast :: "routing_env \<Rightarrow> BasePacket \<Rightarrow> AwdsRouting \<Rightarrow> (BasePacket \<times> AwdsRouting) rt_result" where
  "sendBroadcast env p r = recv_flood env (Flood_incTTL (Flood p)) r"

section \<open>Topology packets and link failures\<close>

text \<open>The adaptive period, with the conversions between \<open>long\<close> and \<open>int\<close>.\<close>

definition adaptive_period :: "nat \<Rightarrow> int rt_result" where
  "adaptive_period num =
     (let n = of_nat num :: u64;
          root = isqrt (n * 16)
      in if root = 0 then ofail DivisionByZero
         else let newPeriod = sint (200 * n * n * 4) sdiv sint root;
              maxNewPeriod = newPeriod + newPeriod sdiv 5;
              newPeriod = min newPeriod maxNewPeriod
           in oreturn (sint (word_of_int newPeriod :: u32)))"

definition sign_packet :: "routing_env \<Rightarrow> (nat \<times> nat) list \<Rightarrow> BasePacket \<Rightarrow> BasePacket" where
  "sign_packet env blocks p =
     (case re_crypto env of None \<Rightarrow> p
      | Some c \<Rightarrow> p\<lparr>buffer := cu_sign c (buffer p) (psize p) blocks, psize := psize p + 32\<rparr>)"

definition send_topo :: "routing_env \<Rightarrow> AwdsRouting \<Rightarrow> AwdsRouting rt_result" where
  "send_topo env r =
     (let (pid, p, r) = newFloodPacket (FloodType_val FloodTypeTopo) r; p = TopoPacket p in
      if getFloodType p \<noteq> FloodType_val FloodTypeTopo then ofail RtAssertFails
      else let r = rt_emit MetricUpdate r in
        obind (lift_search (TopoPacket_setNeigh (rt_myNodeId r) (re_get_quality env)
                 (own_nodeName (rt_topology r)) (rt_neigh r) p)) (\<lambda>p.
        obind (if rt_topoPeriodType r = Adaptive then adaptive_period (getNumNodes (rt_topology r))
               else oreturn (rt_topoPeriod_ms r)) (\<lambda>period.
          let r = r\<lparr>rt_topoPeriod_ms := period\<rparr>;
              p = setValidity (3 * period) p;
              p = sign_packet env noSign p
          in obind (sendBroadcast env p r) (\<lambda>(_, r). rt_unref pid r))))"

definition send_periodic_topo :: "routing_env \<Rightarrow> int \<Rightarrow> AwdsRouting \<Rightarrow> AwdsRouting rt_result" where
  "send_periodic_topo env t r =
     obind (send_topo env r) (\<lambda>r.
       oreturn (rt_emit (WaitFor TopoTimer (t + te_duration (re_topo env) (rt_topoPeriod_ms r) 1000)) r))"

text \<open>
  The loop over the neighbors.  Once a change is seen, \<open>updateInactive\<close> is not called any more.
\<close>

fun check_links ::
  "int \<Rightarrow> (nat \<times> NodeDescr) list \<Rightarrow> bool \<Rightarrow> int option \<Rightarrow> ((nat \<times> NodeDescr) list \<times> bool \<times> int option) rt_result" where
  "check_links t [] topoChanged minValidity = oreturn ([], topoChanged, minValidity)"
| "check_links t ((a, n) # ns) topoChanged minValidity =
     (let (changed, n) = (if topoChanged then (True, n) else updateInactive t n);
          topoChanged = changed
      in if nd_active n \<and> \<not> nd_linkValidity n > t then ofail RtAssertFails
         else let minValidity = (if nd_active n \<and> (case minValidity of None \<Rightarrow> True | Some v \<Rightarrow> nd_linkValidity n < v)
                then Some (nd_linkValidity n) else minValidity)
           in obind (check_links t ns topoChanged minValidity) (\<lambda>(ns, r). oreturn ((a, n) # ns, r)))"

text \<open>The timer that has fired is not blocked any more.\<close>

definition checkLinkFailure :: "routing_env \<Rightarrow> AwdsRouting \<Rightarrow> AwdsRouting rt_result" where
  "checkLinkFailure env r =
     (let r = r\<lparr>rt_linkFail_blocked := False\<rparr>; num = rt_numNeigh r in
      obind (check_links (rt_time r) (take num (rt_neighbors r)) False None) (\<lambda>(ns, topoChanged, minValidity).
        let r = r\<lparr>rt_neighbors := ns @ drop num (rt_neighbors r)\<rparr>;
            r = (case minValidity of None \<Rightarrow> r
                 | Some v \<Rightarrow> rt_emit (WaitFor LinkFailTimer v) (r\<lparr>rt_linkFail_blocked := True\<rparr>))
        in obind (removeOldNeigh r) (\<lambda>r. if topoChanged then send_topo env r else oreturn r)))"

section \<open>Beacons\<close>

partial_function (option) next_beacon :: "int \<Rightarrow> int \<Rightarrow> int \<Rightarrow> int option" where
  "next_beacon now beaconPeriod nextBeacon =
     (if nextBeacon \<le> now then next_beacon now beaconPeriod (nextBeacon + beaconPeriod) else Some nextBeacon)"

declare next_beacon.simps [code]

definition send_beacon :: "routing_env \<Rightarrow> AwdsRouting \<Rightarrow> AwdsRouting rt_result" where
  "send_beacon env r =
     obind (calcMpr r) (\<lambda>r.
       let (pid, r) = rt_new_packet r;
           p = Beacon new_BasePacket;
           p = setSrc (rt_myNodeId r) p;
           p = Beacon_setNeigh (rt_neigh r) p;
           p = setSeq (rt_beaconSeq r) p;
           r = r\<lparr>rt_beaconSeq := rt_beaconSeq r + 1\<rparr>;
           p = setPeriod (re_nanosecs env) (rt_beaconPeriod r) p;
           p = setDest (rt_BroadcastId r) p;
           p = sign_packet env [] p;
           r = rt_emit (SendPacket p True) r
       in obind (rt_unref pid r) (\<lambda>r.
            case next_beacon (rt_time r) (rt_beaconPeriod r) (rt_nextBeacon r) of
              None \<Rightarrow> None
            | Some nb \<Rightarrow> oreturn (rt_emit (WaitFor BeaconTimer nb) (r\<lparr>rt_nextBeacon := nb\<rparr>))))"

section \<open>Unicast packets\<close>

definition newUnicastPacket :: "int \<Rightarrow> AwdsRouting \<Rightarrow> nat \<times> BasePacket \<times> AwdsRouting" where
  "newUnicastPacket type r =
     (let (pid, r) = rt_new_packet r;
          p = UnicastPacket new_BasePacket;
          p = setTraceFlag False p;
          p = setSrc (rt_myNodeId r) p;
          p = setNextHop (rt_myNodeId r) p;
          p = Uc_setTTL 32 p;
          p = setSeq (rt_unicastSeq r) p;
          p = setUcPacketType type p
      in (pid, p, r\<lparr>rt_unicastSeq := rt_unicastSeq r + 1\<rparr>))"

definition trace_packet :: "NodeId \<Rightarrow> BasePacket \<Rightarrow> BasePacket" where
  "trace_packet i p = (if getTraceFlag p then snd (appendNode i (TraceUcPacket p)) else p)"

definition recv_unicast :: "routing_env \<Rightarrow> BasePacket \<Rightarrow> AwdsRouting \<Rightarrow> (BasePacket \<times> AwdsRouting) rt_result" where
  "recv_unicast env p r =
     (let p = Uc_decrTTL (UnicastPacket p) in
      if Uc_getTTL p = 0 then oreturn (p, r)
      else if getNextHop p \<noteq> rt_myNodeId r then oreturn (p, r)
      else let p = trace_packet (rt_myNodeId r) p; dest = getUcDest p in
        if dest = rt_myNodeId r
        then oreturn (deliver env (om_find (getUcPacketType p) (rt_unicastRegister r)) p r)
        else obind (lift_topo (RTopology_getNextHop (re_topo env) dest NodeId_default (rt_topology r))) (\<lambda>((nh, found), t).
          let r = r\<lparr>rt_topology := t\<rparr> in
          if \<not> found then oreturn (p, r)
          else let p = setDest nh (setNextHop nh p) in oreturn (p, rt_emit (SendPacket p False) r)))"

definition sendUnicast :: "routing_env \<Rightarrow> BasePacket \<Rightarrow> AwdsRouting \<Rightarrow> (BasePacket \<times> AwdsRouting) rt_result" where
  "sendUnicast env p r =
     recv_unicast env (setNextHop (rt_myNodeId r) (Uc_incTTL (UnicastPacket p))) r"

definition sendUnicastVia :: "BasePacket \<Rightarrow> NodeId \<Rightarrow> AwdsRouting \<Rightarrow> BasePacket \<times> AwdsRouting" where
  "sendUnicastVia p nh r =
     (let p = UnicastPacket p in
      if Uc_getTTL p = 0 then (p, r)
      else let p = trace_packet (rt_myNodeId r) p;
             p = setDest nh (setNextHop nh p)
        in (p, rt_emit (SendPacket p False) r))"

definition isReachable :: "routing_env \<Rightarrow> NodeId \<Rightarrow> AwdsRouting \<Rightarrow> (bool \<times> AwdsRouting) rt_result" where
  "isReachable env i r =
     obind (lift_topo (RTopology_getNextHop (re_topo env) i NodeId_default (rt_topology r)))
       (\<lambda>((_, found), t). oreturn (found, r\<lparr>rt_topology := t\<rparr>))"

definition getMTU :: nat where
  "getMTU = (let m = UnicastPacketEnd; m = (if FloodHeaderEnd > m then FloodHeaderEnd else m) in 2000 - m)"

section \<open>Registers, observers and iteration\<close>

definition om_put :: "'k::linorder \<Rightarrow> 'v \<Rightarrow> ('k, 'v) omap \<Rightarrow> ('k, 'v) omap" where
  "om_put k v m = om_insert k v (om_erase k m)"

definition registerUnicastProtocol :: "int \<Rightarrow> nat \<Rightarrow> nat \<Rightarrow> AwdsRouting \<Rightarrow> AwdsRouting" where
  "registerUnicastProtocol num cb d r = r\<lparr>rt_unicastRegister := om_put num (cb, d) (rt_unicastRegister r)\<rparr>"

definition registerBroadcastProtocol :: "int \<Rightarrow> nat \<Rightarrow> nat \<Rightarrow> AwdsRouting \<Rightarrow> AwdsRouting" where
  "registerBroadcastProtocol num cb d r = r\<lparr>rt_broadcastRegister := om_put num (cb, d) (rt_broadcastRegister r)\<rparr>"

definition addNodeObserver :: "nat \<Rightarrow> AwdsRouting \<Rightarrow> AwdsRouting" where
  "addNodeObserver obs r = r\<lparr>rt_topology := (rt_topology r)\<lparr>nodeObservers := obs # nodeObservers (rt_topology r)\<rparr>\<rparr>"

definition addLinkObserver :: "nat \<Rightarrow> AwdsRouting \<Rightarrow> AwdsRouting" where
  "addLinkObserver obs r = r\<lparr>rt_topology := (rt_topology r)\<lparr>linkObservers := obs # linkObservers (rt_topology r)\<rparr>\<rparr>"

text \<open>The functor changes what its data pointer points to and returns a number that stops the loop unless zero.\<close>

fun foreach_loop :: "('a \<Rightarrow> 'd \<Rightarrow> int \<times> 'd) \<Rightarrow> 'a list \<Rightarrow> int \<Rightarrow> 'd \<Rightarrow> int \<times> 'd" where
  "foreach_loop f [] ret d = (ret, d)"
| "foreach_loop f (x # xs) ret d =
     (let (ret2, d) = f x d in if ret2 \<noteq> 0 then (ret2, d) else foreach_loop f xs (ret + 1) d)"

definition foreachNode :: "(NodeId \<Rightarrow> 'd \<Rightarrow> int \<times> 'd) \<Rightarrow> 'd \<Rightarrow> AwdsRouting \<Rightarrow> int \<times> 'd" where
  "foreachNode f d r = foreach_loop f (map fst (adjList (rt_topology r))) 0 d"

text \<open>The links of one node; the second component tells whether the functor has stopped the loop.\<close>

fun foreach_links :: "(NodeId \<Rightarrow> NodeId \<Rightarrow> 'd \<Rightarrow> int \<times> 'd) \<Rightarrow> NodeId \<Rightarrow> NodeId list \<Rightarrow> 'd \<Rightarrow> int option \<times> 'd" where
  "foreach_links f i [] d = (None, d)"
| "foreach_links f i (n # ns) d =
     (let (ret2, d) = f i n d in if ret2 \<noteq> 0 then (Some ret2, d) else foreach_links f i ns d)"

fun foreachEdge_loop :: "(NodeId \<Rightarrow> NodeId \<Rightarrow> 'd \<Rightarrow> int \<times> 'd) \<Rightarrow> AdjList \<Rightarrow> int \<Rightarrow> 'd \<Rightarrow> int \<times> 'd" where
  "foreachEdge_loop f [] ret d = (ret, d)"
| "foreachEdge_loop f ((i, nd) # a) ret d =
     (case foreach_links f i (map neighbor (linklist nd)) d of
        (Some ret2, d) \<Rightarrow> (ret2, d)
      | (None, d) \<Rightarrow> foreachEdge_loop f a (ret + 1) d)"

text \<open>The variable \<open>ret\<close> is not initialised; its value is an argument.\<close>

definition foreachEdge :: "int \<Rightarrow> (NodeId \<Rightarrow> NodeId \<Rightarrow> 'd \<Rightarrow> int \<times> 'd) \<Rightarrow> 'd \<Rightarrow> AwdsRouting \<Rightarrow> int \<times> 'd" where
  "foreachEdge ret f d r = foreachEdge_loop f (adjList (rt_topology r)) ret d"

section \<open>Flows\<close>

definition addForwardingRule :: "u32 \<Rightarrow> NodeId \<Rightarrow> AwdsRouting \<Rightarrow> int \<times> AwdsRouting" where
  "addForwardingRule flowid nh r =
     (if om_find flowid (rt_forwardingTable r) \<noteq> None then (- 1, r)
      else (0, r\<lparr>rt_forwardingTable := om_put flowid nh (rt_forwardingTable r)\<rparr>))"

definition delForwardingRule :: "u32 \<Rightarrow> AwdsRouting \<Rightarrow> int \<times> AwdsRouting" where
  "delForwardingRule flowid r =
     (if om_find flowid (rt_forwardingTable r) = None then (- 1, r)
      else (0, r\<lparr>rt_forwardingTable := om_erase flowid (rt_forwardingTable r)\<rparr>))"

definition addFlowReceiver :: "u32 \<Rightarrow> nat \<Rightarrow> nat \<Rightarrow> AwdsRouting \<Rightarrow> int \<times> AwdsRouting" where
  "addFlowReceiver flowid cb d r =
     (if om_find flowid (rt_flowReceiverMap r) \<noteq> None then (- 1, r)
      else (0, r\<lparr>rt_flowReceiverMap := om_put flowid (cb, d) (rt_flowReceiverMap r)\<rparr>))"

definition delFlowReceiver :: "u32 \<Rightarrow> AwdsRouting \<Rightarrow> int \<times> AwdsRouting" where
  "delFlowReceiver flowid r =
     (if om_find flowid (rt_flowReceiverMap r) = None then (- 1, r)
      else (0, r\<lparr>rt_flowReceiverMap := om_erase flowid (rt_flowReceiverMap r)\<rparr>))"

definition newFlowPacket :: "u32 \<Rightarrow> AwdsRouting \<Rightarrow> nat \<times> BasePacket \<times> AwdsRouting" where
  "newFlowPacket flowid r =
     (let (pid, r) = rt_new_packet r;
          p = setType PacketTypeForward new_BasePacket;
          p = setTraceFlag False p;
          p = setSrc (rt_myNodeId r) p;
          p = setFlowId flowid p
      in (pid, p, r))"

text \<open>The receiver is looked up with the flow type.\<close>

definition sendFlowPacket :: "routing_env \<Rightarrow> BasePacket \<Rightarrow> AwdsRouting \<Rightarrow> (int \<times> BasePacket \<times> AwdsRouting) rt_result" where
  "sendFlowPacket env p r =
     (if getType p \<noteq> PacketTypeForward then ofail RtAssertFails
      else if getFlowDest p = rt_myNodeId r
      then oreturn (0, deliver env (om_find (getFlowType p) (rt_flowReceiverMap r)) p r)
      else case om_find (getFlowId p) (rt_forwardingTable r) of
          None \<Rightarrow> oreturn (- 1, p, r)
        | Some nh \<Rightarrow>
            let p = setDest nh p
            in oreturn (if re_send env p True then 0 else - 1, p, rt_emit (SendPacket p True) r))"

section \<open>Reception\<close>

definition recv_packet :: "routing_env \<Rightarrow> nat \<Rightarrow> BasePacket \<Rightarrow> AwdsRouting \<Rightarrow> AwdsRouting rt_result" where
  "recv_packet env pid p r =
     (if (case re_firewall env of None \<Rightarrow> True | Some check \<Rightarrow> check p) \<and> getSrc p \<noteq> rt_myNodeId r then
        (case getType p of
           PacketTypeBeacon \<Rightarrow> recv_beacon env pid p r
         | PacketTypeFlood \<Rightarrow> obind (recv_flood env p r) (\<lambda>(_, r). oreturn r)
         | PacketTypeUnicast \<Rightarrow> obind (recv_unicast env p r) (\<lambda>(_, r). oreturn r)
         | PacketTypeForward \<Rightarrow> obind (sendFlowPacket env p r) (\<lambda>(_, _, r). oreturn r))
      else oreturn r)"

section \<open>Construction\<close>

text \<open>The array of neighbors and the entries of the flood history are not initialised.\<close>

definition AwdsRouting_new ::
  "routing_env \<Rightarrow> NodeId \<Rightarrow> NodeId \<Rightarrow> int \<Rightarrow> bool \<Rightarrow> (nat \<times> NodeDescr) list \<Rightarrow> Entry list \<Rightarrow> AwdsRouting rt_result" where
  "AwdsRouting_new env i bc now cb mem hist =
     (case RTopology_new (re_topo env) i now cb of
        Inl e \<Rightarrow> ofail (TopoError e)
      | Inr (_, t) \<Rightarrow>
          let r = \<lparr>rt_myNodeId = i, rt_BroadcastId = bc, rt_topoPeriod_ms = TOPO_INTERVAL, rt_topoPeriodType = Adaptive,
                rt_topology = t, rt_floodHistory = new_FloodHistory hist, rt_hop2list = [], rt_unicastRegister = [],
                rt_broadcastRegister = [], rt_neighbors = mem, rt_numNeigh = 0, rt_linkFail_blocked = False,
                rt_beaconSeq = 0, rt_beaconPeriod = te_duration (re_topo env) BEACON_INTERVAL 1000,
                rt_nextBeacon = now + te_duration (re_topo env) 1 1000, rt_floodSeq = 0, rt_unicastSeq = 0,
                rt_flowReceiverMap = [], rt_forwardingTable = [], rt_verbose = False, rt_refs = (\<lambda>_. 0), rt_next_packet = 0,
                rt_log = []\<rparr>;
              r = rt_emit (WaitFor BeaconTimer (rt_nextBeacon r)) r;
              r = rt_emit (WaitFor TopoTimer (now + te_duration (re_topo env) (rt_topoPeriod_ms r) 1000)) r
          in oreturn r)"

text \<open>The packet a module gets to fill in.\<close>

lemma new_packet_ok: "pkt_ok new_BasePacket"
  by (simp add: pkt_ok_def new_BasePacket_def)

lemma newUnicastPacket_eq:
  assumes "ubyte_ok type" "NodeId_ok (rt_myNodeId r)"
  obtains p r' where "newUnicastPacket type r = (rt_next_packet r, p, r')" "pkt_ok p"
    "getSrc p = rt_myNodeId r" "\<not> getTraceFlag p" "getUcPacketType p = type"
    "r' = r\<lparr>rt_refs := (rt_refs r)(rt_next_packet r := 1), rt_next_packet := rt_next_packet r + 1,
       rt_unicastSeq := rt_unicastSeq r + 1\<rparr>"
proof -
  let ?p = "setUcPacketType type (setSeq (rt_unicastSeq r) (Uc_setTTL 32 (setNextHop (rt_myNodeId r)
    (setSrc (rt_myNodeId r) (setTraceFlag False (setType PacketTypeUnicast new_BasePacket))))))"
  have "newUnicastPacket type r = (rt_next_packet r, ?p,
      r\<lparr>rt_refs := (rt_refs r)(rt_next_packet r := 1), rt_next_packet := rt_next_packet r + 1,
       rt_unicastSeq := rt_unicastSeq r + 1\<rparr>)"
    by (simp add: newUnicastPacket_def rt_new_packet_def UnicastPacket_def)
  moreover have "pkt_ok ?p" "\<not> getTraceFlag ?p" "getUcPacketType ?p = type" "getSrc ?p = rt_myNodeId r"
    using new_packet_ok assms
    by (simp_all add: hdr_simps pk_type.set_ok pk_trace.set_ok pk_trace.get_set)
  ultimately show thesis
    by (intro that) auto
qed

end
