(* ===== verification/Metric_Packet.thy ===== *)
theory Metric_Packet
  imports Metric_Etx Awds_Routing
begin

text \<open>
  The packets of the metrics that measure links by probes (\<open>src/src/awds/UCMetricPacket.h\<close>,
  \<open>src/src/UCMetricPacket.cc\<close>) and the base classes of these metrics (\<open>ExtMetric.cc\<close>,
  \<open>UCastMetric.cc\<close>).  The fields of a metric packet are copied as objects of the machine: the record
  \<open>native_layout\<close> has the sizes of \<open>gea::AbsTime\<close> and \<open>gea::Duration\<close>, which belong to the GEA
  library, and the bytes of these objects and of an \<open>unsigned int\<close>.
\<close>

section \<open>Objects of the machine\<close>

record native_layout =
  nl_abs_size :: nat
  nl_abs_bytes :: "int \<Rightarrow> byte list"
  nl_abs_of :: "byte list \<Rightarrow> int"
  nl_dur_size :: nat
  nl_dur_bytes :: "int \<Rightarrow> byte list"
  nl_dur_of :: "byte list \<Rightarrow> int"
  nl_uint_bytes :: "u32 \<Rightarrow> byte list"
  nl_uint_of :: "byte list \<Rightarrow> u32"

text \<open>What copying an object promises: its size, and that the copy has the same value.\<close>

definition time_ok :: "int \<Rightarrow> bool" where
  "time_ok t \<longleftrightarrow> 0 \<le> t \<and> t < 2 ^ 63"

definition native_ok :: "native_layout \<Rightarrow> bool" where
  "native_ok L \<longleftrightarrow>
     nl_abs_size L \<le> 64 \<and> nl_dur_size L \<le> 64 \<and>
     (\<forall>t. length (nl_abs_bytes L t) = nl_abs_size L \<and> length (nl_dur_bytes L t) = nl_dur_size L) \<and>
     (\<forall>v. length (nl_uint_bytes L v) = 4 \<and> nl_uint_of L (nl_uint_bytes L v) = v) \<and>
     (\<forall>t. time_ok t \<longrightarrow> nl_abs_of L (nl_abs_bytes L t) = t \<and> nl_dur_of L (nl_dur_bytes L t) = t)"

section \<open>UCMetricPacket.h\<close>

datatype MetricType = Metric_req | Metric_resp | Metric_first | Metric_second

fun MetricType_val :: "MetricType \<Rightarrow> int" where
  "MetricType_val Metric_req = 0"
| "MetricType_val Metric_resp = 1"
| "MetricType_val Metric_first = 2"
| "MetricType_val Metric_second = 3"

definition sizeof_NodeId :: nat where "sizeof_NodeId = 8"
definition UM_OffsetSeq :: nat where "UM_OffsetSeq = UnicastPacketEnd"
definition UM_OffsetType :: nat where "UM_OffsetType = UM_OffsetSeq + 4"
definition UM_OffsetOriginator :: nat where "UM_OffsetOriginator = UM_OffsetType + 4"
definition UM_OffsetTime1 :: nat where "UM_OffsetTime1 = UM_OffsetOriginator + sizeof_NodeId"

definition UM_OffsetTime2 :: "native_layout \<Rightarrow> nat" where
  "UM_OffsetTime2 L = UM_OffsetTime1 + nl_abs_size L"

definition UM_OffsetDuration :: "native_layout \<Rightarrow> nat" where
  "UM_OffsetDuration L = UM_OffsetTime2 L + nl_abs_size L"

definition MetricHeaderEnd :: "native_layout \<Rightarrow> nat" where
  "MetricHeaderEnd L = UM_OffsetDuration L + nl_dur_size L"

definition UM_setSeq :: "native_layout \<Rightarrow> u32 \<Rightarrow> BasePacket \<Rightarrow> BasePacket" where
  "UM_setSeq L s p = p\<lparr>buffer := mem_write (buffer p) UM_OffsetSeq (nl_uint_bytes L s)\<rparr>"

definition UM_getSeq :: "native_layout \<Rightarrow> BasePacket \<Rightarrow> u32" where
  "UM_getSeq L p = nl_uint_of L (mem_read (buffer p) UM_OffsetSeq 4)"

text \<open>The type is one byte, read as a signed character.\<close>

definition UM_setType :: "int \<Rightarrow> BasePacket \<Rightarrow> BasePacket" where
  "UM_setType t p = p\<lparr>buffer := (buffer p)[UM_OffsetType := word_of_int t]\<rparr>"

definition UM_getType :: "BasePacket \<Rightarrow> int" where
  "UM_getType p = sint (buffer p ! UM_OffsetType)"

definition setOriginator :: "NodeId \<Rightarrow> BasePacket \<Rightarrow> BasePacket" where
  "setOriginator i p = p\<lparr>buffer := mem_write (buffer p) UM_OffsetOriginator (NodeId_toArray i)\<rparr>"

definition getOriginator :: "BasePacket \<Rightarrow> NodeId" where
  "getOriginator p = NodeId_fromArray (mem_read (buffer p) UM_OffsetOriginator 6)"

definition setTime1 :: "native_layout \<Rightarrow> int \<Rightarrow> BasePacket \<Rightarrow> BasePacket" where
  "setTime1 L t p = p\<lparr>buffer := mem_write (buffer p) UM_OffsetTime1 (nl_abs_bytes L t)\<rparr>"

definition getTime1 :: "native_layout \<Rightarrow> BasePacket \<Rightarrow> int" where
  "getTime1 L p = nl_abs_of L (mem_read (buffer p) UM_OffsetTime1 (nl_abs_size L))"

definition setDuration :: "native_layout \<Rightarrow> int \<Rightarrow> BasePacket \<Rightarrow> BasePacket" where
  "setDuration L d p = p\<lparr>buffer := mem_write (buffer p) (UM_OffsetDuration L) (nl_dur_bytes L d)\<rparr>"

definition getDuration :: "native_layout \<Rightarrow> BasePacket \<Rightarrow> int" where
  "getDuration L p = nl_dur_of L (mem_read (buffer p) (UM_OffsetDuration L) (nl_dur_size L))"

section \<open>UCMetricPacket.cc\<close>

text \<open>The constructors: the access to a received packet, and the two that fill a new one.\<close>

definition UCMetricPacket :: "native_layout \<Rightarrow> BasePacket \<Rightarrow> BasePacket" where
  "UCMetricPacket L p = (UnicastPacket p)\<lparr>psize := MetricHeaderEnd L\<rparr>"

definition UCMetricPacket_time ::
    "native_layout \<Rightarrow> MetricType \<Rightarrow> int \<Rightarrow> u32 \<Rightarrow> int \<Rightarrow> BasePacket \<Rightarrow> BasePacket" where
  "UCMetricPacket_time L t ttl s time p =
     (setTime1 L time (UM_setSeq L s (Uc_setTTL ttl (UM_setType (MetricType_val t) (UnicastPacket p)))))
       \<lparr>psize := MetricHeaderEnd L\<rparr>"

definition UCMetricPacket_duration ::
    "native_layout \<Rightarrow> MetricType \<Rightarrow> int \<Rightarrow> u32 \<Rightarrow> int \<Rightarrow> BasePacket \<Rightarrow> BasePacket" where
  "UCMetricPacket_duration L t ttl s d p =
     (setDuration L d (UM_setSeq L s (Uc_setTTL ttl (UM_setType (MetricType_val t) (UnicastPacket p)))))
       \<lparr>psize := MetricHeaderEnd L\<rparr>"

section \<open>ExtMetric.cc and UCastMetric.cc\<close>

definition PACKET_TYPE_UC_METRIC :: int where
  "PACKET_TYPE_UC_METRIC = 97"

text \<open>\<open>cb\<close> and \<open>d\<close> name the function \<open>recv_packet\<close> and the metric object.\<close>

definition UCastMetric_new :: "nat \<Rightarrow> nat \<Rightarrow> AwdsRouting \<Rightarrow> AwdsRouting" where
  "UCastMetric_new cb d r = registerUnicastProtocol PACKET_TYPE_UC_METRIC cb d r"

definition UCastMetric_send ::
    "routing_env \<Rightarrow> BasePacket \<Rightarrow> NodeId \<Rightarrow> AwdsRouting \<Rightarrow> (BasePacket \<times> AwdsRouting) rt_result" where
  "UCastMetric_send env p dest r = sendUnicast env (setDest dest (setUcDest dest (UnicastPacket p))) r"

definition sendvia :: "BasePacket \<Rightarrow> NodeId \<Rightarrow> nat \<Rightarrow> AwdsRouting \<Rightarrow> BasePacket \<times> AwdsRouting" where
  "sendvia p dest n r =
     (let p = setDest dest (setUcDest dest (UnicastPacket p));
          p = p\<lparr>psize := max (psize p) n\<rparr>
      in sendUnicastVia p dest r)"

section \<open>The fields\<close>

lemmas metric_offsets = sizeof_NodeId_def UM_OffsetSeq_def UM_OffsetType_def UM_OffsetOriginator_def
  UM_OffsetTime1_def UM_OffsetTime2_def UM_OffsetDuration_def MetricHeaderEnd_def

lemma native_sizes:
  assumes "native_ok L"
  shows "nl_abs_size L \<le> 64" "nl_dur_size L \<le> 64" "length (nl_abs_bytes L t) = nl_abs_size L"
    "length (nl_dur_bytes L t) = nl_dur_size L" "length (nl_uint_bytes L v) = 4"
    "nl_uint_of L (nl_uint_bytes L v) = v" "time_ok t \<Longrightarrow> nl_abs_of L (nl_abs_bytes L t) = t"
    "time_ok t \<Longrightarrow> nl_dur_of L (nl_dur_bytes L t) = t"
  using assms by (auto simp: native_ok_def)

lemma bytes_field:
  assumes "off + n \<le> MaxSize" "\<And>v. length (enc v) = n" "\<And>v. valid v \<Longrightarrow> dec (enc v) = v"
  shows "header_field (\<lambda>p. dec (mem_read (buffer p) off n))
    (\<lambda>v p. p\<lparr>buffer := mem_write (buffer p) off (enc v)\<rparr>) off n valid"
proof (unfold_locales, goal_cases)
  case (5 p q)
  then have "mem_read (buffer p) off n = mem_read (buffer q) off n"
    using assms(1) by (auto simp: list_eq_iff_nth_eq pkt_ok_def) (simp add: mem_read_def pkt_ok_def)
  then show ?case by simp
qed (use assms in \<open>simp_all add: pkt_ok_def buf_simps\<close>)

interpretation um_type: header_field UM_getType UM_setType UM_OffsetType 1 sbyte_ok
  using byte_field [of UM_OffsetType sbyte_ok sint word_of_int]
  by (simp add: UM_getType_def [abs_def] UM_setType_def [abs_def] metric_offsets offset_defs MaxSize_def
      sbyte_dec_enc)

interpretation um_orig: header_field getOriginator setOriginator UM_OffsetOriginator 6 NodeId_ok
  using node_field [of UM_OffsetOriginator]
  by (simp add: getOriginator_def [abs_def] setOriginator_def [abs_def] metric_offsets offset_defs MaxSize_def)

lemma um_seq_field: "native_ok L \<Longrightarrow> header_field (UM_getSeq L) (UM_setSeq L) UM_OffsetSeq 4 (\<lambda>_. True)"
  using bytes_field [of UM_OffsetSeq 4 "nl_uint_bytes L" "\<lambda>_. True" "nl_uint_of L"] native_sizes [of L]
  by (simp add: UM_getSeq_def [abs_def] UM_setSeq_def [abs_def] metric_offsets offset_defs MaxSize_def)

lemma um_time_field: "native_ok L \<Longrightarrow> header_field (getTime1 L) (setTime1 L) UM_OffsetTime1 (nl_abs_size L) time_ok"
  using bytes_field [of UM_OffsetTime1 "nl_abs_size L" "nl_abs_bytes L" time_ok "nl_abs_of L"] native_sizes [of L]
  by (simp add: getTime1_def [abs_def] setTime1_def [abs_def] metric_offsets offset_defs MaxSize_def)

lemma um_duration_field:
  "native_ok L \<Longrightarrow> header_field (getDuration L) (setDuration L) (UM_OffsetDuration L) (nl_dur_size L) time_ok"
  using bytes_field [of "UM_OffsetDuration L" "nl_dur_size L" "nl_dur_bytes L" time_ok "nl_dur_of L"]
    native_sizes [of L]
  by (simp add: getDuration_def [abs_def] setDuration_def [abs_def] metric_offsets offset_defs MaxSize_def)


section \<open>Contents of the packets\<close>

text \<open>The fields of the unicast header depend on the first bytes only.\<close>

definition same_header :: "BasePacket \<Rightarrow> BasePacket \<Rightarrow> bool" where
  "same_header p q \<longleftrightarrow>
     take UnicastPacketEnd (buffer p) = take UnicastPacketEnd (buffer q)"

lemma same_header_nth:
  assumes "same_header p q" "i < UnicastPacketEnd"
  shows "buffer p ! i = buffer q ! i"
proof -
  have "take UnicastPacketEnd (buffer p) ! i = take UnicastPacketEnd (buffer q) ! i"
    using assms(1) by (simp add: same_header_def)
  with assms(2) show ?thesis by simp
qed

lemma same_header_get:
  assumes "same_header p q" "pkt_ok p" "pkt_ok q"
  shows "getSrc p = getSrc q" "getUcDest p = getUcDest q" "getNextHop p = getNextHop q"
    "Uc_getTTL p = Uc_getTTL q" "getUcPacketType p = getUcPacketType q" "getType p = getType q"
    "getTraceFlag p = getTraceFlag q" "getSeq p = getSeq q"
  by (rule src.get_local uc_dest.get_local uc_next.get_local uc_ttl.get_local uc_type.get_local
      pk_type.get_local pk_trace.get_local seq.get_local,
      use assms(2,3) same_header_nth [OF assms(1)] in \<open>simp_all add: offset_defs\<close>)+

lemma take_mem_write: "k \<le> off \<Longrightarrow> off \<le> length buf \<Longrightarrow> take k (mem_write buf off bs) = take k buf"
  by (simp add: mem_write_def)

lemma same_header_set:
  assumes "pkt_ok p" "native_ok L"
  shows "same_header (UM_setSeq L s p) p" "same_header (UM_setType t p) p" "same_header (setTime1 L a p) p"
    "same_header (setDuration L a p) p" "same_header (p\<lparr>psize := n\<rparr>) p" "same_header (setDest i p) p"
  using assms native_sizes(1,2) [OF assms(2)]
  by (simp_all add: same_header_def UM_setSeq_def UM_setType_def setTime1_def setDuration_def take_mem_write
      metric_offsets offset_defs pkt_ok_def MaxSize_def setDest_def)

lemma same_header_trans: "same_header p q \<Longrightarrow> same_header q r \<Longrightarrow> same_header p r"
  by (simp add: same_header_def)

lemma same_header_refl [simp]: "same_header p p"
  by (simp add: same_header_def)

lemma psize_update_simps [simp]:
  "UM_getType (p\<lparr>psize := n\<rparr>) = UM_getType p" "getTime1 L (p\<lparr>psize := n\<rparr>) = getTime1 L p"
  "getDuration L (p\<lparr>psize := n\<rparr>) = getDuration L p" "UM_getSeq L (p\<lparr>psize := n\<rparr>) = UM_getSeq L p"
  "pkt_ok (p\<lparr>psize := n\<rparr>) = pkt_ok p"
  by (simp_all add: UM_getType_def getTime1_def getDuration_def UM_getSeq_def pkt_ok_def)

lemma MetricType_byte: "sbyte_ok (MetricType_val t)"
  by (cases t) (simp_all add: sbyte_ok_def)

lemma um_type_other:
  assumes "native_ok L" "pkt_ok p"
  shows "UM_getType (setTime1 L a p) = UM_getType p" "UM_getType (setDuration L a p) = UM_getType p"
    "UM_getType (UM_setSeq L s p) = UM_getType p" "UM_getType (Uc_setTTL ttl p) = UM_getType p"
    "UM_getType (setType pt p) = UM_getType p"
proof -
  note f = um_type.header_field_axioms and i = disjoint_fields_axioms.intro
  note s = native_sizes(1,2) [OF assms(1)]
  show "UM_getType (setTime1 L a p) = UM_getType p"
    by (rule field_other [OF f um_time_field [OF assms(1)] i assms(2)]) (simp add: metric_offsets)
  show "UM_getType (setDuration L a p) = UM_getType p"
    by (rule field_other [OF f um_duration_field [OF assms(1)] i assms(2)]) (simp add: metric_offsets)
  show "UM_getType (UM_setSeq L s p) = UM_getType p"
    by (rule field_other [OF f um_seq_field [OF assms(1)] i assms(2)]) (simp add: metric_offsets)
  show "UM_getType (Uc_setTTL ttl p) = UM_getType p"
    by (rule field_other [OF f uc_ttl.header_field_axioms i assms(2)]) (simp add: metric_offsets offset_defs)
  show "UM_getType (setType pt p) = UM_getType p"
    by (rule field_other [OF f pk_type.header_field_axioms i assms(2)]) (simp add: metric_offsets offset_defs)
qed

lemma um_ok:
  assumes "native_ok L" "pkt_ok p"
  shows "pkt_ok (setTime1 L a p)" "pkt_ok (setDuration L a p)" "pkt_ok (UM_setSeq L s p)" "pkt_ok (UM_setType t p)"
    "pkt_ok (UnicastPacket p)" "pkt_ok (setDest i p)"
  using assms header_field.set_ok [OF um_time_field [OF assms(1)] assms(2)]
    header_field.set_ok [OF um_duration_field [OF assms(1)] assms(2)]
    header_field.set_ok [OF um_seq_field [OF assms(1)] assms(2)] um_type.set_ok [OF assms(2)]
  by (simp_all add: UnicastPacket_def pk_type.set_ok) (simp add: setDest_def pkt_ok_def)

text \<open>A filled metric packet: what its reader finds, and that only the time to live changes in the header.\<close>

lemma metric_packet_fields:
  assumes "native_ok L" "pkt_ok p"
  shows "pkt_ok (UCMetricPacket_time L t ttl s a p)" "UM_getType (UCMetricPacket_time L t ttl s a p) = MetricType_val t"
    "psize (UCMetricPacket_time L t ttl s a p) = MetricHeaderEnd L"
    "same_header (UCMetricPacket_time L t ttl s a p) (Uc_setTTL ttl (UM_setType (MetricType_val t) (UnicastPacket p)))"
    "time_ok a \<Longrightarrow> getTime1 L (UCMetricPacket_time L t ttl s a p) = a"
    "pkt_ok (UCMetricPacket_duration L t ttl s a p)" "UM_getType (UCMetricPacket_duration L t ttl s a p) = MetricType_val t"
    "psize (UCMetricPacket_duration L t ttl s a p) = MetricHeaderEnd L"
    "same_header (UCMetricPacket_duration L t ttl s a p) (Uc_setTTL ttl (UM_setType (MetricType_val t) (UnicastPacket p)))"
    "time_ok a \<Longrightarrow> getDuration L (UCMetricPacket_duration L t ttl s a p) = a"
proof -
  let ?q = "Uc_setTTL ttl (UM_setType (MetricType_val t) (UnicastPacket p))"
  have q: "pkt_ok ?q" "pkt_ok (UM_setSeq L s ?q)"
    using assms by (simp_all add: um_ok uc_ttl.set_ok)
  have t: "UM_getType ?q = MetricType_val t"
    using assms by (simp add: um_ok um_type_other um_type.get_set MetricType_byte)
  have h: "same_header (r\<lparr>psize := n\<rparr>) ?q" if "same_header r (UM_setSeq L s ?q)" "pkt_ok r" for r n
    using same_header_trans [OF same_header_set(5) [OF that(2) assms(1)]
        same_header_trans [OF that(1) same_header_set(1) [OF q(1) assms(1)]]] .
  show "pkt_ok (UCMetricPacket_time L t ttl s a p)" "UM_getType (UCMetricPacket_time L t ttl s a p) = MetricType_val t"
    "psize (UCMetricPacket_time L t ttl s a p) = MetricHeaderEnd L"
    "time_ok a \<Longrightarrow> getTime1 L (UCMetricPacket_time L t ttl s a p) = a"
    "pkt_ok (UCMetricPacket_duration L t ttl s a p)" "UM_getType (UCMetricPacket_duration L t ttl s a p) = MetricType_val t"
    "psize (UCMetricPacket_duration L t ttl s a p) = MetricHeaderEnd L"
    "time_ok a \<Longrightarrow> getDuration L (UCMetricPacket_duration L t ttl s a p) = a"
    using q t assms(1) header_field.get_set [OF um_time_field [OF assms(1)] q(2)]
      header_field.get_set [OF um_duration_field [OF assms(1)] q(2)]
    by (simp_all add: UCMetricPacket_time_def UCMetricPacket_duration_def um_ok um_type_other)
  show "same_header (UCMetricPacket_time L t ttl s a p) ?q" "same_header (UCMetricPacket_duration L t ttl s a p) ?q"
    using q assms(1) unfolding UCMetricPacket_time_def UCMetricPacket_duration_def
    by (auto intro!: h same_header_set um_ok)
qed

end
