(* ===== verification/Metric_Probe.thy ===== *)
theory Metric_Probe
  imports Metric_Packet
begin

text \<open>
  The metrics that measure links by probes: \<open>RTTMetric.cc\<close>, \<open>TTMetric.cc\<close> and \<open>PktPair.cc\<close> with their
  headers.  Each keeps a table of stations, in the order of \<open>std::map\<close>; a timer probes the station that
  was probed longest ago, and incoming packets update the table.  A metric works on its own record and on
  the routing daemon it belongs to.

  The record \<open>probe_env\<close> has what lies outside: the layout of the machine, durations, and the floating point
  expressions of the source, whose results are integers here: \<open>pe_smooth\<close> for the smoothed duration that
  is set from \<open>alpha\<close>, and \<open>pe_scale\<close> for the integral part of a duration scaled to a quality.
\<close>

record probe_env =
  pe_layout :: native_layout
  pe_duration :: "int \<Rightarrow> int \<Rightarrow> int"
  pe_t0 :: int
  pe_smooth :: "int \<Rightarrow> int \<Rightarrow> int"
  pe_scale :: "int \<Rightarrow> int"
  pe_getTT :: "NodeId \<Rightarrow> int"

section \<open>The tables\<close>

text \<open>The loop over the table that finds the entry which was probed longest ago.\<close>

fun oldest_loop :: "('e \<Rightarrow> int) \<Rightarrow> NodeId \<times> 'e \<Rightarrow> (NodeId \<times> 'e) list \<Rightarrow> NodeId \<times> 'e" where
  "oldest_loop last_fn oldest [] = oldest"
| "oldest_loop last_fn oldest (x # xs) =
     oldest_loop last_fn (if last_fn (snd oldest) > last_fn (snd x) then x else oldest) xs"

definition find_oldest :: "('e \<Rightarrow> int) \<Rightarrow> (NodeId, 'e) omap \<Rightarrow> (NodeId \<times> 'e) option" where
  "find_oldest last_fn m = (case m of [] \<Rightarrow> None | x # xs \<Rightarrow> Some (oldest_loop last_fn x m))"

text \<open>The loops of \<open>begin_update\<close> and \<open>end_update\<close>.\<close>

fun mark_loop :: "('e \<Rightarrow> 'e) \<Rightarrow> (NodeId, 'e) omap \<Rightarrow> (NodeId, 'e) omap" where
  "mark_loop f [] = []"
| "mark_loop f ((i, e) # m) = (i, f e) # mark_loop f m"

fun erase_loop :: "('e \<Rightarrow> bool) \<Rightarrow> (NodeId, 'e) omap \<Rightarrow> (NodeId, 'e) omap" where
  "erase_loop keep [] = []"
| "erase_loop keep ((i, e) # m) = (if \<not> keep e then erase_loop keep m else (i, e) # erase_loop keep m)"

text \<open>
  The base class declares \<open>virtual void addNode(const NodeId&)\<close>.  The three metrics declare
  \<open>virtual void addNode(NodeId&)\<close>, which is another function: a call through a pointer to
  the base class, as the topology makes it, reaches the empty function of the base class.
\<close>

definition Metric_addNode :: "NodeId \<Rightarrow> 'm \<Rightarrow> 'm" where
  "Metric_addNode i m = m"

text \<open>Converting a \<open>double\<close> to 16 bits is undefined outside of the range of the type.\<close>

definition quality_of_double :: "int \<Rightarrow> metric_error + link_quality_t" where
  "quality_of_double v = (if 0 \<le> v \<and> v < 65536 then Inr (word_of_int v) else Inl FloatOutOfRange)"

definition scaled_quality :: "probe_env \<Rightarrow> int \<Rightarrow> metric_error + link_quality_t" where
  "scaled_quality env t = quality_of_double (max 1 (pe_scale env t))"

section \<open>RTTMetric\<close>

record rtt_data =
  rd_time :: int
  rd_lastsend :: int
  rd_lastrecv :: int
  rd_in_use :: bool

definition rtt_data_new :: "probe_env \<Rightarrow> rtt_data" where
  "rtt_data_new env = \<lparr>rd_time = pe_duration env 1 1, rd_lastsend = pe_t0 env, rd_lastrecv = pe_t0 env, rd_in_use = True\<rparr>"

record RTTMetric =
  rtt_table :: "(NodeId, rtt_data) omap"
  rtt_history :: "(NodeId, int list) omap option"
  rtt_interval :: int
  rtt_packetSize :: nat
  rtt_waits :: "int list"

definition RTTMetric_new :: "probe_env \<Rightarrow> nat \<Rightarrow> nat \<Rightarrow> AwdsRouting \<Rightarrow> RTTMetric \<times> AwdsRouting" where
  "RTTMetric_new env cb d r =
     (\<lparr>rtt_table = [], rtt_history = None, rtt_interval = pe_duration env 1 2, rtt_packetSize = 800, rtt_waits = []\<rparr>,
      UCastMetric_new cb d r)"

definition RTT_start :: "int \<Rightarrow> RTTMetric \<Rightarrow> RTTMetric" where
  "RTT_start now m = m\<lparr>rtt_waits := rtt_waits m @ [now + rtt_interval m]\<rparr>"

definition RTT_go_history :: "RTTMetric \<Rightarrow> RTTMetric" where
  "RTT_go_history m = m\<lparr>rtt_history := Some []\<rparr>"

definition RTT_my_get_quality ::
    "probe_env \<Rightarrow> NodeDescr \<Rightarrow> RTTMetric \<Rightarrow> metric_error + (link_quality_t \<times> RTTMetric)" where
  "RTT_my_get_quality env ndescr m =
     (case om_find (nd_id ndescr) (rtt_table m) of
        None \<Rightarrow> Inr (max_quality, m\<lparr>rtt_table := om_insert (nd_id ndescr) (rtt_data_new env) (rtt_table m)\<rparr>)
      | Some e \<Rightarrow>
          if rd_time e \<noteq> 0 then rbind (scaled_quality env (rd_time e)) (\<lambda>q. Inr (q, m))
          else Inr (max_quality, m))"

definition RTT_addNode :: "probe_env \<Rightarrow> NodeId \<Rightarrow> RTTMetric \<Rightarrow> RTTMetric" where
  "RTT_addNode env i m =
     (case om_find i (rtt_table m) of
        None \<Rightarrow> m\<lparr>rtt_table := om_insert i (rtt_data_new env) (rtt_table m)\<rparr>
      | Some e \<Rightarrow> m\<lparr>rtt_table := om_adjust i (\<lambda>e. e\<lparr>rd_in_use := True\<rparr>) (rtt_table m)\<rparr>)"

definition RTT_begin_update :: "RTTMetric \<Rightarrow> RTTMetric" where
  "RTT_begin_update m = m\<lparr>rtt_table := mark_loop (\<lambda>e. e\<lparr>rd_in_use := False\<rparr>) (rtt_table m)\<rparr>"

definition RTT_end_update :: "RTTMetric \<Rightarrow> RTTMetric" where
  "RTT_end_update m = m\<lparr>rtt_table := erase_loop rd_in_use (rtt_table m)\<rparr>"

definition RTT_my_calculate :: "link_quality_t \<Rightarrow> link_quality_t \<Rightarrow> u32" where
  "RTT_my_calculate forward backward = ucast forward + ucast backward"

text \<open>\<open>now\<close> is \<open>AbsTime::now()\<close> and \<open>rnd\<close> the result of \<open>rand()\<close>.\<close>

definition RTT_go_measure ::
    "probe_env \<Rightarrow> int \<Rightarrow> int \<Rightarrow> RTTMetric \<Rightarrow> AwdsRouting \<Rightarrow> (RTTMetric \<times> AwdsRouting) rt_result" where
  "RTT_go_measure env now rnd m r =
     obind
       (case find_oldest rd_lastsend (rtt_table m) of
          None \<Rightarrow> oreturn (m, r)
        | Some (i, e) \<Rightarrow>
            let (pid, p, r) = newUnicastPacket PACKET_TYPE_UC_METRIC r;
                p = UCMetricPacket_time (pe_layout env) Metric_req 2 1 now p;
                (p, r) = sendvia p i (rtt_packetSize m) r
            in obind (rt_unref pid r) (\<lambda>r.
                 oreturn (m\<lparr>rtt_table := om_adjust i (\<lambda>e. e\<lparr>rd_lastsend := now\<rparr>) (rtt_table m)\<rparr>, r)))
       (\<lambda>(m, r). oreturn
         (m\<lparr>rtt_waits := rtt_waits m @ [rt_time r + rtt_interval m + pe_duration env (rnd mod 10) 10]\<rparr>, r))"

definition RTT_on_recv ::
    "probe_env \<Rightarrow> nat \<Rightarrow> BasePacket \<Rightarrow> RTTMetric \<Rightarrow> AwdsRouting \<Rightarrow> (BasePacket \<times> RTTMetric \<times> AwdsRouting) rt_result" where
  "RTT_on_recv env pid p m r =
     (let p = UCMetricPacket (pe_layout env) p in
      if UM_getType p = MetricType_val Metric_req then
        (let (qid, q, r) = newUnicastPacket PACKET_TYPE_UC_METRIC r;
             q = UCMetricPacket_time (pe_layout env) Metric_resp 2 1 (getTime1 (pe_layout env) p) q;
             (q, r) = sendvia q (getSrc p) 0 r
         in obind (rt_unref pid r) (\<lambda>r. oreturn (p, m, r)))
      else
        (let d = rt_time r - getTime1 (pe_layout env) p in
         case om_find (getSrc p) (rtt_table m) of
           None \<Rightarrow> oreturn (p, m, r)
         | Some e \<Rightarrow>
             let t = pe_smooth env d (rd_time e);
                 m = m\<lparr>rtt_table := om_adjust (getSrc p) (\<lambda>e. e\<lparr>rd_time := t, rd_lastrecv := rt_time r\<rparr>) (rtt_table m)\<rparr>;
                 m = (case rtt_history m of None \<Rightarrow> m
                      | Some h \<Rightarrow> m\<lparr>rtt_history := Some (om_insert (getSrc p)
                            ((case om_find (getSrc p) h of None \<Rightarrow> [] | Some l \<Rightarrow> l) @ [d, t]) h)\<rparr>)
             in oreturn (p, m, r)))"

definition RTT_on_wait ::
    "probe_env \<Rightarrow> int \<Rightarrow> int \<Rightarrow> RTTMetric \<Rightarrow> AwdsRouting \<Rightarrow> (RTTMetric \<times> AwdsRouting) rt_result" where
  "RTT_on_wait env now rnd m r = RTT_go_measure env now rnd m r"

section \<open>TTMetric\<close>

record tt_data =
  td_tt :: int
  td_active :: bool
  td_lastsend :: int

definition tt_data_new :: "probe_env \<Rightarrow> tt_data" where
  "tt_data_new env = \<lparr>td_tt = uint max_quality, td_active = True, td_lastsend = pe_t0 env\<rparr>"

record TTMetric =
  tt_table :: "(NodeId, tt_data) omap"
  tt_interval :: int
  tt_packetSize :: nat
  tt_waits :: "int list"

definition TTMetric_new :: "probe_env \<Rightarrow> nat \<Rightarrow> nat \<Rightarrow> AwdsRouting \<Rightarrow> TTMetric \<times> AwdsRouting" where
  "TTMetric_new env cb d r =
     (\<lparr>tt_table = [], tt_interval = pe_duration env 1 1, tt_packetSize = 800, tt_waits = []\<rparr>, UCastMetric_new cb d r)"

definition TT_start :: "int \<Rightarrow> TTMetric \<Rightarrow> TTMetric" where
  "TT_start now m = m\<lparr>tt_waits := tt_waits m @ [now + tt_interval m]\<rparr>"

text \<open>The element access of \<open>std::map\<close>, which enters a default element if there is none.\<close>

definition tt_access :: "probe_env \<Rightarrow> NodeId \<Rightarrow> (tt_data \<Rightarrow> tt_data) \<Rightarrow> TTMetric \<Rightarrow> TTMetric" where
  "tt_access env i f m =
     m\<lparr>tt_table := om_adjust i f
        (case om_find i (tt_table m) of None \<Rightarrow> om_insert i (tt_data_new env) (tt_table m) | Some _ \<Rightarrow> tt_table m)\<rparr>"

text \<open>\<open>pe_getTT\<close> is the transmission time of \<open>gea2mad\<close>, times the maximal quality.\<close>

definition TT_my_get_quality ::
    "probe_env \<Rightarrow> NodeDescr \<Rightarrow> TTMetric \<Rightarrow> metric_error + (link_quality_t \<times> TTMetric)" where
  "TT_my_get_quality env ndescr m =
     rbind (quality_of_double (pe_getTT env (nd_id ndescr))) (\<lambda>v.
       let ret = min v max_quality
       in Inr (ret, tt_access env (nd_id ndescr) (\<lambda>e. e\<lparr>td_tt := uint ret\<rparr>) m))"

definition TT_my_calculate :: "link_quality_t \<Rightarrow> link_quality_t \<Rightarrow> u32" where
  "TT_my_calculate forward backward = ucast forward"

definition TT_addNode :: "probe_env \<Rightarrow> NodeId \<Rightarrow> TTMetric \<Rightarrow> TTMetric" where
  "TT_addNode env i m = tt_access env i (\<lambda>e. e\<lparr>td_active := True\<rparr>) m"

definition TT_begin_update :: "TTMetric \<Rightarrow> TTMetric" where
  "TT_begin_update m = m\<lparr>tt_table := mark_loop (\<lambda>e. e\<lparr>td_active := False\<rparr>) (tt_table m)\<rparr>"

definition TT_end_update :: "TTMetric \<Rightarrow> TTMetric" where
  "TT_end_update m = m\<lparr>tt_table := erase_loop td_active (tt_table m)\<rparr>"

text \<open>The packet that is sent is not released.\<close>

definition TT_on_wait :: "probe_env \<Rightarrow> int \<Rightarrow> TTMetric \<Rightarrow> AwdsRouting \<Rightarrow> TTMetric \<times> AwdsRouting" where
  "TT_on_wait env now m r =
     (let (m, r) =
        (case find_oldest td_lastsend (tt_table m) of
           None \<Rightarrow> (m, r)
         | Some (i, e) \<Rightarrow>
             let (pid, p, r) = newUnicastPacket PACKET_TYPE_UC_METRIC r;
                 p = UCMetricPacket_time (pe_layout env) Metric_req 2 1 now p;
                 (p, r) = sendvia p i (tt_packetSize m) r
             in (m\<lparr>tt_table := om_adjust i (\<lambda>e. e\<lparr>td_lastsend := now\<rparr>) (tt_table m)\<rparr>, r))
      in (m\<lparr>tt_waits := tt_waits m @ [now + tt_interval m]\<rparr>, r))"

section \<open>PktPair\<close>

record pp_data =
  pd_active :: bool
  pd_lastsend :: int
  pd_time :: int
  pd_capacity :: nat
  pd_times :: "int list"
  pd_position :: nat

definition pp_data_new :: "probe_env \<Rightarrow> int \<Rightarrow> nat \<Rightarrow> pp_data" where
  "pp_data_new env now c = \<lparr>pd_active = True, pd_lastsend = now, pd_time = 0, pd_capacity = c,
     pd_times = replicate c (pe_duration env 1 1), pd_position = 0\<rparr>"

definition pd_setTime :: "probe_env \<Rightarrow> int \<Rightarrow> pp_data \<Rightarrow> pp_data" where
  "pd_setTime env t e =
     (if pd_times e \<noteq> []
      then e\<lparr>pd_times := (pd_times e)[pd_position e := t], pd_position := (pd_position e + 1) mod pd_capacity e\<rparr>
      else e\<lparr>pd_time := pe_smooth env t (pd_time e)\<rparr>)"

definition pd_getTime :: "pp_data \<Rightarrow> int \<times> pp_data" where
  "pd_getTime e =
     (let e = (if pd_times e \<noteq> []
               then e\<lparr>pd_time := fold (\<lambda>i t. min t (pd_times e ! i)) [1..<pd_capacity e] (pd_times e ! 0)\<rparr> else e)
      in (pd_time e, e))"

record PktPair =
  pp_nodes :: "(NodeId, pp_data) omap"
  pp_first :: "(NodeId, int) omap"
  pp_interval :: int
  pp_packetSize :: nat
  pp_bufferSize :: nat
  pp_waits :: "int list"

definition PktPair_new :: "probe_env \<Rightarrow> nat \<Rightarrow> nat \<Rightarrow> AwdsRouting \<Rightarrow> PktPair \<times> AwdsRouting" where
  "PktPair_new env cb d r =
     (\<lparr>pp_nodes = [], pp_first = [], pp_interval = pe_duration env 1 2, pp_packetSize = 800, pp_bufferSize = 0,
       pp_waits = []\<rparr>, UCastMetric_new cb d r)"

definition PP_my_get_quality ::
    "probe_env \<Rightarrow> NodeDescr \<Rightarrow> PktPair \<Rightarrow> metric_error + (link_quality_t \<times> PktPair)" where
  "PP_my_get_quality env ndescr m =
     (case om_find (nd_id ndescr) (pp_nodes m) of
        None \<Rightarrow> Inr (max_quality, m)
      | Some e \<Rightarrow>
          let (t, e) = pd_getTime e;
              m = m\<lparr>pp_nodes := om_adjust (nd_id ndescr) (\<lambda>_. e) (pp_nodes m)\<rparr>
          in if t \<noteq> 0 then rbind (scaled_quality env (pd_time e)) (\<lambda>q. Inr (q, m)) else Inr (max_quality, m))"

definition PP_my_calculate :: "link_quality_t \<Rightarrow> link_quality_t \<Rightarrow> u32" where
  "PP_my_calculate forward backward = ucast forward + ucast backward"

definition PP_start :: "int \<Rightarrow> PktPair \<Rightarrow> PktPair" where
  "PP_start now m = m\<lparr>pp_waits := pp_waits m @ [now + pp_interval m]\<rparr>"

definition PP_on_recv :: "probe_env \<Rightarrow> BasePacket \<Rightarrow> PktPair \<Rightarrow> AwdsRouting \<Rightarrow> BasePacket \<times> PktPair \<times> AwdsRouting" where
  "PP_on_recv env p m r =
     (let t = rt_time r; p = UCMetricPacket (pe_layout env) p; sender = getSrc p in
      if UM_getType p = MetricType_val Metric_first then (p, m\<lparr>pp_first := om_insert sender t (pp_first m)\<rparr>, r)
      else if UM_getType p = MetricType_val Metric_second then
        (case om_find sender (pp_first m) of
           None \<Rightarrow> (p, m, r)
         | Some t1 \<Rightarrow>
             let (qid, q, r) = newUnicastPacket PACKET_TYPE_UC_METRIC r;
                 q = UCMetricPacket_duration (pe_layout env) Metric_resp 2 1 (t - t1) q;
                 (q, r) = sendvia q sender 0 r
             in (p, m, r))
      else if UM_getType p = MetricType_val Metric_resp then
        (case om_find sender (pp_nodes m) of
           None \<Rightarrow> (p, m, r)
         | Some e \<Rightarrow>
             (p, m\<lparr>pp_nodes := om_adjust sender (pd_setTime env (getDuration (pe_layout env) p)) (pp_nodes m)\<rparr>, r))
      else (p, m, r))"

definition PP_on_wait :: "probe_env \<Rightarrow> int \<Rightarrow> PktPair \<Rightarrow> AwdsRouting \<Rightarrow> PktPair \<times> AwdsRouting" where
  "PP_on_wait env now m r =
     (let (m, r) =
        (case find_oldest pd_lastsend (pp_nodes m) of
           None \<Rightarrow> (m, r)
         | Some (i, e) \<Rightarrow>
             let (pid, p, r) = newUnicastPacket PACKET_TYPE_UC_METRIC r;
                 p = UCMetricPacket_time (pe_layout env) Metric_first 2 1 now p;
                 (p, r) = sendvia p i (pp_packetSize m) r;
                 (pid2, p2, r) = newUnicastPacket PACKET_TYPE_UC_METRIC r;
                 p2 = UCMetricPacket_time (pe_layout env) Metric_second 2 1 now p2;
                 (p2, r) = sendvia p2 i (pp_packetSize m) r
             in (m\<lparr>pp_nodes := om_adjust i (\<lambda>e. e\<lparr>pd_lastsend := now\<rparr>) (pp_nodes m)\<rparr>, r))
      in (m\<lparr>pp_waits := pp_waits m @ [now + pp_interval m]\<rparr>, r))"

definition PP_addNode :: "probe_env \<Rightarrow> int \<Rightarrow> NodeId \<Rightarrow> PktPair \<Rightarrow> PktPair" where
  "PP_addNode env now i m =
     (case om_find i (pp_nodes m) of
        None \<Rightarrow> m\<lparr>pp_nodes := om_insert i (pp_data_new env now (pp_bufferSize m)) (pp_nodes m)\<rparr>
      | Some e \<Rightarrow> m\<lparr>pp_nodes := om_adjust i (\<lambda>e. e\<lparr>pd_active := True\<rparr>) (pp_nodes m)\<rparr>)"

definition PP_begin_update :: "PktPair \<Rightarrow> PktPair" where
  "PP_begin_update m = m\<lparr>pp_nodes := mark_loop (\<lambda>e. e\<lparr>pd_active := False\<rparr>) (pp_nodes m)\<rparr>"

definition PP_end_update :: "PktPair \<Rightarrow> PktPair" where
  "PP_end_update m = m\<lparr>pp_nodes := erase_loop pd_active (pp_nodes m)\<rparr>"


section \<open>The tables, abstractly\<close>

lemma oldest_loop_props:
  "oldest_loop last_fn x xs \<in> insert x (set xs) \<and>
   (\<forall>y \<in> insert x (set xs). last_fn (snd (oldest_loop last_fn x xs)) \<le> last_fn (snd y))"
proof (induction xs arbitrary: x)
  case (Cons y xs)
  show ?case
    using Cons.IH [of "if last_fn (snd x) > last_fn (snd y) then y else x"] by (auto split: if_splits)
qed simp

lemma find_oldest_Some:
  assumes "find_oldest last_fn m = Some (i, e)"
  shows "(i, e) \<in> set m" "(j, f) \<in> set m \<Longrightarrow> last_fn e \<le> last_fn f"
proof -
  obtain x xs where m: "m = x # xs" "oldest_loop last_fn x m = (i, e)"
    using assms by (auto simp: find_oldest_def split: list.splits)
  with oldest_loop_props [of last_fn x m] show "(i, e) \<in> set m" "(j, f) \<in> set m \<Longrightarrow> last_fn e \<le> last_fn f"
    by fastforce+
qed

lemma find_oldest_None [simp]: "find_oldest last_fn m = None \<longleftrightarrow> m = []"
  by (simp add: find_oldest_def split: list.splits)

lemma mark_loop_map: "mark_loop f m = map (\<lambda>(i, e). (i, f e)) m"
  by (induction f m rule: mark_loop.induct) auto

lemma erase_loop_filter: "erase_loop keep m = filter (\<lambda>(i, e). keep e) m"
  by (induction keep m rule: erase_loop.induct) auto

text \<open>
  Probing the table at given times, as the timers of the three metrics do.  The locale states what a
  metric's table offers: the time of the last probe can be read and set.
\<close>

fun probe_rounds :: "('e \<Rightarrow> int) \<Rightarrow> (int \<Rightarrow> 'e \<Rightarrow> 'e) \<Rightarrow> int list \<Rightarrow> (NodeId, 'e) omap \<Rightarrow> NodeId list" where
  "probe_rounds last_fn set_last [] m = []"
| "probe_rounds last_fn set_last (t # ts) m =
     (case find_oldest last_fn m of None \<Rightarrow> []
      | Some (i, e) \<Rightarrow> i # probe_rounds last_fn set_last ts (om_adjust i (set_last t) m))"

locale probe_table =
  fixes last_fn :: "'e \<Rightarrow> int"
    and set_last :: "int \<Rightarrow> 'e \<Rightarrow> 'e"
  assumes last_set: "last_fn (set_last t e) = t"
begin

lemma om_adjust_mem: "(j, f) \<in> set (om_adjust i (set_last t) m) \<longleftrightarrow>
    (\<exists>e. (j, e) \<in> set m \<and> f = (if j = i then set_last t e else e))"
  by (force simp: om_adjust_def image_iff)

text \<open>Stations in \<open>D\<close> have been probed, and later than all others.\<close>

lemma rounds_fresh:
  assumes "om_ok m" "D \<subseteq> fst ` set m" "length ts \<le> card (fst ` set m - D)" "sorted_wrt (<) ts"
    and "\<And>j f t. (j, f) \<in> set m \<Longrightarrow> t \<in> set ts \<Longrightarrow> last_fn f < t"
    and "\<And>i e j f. (i, e) \<in> set m \<Longrightarrow> (j, f) \<in> set m \<Longrightarrow> i \<notin> D \<Longrightarrow> j \<in> D \<Longrightarrow> last_fn e < last_fn f"
  shows "distinct (probe_rounds last_fn set_last ts m) \<and>
    set (probe_rounds last_fn set_last ts m) \<subseteq> fst ` set m - D \<and>
    length (probe_rounds last_fn set_last ts m) = length ts"
  using assms
proof (induction ts arbitrary: m D)
  case (Cons t ts)
  let ?U = "fst ` set m - D"
  have "0 < card ?U" using Cons.prems(3) by simp
  then have "?U \<noteq> {}" by (metis card.empty less_irrefl)
  then obtain u g where u: "(u, g) \<in> set m" "u \<notin> D" by force
  then have "m \<noteq> []" by auto
  then obtain i e where o: "find_oldest last_fn m = Some (i, e)"
    by (cases "find_oldest last_fn m") auto
  note min = find_oldest_Some [OF o]
  have i: "i \<notin> D"
    using Cons.prems(6) [OF u(1) min(1) u(2)] min(2) [OF u(1)] by fastforce
  let ?m = "om_adjust i (set_last t) m" and ?D = "insert i D"
  have keys: "fst ` set ?m = fst ` set m"
    by (metis om_adjust_keys set_map)
  have card: "card (fst ` set ?m - ?D) = card ?U - 1"
  proof -
    have "i \<in> ?U" using i min(1) by force
    from card_Diff_singleton [OF this] show ?thesis by (simp only: keys Diff_insert [of _ i D])
  qed
  have IH: "distinct (probe_rounds last_fn set_last ts ?m) \<and>
      set (probe_rounds last_fn set_last ts ?m) \<subseteq> fst ` set ?m - ?D \<and>
      length (probe_rounds last_fn set_last ts ?m) = length ts"
  proof (rule Cons.IH)
    show "om_ok ?m" "sorted_wrt (<) ts" using Cons.prems(1,4) by simp_all
    show "?D \<subseteq> fst ` set ?m" using Cons.prems(2) min(1) unfolding keys by force
    show "length ts \<le> card (fst ` set ?m - ?D)" using Cons.prems(3) unfolding card by simp
  next
    fix j f t' assume "(j, f) \<in> set ?m" "t' \<in> set ts"
    then show "last_fn f < t'"
      using Cons.prems(4,5) by (auto simp: om_adjust_mem last_set)
  next
    fix j f k h assume "(j, f) \<in> set ?m" "(k, h) \<in> set ?m" "j \<notin> ?D" "k \<in> ?D"
    then have j: "(j, f) \<in> set m" "j \<notin> D" and k: "k = i \<and> last_fn h = t \<or> (k, h) \<in> set m \<and> k \<in> D"
      using last_set by (auto simp: om_adjust_mem split: if_splits)
    show "last_fn f < last_fn h"
      using k Cons.prems(5) [OF j(1), of t] Cons.prems(6) [OF j(1) _ j(2)] by auto
  qed
  have "i \<in> fst ` set m" using min(1) by force
  with IH i o show ?case unfolding keys by auto
qed simp

text \<open>As many probes as there are stations reach each of them once.\<close>

lemma round_robin:
  assumes "om_ok m" "length ts = length m" "sorted_wrt (<) ts"
    and "\<And>j f t. (j, f) \<in> set m \<Longrightarrow> t \<in> set ts \<Longrightarrow> last_fn f < t"
  shows "distinct (probe_rounds last_fn set_last ts m)"
    "set (probe_rounds last_fn set_last ts m) = set (map fst m)"
proof -
  have d: "distinct (map fst m)" using assms(1) by (rule om_ok_distinct)
  then have c: "card (fst ` set m) = length m"
    using distinct_card [OF d] by simp
  have R: "distinct (probe_rounds last_fn set_last ts m)" "set (probe_rounds last_fn set_last ts m) \<subseteq> fst ` set m"
    "length (probe_rounds last_fn set_last ts m) = length m"
    using rounds_fresh [OF assms(1) _ _ assms(3) assms(4), of "{}"] assms(2) c by auto
  show "distinct (probe_rounds last_fn set_last ts m)" by (rule R(1))
  show "set (probe_rounds last_fn set_last ts m) = set (map fst m)"
    using card_subset_eq [OF _ R(2)] distinct_card [OF R(1)] R(3) c by simp
qed

end

interpretation rtt_probes: probe_table rd_lastsend "\<lambda>t e. e\<lparr>rd_lastsend := t\<rparr>"
  by unfold_locales simp

interpretation tt_probes: probe_table td_lastsend "\<lambda>t e. e\<lparr>td_lastsend := t\<rparr>"
  by unfold_locales simp

interpretation pp_probes: probe_table pd_lastsend "\<lambda>t e. e\<lparr>pd_lastsend := t\<rparr>"
  by unfold_locales simp


section \<open>Sending a probe\<close>

lemma metric_ubyte: "ubyte_ok PACKET_TYPE_UC_METRIC"
  by (simp add: ubyte_ok_def PACKET_TYPE_UC_METRIC_def)

text \<open>The probe as it is handed to the network, with all that a receiver reads of it.\<close>

definition probe_ok :: "native_layout \<Rightarrow> MetricType \<Rightarrow> NodeId \<Rightarrow> NodeId \<Rightarrow> BasePacket \<Rightarrow> bool" where
  "probe_ok L t src dest p \<longleftrightarrow> pkt_ok p \<and> getType p = PacketTypeUnicast \<and> getSrc p = src \<and> getUcDest p = dest \<and> getNextHop p = dest \<and>
     pkt_dest p = dest \<and> Uc_getTTL p = 2 \<and> getUcPacketType p = PACKET_TYPE_UC_METRIC \<and>
     UM_getType p = MetricType_val t"


text \<open>Writing the header leaves the fields of the metric alone.\<close>

lemma um_keeps_header:
  assumes "native_ok L" "pkt_ok p" "header_field get put off n valid" "off + n \<le> UnicastPacketEnd"
  shows "UM_getType (put v p) = UM_getType p" "getTime1 L (put v p) = getTime1 L p"
    "getDuration L (put v p) = getDuration L p"
proof -
  note i = disjoint_fields_axioms.intro
  show "UM_getType (put v p) = UM_getType p"
    by (rule field_other [OF um_type.header_field_axioms assms(3) i assms(2)])
      (use assms(4) in \<open>simp add: metric_offsets\<close>)
  show "getTime1 L (put v p) = getTime1 L p"
    by (rule field_other [OF um_time_field [OF assms(1)] assms(3) i assms(2)])
      (use assms(4) in \<open>simp add: metric_offsets\<close>)
  show "getDuration L (put v p) = getDuration L p"
    by (rule field_other [OF um_duration_field [OF assms(1)] assms(3) i assms(2)])
      (use assms(4) in \<open>simp add: metric_offsets\<close>)
qed

lemmas um_keeps_ucdest = um_keeps_header [OF _ _ uc_dest.header_field_axioms, unfolded offset_defs, simplified]
lemmas um_keeps_nexthop = um_keeps_header [OF _ _ uc_next.header_field_axioms, unfolded offset_defs, simplified]
lemmas um_keeps_type = um_keeps_header [OF _ _ pk_type.header_field_axioms, unfolded offset_defs, simplified]

lemma setDest_simps [simp]:
  "getSrc (setDest i p) = getSrc p" "getUcDest (setDest i p) = getUcDest p" "getNextHop (setDest i p) = getNextHop p"
  "Uc_getTTL (setDest i p) = Uc_getTTL p" "getUcPacketType (setDest i p) = getUcPacketType p"
  "getType (setDest i p) = getType p" "getTraceFlag (setDest i p) = getTraceFlag p" "pkt_dest (setDest i p) = i"
  "psize (setDest i p) = psize p" "pkt_ok (setDest i p) = pkt_ok p" "UM_getType (setDest i p) = UM_getType p"
  "getTime1 L (setDest i p) = getTime1 L p" "getDuration L (setDest i p) = getDuration L p"
  by (simp_all add: setDest_def getSrc_def getUcDest_def getNextHop_def Uc_getTTL_def getUcPacketType_def
      getType_def getTraceFlag_def getControlBit_def pkt_ok_def UM_getType_def getTime1_def getDuration_def)

lemma psize_header_simps [simp]:
  "getSrc (p\<lparr>psize := n\<rparr>) = getSrc p" "getUcDest (p\<lparr>psize := n\<rparr>) = getUcDest p"
  "getNextHop (p\<lparr>psize := n\<rparr>) = getNextHop p" "Uc_getTTL (p\<lparr>psize := n\<rparr>) = Uc_getTTL p"
  "getUcPacketType (p\<lparr>psize := n\<rparr>) = getUcPacketType p" "getType (p\<lparr>psize := n\<rparr>) = getType p"
  "getTraceFlag (p\<lparr>psize := n\<rparr>) = getTraceFlag p"
  by (simp_all add: getSrc_def getUcDest_def getNextHop_def Uc_getTTL_def getUcPacketType_def
      getType_def getTraceFlag_def getControlBit_def)

lemma sendvia_keeps:
  assumes "native_ok L" "pkt_ok q" "\<not> getTraceFlag q" "Uc_getTTL q \<noteq> 0" "NodeId_ok dest"
  obtains P where "sendvia q dest n r = (P, rt_emit (SendPacket P False) r)" "pkt_ok P" "getType P = PacketTypeUnicast"
    "getSrc P = getSrc q" "getUcDest P = dest" "getNextHop P = dest" "pkt_dest P = dest" "Uc_getTTL P = Uc_getTTL q"
    "getUcPacketType P = getUcPacketType q" "UM_getType P = UM_getType q" "getTime1 L P = getTime1 L q"
    "getDuration L P = getDuration L q" "psize P = max (psize q) n"
proof -
  define q1 where "q1 = setDest dest (setUcDest dest (setType PacketTypeUnicast q))"
  define q2 where "q2 = setType PacketTypeUnicast (q1\<lparr>psize := max (psize q1) n\<rparr>)"
  define P where "P = setDest dest (setNextHop dest q2)"
  have q1: "pkt_ok q1" "getSrc q1 = getSrc q" "getUcDest q1 = dest" "Uc_getTTL q1 = Uc_getTTL q"
    "getUcPacketType q1 = getUcPacketType q" "getType q1 = PacketTypeUnicast" "\<not> getTraceFlag q1" "psize q1 = psize q"
    "UM_getType q1 = UM_getType q" "getTime1 L q1 = getTime1 L q" "getDuration L q1 = getDuration L q"
    using assms unfolding q1_def
    by (simp_all add: hdr_simps pk_type.set_ok pk_type.get_set pk_type.rest_set um_keeps_ucdest um_keeps_type)
  have q2: "pkt_ok q2" "getSrc q2 = getSrc q" "getUcDest q2 = dest" "Uc_getTTL q2 = Uc_getTTL q"
    "getUcPacketType q2 = getUcPacketType q" "getType q2 = PacketTypeUnicast" "\<not> getTraceFlag q2"
    "psize q2 = max (psize q) n" "UM_getType q2 = UM_getType q" "getTime1 L q2 = getTime1 L q" "getDuration L q2 = getDuration L q"
    using assms(1) q1 unfolding q2_def
    by (simp_all add: hdr_simps pk_type.set_ok pk_type.get_set pk_type.rest_set um_keeps_type)
  have P: "pkt_ok P" "getType P = PacketTypeUnicast" "getSrc P = getSrc q" "getUcDest P = dest" "getNextHop P = dest"
    "pkt_dest P = dest" "Uc_getTTL P = Uc_getTTL q" "getUcPacketType P = getUcPacketType q" "UM_getType P = UM_getType q"
    "getTime1 L P = getTime1 L q" "getDuration L P = getDuration L q" "psize P = max (psize q) n"
    using assms(1,5) q2 unfolding P_def
    by (simp_all add: hdr_simps um_keeps_nexthop)
  have "sendvia q dest n r = (P, rt_emit (SendPacket P False) r)"
    using assms(4) q2(4,7)
    by (simp add: sendvia_def sendUnicastVia_def trace_packet_def UnicastPacket_def P_def q2_def q1_def Let_def)
  from that [OF this P] show thesis .
qed


lemma filled_header:
  assumes "native_ok L" "pkt_ok p" "pkt_ok q" "same_header q (Uc_setTTL 2 (UM_setType v (UnicastPacket p)))"
  shows "getSrc q = getSrc p" "getTraceFlag q = getTraceFlag p" "getUcPacketType q = getUcPacketType p" "Uc_getTTL q = 2"
proof -
  let ?u = "UM_setType v (UnicastPacket p)"
  have u: "pkt_ok ?u" "pkt_ok (UnicastPacket p)" "pkt_ok (Uc_setTTL 2 ?u)"
    using assms(1,2) by (simp_all add: um_ok uc_ttl.set_ok)
  note h = same_header_get [OF assms(4) assms(3) u(3)] same_header_get [OF same_header_set(2) [OF u(2) assms(1)] u(1) u(2)]
  have "ubyte_ok 2" by (simp add: ubyte_ok_def)
  with h u assms(2) show "getSrc q = getSrc p" "getTraceFlag q = getTraceFlag p" "getUcPacketType q = getUcPacketType p" "Uc_getTTL q = 2"
    by (simp_all add: hdr_simps UnicastPacket_def)
qed

lemma probe_sent:
  assumes "native_ok L" "NodeId_ok (rt_myNodeId r)" "NodeId_ok dest"
    and new: "newUnicastPacket PACKET_TYPE_UC_METRIC r = (pid, p, r1)"
    and q: "q = UCMetricPacket_time L t 2 1 a p \<or> q = UCMetricPacket_duration L t 2 1 a p"
  obtains P where "sendvia q dest n r' = (P, rt_emit (SendPacket P False) r')" "probe_ok L t (rt_myNodeId r) dest P"
    "psize P = max (MetricHeaderEnd L) n"
    "q = UCMetricPacket_time L t 2 1 a p \<Longrightarrow> time_ok a \<Longrightarrow> getTime1 L P = a"
    "q = UCMetricPacket_duration L t 2 1 a p \<Longrightarrow> time_ok a \<Longrightarrow> getDuration L P = a"
proof -
  have p: "pkt_ok p" "getSrc p = rt_myNodeId r" "\<not> getTraceFlag p" "getUcPacketType p = PACKET_TYPE_UC_METRIC"
  proof -
    obtain p' r2 where "newUnicastPacket PACKET_TYPE_UC_METRIC r = (rt_next_packet r, p', r2)" "pkt_ok p'"
      "getSrc p' = rt_myNodeId r" "\<not> getTraceFlag p'" "getUcPacketType p' = PACKET_TYPE_UC_METRIC"
      by (rule newUnicastPacket_eq [OF metric_ubyte assms(2)])
    with new show "pkt_ok p" "getSrc p = rt_myNodeId r" "\<not> getTraceFlag p"
      "getUcPacketType p = PACKET_TYPE_UC_METRIC"
      by simp_all
  qed
  note f = metric_packet_fields [OF assms(1) p(1), where t = t and ttl = 2 and s = 1 and a = a]
  have qf: "pkt_ok q" "UM_getType q = MetricType_val t" "psize q = MetricHeaderEnd L"
    "same_header q (Uc_setTTL 2 (UM_setType (MetricType_val t) (UnicastPacket p)))"
    using q f by auto
  note h = filled_header [OF assms(1) p(1) qf(1,4)]
  obtain P where P: "sendvia q dest n r' = (P, rt_emit (SendPacket P False) r')" "pkt_ok P" "getType P = PacketTypeUnicast"
    "getSrc P = getSrc q" "getUcDest P = dest" "getNextHop P = dest" "pkt_dest P = dest" "Uc_getTTL P = Uc_getTTL q"
    "getUcPacketType P = getUcPacketType q" "UM_getType P = UM_getType q" "getTime1 L P = getTime1 L q"
    "getDuration L P = getDuration L q" "psize P = max (psize q) n"
    by (rule sendvia_keeps [OF assms(1) qf(1) _ _ assms(3), of n r']) (use h p in auto)
  show thesis
    by (rule that [OF P(1)]) (use P h p qf f in \<open>auto simp: probe_ok_def\<close>)
qed

section \<open>RTTMetric: measuring\<close>

definition sent_to :: "rt_event list \<Rightarrow> NodeId list" where
  "sent_to log = concat (map (\<lambda>e. case e of SendPacket p _ \<Rightarrow> [pkt_dest p] | _ \<Rightarrow> []) log)"

lemma sent_to_simps [simp]:
  "sent_to [] = []" "sent_to (xs @ ys) = sent_to xs @ sent_to ys" "sent_to [SendPacket p b] = [pkt_dest p]"
  "sent_to [PacketReleased k] = []"
  by (simp_all add: sent_to_def)

lemma rt_time_simps [simp]: "rt_time (r\<lparr>rt_log := l\<rparr>) = rt_time r" "rt_time (r\<lparr>rt_refs := f\<rparr>) = rt_time r"
  "rt_time (r\<lparr>rt_next_packet := k\<rparr>) = rt_time r" "rt_time (r\<lparr>rt_unicastSeq := u\<rparr>) = rt_time r"
  by (simp_all add: rt_time_def)

lemma RTT_go_measure_probe:
  assumes "native_ok (pe_layout env)" "NodeId_ok (rt_myNodeId r)" "find_oldest rd_lastsend (rtt_table m) = Some (i, e)"
    "NodeId_ok i" "time_ok now"
  obtains m' r' P where "RTT_go_measure env now rnd m r = oreturn (m', r')"
    "rtt_table m' = om_adjust i (\<lambda>e. e\<lparr>rd_lastsend := now\<rparr>) (rtt_table m)"
    "rt_log r' = rt_log r @ [SendPacket P False, PacketReleased (rt_next_packet r)]"
    "probe_ok (pe_layout env) Metric_req (rt_myNodeId r) i P" "getTime1 (pe_layout env) P = now"
    "psize P = max (MetricHeaderEnd (pe_layout env)) (rtt_packetSize m)"
    "rt_myNodeId r' = rt_myNodeId r" "rt_topology r' = rt_topology r"
    "rtt_packetSize m' = rtt_packetSize m" "length (rtt_waits m') = Suc (length (rtt_waits m))"
proof -
  obtain p r1 where new: "newUnicastPacket PACKET_TYPE_UC_METRIC r = (rt_next_packet r, p, r1)"
    and r1: "r1 = r\<lparr>rt_refs := (rt_refs r)(rt_next_packet r := 1), rt_next_packet := rt_next_packet r + 1,
       rt_unicastSeq := rt_unicastSeq r + 1\<rparr>"
    by (rule newUnicastPacket_eq [OF metric_ubyte assms(2)])
  define q where "q = UCMetricPacket_time (pe_layout env) Metric_req 2 1 now p"
  obtain P where P: "sendvia q i (rtt_packetSize m) r1 = (P, rt_emit (SendPacket P False) r1)"
    "probe_ok (pe_layout env) Metric_req (rt_myNodeId r) i P" "psize P = max (MetricHeaderEnd (pe_layout env)) (rtt_packetSize m)"
    "getTime1 (pe_layout env) P = now"
    by (rule probe_sent [OF assms(1,2,4) new, of q Metric_req now "rtt_packetSize m" r1])
      (use assms(5) in \<open>auto simp: q_def\<close>)
  have u: "rt_unref (rt_next_packet r) (rt_emit (SendPacket P False) r1) = oreturn
      (r1\<lparr>rt_refs := (rt_refs r)(rt_next_packet r := 0), rt_log := rt_log r @ [SendPacket P False, PacketReleased (rt_next_packet r)]\<rparr>)"
    by (simp add: rt_unref_def rt_emit_def r1 Let_def)
  have "RTT_go_measure env now rnd m r = oreturn
      (m\<lparr>rtt_table := om_adjust i (\<lambda>e. e\<lparr>rd_lastsend := now\<rparr>) (rtt_table m),
         rtt_waits := rtt_waits m @ [rt_time r + rtt_interval m + pe_duration env (rnd mod 10) 10]\<rparr>,
       r1\<lparr>rt_refs := (rt_refs r)(rt_next_packet r := 0),
         rt_log := rt_log r @ [SendPacket P False, PacketReleased (rt_next_packet r)]\<rparr>)"
    by (simp add: RTT_go_measure_def assms(3) new q_def [symmetric] P(1) u) (simp add: r1 rt_time_def)
  then show thesis
    by (rule that [OF _ _ _ P(2,4,3)]) (simp_all add: r1)
qed

end
