(* ===== verification/Routing_Neighbors.thy ===== *)
theory Routing_Neighbors
  imports Awds_Routing
begin

text \<open>
  The list of neighbors: the binary search ends and finds the neighbor or its place, beacons keep
  the list sorted, the reference counts of the beacons and the two-hop list exact, the removal of
  expired neighbors is a filter, and the schedule of the beacons ends.
\<close>

section \<open>Reading through the access class\<close>

lemma Beacon_reads [simp]:
  "getSrc (Beacon p) = getSrc p" "getSeq (Beacon p) = getSeq p" "listed (Beacon p) = listed p"
  "num_listed (Beacon p) = num_listed p" "listed_mset (Beacon p) = listed_mset p"
proof -
  show "getSrc (Beacon p) = getSrc p" "getSeq (Beacon p) = getSeq p"
    by (simp_all add: Beacon_def setType_def getSrc_def getSeq_def offset_defs mem_read_update_out)
  show l: "listed (Beacon p) = listed p"
    by (simp add: Beacon_def setType_def listed_def [abs_def] beacon_offsets mem_read_update_out)
  show n: "num_listed (Beacon p) = num_listed p"
    by (simp add: Beacon_def setType_def num_listed_def getNumNoMpr_def getNumMpr_def beacon_offsets)
  show "listed_mset (Beacon p) = listed_mset p" by (simp add: listed_mset_def l n)
qed

lemma size_listed: "size (listed_mset p) \<le> 254"
proof -
  have "sint (b :: byte) \<le> 127" for b using sint_less [of b] by simp
  then have "getNumNoMpr p + getNumMpr p \<le> 254" unfolding getNumNoMpr_def getNumMpr_def by (smt (verit))
  then show ?thesis by (simp add: listed_mset_def num_listed_def)
qed

section \<open>The binary search\<close>

lemma sdiv_mid: "a \<le> b \<Longrightarrow> (int a + int b) sdiv 2 = int ((a + b) div 2)"
  by (cases "a + b = 0") (auto simp: signed_divide_int_def zdiv_int sgn_if)

definition found_at :: "(nat \<times> NodeDescr) list \<Rightarrow> nat \<Rightarrow> NodeId \<Rightarrow> int \<Rightarrow> bool" where
  "found_at ns num i res \<longleftrightarrow>
     (if res \<ge> 0 then nat res < num \<and> nd_id (snd (ns ! nat res)) = i
      else nat (- res - 1) \<le> num \<and> (\<forall>j < nat (- res - 1). nd_id (snd (ns ! j)) < i) \<and>
        (\<forall>j < num. nat (- res - 1) \<le> j \<longrightarrow> i < nd_id (snd (ns ! j))))"

lemma findNeigh_loop_finds:
  assumes "a \<le> b" "b \<le> num" "num \<le> length ns"
    and "\<forall>k < num. \<forall>j < k. nd_id (snd (ns ! j)) < nd_id (snd (ns ! k))"
    and "\<forall>j < a. nd_id (snd (ns ! j)) < i" "\<forall>j < num. b \<le> j \<longrightarrow> i < nd_id (snd (ns ! j))"
  shows "\<exists>res. findNeigh_loop ns i (int a) (int b) = Some (Inr res) \<and> found_at ns num i res"
  using assms
proof (induction "b - a" arbitrary: a b rule: less_induct)
  case less
  show ?case
  proof (cases "a = b")
    case True
    then have "findNeigh_loop ns i (int a) (int b) = Some (Inr (- int a - 1))"
      by (simp add: findNeigh_loop.simps)
    then show ?thesis using less.prems True by (auto simp: found_at_def)
  next
    case False
    define m where "m = (a + b) div 2"
    have m: "a \<le> m" "m < b" using False less.prems(1) by (auto simp: m_def)
    let ?mid = "nd_id (snd (ns ! m))"
    have step: "findNeigh_loop ns i (int a) (int b) =
        (if ?mid = i then Some (Inr (int m)) else if ?mid < i then findNeigh_loop ns i (int (m + 1)) (int b)
         else findNeigh_loop ns i (int a) (int m))"
      using m False less.prems(1-3) sdiv_mid [OF less.prems(1)]
      by (subst findNeigh_loop.simps) (simp add: Let_def m_def [symmetric] add.commute)
    consider (eq) "?mid = i" | (below) "?mid < i" | (above) "i < ?mid" using less_linear by blast
    then show ?thesis
    proof cases
      case eq
      then show ?thesis using step m less.prems(2) by (auto simp: found_at_def)
    next
      case below
      have "\<forall>j < m + 1. nd_id (snd (ns ! j)) < i"
        using below less.prems(2,4) m by (metis add.commute less_Suc_eq less_trans order_less_le_trans plus_1_eq_Suc)
      moreover have "b - (m + 1) < b - a" "m + 1 \<le> b" using m by simp_all
      moreover have "?mid \<noteq> i" using below by simp
      ultimately show ?thesis using less.hyps [of b "m + 1"] less.prems step below by simp
    next
      case above
      have "\<forall>j < num. m \<le> j \<longrightarrow> i < nd_id (snd (ns ! j))"
        using above less.prems(4) by (metis le_less less_trans)
      from less.hyps [OF _ m(1) _ less.prems(3,4,5) this] m less.prems(2) show ?thesis
        using step above by (auto simp: not_less_iff_gr_or_eq)
    qed
  qed
qed

section \<open>The invariant\<close>

definition used :: "AwdsRouting \<Rightarrow> (nat \<times> NodeDescr) list" where
  "used r = take (rt_numNeigh r) (rt_neighbors r)"

definition neigh_ids :: "AwdsRouting \<Rightarrow> NodeId list" where
  "neigh_ids r = map (nd_id \<circ> snd) (used r)"

text \<open>The stations listed in the last beacons of the neighbors.\<close>

definition two_hop :: "(nat \<times> NodeDescr) list \<Rightarrow> NodeId multiset" where
  "two_hop xs = sum_list (map (\<lambda>e. listed_mset (the (nd_lastBeacon (snd e)))) xs)"

definition entry_ok :: "nat \<times> NodeDescr \<Rightarrow> bool" where
  "entry_ok e \<longleftrightarrow> (\<exists>b. nd_lastBeacon (snd e) = Some b \<and> getSrc b = nd_id (snd e))"

definition refs_ok :: "(nat \<times> NodeDescr) list \<Rightarrow> (nat \<Rightarrow> int) \<Rightarrow> bool" where
  "refs_ok xs refs \<longleftrightarrow> (\<forall>a. int (count (mset (map fst xs)) a) \<le> refs a)"

definition neigh_inv :: "AwdsRouting \<Rightarrow> bool" where
  "neigh_inv r \<longleftrightarrow> length (rt_neighbors r) = MaxNeighbors \<and> rt_numNeigh r \<le> MaxNeighbors \<and>
     sorted_wrt (<) (neigh_ids r) \<and> list_all entry_ok (used r) \<and> refs_ok (used r) (rt_refs r) \<and>
     h2_rep (rt_hop2list r) (two_hop (used r))"

lemma neigh_invD:
  assumes "neigh_inv r"
  shows "length (rt_neighbors r) = MaxNeighbors" "rt_numNeigh r \<le> MaxNeighbors" "length (used r) = rt_numNeigh r"
    "sorted_wrt (<) (map (nd_id \<circ> snd) (used r))" "list_all entry_ok (used r)" "refs_ok (used r) (rt_refs r)"
    "h2_rep (rt_hop2list r) (two_hop (used r))" "\<And>k. k < rt_numNeigh r \<Longrightarrow> rt_neighbors r ! k = used r ! k"
  using assms by (auto simp: neigh_inv_def neigh_ids_def used_def)

lemma findNeigh_finds:
  assumes "neigh_inv r"
  shows "\<exists>res. findNeigh i r = oreturn res \<and> found_at (rt_neighbors r) (rt_numNeigh r) i res"
proof -
  note inv = neigh_invD [OF assms]
  have "nd_id (snd (rt_neighbors r ! j)) < nd_id (snd (rt_neighbors r ! k))" if "k < rt_numNeigh r" "j < k" for j k
    using inv(4) that inv(3) inv(8) [of j] inv(8) [of k] by (auto simp: sorted_wrt_iff_nth_less)
  then show ?thesis
    using findNeigh_loop_finds [of 0 "rt_numNeigh r" "rt_numNeigh r" "rt_neighbors r" i] inv(1,2)
    by (auto simp: findNeigh_def oreturn_def)
qed

lemma two_hop_simps [simp]:
  "two_hop [] = {#}" "two_hop (e # xs) = listed_mset (the (nd_lastBeacon (snd e))) + two_hop xs"
  "two_hop (xs @ ys) = two_hop xs + two_hop ys"
  by (simp_all add: two_hop_def)

lemma size_two_hop: "size (two_hop xs) \<le> 254 * length xs"
proof (induction xs)
  case (Cons e xs)
  then show ?case using size_listed [of "the (nd_lastBeacon (snd e))"] by simp
qed simp

lemma two_hop_update:
  assumes "k < length xs"
  shows "two_hop (xs[k := e]) = listed_mset (the (nd_lastBeacon (snd e))) + (two_hop xs - listed_mset (the (nd_lastBeacon (snd (xs ! k)))))"
    "listed_mset (the (nd_lastBeacon (snd (xs ! k)))) \<subseteq># two_hop xs"
proof -
  have "two_hop (take k xs @ xs ! k # drop (Suc k) xs) = two_hop xs" using assms by (metis id_take_nth_drop)
  then have xs: "two_hop xs = listed_mset (the (nd_lastBeacon (snd (xs ! k)))) + (two_hop (take k xs) + two_hop (drop (Suc k) xs))"
    by (simp add: ac_simps)
  have u: "xs[k := e] = take k xs @ e # drop (Suc k) xs" using assms by (simp add: upd_conv_take_nth_drop)
  show "listed_mset (the (nd_lastBeacon (snd (xs ! k)))) \<subseteq># two_hop xs" by (simp add: xs)
  show "two_hop (xs[k := e]) = listed_mset (the (nd_lastBeacon (snd e))) + (two_hop xs - listed_mset (the (nd_lastBeacon (snd (xs ! k)))))"
    by (simp add: xs u ac_simps)
qed

section \<open>A beacon arrives\<close>

lemma shifted_neighbors:
  assumes "idx \<le> num" "num < length ns"
  shows "(shift_neighbors idx num ns)[idx := x] = take idx ns @ x # drop idx (take num ns) @ drop (num + 1) ns"
proof -
  have "take (idx + 1) ns = take idx ns @ [ns ! idx]" using assms by (simp add: take_Suc_conv_app_nth)
  then have "shift_neighbors idx num ns = take idx ns @ ns ! idx # take (num - idx) (drop idx ns) @ drop (num + 1) ns"
    by (simp add: shift_neighbors_def)
  moreover have "length (take idx ns) = idx" using assms by simp
  ultimately show ?thesis using assms by (simp add: list_update_append drop_take)
qed

lemma update_neigh_effect:
  assumes "rt_neighbors r ! k = (old, n)" "k < length (rt_neighbors r)" "nd_lastBeacon n = Some b" "rt_refs r old > 0"
    and "unat (ucast (getSeq p - getSeq b) :: byte) < 32"
  shows "\<exists>n' r'. update_neigh env pid p k r = oreturn r' \<and> nd_id n' = nd_id n \<and> nd_lastBeacon n' = Some p \<and>
    rt_neighbors r' = (rt_neighbors r)[k := (pid, n')] \<and> rt_numNeigh r' = rt_numNeigh r \<and> rt_hop2list r' = rt_hop2list r \<and>
    rt_refs r' = (let f = (rt_refs r)(old := rt_refs r old - 1) in f(pid := f pid + 1))"
proof -
  obtain h where h: "beacon_hist (getSeq p) (Beacon b) (nd_beaconHist n) = Some h"
    using assms(5) by (simp add: beacon_hist_def)
  let ?f = "(rt_refs r)(old := rt_refs r old - 1)"
  obtain r1 where r1: "rt_unref old r = oreturn r1" "rt_neighbors r1 = rt_neighbors r" "rt_numNeigh r1 = rt_numNeigh r"
    "rt_hop2list r1 = rt_hop2list r" "rt_refs r1 = ?f"
    using assms(4) by (simp add: rt_unref_def Let_def rt_emit_def)
  define n1 where "n1 = n\<lparr>nd_beaconHist := h, nd_lastBeacon := Some p, nd_lastBeaconTime := rt_time r1,
    nd_beaconInterval := getPeriod (te_duration (re_topo env)) p\<rparr>"
  obtain act n' where n': "updateActive n1 = (act, n')" by force
  then have "nd_id n' = nd_id n" "nd_lastBeacon n' = Some p"
    by (auto simp: updateActive_def n1_def Let_def split: if_splits)
  then show ?thesis
    using assms(1,3) h r1 n' [unfolded n1_def]
    by (intro exI [of _ n']) (simp add: update_neigh_def Let_def rt_ref_def rt_emit_def)
qed

lemma refs_ok_update:
  assumes "refs_ok xs f" "k < length xs" "fst (xs ! k) = old" "int (count (mset (map fst xs)) pid) < f pid"
    and "g = (let h = f(old := f old - 1) in h(pid := h pid + 1))"
  shows "refs_ok (xs[k := (pid, n)]) g" "int (count (mset (map fst (xs[k := (pid, n)]))) pid) < g pid" "f old > 0"
proof -
  have m: "mset (map fst (xs[k := (pid, n)])) = add_mset pid (mset (map fst xs) - {#old#})"
    using assms(2,3) by (simp add: map_update mset_update)
  have old: "0 < count (mset (map fst xs)) old" using assms(2,3) by (auto simp: count_greater_zero_iff)
  have f: "int (count (mset (map fst xs)) a) \<le> f a" for a using assms(1) by (simp add: refs_ok_def)
  show "f old > 0" using old f [of old] by linarith
  have "int (count (add_mset pid (mset (map fst xs) - {#old#})) a) \<le> g a" for a
    using f [of a] old assms(4) by (cases "a = pid"; cases "a = old"; cases "pid = old") (simp_all add: assms(5) Let_def of_nat_diff)
  then show "refs_ok (xs[k := (pid, n)]) g" unfolding refs_ok_def m by blast
  show "int (count (mset (map fst (xs[k := (pid, n)]))) pid) < g pid"
    using old assms(4) unfolding m by (cases "pid = old") (simp_all add: assms(5) Let_def of_nat_diff)
qed

lemma refs_ok_insert:
  assumes "refs_ok xs f" "int (count (mset (map fst xs)) pid) < f pid" "mset ys = add_mset (pid, n) (mset xs)"
  shows "refs_ok ys (f(pid := f pid + 1))" "int (count (mset (map fst ys)) pid) < (f(pid := f pid + 1)) pid"
proof -
  have m: "mset (map fst ys) = add_mset pid (mset (map fst xs))" using assms(3) by simp
  show "refs_ok ys (f(pid := f pid + 1))" "int (count (mset (map fst ys)) pid) < (f(pid := f pid + 1)) pid"
    using assms(1,2) unfolding refs_ok_def m by auto
qed

lemma add2Hop_rep: "h2_rep l M \<Longrightarrow> h2_rep (add2Hop p l) (listed_mset p + M)"
  unfolding add2Hop_def listed_mset_def by (rule add2Hop_fold_rep)

lemma remove2Hop_rep:
  assumes "h2_rep l M" "listed_mset b \<subseteq># M" "size M < 2 ^ 16"
  shows "\<exists>l'. remove2Hop (Beacon b) l = Some l' \<and> h2_rep l' (M - listed_mset b)"
  using remove2Hop_fold_rep [OF assms(1), of "map (listed b) [0..<num_listed b]"] assms(2,3)
  by (simp add: remove2Hop_def listed_mset_def)

definition refreshed :: "nat \<Rightarrow> BasePacket \<Rightarrow> AwdsRouting \<Rightarrow> AwdsRouting \<Rightarrow> bool" where
  "refreshed pid p r r' \<longleftrightarrow> neigh_inv r' \<and> int (count (mset (map fst (used r'))) pid) < rt_refs r' pid \<and>
     (\<exists>n \<in> set (rt_neigh r'). nd_id n = getSrc p \<and> nd_lastBeacon n = Some (Beacon p)) \<and>
     (\<forall>n. nd_id n \<noteq> getSrc p \<longrightarrow> (n \<in> set (rt_neigh r') \<longleftrightarrow> n \<in> set (rt_neigh r)))"

lemma rt_neigh_used: "rt_neigh r = map snd (used r)"
  by (simp add: rt_neigh_def used_def)

lemma refresh_known:
  assumes inv: "neigh_inv r" "int (count (mset (map fst (used r))) pid) < rt_refs r pid"
    and k: "k < rt_numNeigh r" "nd_id (snd (used r ! k)) = getSrc p"
    and seq: "\<forall>b. nd_lastBeacon (snd (used r ! k)) = Some b \<longrightarrow> unat (ucast (getSeq p - getSeq b) :: byte) < 32"
  shows "\<exists>r1 r'. enter_neigh pid (Beacon p) (int k) r = oreturn (k, r1) \<and> update_neigh env pid (Beacon p) k r1 = oreturn r' \<and>
    refreshed pid p r r'"
proof -
  note I = neigh_invD [OF inv(1)]
  obtain old n where e: "used r ! k = (old, n)" by force
  have ek: "rt_neighbors r ! k = (old, n)" "k < length (rt_neighbors r)" "k < length (used r)"
    using I(1,2,3,8) k(1) e by simp_all
  obtain b where b: "nd_lastBeacon n = Some b" using I(5) ek(3) e by (auto simp: list_all_length entry_ok_def)
  have "size (two_hop (used r)) < 2 ^ 16" using size_two_hop [of "used r"] I(2,3) by (simp add: MaxNeighbors_def)
  then obtain l where l: "remove2Hop (Beacon b) (rt_hop2list r) = Some l" "h2_rep l (two_hop (used r) - listed_mset b)"
    using remove2Hop_rep [OF I(7)] two_hop_update(2) [OF ek(3)] e b by auto
  define r1 where "r1 = r\<lparr>rt_hop2list := add2Hop (Beacon p) l\<rparr>"
  have enter: "enter_neigh pid (Beacon p) (int k) r = oreturn (k, r1)"
    using ek(1) b l(1) by (simp add: enter_neigh_def r1_def)
  have pos: "rt_refs r old > 0" using refs_ok_update(3) [OF I(6) ek(3) _ inv(2) refl, of old] e by simp
  have "unat (ucast (getSeq (Beacon p) - getSeq b) :: byte) < 32" using seq e b by simp
  from update_neigh_effect [of r1 k old n b "Beacon p" env pid] this ek b pos obtain n' r' where
    u: "update_neigh env pid (Beacon p) k r1 = oreturn r'" "nd_id n' = nd_id n" "nd_lastBeacon n' = Some (Beacon p)"
      "rt_neighbors r' = (rt_neighbors r)[k := (pid, n')]" "rt_numNeigh r' = rt_numNeigh r" "rt_hop2list r' = add2Hop (Beacon p) l"
      "rt_refs r' = (let f = (rt_refs r)(old := rt_refs r old - 1) in f(pid := f pid + 1))"
    by (auto simp: r1_def)
  have used': "used r' = (used r)[k := (pid, n')]" using u(4,5) by (simp add: used_def take_update_swap)
  have src: "nd_id n = getSrc p" using k(2) e by simp
  have "map (nd_id \<circ> snd) (used r') = map (nd_id \<circ> snd) (used r)"
    using used' ek(3) e u(2) by (simp add: map_update list_update_same_conv)
  moreover have "list_all entry_ok (used r')"
    using I(5) used' u(2,3) src by (auto simp: list_all_iff entry_ok_def dest!: set_update_subset_insert [THEN subsetD])
  moreover have "h2_rep (rt_hop2list r') (two_hop (used r'))"
    using add2Hop_rep [OF l(2), of "Beacon p"] two_hop_update(1) [OF ek(3), of "(pid, n')"] e b u(3,6) used' by simp
  moreover have "refs_ok (used r') (rt_refs r')" "int (count (mset (map fst (used r'))) pid) < rt_refs r' pid"
    using refs_ok_update(1,2) [OF I(6) ek(3) _ inv(2) u(7)] e used' by simp_all
  ultimately have "neigh_inv r'" "int (count (mset (map fst (used r'))) pid) < rt_refs r' pid"
    using I(1,2,4) u(4,5) by (simp_all add: neigh_inv_def neigh_ids_def)
  moreover have "(pid, n') \<in> set (used r')" using used' ek(3) by (simp add: set_update_memI)
  moreover have "m \<in> snd ` set (used r') \<longleftrightarrow> m \<in> snd ` set (used r)" if "nd_id m \<noteq> getSrc p" for m
  proof -
    have "used r = take k (used r) @ (old, n) # drop (Suc k) (used r)" using ek(3) e by (metis id_take_nth_drop)
    then have "set (used r) = insert (old, n) (set (take k (used r)) \<union> set (drop (Suc k) (used r)))"
      by (metis set_append list.set(2) Un_insert_right)
    moreover have "set (used r') = insert (pid, n') (set (take k (used r)) \<union> set (drop (Suc k) (used r)))"
      using used' ek(3) by (simp add: upd_conv_take_nth_drop)
    ultimately show ?thesis using that src u(2) by auto
  qed
  ultimately have "refreshed pid p r r'"
    using u(2,3) src by (auto simp: refreshed_def rt_neigh_used intro!: bexI [of _ "(pid, n')"])
  then show ?thesis using enter u(1) by blast
qed

lemma sorted_insert_middle:
  assumes "sorted_wrt (<) xs" "\<forall>y \<in> set (take k xs). y < x" "\<forall>y \<in> set (drop k xs). x < y"
  shows "sorted_wrt (<) (take k xs @ x # drop k xs)"
proof -
  have "sorted_wrt (<) (take k xs @ drop k xs)" using assms(1) by simp
  then show ?thesis using assms(2,3) by (auto simp: sorted_wrt_append simp del: append_take_drop_id)
qed

lemma refresh_new:
  assumes inv: "neigh_inv r" "int (count (mset (map fst (used r))) pid) < rt_refs r pid" and num: "rt_numNeigh r < MaxNeighbors"
    and k: "k \<le> rt_numNeigh r" "\<forall>j < k. nd_id (snd (used r ! j)) < getSrc p"
      "\<forall>j < rt_numNeigh r. k \<le> j \<longrightarrow> getSrc p < nd_id (snd (used r ! j))"
  shows "\<exists>r1 r'. enter_neigh pid (Beacon p) (- int k - 1) r = oreturn (k, r1) \<and> update_neigh env pid (Beacon p) k r1 = oreturn r' \<and>
    refreshed pid p r r'"
proof -
  note I = neigh_invD [OF inv(1)]
  define n0 where "n0 = NodeDescr_init (getSrc p) (Beacon p) (rt_time r) (snd (shift_neighbors k (rt_numNeigh r) (rt_neighbors r) ! k))"
  have n0: "nd_id n0 = getSrc p" "nd_lastBeacon n0 = Some (Beacon p)" by (simp_all add: n0_def NodeDescr_init_def)
  define ns where "ns = (shift_neighbors k (rt_numNeigh r) (rt_neighbors r))[k := (pid, n0)]"
  define r1 where "r1 = (rt_ref pid (r\<lparr>rt_neighbors := ns, rt_numNeigh := rt_numNeigh r + 1\<rparr>))\<lparr>rt_hop2list := add2Hop (Beacon p) (rt_hop2list r)\<rparr>"
  have enter: "enter_neigh pid (Beacon p) (- int k - 1) r = oreturn (k, r1)"
    using num by (simp add: enter_neigh_def r1_def ns_def n0_def Let_def)
  have ns: "ns = take k (used r) @ (pid, n0) # drop k (used r) @ drop (rt_numNeigh r + 1) (rt_neighbors r)"
    using shifted_neighbors [OF k(1), of "rt_neighbors r" "(pid, n0)"] num I(1) k(1) by (simp add: ns_def used_def)
  have lk: "length (take k (used r)) = k" "length ns = MaxNeighbors" using k(1) I(1,3) num by (simp_all add: ns)
  have nk: "ns ! k = (pid, n0)" using lk(1) by (simp add: ns nth_append)
  have pos: "rt_refs r1 pid > 0" using inv(2) by (simp add: r1_def rt_ref_def)
  have kl: "k < length (rt_neighbors r1)" using k(1) num lk(2) by (simp add: r1_def rt_ref_def)
  from update_neigh_effect [OF _ kl n0(2) pos, of "Beacon p" env pid] nk obtain n' r' where
    u: "update_neigh env pid (Beacon p) k r1 = oreturn r'" "nd_id n' = getSrc p" "nd_lastBeacon n' = Some (Beacon p)"
      "rt_neighbors r' = ns[k := (pid, n')]" "rt_numNeigh r' = rt_numNeigh r + 1" "rt_hop2list r' = add2Hop (Beacon p) (rt_hop2list r)"
      "rt_refs r' = (let f = (rt_refs r1)(pid := rt_refs r1 pid - 1) in f(pid := f pid + 1))"
    by (auto simp: r1_def rt_ref_def n0(1))
  have refs: "rt_refs r' = (rt_refs r)(pid := rt_refs r pid + 1)" by (simp add: u(7) r1_def rt_ref_def Let_def)
  define A where "A = take k (used r) @ (pid, n') # drop k (used r)"
  have "rt_neighbors r' = A @ drop (rt_numNeigh r + 1) (rt_neighbors r)"
    using lk(1) by (simp add: u(4) ns list_update_append A_def)
  moreover have "length A = rt_numNeigh r'" using k(1) I(3) by (simp add: A_def u(5))
  ultimately have used': "used r' = take k (used r) @ (pid, n') # drop k (used r)"
    unfolding A_def [symmetric] used_def [of r'] by (metis append_eq_conv_conj)
  have m: "mset (used r') = add_mset (pid, n') (mset (used r))"
    using mset_append [of "take k (used r)" "drop k (used r)"] by (simp add: used')
  have "\<forall>y \<in> set (take k (neigh_ids r)). y < getSrc p" "\<forall>y \<in> set (drop k (neigh_ids r)). getSrc p < y"
    using k I(3) by (auto simp: neigh_ids_def in_set_conv_nth)
  then have "sorted_wrt (<) (neigh_ids r')"
    using sorted_insert_middle [of "neigh_ids r" k "getSrc p"] I(4) u(2) by (simp add: neigh_ids_def used' take_map drop_map)
  moreover have "entry_ok (pid, n')" using u(2,3) by (simp add: entry_ok_def)
  then have "list_all entry_ok (used r')"
    using I(5) arg_cong [OF m, of set_mset] by (simp add: list_all_iff)
  moreover have "h2_rep (rt_hop2list r') (two_hop (used r'))"
    using add2Hop_rep [OF I(7), of "Beacon p"] u(3,6) two_hop_simps(3) [of "take k (used r)" "drop k (used r)"]
    by (simp add: used' ac_simps)
  moreover have "refs_ok (used r') (rt_refs r')" "int (count (mset (map fst (used r'))) pid) < rt_refs r' pid"
    unfolding refs using refs_ok_insert [OF I(6) inv(2) m] by blast+
  ultimately have "neigh_inv r'" "int (count (mset (map fst (used r'))) pid) < rt_refs r' pid"
    using u(4,5) lk(2) num by (simp_all add: neigh_inv_def)
  moreover have "set (used r') = insert (pid, n') (set (used r))" using arg_cong [OF m, of set_mset] by simp
  ultimately have "refreshed pid p r r'" using u(2,3) by (auto simp: refreshed_def rt_neigh_used)
  then show ?thesis using enter u(1) by blast
qed

lemma ids_used: "k < rt_numNeigh r \<Longrightarrow> neigh_inv r \<Longrightarrow> nd_id (snd (used r ! k)) \<in> set (neigh_ids r)"
  using neigh_invD(3) [of r] by (auto simp: neigh_ids_def)

lemma refreshNeigh_refreshes:
  assumes inv: "neigh_inv r" "int (count (mset (map fst (used r))) pid) < rt_refs r pid"
    and num: "rt_numNeigh r < MaxNeighbors" and type: "getType p = PacketTypeBeacon"
    and seq: "\<forall>n \<in> set (rt_neigh r). \<forall>b. nd_id n = getSrc p \<and> nd_lastBeacon n = Some b \<longrightarrow>
      unat (ucast (getSeq p - getSeq b) :: byte) < 32"
  shows "\<exists>r'. refreshNeigh env pid p r = oreturn (getSrc p \<notin> set (neigh_ids r), r') \<and> refreshed pid p r r'"
proof -
  note I = neigh_invD [OF inv(1)]
  obtain res where res: "findNeigh (getSrc p) r = oreturn res" "found_at (rt_neighbors r) (rt_numNeigh r) (getSrc p) res"
    using findNeigh_finds [OF inv(1)] by blast
  let ?k = "if res \<ge> 0 then nat res else nat (- res - 1)"
  have "\<exists>r1 r'. enter_neigh pid (Beacon p) res r = oreturn (?k, r1) \<and> update_neigh env pid (Beacon p) ?k r1 = oreturn r' \<and>
      refreshed pid p r r' \<and> (res < 0 \<longleftrightarrow> getSrc p \<notin> set (neigh_ids r))"
  proof (cases "res \<ge> 0")
    case True
    then have k: "?k < rt_numNeigh r" "nd_id (snd (used r ! ?k)) = getSrc p" "int ?k = res"
      using res(2) I(8) by (auto simp: found_at_def)
    have "snd (used r ! ?k) \<in> set (rt_neigh r)" using k(1) I(3) by (simp add: rt_neigh_used)
    then have "\<forall>b. nd_lastBeacon (snd (used r ! ?k)) = Some b \<longrightarrow> unat (ucast (getSeq p - getSeq b) :: byte) < 32"
      using seq k(2) by blast
    from refresh_known [OF inv k(1,2) this, of env] k(3) show ?thesis
      using True ids_used [OF k(1) inv(1)] k(2) by auto
  next
    case False
    then have k: "?k \<le> rt_numNeigh r" "\<forall>j < ?k. nd_id (snd (used r ! j)) < getSrc p"
      "\<forall>j < rt_numNeigh r. ?k \<le> j \<longrightarrow> getSrc p < nd_id (snd (used r ! j))" "- int ?k - 1 = res"
      using res(2) I(8) by (auto simp: found_at_def)
    have "nd_id (snd (used r ! j)) \<noteq> getSrc p" if "j < rt_numNeigh r" for j
      using k(2,3) that by (cases "j < ?k") force+
    then have "\<forall>j < length (neigh_ids r). neigh_ids r ! j \<noteq> getSrc p" using I(3) by (simp add: neigh_ids_def)
    then have "getSrc p \<notin> set (neigh_ids r)" by (metis in_set_conv_nth)
    then show ?thesis using refresh_new [OF inv num k(1-3), of env] k(4) False by auto
  qed
  then show ?thesis using res(1) type num by (auto simp: refreshNeigh_def Let_def)
qed

section \<open>Removal of expired neighbors\<close>

text \<open>The elements that have been written are the first \<open>newnum\<close>; those at \<open>i\<close> and above are untouched.\<close>

lemma compact_filter:
  assumes "i + k \<le> length ns" "newnum \<le> i" "compact k t i newnum ns = (ns', n')"
  shows "length ns' = length ns \<and> n' \<le> newnum + k \<and>
    take n' ns' = take newnum ns @ filter (\<lambda>e. \<not> isExpired t (snd e)) (take k (drop i ns))"
  using assms
proof (induction k arbitrary: i newnum ns)
  case (Suc k)
  let ?P = "\<lambda>e. \<not> isExpired t (snd e)"
  have d: "take (Suc k) (drop i ns) = ns ! i # take k (drop (Suc i) ns)"
    using Suc.prems(1) by (simp add: Cons_nth_drop_Suc [symmetric])
  show ?case
  proof (cases "?P (ns ! i)")
    case True
    let ?ns = "if newnum \<noteq> i then ns[newnum := ns ! i] else ns"
    have c: "compact k t (Suc i) (Suc newnum) ?ns = (ns', n')" using Suc.prems(3) True by simp
    have "take (Suc newnum) ?ns = take newnum ns @ [ns ! i]" "drop (Suc i) ?ns = drop (Suc i) ns"
      using Suc.prems(1,2) by (auto simp: take_Suc_conv_app_nth)
    then show ?thesis using Suc.IH [OF _ _ c] Suc.prems(1,2) True d by simp
  next
    case False
    then have c: "compact k t (Suc i) newnum ns = (ns', n')" using Suc.prems(3) by simp
    then show ?thesis using Suc.IH [OF _ _ c] Suc.prems(1,2) False d by simp
  qed
qed simp

lemma removeOldNeigh_filter:
  assumes "neigh_inv r"
  shows "\<exists>r'. removeOldNeigh r = oreturn r' \<and> used r' = filter (\<lambda>e. \<not> isExpired (rt_time r) (snd e)) (used r) \<and>
    length (rt_neighbors r') = MaxNeighbors \<and> rt_numNeigh r' \<le> rt_numNeigh r \<and>
    (\<exists>ns n. r' = r\<lparr>rt_neighbors := ns, rt_numNeigh := n\<rparr>)"
proof -
  obtain ns n where c: "compact (rt_numNeigh r) (rt_time r) 0 0 (rt_neighbors r) = (ns, n)" by force
  from compact_filter [OF _ _ this] neigh_invD(1,2) [OF assms] show ?thesis
    using c by (auto simp: removeOldNeigh_def used_def)
qed

section \<open>The schedule of beacons\<close>

lemma next_beacon_returns:
  assumes "0 < period"
  shows "\<exists>nb k. next_beacon now period nb0 = Some nb \<and> nb = nb0 + int k * period \<and> now < nb \<and> (0 < k \<longrightarrow> nb \<le> now + period)"
proof (induction "nat (now - nb0 + 1)" arbitrary: nb0 rule: less_induct)
  case less
  show ?case
  proof (cases "nb0 \<le> now")
    case False
    then show ?thesis by (intro exI [of _ nb0] exI [of _ 0]) (simp add: next_beacon.simps)
  next
    case True
    then have "nat (now - (nb0 + period) + 1) < nat (now - nb0 + 1)" using assms by simp
    from less [OF this] obtain nb k where
      nb: "next_beacon now period (nb0 + period) = Some nb" "nb = nb0 + period + int k * period" "now < nb"
        "0 < k \<longrightarrow> nb \<le> now + period" by blast
    have "nb \<le> now + period" using nb(2,4) True by (cases "k = 0") auto
    moreover have "next_beacon now period nb0 = Some nb" using True nb(1) by (subst next_beacon.simps) simp
    moreover have "nb = nb0 + int (Suc k) * period" using nb(2) by (simp add: algebra_simps)
    ultimately show ?thesis using nb(3) by blast
  qed
qed

section \<open>Sending beacons\<close>

definition with_mpr :: "nat \<times> NodeDescr \<Rightarrow> nat \<times> NodeDescr" where
  "with_mpr e = (fst e, snd e\<lparr>nd_mpr := True\<rparr>)"

lemma with_mpr_simps [simp]:
  "fst (with_mpr e) = fst e" "nd_id (snd (with_mpr e)) = nd_id (snd e)" "nd_lastBeacon (snd (with_mpr e)) = nd_lastBeacon (snd e)"
  "nd_active (snd (with_mpr e)) = nd_active (snd e)" "entry_ok (with_mpr e) = entry_ok e"
  by (simp_all add: with_mpr_def entry_ok_def)

lemma mpr_loop_all: "list_all entry_ok xs \<Longrightarrow> mpr_loop l xs = oreturn (map with_mpr xs)"
  by (induction l xs rule: mpr_loop.induct) (auto simp: entry_ok_def with_mpr_def tryRemoveFromMpr_def)

lemma h2_rep_stat2dyn: "h2_rep l M \<Longrightarrow> h2_rep (map (\<lambda>(i, c). (i, c\<lparr>h2_dyn := h2_stat c\<rparr>)) l) M"
proof -
  have "om_find i (map (\<lambda>(i, c). (i, c\<lparr>h2_dyn := h2_stat c\<rparr>)) l) = map_option (\<lambda>c. c\<lparr>h2_dyn := h2_stat c\<rparr>) (om_find i l)" for i
    by (induction l) (auto simp: om_find_def)
  moreover have "map fst (map (\<lambda>(i, c). (i, c\<lparr>h2_dyn := h2_stat c\<rparr>)) l) = map fst l" by (simp add: case_prod_beta)
  moreover have "map_option h2_stat (map_option (\<lambda>c. c\<lparr>h2_dyn := h2_stat c\<rparr>) x) = map_option h2_stat x" for x :: "Hop2RefCount option"
    by (simp add: option.map_comp comp_def)
  ultimately show "h2_rep l M \<Longrightarrow> h2_rep (map (\<lambda>(i, c). (i, c\<lparr>h2_dyn := h2_stat c\<rparr>)) l) M"
    by (simp only: h2_rep_def om_ok_def) simp
qed

lemma neigh_inv_map:
  assumes "neigh_inv r" "used r' = map with_mpr (used r)" "length (rt_neighbors r') = MaxNeighbors" "rt_numNeigh r' = rt_numNeigh r"
    and "rt_refs r' = rt_refs r" "h2_rep (rt_hop2list r') (two_hop (used r))"
  shows "neigh_inv r'"
proof -
  have "map (nd_id \<circ> snd) (used r') = map (nd_id \<circ> snd) (used r)" "two_hop (used r') = two_hop (used r)"
    "map fst (used r') = map fst (used r)" "list_all entry_ok (used r') = list_all entry_ok (used r)"
    using assms(2) by (simp_all add: two_hop_def comp_def list_all_iff)
  then show ?thesis
    using neigh_invD(1,2,4-7) [OF assms(1)] assms(3-6) by (simp only: neigh_inv_def neigh_ids_def refs_ok_def) simp
qed

lemma calcMpr_sets:
  assumes "neigh_inv r"
  shows "\<exists>ns l. calcMpr r = oreturn (r\<lparr>rt_hop2list := l, rt_neighbors := ns\<rparr>) \<and> neigh_inv (r\<lparr>rt_hop2list := l, rt_neighbors := ns\<rparr>) \<and>
    take (rt_numNeigh r) ns = map with_mpr (used r)"
proof -
  note I = neigh_invD [OF assms]
  let ?ns = "map with_mpr (used r) @ drop (rt_numNeigh r) (rt_neighbors r)"
    and ?l = "map (\<lambda>(i, c). (i, c\<lparr>h2_dyn := h2_stat c\<rparr>)) (rt_hop2list r)"
  have "calcMpr r = oreturn (r\<lparr>rt_hop2list := ?l, rt_neighbors := ?ns\<rparr>)"
    using mpr_loop_all [OF I(5)] by (simp add: calcMpr_def stat2dyn_def used_def Let_def)
  moreover have t: "take (rt_numNeigh r) ?ns = map with_mpr (used r)" using I(3) by simp
  moreover have "neigh_inv (r\<lparr>rt_hop2list := ?l, rt_neighbors := ?ns\<rparr>)"
  proof (rule neigh_inv_map [OF assms])
    show "used (r\<lparr>rt_hop2list := ?l, rt_neighbors := ?ns\<rparr>) = map with_mpr (used r)"
      using t unfolding used_def by simp
  qed (use I(1-3) h2_rep_stat2dyn [OF I(7)] in simp_all)
  ultimately show ?thesis by blast
qed

text \<open>The fields in front of the list do not change what is listed.\<close>

lemma beacon_header_keeps:
  assumes "pkt_ok p" "off + length bs \<le> OffsetNumNoMpr" "q = p\<lparr>buffer := mem_write (buffer p) off bs\<rparr>"
  shows "listed q = listed p" "getNumMpr q = getNumMpr p" "getNumNoMpr q = getNumNoMpr p"
  using assms
  by (auto simp: fun_eq_iff listed_def getNumMpr_def getNumNoMpr_def pkt_ok_def MaxSize_def beacon_offsets
      mem_read_write_after nth_mem_write_out)

lemma setNeigh_before:
  assumes "pkt_ok p" "length ns \<le> 40" "j < OffsetNumNoMpr"
  shows "buffer (Beacon_setNeigh ns p) ! j = buffer p ! j"
proof -
  have "length (mpr_ids ns) \<le> 40" "length (nompr_ids ns) \<le> 40" using assms(2) length_ids [of ns] by simp_all
  then show ?thesis
    using assms(1,3) unfolding setNeigh_eq [OF assms(1,2)]
    by (simp add: setNumNoMpr_def setNumMpr_def beacon_offsets pkt_ok_def MaxSize_def nth_mem_write_out)
qed

lemma send_beacon_packet:
  assumes "NodeId_ok i" "length ns \<le> 40" "sorted_wrt (<) (map nd_id ns)" "\<forall>n \<in> set ns. NodeId_ok (nd_id n)"
    and "q = setDest d (setPeriod nano per (setSeq s (Beacon_setNeigh ns (setSrc i (Beacon new_BasePacket)))))"
  shows "getType q = PacketTypeBeacon" "getSrc q = i" "getSeq q = s"
    "Beacon_hasNeigh q j = Some (Some (\<exists>n \<in> set ns. nd_id n = j \<and> isGood n))"
proof -
  let ?p0 = "setSrc i (Beacon new_BasePacket)"
  let ?p1 = "Beacon_setNeigh ns ?p0"
  have ok0: "pkt_ok (Beacon new_BasePacket)" by (simp add: pkt_ok_def Beacon_def setType_def new_BasePacket_def)
  have ok: "pkt_ok ?p0" by (rule src.set_ok [OF ok0])
  have ok1: "pkt_ok ?p1" by (rule setNeigh_fields(3) [OF ok assms(2)])
  have ok2: "pkt_ok (setSeq s ?p1)" by (rule seq.set_ok [OF ok1])
  have k1: "listed (setSeq s ?p1) = listed ?p1" "getNumMpr (setSeq s ?p1) = getNumMpr ?p1" "getNumNoMpr (setSeq s ?p1) = getNumNoMpr ?p1"
    by (rule beacon_header_keeps [OF ok1 _ setSeq_def], simp add: beacon_offsets)+
  let ?p3 = "setPeriod nano per (setSeq s ?p1)"
  have k2: "listed ?p3 = listed ?p1" "getNumMpr ?p3 = getNumMpr ?p1" "getNumNoMpr ?p3 = getNumNoMpr ?p1"
    using beacon_header_keeps [OF ok2 _ setPeriod_def] k1 by (simp_all add: beacon_offsets)
  have q: "q = ?p3\<lparr>pkt_dest := d\<rparr>" using assms(5) by (simp add: setDest_def)
  then have "listed q = listed ?p1" "getNumMpr q = getNumMpr ?p1" "getNumNoMpr q = getNumNoMpr ?p1"
    using k2 by (simp_all add: listed_def [abs_def] getNumMpr_def getNumNoMpr_def)
  from hasNeigh_ids [OF setNeigh_search_in [OF ok assms(2,3,4) this]]
  show "Beacon_hasNeigh q j = Some (Some (\<exists>n \<in> set ns. nd_id n = j \<and> isGood n))" .
  have ok3: "pkt_ok ?p3" using ok2 by (simp add: setPeriod_def pkt_ok_def MaxSize_def beacon_offsets)
  have b3: "buffer ?p3 ! j = buffer (setSeq s ?p1) ! j" if "j < OffsetPeriod" for j
    using ok2 that by (simp add: setPeriod_def pkt_ok_def MaxSize_def beacon_offsets nth_mem_write_out)
  have b1: "buffer ?p3 ! j = buffer ?p0 ! j" if "j < OffsetSeq" for j
    using b3 [of j] seq.frame [OF ok1, of j s] setNeigh_before [OF ok assms(2), of j] that
    by (simp add: beacon_offsets MaxSize_def)
  have get: "getType q = getType ?p3" "getSrc q = getSrc ?p3" "getSeq q = getSeq ?p3"
    by (simp_all add: q getType_def getSrc_def getSeq_def)
  have "getType ?p3 = getType ?p0" by (rule pk_type.get_local [OF ok3 ok]) (use b1 in \<open>simp add: offset_defs\<close>)
  also have "\<dots> = getType (Beacon new_BasePacket)"
    by (rule pk_type.get_local [OF ok ok0]) (use src.frame [OF ok0] in \<open>simp add: offset_defs MaxSize_def\<close>)
  also have "\<dots> = PacketTypeBeacon"
    unfolding Beacon_def by (rule pk_type.get_set) (simp_all add: pkt_ok_def new_BasePacket_def)
  finally show "getType q = PacketTypeBeacon" using get by simp
  have "getSrc ?p3 = getSrc ?p0" by (rule src.get_local [OF ok3 ok]) (use b1 in \<open>simp add: offset_defs\<close>)
  then show "getSrc q = i" using get src.get_set [OF ok0 assms(1)] by simp
  have "getSeq ?p3 = getSeq (setSeq s ?p1)" by (rule seq.get_local [OF ok3 ok2]) (use b3 in \<open>simp add: beacon_offsets\<close>)
  then show "getSeq q = s" using get seq.get_set [OF ok1] by simp
qed

lemma entry_ok_id: "entry_ok e \<Longrightarrow> NodeId_ok (nd_id (snd e))"
  unfolding entry_ok_def getSrc_def by (metis NodeId_fromArray_ok)

lemma send_beacon_effect:
  assumes inv: "neigh_inv r" and "re_crypto env = None" "0 < rt_beaconPeriod r" "NodeId_ok (rt_myNodeId r)"
  shows "\<exists>p nb r'. send_beacon env r = oreturn r' \<and>
    rt_log r' = rt_log r @ [SendPacket p True, PacketReleased (rt_next_packet r), WaitFor BeaconTimer nb] \<and>
    rt_time r < nb \<and> (rt_nextBeacon r \<le> rt_time r \<longrightarrow> nb \<le> rt_time r + rt_beaconPeriod r) \<and>
    getType p = PacketTypeBeacon \<and> getSrc p = rt_myNodeId r \<and> getSeq p = rt_beaconSeq r \<and>
    (\<forall>i. Beacon_hasNeigh p i = Some (Some (\<exists>n \<in> set (rt_neigh r). nd_id n = i \<and> isGood n)))"
proof -
  obtain ns l where c: "calcMpr r = oreturn (r\<lparr>rt_hop2list := l, rt_neighbors := ns\<rparr>)"
    "neigh_inv (r\<lparr>rt_hop2list := l, rt_neighbors := ns\<rparr>)" "take (rt_numNeigh r) ns = map with_mpr (used r)"
    using calcMpr_sets [OF inv] by blast
  let ?ns = "map snd (map with_mpr (used r))"
  note I = neigh_invD [OF inv]
  have len: "length ?ns \<le> 40" using I(2,3) by (simp add: MaxNeighbors_def)
  have "map nd_id ?ns = map (nd_id \<circ> snd) (used r)" by simp
  then have sorted: "sorted_wrt (<) (map nd_id ?ns)" using I(4) by metis
  have ids: "\<forall>n \<in> set ?ns. NodeId_ok (nd_id n)"
    using I(5) entry_ok_id by (simp add: list_all_iff)
  define p where "p = setDest (rt_BroadcastId r) (setPeriod (re_nanosecs env) (rt_beaconPeriod r)
    (setSeq (rt_beaconSeq r) (Beacon_setNeigh ?ns (setSrc (rt_myNodeId r) (Beacon new_BasePacket)))))"
  note P = send_beacon_packet [OF assms(4) len sorted ids p_def]
  have good: "(\<exists>n \<in> set ?ns. nd_id n = i \<and> isGood n) \<longleftrightarrow> (\<exists>n \<in> set (rt_neigh r). nd_id n = i \<and> isGood n)" for i
    by (simp add: rt_neigh_used isGood_def)
  obtain nb k where nb: "next_beacon (rt_time r) (rt_beaconPeriod r) (rt_nextBeacon r) = Some nb"
    "nb = rt_nextBeacon r + int k * rt_beaconPeriod r" "rt_time r < nb" "0 < k \<longrightarrow> nb \<le> rt_time r + rt_beaconPeriod r"
    using next_beacon_returns [OF assms(3)] by blast
  have nb_le: "rt_nextBeacon r \<le> rt_time r \<longrightarrow> nb \<le> rt_time r + rt_beaconPeriod r" using nb(2-4) by (cases "k = 0") auto
  have "\<exists>r'. send_beacon env r = oreturn r' \<and>
      rt_log r' = rt_log r @ [SendPacket p True, PacketReleased (rt_next_packet r), WaitFor BeaconTimer nb]"
    using c(1,3) nb(1) assms(2)
    by (simp add: send_beacon_def rt_new_packet_def rt_neigh_def Let_def rt_unref_def rt_emit_def rt_time_def sign_packet_def
        p_def [simplified])
  moreover have "\<forall>i. Beacon_hasNeigh p i = Some (Some (\<exists>n \<in> set (rt_neigh r). nd_id n = i \<and> isGood n))"
    by (simp only: P(4) good simp_thms)
  ultimately show ?thesis using nb(3) nb_le P(1-3) by blast
qed

section \<open>The adaptive period\<close>

lemma sint_of_nat_u64: "m < 2 ^ 63 \<Longrightarrow> sint (of_nat m :: u64) = int m"
  by (simp add: sint_eq_unat unsigned_of_nat take_bit_nat_eq_self)

lemma sdiv_nat: "int a sdiv int b = int (a div b)"
  by (cases "a = 0"; cases "b = 0") (auto simp: signed_divide_int_def zdiv_int sgn_if)

lemma isqrt_nat:
  assumes "m < 2 ^ 63"
  shows "\<exists>y. isqrt (of_nat m) = of_nat y \<and> y * y \<le> m \<and> m < (y + 1) * (y + 1)"
proof -
  let ?y = "unat (isqrt (of_nat m))"
  have "int ?y * int ?y \<le> int m \<and> int m < (int ?y + 1) * (int ?y + 1)"
    using isqrt_root [of "of_nat m"] sint_of_nat_u64 [OF assms] by (simp add: Let_def)
  then have "int (?y * ?y) \<le> int m \<and> int m < int ((?y + 1) * (?y + 1))" by (simp add: algebra_simps)
  then have "?y * ?y \<le> m \<and> m < (?y + 1) * (?y + 1)" by (simp only: of_nat_le_iff of_nat_less_iff)
  then show ?thesis by (intro exI [of _ ?y]) simp
qed

lemma adaptive_period_value:
  assumes "0 < n" "n \<le> 1024"
  shows "\<exists>y. y * y \<le> 16 * n \<and> 16 * n < (y + 1) * (y + 1) \<and> adaptive_period n = oreturn (int (800 * n * n div y)) \<and>
    200 * n \<le> 800 * n * n div y \<and> 800 * n * n div y \<le> 200 * n * n"
proof -
  obtain y where y: "isqrt (of_nat (16 * n)) = of_nat y" "y * y \<le> 16 * n" "16 * n < (y + 1) * (y + 1)"
    using isqrt_nat [of "16 * n"] assms(2) by auto
  have y4: "4 \<le> y"
  proof (rule ccontr)
    assume "\<not> 4 \<le> y"
    then have "(y + 1) * (y + 1) \<le> 4 * 4" by (intro mult_le_mono) auto
    then show False using y(3) assms(1) by simp
  qed
  have yn: "y \<le> 4 * n"
  proof (rule ccontr)
    assume "\<not> y \<le> 4 * n"
    then have "(4 * n + 1) * (4 * n + 1) \<le> y * y" by (intro mult_le_mono) auto
    moreover have "16 * n \<le> 16 * (n * n)" using assms(1) by simp
    moreover have "(4 * n + 1) * (4 * n + 1) = 16 * (n * n) + 8 * n + 1" by (simp add: algebra_simps)
    ultimately show False using y(2) by linarith
  qed
  have nn: "n * n \<le> 1024 * 1024" using assms(2) by (intro mult_le_mono)
  let ?v = "800 * n * n div y"
  have lower: "200 * n \<le> ?v"
  proof -
    have "200 * n * y \<le> 800 * n * n" using mult_le_mono2 [OF yn, of "200 * n"] by (simp add: algebra_simps)
    then show ?thesis using y4 by (simp add: less_eq_div_iff_mult_less_eq)
  qed
  have upper: "?v \<le> 200 * n * n" using div_le_mono2 [of 4 y "800 * n * n"] y4 by simp
  have words: "200 * (of_nat n :: u64) * of_nat n * 4 = of_nat (800 * n * n)" "(of_nat n :: u64) * 16 = of_nat (16 * n)"
    by (simp_all add: algebra_simps)
  have "y \<le> 4096" using yn assms(2) by simp
  then have "sint (of_nat y :: u64) = int y" "(of_nat y :: u64) \<noteq> 0" "sint (of_nat (800 * n * n) :: u64) = int (800 * n * n)"
    using sint_of_nat_u64 [of y] sint_of_nat_u64 [of "800 * n * n"] nn y4 by auto
  moreover have "?v < 2 ^ 31"
  proof -
    have "200 * n * n \<le> 200 * (1024 * 1024)" using nn by (simp add: mult.assoc)
    with upper show ?thesis by simp
  qed
  then have "sint (word_of_int (int ?v) :: u32) = int ?v"
    by (simp add: sint_eq_unat unsigned_of_nat take_bit_nat_eq_self)
  moreover have "min (int ?v) (int ?v + int ?v sdiv 5) = int ?v" using sdiv_nat [of ?v 5] by simp
  moreover have "sint (of_nat (800 * n * n) :: u64) sdiv sint (of_nat y :: u64) = int ?v"
    by (simp only: calculation(1,3) sdiv_nat)
  ultimately have "adaptive_period n = oreturn (int ?v)"
    unfolding adaptive_period_def Let_def words y(1) by (simp only: if_False)
  then show ?thesis using y(2,3) lower upper by blast
qed

end
