(* ===== verification/Topo_Links.thy ===== *)
theory Topo_Links
  imports Topo_Feed
begin

text \<open>
  The consistency of the counterpart pointers.  A link from \<open>u\<close> to \<open>v\<close> points to the link from
  \<open>v\<close> to \<open>u\<close> if there is one and is null otherwise.  This is what the disabled function
  \<open>check_topology\<close> of \<open>src/src/Topology.cc\<close> would assert; from it follows that no pointer
  dangles.  Links are named by their two ends here, and the operations on pointers are shown to
  act on the links so named.
\<close>

section \<open>Binary search in the links of a node\<close>

lemma lower_bound_sorted:
  assumes "\<forall>i j. i \<le> j \<longrightarrow> j < first + len \<longrightarrow> below (xs ! j) \<longrightarrow> below (xs ! i)"
  shows "first \<le> lower_bound below xs first len \<and> lower_bound below xs first len \<le> first + len \<and>
    (\<forall>i. first \<le> i \<longrightarrow> i < lower_bound below xs first len \<longrightarrow> below (xs ! i)) \<and>
    (lower_bound below xs first len < first + len \<longrightarrow> \<not> below (xs ! lower_bound below xs first len))"
  using assms
proof (induction below xs first len rule: lower_bound.induct)
  case (1 below xs first len)
  show ?case
  proof (cases "len = 0")
    case True
    then show ?thesis by (simp add: lower_bound.simps)
  next
    case False
    let ?mid = "first + len div 2"
    show ?thesis
    proof (cases "below (xs ! ?mid)")
      case True
      have "Suc ?mid + (len - len div 2 - 1) = first + len" using False by simp
      then have IH: "Suc ?mid \<le> lower_bound below xs (Suc ?mid) (len - len div 2 - 1) \<and>
        lower_bound below xs (Suc ?mid) (len - len div 2 - 1) \<le> first + len \<and>
        (\<forall>i. Suc ?mid \<le> i \<longrightarrow> i < lower_bound below xs (Suc ?mid) (len - len div 2 - 1) \<longrightarrow> below (xs ! i)) \<and>
        (lower_bound below xs (Suc ?mid) (len - len div 2 - 1) < first + len \<longrightarrow>
          \<not> below (xs ! lower_bound below xs (Suc ?mid) (len - len div 2 - 1)))"
        using "1.IH"(1) [OF False refl refl] True "1.prems" by simp
      have "below (xs ! i)" if "i \<le> ?mid" for i using "1.prems" that True False by auto
      then have "below (xs ! i)" if "first \<le> i" "i < lower_bound below xs (Suc ?mid) (len - len div 2 - 1)" for i
        using IH that by (cases "i \<le> ?mid") auto
      then show ?thesis using IH True False by (subst (1 2 3 4 5) lower_bound.simps) (simp add: Let_def)
    next
      case below: False
      have "first \<le> lower_bound below xs first (len div 2) \<and> lower_bound below xs first (len div 2) \<le> ?mid \<and>
        (\<forall>i. first \<le> i \<longrightarrow> i < lower_bound below xs first (len div 2) \<longrightarrow> below (xs ! i)) \<and>
        (lower_bound below xs first (len div 2) < ?mid \<longrightarrow> \<not> below (xs ! lower_bound below xs first (len div 2)))"
        using "1.IH"(2) [OF False refl refl below] "1.prems" by simp
      then show ?thesis using below False
        by (subst (1 2 3 4 5) lower_bound.simps) (auto simp: Let_def le_less)
    qed
  qed
qed

lemma lower_bound_le: "lower_bound below xs first len \<le> first + len"
proof (induction below xs first len rule: lower_bound.induct)
  case (1 below xs first len)
  show ?case
  proof (cases "len = 0")
    case False
    then show ?thesis
      using "1.IH"(1) [OF False refl refl] "1.IH"(2) [OF False refl refl]
      by (subst lower_bound.simps) (auto simp: Let_def)
  qed (simp add: lower_bound.simps)
qed

lemma findLinkQuality_sorted:
  assumes "sorted_wrt (<) (map neighbor (linklist d))"
  shows "findLinkQuality v d = Some (b, k) \<longleftrightarrow>
    b = ll_buffer d \<and> k < length (linklist d) \<and> neighbor (linklist d ! k) = v"
proof -
  let ?ls = "linklist d"
  have less: "neighbor (?ls ! i) < neighbor (?ls ! j)" if "i < j" "j < length ?ls" for i j
    using assms that by (auto simp: sorted_wrt_iff_nth_less)
  define m where "m = lower_bound (\<lambda>q. cmp_nodeid_quality q v) ?ls 0 (length ?ls)"
  have "\<forall>i j. i \<le> j \<longrightarrow> j < 0 + length ?ls \<longrightarrow> cmp_nodeid_quality (?ls ! j) v \<longrightarrow> cmp_nodeid_quality (?ls ! i) v"
    using less by (auto simp: cmp_nodeid_quality_def le_less dest: less_trans)
  from lower_bound_sorted [OF this] have m: "m \<le> length ?ls" "\<forall>i < m. neighbor (?ls ! i) < v"
    "m < length ?ls \<Longrightarrow> v \<le> neighbor (?ls ! m)" by (auto simp: m_def cmp_nodeid_quality_def not_less)
  have "k = m" if "k < length ?ls" "neighbor (?ls ! k) = v"
  proof (rule ccontr)
    assume "k \<noteq> m"
    then consider "k < m" | "m < k" by linarith
    then show False using m that less [of m k] by cases auto
  qed
  then show ?thesis
    using m(1) by (auto simp: findLinkQuality_def Let_def m_def [symmetric])
qed

lemma findLinkQuality_None:
  assumes "sorted_wrt (<) (map neighbor (linklist d))"
  shows "findLinkQuality v d = None \<longleftrightarrow> v \<notin> neighbor ` set (linklist d)"
proof -
  have "(\<exists>p. findLinkQuality v d = Some p) \<longleftrightarrow> v \<in> neighbor ` set (linklist d)"
    using findLinkQuality_sorted [OF assms, of v] nth_mem [of _ "linklist d"]
    by (auto simp: image_iff) (metis in_set_conv_nth)
  then show ?thesis by (metis not_None_eq)
qed

section \<open>Well-formed lists\<close>

definition adj_wf :: "AdjList \<Rightarrow> bool" where
  "adj_wf a \<longleftrightarrow> om_ok a \<and> distinct (map (ll_buffer \<circ> snd) a) \<and>
     (\<forall>(i, d) \<in> set a. sorted_wrt (<) (map neighbor (linklist d)))"

lemma adj_wfD:
  assumes "adj_wf a" "om_find i a = Some d"
  shows "om_ok a" "sorted_wrt (<) (map neighbor (linklist d))"
  using assms om_find_Some_mem [OF assms(2)] by (auto simp: adj_wf_def)

lemma buffer_owner:
  assumes "adj_wf a" "om_find i a = Some d" "(i', d') \<in> set a" "ll_buffer d' = ll_buffer d"
  shows "i' = i \<and> d' = d"
proof -
  have "distinct (map (ll_buffer \<circ> snd) a)" using assms(1) by (simp add: adj_wf_def)
  then have "inj_on (ll_buffer \<circ> snd) (set a)" by (simp add: distinct_map)
  from inj_onD [OF this, of "(i', d')" "(i, d)"] om_find_Some_mem [OF assms(2)] assms(3,4)
  show ?thesis by simp
qed

lemma lq_get_owner:
  assumes "adj_wf a" "om_find i a = Some d"
  shows "lq_get a (ll_buffer d, k) = (if k < length (linklist d) then Some (linklist d ! k) else None)"
proof -
  have "find (\<lambda>(_, d'). ll_buffer d' = ll_buffer d) a = Some (i, d)"
    using buffer_owner [OF assms] om_find_Some_mem [OF assms(2)]
    by (induction a) (fastforce split: if_splits)+
  then show ?thesis by (simp add: lq_get_def)
qed

lemma lq_update_owner:
  assumes "adj_wf a" "om_find i a = Some d"
  shows "lq_update (ll_buffer d, k) f a =
    om_adjust i (\<lambda>d. d\<lparr>linklist := (linklist d)[k := f (linklist d ! k)]\<rparr>) a"
proof -
  have "ll_buffer d' = ll_buffer d \<longleftrightarrow> i' = i" if "(i', d') \<in> set a" for i' d'
  proof -
    have "om_find i' a = Some d'" using that om_find_mem [OF adj_wfD(1) [OF assms]] by simp
    then have "i' = i \<Longrightarrow> d' = d" using assms(2) by simp
    then show ?thesis using buffer_owner [OF assms that] by auto
  qed
  then show ?thesis unfolding lq_update_def om_adjust_def fst_conv snd_conv
    by (intro map_cong refl) (auto split: prod.splits)
qed

section \<open>Links by their ends\<close>

text \<open>The pointer to the link from \<open>u\<close> to \<open>v\<close>.\<close>

definition ptr_to :: "AdjList \<Rightarrow> NodeId \<Rightarrow> NodeId \<Rightarrow> lq_ptr option" where
  "ptr_to a u v = (case om_find u a of None \<Rightarrow> None | Some d \<Rightarrow> findLinkQuality v d)"

text \<open>
  What a write to a counterpart or a weight keeps: nodes, buffers, the ends of the links and their
  qualities, and everything else of the nodes.
\<close>

definition link_shape :: "LinkQuality \<Rightarrow> LinkQuality" where
  "link_shape l = l\<lparr>counterpart := None, metric_weight := 0\<rparr>"

definition shape :: "AdjList \<Rightarrow> AdjList" where
  "shape a = map (\<lambda>(i, d). (i, d\<lparr>linklist := map link_shape (linklist d)\<rparr>)) a"

lemma neighbor_shape: "map neighbor (map link_shape ls) = map neighbor ls"
  by (simp add: link_shape_def)

lemma om_find_shape: "om_find i (shape a) = map_option (\<lambda>d. d\<lparr>linklist := map link_shape (linklist d)\<rparr>) (om_find i a)"
  by (induction a) (auto simp: om_find_def shape_def)

lemma lower_bound_cong:
  "(\<And>i. i < first + len \<Longrightarrow> below (xs ! i) = below' (ys ! i)) \<Longrightarrow>
    lower_bound below xs first len = lower_bound below' ys first len"
proof (induction below xs first len rule: lower_bound.induct)
  case (1 below xs first len)
  show ?case
  proof (cases "len = 0")
    case False
    have mid: "below (xs ! (first + len div 2)) = below' (ys ! (first + len div 2))"
      using "1.prems" False by simp
    show ?thesis
    proof (cases "below (xs ! (first + len div 2))")
      case True
      then show ?thesis using "1.IH"(1) [OF False refl refl True] "1.prems" False mid
        by (subst (1 2) lower_bound.simps) (simp add: Let_def)
    next
      case below: False
      then show ?thesis using "1.IH"(2) [OF False refl refl below] "1.prems" False mid
        by (subst (1 2) lower_bound.simps) (simp add: Let_def)
    qed
  qed (simp add: lower_bound.simps)
qed

lemma findLinkQuality_shape [simp]:
  "findLinkQuality v (d\<lparr>linklist := map link_shape (linklist d)\<rparr>) = findLinkQuality v d"
proof -
  have "lower_bound (\<lambda>q. cmp_nodeid_quality q v) (map link_shape (linklist d)) 0 (length (linklist d)) =
      lower_bound (\<lambda>q. cmp_nodeid_quality q v) (linklist d) 0 (length (linklist d))" (is "?l = ?r")
    by (rule lower_bound_cong) (simp add: cmp_nodeid_quality_def link_shape_def)
  moreover have "?r \<noteq> length (linklist d) \<Longrightarrow> ?r < length (linklist d)"
    using lower_bound_le [of "\<lambda>q. cmp_nodeid_quality q v" "linklist d" 0 "length (linklist d)"] by simp
  ultimately show ?thesis
    by (simp add: findLinkQuality_def Let_def) (auto simp: link_shape_def)
qed

lemma ptr_to_shape: "shape b = shape a \<Longrightarrow> ptr_to b u v = ptr_to a u v"
proof -
  have "ptr_to (shape c) u v = ptr_to c u v" for c
    by (simp add: ptr_to_def om_find_shape split: option.split)
  then show "shape b = shape a \<Longrightarrow> ptr_to b u v = ptr_to a u v" by metis
qed

lemma adj_wf_shape: "shape b = shape a \<Longrightarrow> adj_wf b = adj_wf a"
proof -
  have "map fst (shape c) = map fst c" "map (ll_buffer \<circ> snd) (shape c) = map (ll_buffer \<circ> snd) c" for c
    by (simp_all add: shape_def case_prod_beta)
  moreover have "(\<forall>(i, d) \<in> set (shape c). sorted_wrt (<) (map neighbor (linklist d))) =
      (\<forall>(i, d) \<in> set c. sorted_wrt (<) (map neighbor (linklist d)))" for c
    by (simp add: shape_def case_prod_beta link_shape_def comp_def)
  ultimately have "adj_wf (shape c) = adj_wf c" for c by (simp add: adj_wf_def om_ok_def)
  then show "shape b = shape a \<Longrightarrow> adj_wf b = adj_wf a" by metis
qed

lemma find_update:
  assumes "distinct (map neighbor ls)" "k < length ls" "neighbor (f (ls ! k)) = neighbor (ls ! k)"
  shows "find (\<lambda>l. neighbor l = y) (ls[k := f (ls ! k)]) =
    (if y = neighbor (ls ! k) then Some (f (ls ! k)) else find (\<lambda>l. neighbor l = y) ls)"
  using assms
proof (induction ls arbitrary: k)
  case (Cons l ls)
  show ?case
  proof (cases k)
    case (Suc j)
    then have "neighbor l \<noteq> neighbor (ls ! j)" using Cons.prems by auto
    then show ?thesis using Cons Suc by auto
  qed (use Cons.prems in auto)
qed simp

lemma ptr_to_link:
  assumes "adj_wf a" "ptr_to a u v = Some p"
  obtains d k where "om_find u a = Some d" "p = (ll_buffer d, k)" "k < length (linklist d)"
    "neighbor (linklist d ! k) = v" "AdjList_find_link u v a = Some (linklist d ! k)"
proof -
  from assms(2) obtain d where d: "om_find u a = Some d" "findLinkQuality v d = Some p"
    by (auto simp: ptr_to_def split: option.splits)
  obtain b k where p: "p = (b, k)" by force
  have k: "b = ll_buffer d" "k < length (linklist d)" "neighbor (linklist d ! k) = v"
    using d p findLinkQuality_sorted [OF adj_wfD(2) [OF assms(1) d(1)]] by auto
  have "distinct (map neighbor (linklist d))"
    using adj_wfD(2) [OF assms(1) d(1)] by (simp add: strict_sorted_iff)
  from find_update [OF this k(2), of id v] k have "find (\<lambda>l. neighbor l = v) (linklist d) = Some (linklist d ! k)"
    by simp
  with d p k that show thesis by (simp add: AdjList_find_link_def)
qed

lemma ptr_to_None: "adj_wf a \<Longrightarrow> ptr_to a u v = None \<longleftrightarrow> AdjList_find_link u v a = None"
  using findLinkQuality_None adj_wfD(2)
  by (auto simp: ptr_to_def AdjList_find_link_def find_None_iff image_iff split: option.splits)

text \<open>A write through the pointer to a link changes this link only.\<close>

definition changed_link ::
  "NodeId \<Rightarrow> NodeId \<Rightarrow> (LinkQuality \<Rightarrow> LinkQuality) \<Rightarrow> AdjList \<Rightarrow> AdjList \<Rightarrow> bool" where
  "changed_link u v f a b \<longleftrightarrow> shape b = shape a \<and>
     (\<forall>x y. AdjList_find_link x y b =
        (if x = u \<and> y = v then map_option f (AdjList_find_link x y a) else AdjList_find_link x y a))"

lemma lq_modify_ptr_to:
  assumes "adj_wf a" "ptr_to a u v = Some p" "\<And>l. link_shape (f l) = link_shape l"
  shows "\<exists>b. lq_modify p f a = Inr b \<and> changed_link u v f a b"
proof -
  obtain d k where d: "om_find u a = Some d" "p = (ll_buffer d, k)" "k < length (linklist d)"
    "neighbor (linklist d ! k) = v" using ptr_to_link [OF assms(1,2)] by metis
  let ?f = "\<lambda>d. d\<lparr>linklist := (linklist d)[k := f (linklist d ! k)]\<rparr>"
  have nb: "neighbor (f l) = neighbor l" for l
    using assms(3) [of l] by (metis (no_types) link_shape_def LinkQuality.ext_inject LinkQuality.surjective LinkQuality.update_convs(1,4))
  have "map link_shape ((linklist d')[k := f (linklist d' ! k)]) = map link_shape (linklist d')" for d' :: NDescr
    using list_update_id [of "map link_shape (linklist d')" k]
    by (cases "k < length (linklist d')") (simp_all add: map_update assms(3) list_update_beyond)
  then have "shape (om_adjust u ?f a) = shape a" by (auto simp: shape_def om_adjust_def)
  moreover have "distinct (map neighbor (linklist d))"
    using adj_wfD(2) [OF assms(1) d(1)] by (simp add: strict_sorted_iff)
  then have "AdjList_find_link x y (om_adjust u ?f a) =
        (if x = u \<and> y = v then map_option f (AdjList_find_link x y a) else AdjList_find_link x y a)" for x y
    using d nb find_update [of "linklist d" k f y] find_update [of "linklist d" k id y]
    by (auto simp: AdjList_find_link_def om_find_adjust split: option.splits)
  moreover have "lq_modify p f a = Inr (om_adjust u ?f a)"
    using d lq_get_owner [OF assms(1) d(1)] lq_update_owner [OF assms(1) d(1)] by (simp add: lq_modify_def)
  ultimately show ?thesis by (auto simp: changed_link_def)
qed

lemma lq_read_ptr_to:
  assumes "adj_wf a" "ptr_to a u v = Some p"
  shows "\<exists>l. AdjList_find_link u v a = Some l \<and> lq_read p a = Inr l"
proof -
  obtain d k where "om_find u a = Some d" "p = (ll_buffer d, k)" "k < length (linklist d)"
    "AdjList_find_link u v a = Some (linklist d ! k)" using ptr_to_link [OF assms] by metis
  then show ?thesis using lq_get_owner [OF assms(1)] by (simp add: lq_read_def)
qed

section \<open>Setting counterparts and weights\<close>

text \<open>The effect on all links of an operation on the pair of links between two nodes.\<close>

definition on_pair ::
  "NodeId \<Rightarrow> NodeId \<Rightarrow> (NodeId \<Rightarrow> NodeId \<Rightarrow> LinkQuality \<Rightarrow> LinkQuality) \<Rightarrow> AdjList \<Rightarrow> AdjList \<Rightarrow> bool" where
  "on_pair u v f a b \<longleftrightarrow> shape b = shape a \<and>
     (\<forall>x y. AdjList_find_link x y b =
        (if (x, y) = (u, v) \<or> (x, y) = (v, u) then map_option (f x y) (AdjList_find_link x y a)
         else AdjList_find_link x y a))"

lemma on_pairD:
  assumes "on_pair u v f a b"
  shows "shape b = shape a" "AdjList_find_link x y b =
    (if (x, y) = (u, v) \<or> (x, y) = (v, u) then map_option (f x y) (AdjList_find_link x y a)
     else AdjList_find_link x y a)"
  using assms by (simp_all add: on_pair_def)

lemma link_shape_updates [simp]:
  "link_shape (l\<lparr>counterpart := c\<rparr>) = link_shape l" "link_shape (l\<lparr>metric_weight := w\<rparr>) = link_shape l"
  by (simp_all add: link_shape_def)

lemma changed_links_pair:
  assumes "changed_link v u g a b" "changed_link u v f b c"
    and "\<And>l. h v u l = (if u = v then f (g l) else g l)" "\<And>l. h u v l = (if u = v then f (g l) else f l)"
  shows "on_pair u v h a c"
proof -
  have "AdjList_find_link x y c =
      (if (x, y) = (u, v) \<or> (x, y) = (v, u) then map_option (h x y) (AdjList_find_link x y a)
       else AdjList_find_link x y a)" for x y
  proof -
    have "AdjList_find_link x y b = (if x = v \<and> y = u then map_option g (AdjList_find_link x y a) else AdjList_find_link x y a)"
      "AdjList_find_link x y c = (if x = u \<and> y = v then map_option f (AdjList_find_link x y b) else AdjList_find_link x y b)"
      using assms(1,2) by (simp_all add: changed_link_def)
    moreover have "u = v \<Longrightarrow> h u v = f \<circ> g" "u \<noteq> v \<Longrightarrow> h v u = g" "u \<noteq> v \<Longrightarrow> h u v = f"
      using assms(3,4) by (simp_all add: fun_eq_iff)
    ultimately show ?thesis
      by (cases "u = v"; cases "x = u"; cases "y = v") (simp_all add: option.map_comp)
  qed
  then show ?thesis using assms(1,2) by (simp add: on_pair_def changed_link_def)
qed

lemma set_counterpart_pair:
  assumes wf: "adj_wf a" and p: "ptr_to a u v = Some p"
  shows "\<exists>b. set_counterpart p (ptr_to a v u) a = Inr b \<and>
    on_pair u v (\<lambda>x y l. l\<lparr>counterpart := ptr_to a y x\<rparr>) a b"
proof -
  have "\<exists>b. (case ptr_to a v u of None \<Rightarrow> Inr a | Some c \<Rightarrow> lq_modify c (\<lambda>l. l\<lparr>counterpart := Some p\<rparr>) a) = Inr b \<and>
      changed_link v u (\<lambda>l. l\<lparr>counterpart := Some p\<rparr>) a b"
  proof (cases "ptr_to a v u")
    case None
    then show ?thesis using ptr_to_None [OF wf, of v u] by (simp add: changed_link_def)
  next
    case (Some q)
    then show ?thesis using lq_modify_ptr_to [OF wf Some] by simp
  qed
  then obtain b where b: "(case ptr_to a v u of None \<Rightarrow> Inr a | Some c \<Rightarrow> lq_modify c (\<lambda>l. l\<lparr>counterpart := Some p\<rparr>) a) = Inr b"
    "changed_link v u (\<lambda>l. l\<lparr>counterpart := Some p\<rparr>) a b" by blast
  have sh: "shape b = shape a" using b(2) by (simp add: changed_link_def)
  have "adj_wf b" "ptr_to b u v = Some p" using adj_wf_shape [OF sh] ptr_to_shape [OF sh] wf p by simp_all
  from lq_modify_ptr_to [OF this, of "\<lambda>l. l\<lparr>counterpart := ptr_to a v u\<rparr>"] obtain c where
    c: "lq_modify p (\<lambda>l. l\<lparr>counterpart := ptr_to a v u\<rparr>) b = Inr c"
      "changed_link u v (\<lambda>l. l\<lparr>counterpart := ptr_to a v u\<rparr>) b c" by auto
  have "on_pair u v (\<lambda>x y l. l\<lparr>counterpart := ptr_to a y x\<rparr>) a c"
    using p by (intro changed_links_pair [OF b(2) c(2)]) auto
  then show ?thesis using b(1) c(1) by (simp add: set_counterpart_def)
qed

lemma get_qualities_pair:
  assumes "adj_wf a" "ptr_to a u v = Some p" "AdjList_find_link u v a = Some l" "counterpart l = ptr_to a v u"
  shows "\<exists>q. get_qualities p a = Inr q"
proof -
  have r: "lq_read p a = Inr l" using lq_read_ptr_to [OF assms(1,2)] assms(3) by simp
  show ?thesis
  proof (cases "ptr_to a v u")
    case (Some q)
    then show ?thesis using r lq_read_ptr_to [OF assms(1) Some] assms(4) by (auto simp: get_qualities_def)
  qed (use r assms(4) in \<open>simp add: get_qualities_def\<close>)
qed

lemma set_metric_weight_pair:
  assumes "adj_wf a" "ptr_to a u v = Some p" "AdjList_find_link u v a = Some l" "counterpart l = ptr_to a v u"
  shows "\<exists>b. set_metric_weight p mw a = Inr b \<and> on_pair u v (\<lambda>x y l. l\<lparr>metric_weight := mw\<rparr>) a b"
proof -
  let ?f = "\<lambda>l. l\<lparr>metric_weight := mw\<rparr>"
  from lq_modify_ptr_to [OF assms(1,2), of ?f] obtain b where
    b: "lq_modify p ?f a = Inr b" "changed_link u v ?f a b" by auto
  have sh: "adj_wf b" "ptr_to b x y = ptr_to a x y" for x y
    using b(2) assms(1) adj_wf_shape [of b a] ptr_to_shape [of b a] by (auto simp: changed_link_def)
  have r: "lq_read p b = Inr (?f l)"
    using lq_read_ptr_to [OF sh(1), of u v p] sh(2) [of u v] assms(2,3) b(2) by (simp add: changed_link_def)
  show ?thesis
  proof (cases "ptr_to a v u")
    case None
    then have "AdjList_find_link v u a = None" using ptr_to_None [OF assms(1)] by simp
    then have "changed_link v u ?f a a" by (simp add: changed_link_def)
    from changed_links_pair [OF this b(2), of "\<lambda>x y. ?f"] have "on_pair u v (\<lambda>x y. ?f) a b" by simp
    then show ?thesis using None b(1) r assms(4) by (simp add: set_metric_weight_def)
  next
    case (Some q)
    with lq_modify_ptr_to [OF sh(1), of v u q ?f] sh(2) obtain c where
      c: "lq_modify q ?f b = Inr c" "changed_link v u ?f b c" by auto
    have "on_pair v u (\<lambda>x y. ?f) a c" by (rule changed_links_pair [OF b(2) c(2)]) auto
    then have "on_pair u v (\<lambda>x y. ?f) a c" by (simp add: on_pair_def disj_commute)
    then show ?thesis using Some b(1) c(1) r assms(4) by (simp add: set_metric_weight_def)
  qed
qed

definition weight_ok :: "u32 \<Rightarrow> bool" where
  "weight_ok w \<longleftrightarrow> w \<noteq> 0 \<and> w \<le> max_weight"

lemma calculate_pair:
  assumes "adj_wf a" "ptr_to a u v = Some p" "AdjList_find_link u v a = Some l" "counterpart l = ptr_to a v u"
    and "\<forall>f b. calc f b \<noteq> 0"
  shows "\<exists>b mw. calculate calc p a = Inr b \<and> weight_ok mw \<and>
    on_pair u v (\<lambda>x y l. l\<lparr>metric_weight := mw\<rparr>) a b"
proof -
  obtain q where q: "get_qualities p a = Inr q" using get_qualities_pair [OF assms(1-4)] by blast
  let ?mw = "case q of None \<Rightarrow> - 1 | Some (f, b) \<Rightarrow> calc f b"
  have "?mw \<noteq> 0" using assms(5) by (auto split: option.splits)
  then have "weight_ok (min ?mw max_weight)" by (auto simp: weight_ok_def min_def max_weight_def)
  moreover obtain b where "set_metric_weight p (min ?mw max_weight) a = Inr b"
    "on_pair u v (\<lambda>x y l. l\<lparr>metric_weight := min ?mw max_weight\<rparr>) a b"
    using set_metric_weight_pair [OF assms(1-4)] by blast
  ultimately show ?thesis using q by (auto simp: calculate_def Let_def)
qed

end
