(* ===== verification/Topo_Inv.thy ===== *)
theory Topo_Inv
  imports Topo_Links
begin

text \<open>
  The invariant of the topology and its preservation by every operation: buffers are owned by one
  node, links are ordered, counterparts are consistent, weights come from the metric and agree in
  both directions, and no node outlives its links.  While a packet is merged, the links between
  its source and the neighbors not handled yet are exempt.
\<close>

section \<open>The invariant\<close>

abbreviation link_of :: "AdjList \<Rightarrow> NodeId \<Rightarrow> NodeId \<Rightarrow> LinkQuality option" where
  "link_of a x y \<equiv> AdjList_find_link x y a"

definition paired :: "AdjList \<Rightarrow> NodeId \<Rightarrow> NodeId \<Rightarrow> LinkQuality \<Rightarrow> bool" where
  "paired a x y l \<longleftrightarrow> counterpart l = ptr_to a y x \<and>
     (\<forall>l'. link_of a y x = Some l' \<longrightarrow> metric_weight l' = metric_weight l)"

definition links_ok :: "NodeId \<Rightarrow> NodeId set \<Rightarrow> AdjList \<Rightarrow> bool" where
  "links_ok s P a \<longleftrightarrow> (\<forall>x y l. link_of a x y = Some l \<longrightarrow>
     (x = s \<and> y \<in> P \<or> weight_ok (metric_weight l)) \<and>
     (x = s \<and> y \<in> P \<or> y = s \<and> x \<in> P \<or> paired a x y l))"

definition node_ok :: "nat \<Rightarrow> NodeId \<times> NDescr \<Rightarrow> bool" where
  "node_ok nb n \<longleftrightarrow> NodeId_ok (fst n) \<and> ll_buffer (snd n) < nb \<and>
     edgeValidity (snd n) \<le> nodeValidity (snd n) \<and> length (linklist (snd n)) \<le> 255 \<and>
     (\<forall>l \<in> set (linklist (snd n)). NodeId_ok (neighbor l))"

definition topo_wf :: "NodeId \<Rightarrow> NodeId set \<Rightarrow> RTopology \<Rightarrow> bool" where
  "topo_wf s P t \<longleftrightarrow> adj_wf (adjList t) \<and> (\<forall>n \<in> set (adjList t). node_ok (next_buffer t) n) \<and>
     links_ok s P (adjList t)"

definition topo_inv :: "RTopology \<Rightarrow> bool" where
  "topo_inv t \<longleftrightarrow> topo_wf (myNodeId t) {} t"

lemma links_ok_empty: "links_ok s {} a = links_ok s' {} a"
  by (simp add: links_ok_def)

lemma links_okD:
  assumes "links_ok s P a" "link_of a x y = Some l"
  shows "x = s \<and> y \<in> P \<or> weight_ok (metric_weight l)"
    "x = s \<and> y \<in> P \<or> y = s \<and> x \<in> P \<or> paired a x y l"
  using assms unfolding links_ok_def by blast+

lemma links_ok_same:
  assumes "links_ok s P a" "\<And>x y. link_of b x y = link_of a x y" "\<And>x y. ptr_to b x y = ptr_to a x y"
  shows "links_ok s P b"
  using assms by (simp add: links_ok_def paired_def)

lemma links_ok_shape: "shape b = shape a \<Longrightarrow> ptr_to b x y = ptr_to a x y"
  by (rule ptr_to_shape)

lemma node_ok_shape:
  assumes "shape b = shape a" "\<forall>n \<in> set a. node_ok nb n"
  shows "\<forall>n \<in> set b. node_ok nb n"
proof -
  have "(\<forall>n \<in> set (shape c). node_ok nb n) \<longleftrightarrow> (\<forall>n \<in> set c. node_ok nb n)" for c
    by (simp add: shape_def node_ok_def case_prod_beta link_shape_def)
  then show ?thesis using assms by metis
qed

text \<open>Changes to a node that leave its links alone, and the insertion of a node without links.\<close>

lemma link_of_adjust:
  assumes "\<And>d. linklist (f d) = linklist d"
  shows "link_of (om_adjust i f a) x y = link_of a x y"
  using assms by (simp add: AdjList_find_link_def om_find_adjust split: option.split)

lemma findLinkQuality_cong:
  "linklist d' = linklist d \<Longrightarrow> ll_buffer d' = ll_buffer d \<Longrightarrow> findLinkQuality v d' = findLinkQuality v d"
  by (simp add: findLinkQuality_def Let_def)

lemma ptr_to_adjust:
  assumes "\<And>d. linklist (f d) = linklist d" "\<And>d. ll_buffer (f d) = ll_buffer d"
  shows "ptr_to (om_adjust i f a) x y = ptr_to a x y"
  using findLinkQuality_cong [OF assms] by (simp add: ptr_to_def om_find_adjust split: option.split)

lemma adj_wf_adjust:
  assumes "\<And>d. linklist (f d) = linklist d" "\<And>d. ll_buffer (f d) = ll_buffer d"
  shows "adj_wf (om_adjust i f a) = adj_wf a"
proof -
  have "map (ll_buffer \<circ> snd) (om_adjust i f a) = map (ll_buffer \<circ> snd) a"
    using assms(2) by (simp add: om_adjust_def case_prod_beta)
  moreover have "(\<forall>(j, d) \<in> set (om_adjust i f a). sorted_wrt (<) (map neighbor (linklist d))) =
      (\<forall>(j, d) \<in> set a. sorted_wrt (<) (map neighbor (linklist d)))"
    using assms(1) by (simp add: om_adjust_def case_prod_beta)
  ultimately show ?thesis by (simp add: adj_wf_def)
qed

lemma set_om_insert: "om_find i a = None \<Longrightarrow> om_ok a \<Longrightarrow> set (om_insert i d a) = insert (i, d) (set a)"
  by (induction i d a rule: om_insert.induct) (auto simp: om_find_def)

lemma link_of_insert:
  assumes "om_ok a" "om_find i a = None" "linklist d = []"
  shows "link_of (om_insert i d a) x y = link_of a x y" "ptr_to (om_insert i d a) x y = ptr_to a x y"
proof -
  have "findLinkQuality y d = None" using findLinkQuality_None [of d y] assms(3) by simp
  then show "link_of (om_insert i d a) x y = link_of a x y" "ptr_to (om_insert i d a) x y = ptr_to a x y"
    using assms by (simp_all add: AdjList_find_link_def ptr_to_def om_find_insert)
qed

lemma mset_om_insert: "om_find i a = None \<Longrightarrow> om_ok a \<Longrightarrow> mset (om_insert i d a) = add_mset (i, d) (mset a)"
  by (induction i d a rule: om_insert.induct) (auto simp: om_find_def)

lemma adj_wf_insert:
  assumes "adj_wf a" "om_find i a = None" "linklist d = []" "\<forall>n \<in> set a. ll_buffer (snd n) \<noteq> ll_buffer d"
  shows "adj_wf (om_insert i d a)"
proof -
  have ok: "om_ok a" using assms(1) by (simp add: adj_wf_def)
  have "mset (map (ll_buffer \<circ> snd) (om_insert i d a)) = mset (ll_buffer d # map (ll_buffer \<circ> snd) a)"
    using mset_om_insert [OF assms(2) ok] by simp
  then have "distinct (map (ll_buffer \<circ> snd) (om_insert i d a)) = distinct (ll_buffer d # map (ll_buffer \<circ> snd) a)"
    by (rule mset_eq_imp_distinct_iff)
  then show ?thesis
    using assms ok om_insert_ok [OF ok] set_om_insert [OF assms(2) ok] by (auto simp: adj_wf_def)
qed

section \<open>What an operation keeps\<close>

text \<open>Everything of the object but its nodes, the dirty flag, the buffer counter and the log.\<close>

definition frame :: "RTopology \<Rightarrow> RTopology \<Rightarrow> bool" where
  "frame t t' \<longleftrightarrow> t' = t\<lparr>adjList := adjList t', dirty := dirty t', next_buffer := next_buffer t', topo_log := topo_log t'\<rparr>"

lemma frameD:
  assumes "frame t t'"
  shows "lastEventTime t' = lastEventTime t" "myNodeId t' = myNodeId t" "locked t' = locked t"
    "xml_subscribed t' = xml_subscribed t" "linkObservers t' = linkObservers t" "nodeObservers t' = nodeObservers t"
    "linuxbasic_cb t' = linuxbasic_cb t" "own_nodeName t' = own_nodeName t" "dot_subscribed t' = dot_subscribed t"
  by (subst assms [unfolded frame_def], simp)+

lemma frameI:
  assumes "lastEventTime t' = lastEventTime t" "myNodeId t' = myNodeId t" "locked t' = locked t"
    "xml_subscribed t' = xml_subscribed t" "linkObservers t' = linkObservers t" "nodeObservers t' = nodeObservers t"
    "linuxbasic_cb t' = linuxbasic_cb t" "own_nodeName t' = own_nodeName t" "dot_subscribed t' = dot_subscribed t"
  shows "frame t t'"
  using assms by (simp add: frame_def)

lemma frame_refl [simp]: "frame t t"
  by (simp add: frame_def)

lemma frame_trans: "frame t t' \<Longrightarrow> frame t' t'' \<Longrightarrow> frame t t''"
  using frameD [of t t'] frameD [of t' t''] by (intro frameI) simp_all

lemma frame_updates [simp]:
  "frame t (t\<lparr>adjList := a\<rparr>)" "frame t (t\<lparr>dirty := d\<rparr>)" "frame t (t\<lparr>next_buffer := n\<rparr>)" "frame t (emit es t)"
  "frame t (on_node i f t)"
  by (rule frameI; simp add: emit_def on_node_def)+

text \<open>The notifications change the log only.\<close>

lemmas send_defs = sendNodesChanged_def sendNodeAdded_def sendNodeRemoved_def sendLinksChanged_def
  sendLinkAdded_def sendLinkRemoved_def

lemma emit_simps [simp]:
  "adjList (emit es t) = adjList t" "dirty (emit es t) = dirty t" "next_buffer (emit es t) = next_buffer t"
  "lastEventTime (emit es t) = lastEventTime t" "myNodeId (emit es t) = myNodeId t" "locked (emit es t) = locked t"
  by (simp_all add: emit_def)

lemma send_simps [simp]:
  "adjList (sendLinkAdded x y t) = adjList t" "adjList (sendLinkRemoved x y t) = adjList t"
  "myNodeId (sendLinkAdded x y t) = myNodeId t" "myNodeId (sendLinkRemoved x y t) = myNodeId t"
  "adjList (sendNodeRemoved x t) = adjList t" "adjList (sendNodesChanged t) = adjList t"
  "adjList (sendLinksChanged t) = adjList t" "next_buffer (sendLinkRemoved x y t) = next_buffer t"
  "next_buffer (sendNodeRemoved x t) = next_buffer t" "next_buffer (sendNodesChanged t) = next_buffer t"
  "next_buffer (sendLinksChanged t) = next_buffer t" "dirty (sendLinksChanged t) = dirty t"
  "dirty (sendNodesChanged t) = dirty t" "dirty (sendNodeRemoved x t) = dirty t" "dirty (sendLinkRemoved x y t) = dirty t"
  by (simp_all add: send_defs)

lemma frame_send [simp]:
  "frame t (sendLinkAdded x y t)" "frame t (sendLinkRemoved x y t)" "frame t (sendNodeRemoved x t)"
  "frame t (sendNodesChanged t)" "frame t (sendLinksChanged t)"
  by (simp_all add: send_defs)

lemma topo_wf_cong:
  "adjList t' = adjList t \<Longrightarrow> next_buffer t' = next_buffer t \<Longrightarrow> topo_wf s P t' = topo_wf s P t"
  by (simp add: topo_wf_def)

text \<open>
  What happens to the nodes that exist while a packet is merged: their links keep their ends and
  qualities, the edges their validity, and the nodes are not valid for a shorter time.
\<close>

definition node_extends :: "NDescr \<Rightarrow> NDescr \<Rightarrow> bool" where
  "node_extends d d' \<longleftrightarrow> map link_shape (linklist d') = map link_shape (linklist d) \<and>
     edgeValidity d' = edgeValidity d \<and> nodeValidity d \<le> nodeValidity d' \<and> ll_buffer d' = ll_buffer d"

definition extends :: "AdjList \<Rightarrow> AdjList \<Rightarrow> bool" where
  "extends a b \<longleftrightarrow> (\<forall>i d. om_find i a = Some d \<longrightarrow> (\<exists>d'. om_find i b = Some d' \<and> node_extends d d'))"

lemma extends_refl [simp]: "extends a a"
  by (simp add: extends_def node_extends_def)

lemma node_extends_trans: "node_extends d e \<Longrightarrow> node_extends e f \<Longrightarrow> node_extends d f"
  by (simp add: node_extends_def)

lemma extends_trans: "extends a b \<Longrightarrow> extends b c \<Longrightarrow> extends a c"
  unfolding extends_def using node_extends_trans by blast

lemma extends_shape:
  assumes "shape b = shape a"
  shows "extends a b"
  unfolding extends_def
proof (intro allI impI)
  fix i d
  assume d: "om_find i a = Some d"
  have "om_find i (shape b) = om_find i (shape a)" using assms by simp
  with d obtain d' where d': "om_find i b = Some d'"
    "d'\<lparr>linklist := map link_shape (linklist d')\<rparr> = d\<lparr>linklist := map link_shape (linklist d)\<rparr>"
    by (auto simp: om_find_shape)
  then have "node_extends d d'" unfolding node_extends_def
    by (metis NDescr.ext_inject NDescr.surjective NDescr.update_convs(1) order_refl)
  with d' show "\<exists>d'. om_find i b = Some d' \<and> node_extends d d'" by blast
qed

lemma extends_adjust:
  assumes "\<And>d. node_extends d (f d)"
  shows "extends a (om_adjust i f a)"
  using assms by (auto simp: extends_def om_find_adjust node_extends_def)

lemma extends_links:
  assumes "extends a b" "om_find i a = Some d"
  shows "\<exists>d'. om_find i b = Some d' \<and> map neighbor (linklist d') = map neighbor (linklist d)"
proof -
  from assms obtain d' where d': "om_find i b = Some d'" "map link_shape (linklist d') = map link_shape (linklist d)"
    by (auto simp: extends_def node_extends_def)
  have "map neighbor (map link_shape (linklist d')) = map neighbor (map link_shape (linklist d))"
    using d'(2) by (rule arg_cong)
  with d'(1) show ?thesis by (simp only: neighbor_shape) blast
qed

section \<open>The entry of a node\<close>

lemma getNameOfNode_ok: "om_find i a \<noteq> None \<Longrightarrow> \<exists>n. getNameOfNode i a = Inr n"
  by (auto simp: getNameOfNode_def Let_def)

lemma getNodeEntry_ok:
  assumes "topo_wf s P t" "NodeId_ok i"
  shows "\<exists>t'. getNodeEntry env i t = Inr t' \<and> topo_wf s P t' \<and> frame t t' \<and> dirty t' = dirty t \<and>
    om_find i (adjList t') \<noteq> None \<and> extends (adjList t) (adjList t') \<and>
    (\<forall>x y. link_of (adjList t') x y = link_of (adjList t) x y \<and> ptr_to (adjList t') x y = ptr_to (adjList t) x y) \<and>
    length (adjList t') \<le> length (adjList t) + 1"
proof (cases "om_find i (adjList t)")
  case (Some d)
  then show ?thesis using assms by (simp add: getNodeEntry_def)
next
  case None
  let ?a = "adjList t" and ?v = "lastEventTime t + te_duration env 1 10"
  let ?d = "NDescr_new (next_buffer t)\<lparr>nodeValidity := ?v, edgeValidity := ?v\<rparr>"
  let ?t = "t\<lparr>adjList := om_insert i ?d ?a, next_buffer := next_buffer t + 1\<rparr>"
  have wf: "adj_wf ?a" "\<forall>n \<in> set ?a. node_ok (next_buffer t) n" "links_ok s P ?a" "om_ok ?a"
    using assms(1) by (simp_all add: topo_wf_def adj_wf_def)
  have d: "linklist ?d = []" "ll_buffer ?d = next_buffer t" by (simp_all add: NDescr_new_def)
  note L = link_of_insert [OF wf(4) None d(1)]
  have "adj_wf (om_insert i ?d ?a)"
    using wf(2) d(2) by (intro adj_wf_insert [OF wf(1) None d(1)]) (force simp: node_ok_def)
  moreover have "\<forall>n \<in> set (om_insert i ?d ?a). node_ok (next_buffer t + 1) n"
    using wf(2) d assms(2) set_om_insert [OF None wf(4)] by (auto simp: node_ok_def)
  ultimately have inv: "topo_wf s P ?t"
    using links_ok_same [OF wf(3) L] by (simp add: topo_wf_def)
  have "extends ?a (om_insert i ?d ?a)"
    using None om_find_insert [OF wf(4)] by (auto simp: extends_def node_extends_def)
  moreover have "length (om_insert i ?d ?a) = length ?a + 1"
    using mset_om_insert [OF None wf(4), of ?d] by (metis size_add_mset size_mset Suc_eq_plus1)
  moreover obtain n where "getNameOfNode i (om_insert i ?d ?a) = Inr n"
    using getNameOfNode_ok [of i "om_insert i ?d ?a"] om_find_insert [OF wf(4)] by auto
  moreover have "frame t (emit es ?t)" for es by (rule frameI) (simp_all add: emit_def)
  ultimately show ?thesis
    using None inv L om_find_insert [OF wf(4)]
    by (simp add: getNodeEntry_def Let_def send_defs topo_wf_def emit_def)
qed

section \<open>Merging the links of a packet\<close>

lemma pair_step:
  assumes wf: "adj_wf a" and ok: "links_ok s P a" and p: "ptr_to a s v = Some p" and calc: "\<forall>f b. calc f b \<noteq> 0"
  shows "\<exists>a1 a2. set_counterpart p (ptr_to a v s) a = Inr a1 \<and> calculate calc p a1 = Inr a2 \<and>
    shape a1 = shape a \<and> shape a2 = shape a \<and> links_ok s (P - {v}) a2"
proof -
  obtain a1 where a1: "set_counterpart p (ptr_to a v s) a = Inr a1"
    "on_pair s v (\<lambda>x y l. l\<lparr>counterpart := ptr_to a y x\<rparr>) a a1"
    using set_counterpart_pair [OF wf p] by blast
  note D1 = on_pairD [OF a1(2)]
  obtain l where l: "link_of a s v = Some l" using lq_read_ptr_to [OF wf p] by blast
  have "adj_wf a1" "ptr_to a1 s v = Some p" "link_of a1 s v = Some (l\<lparr>counterpart := ptr_to a1 v s\<rparr>)"
    using adj_wf_shape [OF D1(1)] ptr_to_shape [OF D1(1)] wf p D1(2) [of s v] l by simp_all
  with calculate_pair [of a1 s v p "l\<lparr>counterpart := ptr_to a1 v s\<rparr>" calc] calc obtain a2 mw where
    a2: "calculate calc p a1 = Inr a2" "weight_ok mw" "on_pair s v (\<lambda>x y l. l\<lparr>metric_weight := mw\<rparr>) a1 a2" by auto
  note D2 = on_pairD [OF a2(3)]
  have sh: "shape a2 = shape a" using D1(1) D2(1) by simp
  have ptr: "ptr_to a2 x y = ptr_to a x y" for x y by (rule ptr_to_shape [OF sh])
  have link: "link_of a2 x y = (if (x, y) = (s, v) \<or> (x, y) = (v, s)
      then map_option (\<lambda>l. l\<lparr>counterpart := ptr_to a y x, metric_weight := mw\<rparr>) (link_of a x y)
      else link_of a x y)" for x y
    using D1(2) [of x y] D2(2) [of x y] by (cases "link_of a x y") auto
  have "(x = s \<and> y \<in> P - {v} \<or> weight_ok (metric_weight k)) \<and>
      (x = s \<and> y \<in> P - {v} \<or> y = s \<and> x \<in> P - {v} \<or> paired a2 x y k)" if k: "link_of a2 x y = Some k" for x y k
  proof (cases "(x, y) = (s, v) \<or> (x, y) = (v, s)")
    case True
    then have "counterpart k = ptr_to a y x" "metric_weight k = mw" using k link [of x y] by auto
    moreover have "metric_weight k' = mw" if "link_of a2 y x = Some k'" for k'
      using that True link [of y x] by auto
    ultimately show ?thesis using a2(2) by (auto simp: paired_def ptr)
  next
    case False
    then have "link_of a x y = Some k" using k link [of x y] by (simp only: if_False)
    from links_okD [OF ok this] have "(x = s \<and> y \<in> P - {v} \<or> weight_ok (metric_weight k)) \<and>
      (x = s \<and> y \<in> P - {v} \<or> y = s \<and> x \<in> P - {v} \<or> paired a x y k)" using False by auto
    moreover have "link_of a2 y x = link_of a y x"
      using False link [of y x] by (cases "(y, x) = (s, v) \<or> (y, x) = (v, s)") (blast, simp only: if_False)
    ultimately show ?thesis by (simp add: paired_def ptr)
  qed
  then have "links_ok s (P - {v}) a2" by (simp add: links_ok_def)
  with a1 a2 D1(1) sh show ?thesis by auto
qed

text \<open>A link that was removed: the counterpart that is left loses its pointer.\<close>

lemma removed_step:
  assumes wf: "adj_wf a" and ok: "links_ok s P a" and none: "ptr_to a s v = None" and p: "ptr_to a v s = Some p"
  shows "\<exists>a1. set_counterpart p None a = Inr a1 \<and> shape a1 = shape a \<and> links_ok s (P - {v}) a1"
proof -
  obtain a1 where a1: "set_counterpart p None a = Inr a1"
    "on_pair v s (\<lambda>x y l. l\<lparr>counterpart := ptr_to a y x\<rparr>) a a1"
    using set_counterpart_pair [OF wf p] none by auto
  note D1 = on_pairD [OF a1(2)]
  have ptr: "ptr_to a1 x y = ptr_to a x y" for x y by (rule ptr_to_shape [OF D1(1)])
  have no: "link_of a s v = None" using ptr_to_None [OF wf] none by simp
  have link: "link_of a1 x y = (if (x, y) = (v, s) then map_option (\<lambda>l. l\<lparr>counterpart := None\<rparr>) (link_of a x y)
      else link_of a x y)" for x y
  proof -
    have "v \<noteq> s" using none p by auto
    then show ?thesis
      using D1(2) [of x y] none no by (cases "x = s"; cases "y = v"; cases "x = v"; cases "y = s") simp_all
  qed
  have "(x = s \<and> y \<in> P - {v} \<or> weight_ok (metric_weight k)) \<and>
      (x = s \<and> y \<in> P - {v} \<or> y = s \<and> x \<in> P - {v} \<or> paired a1 x y k)" if k: "link_of a1 x y = Some k" for x y k
  proof (cases "(x, y) = (v, s)")
    case True
    then obtain k0 where k0: "link_of a v s = Some k0" "k = k0\<lparr>counterpart := None\<rparr>"
      using k link [of x y] by (cases "link_of a v s") auto
    have "v \<noteq> s" using none p by auto
    then have w: "weight_ok (metric_weight k)" using links_okD(1) [OF ok k0(1)] k0(2) by simp
    have "link_of a1 s v = None" using link [of s v] no \<open>v \<noteq> s\<close> by simp
    then have "paired a1 v s k" using k0(2) none by (simp add: paired_def ptr)
    then show ?thesis using True w by simp
  next
    case False
    then have xy: "link_of a x y = Some k" using k link [of x y] by (simp only: if_False)
    then have "(x, y) \<noteq> (s, v)" using no by auto
    then have "(x = s \<and> y \<in> P - {v} \<or> weight_ok (metric_weight k)) \<and>
      (x = s \<and> y \<in> P - {v} \<or> y = s \<and> x \<in> P - {v} \<or> paired a x y k)" using links_okD [OF ok xy] False by auto
    moreover have "link_of a1 y x = link_of a y x"
      using \<open>(x, y) \<noteq> (s, v)\<close> link [of y x] by (cases "(y, x) = (v, s)") (blast, simp only: if_False)
    ultimately show ?thesis by (simp add: paired_def ptr)
  qed
  then have "links_ok s (P - {v}) a1" by (simp add: links_ok_def)
  with a1 D1(1) show ?thesis by blast
qed

lemma absent_step:
  assumes wf: "adj_wf a" and ok: "links_ok s P a" and none: "ptr_to a s v = None" "ptr_to a v s = None"
  shows "links_ok s (P - {v}) a"
proof -
  have "link_of a s v = None" "link_of a v s = None" using ptr_to_None [OF wf] none by auto
  then have "(x = s \<and> y \<in> P - {v} \<or> weight_ok (metric_weight k)) \<and>
      (x = s \<and> y \<in> P - {v} \<or> y = s \<and> x \<in> P - {v} \<or> paired a x y k)" if "link_of a x y = Some k" for x y k
    using links_okD [OF ok that] that by (cases "x = v \<and> y = s \<or> x = s \<and> y = v") auto
  then show ?thesis by (simp add: links_ok_def)
qed

lemma om_adjust_id: "om_adjust i id a = a"
  by (induction a) (auto simp: om_adjust_def)

lemma neighbor_entry_ok:
  assumes "topo_wf s P t" "NodeId_ok n"
  shows "\<exists>t'. neighbor_entry env s n vo t = Inr (ptr_to (adjList t') n s, t') \<and> topo_wf s P t' \<and> frame t t' \<and>
    extends (adjList t) (adjList t') \<and> (\<forall>x y. ptr_to (adjList t') x y = ptr_to (adjList t) x y) \<and>
    dirty t' = dirty t \<and> length (adjList t') \<le> length (adjList t) + 1"
proof -
  obtain t1 where t1: "getNodeEntry env n t = Inr t1" "topo_wf s P t1" "frame t t1" "om_find n (adjList t1) \<noteq> None"
    "extends (adjList t) (adjList t1)" "\<And>x y. ptr_to (adjList t1) x y = ptr_to (adjList t) x y"
    "dirty t1 = dirty t" "length (adjList t1) \<le> length (adjList t) + 1"
    using getNodeEntry_ok [OF assms] by metis
  define f where "f = (case vo of None \<Rightarrow> id | Some v \<Rightarrow> update_nodeValidity v)"
  define t2 where "t2 = on_node n f t1"
  have f: "linklist (f d) = linklist d" "ll_buffer (f d) = ll_buffer d" "edgeValidity (f d) = edgeValidity d"
    "nodeValidity d \<le> nodeValidity (f d)" for d
    by (auto simp: f_def update_nodeValidity_def split: option.splits)
  have a2: "adjList t2 = om_adjust n f (adjList t1)" by (simp add: t2_def on_node_def)
  have t2: "(case vo of None \<Rightarrow> t1 | Some v \<Rightarrow> on_node n (update_nodeValidity v) t1) = t2"
    by (cases vo) (simp_all add: t2_def f_def on_node_def om_adjust_id)
  note L = link_of_adjust [where f = f, OF f(1)] ptr_to_adjust [where f = f, OF f(1,2)]
  have "\<forall>m \<in> set (adjList t2). node_ok (next_buffer t2) m"
  proof
    fix m
    assume "m \<in> set (adjList t2)"
    then obtain i d where m: "(i, d) \<in> set (adjList t1)" "m = (i, if i = n then f d else d)"
      by (auto simp: a2 om_adjust_def)
    then have "node_ok (next_buffer t1) (i, d)" using t1(2) by (simp add: topo_wf_def)
    then show "node_ok (next_buffer t2) m"
      using m(2) f [of d] by (simp add: node_ok_def t2_def on_node_def)
  qed
  moreover have "adj_wf (adjList t2)" using t1(2) adj_wf_adjust [of f, OF f(1,2)] by (simp add: a2 topo_wf_def)
  moreover have "links_ok s P (adjList t2)"
    using links_ok_same [of s P "adjList t1" "adjList t2"] t1(2) by (simp add: a2 L topo_wf_def)
  ultimately have wf: "topo_wf s P t2" by (simp add: topo_wf_def)
  obtain d where "om_find n (adjList t2) = Some d" using t1(4) by (auto simp: a2 om_find_adjust)
  then have "neighbor_entry env s n vo t = Inr (ptr_to (adjList t2) n s, t2)"
    using t1(1) t2 by (simp add: neighbor_entry_def ptr_to_def)
  moreover have "extends (adjList t1) (adjList t2)"
    unfolding a2 by (rule extends_adjust) (simp add: node_extends_def f)
  moreover have "frame t1 t2" "dirty t2 = dirty t1" "length (adjList t2) = length (adjList t1)"
    by (simp_all add: t2_def) (simp_all add: on_node_def om_adjust_def)
  moreover have "ptr_to (adjList t2) x y = ptr_to (adjList t) x y" for x y using t1(6) by (simp add: a2 L(2))
  ultimately show ?thesis
    using wf t1(3,5,7,8) extends_trans [OF t1(5)] frame_trans [OF t1(3)] by (intro exI [of _ t2]) simp
qed

text \<open>The state of the merge: the pending neighbors and what is left of the links.\<close>

definition merge_inv :: "NodeId \<Rightarrow> NodeId set \<Rightarrow> RTopology \<Rightarrow> RTopology \<Rightarrow> nat \<Rightarrow> bool" where
  "merge_inv s P t0 t n \<longleftrightarrow> topo_wf s P t \<and> frame t0 t \<and> extends (adjList t0) (adjList t) \<and>
     (\<forall>x. ptr_to (adjList t) s x = ptr_to (adjList t0) s x) \<and> (dirty t0 \<longrightarrow> dirty t) \<and>
     length (adjList t) \<le> length (adjList t0) + n"

lemma topo_wf_links:
  assumes "topo_wf s P t" "shape a = shape (adjList t)" "links_ok s Q a" "adjList t' = a" "next_buffer t' = next_buffer t"
  shows "topo_wf s Q t'"
  using assms adj_wf_shape [OF assms(2)] node_ok_shape [OF assms(2)] by (simp add: topo_wf_def)

lemma merge_inv_links:
  assumes "merge_inv s P t0 t n" "shape a = shape (adjList t)" "links_ok s Q a" "adjList t' = a"
    "next_buffer t' = next_buffer t" "frame t t'" "dirty t \<longrightarrow> dirty t'"
  shows "merge_inv s Q t0 t' n"
proof -
  have "length (shape a) = length (shape (adjList t))" using assms(2) by simp
  then have "length a = length (adjList t)" by (simp add: shape_def)
  moreover have "topo_wf s Q t'" using assms(1) topo_wf_links [of s P, OF _ assms(2-5)] by (simp add: merge_inv_def)
  moreover have "extends (adjList t0) a"
    using assms(1) extends_trans [OF _ extends_shape [OF assms(2)]] by (simp add: merge_inv_def)
  moreover have "frame t0 t'" using assms(1,6) frame_trans [of t0 t t'] by (simp add: merge_inv_def)
  moreover have "ptr_to a s x = ptr_to (adjList t0) s x" for x
    using assms(1) ptr_to_shape [OF assms(2)] by (simp add: merge_inv_def)
  ultimately show ?thesis using assms(1,4,7) by (simp add: merge_inv_def)
qed

lemma neighbor_entry_merge:
  assumes "merge_inv s P t0 t n" "NodeId_ok v"
  shows "\<exists>t'. neighbor_entry env s v vo t = Inr (ptr_to (adjList t') v s, t') \<and> merge_inv s P t0 t' (n + 1) \<and> frame t t' \<and>
    dirty t' = dirty t"
proof -
  from neighbor_entry_ok [of s P t v env vo] assms obtain t' where
    t': "neighbor_entry env s v vo t = Inr (ptr_to (adjList t') v s, t')" "topo_wf s P t'" "frame t t'"
      "extends (adjList t) (adjList t')" "\<forall>x y. ptr_to (adjList t') x y = ptr_to (adjList t) x y"
      "dirty t' = dirty t" "length (adjList t') \<le> length (adjList t) + 1" by (auto simp: merge_inv_def)
  have "merge_inv s P t0 t' (n + 1)"
    using assms(1) t' frame_trans [of t0 t t'] extends_trans [of "adjList t0" "adjList t" "adjList t'"]
    by (simp add: merge_inv_def)
  with t' show ?thesis by blast
qed

text \<open>The three cases of the merge.\<close>

lemma on_links_Inr: "f (adjList t) = Inr a \<Longrightarrow> on_links f t = Inr (t\<lparr>adjList := a\<rparr>)"
  by (simp add: on_links_def)

lemma new_pointer:
  assumes "topo_wf s P t" "ptr_to (adjList t) s v = Some p" "\<forall>f b. calc f b \<noteq> 0"
  shows "\<exists>a1 a2. set_counterpart p (ptr_to (adjList t) v s) (adjList t) = Inr a1 \<and> calculate calc p a1 = Inr a2 \<and>
    shape a2 = shape (adjList t) \<and> links_ok s (P - {v}) a2"
  using pair_step [of "adjList t" s P v p calc] assms by (auto simp: topo_wf_def)

lemma keep_link_ok:
  assumes "merge_inv s P t0 (fs_topo f) n" "NodeId_ok (neighbor l)" "ptr_to (adjList t0) s (neighbor l) = Some p"
    and "\<forall>f b. te_calculate env f b \<noteq> 0"
  shows "\<exists>f'. keep_link env s v p l m f = Inr f' \<and> merge_inv s (P - {neighbor l}) t0 (fs_topo f') (n + 1)"
proof -
  obtain t1 where t1: "neighbor_entry env s (neighbor l) (Some v) (fs_topo f) = Inr (ptr_to (adjList t1) (neighbor l) s, t1)"
    "merge_inv s P t0 t1 (n + 1)" using neighbor_entry_merge [OF assms(1,2)] by blast
  have "topo_wf s P t1" "ptr_to (adjList t1) s (neighbor l) = Some p" using t1(2) assms(3) by (simp_all add: merge_inv_def)
  from new_pointer [OF this assms(4)] obtain a1 a2 where
    a: "set_counterpart p (ptr_to (adjList t1) (neighbor l) s) (adjList t1) = Inr a1" "calculate (te_calculate env) p a1 = Inr a2"
      "shape a2 = shape (adjList t1)" "links_ok s (P - {neighbor l}) a2" by blast
  have "merge_inv s (P - {neighbor l}) t0 (t1\<lparr>adjList := a2\<rparr>) (n + 1)"
    "merge_inv s (P - {neighbor l}) t0 (t1\<lparr>adjList := a2, dirty := True\<rparr>) (n + 1)"
    by (rule merge_inv_links [OF t1(2) a(3,4)]; simp add: frameI)+
  then show ?thesis using t1(1) a(1,2) by (simp add: keep_link_def on_links_def)
qed

lemma new_link_ok:
  assumes "merge_inv s P t0 (fs_topo f) n" "NodeId_ok (neighbor l)" "ptr_to (adjList t0) s (neighbor l) = Some p"
    and "\<forall>f b. te_calculate env f b \<noteq> 0"
  shows "\<exists>f'. new_link env s node v p l f = Inr f' \<and> merge_inv s (P - {neighbor l}) t0 (fs_topo f') (n + 1)"
proof -
  obtain t1 where t1: "neighbor_entry env s (neighbor l) (Some v) (fs_topo f) = Inr (ptr_to (adjList t1) (neighbor l) s, t1)"
    "merge_inv s P t0 t1 (n + 1)" using neighbor_entry_merge [OF assms(1,2)] by blast
  have "topo_wf s P t1" "ptr_to (adjList t1) s (neighbor l) = Some p" using t1(2) assms(3) by (simp_all add: merge_inv_def)
  from new_pointer [OF this assms(4)] obtain a1 a2 where
    a: "set_counterpart p (ptr_to (adjList t1) (neighbor l) s) (adjList t1) = Inr a1" "calculate (te_calculate env) p a1 = Inr a2"
      "shape a2 = shape (adjList t1)" "links_ok s (P - {neighbor l}) a2" by blast
  let ?t2 = "(sendLinkAdded s (neighbor l) (t1\<lparr>adjList := a1\<rparr>))\<lparr>dirty := True, adjList := a2\<rparr>"
  let ?t3 = "if s = myNodeId ?t2 then emit [MetricAddNode node] ?t2 else ?t2"
  have "\<exists>x. new_link env s node v p l f = Inr \<lparr>fs_topo = ?t3, fs_xml = x, fs_changed = True\<rparr>"
    using t1(1) a(1,2) by (simp add: new_link_def on_links_def Let_def)
  moreover have "merge_inv s (P - {neighbor l}) t0 ?t3 (n + 1)"
    by (rule merge_inv_links [OF t1(2) a(3,4)]) (simp_all add: sendLinkAdded_def emit_def frameI)
  ultimately show ?thesis by auto
qed

lemma old_link_ok:
  assumes "merge_inv s P t0 (fs_topo f) n" "NodeId_ok (neighbor m)" "ptr_to (adjList t0) s (neighbor m) = None"
  shows "\<exists>f'. old_link env s node m f = Inr f' \<and> merge_inv s (P - {neighbor m}) t0 (fs_topo f') (n + 1)"
proof -
  obtain t1 where t1: "neighbor_entry env s (neighbor m) None (fs_topo f) = Inr (ptr_to (adjList t1) (neighbor m) s, t1)"
    "merge_inv s P t0 t1 (n + 1)" using neighbor_entry_merge [OF assms(1,2)] by blast
  have wf: "adj_wf (adjList t1)" "links_ok s P (adjList t1)" "ptr_to (adjList t1) s (neighbor m) = None"
    using t1(2) assms(3) by (simp_all add: merge_inv_def topo_wf_def)
  have "\<exists>a. (case ptr_to (adjList t1) (neighbor m) s of None \<Rightarrow> Inr t1 | Some p \<Rightarrow> on_links (set_counterpart p None) t1) =
      Inr (t1\<lparr>adjList := a\<rparr>) \<and> shape a = shape (adjList t1) \<and> links_ok s (P - {neighbor m}) a"
  proof (cases "ptr_to (adjList t1) (neighbor m) s")
    case None
    then show ?thesis using absent_step [OF wf None] by (intro exI [of _ "adjList t1"]) simp
  next
    case (Some p)
    then show ?thesis using removed_step [OF wf Some] by (auto simp: on_links_def)
  qed
  then obtain a where a: "(case ptr_to (adjList t1) (neighbor m) s of None \<Rightarrow> Inr t1 | Some p \<Rightarrow> on_links (set_counterpart p None) t1) =
      Inr (t1\<lparr>adjList := a\<rparr>)" "shape a = shape (adjList t1)" "links_ok s (P - {neighbor m}) a" by blast
  let ?t2 = "(sendLinkRemoved s (neighbor m) (t1\<lparr>adjList := a\<rparr>))\<lparr>dirty := True\<rparr>"
  let ?t3 = "if s = myNodeId ?t2 then emit [MetricDelNode node] ?t2 else ?t2"
  have "\<exists>x. old_link env s node m f = Inr \<lparr>fs_topo = ?t3, fs_xml = x, fs_changed = True\<rparr>"
    using t1(1) a(1) by (simp add: old_link_def Let_def)
  moreover have "merge_inv s (P - {neighbor m}) t0 ?t3 (n + 1)"
    by (rule merge_inv_links [OF t1(2) a(2,3)]) (simp_all add: sendLinkRemoved_def emit_def frameI)
  ultimately show ?thesis by auto
qed

lemma merge_inv_le: "merge_inv s P t0 t n \<Longrightarrow> n \<le> m \<Longrightarrow> merge_inv s P t0 t m"
  by (simp add: merge_inv_def)

text \<open>
  What the loop knows of the remaining new and old links: both are ordered, the new ones are in
  the buffer, and an old one without a new one is no longer a link of the source.
\<close>

definition merge_pre :: "AdjList \<Rightarrow> NodeId \<Rightarrow> nat \<Rightarrow> nat \<Rightarrow> LinkQuality list \<Rightarrow> LinkQuality list \<Rightarrow> bool" where
  "merge_pre a s b k ls ms \<longleftrightarrow> sorted_wrt (<) (map neighbor ls) \<and> sorted_wrt (<) (map neighbor ms) \<and>
     (\<forall>i < length ls. ptr_to a s (neighbor (ls ! i)) = Some (b, k + i)) \<and>
     (\<forall>m \<in> set ms. neighbor m \<in> neighbor ` set ls \<or> ptr_to a s (neighbor m) = None) \<and>
     (\<forall>l \<in> set ls \<union> set ms. NodeId_ok (neighbor l))"

lemma merge_pre_first:
  assumes "merge_pre a s b k (l # ls) ms"
  shows "ptr_to a s (neighbor l) = Some (b, k)" "NodeId_ok (neighbor l)"
    "\<forall>i < length ls. ptr_to a s (neighbor (ls ! i)) = Some (b, Suc k + i)"
proof -
  have at: "ptr_to a s (neighbor ((l # ls) ! i)) = Some (b, k + i)" if "i \<le> length ls" for i
    using assms that by (simp add: merge_pre_def less_Suc_eq_le)
  show "ptr_to a s (neighbor l) = Some (b, k)" using at [of 0] by simp
  show "\<forall>i < length ls. ptr_to a s (neighbor (ls ! i)) = Some (b, Suc k + i)" using at [of "Suc _"] by simp
  show "NodeId_ok (neighbor l)" using assms by (simp add: merge_pre_def)
qed

lemma less_hd_less:
  fixes x :: "'a::linorder"
  assumes "sorted_wrt (<) (map g ms)" "ms = [] \<or> x < g (hd ms)" "m \<in> set ms"
  shows "x < g m"
  using assms by (cases ms) (auto dest: less_trans)

lemma merge_pre_new:
  assumes "merge_pre a s b k (l # ls) ms" "ms = [] \<or> neighbor l < neighbor (hd ms)"
  shows "merge_pre a s b (Suc k) ls ms"
proof -
  have "neighbor l < neighbor m" if "m \<in> set ms" for m
    using less_hd_less [where g = neighbor, OF _ assms(2) that] assms(1) by (simp add: merge_pre_def)
  then show ?thesis
    using assms(1) merge_pre_first(3) [OF assms(1)] by (fastforce simp: merge_pre_def)
qed

lemma merge_pre_keep:
  assumes "merge_pre a s b k (l # ls) (m # ms)" "neighbor l = neighbor m"
  shows "merge_pre a s b (Suc k) ls ms"
proof -
  have "neighbor m < neighbor m'" if "m' \<in> set ms" for m' using assms(1) that by (simp add: merge_pre_def)
  then show ?thesis
    using assms merge_pre_first(3) [OF assms(1)] by (fastforce simp: merge_pre_def)
qed

lemma merge_pre_old:
  assumes "merge_pre a s b k ls (m # ms)" "ls = [] \<or> neighbor m < neighbor (hd ls)"
  shows "merge_pre a s b k ls ms" "ptr_to a s (neighbor m) = None" "NodeId_ok (neighbor m)"
proof -
  have "neighbor m < neighbor l" if "l \<in> set ls" for l
    using less_hd_less [where g = neighbor, OF _ assms(2) that] assms(1) by (simp add: merge_pre_def)
  then show "merge_pre a s b k ls ms" "ptr_to a s (neighbor m) = None" "NodeId_ok (neighbor m)"
    using assms(1) by (fastforce simp: merge_pre_def)+
qed

lemma feed_merge_ok:
  assumes "\<forall>f b. te_calculate env f b \<noteq> 0" "merge_inv s P t0 (fs_topo f) n" "merge_pre (adjList t0) s b k ls ms"
  shows "\<exists>f'. feed_merge env s node v b k ls ms f = Inr f' \<and>
    merge_inv s (P - neighbor ` set ls - neighbor ` set ms) t0 (fs_topo f') (n + length ls + length ms)"
  using assms
proof (induction env s node v b k ls ms f arbitrary: P n rule: feed_merge.induct)
  case (1 env s node v b k f)
  then show ?case by auto
next
  case (2 env s node v b k l ls f)
  note first = merge_pre_first [OF "2.prems"(3)] and pre = merge_pre_new [OF "2.prems"(3)]
  obtain f1 where f1: "new_link env s node v (b, k) l f = Inr f1" "merge_inv s (P - {neighbor l}) t0 (fs_topo f1) (n + 1)"
    using new_link_ok [OF "2.prems"(2) first(2,1) "2.prems"(1)] by blast
  have "P - {neighbor l} - neighbor ` set ls - neighbor ` set [] = P - neighbor ` set (l # ls) - neighbor ` set []" by auto
  with "2.IH" [OF "2.prems"(1) f1(2) pre] f1(1) show ?case by simp
next
  case (3 env s node v b k m ms f)
  note old = merge_pre_old [OF "3.prems"(3)]
  obtain f1 where f1: "old_link env s node m f = Inr f1" "merge_inv s (P - {neighbor m}) t0 (fs_topo f1) (n + 1)"
    using old_link_ok [OF "3.prems"(2) old(3,2)] by blast
  have "P - {neighbor m} - neighbor ` set [] - neighbor ` set ms = P - neighbor ` set [] - neighbor ` set (m # ms)" by auto
  with "3.IH" [OF "3.prems"(1) f1(2) old(1)] f1(1) show ?case by simp
next
  case (4 env s node v b k l ls m ms f)
  note first = merge_pre_first [OF "4.prems"(3)]
  consider "neighbor l = neighbor m" | "neighbor l < neighbor m" | "neighbor m < neighbor l" by force
  then show ?case
  proof cases
    case 1
    obtain f1 where f1: "keep_link env s v (b, k) l m f = Inr f1" "merge_inv s (P - {neighbor l}) t0 (fs_topo f1) (n + 1)"
      using keep_link_ok [OF "4.prems"(2) first(2,1) "4.prems"(1)] by blast
    from "4.IH"(1) [OF 1 "4.prems"(1) f1(2) merge_pre_keep [OF "4.prems"(3) 1]] obtain f' where
      "feed_merge env s node v b (Suc k) ls ms f1 = Inr f'"
      "merge_inv s (P - {neighbor l} - neighbor ` set ls - neighbor ` set ms) t0 (fs_topo f') (n + 1 + length ls + length ms)" by blast
    moreover have "P - {neighbor l} - neighbor ` set ls - neighbor ` set ms = P - neighbor ` set (l # ls) - neighbor ` set (m # ms)"
      using 1 by auto
    ultimately show ?thesis
      using 1 f1(1) merge_inv_le [of s _ t0 "fs_topo f'" "n + 1 + length ls + length ms" "n + length (l # ls) + length (m # ms)"] by simp
  next
    case 2
    obtain f1 where f1: "new_link env s node v (b, k) l f = Inr f1" "merge_inv s (P - {neighbor l}) t0 (fs_topo f1) (n + 1)"
      using new_link_ok [OF "4.prems"(2) first(2,1) "4.prems"(1)] by blast
    have ne: "neighbor l \<noteq> neighbor m" using 2 by simp
    have "P - {neighbor l} - neighbor ` set ls - neighbor ` set (m # ms) = P - neighbor ` set (l # ls) - neighbor ` set (m # ms)"
      by auto
    then show ?thesis
      using "4.IH"(2) [OF ne 2 "4.prems"(1) f1(2) merge_pre_new [OF "4.prems"(3)]] 2 ne f1(1) by simp
  next
    case 3
    note old = merge_pre_old [OF "4.prems"(3)]
    obtain f1 where f1: "old_link env s node m f = Inr f1" "merge_inv s (P - {neighbor m}) t0 (fs_topo f1) (n + 1)"
      using old_link_ok [OF "4.prems"(2) old(3,2)] 3 by auto
    have ne: "neighbor l \<noteq> neighbor m" "\<not> neighbor l < neighbor m" using 3 by auto
    have "P - {neighbor m} - neighbor ` set (l # ls) - neighbor ` set ms = P - neighbor ` set (l # ls) - neighbor ` set (m # ms)"
      by auto
    then show ?thesis
      using "4.IH"(3) [OF ne "4.prems"(1) f1(2) old(1)] 3 ne f1(1) by simp
  qed
qed

end
