(* ===== verification/Topo_Update.thy ===== *)
theory Topo_Update
  imports Topo_Inv
begin

text \<open>
  The operations of the topology keep its invariant and return: \<open>feed\<close> on well-formed packets,
  \<open>removeOldNodes\<close>, \<open>updateTopology\<close> and \<open>reset\<close>.  The last part is the connection to the
  kernel: the table \<open>updateTopology\<close> writes is ordered the way the kernel module searches it.
\<close>

section \<open>Well-formed packets\<close>

definition packet_links :: "BasePacket \<Rightarrow> LinkQuality list" where
  "packet_links p = map (\<lambda>k. LinkQuality_new (fst (topo_entry (buffer p) k)) (snd (topo_entry (buffer p) k))) [0..<getNumLinks p]"

definition topo_packet_ok :: "topo_env \<Rightarrow> BasePacket \<Rightarrow> bool" where
  "topo_packet_ok env p \<longleftrightarrow> OffsetLinks + 1 \<le> psize p \<and> OffsetLinks + getNumLinks p * 8 \<le> psize p \<and>
     getValidity (te_duration env) p > 0 \<and> sorted_wrt (<) (map neighbor (packet_links p)) \<and>
     (\<forall>l \<in> set (packet_links p). lq_quality l \<noteq> 0)"

lemma parse_links_ok:
  assumes "\<forall>i < k + m. snd (topo_entry buf i) \<noteq> 0"
    and "\<forall>i < k + m. \<forall>j < i. fst (topo_entry buf j) < fst (topo_entry buf i)"
    and "link = (\<lambda>k. LinkQuality_new (fst (topo_entry buf k)) (snd (topo_entry buf k)))"
  shows "\<exists>node'. parse_links buf (OffsetLinks + 8 * k) m (map link [0..<k]) node =
    Inr (map link [0..<k + m], node', OffsetLinks + 8 * (k + m))"
  using assms(1,2)
proof (induction m arbitrary: k node)
  case (Suc m)
  let ?node = "NodeId_fromArray (mem_read buf (OffsetLinks + 8 * k) 6)"
    and ?q = "fromArray (mem_read buf (OffsetLinks + 8 * k + 6) 2) :: link_quality_t"
  have e: "topo_entry buf k = (?node, ?q)" by (simp add: topo_entry_def)
  have q: "?q \<noteq> 0" using Suc.prems(1) e by (metis add_Suc_right less_add_Suc1 snd_conv)
  have "neighbor (List.last (map link [0..<k])) < ?node" if "k \<noteq> 0"
    using Suc.prems(2) [rule_format, of k "k - 1"] that e by (simp add: last_map assms(3) LinkQuality_new_def)
  then have ord: "\<not> (map link [0..<k] \<noteq> [] \<and> neighbor (List.last (map link [0..<k])) \<ge> ?node)"
    by (cases "k = 0") (simp_all add: not_le)
  have addr: "OffsetLinks + 8 * k + 6 + 2 = OffsetLinks + 8 * Suc k" by simp
  have "map link [0..<k] @ [LinkQuality_new ?node ?q] = map link [0..<Suc k]" using e by (simp add: assms(3))
  then have "parse_links buf (OffsetLinks + 8 * k) (Suc m) (map link [0..<k]) node =
      parse_links buf (OffsetLinks + 8 * Suc k) m (map link [0..<Suc k]) ?node"
    using q ord addr by (simp only: parse_links.simps Let_def if_False)
  with Suc.IH [of "Suc k" ?node] Suc.prems show ?case by simp
qed simp

lemma parse_packet:
  assumes "topo_packet_ok env p"
  shows "\<exists>node. parse_links (buffer p) OffsetLinks (getNumLinks p) [] NodeId_default =
    Inr (packet_links p, node, OffsetLinks + 8 * getNumLinks p)"
proof -
  have "\<forall>i < 0 + getNumLinks p. snd (topo_entry (buffer p) i) \<noteq> 0"
    using assms by (auto simp: topo_packet_ok_def packet_links_def LinkQuality_new_def)
  moreover have "\<forall>i < 0 + getNumLinks p. \<forall>j < i. fst (topo_entry (buffer p) j) < fst (topo_entry (buffer p) i)"
    using assms by (auto simp: topo_packet_ok_def packet_links_def LinkQuality_new_def sorted_wrt_iff_nth_less)
  ultimately show ?thesis
    using parse_links_ok [of 0 "getNumLinks p" "buffer p" _ NodeId_default] by (auto simp: packet_links_def)
qed

lemma packet_links_props:
  "length (packet_links p) = getNumLinks p" "length (packet_links p) \<le> 255"
  "\<forall>l \<in> set (packet_links p). NodeId_ok (neighbor l)" "\<forall>l \<in> set (packet_links p). counterpart l = None"
proof -
  have "getNumLinks p < 256" unfolding getNumLinks_def by (rule unat_byte_less)
  then show "length (packet_links p) = getNumLinks p" "length (packet_links p) \<le> 255"
    by (simp_all add: packet_links_def)
  show "\<forall>l \<in> set (packet_links p). NodeId_ok (neighbor l)" "\<forall>l \<in> set (packet_links p). counterpart l = None"
    by (auto simp: packet_links_def LinkQuality_new_def topo_entry_def)
qed

section \<open>Removing what is outdated\<close>

definition cleared :: "NodeId \<Rightarrow> NodeId set \<Rightarrow> AdjList \<Rightarrow> AdjList \<Rightarrow> bool" where
  "cleared i V a b \<longleftrightarrow> shape b = shape a \<and>
     (\<forall>x y. link_of b x y = map_option (\<lambda>l. if x = i \<and> y \<in> V \<or> y = i \<and> x \<in> V then l\<lparr>counterpart := None\<rparr> else l) (link_of a x y))"

lemma clearedD:
  assumes "cleared i V a b"
  shows "shape b = shape a" "link_of b x y = map_option (\<lambda>l. if x = i \<and> y \<in> V \<or> y = i \<and> x \<in> V then l\<lparr>counterpart := None\<rparr> else l) (link_of a x y)"
  using assms by (simp_all add: cleared_def)

lemma remove_reference_cleared:
  assumes wf: "adj_wf a" and p: "ptr_to a i v = Some p"
    and l: "\<forall>l. link_of a i v = Some l \<longrightarrow> counterpart l = ptr_to a v i"
  shows "\<exists>b. remove_reference p a = Inr b \<and> cleared i {v} a b"
proof -
  obtain k where k: "link_of a i v = Some k" "lq_read p a = Inr k" using lq_read_ptr_to [OF wf p] by blast
  let ?f = "\<lambda>l. l\<lparr>counterpart := None\<rparr>"
  show ?thesis
  proof (cases "ptr_to a v i")
    case None
    then have n: "link_of a v i = None" "counterpart k = None" using ptr_to_None [OF wf] k l by auto
    then have "?f k = k" by simp
    have "link_of a x y = map_option (\<lambda>l. if x = i \<and> y \<in> {v} \<or> y = i \<and> x \<in> {v} then ?f l else l) (link_of a x y)" for x y
    proof (cases "link_of a x y")
      case (Some m)
      then have "\<not> (y = i \<and> x = v)" using n(1) by auto
      moreover have "m = k" if "x = i \<and> y = v" using that Some k(1) by simp
      ultimately show ?thesis using Some \<open>?f k = k\<close> by (cases "x = i \<and> y = v") (simp_all, blast)
    qed simp
    then show ?thesis using k n(2) by (simp add: remove_reference_def cleared_def)
  next
    case (Some q)
    obtain b where b: "lq_modify q ?f a = Inr b" "changed_link v i ?f a b" using lq_modify_ptr_to [OF wf Some, of ?f] by auto
    have sh: "shape b = shape a" using b(2) by (simp add: changed_link_def)
    obtain c where c: "lq_modify p ?f b = Inr c" "changed_link i v ?f b c"
      using lq_modify_ptr_to [of b i v p ?f] adj_wf_shape [OF sh] ptr_to_shape [OF sh] wf p by auto
    have "on_pair i v (\<lambda>x y. ?f) a c" by (rule changed_links_pair [OF b(2) c(2)]) auto
    note D = on_pairD [OF this]
    have "link_of c x y = map_option (\<lambda>l. if x = i \<and> y \<in> {v} \<or> y = i \<and> x \<in> {v} then ?f l else l) (link_of a x y)" for x y
      using D(2) [of x y] by (cases "x = i"; cases "y = v"; cases "y = i"; cases "x = v") (simp_all add: option.map_ident)
    then have "cleared i {v} a c" using D(1) by (simp add: cleared_def)
    then show ?thesis using Some b(1) c(1) k l by (simp add: remove_reference_def)
  qed
qed

lemma cleared_trans:
  assumes "cleared i V a b" "cleared i W b c"
  shows "cleared i (V \<union> W) a c"
proof -
  have "link_of c x y = map_option (\<lambda>l. if x = i \<and> y \<in> V \<union> W \<or> y = i \<and> x \<in> V \<union> W then l\<lparr>counterpart := None\<rparr> else l) (link_of a x y)" for x y
    using clearedD(2) [OF assms(1), of x y] clearedD(2) [OF assms(2), of x y] by (cases "link_of a x y") auto
  then show ?thesis using clearedD(1) [OF assms(1)] clearedD(1) [OF assms(2)] by (simp add: cleared_def)
qed

lemma remove_references_cleared:
  assumes "adj_wf a" "distinct vs" "\<forall>j < length vs. ptr_to a i (vs ! j) = Some (b, k + j)"
    and "\<forall>v \<in> set vs. \<forall>l. link_of a i v = Some l \<longrightarrow> counterpart l = ptr_to a v i"
  shows "\<exists>a'. remove_references b k (length vs) a = Inr a' \<and> cleared i (set vs) a a'"
  using assms
proof (induction vs arbitrary: a k)
  case Nil
  then show ?case by (simp add: cleared_def option.map_ident)
next
  case (Cons v vs)
  have p: "ptr_to a i v = Some (b, k)" using Cons.prems(3) by fastforce
  obtain a1 where a1: "remove_reference (b, k) a = Inr a1" "cleared i {v} a a1"
    using remove_reference_cleared [OF Cons.prems(1) p] Cons.prems(4) by auto
  note sh = clearedD(1) [OF a1(2)]
  have "counterpart l = ptr_to a1 x i" if "x \<in> set vs" "link_of a1 i x = Some l" for x l
  proof -
    have "x \<noteq> v" using Cons.prems(2) that(1) by auto
    then have "link_of a i x = Some l \<or> x = i \<and> v = i"
      using clearedD(2) [OF a1(2), of i x] that(2) by (cases "link_of a i x") auto
    then show ?thesis using Cons.prems(4) that(1) ptr_to_shape [OF sh] \<open>x \<noteq> v\<close> by auto
  qed
  moreover have "\<forall>j < length vs. ptr_to a1 i (vs ! j) = Some (b, Suc k + j)"
    using Cons.prems(3) ptr_to_shape [OF sh] by fastforce
  ultimately obtain a2 where a2: "remove_references b (Suc k) (length vs) a1 = Inr a2" "cleared i (set vs) a1 a2"
    using Cons.IH [of a1 "Suc k"] Cons.prems(1,2) adj_wf_shape [OF sh] by auto
  have "cleared i (set (v # vs)) a a2" using cleared_trans [OF a1(2) a2(2)] by simp
  with a1(1) a2(1) show ?case by simp
qed

lemma link_of_emptied:
  "link_of (om_adjust i (\<lambda>d. d\<lparr>linklist := []\<rparr>) a) x y = (if x = i then None else link_of a x y)"
  "ptr_to (om_adjust i (\<lambda>d. d\<lparr>linklist := []\<rparr>) a) x y = (if x = i then None else ptr_to a x y)"
proof -
  have "findLinkQuality y (d\<lparr>linklist := []\<rparr>) = None" for d :: NDescr
    using findLinkQuality_None [of "d\<lparr>linklist := []\<rparr>" y] by simp
  then show "link_of (om_adjust i (\<lambda>d. d\<lparr>linklist := []\<rparr>) a) x y = (if x = i then None else link_of a x y)"
    "ptr_to (om_adjust i (\<lambda>d. d\<lparr>linklist := []\<rparr>) a) x y = (if x = i then None else ptr_to a x y)"
    by (simp_all add: AdjList_find_link_def ptr_to_def om_find_adjust split: option.split)
qed

lemma links_ok_emptied:
  assumes ok: "links_ok s {} a" and wf: "adj_wf a" and c: "cleared i {v. link_of a i v \<noteq> None} a b"
  shows "links_ok s {} (om_adjust i (\<lambda>d. d\<lparr>linklist := []\<rparr>) b)" (is "links_ok s {} ?c")
proof -
  have "weight_ok (metric_weight l) \<and> paired ?c x y l" if l: "link_of ?c x y = Some l" for x y l
  proof -
    have x: "x \<noteq> i" "link_of b x y = Some l" using l by (simp_all add: link_of_emptied split: if_splits)
    then obtain k where k: "link_of a x y = Some k" "l = (if y = i \<and> link_of a i x \<noteq> None then k\<lparr>counterpart := None\<rparr> else k)"
      using clearedD(2) [OF c, of x y] by (cases "link_of a x y") auto
    have P: "weight_ok (metric_weight k)" "counterpart k = ptr_to a y x"
      "\<forall>l'. link_of a y x = Some l' \<longrightarrow> metric_weight l' = metric_weight k"
      using links_okD [OF ok k(1)] by (auto simp: paired_def)
    have ptr: "ptr_to ?c y x = (if y = i then None else ptr_to a y x)"
      by (simp add: link_of_emptied ptr_to_shape [OF clearedD(1) [OF c]])
    have "counterpart l = ptr_to ?c y x"
      using k(2) P(2) ptr ptr_to_None [OF wf, of i x] by auto
    moreover have "metric_weight l' = metric_weight l" if "link_of ?c y x = Some l'" for l'
    proof -
      have "y \<noteq> i" "link_of b y x = Some l'" using that by (simp_all add: link_of_emptied split: if_splits)
      then show ?thesis using clearedD(2) [OF c, of y x] P(3) k(2) x(1) by (cases "link_of a y x") auto
    qed
    ultimately show ?thesis using P(1) k(2) by (simp add: paired_def)
  qed
  then show ?thesis by (simp add: links_ok_def)
qed

text \<open>All links of a node lose their references, then the list is emptied.\<close>

lemma remove_all_references:
  assumes "topo_wf s {} t" "om_find i (adjList t) = Some d"
  shows "\<exists>b. remove_references (ll_buffer d) 0 (length (linklist d)) (adjList t) = Inr b \<and>
    cleared i {v. link_of (adjList t) i v \<noteq> None} (adjList t) b"
proof -
  let ?a = "adjList t" and ?vs = "map neighbor (linklist d)"
  have wf: "adj_wf ?a" "links_ok s {} ?a" using assms(1) by (simp_all add: topo_wf_def)
  have sorted: "sorted_wrt (<) ?vs" by (rule adj_wfD(2) [OF wf(1) assms(2)])
  have "\<forall>j < length ?vs. ptr_to ?a i (?vs ! j) = Some (ll_buffer d, 0 + j)"
    using findLinkQuality_sorted [OF sorted] assms(2) by (simp add: ptr_to_def)
  moreover have "distinct ?vs" using sorted by (simp add: strict_sorted_iff)
  moreover have "\<forall>v \<in> set ?vs. \<forall>l. link_of ?a i v = Some l \<longrightarrow> counterpart l = ptr_to ?a v i"
    using links_okD(2) [OF wf(2)] by (auto simp: paired_def)
  ultimately obtain b where "remove_references (ll_buffer d) 0 (length ?vs) ?a = Inr b" "cleared i (set ?vs) ?a b"
    using remove_references_cleared [OF wf(1)] by blast
  moreover have "v \<in> set ?vs \<longleftrightarrow> link_of ?a i v \<noteq> None" for v
    using ptr_to_None [OF wf(1), of i v] findLinkQuality_None [OF sorted, of v] assms(2) by (auto simp: ptr_to_def)
  then have "set ?vs = {v. link_of ?a i v \<noteq> None}" by blast
  ultimately show ?thesis by simp
qed

definition emptied :: "NDescr \<Rightarrow> NDescr" where
  "emptied d = d\<lparr>linklist := []\<rparr>"

lemma topo_wf_emptied:
  assumes "topo_wf s {} t" "shape b = shape (adjList t)" "links_ok s {} (om_adjust i emptied b)"
    and "adjList t' = om_adjust i emptied b" "next_buffer t' = next_buffer t"
  shows "topo_wf s {} t'"
proof -
  have b: "adj_wf b" "\<forall>n \<in> set b. node_ok (next_buffer t) n"
    using assms(1) adj_wf_shape [OF assms(2)] node_ok_shape [OF assms(2)] by (simp_all add: topo_wf_def)
  have "map (ll_buffer \<circ> snd) (om_adjust i emptied b) = map (ll_buffer \<circ> snd) b"
    by (simp add: om_adjust_def case_prod_beta emptied_def)
  moreover have "\<forall>(j, d) \<in> set (om_adjust i emptied b). sorted_wrt (<) (map neighbor (linklist d))"
    using b(1) by (auto simp: adj_wf_def om_adjust_def emptied_def)
  ultimately have "adj_wf (om_adjust i emptied b)" using b(1) by (simp add: adj_wf_def)
  moreover have "\<forall>n \<in> set (om_adjust i emptied b). node_ok (next_buffer t) n"
    using b(2) by (auto simp: om_adjust_def node_ok_def emptied_def split: if_splits)
  ultimately show ?thesis using assms(3-5) by (simp add: topo_wf_def)
qed

lemma shape_adjust_emptied: "shape (om_adjust i emptied b) = om_adjust i emptied (shape b)"
  by (auto simp: shape_def om_adjust_def emptied_def)

lemma fold_sendLinkRemoved [simp]:
  "adjList (fold (sendLinkRemoved i) ns t) = adjList t" "next_buffer (fold (sendLinkRemoved i) ns t) = next_buffer t"
  "dirty (fold (sendLinkRemoved i) ns t) = dirty t"
  by (induction ns arbitrary: t) auto

lemma frame_fold: "frame t (fold (sendLinkRemoved i) ns t)"
  by (induction ns arbitrary: t) (auto intro: frame_trans [OF frame_send(2)])

lemma remove_edges_ok:
  assumes "topo_wf s {} (rs_topo r)" "om_find i (adjList (rs_topo r)) = Some d"
  shows "\<exists>r'. remove_edges i d r = Inr r' \<and> topo_wf s {} (rs_topo r') \<and> frame (rs_topo r) (rs_topo r') \<and>
    shape (adjList (rs_topo r')) = om_adjust i emptied (shape (adjList (rs_topo r))) \<and> dirty (rs_topo r') = dirty (rs_topo r)"
proof -
  let ?t = "rs_topo r" and ?a = "adjList (rs_topo r)"
  obtain b where b: "remove_references (ll_buffer d) 0 (length (linklist d)) ?a = Inr b"
    "cleared i {v. link_of ?a i v \<noteq> None} ?a b" using remove_all_references [OF assms] by blast
  have sh: "shape b = shape ?a" by (rule clearedD(1) [OF b(2)])
  have ok: "links_ok s {} (om_adjust i emptied b)"
    using links_ok_emptied [OF _ _ b(2)] assms(1) by (simp add: topo_wf_def emptied_def [abs_def])
  define t1 where "t1 = (if xml_subscribed ?t \<or> linkObservers ?t \<noteq> []
    then fold (sendLinkRemoved i) (map neighbor (linklist d)) (?t\<lparr>adjList := b\<rparr>) else ?t\<lparr>adjList := b\<rparr>)"
  have t1: "adjList t1 = b" "next_buffer t1 = next_buffer ?t" "dirty t1 = dirty ?t" "frame ?t t1"
    by (auto simp: t1_def intro: frame_trans [OF frame_updates(1) frame_fold])
  have "\<exists>r'. remove_edges i d r = Inr r' \<and> rs_topo r' = on_node i emptied t1"
    using b(1) by (auto simp: remove_edges_def on_links_def Let_def t1_def emptied_def [abs_def])
  moreover have "adjList (on_node i emptied t1) = om_adjust i emptied b" "next_buffer (on_node i emptied t1) = next_buffer ?t"
    "dirty (on_node i emptied t1) = dirty ?t" using t1 by (simp_all add: on_node_def)
  moreover have "frame ?t (on_node i emptied t1)" using frame_trans [OF t1(4)] by simp
  ultimately show ?thesis
    using topo_wf_emptied [OF assms(1) sh ok] sh shape_adjust_emptied [of i b] by auto
qed

lemma remove_node_ok:
  assumes "topo_wf s {} (rs_topo r)" "om_find i (adjList (rs_topo r)) = Some d" "linklist d = []"
  shows "topo_wf s {} (rs_topo (remove_node i r)) \<and> frame (rs_topo r) (rs_topo (remove_node i r)) \<and>
    adjList (rs_topo (remove_node i r)) = om_erase i (adjList (rs_topo r)) \<and> dirty (rs_topo (remove_node i r)) = dirty (rs_topo r)"
proof -
  let ?t = "rs_topo r" and ?a = "adjList (rs_topo r)"
  have wf: "adj_wf ?a" "\<forall>n \<in> set ?a. node_ok (next_buffer ?t) n" "links_ok s {} ?a"
    using assms(1) by (simp_all add: topo_wf_def)
  have e: "rs_topo (remove_node i r) = sendNodeRemoved i (?t\<lparr>adjList := om_erase i ?a\<rparr>)"
    by (simp add: remove_node_def Let_def)
  have "findLinkQuality y d = None" for y using findLinkQuality_None [of d y] assms(3) by simp
  then have "link_of (om_erase i ?a) x y = link_of ?a x y" "ptr_to (om_erase i ?a) x y = ptr_to ?a x y" for x y
    using assms(2,3) by (simp_all add: AdjList_find_link_def ptr_to_def om_find_erase)
  then have "links_ok s {} (om_erase i ?a)" by (rule links_ok_same [OF wf(3)])
  moreover have "adj_wf (om_erase i ?a)"
    using wf(1) om_erase_ok [of ?a i] by (auto simp: adj_wf_def om_erase_def distinct_map inj_on_subset)
  ultimately show ?thesis
    using wf(2) frame_trans [OF frame_updates(1) frame_send(3)] by (auto simp: e topo_wf_def om_erase_def)
qed

text \<open>What is left at time \<open>now\<close>.\<close>

fun purge :: "int \<Rightarrow> AdjList \<Rightarrow> AdjList" where
  "purge now [] = []"
| "purge now ((i, d) # a) =
     (if nodeValidity d \<le> now then purge now a
      else (i, if edgeValidity d \<le> now then emptied d else d) # purge now a)"

lemma shape_append [simp]: "shape (a @ b) = shape a @ shape b"
  by (simp add: shape_def)

lemma shape_Cons: "shape ((i, d) # a) = (i, d\<lparr>linklist := map link_shape (linklist d)\<rparr>) # shape a"
  by (simp add: shape_def)

lemma shape_erase: "shape (om_erase i a) = om_erase i (shape a)"
  by (induction a) (auto simp: shape_def om_erase_def)

lemma keys_shape [simp]: "map fst (shape a) = map fst a"
  by (simp add: shape_def case_prod_beta)

lemma om_middle:
  assumes "i \<notin> fst ` set A" "i \<notin> fst ` set B"
  shows "om_adjust i f (A @ (i, d) # B) = A @ (i, f d) # B" "om_erase i (A @ (i, d) # B) = A @ B"
    "om_find i (A @ (i, d) # B) = Some d"
proof -
  have "om_adjust i f C = C" "om_erase i C = C" "om_find i C = None" if "i \<notin> fst ` set C" for C
    using that by (induction C) (auto simp: om_adjust_def om_erase_def om_find_def)
  then show "om_adjust i f (A @ (i, d) # B) = A @ (i, f d) # B" "om_erase i (A @ (i, d) # B) = A @ B"
    "om_find i (A @ (i, d) # B) = Some d"
    using assms by (auto simp: om_adjust_def om_erase_def om_find_def map_add_def split: option.splits)
qed

text \<open>One round of the loop, on a list split before the current node.\<close>

lemma remove_round:
  assumes "topo_wf s {} (rs_topo r)" "shape (adjList (rs_topo r)) = shape (A @ (i, d0) # B)"
    and "now = lastEventTime (rs_topo r)"
  shows "\<exists>r'. remove_loop (i # is) r = remove_loop is r' \<and> topo_wf s {} (rs_topo r') \<and> frame (rs_topo r) (rs_topo r') \<and>
    dirty (rs_topo r') = dirty (rs_topo r) \<and> shape (adjList (rs_topo r')) = shape (A @ purge now [(i, d0)] @ B)"
proof -
  let ?a = "adjList (rs_topo r)" and ?d0 = "d0\<lparr>linklist := map link_shape (linklist d0)\<rparr>"
  have "map fst ?a = map fst (A @ (i, d0) # B)" using assms(2) by (metis keys_shape)
  moreover have "distinct (map fst ?a)" using assms(1) by (simp add: topo_wf_def adj_wf_def om_ok_distinct)
  ultimately have i: "i \<notin> fst ` set (shape A)" "i \<notin> fst ` set (shape B)"
    by (auto simp: shape_def case_prod_beta image_comp comp_def)
  have sh: "shape ?a = shape A @ (i, ?d0) # shape B" using assms(2) by (simp add: shape_Cons)
  then have "om_find i (shape ?a) = Some ?d0" using om_middle(3) [OF i] by simp
  then obtain d where d: "om_find i ?a = Some d" "d\<lparr>linklist := map link_shape (linklist d)\<rparr> = ?d0"
    by (auto simp: om_find_shape)
  from arg_cong [OF d(2), of edgeValidity] arg_cong [OF d(2), of nodeValidity]
  have v: "edgeValidity d = edgeValidity d0" "nodeValidity d = nodeValidity d0" by simp_all
  have le: "edgeValidity d \<le> nodeValidity d" using assms(1) om_find_Some_mem [OF d(1)] by (auto simp: topo_wf_def node_ok_def)
  obtain r1 where r1: "(if edgeValidity d \<le> now then remove_edges i d r else Inr r) = Inr r1" "topo_wf s {} (rs_topo r1)"
    "frame (rs_topo r) (rs_topo r1)" "dirty (rs_topo r1) = dirty (rs_topo r)"
    "shape (adjList (rs_topo r1)) = shape A @ (i, if edgeValidity d0 \<le> now then emptied ?d0 else ?d0) # shape B"
    using remove_edges_ok [OF assms(1) d(1)] assms(1) om_middle(1) [OF i, of emptied ?d0] sh v(1)
    by (cases "edgeValidity d \<le> now") auto
  show ?thesis
  proof (cases "nodeValidity d \<le> now")
    case True
    then have e: "edgeValidity d0 \<le> now" using le v by simp
    have "om_find i (shape (adjList (rs_topo r1))) = Some (emptied ?d0)" using r1(5) e om_middle(3) [OF i] by simp
    then obtain d1 where d1: "om_find i (adjList (rs_topo r1)) = Some d1" "linklist d1 = []"
      by (auto simp: om_find_shape emptied_def dest!: arg_cong [where f = linklist])
    have n: "topo_wf s {} (rs_topo (remove_node i r1))" "frame (rs_topo r1) (rs_topo (remove_node i r1))"
      "adjList (rs_topo (remove_node i r1)) = om_erase i (adjList (rs_topo r1))" "dirty (rs_topo (remove_node i r1)) = dirty (rs_topo r1)"
      using remove_node_ok [OF r1(2) d1] by auto
    have "shape (adjList (rs_topo (remove_node i r1))) = shape (A @ purge now [(i, d0)] @ B)"
      using True v(2) r1(5) n(3) om_middle(2) [OF i] by (simp add: shape_erase)
    then show ?thesis
      using d(1) r1(1,4) n(1,4) True frame_trans [OF r1(3) n(2)] assms(3) by (intro exI [of _ "remove_node i r1"]) (simp add: Let_def)
  next
    case False
    then have "shape (adjList (rs_topo r1)) = shape (A @ purge now [(i, d0)] @ B)"
      using v(2) r1(5) by (simp add: shape_Cons emptied_def)
    then show ?thesis
      using d(1) r1 False assms(3) by (auto simp: Let_def)
  qed
qed

lemma remove_loop_ok:
  assumes "topo_wf s {} (rs_topo r)" "shape (adjList (rs_topo r)) = shape (A @ B)" "now = lastEventTime (rs_topo r)"
  shows "\<exists>r'. remove_loop (map fst B) r = Inr r' \<and> topo_wf s {} (rs_topo r') \<and> frame (rs_topo r) (rs_topo r') \<and>
    dirty (rs_topo r') = dirty (rs_topo r) \<and> shape (adjList (rs_topo r')) = shape (A @ purge now B)"
  using assms
proof (induction B arbitrary: r A)
  case (Cons n B)
  obtain i d0 where n: "n = (i, d0)" by force
  from remove_round [of s r A i d0 B now "map fst B"] Cons.prems n obtain r1 where
    r1: "remove_loop (map fst (n # B)) r = remove_loop (map fst B) r1" "topo_wf s {} (rs_topo r1)"
      "frame (rs_topo r) (rs_topo r1)" "dirty (rs_topo r1) = dirty (rs_topo r)"
      "shape (adjList (rs_topo r1)) = shape ((A @ purge now [(i, d0)]) @ B)" by auto
  have "lastEventTime (rs_topo r1) = now" using frameD(1) [OF r1(3)] Cons.prems(3) by simp
  with Cons.IH [OF r1(2,5)] obtain r2 where
    r2: "remove_loop (map fst B) r1 = Inr r2" "topo_wf s {} (rs_topo r2)" "frame (rs_topo r1) (rs_topo r2)"
      "dirty (rs_topo r2) = dirty (rs_topo r1)" "shape (adjList (rs_topo r2)) = shape ((A @ purge now [(i, d0)]) @ purge now B)" by auto
  moreover have "purge now [(i, d0)] @ purge now B = purge now (n # B)" by (simp add: n)
  ultimately show ?case using r1 frame_trans [OF r1(3) r2(3)] by (metis append.assoc)
qed auto

lemma removeOldNodes_ok:
  assumes "topo_wf s {} t" "adjList t \<noteq> []"
  shows "\<exists>nt t'. removeOldNodes env t = Inr (nt, t') \<and> topo_wf s {} t' \<and> frame t t' \<and> dirty t' = dirty t \<and>
    shape (adjList t') = shape (if locked t then adjList t else purge (lastEventTime t) (adjList t))"
proof (cases "locked t")
  case True
  then show ?thesis using assms by (simp add: removeOldNodes_def)
next
  case False
  let ?r = "\<lparr>rs_topo = t, rs_edges = [], rs_nodes = [], rs_removed = False, rs_timeout = lastEventTime t + te_duration env 31415 10\<rparr>"
  from remove_loop_ok [of s ?r "[]" "adjList t" "lastEventTime t"] assms(1) obtain r where
    r: "remove_loop (map fst (adjList t)) ?r = Inr r" "topo_wf s {} (rs_topo r)" "frame t (rs_topo r)" "dirty (rs_topo r) = dirty t"
      "shape (adjList (rs_topo r)) = shape (purge (lastEventTime t) (adjList t))" by auto
  let ?t = "if xml_subscribed (rs_topo r) \<and> rs_removed r
    then sendLinksChanged (sendNodesChanged (emit [XmlTopologyDelta (rs_edges r @ rs_nodes r)] (rs_topo r))) else rs_topo r"
  have "removeOldNodes env t = Inr (rs_timeout r, ?t)"
    using False assms(2) r(1) by (simp add: removeOldNodes_def Let_def)
  moreover have "adjList ?t = adjList (rs_topo r)" "next_buffer ?t = next_buffer (rs_topo r)" "dirty ?t = dirty (rs_topo r)" by simp_all
  moreover have "frame (rs_topo r) ?t"
    using frame_trans [OF frame_trans [OF frame_updates(4) frame_send(4)] frame_send(5)] by simp
  ultimately show ?thesis
    using r False frame_trans [OF r(3)] topo_wf_cong [of ?t "rs_topo r" s "{}"] by (intro exI [of _ "rs_timeout r"] exI [of _ ?t]) simp
qed

section \<open>Recomputing the routes keeps the topology\<close>

definition routing_shape :: "AdjList \<Rightarrow> AdjList" where
  "routing_shape a = map (\<lambda>(i, d). (i, d\<lparr>nextHop := NodeId_default, prevHop := NodeId_default, distance := 0\<rparr>)) a"

lemma routing_shape_adjust:
  assumes "\<And>d. (f d)\<lparr>nextHop := NodeId_default, prevHop := NodeId_default, distance := 0\<rparr> =
    d\<lparr>nextHop := NodeId_default, prevHop := NodeId_default, distance := 0\<rparr>"
  shows "routing_shape (om_adjust i f a) = routing_shape a"
  using assms by (auto simp: routing_shape_def om_adjust_def)

lemma relax_keeps: "relax u ls a = Inr b \<Longrightarrow> routing_shape b = routing_shape a"
proof (induction u ls a rule: relax.induct)
  case (2 nearest l ls a)
  then show ?case by (auto simp: Let_def routing_shape_adjust split: if_splits option.splits)
qed simp

lemma calc_loop_keeps: "calc_loop srt todo a = Some r \<Longrightarrow> \<forall>b. r = Inr b \<longrightarrow> routing_shape b = routing_shape a"
proof (induction rule: calc_loop.raw_induct [rotated, consumes 1])
  case (1 calc_loop srt todo a y)
  show ?case
    using 1(2) by (auto simp: Let_def split: if_splits option.splits sum.splits dest!: 1(1) relax_keeps)
qed

lemma calcNextHop_keeps: "calcNextHop s i a = Some r \<Longrightarrow> \<forall>b. r = Inr b \<longrightarrow> routing_shape b = routing_shape a"
proof (induction rule: calcNextHop.raw_induct [rotated, consumes 1])
  case (1 calcNextHop s i a y)
  show ?case
    using 1(2)
    by (auto simp: routing_shape_adjust split: if_splits option.splits sum.splits Option.bind_splits dest!: 1(1))
qed

lemma calcNextHops_keeps: "calcNextHops s is a = Some (Inr b) \<Longrightarrow> routing_shape b = routing_shape a"
  by (induction s "is" a rule: calcNextHops.induct) (auto split: option.splits sum.splits dest!: calcNextHop_keeps)

lemma calcRoutes_keeps: "calcRoutes srt s a = Some (Inr b) \<Longrightarrow> routing_shape b = routing_shape a"
proof -
  have "routing_shape (calc_init s a) = routing_shape a" by (auto simp: routing_shape_def calc_init_def)
  then show "calcRoutes srt s a = Some (Inr b) \<Longrightarrow> routing_shape b = routing_shape a"
    by (auto simp: calcRoutes_def Let_def split: if_splits option.splits sum.splits dest!: calc_loop_keeps calcNextHops_keeps)
qed

lemma om_find_routing_shape: "om_find i (routing_shape a) =
    map_option (\<lambda>d. d\<lparr>nextHop := NodeId_default, prevHop := NodeId_default, distance := 0\<rparr>) (om_find i a)"
  by (induction a) (auto simp: om_find_def routing_shape_def)

lemma routing_shape_same:
  assumes "routing_shape b = routing_shape a"
  shows "link_of b x y = link_of a x y" "ptr_to b x y = ptr_to a x y" "adj_wf b = adj_wf a"
    "(\<forall>n \<in> set b. node_ok nb n) = (\<forall>n \<in> set a. node_ok nb n)" "length b = length a" "map fst b = map fst a"
proof -
  let ?f = "\<lambda>d :: NDescr. d\<lparr>nextHop := NodeId_default, prevHop := NodeId_default, distance := 0\<rparr>"
  have R: "link_of (routing_shape c) x y = link_of c x y" "ptr_to (routing_shape c) x y = ptr_to c x y"
    "adj_wf (routing_shape c) = adj_wf c" "(\<forall>n \<in> set (routing_shape c). node_ok nb n) = (\<forall>n \<in> set c. node_ok nb n)"
    "length (routing_shape c) = length c" "map fst (routing_shape c) = map fst c" for c x y
  proof -
    have "findLinkQuality v (?f d) = findLinkQuality v d" for v d by (rule findLinkQuality_cong) simp_all
    then show "link_of (routing_shape c) x y = link_of c x y" "ptr_to (routing_shape c) x y = ptr_to c x y"
      by (simp_all add: AdjList_find_link_def ptr_to_def om_find_routing_shape split: option.split)
    show keys: "map fst (routing_shape c) = map fst c" "length (routing_shape c) = length c"
      by (simp_all add: routing_shape_def case_prod_beta)
    have "map (ll_buffer \<circ> snd) (routing_shape c) = map (ll_buffer \<circ> snd) c" by (simp add: routing_shape_def case_prod_beta)
    moreover have "(\<forall>(i, d) \<in> set (routing_shape c). sorted_wrt (<) (map neighbor (linklist d))) =
        (\<forall>(i, d) \<in> set c. sorted_wrt (<) (map neighbor (linklist d)))"
      by (simp add: routing_shape_def case_prod_beta)
    ultimately show "adj_wf (routing_shape c) = adj_wf c" using keys(1) by (simp only: adj_wf_def om_ok_def)
    show "(\<forall>n \<in> set (routing_shape c). node_ok nb n) = (\<forall>n \<in> set c. node_ok nb n)"
      by (auto simp: routing_shape_def node_ok_def)
  qed
  show "link_of b x y = link_of a x y" "ptr_to b x y = ptr_to a x y" "adj_wf b = adj_wf a"
    "(\<forall>n \<in> set b. node_ok nb n) = (\<forall>n \<in> set a. node_ok nb n)" "length b = length a" "map fst b = map fst a"
    using R [where c = b] R [where c = a] assms by simp_all
qed

lemma topo_wf_routes:
  assumes "topo_wf s P t" "routing_shape a = routing_shape (adjList t)" "adjList t' = a" "next_buffer t' = next_buffer t"
  shows "topo_wf s P t'"
proof -
  note R = routing_shape_same [OF assms(2)]
  have "links_ok s P a" using links_ok_same [OF _ R(1,2)] assms(1) by (simp add: topo_wf_def)
  then show ?thesis using assms(1,3,4) R(3,4) by (simp add: topo_wf_def)
qed

lemma link_in_list:
  assumes "adj_wf a" "(i, d) \<in> set a" "l \<in> set (linklist d)"
  shows "link_of a i (neighbor l) = Some l"
proof -
  have d: "om_find i a = Some d" using assms(1,2) om_find_mem [of a i d] by (simp add: adj_wf_def)
  then have dist: "distinct (map neighbor (linklist d))" using adj_wfD(2) [OF assms(1) d] by (simp add: strict_sorted_iff)
  obtain k where k: "k < length (linklist d)" "linklist d ! k = l" using assms(3) by (auto simp: in_set_conv_nth)
  from find_update [OF dist k(1), of id "neighbor l"] k(2) list_update_id [of "linklist d" k]
  show ?thesis using d by (simp add: AdjList_find_link_def)
qed

lemma weights_ok_topo:
  assumes "topo_wf s {} t"
  shows "weights_ok (graph_of (adjList t))"
proof -
  have "weight_ok (metric_weight l)" if "(i, d) \<in> set (adjList t)" "l \<in> set (linklist d)" for i d l
    using assms links_okD(1) [of s "{}" "adjList t" i "neighbor l" l] link_in_list [OF _ that] by (simp add: topo_wf_def)
  then show ?thesis by (auto simp: weights_ok_def graph_of_def weight_ok_def)
qed

lemma topo_inv_frame: "frame t t' \<Longrightarrow> topo_wf s {} t' \<Longrightarrow> topo_inv t'"
  using links_ok_empty [of s "adjList t'" "myNodeId t'"] by (simp add: topo_inv_def topo_wf_def)

lemma topo_wf_any: "topo_inv t \<longleftrightarrow> topo_wf s {} t"
  using links_ok_empty [of s "adjList t" "myNodeId t"] by (simp add: topo_inv_def topo_wf_def)

text \<open>
  What \<open>updateTopology\<close> leaves: the invariant, the nodes that are valid, and routes.
\<close>

lemma updateTopology_keeps:
  assumes "topo_inv t" "updateTopology env t = Some (Inr t')"
  shows "topo_inv t' \<and> frame t t' \<and> \<not> dirty t' \<and>
    routing_shape (shape (adjList t')) = routing_shape (shape (if locked t then adjList t else purge (lastEventTime t) (adjList t)))"
proof -
  have ne: "adjList t \<noteq> []"
    using assms(2) by (auto simp: updateTopology_def removeOldNodes_def split: if_splits)
  have wf0: "topo_wf (myNodeId t) {} t" using assms(1) by (simp add: topo_inv_def)
  from removeOldNodes_ok [OF wf0 ne, of env] obtain nt t1 where
    t1: "removeOldNodes env t = Inr (nt, t1)" "topo_wf (myNodeId t) {} t1" "frame t t1"
      "shape (adjList t1) = shape (if locked t then adjList t else purge (lastEventTime t) (adjList t))" by blast
  obtain a where a: "calcRoutes (te_sort env) (myNodeId t1) (adjList t1) = Some (Inr a)"
    "t' = (if linuxbasic_cb t1 then emit [KernelUpdate (topology_data a)] (t1\<lparr>adjList := a, dirty := False\<rparr>) else t1\<lparr>adjList := a, dirty := False\<rparr>)"
    using assms(2) t1(1) by (auto simp: updateTopology_def Let_def split: option.splits sum.splits)
  have rs: "routing_shape a = routing_shape (adjList t1)" by (rule calcRoutes_keeps [OF a(1)])
  have t': "adjList t' = a" "next_buffer t' = next_buffer t1" "\<not> dirty t'" "frame t1 t'"
    using a(2) by (auto simp: emit_def intro!: frameI)
  have "routing_shape (shape c) = shape (routing_shape c)" for c by (auto simp: routing_shape_def shape_def)
  then have "routing_shape (shape a) = routing_shape (shape (adjList t1))" using rs by simp
  with t' t1(4) topo_wf_routes [OF t1(2) rs t'(1,2)] frame_trans [OF t1(3) t'(4)] show ?thesis
    using topo_wf_any by simp
qed

lemma length_purge: "length (purge now a) \<le> length a"
  by (induction now a rule: purge.induct) auto

lemma om_find_purge:
  "om_ok a \<Longrightarrow> om_find i (purge now a) = (case om_find i a of None \<Rightarrow> None
     | Some d \<Rightarrow> if nodeValidity d \<le> now then None else Some (if edgeValidity d \<le> now then emptied d else d))"
proof (induction now a rule: purge.induct)
  case (2 now j d a)
  have "om_find j a = None" using "2.prems" by (auto simp: om_find_None)
  then show ?case using 2 by (auto simp: om_find_def split: option.splits)
qed (simp add: om_find_def)

lemma updateTopology_returns:
  assumes "topo_inv t" "std_sort (te_sort env)" "length (adjList t) \<le> 1024"
    and "om_find (myNodeId t) (adjList t) = Some d" "lastEventTime t < nodeValidity d"
  shows "\<exists>t'. updateTopology env t = Some (Inr t') \<and> routes (myNodeId t) (adjList t') \<and>
    (linuxbasic_cb t \<longrightarrow> List.last (topo_log t') = KernelUpdate (topology_data (adjList t')))"
proof -
  let ?p = "if locked t then adjList t else purge (lastEventTime t) (adjList t)"
  have ne: "adjList t \<noteq> []" using assms(4) by (auto simp: om_find_def)
  have wf0: "topo_wf (myNodeId t) {} t" using assms(1) by (simp add: topo_inv_def)
  from removeOldNodes_ok [OF wf0 ne, of env] obtain nt t1 where
    t1: "removeOldNodes env t = Inr (nt, t1)" "topo_wf (myNodeId t) {} t1" "frame t t1" "shape (adjList t1) = shape ?p" by blast
  have ok: "om_ok (adjList t)" "om_ok (adjList t1)" using wf0 t1(2) by (simp_all add: topo_wf_def adj_wf_def)
  have "om_find (myNodeId t) ?p \<noteq> None" using om_find_purge [OF ok(1)] assms(4,5) by simp
  then have "om_find (myNodeId t) (shape ?p) \<noteq> None" by (simp only: om_find_shape map_option_is_None not_False_eq_True)
  then have self: "om_find (myNodeId t) (adjList t1) \<noteq> None"
    using om_find_shape [of "myNodeId t" "adjList t1"] t1(4) by simp
  have "length (shape (adjList t1)) = length (shape ?p)" using t1(4) by simp
  then have "length (adjList t1) \<le> 1024"
    using length_purge [of "lastEventTime t" "adjList t"] assms(3) by (simp add: shape_def split: if_splits)
  from calcRoutes_routes [OF assms(2) ok(2) self weights_ok_topo [OF t1(2)] this] obtain a where
    "calcRoutes (te_sort env) (myNodeId t) (adjList t1) = Some (Inr a)" "routes (myNodeId t) a" by blast
  then show ?thesis
    using t1(1) frameD(2,7) [OF t1(3)] by (simp add: updateTopology_def Let_def emit_def)
qed

section \<open>Feeding a packet\<close>

text \<open>The node of the source with its new links in a fresh buffer.\<close>

definition renewed :: "int \<Rightarrow> LinkQuality list \<Rightarrow> nat \<Rightarrow> NDescr \<Rightarrow> NDescr" where
  "renewed v links b d = (update_nodeValidity v d)\<lparr>edgeValidity := v, linklist := links, ll_buffer := b\<rparr>"

lemma renewed_simps [simp]:
  "linklist (renewed v links b d) = links" "ll_buffer (renewed v links b d) = b" "edgeValidity (renewed v links b d) = v"
  "nodeValidity (renewed v links b d) = max v (nodeValidity d)"
  by (simp_all add: renewed_def update_nodeValidity_def max_def)

lemma links_of_renewed:
  assumes "om_find s a = Some d"
  shows "link_of (om_adjust s (renewed v links b) a) x y =
      (if x = s then find (\<lambda>l. neighbor l = y) links else link_of a x y)"
    "x \<noteq> s \<Longrightarrow> ptr_to (om_adjust s (renewed v links b) a) x y = ptr_to a x y"
  using assms by (simp_all add: AdjList_find_link_def ptr_to_def om_find_adjust)

lemma ptr_to_renewed:
  assumes "om_find s a = Some d" "sorted_wrt (<) (map neighbor links)"
  shows "k < length links \<Longrightarrow> ptr_to (om_adjust s (renewed v links b) a) s (neighbor (links ! k)) = Some (b, k)"
    "y \<notin> neighbor ` set links \<Longrightarrow> ptr_to (om_adjust s (renewed v links b) a) s y = None"
  using assms findLinkQuality_sorted [of "renewed v links b d"] findLinkQuality_None [of "renewed v links b d" y]
  by (simp_all add: ptr_to_def om_find_adjust)

lemma links_ok_renewed:
  assumes ok: "links_ok s {} a" and wf: "adj_wf a" and d: "om_find s a = Some d" "sorted_wrt (<) (map neighbor links)"
    and P: "P = neighbor ` set links \<union> neighbor ` set (linklist d)"
  shows "links_ok s P (om_adjust s (renewed v links b) a)" (is "links_ok s P ?b")
proof -
  note L = links_of_renewed [OF d(1), where v = v and links = links and b = b]
  have new: "y \<in> P" if "link_of ?b s y = Some l" for y l
    using that L(1) [of s y] P by (auto simp: find_Some_iff)
  have "(x = s \<and> y \<in> P \<or> weight_ok (metric_weight l)) \<and> (x = s \<and> y \<in> P \<or> y = s \<and> x \<in> P \<or> paired ?b x y l)"
    if l: "link_of ?b x y = Some l" for x y l
  proof (cases "x = s")
    case True
    then show ?thesis using new l by blast
  next
    case False
    then have a: "link_of a x y = Some l" using l L(1) by simp
    from links_okD [OF ok a] have old: "weight_ok (metric_weight l)" "counterpart l = ptr_to a y x"
      "\<forall>l'. link_of a y x = Some l' \<longrightarrow> metric_weight l' = metric_weight l" by (auto simp: paired_def)
    have "paired ?b x y l" if "\<not> (y = s \<and> x \<in> P)"
    proof (cases "y = s")
      case True
      then have x: "x \<notin> neighbor ` set links" "x \<notin> neighbor ` set (linklist d)" using that P by auto
      then have "ptr_to ?b s x = None" using ptr_to_renewed(2) [OF d] by simp
      moreover have "ptr_to a s x = None" using x(2) findLinkQuality_None [OF adj_wfD(2) [OF wf d(1)]] d(1) by (simp add: ptr_to_def)
      moreover have "link_of ?b s x = None" using x(1) L(1) [of s x] by (auto simp: find_None_iff)
      ultimately show ?thesis using True old(2) by (simp add: paired_def)
    next
      case y: False
      then show ?thesis using old L(1) [of y x] L(2) [of y x] by (simp add: paired_def)
    qed
    then show ?thesis using old(1) by blast
  qed
  then show ?thesis by (simp add: links_ok_def)
qed

lemma adj_wf_renewed:
  assumes wf: "adj_wf a" and d: "om_find s a = Some d" "sorted_wrt (<) (map neighbor links)"
    and b: "\<forall>n \<in> set a. ll_buffer (snd n) < b"
  shows "adj_wf (om_adjust s (renewed v links b) a)"
proof -
  have inj: "inj_on (ll_buffer \<circ> snd) (set a)" "distinct a" "distinct (map fst a)"
    using wf om_ok_distinct by (auto simp: adj_wf_def distinct_map)
  let ?g = "\<lambda>n. if fst n = s then b else ll_buffer (snd n)"
  have "inj_on ?g (set a)"
  proof (rule inj_onI)
    fix m n
    assume mn: "m \<in> set a" "n \<in> set a" "?g m = ?g n"
    have "ll_buffer (snd m) < b" "ll_buffer (snd n) < b" using b mn by auto
    then have "fst m = s \<longleftrightarrow> fst n = s" using mn(3) by (auto split: if_splits)
    then show "m = n"
      using mn inj(1,3) inj_onD [OF inj(1)] by (cases "fst m = s") (auto simp: distinct_map dest: inj_onD)
  qed
  moreover have "map (ll_buffer \<circ> snd) (om_adjust s (renewed v links b) a) = map ?g a"
    by (auto simp: om_adjust_def)
  ultimately have "distinct (map (ll_buffer \<circ> snd) (om_adjust s (renewed v links b) a))"
    using inj(2) by (simp only: distinct_map)
  moreover have "\<forall>(i, d) \<in> set (om_adjust s (renewed v links b) a). sorted_wrt (<) (map neighbor (linklist d))"
    using wf d(2) by (auto simp: adj_wf_def om_adjust_def)
  ultimately show ?thesis using wf by (simp add: adj_wf_def)
qed

text \<open>The state in which the merge begins.\<close>

lemma merge_start:
  assumes wf: "topo_wf s {} t" and d: "om_find s (adjList t) = Some d"
    and links: "sorted_wrt (<) (map neighbor links)" "length links \<le> 255" "\<forall>l \<in> set links. NodeId_ok (neighbor l)"
    and t': "adjList t' = om_adjust s (renewed v links (next_buffer t)) (adjList t)" "next_buffer t' = next_buffer t + 1"
    and P: "P = neighbor ` set links \<union> neighbor ` set (linklist d)"
  shows "topo_wf s P t'" "merge_pre (adjList t') s (next_buffer t) 0 links (linklist d)"
proof -
  let ?a = "adjList t"
  have w: "adj_wf ?a" "\<forall>n \<in> set ?a. node_ok (next_buffer t) n" "links_ok s {} ?a" using wf by (simp_all add: topo_wf_def)
  have "\<forall>n \<in> set ?a. ll_buffer (snd n) < next_buffer t" using w(2) by (auto simp: node_ok_def)
  note a = adj_wf_renewed [OF w(1) d links(1) this]
  have nd: "node_ok (next_buffer t) (s, d)" using w(2) om_find_Some_mem [OF d] by auto
  have "\<forall>n \<in> set (om_adjust s (renewed v links (next_buffer t)) ?a). node_ok (next_buffer t + 1) n"
  proof
    fix n
    assume "n \<in> set (om_adjust s (renewed v links (next_buffer t)) ?a)"
    then obtain i e where n: "(i, e) \<in> set ?a" "n = (i, if i = s then renewed v links (next_buffer t) e else e)"
      by (auto simp: om_adjust_def)
    then have "node_ok (next_buffer t) (i, e)" using w(2) by blast
    then show "node_ok (next_buffer t + 1) n" using n(2) links(2,3) by (simp add: node_ok_def)
  qed
  then show "topo_wf s P t'"
    using a links_ok_renewed [OF w(3,1) d links(1) P] t' by (simp add: topo_wf_def)
  have "sorted_wrt (<) (map neighbor (linklist d))" by (rule adj_wfD(2) [OF w(1) d])
  moreover have "ptr_to (adjList t') s y = None" if "y \<notin> neighbor ` set links" for y
    using ptr_to_renewed(2) [OF d links(1) that] t'(1) by simp
  moreover have "\<forall>i < length links. ptr_to (adjList t') s (neighbor (links ! i)) = Some (next_buffer t, 0 + i)"
    using ptr_to_renewed(1) [OF d links(1)] t'(1) by simp
  ultimately show "merge_pre (adjList t') s (next_buffer t) 0 links (linklist d)"
    using links(1,3) nd by (fastforce simp: merge_pre_def node_ok_def)
qed

lemma feed_name_ok:
  assumes "topo_wf s {} (fs_topo f)" "om_find s (adjList (fs_topo f)) \<noteq> None"
  shows "\<exists>f'. feed_name s p addr f = Inr f' \<and> topo_wf s {} (fs_topo f') \<and> frame (fs_topo f) (fs_topo f') \<and>
    extends (adjList (fs_topo f)) (adjList (fs_topo f')) \<and> dirty (fs_topo f') = dirty (fs_topo f) \<and>
    length (adjList (fs_topo f')) = length (adjList (fs_topo f))"
proof (cases "parse_name p addr")
  case None
  then show ?thesis using assms(1) by (simp add: feed_name_def)
next
  case (Some name)
  let ?t = "fs_topo f" and ?f = "\<lambda>d. d\<lparr>nodeName := name\<rparr>"
  let ?t' = "on_node s ?f ?t"
  obtain d where d: "om_find s (adjList ?t) = Some d" using assms(2) by auto
  have "topo_wf s {} ?t'"
  proof -
    have w: "adj_wf (adjList ?t)" "\<forall>n \<in> set (adjList ?t). node_ok (next_buffer ?t) n" "links_ok s {} (adjList ?t)"
      using assms(1) by (simp_all add: topo_wf_def)
    have "links_ok s {} (om_adjust s ?f (adjList ?t))"
      by (rule links_ok_same [OF w(3)]) (simp_all add: link_of_adjust ptr_to_adjust)
    moreover have "\<forall>n \<in> set (om_adjust s ?f (adjList ?t)). node_ok (next_buffer ?t) n"
      using w(2) by (auto simp: om_adjust_def node_ok_def split: if_splits)
    ultimately show ?thesis using w(1) by (simp add: topo_wf_def on_node_def adj_wf_adjust)
  qed
  moreover have "extends (adjList ?t) (adjList ?t')"
    unfolding on_node_def by (simp, rule extends_adjust) (simp add: node_extends_def)
  moreover have "dirty ?t' = dirty ?t" "length (adjList ?t') = length (adjList ?t)" by (simp_all add: on_node_def om_adjust_def)
  moreover obtain n where "getNameOfNode s (adjList ?t') = Inr n"
    using getNameOfNode_ok [of s "adjList ?t'"] d by (auto simp: on_node_def om_find_adjust)
  ultimately show ?thesis using Some d by (simp add: feed_name_def Let_def)
qed

lemma feed_notify_simps [simp]:
  "adjList (feed_notify f) = adjList (fs_topo f)" "next_buffer (feed_notify f) = next_buffer (fs_topo f)"
  "dirty (feed_notify f) = dirty (fs_topo f)"
  by (simp_all add: feed_notify_def Let_def)

lemma frame_notify: "frame (fs_topo f) (feed_notify f)"
  by (rule frameI) (simp_all add: feed_notify_def Let_def emit_def sendLinksChanged_def)

lemma om_adjust_twice: "om_adjust i f (om_adjust i g a) = om_adjust i (\<lambda>d. f (g d)) a"
  by (auto simp: om_adjust_def)

text \<open>The links of the packet, once they are merged.\<close>

definition source_links :: "AdjList \<Rightarrow> NodeId \<Rightarrow> (NodeId \<times> link_quality_t) list option" where
  "source_links a s = map_option (\<lambda>d. map (\<lambda>l. (neighbor l, lq_quality l)) (linklist d)) (om_find s a)"

lemma extends_source_links:
  assumes "extends a b" "source_links a s = Some es"
  shows "source_links b s = Some es"
proof -
  from assms(2) obtain d where d0: "om_find s a = Some d" "es = map (\<lambda>l. (neighbor l, lq_quality l)) (linklist d)"
    by (auto simp: source_links_def)
  with assms(1) obtain d' where d: "om_find s b = Some d'" "node_extends d d'" by (auto simp: extends_def)
  have "map (\<lambda>l. (neighbor l, lq_quality l)) (map link_shape (linklist d')) =
      map (\<lambda>l. (neighbor l, lq_quality l)) (map link_shape (linklist d))" using d(2) by (simp add: node_extends_def)
  then show ?thesis using d0 d(1) by (simp add: source_links_def link_shape_def comp_def)
qed

lemma feed_links_ok:
  assumes inv: "topo_wf s {} t1" and d: "om_find s (adjList t1) = Some d"
    and p: "topo_packet_ok env p" and calc: "\<forall>f b. te_calculate env f b \<noteq> 0"
    and t3: "adjList t3 = om_adjust s (renewed v r (next_buffer t1)) (adjList t1)" "next_buffer t3 = next_buffer t1 + 1"
  shows "\<exists>t5. feed_links env p s v (linklist d) (next_buffer t1) t3 = (if dirty t5 then updateTopology env t5 else Some (Inr t5)) \<and>
    topo_wf s {} t5 \<and> frame t3 t5 \<and> extends (om_adjust s (renewed v (packet_links p) (next_buffer t1)) (adjList t1)) (adjList t5) \<and>
    (dirty t3 \<longrightarrow> dirty t5) \<and> length (adjList t5) \<le> length (adjList t1) + 510"
proof -
  let ?b = "next_buffer t1" and ?ls = "packet_links p"
  let ?t = "if s = myNodeId t3 then emit [MetricBeginUpdate] t3 else t3"
  define t4 where "t4 = on_node s (\<lambda>d. d\<lparr>linklist := ?ls\<rparr>) ?t"
  have "adjList t4 = om_adjust s (\<lambda>e. (renewed v r ?b e)\<lparr>linklist := ?ls\<rparr>) (adjList t1)"
    by (simp add: t4_def on_node_def t3(1) om_adjust_twice)
  moreover have "(\<lambda>e. (renewed v r ?b e)\<lparr>linklist := ?ls\<rparr>) = renewed v ?ls ?b" by (simp add: fun_eq_iff renewed_def)
  ultimately have a4: "adjList t4 = om_adjust s (renewed v ?ls ?b) (adjList t1)" by simp
  have n4: "next_buffer t4 = next_buffer t1 + 1" "frame t3 t4" "dirty t4 = dirty t3" "length (adjList t4) = length (adjList t1)"
    by (auto simp: t4_def on_node_def t3(2) om_adjust_def a4 [unfolded t4_def on_node_def] t3(1) emit_def intro!: frameI)
  have sorted: "sorted_wrt (<) (map neighbor ?ls)" using p by (simp add: topo_packet_ok_def)
  define P where "P = neighbor ` set ?ls \<union> neighbor ` set (linklist d)"
  note M = merge_start [OF inv d sorted packet_links_props(2,3) a4 n4(1) P_def]
  obtain node where node: "parse_links (buffer p) OffsetLinks (getNumLinks p) [] NodeId_default =
      Inr (?ls, node, OffsetLinks + 8 * getNumLinks p)" using parse_packet [OF p] by blast
  have "merge_inv s P t4 (fs_topo \<lparr>fs_topo = t4, fs_xml = [], fs_changed = False\<rparr>) 0" using M(1) by (simp add: merge_inv_def)
  from feed_merge_ok [OF calc this M(2), of node v] obtain f where
    f: "feed_merge env s node v ?b 0 ?ls (linklist d) \<lparr>fs_topo = t4, fs_xml = [], fs_changed = False\<rparr> = Inr f"
      "merge_inv s (P - neighbor ` set ?ls - neighbor ` set (linklist d)) t4 (fs_topo f) (length ?ls + length (linklist d))" by auto
  have "P - neighbor ` set ?ls - neighbor ` set (linklist d) = {}" by (auto simp: P_def)
  with f(2) have m: "topo_wf s {} (fs_topo f)" "frame t4 (fs_topo f)" "extends (adjList t4) (adjList (fs_topo f))"
    "dirty t4 \<longrightarrow> dirty (fs_topo f)" "length (adjList (fs_topo f)) \<le> length (adjList t4) + (length ?ls + length (linklist d))"
    by (simp_all add: merge_inv_def)
  define f1 where "f1 = (if s = myNodeId ?t then f\<lparr>fs_topo := emit [MetricEndUpdate] (fs_topo f)\<rparr> else f)"
  have f1: "adjList (fs_topo f1) = adjList (fs_topo f)" "next_buffer (fs_topo f1) = next_buffer (fs_topo f)"
    "dirty (fs_topo f1) = dirty (fs_topo f)" "frame (fs_topo f) (fs_topo f1)" by (simp_all add: f1_def)
  have "om_find s (adjList t4) \<noteq> None" using d by (simp add: a4 om_find_adjust)
  then have "om_find s (adjList (fs_topo f1)) \<noteq> None" using m(3) f1(1) by (auto simp: extends_def)
  moreover have "topo_wf s {} (fs_topo f1)" using m(1) topo_wf_cong [OF f1(1,2)] by simp
  ultimately obtain f2 where f2: "feed_name s p (OffsetLinks + 8 * getNumLinks p) f1 = Inr f2" "topo_wf s {} (fs_topo f2)"
    "frame (fs_topo f1) (fs_topo f2)" "extends (adjList (fs_topo f1)) (adjList (fs_topo f2))" "dirty (fs_topo f2) = dirty (fs_topo f1)"
    "length (adjList (fs_topo f2)) = length (adjList (fs_topo f1))" using feed_name_ok by blast
  have "node_ok (next_buffer t1) (s, d)" using inv om_find_Some_mem [OF d] by (auto simp: topo_wf_def)
  then have "length (linklist d) \<le> 255" by (simp add: node_ok_def)
  then have "length (adjList (feed_notify f2)) \<le> length (adjList t1) + 510"
    using m(5) f1(1) f2(6) n4(4) packet_links_props(2) [of p] by simp
  moreover have "topo_wf s {} (feed_notify f2)" using f2(2) topo_wf_cong [of "feed_notify f2" "fs_topo f2"] by simp
  moreover have "frame t3 (feed_notify f2)"
    using frame_trans [OF frame_trans [OF frame_trans [OF frame_trans [OF n4(2) m(2)] f1(4)] f2(3)] frame_notify] .
  moreover have "extends (adjList t4) (adjList (feed_notify f2))"
    using extends_trans [OF m(3)] f2(4) f1(1) by simp
  moreover have "feed_links env p s v (linklist d) ?b t3 = (if dirty (feed_notify f2) then updateTopology env (feed_notify f2) else Some (Inr (feed_notify f2)))"
    using node f(1) f2(1) packet_links_props(1) [of p]
    by (simp add: feed_links_def Let_def t4_def [symmetric] f1_def [symmetric])
  ultimately show ?thesis using a4 m(4) f1(3) f2(5) n4(3) by (intro exI [of _ "feed_notify f2"]) simp
qed

lemma feed_unfold:
  assumes "\<not> locked t" "OffsetLinks + 1 \<le> psize p" "getNodeEntry env (getSrc p) t = Inr t1" "frame t t1"
    and "0 < getValidity (te_duration env) p" "om_find (getSrc p) (adjList t1) = Some d"
    and "v = lastEventTime t + getValidity (te_duration env) p"
    and "t3 = t1\<lparr>adjList := om_adjust (getSrc p) (renewed v (replicate (getNumLinks p) LinkQuality_default) (next_buffer t1)) (adjList t1),
      next_buffer := next_buffer t1 + 1\<rparr>"
  shows "feed env p t = (if psize p < OffsetLinks + getNumLinks p * 8 then Some (Inr t3)
    else feed_links env p (getSrc p) v (linklist d) (next_buffer t1) t3)"
proof -
  let ?s = "getSrc p" and ?r = "replicate (getNumLinks p) LinkQuality_default"
  let ?t2 = "on_node ?s (\<lambda>d. (update_nodeValidity v d)\<lparr>edgeValidity := v\<rparr>) t1"
  have "linklist (update_nodeValidity v d) = linklist d" by (simp add: update_nodeValidity_def)
  then have "(case om_find ?s (adjList ?t2) of None \<Rightarrow> [] | Some d \<Rightarrow> linklist d) = linklist d"
    using assms(6) by (simp add: on_node_def om_find_adjust)
  moreover have "(on_node ?s (\<lambda>d. d\<lparr>linklist := ?r, ll_buffer := next_buffer ?t2\<rparr>) ?t2)\<lparr>next_buffer := next_buffer ?t2 + 1\<rparr> = t3"
    by (simp add: on_node_def om_adjust_twice assms(8) renewed_def [abs_def])
  moreover have "next_buffer ?t2 = next_buffer t1" by (simp add: on_node_def)
  ultimately show ?thesis
    using assms(1-3,5) frameD(1) [OF assms(4)] assms(7) by (simp add: feed_def Let_def)
qed

text \<open>What a well-formed packet does before the routes are recomputed.\<close>

definition packet_entries :: "BasePacket \<Rightarrow> (NodeId \<times> link_quality_t) list" where
  "packet_entries p = map (topo_entry (buffer p)) [0..<getNumLinks p]"

lemma packet_links_entries: "map (\<lambda>l. (neighbor l, lq_quality l)) (packet_links p) = packet_entries p"
  by (simp add: packet_links_def packet_entries_def LinkQuality_new_def)

lemma feed_reaches:
  assumes inv: "topo_inv t" and p: "topo_packet_ok env p" "\<not> locked t" and calc: "\<forall>f b. te_calculate env f b \<noteq> 0"
    and v: "v = lastEventTime t + getValidity (te_duration env) p"
  shows "\<exists>t5. feed env p t = (if dirty t5 then updateTopology env t5 else Some (Inr t5)) \<and> topo_inv t5 \<and> frame t t5 \<and>
    length (adjList t5) \<le> length (adjList t) + 511 \<and> source_links (adjList t5) (getSrc p) = Some (packet_entries p) \<and>
    (\<exists>d. om_find (getSrc p) (adjList t5) = Some d \<and> edgeValidity d = v \<and> v \<le> nodeValidity d) \<and>
    (\<forall>x e. om_find x (adjList t) = Some e \<longrightarrow> (\<exists>e'. om_find x (adjList t5) = Some e' \<and> nodeValidity e \<le> nodeValidity e'))"
proof -
  let ?s = "getSrc p"
  have wf: "topo_wf ?s {} t" "NodeId_ok ?s" using inv topo_wf_any by (simp_all add: getSrc_def)
  from getNodeEntry_ok [OF this, of env] obtain t1 where
    t1: "getNodeEntry env ?s t = Inr t1" "topo_wf ?s {} t1" "frame t t1" "om_find ?s (adjList t1) \<noteq> None"
      "extends (adjList t) (adjList t1)" "length (adjList t1) \<le> length (adjList t) + 1" by blast
  obtain d where d: "om_find ?s (adjList t1) = Some d" using t1(4) by auto
  define t3 where "t3 = t1\<lparr>adjList := om_adjust ?s (renewed v (replicate (getNumLinks p) LinkQuality_default) (next_buffer t1)) (adjList t1),
      next_buffer := next_buffer t1 + 1\<rparr>"
  have a3: "adjList t3 = om_adjust ?s (renewed v (replicate (getNumLinks p) LinkQuality_default) (next_buffer t1)) (adjList t1)"
    "next_buffer t3 = next_buffer t1 + 1" "frame t1 t3" by (simp_all add: t3_def frameI)
  have "feed env p t = feed_links env p ?s v (linklist d) (next_buffer t1) t3"
    using feed_unfold [OF p(2) _ t1(1,3) _ d v t3_def] p(1) by (simp add: topo_packet_ok_def)
  with feed_links_ok [OF t1(2) d p(1) calc a3(1,2)] obtain t5 where
    t5: "feed env p t = (if dirty t5 then updateTopology env t5 else Some (Inr t5))" "topo_wf ?s {} t5" "frame t3 t5"
      "extends (om_adjust ?s (renewed v (packet_links p) (next_buffer t1)) (adjList t1)) (adjList t5)"
      "length (adjList t5) \<le> length (adjList t1) + 510" by auto
  let ?a4 = "om_adjust ?s (renewed v (packet_links p) (next_buffer t1)) (adjList t1)"
  have "source_links ?a4 ?s = Some (packet_entries p)" using d by (simp add: source_links_def om_find_adjust packet_links_entries)
  moreover have "\<exists>d. om_find ?s (adjList t5) = Some d \<and> edgeValidity d = v \<and> v \<le> nodeValidity d"
  proof -
    have "om_find ?s ?a4 = Some (renewed v (packet_links p) (next_buffer t1) d)" using d by (simp add: om_find_adjust)
    with t5(4) obtain d' where "om_find ?s (adjList t5) = Some d'"
      "node_extends (renewed v (packet_links p) (next_buffer t1) d) d'" by (auto simp: extends_def)
    then show ?thesis by (simp add: node_extends_def)
  qed
  moreover have "\<exists>e'. om_find x (adjList t5) = Some e' \<and> nodeValidity e \<le> nodeValidity e'"
    if x: "om_find x (adjList t) = Some e" for x e
  proof -
    obtain e1 where e1: "om_find x (adjList t1) = Some e1" "nodeValidity e \<le> nodeValidity e1"
      using t1(5) x by (auto simp: extends_def node_extends_def)
    then obtain e4 where "om_find x ?a4 = Some e4" "nodeValidity e1 \<le> nodeValidity e4"
      by (cases "x = ?s") (auto simp: om_find_adjust)
    with t5(4) e1(2) show ?thesis by (fastforce simp: extends_def node_extends_def)
  qed
  ultimately show ?thesis
    using t5 t1(6) extends_source_links [OF t5(4)] frame_trans [OF frame_trans [OF t1(3) a3(3)] t5(3)] topo_wf_any
    by (intro exI [of _ t5]) simp
qed

section \<open>The check of the topology\<close>

text \<open>
  \<open>check_topology\<close> returns before it checks anything.  The checks it would make are these: the
  links between two nodes point to each other.
\<close>

definition check_topology :: "AdjList \<Rightarrow> bool" where
  "check_topology a = True"

definition links_match :: "AdjList \<Rightarrow> NodeId \<Rightarrow> LinkQuality \<Rightarrow> lq_ptr \<Rightarrow> bool" where
  "links_match a i n n_ptr =
     (case om_find (neighbor n) a of None \<Rightarrow> True
      | Some d2 \<Rightarrow>
          (case find (\<lambda>k. neighbor (linklist d2 ! k) = i) [0..<length (linklist d2)] of
             None \<Rightarrow> True
           | Some k \<Rightarrow> counterpart (linklist d2 ! k) = Some n_ptr \<and> counterpart n = Some (ll_buffer d2, k)))"

definition check_topology_asserts :: "AdjList \<Rightarrow> bool" where
  "check_topology_asserts a =
     list_all (\<lambda>(i, d). list_all (\<lambda>k. links_match a i (linklist d ! k) (ll_buffer d, k)) [0..<length (linklist d)]) a"

lemma topo_inv_checks:
  assumes "topo_inv t"
  shows "check_topology_asserts (adjList t)"
proof -
  let ?a = "adjList t"
  have wf: "adj_wf ?a" "links_ok (myNodeId t) {} ?a" using assms by (simp_all add: topo_inv_def topo_wf_def)
  have "links_match ?a i (linklist d ! k) (ll_buffer d, k)" if id: "(i, d) \<in> set ?a" "k < length (linklist d)" for i d k
  proof -
    let ?l = "linklist d ! k"
    have d: "om_find i ?a = Some d" using wf(1) id(1) om_find_mem [of ?a i d] by (simp add: adj_wf_def)
    have l: "link_of ?a i (neighbor ?l) = Some ?l" using link_in_list [OF wf(1) id(1)] id(2) by simp
    have p: "ptr_to ?a i (neighbor ?l) = Some (ll_buffer d, k)"
      using findLinkQuality_sorted [OF adj_wfD(2) [OF wf(1) d]] d id(2) by (simp add: ptr_to_def)
    show ?thesis
    proof (cases "om_find (neighbor ?l) ?a")
      case (Some d2)
      show ?thesis
      proof (cases "find (\<lambda>k. neighbor (linklist d2 ! k) = i) [0..<length (linklist d2)]")
        case (Some j)
        then have j: "j < length (linklist d2)" "neighbor (linklist d2 ! j) = i" by (auto simp: find_Some_iff)
        have q: "ptr_to ?a (neighbor ?l) i = Some (ll_buffer d2, j)"
          using findLinkQuality_sorted [OF adj_wfD(2) [OF wf(1) \<open>om_find (neighbor ?l) ?a = Some d2\<close>]] j
            \<open>om_find (neighbor ?l) ?a = Some d2\<close> by (simp add: ptr_to_def)
        have "link_of ?a (neighbor ?l) i = Some (linklist d2 ! j)"
          using link_in_list [OF wf(1) om_find_Some_mem [OF \<open>om_find (neighbor ?l) ?a = Some d2\<close>], of "linklist d2 ! j"] j by simp
        then have "counterpart (linklist d2 ! j) = Some (ll_buffer d, k)" "counterpart ?l = Some (ll_buffer d2, j)"
          using links_okD(2) [OF wf(2)] l p q by (fastforce simp: paired_def)+
        then show ?thesis using Some \<open>om_find (neighbor ?l) ?a = Some d2\<close> by (simp add: links_match_def)
      qed (simp add: links_match_def Some)
    qed (simp add: links_match_def)
  qed
  then show ?thesis by (auto simp: check_topology_asserts_def list_all_iff)
qed

section \<open>Reachable topologies\<close>

text \<open>
  What the daemon does with its topology: packets, the cleanup timer, lookups of next hops,
  \<open>reset\<close>, the commands that lock and unlock, and the passing of time.
\<close>

inductive topo_reach :: "topo_env \<Rightarrow> NodeId \<Rightarrow> RTopology \<Rightarrow> bool" for env i where
  reach_new: "RTopology_new env i now cb = Inr (nt, t) \<Longrightarrow> topo_reach env i t"
| reach_feed: "topo_reach env i t \<Longrightarrow> topo_packet_ok env p \<Longrightarrow> feed env p t = Some (Inr t') \<Longrightarrow> topo_reach env i t'"
| reach_cleanup: "topo_reach env i t \<Longrightarrow> removeOldNodes env t = Inr (nt, t') \<Longrightarrow> topo_reach env i t'"
| reach_next_hop: "topo_reach env i t \<Longrightarrow> RTopology_getNextHop env dest nh t = Some (Inr (r, t')) \<Longrightarrow> topo_reach env i t'"
| reach_reset: "topo_reach env i t \<Longrightarrow> topo_reset env now t = Inr t' \<Longrightarrow> topo_reach env i t'"
| reach_lock: "topo_reach env i t \<Longrightarrow> topo_reach env i (setLocked b t)"
| reach_time: "topo_reach env i t \<Longrightarrow> lastEventTime t \<le> now \<Longrightarrow> topo_reach env i (t\<lparr>lastEventTime := now\<rparr>)"

lemma removeOldNodes_inv:
  assumes "topo_inv t" "removeOldNodes env t = Inr (nt, t')"
  shows "topo_inv t'"
proof -
  have "adjList t \<noteq> []" using assms(2) by (auto simp: removeOldNodes_def split: if_splits)
  with removeOldNodes_ok [of "myNodeId t" t env] assms obtain nt' t'' where
    "removeOldNodes env t = Inr (nt', t'')" "topo_wf (myNodeId t) {} t''" by (auto simp: topo_inv_def)
  then show ?thesis using assms(2) topo_wf_any by simp
qed

lemma feed_inv:
  assumes "topo_inv t" "\<forall>f b. te_calculate env f b \<noteq> 0" "topo_packet_ok env p" "feed env p t = Some (Inr t')"
  shows "topo_inv t'"
proof (cases "locked t")
  case True
  then show ?thesis using assms(1,4) by (simp add: feed_def)
next
  case False
  from feed_reaches [OF assms(1,3) False assms(2) refl] obtain t5 where
    "feed env p t = (if dirty t5 then updateTopology env t5 else Some (Inr t5))" "topo_inv t5" by blast
  then show ?thesis using assms(4) updateTopology_keeps by (auto split: if_splits)
qed

lemma om_find_map: "om_find x (map (\<lambda>(i, d). (i, g i d)) a) = map_option (g x) (om_find x a)"
  by (induction a) (auto simp: om_find_def)

lemma topo_wf_map:
  assumes "topo_wf s {} t" "\<And>i d. linklist (g i d) = linklist d" "\<And>i d. ll_buffer (g i d) = ll_buffer d"
    and "\<And>i d. edgeValidity d \<le> nodeValidity d \<Longrightarrow> edgeValidity (g i d) \<le> nodeValidity (g i d)"
    and "adjList t' = map (\<lambda>(i, d). (i, g i d)) (adjList t)" "next_buffer t' = next_buffer t"
  shows "topo_wf s {} t'"
proof -
  let ?a = "adjList t" and ?b = "map (\<lambda>(i, d). (i, g i d)) (adjList t)"
  have w: "adj_wf ?a" "\<forall>n \<in> set ?a. node_ok (next_buffer t) n" "links_ok s {} ?a" using assms(1) by (simp_all add: topo_wf_def)
  have "link_of ?b x y = link_of ?a x y" "ptr_to ?b x y = ptr_to ?a x y" for x y
    using findLinkQuality_cong [OF assms(2,3)]
    by (simp_all add: AdjList_find_link_def ptr_to_def om_find_map assms(2) split: option.split)
  then have "links_ok s {} ?b" by (rule links_ok_same [OF w(3)])
  moreover have "map fst ?b = map fst ?a" "map (ll_buffer \<circ> snd) ?b = map (ll_buffer \<circ> snd) ?a"
    using assms(3) by (simp_all add: case_prod_beta)
  moreover have "\<forall>(i, d) \<in> set ?b. sorted_wrt (<) (map neighbor (linklist d))"
    using w(1) assms(2) by (auto simp: adj_wf_def)
  ultimately have "adj_wf ?b" "links_ok s {} ?b" using w(1) by (simp_all only: adj_wf_def om_ok_def)
  moreover have "\<forall>n \<in> set ?b. node_ok (next_buffer t) n"
    using w(2) assms(2-4) by (auto simp: node_ok_def)
  ultimately show ?thesis using assms(5,6) by (simp add: topo_wf_def)
qed

lemma reset_inv:
  assumes "topo_inv t" "topo_reset env now t = Inr t'"
  shows "topo_inv t'"
proof -
  let ?f = "\<lambda>i d. if i \<noteq> myNodeId t then d\<lparr>nodeValidity := now, edgeValidity := now\<rparr> else d"
  let ?t = "t\<lparr>dirty := True, adjList := map (\<lambda>(i, d). (i, ?f i d)) (adjList t)\<rparr>"
  have "topo_wf (myNodeId t) {} ?t"
    by (rule topo_wf_map [of "myNodeId t" t ?f]) (use assms(1) in \<open>simp_all add: topo_inv_def\<close>)
  then have "topo_inv ?t" using topo_wf_any by blast
  moreover obtain nt where "removeOldNodes env ?t = Inr (nt, t')"
    using assms(2) by (auto simp: topo_reset_def Let_def rbind_Inr_iff)
  ultimately show ?thesis by (rule removeOldNodes_inv)
qed

lemma new_inv:
  assumes "NodeId_ok i" "RTopology_new env i now cb = Inr (nt, t)"
  shows "topo_inv t"
proof (rule removeOldNodes_inv [OF _ assms(2) [unfolded RTopology_new_def Let_def]])
  let ?v = "now + te_duration env (5 * TOPO_INTERVAL) 1000"
  show "topo_inv \<lparr>adjList = [(i, NDescr_new 0\<lparr>nodeValidity := ?v, edgeValidity := ?v\<rparr>)], dirty = True, locked = False,
         myNodeId = i, own_nodeName = [], next_buffer = 1, lastEventTime = now, xml_subscribed = False,
         dot_subscribed = False, nodeObservers = [], linkObservers = [], linuxbasic_cb = cb, topo_log = []\<rparr>"
    using assms(1) by (simp add: topo_inv_def topo_wf_def adj_wf_def node_ok_def links_ok_def AdjList_find_link_def
        om_find_def NDescr_new_def)
qed

text \<open>The invariant holds in every reachable state.\<close>

lemma topo_reach_inv:
  assumes "topo_reach env i t" "NodeId_ok i" "\<forall>f b. te_calculate env f b \<noteq> 0"
  shows "topo_inv t"
  using assms(1)
proof (induction rule: topo_reach.induct)
  case (reach_next_hop t dest nh r t')
  then obtain t1 where "(if dirty t then updateTopology env t else Some (Inr t)) = Some (Inr t1)" "t' = t1"
    by (auto simp: RTopology_getNextHop_def Let_def split: option.splits sum.splits if_splits prod.splits)
  then show ?case using reach_next_hop.IH updateTopology_keeps [of t env t1] by (auto split: if_splits)
next
  case (reach_lock t b)
  then show ?case by (simp add: topo_inv_def topo_wf_def setLocked_def)
next
  case (reach_time t now)
  then show ?case by (simp add: topo_inv_def topo_wf_def)
qed (use assms new_inv feed_inv removeOldNodes_inv reset_inv in blast)+

end
