(* ===== verification/Topo_Properties.thy ===== *)
theory Topo_Properties
  imports Topo_Update
begin

text \<open>
  The properties of the topology: consistency in every reachable state, the effect of a packet,
  of the cleanup, and of a truncated packet, and the table that goes to the kernel.
\<close>

section \<open>The table for the kernel\<close>

definition table_entries :: "AdjList \<Rightarrow> (byte list \<times> byte list) list" where
  "table_entries a = map (\<lambda>(i, d). (NodeId_toArray i, NodeId_toArray (nextHop d))) a"

lemma entries_ok_table: "entries_ok (table_entries a)"
  by (auto simp: entries_ok_def table_entries_def)

lemma routing_image_Cons: "routing_image ((d, h) # es) = d @ h @ routing_image es"
  by (simp add: routing_image_def)

lemma write_table_eq:
  assumes "4 + c * 6 + 12 * length a \<le> length buf"
  shows "write_table c a buf = mem_write buf (4 + c * 6) (routing_image (table_entries a))"
  using assms
proof (induction a arbitrary: c buf)
  case Nil
  then show ?case by (simp add: table_entries_def routing_image_def)
next
  case (Cons n a)
  obtain i d where n: "n = (i, d)" by force
  let ?e = "NodeId_toArray i @ NodeId_toArray (nextHop d)"
  have "write_table c (n # a) buf = write_table (c + 2) a (mem_write buf (4 + c * 6) ?e)"
    using mem_write_append [of "4 + c * 6" "NodeId_toArray i" "NodeId_toArray (nextHop d)" buf] Cons.prems
    by (simp add: n Let_def add.commute)
  also have "\<dots> = mem_write (mem_write buf (4 + c * 6) ?e) (4 + c * 6 + length ?e) (routing_image (table_entries a))"
    using Cons.IH [of "c + 2" "mem_write buf (4 + c * 6) ?e"] Cons.prems by (simp add: algebra_simps)
  also have "\<dots> = mem_write buf (4 + c * 6) (?e @ routing_image (table_entries a))"
    using Cons.prems length_routing_image [OF entries_ok_table, of a]
    by (intro mem_write_append) (simp add: table_entries_def)
  finally show ?case by (simp add: n table_entries_def routing_image_Cons)
qed

lemma topology_data_image:
  "topology_data a = store_int (of_nat (12 * length (table_entries a))) @ routing_image (table_entries a)"
proof -
  let ?i = "routing_image (table_entries a)" and ?s = "store_int (of_nat (12 * length a))"
  have len: "length ?i = 12 * length a" "length ?s = 4"
    using length_routing_image [OF entries_ok_table, of a] by (simp_all add: table_entries_def store_int_def)
  have "topology_data a = mem_write (mem_write (replicate (4 + 12 * length a) 0) 0 ?s) 4 ?i"
    using write_table_eq [of 0 a "mem_write (replicate (4 + 12 * length a) 0) 0 ?s"] len
    by (simp add: topology_data_def Let_def mult.commute)
  also have "\<dots> = mem_write (replicate (4 + 12 * length a) 0) 0 (?s @ ?i)"
    using mem_write_append [of 0 ?s ?i "replicate (4 + 12 * length a) 0"] len by simp
  also have "\<dots> = ?s @ ?i" using len by (simp add: mem_write_def)
  finally show ?thesis by (simp add: table_entries_def)
qed

text \<open>The order of the map is the order in which the kernel searches.\<close>

lemma table_sorted:
  assumes "om_ok a" "\<forall>i \<in> set (map fst a). NodeId_ok i"
  shows "sorted_wrt (\<lambda>x y. memcmp (fst x) (fst y) < 0) (table_entries a)"
proof -
  have "sorted_wrt (\<lambda>n m. fst n < fst m) a" using assms(1) by (simp add: om_ok_def sorted_wrt_map)
  then have "sorted_wrt (\<lambda>n m. memcmp (NodeId_toArray (fst n)) (NodeId_toArray (fst m)) < 0) a"
    by (rule sorted_wrt_mono_rel [rotated]) (use assms(2) NodeId_less_memcmp in fastforce)
  then show ?thesis by (simp add: table_entries_def sorted_wrt_map case_prod_beta)
qed

lemma table_lookup:
  assumes "\<forall>i \<in> set (map fst a). NodeId_ok i" "NodeId_ok i"
  shows "map_of (table_entries a) (NodeId_toArray i) = map_option (\<lambda>d. NodeId_toArray (nextHop d)) (om_find i a)"
  using assms(1)
proof (induction a)
  case Nil
  then show ?case by (simp add: table_entries_def om_find_def)
next
  case (Cons n a)
  then show ?case
    using NodeId_toArray_inject [of i "fst n"] assms(2)
    by (cases "i = fst n") (simp_all add: table_entries_def om_find_def case_prod_beta)
qed

section \<open>What the updates leave\<close>

lemma source_links_shapes [simp]: "source_links (routing_shape (shape a)) s = source_links a s"
proof -
  have "routing_shape (shape a) = shape (routing_shape a)" by (auto simp: routing_shape_def shape_def)
  then show ?thesis
    by (cases "om_find s a") (simp_all add: source_links_def om_find_shape om_find_routing_shape link_shape_def)
qed

lemma source_links_purge:
  assumes "om_ok a" "om_find s a = Some d" "now < edgeValidity d" "now < nodeValidity d"
  shows "source_links (purge now a) s = source_links a s"
  using om_find_purge [OF assms(1), of s now] assms(2-4) by (simp add: source_links_def)

lemma topo_inv_om_ok: "topo_inv t \<Longrightarrow> om_ok (adjList t)"
  by (simp add: topo_inv_def topo_wf_def adj_wf_def)

lemma updateTopology_source_links:
  assumes "topo_inv t" "updateTopology env t = Some (Inr t')"
    and "om_find s (adjList t) = Some d" "lastEventTime t < edgeValidity d" "lastEventTime t < nodeValidity d"
  shows "source_links (adjList t') s = source_links (adjList t) s"
proof -
  let ?p = "if locked t then adjList t else purge (lastEventTime t) (adjList t)"
  have "routing_shape (shape (adjList t')) = routing_shape (shape ?p)" using updateTopology_keeps [OF assms(1,2)] by blast
  then have "source_links (adjList t') s = source_links ?p s" by (metis source_links_shapes)
  then show ?thesis using source_links_purge [OF topo_inv_om_ok [OF assms(1)] assms(3-5)] by simp
qed

lemma hasLink_purge:
  assumes "om_ok a" "\<forall>n \<in> set a. node_ok nb n"
  shows "AdjList_has_link x y (purge now a) \<longleftrightarrow>
    AdjList_has_link x y a \<and> (\<exists>d. om_find x a = Some d \<and> now < edgeValidity d)"
proof (cases "om_find x a")
  case (Some d)
  have "edgeValidity d \<le> nodeValidity d" using assms(2) om_find_Some_mem [OF Some] by (auto simp: node_ok_def)
  then show ?thesis using om_find_purge [OF assms(1), of x now] Some by (auto simp: AdjList_has_link_def emptied_def)
qed (simp add: om_find_purge [OF assms(1)] AdjList_has_link_def)

lemma has_node_shape: "shape b = shape a \<Longrightarrow> om_find x b = None \<longleftrightarrow> om_find x a = None"
proof -
  have "om_find x (shape c) = None \<longleftrightarrow> om_find x c = None" for c by (simp add: om_find_shape)
  then show "shape b = shape a \<Longrightarrow> ?thesis" by metis
qed

lemma has_link_shape: "shape b = shape a \<Longrightarrow> AdjList_has_link x y b = AdjList_has_link x y a"
proof -
  have "AdjList_has_link x y (shape c) = AdjList_has_link x y c" for c
    by (simp add: AdjList_has_link_def om_find_shape link_shape_def split: option.split)
  then show "shape b = shape a \<Longrightarrow> ?thesis" by metis
qed

section \<open>An example\<close>

definition example_env :: topo_env where
  "example_env = \<lparr>te_duration = (\<lambda>n d. n * 1000 div d), te_calculate = Metric_my_calculate, te_sort = sort_by\<rparr>"

lemma example_env_ok: "\<forall>f b. te_calculate example_env f b \<noteq> 0" "std_sort (te_sort example_env)"
  by (simp_all add: example_env_def Metric_my_calculate_def sort_by.std_sort_axioms)

text \<open>A packet of the station with the given last byte, valid for 256 s, and its only link.\<close>

definition example_topo :: "byte \<Rightarrow> byte \<Rightarrow> nat \<Rightarrow> BasePacket" where
  "example_topo src nb len = new_BasePacket
     \<lparr>buffer := [0, 0, 0, 0, 0, 0, src, 0, 0, 0, 0, 0, 0, 0, 0, 0, 0, 0, 4, 0, 0, 1, 0, 0, 0, 0, 0, nb, 0, 5] @ replicate (MaxSize - 30) 0,
      psize := len\<rparr>"

definition example_new :: RTopology where
  "example_new = (case RTopology_new example_env (NodeId 1) 0 True of Inr (_, t) \<Rightarrow> t)"

lemma example_new_eq:
  "RTopology_new example_env (NodeId 1) 0 True = Inr (5000, example_new)"
  "example_new = \<lparr>adjList = [(NodeId 1, NDescr_new 0\<lparr>nodeValidity := 5000, edgeValidity := 5000\<rparr>)], dirty = True, locked = False,
     myNodeId = NodeId 1, own_nodeName = [], next_buffer = 1, lastEventTime = 0, xml_subscribed = False,
     dot_subscribed = False, nodeObservers = [], linkObservers = [], linuxbasic_cb = True, topo_log = []\<rparr>"
  by (simp_all add: example_new_def RTopology_new_def example_env_def TOPO_INTERVAL_def removeOldNodes_def Let_def NDescr_new_def om_find_def)

lemma example_new_reach: "topo_reach example_env (NodeId 1) example_new"
  using example_new_eq(1) by (rule reach_new)

lemma NodeId_ok_1: "NodeId_ok (NodeId 1)"
  by (simp add: NodeId_ok_def)

section \<open>Pointers into a freed buffer\<close>

lemma find_buffer_renewed:
  assumes "\<forall>(i, d') \<in> set a. i = s \<longrightarrow> d' = d" "fst p \<noteq> nb" "fst p \<noteq> ll_buffer d"
  shows "lq_get (om_adjust s (renewed v ls nb) a) p = lq_get a p"
proof -
  have "find (\<lambda>(_, d). ll_buffer d = fst p) (om_adjust s (renewed v ls nb) a) = find (\<lambda>(_, d). ll_buffer d = fst p) a"
    using assms by (induction a) (auto simp: om_adjust_def)
  then show ?thesis by (simp add: lq_get_def)
qed

lemma freed_buffer:
  assumes "adj_wf a" "om_find s a = Some d" "nb \<noteq> ll_buffer d"
  shows "lq_get (om_adjust s (renewed v ls nb) a) (ll_buffer d, k) = None"
proof -
  have "ll_buffer d' \<noteq> ll_buffer d" if "(i, d') \<in> set (om_adjust s (renewed v ls nb) a)" for i d'
  proof (cases "i = s")
    case True
    then show ?thesis using that assms(3) by (auto simp: om_adjust_def)
  next
    case False
    then have "(i, d') \<in> set a" using that by (auto simp: om_adjust_def split: if_splits)
    then show ?thesis using buffer_owner [OF assms(1,2), of i d'] False by blast
  qed
  then have "find (\<lambda>(_, d'). ll_buffer d' = ll_buffer d) (om_adjust s (renewed v ls nb) a) = None"
    by (auto simp: find_None_iff)
  then show ?thesis by (simp add: lq_get_def)
qed

section \<open>Properties\<close>




lemma example_topo_ok:
  "topo_packet_ok example_env (example_topo 7 1 30)" "topo_packet_ok example_env (example_topo 1 7 30)"
  by (simp_all add: topo_packet_ok_def example_topo_def topo_offsets getNumLinks_def getValidity_def example_env_def
      packet_links_def topo_entry_def LinkQuality_new_def mem_read_def fromArray_def)


text \<open>
  Property C10: the cleanup.  In every reachable state that is not locked and has a node,
  \<open>removeOldNodes\<close> ends without following a dangling pointer; a node remains exactly if it is
  still valid and a link exactly if the links of its node are still valid.
\<close>

theorem removeOldNodes_spec:
  assumes "topo_reach env i t" "NodeId_ok i" "\<forall>f b. te_calculate env f b \<noteq> 0" "\<not> locked t" "adjList t \<noteq> []"
  shows "\<exists>nt t'. removeOldNodes env t = Inr (nt, t') \<and>
    (\<forall>x. hasNode x t' \<longleftrightarrow> (\<exists>d. om_find x (adjList t) = Some d \<and> lastEventTime t < nodeValidity d)) \<and>
    (\<forall>x y. hasLink x y t' \<longleftrightarrow> hasLink x y t \<and> (\<exists>d. om_find x (adjList t) = Some d \<and> lastEventTime t < edgeValidity d))"
proof -
  have inv: "topo_wf i {} t" using topo_reach_inv [OF assms(1-3)] topo_wf_any by blast
  from removeOldNodes_ok [OF inv assms(5), of env] obtain nt t' where
    t': "removeOldNodes env t = Inr (nt, t')" "shape (adjList t') = shape (purge (lastEventTime t) (adjList t))"
    using assms(4) by auto
  have ok: "om_ok (adjList t)" "\<forall>n \<in> set (adjList t). node_ok (next_buffer t) n"
    using inv by (simp_all add: topo_wf_def adj_wf_def)
  have "hasNode x t' \<longleftrightarrow> om_find x (purge (lastEventTime t) (adjList t)) \<noteq> None" for x
    using has_node_shape [OF t'(2)] by (simp only: hasNode_def)
  then have "hasNode x t' \<longleftrightarrow> (\<exists>d. om_find x (adjList t) = Some d \<and> lastEventTime t < nodeValidity d)" for x
    using om_find_purge [OF ok(1)] by (auto split: option.splits)
  moreover have "hasLink x y t' \<longleftrightarrow> hasLink x y t \<and> (\<exists>d. om_find x (adjList t) = Some d \<and> lastEventTime t < edgeValidity d)" for x y
    using has_link_shape [OF t'(2)] hasLink_purge [OF ok] by (simp add: hasLink_def)
  ultimately show ?thesis using t'(1) by blast
qed

theorem removeOldNodes_spec_witness:
  "\<exists>nt t'. removeOldNodes example_env example_new = Inr (nt, t') \<and> hasNode (NodeId 1) t'"
proof -
  have "\<not> locked example_new" "adjList example_new \<noteq> []"
    "\<exists>d. om_find (NodeId 1) (adjList example_new) = Some d \<and> lastEventTime example_new < nodeValidity d"
    by (simp_all add: example_new_eq(2) om_find_def)
  moreover from removeOldNodes_spec [OF example_new_reach NodeId_ok_1 example_env_ok(1) this(1,2)] obtain nt t' where
    "removeOldNodes example_env example_new = Inr (nt, t')"
    "\<forall>x. hasNode x t' \<longleftrightarrow> (\<exists>d. om_find x (adjList example_new) = Some d \<and> lastEventTime example_new < nodeValidity d)" by (elim exE conjE)
  ultimately show ?thesis by metis
qed

text \<open>
  Property C35: a truncated packet corrupts the topology.  If a topology packet announces more
  links than it has room for, \<open>feed\<close> returns after it has replaced the links of its source.  A
  link back from a neighbor of the source still points into the freed list, so that removing this link
  follows a dangling pointer.
\<close>

theorem truncated_packet_dangles:
  assumes "topo_reach env i t" "NodeId_ok i" "\<forall>f b. te_calculate env f b \<noteq> 0" "\<not> locked t"
    and "OffsetLinks + 1 \<le> psize p" "psize p < OffsetLinks + getNumLinks p * 8" "0 < getValidity (te_duration env) p"
    and "hasLink (getSrc p) v t" "hasLink v (getSrc p) t" "v \<noteq> getSrc p"
  shows "\<exists>t' e k. feed env p t = Some (Inr t') \<and> om_find v (adjList t') = Some e \<and> k < length (linklist e) \<and>
    neighbor (linklist e ! k) = getSrc p \<and> remove_reference (ll_buffer e, k) (adjList t') = Inl DanglingPointer"
proof -
  let ?s = "getSrc p" and ?a = "adjList t" and ?nb = "next_buffer t"
  have wf: "adj_wf ?a" "\<forall>n \<in> set ?a. node_ok ?nb n" "links_ok i {} ?a"
    using topo_reach_inv [OF assms(1-3)] topo_wf_any [of t i] by (simp_all add: topo_wf_def)
  obtain d e where d: "om_find ?s ?a = Some d" and e: "om_find v ?a = Some e"
    using assms(8,9) by (auto simp: hasLink_def AdjList_has_link_def split: option.splits)
  obtain k where k: "k < length (linklist e)" "neighbor (linklist e ! k) = ?s"
    using assms(9) e by (auto simp: hasLink_def AdjList_has_link_def in_set_conv_nth)
  obtain l where "l \<in> set (linklist d)" "neighbor l = v" using assms(8) d by (auto simp: hasLink_def AdjList_has_link_def)
  then have "ptr_to ?a ?s v \<noteq> None" using ptr_to_None [OF wf(1)] link_in_list [OF wf(1) om_find_Some_mem [OF d]] by auto
  then obtain j where j: "ptr_to ?a ?s v = Some (ll_buffer d, j)"
    using d by (auto simp: ptr_to_def findLinkQuality_def Let_def split: if_splits)
  have "link_of ?a v ?s = Some (linklist e ! k)" using link_in_list [OF wf(1) om_find_Some_mem [OF e], of "linklist e ! k"] k by simp
  then have cp: "counterpart (linklist e ! k) = Some (ll_buffer d, j)" using links_okD(2) [OF wf(3)] j by (auto simp: paired_def)
  have uniq: "\<forall>(i, d') \<in> set ?a. i = ?s \<longrightarrow> d' = d" using om_find_mem [of ?a ?s] d wf(1) by (fastforce simp: adj_wf_def)
  have fresh: "?nb \<noteq> ll_buffer d" "?nb \<noteq> ll_buffer e"
    using wf(2) om_find_Some_mem [OF d] om_find_Some_mem [OF e] by (auto simp: node_ok_def)
  have ne: "ll_buffer e \<noteq> ll_buffer d" using buffer_owner [OF wf(1) d om_find_Some_mem [OF e]] assms(10) by auto
  define ls where "ls = replicate (getNumLinks p) LinkQuality_default"
  define w where "w = lastEventTime t + getValidity (te_duration env) p"
  let ?b = "om_adjust ?s (renewed w ls ?nb) ?a"
  have "feed env p t = Some (Inr (t\<lparr>adjList := ?b, next_buffer := ?nb + 1\<rparr>))"
    using feed_unfold [OF assms(4,5) _ frame_refl assms(7) d w_def refl] assms(6) d by (simp add: getNodeEntry_def ls_def)
  moreover have "om_find v ?b = Some e" using e assms(10) by (simp add: om_find_adjust)
  moreover have "lq_get ?b (ll_buffer e, k) = Some (linklist e ! k)"
    using find_buffer_renewed [OF uniq, of "(ll_buffer e, k)" ?nb w ls] lq_get_owner [OF wf(1) e, of k] k(1) fresh ne by simp
  then have "remove_reference (ll_buffer e, k) ?b = Inl DanglingPointer"
    using freed_buffer [OF wf(1) d fresh(1)] cp by (simp add: remove_reference_def lq_read_def lq_modify_def)
  ultimately show ?thesis using k by (intro exI [of _ "t\<lparr>adjList := ?b, next_buffer := ?nb + 1\<rparr>"]) auto
qed

text \<open>Two stations that have heard of each other.\<close>

definition accepted :: "(topo_error + RTopology) option \<Rightarrow> (RTopology \<Rightarrow> bool) \<Rightarrow> bool" where
  "accepted r P = (case r of Some (Inr t) \<Rightarrow> P t | _ \<Rightarrow> False)"

lemma acceptedE:
  assumes "accepted r P"
  obtains t where "r = Some (Inr t)" "P t"
  using assms by (cases r; cases "the r") (auto simp: accepted_def)

lemma example_linked:
  "\<exists>t. topo_reach example_env (NodeId 1) t \<and> \<not> locked t \<and> hasLink (NodeId 7) (NodeId 1) t \<and> hasLink (NodeId 1) (NodeId 7) t"
proof -
  have "accepted (feed example_env (example_topo 7 1 30) example_new) (\<lambda>t.
      accepted (feed example_env (example_topo 1 7 30) t) (\<lambda>t'.
        \<not> locked t' \<and> hasLink (NodeId 7) (NodeId 1) t' \<and> hasLink (NodeId 1) (NodeId 7) t'))" by code_simp
  then obtain t t' where t: "feed example_env (example_topo 7 1 30) example_new = Some (Inr t)"
    "feed example_env (example_topo 1 7 30) t = Some (Inr t')"
    "\<not> locked t' \<and> hasLink (NodeId 7) (NodeId 1) t' \<and> hasLink (NodeId 1) (NodeId 7) t'" by (elim acceptedE)
  have "topo_reach example_env (NodeId 1) t'"
    using reach_feed [OF reach_feed [OF example_new_reach example_topo_ok(1) t(1)] example_topo_ok(2) t(2)] .
  with t(3) show ?thesis by blast
qed

theorem truncated_packet_dangles_witness:
  "\<exists>t t' e k. topo_reach example_env (NodeId 1) t \<and> feed example_env (example_topo 7 1 23) t = Some (Inr t') \<and>
    om_find (NodeId 1) (adjList t') = Some e \<and> remove_reference (ll_buffer e, k) (adjList t') = Inl DanglingPointer"
proof -
  obtain t where t: "topo_reach example_env (NodeId 1) t" "\<not> locked t" "hasLink (NodeId 7) (NodeId 1) t" "hasLink (NodeId 1) (NodeId 7) t"
    using example_linked by blast
  let ?p = "example_topo 7 1 23"
  have "getSrc ?p = NodeId 7" "OffsetLinks + 1 \<le> psize ?p" "psize ?p < OffsetLinks + getNumLinks ?p * 8" "0 < getValidity (te_duration example_env) ?p"
    by (simp_all add: example_topo_def topo_offsets getNumLinks_def getValidity_def getSrc_def example_env_def mem_read_def
        fromArray_def NodeId_fromArray_def)
  with truncated_packet_dangles [OF t(1) NodeId_ok_1 example_env_ok(1) t(2), of ?p "NodeId 1"] t show ?thesis by auto
qed

end
