(* ===== verification/Routing_Packets.thy ===== *)
theory Routing_Packets
  imports Routing_Neighbors Topo_Properties
begin

text \<open>
  What the daemon does with flood and unicast packets: a flood packet is handled once and repeated
  with its time to live decreased; a unicast packet is delivered, dropped or sent to the next hop that
  the topology names.
\<close>

section \<open>Header fields\<close>

lemma setDest_fields [simp]:
  "buffer (setDest d p) = buffer p" "psize (setDest d p) = psize p" "pkt_dest (setDest d p) = d"
  "getSrc (setDest d p) = getSrc p" "getSeq (setDest d p) = getSeq p" "getType (setDest d p) = getType p"
  "getLastHop (setDest d p) = getLastHop p" "Flood_getTTL (setDest d p) = Flood_getTTL p" "getFloodType (setDest d p) = getFloodType p"
  "getUcDest (setDest d p) = getUcDest p" "getNextHop (setDest d p) = getNextHop p" "Uc_getTTL (setDest d p) = Uc_getTTL p"
  by (simp_all add: setDest_def getSrc_def getSeq_def getType_def getLastHop_def Flood_getTTL_def getFloodType_def
      getUcDest_def getNextHop_def Uc_getTTL_def)

lemma decrTTL_set: "Flood_decrTTL p = Flood_setTTL (Flood_getTTL p - 1) p" "Uc_decrTTL p = Uc_setTTL (Uc_getTTL p - 1) p"
  by (simp_all add: Flood_decrTTL_def Flood_setTTL_def Flood_getTTL_def Uc_decrTTL_def Uc_setTTL_def Uc_getTTL_def)

lemma TTL_range: "0 \<le> Flood_getTTL p" "Flood_getTTL p < 256" "0 \<le> Uc_getTTL p" "Uc_getTTL p < 256"
  using unsigned_less [of "buffer p ! Flood_OffsetTTL", where ?'a = int] unsigned_less [of "buffer p ! Uc_OffsetTTL", where ?'a = int]
  by (simp_all add: Flood_getTTL_def Uc_getTTL_def)

lemma setType_reads [simp]:
  assumes "1 \<le> off"
  shows "buffer (setType pt p) ! off = buffer p ! off" "mem_read (buffer (setType pt p)) off n = mem_read (buffer p) off n"
  using assms by (simp_all add: setType_def mem_read_update_out)

lemma Flood_fields [simp]:
  "getSrc (Flood p) = getSrc p" "getSeq (Flood p) = getSeq p" "Flood_getTTL (Flood p) = Flood_getTTL p"
  "getLastHop (Flood p) = getLastHop p" "getFloodType (Flood p) = getFloodType p" "pkt_ok (Flood p) = pkt_ok p"
  by (simp_all add: Flood_def getSrc_def getSeq_def Flood_getTTL_def getLastHop_def getFloodType_def offset_defs)
    (simp add: pkt_ok_def setType_def)

lemma Flood_again: "Flood (Flood p) = Flood p"
proof -
  have "(b AND NOT 3 OR 1) AND NOT 3 OR 1 = b AND NOT 3 OR (1 :: byte)" for b
    by (intro bit_eqI) (auto simp: bit_simps bit_1_iff)
  then show ?thesis by (cases "buffer p") (simp_all add: Flood_def setType_def)
qed

lemma Unicast_fields [simp]:
  "Uc_getTTL (UnicastPacket p) = Uc_getTTL p" "getNextHop (UnicastPacket p) = getNextHop p"
  "getUcDest (UnicastPacket p) = getUcDest p" "getUcPacketType (UnicastPacket p) = getUcPacketType p" "pkt_ok (UnicastPacket p) = pkt_ok p"
  by (simp_all add: UnicastPacket_def Uc_getTTL_def getNextHop_def getUcDest_def getUcPacketType_def offset_defs)
    (simp add: pkt_ok_def setType_def)

section \<open>Flood packets\<close>

text \<open>The packet that is repeated.\<close>

definition repeated :: "AwdsRouting \<Rightarrow> BasePacket \<Rightarrow> BasePacket" where
  "repeated r p = setDest (rt_BroadcastId r) (Flood_decrTTL (setLastHop (rt_myNodeId r) (Flood p)))"

lemma repeated_fields:
  assumes "pkt_ok p" "NodeId_ok (rt_myNodeId r)" "0 < Flood_getTTL p"
  shows "getLastHop (repeated r p) = rt_myNodeId r" "Flood_getTTL (repeated r p) = Flood_getTTL p - 1"
    "pkt_dest (repeated r p) = rt_BroadcastId r" "getType (repeated r p) = PacketTypeFlood"
    "psize (repeated r p) = psize p"
    "\<And>j. 1 \<le> j \<Longrightarrow> j < MaxSize \<Longrightarrow> j < Flood_OffsetLastHop \<or> Flood_OffsetTTL < j \<Longrightarrow> buffer (repeated r p) ! j = buffer p ! j"
proof -
  let ?p1 = "setLastHop (rt_myNodeId r) (Flood p)"
  have ok: "pkt_ok (Flood p)" "pkt_ok ?p1" using assms(1) fl_last.set_ok by simp_all
  have ttl: "Flood_getTTL ?p1 = Flood_getTTL p"
    using ok(1) by (simp add: setLastHop_def Flood_getTTL_def Flood_def offset_defs pkt_ok_def MaxSize_def nth_mem_write_out)
  have q: "repeated r p = setDest (rt_BroadcastId r) (Flood_setTTL (Flood_getTTL p - 1) ?p1)"
    using ttl by (simp add: repeated_def decrTTL_set)
  have v: "ubyte_ok (Flood_getTTL p - 1)" using TTL_range(1,2) [of p] assms(3) by (simp add: ubyte_ok_def)
  show "Flood_getTTL (repeated r p) = Flood_getTTL p - 1" unfolding q by (simp add: fl_ttl.get_set [OF ok(2) v])
  show "getLastHop (repeated r p) = rt_myNodeId r"
    using fl_last.get_set [OF ok(1) assms(2)] unfolding q
    by (simp add: getLastHop_def Flood_setTTL_def mem_read_update_out offset_defs)
  show "pkt_dest (repeated r p) = rt_BroadcastId r" "psize (repeated r p) = psize p"
    unfolding q by (simp_all add: Flood_setTTL_def setLastHop_def Flood_def setType_def)
  have "getType (repeated r p) = getType (Flood p)"
    using pk_type.get_local [OF fl_ttl.set_ok [OF ok(2)] ok(1)] fl_ttl.frame [OF ok(2), of 0] fl_last.frame [OF ok(1), of 0]
    unfolding q by (simp add: offset_defs MaxSize_def)
  also have "\<dots> = PacketTypeFlood" unfolding Flood_def by (rule pk_type.get_set [OF assms(1)]) simp
  finally show "getType (repeated r p) = PacketTypeFlood" .
  show "buffer (repeated r p) ! j = buffer p ! j" if "1 \<le> j" "j < MaxSize" "j < Flood_OffsetLastHop \<or> Flood_OffsetTTL < j" for j
    using fl_ttl.frame [OF ok(2) that(2)] fl_last.frame [OF ok(1) that(2)] that
    unfolding q by (auto simp: offset_defs Flood_def)
qed

lemma flood_repeat_sends:
  assumes inv: "neigh_inv r" and "p = Flood q" "1 \<le> Flood_getTTL p" "pkt_ok p"
    and mpr: "\<forall>n \<in> set (rt_neigh r). \<forall>b. nd_id n = getLastHop p \<and> nd_lastBeacon n = Some b \<longrightarrow>
      hasNoMpr (Beacon b) (rt_myNodeId r) = Some (Some False)"
  shows "\<exists>x. flood_repeat env p r = oreturn (x, if Flood_getTTL p = 1 then r else rt_emit (SendPacket (repeated r p) False) r)"
proof -
  note I = neigh_invD [OF inv]
  obtain res where res: "findNeigh (getLastHop p) r = oreturn res" "found_at (rt_neighbors r) (rt_numNeigh r) (getLastHop p) res"
    using findNeigh_finds [OF inv] by blast
  have relay: "(if res \<ge> 0 then (case nd_lastBeacon (snd (rt_neighbors r ! nat res)) of None \<Rightarrow> ofail RtNullPointer
      | Some b \<Rightarrow> lift_search (hasNoMpr (Beacon b) (rt_myNodeId r))) else oreturn False) = oreturn False"
  proof (cases "res \<ge> 0")
    case True
    then have k: "nat res < rt_numNeigh r" "nd_id (snd (used r ! nat res)) = getLastHop p" "rt_neighbors r ! nat res = used r ! nat res"
      using res(2) I(8) by (auto simp: found_at_def)
    then have mem: "used r ! nat res \<in> set (used r)" using I(3) by simp
    then obtain b where b: "nd_lastBeacon (snd (used r ! nat res)) = Some b" using I(5) by (auto simp: list_all_iff entry_ok_def)
    then have "hasNoMpr (Beacon b) (rt_myNodeId r) = Some (Some False)" using mpr mem k(2) by (auto simp: rt_neigh_used)
    then show ?thesis using True k(3) b by (simp add: lift_search_def)
  qed simp
  have FF: "Flood (Flood q) = Flood q" by (rule Flood_again)
  have ttl: "Flood_getTTL (Flood_decrTTL (setLastHop (rt_myNodeId r) p)) = Flood_getTTL p - 1"
  proof -
    have ok: "pkt_ok (setLastHop (rt_myNodeId r) p)" by (rule fl_last.set_ok [OF assms(4)])
    have same: "Flood_getTTL (setLastHop (rt_myNodeId r) p) = Flood_getTTL p"
      using assms(4) by (simp add: setLastHop_def Flood_getTTL_def offset_defs pkt_ok_def MaxSize_def nth_mem_write_out)
    have "ubyte_ok (Flood_getTTL p - 1)" using TTL_range(1,2) [of p] assms(3) by (simp add: ubyte_ok_def)
    from fl_ttl.get_set [OF ok this] show ?thesis by (simp add: decrTTL_set same)
  qed
  have rep: "repeated r p = setDest (rt_BroadcastId r) (Flood_decrTTL (setLastHop (rt_myNodeId r) p))"
    using FF assms(2) by (simp add: repeated_def)
  show ?thesis unfolding flood_repeat_def res(1) obind_simps relay Let_def ttl rep by simp
qed

lemma neigh_inv_keeps [simp]:
  "neigh_inv (r\<lparr>rt_floodHistory := h\<rparr>) = neigh_inv r" "neigh_inv (rt_emit e r) = neigh_inv r"
  "rt_neigh (r\<lparr>rt_floodHistory := h\<rparr>) = rt_neigh r" "rt_neigh (rt_emit e r) = rt_neigh r"
  by (simp_all add: neigh_inv_def neigh_ids_def used_def rt_emit_def rt_neigh_def)

lemma recv_flood_relays:
  assumes "neigh_inv r" "fh_ok (rt_floodHistory r)" "pkt_ok p" "1 \<le> Flood_getTTL p"
    and "getFloodType p \<noteq> FloodType_val FloodTypeTopo" "\<not> FloodHistory_contains (rt_floodHistory r) (getSrc p) (getSeq p)"
    and "\<forall>cb d x. re_call env cb d x = x"
    and "\<forall>n \<in> set (rt_neigh r). \<forall>b. nd_id n = getLastHop p \<and> nd_lastBeacon n = Some b \<longrightarrow>
      hasNoMpr (Beacon b) (rt_myNodeId r) = Some (Some False)"
  shows "\<exists>x r'. recv_flood env p r = oreturn (x, r') \<and>
    rt_log r' = rt_log r @ (case om_find (getFloodType p) (rt_broadcastRegister r) of None \<Rightarrow> [] | Some (cb, d) \<Rightarrow> [Deliver cb d (Flood p)]) @
      (if Flood_getTTL p = 1 then [] else [SendPacket (repeated r p) False]) \<and>
    FloodHistory_contains (rt_floodHistory r') (getSrc p) (getSeq p)"
proof -
  let ?r1 = "r\<lparr>rt_floodHistory := FloodHistory_insert (getSrc p) (getSeq p) (rt_floodHistory r)\<rparr>"
  let ?e = "om_find (getFloodType p) (rt_broadcastRegister r)"
  define r2 where "r2 = (case ?e of None \<Rightarrow> ?r1 | Some (cb, d) \<Rightarrow> rt_emit (Deliver cb d (Flood p)) ?r1)"
  have r2: "neigh_inv r2" "rt_neigh r2 = rt_neigh r" "rt_myNodeId r2 = rt_myNodeId r" "rt_BroadcastId r2 = rt_BroadcastId r"
    "rt_floodHistory r2 = rt_floodHistory ?r1"
    "rt_log r2 = rt_log r @ (case ?e of None \<Rightarrow> [] | Some (cb, d) \<Rightarrow> [Deliver cb d (Flood p)])"
    using assms(1) by (auto simp: r2_def rt_emit_def split: option.split)
      (simp_all add: neigh_inv_def neigh_ids_def used_def rt_neigh_def)
  have contents: "flood_contents env (Flood p) ?r1 = oreturn (Some (Flood p, r2))"
    using assms(5,7) by (auto simp: flood_contents_def deliver_def r2_def split: option.split)
  obtain x where x: "flood_repeat env (Flood p) r2 =
      oreturn (x, if Flood_getTTL (Flood p) = 1 then r2 else rt_emit (SendPacket (repeated r2 (Flood p)) False) r2)"
    using flood_repeat_sends [OF r2(1) refl, of p env] assms(3,4,8) r2(2,3) by auto
  have rep: "repeated r2 (Flood p) = repeated r p" by (simp add: repeated_def r2 Flood_again)
  have "recv_flood env p r = flood_repeat env (Flood p) r2"
    using assms(4,6) contents by (simp add: recv_flood_def Let_def)
  moreover have "FloodHistory_contains (rt_floodHistory ?r1) (getSrc p) (getSeq p)"
    using fh.mem_just_inserted [OF assms(2), of "[]" "(getSrc p, getSeq p)"] by (simp add: FLOOD_HISTORY_NUM_ENTRIES_def)
  ultimately show ?thesis using x rep r2(5,6) by (auto simp: rt_emit_def)
qed

lemma recv_flood_duplicate:
  "FloodHistory_contains (rt_floodHistory r) (getSrc p) (getSeq p) \<Longrightarrow> recv_flood env p r = oreturn (Flood p, r)"
  by (simp add: recv_flood_def Let_def)

section \<open>Unicast packets\<close>

definition forwarded :: "NodeId \<Rightarrow> BasePacket \<Rightarrow> BasePacket" where
  "forwarded nh p = setDest nh (setNextHop nh (Uc_decrTTL (UnicastPacket p)))"

lemma decremented_fields:
  assumes "pkt_ok p" "0 < Uc_getTTL p" "q = Uc_decrTTL (UnicastPacket p)"
  shows "pkt_ok q" "Uc_getTTL q = Uc_getTTL p - 1" "getNextHop q = getNextHop p" "getUcDest q = getUcDest p"
    "getUcPacketType q = getUcPacketType p" "getTraceFlag q = getTraceFlag p"
    "\<And>j. 1 \<le> j \<Longrightarrow> j \<noteq> Uc_OffsetTTL \<Longrightarrow> buffer q ! j = buffer p ! j"
proof -
  let ?u = "UnicastPacket p"
  have q: "q = Uc_setTTL (Uc_getTTL p - 1) ?u" using assms(3) by (simp add: decrTTL_set)
  have ok: "pkt_ok ?u" using assms(1) by simp
  have v: "ubyte_ok (Uc_getTTL p - 1)" using TTL_range(3,4) [of p] assms(2) by (simp add: ubyte_ok_def)
  show "pkt_ok q" "Uc_getTTL q = Uc_getTTL p - 1" unfolding q by (rule uc_ttl.set_ok [OF ok], rule uc_ttl.get_set [OF ok v])
  show "getNextHop q = getNextHop p" "getUcDest q = getUcDest p" "getUcPacketType q = getUcPacketType p"
    unfolding q by (simp_all add: getNextHop_def getUcDest_def getUcPacketType_def Uc_setTTL_def UnicastPacket_def
        mem_read_update_out offset_defs)
  show "getTraceFlag q = getTraceFlag p"
    using type_trace_independent(1) [OF assms(1), of PacketTypeUnicast]
    unfolding q by (simp add: getTraceFlag_bit Uc_setTTL_def UnicastPacket_def offset_defs)
  show "buffer q ! j = buffer p ! j" if "1 \<le> j" "j \<noteq> Uc_OffsetTTL" for j
    using that unfolding q by (simp add: Uc_setTTL_def UnicastPacket_def)
qed

lemma forwarded_fields:
  assumes "pkt_ok p" "0 < Uc_getTTL p" "NodeId_ok nh"
  shows "getNextHop (forwarded nh p) = nh" "pkt_dest (forwarded nh p) = nh" "Uc_getTTL (forwarded nh p) = Uc_getTTL p - 1"
    "\<And>j. 1 \<le> j \<Longrightarrow> j < MaxSize \<Longrightarrow> j < OffsetNextHop \<or> Uc_OffsetTTL < j \<Longrightarrow> buffer (forwarded nh p) ! j = buffer p ! j"
proof -
  define q where "q = Uc_decrTTL (UnicastPacket p)"
  note q = decremented_fields [OF assms(1,2) q_def]
  show "getNextHop (forwarded nh p) = nh" "pkt_dest (forwarded nh p) = nh"
    using uc_next.get_set [OF q(1) assms(3)] by (simp_all add: forwarded_def q_def)
  show "Uc_getTTL (forwarded nh p) = Uc_getTTL p - 1"
    using q(1,2) uc_next.frame [OF q(1), of Uc_OffsetTTL nh]
    by (simp add: forwarded_def q_def [symmetric] Uc_getTTL_def offset_defs MaxSize_def)
  show "buffer (forwarded nh p) ! j = buffer p ! j" if "1 \<le> j" "j < MaxSize" "j < OffsetNextHop \<or> Uc_OffsetTTL < j" for j
    using uc_next.frame [OF q(1) that(2), of nh] q(7) [of j] that by (auto simp: forwarded_def q_def [symmetric] offset_defs)
qed

lemma recv_unicast_routes:
  assumes "pkt_ok p" "\<not> getTraceFlag p" "getNextHop p = rt_myNodeId r" "1 < Uc_getTTL p" "getUcDest p \<noteq> rt_myNodeId r"
    and "RTopology_getNextHop (re_topo env) (getUcDest p) NodeId_default (rt_topology r) = Some (Inr ((nh, found), t'))"
  shows "recv_unicast env p r = oreturn (if found
    then (forwarded nh p, rt_emit (SendPacket (forwarded nh p) False) (r\<lparr>rt_topology := t'\<rparr>))
    else (Uc_decrTTL (UnicastPacket p), r\<lparr>rt_topology := t'\<rparr>))"
proof -
  have "0 < Uc_getTTL p" using assms(4) by simp
  note q = decremented_fields [OF assms(1) this refl]
  show ?thesis
    using q(2-6) assms(2-6)
    by (simp add: recv_unicast_def trace_packet_def Let_def forwarded_def)
qed

section \<open>The next hop\<close>

text \<open>A neighbor with which a shortest path to the destination begins.\<close>

definition on_shortest_path :: "graph \<Rightarrow> NodeId \<Rightarrow> NodeId \<Rightarrow> NodeId \<Rightarrow> bool" where
  "on_shortest_path g s nh v \<longleftrightarrow> (\<exists>w c. edge g s nh w \<and> walk g nh v c \<and> shortest g s v (w + c))"

lemma getNextHop_routes:
  assumes inv: "topo_inv t" and "\<not> dirty t" and routes: "routes (myNodeId t) (adjList t)"
  shows "\<exists>nh found. RTopology_getNextHop te dest nh0 t = Some (Inr ((nh, found), t)) \<and>
    (dest \<noteq> myNodeId t \<longrightarrow> (if \<exists>c. walk (graph_of (adjList t)) (myNodeId t) dest c
      then found \<and> NodeId_ok nh \<and> on_shortest_path (graph_of (adjList t)) (myNodeId t) nh dest else \<not> found))"
proof -
  let ?a = "adjList t" and ?s = "myNodeId t"
  have w: "weights_ok (graph_of ?a)" using weights_ok_topo inv by (simp add: topo_inv_def)
  define res where "res = (case om_find dest ?a of None \<Rightarrow> (nh0, False) | Some d \<Rightarrow> (nextHop d, True))"
  have "RTopology_getNextHop te dest nh0 t = Some (Inr ((fst res, if fst res = ?s then False else snd res), t))"
    using assms(2) by (simp add: RTopology_getNextHop_def res_def split: option.split)
  moreover have "if \<exists>c. walk (graph_of ?a) ?s dest c
    then (fst res \<noteq> ?s \<and> snd res) \<and> NodeId_ok (fst res) \<and> on_shortest_path (graph_of ?a) ?s (fst res) dest
    else \<not> (fst res \<noteq> ?s \<and> snd res)" if dest: "dest \<noteq> ?s"
  proof (cases "om_find dest ?a")
    case None
    then have "\<nexists>c. walk (graph_of ?a) ?s dest c" using walk_node by fastforce
    then show ?thesis using None by (simp add: res_def)
  next
    case (Some e)
    then have hop: "hop_of ?a dest = nextHop e" "res = (nextHop e, True)" by (simp_all add: hop_of_def res_def)
    have R: "dn ?a dest = far \<longleftrightarrow> (\<nexists>c. walk (graph_of ?a) ?s dest c)" "dn ?a dest \<noteq> far \<Longrightarrow> shortest (graph_of ?a) ?s dest (dn ?a dest)"
      "dn ?a dest = far \<Longrightarrow> nextHop e = ?s"
      "dn ?a dest \<noteq> far \<Longrightarrow> \<exists>w c. edge (graph_of ?a) ?s (nextHop e) w \<and> walk (graph_of ?a) (nextHop e) dest c \<and> dn ?a dest = w + c"
      using spec [OF routes [unfolded routes_def], of dest] Some dest hop(1) by (auto split: if_splits)
    show ?thesis
    proof (cases "dn ?a dest = far")
      case True
      then show ?thesis using R(1,3) hop(2) by simp
    next
      case False
      then obtain w c where wc: "edge (graph_of ?a) ?s (nextHop e) w" "walk (graph_of ?a) (nextHop e) dest c" "dn ?a dest = w + c"
        using R(4) by blast
      have "0 < w" by (rule edge_weight(1) [OF w wc(1)])
      then have ne: "nextHop e \<noteq> ?s" using wc(2,3) R(2) [OF False] by (auto simp: shortest_def)
      have "om_find (nextHop e) ?a \<noteq> None" using walk_node [OF wc(2)] by simp
      then obtain f where "(nextHop e, f) \<in> set ?a" using om_find_Some_mem by fastforce
      then have "NodeId_ok (nextHop e)" using inv by (auto simp: topo_inv_def topo_wf_def node_ok_def)
      moreover have "on_shortest_path (graph_of ?a) ?s (nextHop e) dest"
        using wc R(2) [OF False] unfolding on_shortest_path_def by metis
      ultimately show ?thesis using R(1) False ne hop(2) by simp
    qed
  qed
  ultimately show ?thesis
    by (intro exI [of _ "fst res"] exI [of _ "if fst res = ?s then False else snd res"]) (auto split: if_splits)
qed

section \<open>Failures\<close>

text \<open>When the list is full, a beacon of a known neighbor fails an assertion.\<close>

lemma refreshNeigh_full_aborts:
  assumes "neigh_inv r" "rt_numNeigh r = MaxNeighbors" "getType p = PacketTypeBeacon" "getSrc p \<in> set (neigh_ids r)"
  shows "refreshNeigh env pid p r = ofail RtAssertFails"
proof -
  note I = neigh_invD [OF assms(1)]
  obtain res where res: "findNeigh (getSrc p) r = oreturn res" "found_at (rt_neighbors r) (rt_numNeigh r) (getSrc p) res"
    using findNeigh_finds [OF assms(1)] by blast
  obtain j where j: "j < rt_numNeigh r" "nd_id (snd (rt_neighbors r ! j)) = getSrc p"
    using assms(4) I(3,8) by (auto simp: neigh_ids_def in_set_conv_nth)
  then have "\<not> res < 0" using res(2) by (fastforce simp: found_at_def not_le)
  then show ?thesis using res(1) assms(2,3) by (simp add: refreshNeigh_def)
qed

text \<open>Two neighbors whose links end at the same time fail an assertion: the second is not updated.\<close>

lemma checkLinkFailure_two_aborts:
  assumes "neigh_inv r" "used r = (a, n) # (b, m) # ns" "nd_active n" "nd_active m"
    and "nd_linkValidity n \<le> rt_time r" "nd_linkValidity m \<le> rt_time r"
  shows "checkLinkFailure env r = ofail RtAssertFails"
proof -
  have "check_links (rt_time r) (used r) False None = ofail RtAssertFails"
    using assms(2-6) by (simp add: updateInactive_def)
  then show ?thesis by (simp add: checkLinkFailure_def Let_def used_def rt_time_def)
qed

text \<open>With a period that is not positive the schedule of the beacons does not end.\<close>

lemma next_beacon_diverges:
  assumes "period \<le> 0" "nb \<le> now"
  shows "next_beacon now period nb = None"
proof -
  have "next_beacon now period nb = Some v \<Longrightarrow> \<not> (period \<le> 0 \<and> nb \<le> now)" for v
  proof (induction rule: next_beacon.raw_induct [rotated, consumes 1])
    case (1 next_beacon now period nb v)
    show ?case using 1(2) by (force split: if_splits dest: 1(1))
  qed
  then show ?thesis using assms by (cases "next_beacon now period nb") auto
qed

text \<open>A unicast packet that arrives with a time to live of zero goes on with 255.\<close>

lemma Uc_decrTTL_wraps:
  assumes "pkt_ok p" "Uc_getTTL p = 0"
  shows "Uc_getTTL (Uc_decrTTL (UnicastPacket p)) = 255"
proof -
  have "buffer p ! Uc_OffsetTTL = 0" using assms(2) by (simp add: Uc_getTTL_def unsigned_eq_0_iff)
  then show ?thesis
    using assms(1)
    by (simp add: Uc_getTTL_def Uc_decrTTL_def UnicastPacket_def setType_def pkt_ok_def MaxSize_def offset_defs unsigned_minus_1_eq_mask mask_eq_exp_minus_1)
qed

text \<open>A receiver that is registered for a flow does not get the packets of this flow, unless the type has the same number.\<close>

lemma flow_receiver_ignored:
  assumes "getType p = PacketTypeForward" "getFlowDest p = rt_myNodeId r" "om_find (getFlowType p) (rt_flowReceiverMap r) = None"
  shows "sendFlowPacket env p r = oreturn (0, p, r)"
  using assms by (simp add: sendFlowPacket_def deliver_def)

end
