(* ===== verification/Routing_Properties.thy ===== *)
theory Routing_Properties
  imports Routing_Packets
begin

text \<open>
  The properties of the routing daemon: the list of neighbors under beacons, the schedule and the
  contents of beacons, the period of topology packets, and the fate of flood and unicast packets.
\<close>

section \<open>An example\<close>

definition example_renv :: routing_env where
  "example_renv = \<lparr>re_topo = example_env, re_nanosecs = (\<lambda>d. d * 1000000), re_get_quality = Metric_my_get_quality,
     re_crypto = None, re_firewall = None, re_send = (\<lambda>_ _. True), re_call = (\<lambda>_ _ x. x)\<rparr>"

definition example_routing :: AwdsRouting where
  "example_routing = (case AwdsRouting_new example_renv (NodeId 1) (NodeId 0xFFFFFFFFFFFF) 0 True
     (replicate 40 (0, example_descr (NodeId 0))) (replicate FLOOD_HISTORY_NUM_ENTRIES \<lparr>ent_id = NodeId 0, ent_seq = 0\<rparr>)
     of Some (Inr r) \<Rightarrow> r)"

lemma example_duration: "te_duration example_env n d = n * 1000 div d"
  by (simp add: example_env_def)

lemma example_routing_fields:
  "rt_neighbors example_routing = replicate 40 (0, example_descr (NodeId 0))" "rt_numNeigh example_routing = 0"
  "rt_hop2list example_routing = []" "rt_refs example_routing = (\<lambda>_. 0)" "rt_beaconPeriod example_routing = 1400"
  "rt_myNodeId example_routing = NodeId 1" "rt_topology example_routing = example_new"
  "rt_floodHistory example_routing = new_FloodHistory (replicate FLOOD_HISTORY_NUM_ENTRIES \<lparr>ent_id = NodeId 0, ent_seq = 0\<rparr>)"
  "rt_broadcastRegister example_routing = []"
  using example_new_eq(1)
  by (simp_all add: example_routing_def AwdsRouting_new_def example_renv_def oreturn_def Let_def rt_emit_def
      BEACON_INTERVAL_def example_duration)

lemma example_routing_inv: "neigh_inv example_routing"
  by (simp add: neigh_inv_def example_routing_fields neigh_ids_def used_def refs_ok_def MaxNeighbors_def h2_rep_def om_find_def)

lemma example_pkt: "pkt_ok new_BasePacket" "getType new_BasePacket = PacketTypeBeacon"
  by (simp_all add: pkt_ok_def new_BasePacket_def getType_def MaxSize_def)

lemma uint_of_small: "0 \<le> k \<Longrightarrow> k < 2 ^ 32 \<Longrightarrow> uint (word_of_int k :: u32) = k"
  by (simp add: unsigned_of_int take_bit_int_eq_self)

section \<open>Properties\<close>

text \<open>
  Property C8: a beacon is entered into the list of neighbors.  Given the invariant (the list is
  sorted, every neighbor has its last beacon, every beacon is referenced, and the two-hop list counts
  exactly the stations these beacons list), room in the array, a reference of the caller to the
  packet, and a sequence number that is less than 32 ahead of the last one, \<open>refreshNeigh\<close>
  returns and keeps the invariant; it reports whether the sender is new, the sender is in the
  list with this beacon, and the other neighbors are as before.
\<close>

theorem refreshNeigh_keeps_neighbors:
  assumes "neigh_inv r" "rt_numNeigh r < MaxNeighbors" "getType p = PacketTypeBeacon"
    and "int (count (mset (map fst (used r))) pid) < rt_refs r pid"
    and "\<forall>n \<in> set (rt_neigh r). \<forall>b. nd_id n = getSrc p \<and> nd_lastBeacon n = Some b \<longrightarrow>
      unat (ucast (getSeq p - getSeq b) :: byte) < 32"
  shows "\<exists>r'. refreshNeigh env pid p r = oreturn (getSrc p \<notin> set (neigh_ids r), r') \<and> neigh_inv r' \<and>
    (\<exists>n \<in> set (rt_neigh r'). nd_id n = getSrc p \<and> nd_lastBeacon n = Some (Beacon p)) \<and>
    (\<forall>n. nd_id n \<noteq> getSrc p \<longrightarrow> (n \<in> set (rt_neigh r') \<longleftrightarrow> n \<in> set (rt_neigh r)))"
  using refreshNeigh_refreshes [OF assms(1,4,2,3,5)] unfolding refreshed_def by blast

theorem refreshNeigh_keeps_neighbors_witness:
  "\<exists>r'. refreshNeigh example_renv 5 new_BasePacket (rt_ref 5 example_routing) = oreturn (True, r') \<and> neigh_inv r'"
proof -
  have "neigh_inv (rt_ref 5 example_routing)"
    using example_routing_inv by (simp add: neigh_inv_def neigh_ids_def used_def refs_ok_def rt_ref_def example_routing_fields)
  moreover have "used (rt_ref 5 example_routing) = []" "rt_numNeigh (rt_ref 5 example_routing) = 0" "rt_refs (rt_ref 5 example_routing) 5 = 1"
    by (simp_all add: used_def rt_ref_def example_routing_fields)
  ultimately show ?thesis
    using refreshNeigh_keeps_neighbors [of "rt_ref 5 example_routing" new_BasePacket 5 example_renv] example_pkt(2)
    by (auto simp: MaxNeighbors_def rt_neigh_used neigh_ids_def)
qed



text \<open>
  Property C36: the adaptive period of topology packets.  For a topology of up to 1024 nodes the
  computation divides by a positive root and does not overflow: the period is \<open>800 n\<^sup>2\<close> divided by the integer
  square root of \<open>16 n\<close>, it grows from \<open>200 n\<close> on and at most quadratically, and the validity a
  receiver reads from the packet is three times the period.
\<close>

theorem topo_period_bounds:
  assumes "0 < n" "n \<le> 1024" "pkt_ok p"
  shows "\<exists>y v. y * y \<le> 16 * n \<and> 16 * n < (y + 1) * (y + 1) \<and> v = 800 * n * n div y \<and>
    adaptive_period n = oreturn (int v) \<and> 200 * n \<le> v \<and> v \<le> 200 * n * n \<and>
    getValidity dur (setValidity (3 * int v) p) = dur (3 * int v) 1000"
proof -
  obtain y where y: "y * y \<le> 16 * n" "16 * n < (y + 1) * (y + 1)" "adaptive_period n = oreturn (int (800 * n * n div y))"
    "200 * n \<le> 800 * n * n div y" "800 * n * n div y \<le> 200 * n * n"
    using adaptive_period_value [OF assms(1,2)] by blast
  let ?v = "800 * n * n div y"
  have "n * n \<le> 1024 * 1024" using assms(2) by (intro mult_le_mono)
  then have "200 * n * n \<le> 200 * (1024 * 1024)" by (simp add: mult.assoc)
  then have "?v < 2 ^ 30" using y(5) by simp
  then have "int ?v < 2 ^ 30" by (simp only: of_nat_less_numeral_power_cancel_iff)
  then have "3 * int ?v < 2 ^ 32" by simp
  then have "uint (word_of_int (3 * int ?v) :: u32) = 3 * int ?v" by (intro uint_of_small) simp_all
  moreover have "length (toArray (word_of_int (3 * int ?v) :: u32)) = 4" by (simp add: length_toArray)
  then have "mem_read (buffer (setValidity (3 * int ?v) p)) OffsetValidity 4 = toArray (word_of_int (3 * int ?v) :: u32)"
    using assms(3) by (simp add: setValidity_def mem_read_write_same pkt_ok_def MaxSize_def topo_offsets)
  ultimately have "getValidity dur (setValidity (3 * int ?v) p) = dur (3 * int ?v) 1000"
    using fromArray_toArray [of "word_of_int (3 * int ?v) :: u32" "[]"] by (simp only: getValidity_def append_Nil2) simp
  then show ?thesis using y by blast
qed

theorem topo_period_bounds_witness:
  "\<exists>v. adaptive_period 4 = oreturn (int v) \<and> 800 \<le> v \<and> v \<le> 3200"
  using topo_period_bounds [of 4 new_BasePacket] example_pkt(1) by force


lemma example_history: "fh_ok (rt_floodHistory example_routing)" "\<not> FloodHistory_contains (rt_floodHistory example_routing) i s"
  by (simp add: example_routing_fields new_fh_ok)
    (simp add: example_routing_fields FloodHistory_contains_def new_FloodHistory_def)


text \<open>
  Property C5: a unicast packet follows a shortest path.  Let the topology of the daemon be the result of
  \<open>updateTopology\<close> in a reachable state with at most 1024 nodes whose own node is valid.  A packet whose next
  hop is this station, with a time to live above one, without trace flag and for another
  station is sent, if the destination is reachable, to a neighbor with which a shortest path begins: the next hop field is set, the time to live
  is one less and all other bytes after the first are unchanged.  If the destination is not reachable, nothing is sent.
\<close>

theorem unicast_follows_shortest_path:
  assumes "topo_reach (re_topo env) i t" "NodeId_ok i" "\<forall>f b. te_calculate (re_topo env) f b \<noteq> 0" "std_sort (te_sort (re_topo env))"
    and "length (adjList t) \<le> 1024" "om_find (myNodeId t) (adjList t) = Some d" "lastEventTime t < nodeValidity d"
    and "updateTopology (re_topo env) t = Some (Inr (rt_topology r))" "rt_myNodeId r = myNodeId t"
    and "pkt_ok p" "\<not> getTraceFlag p" "getNextHop p = rt_myNodeId r" "1 < Uc_getTTL p" "getUcDest p \<noteq> rt_myNodeId r"
    and "g = graph_of (adjList (rt_topology r))"
  shows "if \<exists>c. walk g (rt_myNodeId r) (getUcDest p) c
    then \<exists>q nh. recv_unicast env p r = oreturn (q, rt_emit (SendPacket q False) r) \<and>
      on_shortest_path g (rt_myNodeId r) nh (getUcDest p) \<and> pkt_dest q = nh \<and> getNextHop q = nh \<and> Uc_getTTL q = Uc_getTTL p - 1 \<and>
      (\<forall>j. 1 \<le> j \<and> j < MaxSize \<and> (j < OffsetNextHop \<or> Uc_OffsetTTL < j) \<longrightarrow> buffer q ! j = buffer p ! j)
    else \<exists>q. recv_unicast env p r = oreturn (q, r)"
proof -
  let ?t = "rt_topology r"
  have inv: "topo_inv t" by (rule topo_reach_inv [OF assms(1-3)])
  have t': "topo_inv ?t" "\<not> dirty ?t" "myNodeId ?t = rt_myNodeId r"
    using updateTopology_keeps [OF inv assms(8)] frameD(2) assms(9) by auto
  have "routes (myNodeId ?t) (adjList ?t)"
    using updateTopology_returns [OF inv assms(4-7)] assms(8,9) t'(3) by auto
  from getNextHop_routes [OF t'(1,2) this] obtain nh found where
    nh: "RTopology_getNextHop (re_topo env) (getUcDest p) NodeId_default ?t = Some (Inr ((nh, found), ?t))"
      "if \<exists>c. walk g (rt_myNodeId r) (getUcDest p) c
       then found \<and> NodeId_ok nh \<and> on_shortest_path g (rt_myNodeId r) nh (getUcDest p) else \<not> found"
    using assms(14,15) t'(3) by metis
  have R: "recv_unicast env p r = oreturn (if found then (forwarded nh p, rt_emit (SendPacket (forwarded nh p) False) r)
      else (Uc_decrTTL (UnicastPacket p), r))"
    using recv_unicast_routes [OF assms(10-14) nh(1)] by simp
  show ?thesis
  proof (cases "\<exists>c. walk g (rt_myNodeId r) (getUcDest p) c")
    case True
    then have f: "found" "NodeId_ok nh" "on_shortest_path g (rt_myNodeId r) nh (getUcDest p)" using nh(2) by simp_all
    have "0 < Uc_getTTL p" using assms(13) by simp
    note F = forwarded_fields [OF assms(10) this f(2)]
    have "recv_unicast env p r = oreturn (forwarded nh p, rt_emit (SendPacket (forwarded nh p) False) r)" using R f(1) by simp
    then show ?thesis unfolding if_P [OF True] using f(3) F by blast
  next
    case False
    then show ?thesis using R nh(2) by auto
  qed
qed

text \<open>Station 1 has a link to station 7, which is valid and up to date.\<close>

definition own_valid :: "RTopology \<Rightarrow> bool" where
  "own_valid t = (case om_find (myNodeId t) (adjList t) of None \<Rightarrow> False | Some d \<Rightarrow> lastEventTime t < nodeValidity d)"

lemma example_updated:
  "\<exists>t t'. topo_reach example_env (NodeId 1) t \<and> length (adjList t) \<le> 1024 \<and> own_valid t \<and> myNodeId t = NodeId 1 \<and>
    updateTopology example_env t = Some (Inr t') \<and> hasLink (NodeId 1) (NodeId 7) t' \<and> hasNode (NodeId 7) t'"
proof -
  have "accepted (feed example_env (example_topo 7 1 30) example_new) (\<lambda>t1.
      accepted (feed example_env (example_topo 1 7 30) t1) (\<lambda>t2.
        length (adjList t2) \<le> 1024 \<and> own_valid t2 \<and> myNodeId t2 = NodeId 1 \<and>
        accepted (updateTopology example_env t2) (\<lambda>t3. hasLink (NodeId 1) (NodeId 7) t3 \<and> hasNode (NodeId 7) t3)))" by code_simp
  then obtain t1 t2 where t: "feed example_env (example_topo 7 1 30) example_new = Some (Inr t1)"
    "feed example_env (example_topo 1 7 30) t1 = Some (Inr t2)"
    "length (adjList t2) \<le> 1024 \<and> own_valid t2 \<and> myNodeId t2 = NodeId 1 \<and>
      accepted (updateTopology example_env t2) (\<lambda>t3. hasLink (NodeId 1) (NodeId 7) t3 \<and> hasNode (NodeId 7) t3)"
    by (elim acceptedE)
  then obtain t3 where "updateTopology example_env t2 = Some (Inr t3)" "hasLink (NodeId 1) (NodeId 7) t3 \<and> hasNode (NodeId 7) t3"
    by (auto elim: acceptedE)
  moreover have "topo_reach example_env (NodeId 1) t2"
    using reach_feed [OF reach_feed [OF example_new_reach example_topo_ok(1) t(1)] example_topo_ok(2) t(2)] .
  ultimately show ?thesis using t(3) by blast
qed

definition example_unicast :: BasePacket where
  "example_unicast = new_BasePacket\<lparr>buffer := [2, 0, 0, 0, 0, 0, 9, 0, 0, 0, 0, 0, 0, 0, 7, 0, 0, 0, 0, 0, 1, 5] @ replicate (MaxSize - 22) 0\<rparr>"

lemma example_unicast_fields:
  "pkt_ok example_unicast" "\<not> getTraceFlag example_unicast" "getNextHop example_unicast = NodeId 1" "Uc_getTTL example_unicast = 5"
  "getUcDest example_unicast = NodeId 7"
  by (simp_all add: example_unicast_def pkt_ok_def MaxSize_def getTraceFlag_bit getNextHop_def getUcDest_def Uc_getTTL_def offset_defs
      mem_read_def NodeId_fromArray_def)

theorem unicast_follows_shortest_path_witness:
  "\<exists>r q nh. recv_unicast example_renv example_unicast r = oreturn (q, rt_emit (SendPacket q False) r) \<and> Uc_getTTL q = 4 \<and>
    on_shortest_path (graph_of (adjList (rt_topology r))) (NodeId 1) nh (NodeId 7)"
proof -
  obtain t t' d where t: "topo_reach example_env (NodeId 1) t" "length (adjList t) \<le> 1024"
    "om_find (myNodeId t) (adjList t) = Some d" "lastEventTime t < nodeValidity d" "myNodeId t = NodeId 1"
    "updateTopology example_env t = Some (Inr t')" "hasLink (NodeId 1) (NodeId 7) t'" "hasNode (NodeId 7) t'"
    using example_updated by (auto simp: own_valid_def split: option.splits)
  let ?r = "example_routing\<lparr>rt_topology := t'\<rparr>" and ?g = "graph_of (adjList t')"
  obtain e l where "om_find (NodeId 1) (adjList t') = Some e" "l \<in> set (linklist e)" "neighbor l = NodeId 7"
    using t(7) by (auto simp: hasLink_def AdjList_has_link_def split: option.splits)
  then have "edge ?g (NodeId 1) (NodeId 7) (unat (metric_weight l))" using t(8) by (auto simp: edge_def hasNode_def)
  then have walk: "\<exists>c. walk ?g (NodeId 1) (NodeId 7) c" using edge_walk by blast
  have env: "re_topo example_renv = example_env" by (simp add: example_renv_def)
  have r: "rt_myNodeId ?r = NodeId 1" "rt_topology ?r = t'" by (simp_all add: example_routing_fields)
  have H: "topo_reach (re_topo example_renv) (NodeId 1) t" "\<forall>f b. te_calculate (re_topo example_renv) f b \<noteq> 0"
    "std_sort (te_sort (re_topo example_renv))" "updateTopology (re_topo example_renv) t = Some (Inr (rt_topology ?r))"
    "rt_myNodeId ?r = myNodeId t" "getNextHop example_unicast = rt_myNodeId ?r" "1 < Uc_getTTL example_unicast"
    "getUcDest example_unicast \<noteq> rt_myNodeId ?r" "?g = graph_of (adjList (rt_topology ?r))"
    "\<exists>c. walk ?g (rt_myNodeId ?r) (getUcDest example_unicast) c"
    using t example_env_ok example_unicast_fields env r walk by simp_all
  from unicast_follows_shortest_path [OF H(1) NodeId_ok_1 H(2,3) t(2-4) H(4,5) example_unicast_fields(1,2) H(6-9)]
  obtain q nh where "recv_unicast example_renv example_unicast ?r = oreturn (q, rt_emit (SendPacket q False) ?r)"
    "on_shortest_path ?g (rt_myNodeId ?r) nh (getUcDest example_unicast)" "Uc_getTTL q = Uc_getTTL example_unicast - 1"
    unfolding if_P [OF H(10)] by blast
  then show ?thesis using r example_unicast_fields(4,5) by (intro exI [of _ ?r] exI [of _ q] exI [of _ nh]) simp
qed

end
