(* ===== verification/Metric_Properties.thy ===== *)
theory Metric_Properties
  imports Metric_Probe Routing_Properties
begin

text \<open>
  What the metrics that probe their links achieve: the round-trip metric reaches every station of its table and
  measures the time between its request and the answer; the packet-pair metric keeps the minimum of
  its last measurements.  And where they fail: the tables are emptied by every update of the own
  topology, because the stations are announced to a function of the base class, the packet-pair metric
  never probes anything, and a request is released twice.
\<close>

section \<open>Every station is probed\<close>

text \<open>The timer fires at the given times; the second component is the random number.\<close>

fun RTT_rounds ::
    "probe_env \<Rightarrow> (int \<times> int) list \<Rightarrow> RTTMetric \<Rightarrow> AwdsRouting \<Rightarrow> (RTTMetric \<times> AwdsRouting) rt_result" where
  "RTT_rounds env [] m r = oreturn (m, r)"
| "RTT_rounds env ((now, rnd) # ts) m r = obind (RTT_on_wait env now rnd m r) (\<lambda>(m, r). RTT_rounds env ts m r)"

lemma RTT_rounds_probe:
  assumes "native_ok (pe_layout env)" "NodeId_ok (rt_myNodeId r)" "rtt_table m \<noteq> []"
    "\<And>i. i \<in> set (map fst (rtt_table m)) \<Longrightarrow> NodeId_ok i" "\<And>t. t \<in> set ts \<Longrightarrow> time_ok (fst t)"
  shows "\<exists>m' r'. RTT_rounds env ts m r = oreturn (m', r') \<and>
    sent_to (rt_log r') = sent_to (rt_log r) @
      probe_rounds rd_lastsend (\<lambda>t e. e\<lparr>rd_lastsend := t\<rparr>) (map fst ts) (rtt_table m) \<and>
    length (rtt_waits m') = length (rtt_waits m) + length ts"
  using assms
proof (induction ts arbitrary: m r)
  case (Cons t ts)
  obtain now rnd where t: "t = (now, rnd)" by (cases t)
  obtain i e where o: "find_oldest rd_lastsend (rtt_table m) = Some (i, e)"
    using Cons.prems(3) by (cases "find_oldest rd_lastsend (rtt_table m)") auto
  have "(i, e) \<in> set (rtt_table m)" by (rule find_oldest_Some [OF o])
  then have i: "NodeId_ok i" "time_ok now"
    using Cons.prems(4) [of i] Cons.prems(5) [of t] by (force simp: t)+
  obtain m1 r1 P where g: "RTT_go_measure env now rnd m r = oreturn (m1, r1)"
    "rtt_table m1 = om_adjust i (\<lambda>e. e\<lparr>rd_lastsend := now\<rparr>) (rtt_table m)"
    "rt_log r1 = rt_log r @ [SendPacket P False, PacketReleased (rt_next_packet r)]"
    "probe_ok (pe_layout env) Metric_req (rt_myNodeId r) i P" "rt_myNodeId r1 = rt_myNodeId r"
    "length (rtt_waits m1) = Suc (length (rtt_waits m))"
    by (rule RTT_go_measure_probe [OF Cons.prems(1,2) o i])
  have "rtt_table m1 \<noteq> []" using g(2) Cons.prems(3) by (auto simp: om_adjust_def)
  then obtain m' r' where "RTT_rounds env ts m1 r1 = oreturn (m', r')"
    "sent_to (rt_log r') = sent_to (rt_log r1) @
      probe_rounds rd_lastsend (\<lambda>t e. e\<lparr>rd_lastsend := t\<rparr>) (map fst ts) (rtt_table m1)"
    "length (rtt_waits m') = length (rtt_waits m1) + length ts"
    using Cons.IH [of r1 m1] Cons.prems(1,2,4,5) g(2,5) by auto
  moreover have "sent_to (rt_log r1) = sent_to (rt_log r) @ [i]"
    using g(3,4) by (simp add: probe_ok_def sent_to_def)
  ultimately show ?case
    by (simp add: t RTT_on_wait_def g(1,2,6) o)
qed simp

text \<open>
  The round-trip metric probes every station.  When its timer has fired as often as there are
  stations in its table, at increasing times, it has sent exactly one request to each of them and has
  registered its timer again each time.
\<close>

theorem rtt_probes_every_station:
  assumes "native_ok (pe_layout env)" "NodeId_ok (rt_myNodeId r)" "om_ok (rtt_table m)" "rtt_table m \<noteq> []"
    and "\<And>i. i \<in> set (map fst (rtt_table m)) \<Longrightarrow> NodeId_ok i"
    and "length ts = length (rtt_table m)" "sorted_wrt (<) (map fst ts)" "\<And>t. t \<in> set ts \<Longrightarrow> time_ok (fst t)"
    and "\<And>i e t. (i, e) \<in> set (rtt_table m) \<Longrightarrow> t \<in> set ts \<Longrightarrow> rd_lastsend e < fst t"
  shows "\<exists>m' r' ds. RTT_rounds env ts m r = oreturn (m', r') \<and> sent_to (rt_log r') = sent_to (rt_log r) @ ds \<and>
    distinct ds \<and> set ds = set (map fst (rtt_table m)) \<and> length (rtt_waits m') = length (rtt_waits m) + length ts"
proof -
  let ?ds = "probe_rounds rd_lastsend (\<lambda>t e. e\<lparr>rd_lastsend := t\<rparr>) (map fst ts) (rtt_table m)"
  have "distinct ?ds" "set ?ds = set (map fst (rtt_table m))"
    by (rule rtt_probes.round_robin [OF assms(3) _ assms(7)]; use assms(6,9) in auto)+
  then show ?thesis
    using RTT_rounds_probe [OF assms(1,2,4,5,8)] by blast
qed

section \<open>A measurement\<close>

text \<open>Reading a packet again does not change what it says.\<close>

lemma UCMetricPacket_read:
  assumes "native_ok L" "pkt_ok p"
  shows "UM_getType (UCMetricPacket L p) = UM_getType p" "getTime1 L (UCMetricPacket L p) = getTime1 L p"
    "getDuration L (UCMetricPacket L p) = getDuration L p" "getSrc (UCMetricPacket L p) = getSrc p"
  using assms by (simp_all add: UCMetricPacket_def UnicastPacket_def um_keeps_type hdr_simps)

lemma RTT_on_recv_request:
  assumes "native_ok (pe_layout env)" "NodeId_ok (rt_myNodeId r)" "pkt_ok p" "UM_getType p = MetricType_val Metric_req"
    "NodeId_ok (getSrc p)" "time_ok (getTime1 (pe_layout env) p)" "0 < rt_refs r pid" "pid < rt_next_packet r"
  obtains p' r' Q where "RTT_on_recv env pid p m r = oreturn (p', m, r')"
    "SendPacket Q False \<in> set (rt_log r')" "probe_ok (pe_layout env) Metric_resp (rt_myNodeId r) (getSrc p) Q"
    "getTime1 (pe_layout env) Q = getTime1 (pe_layout env) p"
    "rt_refs r' = (rt_refs r)(rt_next_packet r := 1, pid := rt_refs r pid - 1)"
proof -
  let ?L = "pe_layout env"
  note rd = UCMetricPacket_read [OF assms(1,3)]
  obtain q r1 where new: "newUnicastPacket PACKET_TYPE_UC_METRIC r = (rt_next_packet r, q, r1)"
    and r1: "r1 = r\<lparr>rt_refs := (rt_refs r)(rt_next_packet r := 1), rt_next_packet := rt_next_packet r + 1,
       rt_unicastSeq := rt_unicastSeq r + 1\<rparr>"
    by (rule newUnicastPacket_eq [OF metric_ubyte assms(2)])
  define q1 where "q1 = UCMetricPacket_time ?L Metric_resp 2 1 (getTime1 ?L p) q"
  obtain Q where Q: "sendvia q1 (getSrc p) 0 r1 = (Q, rt_emit (SendPacket Q False) r1)"
    "probe_ok ?L Metric_resp (rt_myNodeId r) (getSrc p) Q" "getTime1 ?L Q = getTime1 ?L p"
    by (rule probe_sent [OF assms(1,2,5) new, of q1 Metric_resp "getTime1 ?L p" 0 r1])
      (use assms(6) in \<open>auto simp: q1_def\<close>)
  define r2 where "r2 = rt_emit (SendPacket Q False) r1"
  define r3 where "r3 = r2\<lparr>rt_refs := (rt_refs r2)(pid := rt_refs r2 pid - 1)\<rparr>"
  have "rt_refs r2 pid = rt_refs r pid" using assms(8) by (simp add: r2_def rt_emit_def r1)
  then have u: "rt_unref pid r2 = oreturn (if rt_refs r3 pid = 0 then rt_emit (PacketReleased pid) r3 else r3)"
    using assms(7) by (simp add: rt_unref_def r3_def Let_def)
  have "RTT_on_recv env pid p m r = oreturn (UCMetricPacket ?L p, m,
      if rt_refs r3 pid = 0 then rt_emit (PacketReleased pid) r3 else r3)"
    by (simp add: RTT_on_recv_def Let_def rd assms(4) new q1_def [symmetric] Q(1) r2_def [symmetric] u)
  then show thesis
    by (rule that [OF _ _ Q(2,3)]) (use assms(8) in \<open>simp_all add: r3_def r2_def rt_emit_def r1\<close>)
qed

lemma RTT_on_recv_response:
  assumes "native_ok (pe_layout env)" "pkt_ok p" "UM_getType p = MetricType_val Metric_resp" "om_ok (rtt_table m)"
    "om_find (getSrc p) (rtt_table m) = Some e"
  obtains p' m' where "RTT_on_recv env pid p m r = oreturn (p', m', r)"
    "om_find (getSrc p) (rtt_table m') = Some (e\<lparr>rd_time := pe_smooth env (rt_time r - getTime1 (pe_layout env) p) (rd_time e),
       rd_lastrecv := rt_time r\<rparr>)"
    "\<And>i. i \<noteq> getSrc p \<Longrightarrow> om_find i (rtt_table m') = om_find i (rtt_table m)"
proof -
  note rd = UCMetricPacket_read [OF assms(1,2)]
  define t where "t = om_adjust (getSrc p) (\<lambda>d. d\<lparr>rd_time := pe_smooth env (rt_time r - getTime1 (pe_layout env) p) (rd_time e),
      rd_lastrecv := rt_time r\<rparr>) (rtt_table m)"
  have "\<exists>h. RTT_on_recv env pid p m r =
      oreturn (UCMetricPacket (pe_layout env) p, m\<lparr>rtt_table := t, rtt_history := h\<rparr>, r)"
  proof (cases "rtt_history m")
    case None
    then have "RTT_on_recv env pid p m r = oreturn (UCMetricPacket (pe_layout env) p, m\<lparr>rtt_table := t\<rparr>, r)"
      using assms(3,5) by (simp add: RTT_on_recv_def Let_def rd t_def)
    moreover have "m\<lparr>rtt_table := t\<rparr> = m\<lparr>rtt_table := t, rtt_history := None\<rparr>"
      using None by (cases m) simp
    ultimately show ?thesis by metis
  next
    case (Some l)
    then show ?thesis
      using assms(3,5) by (simp add: RTT_on_recv_def Let_def rd t_def) metis
  qed
  then obtain h where h: "RTT_on_recv env pid p m r =
      oreturn (UCMetricPacket (pe_layout env) p, m\<lparr>rtt_table := t, rtt_history := h\<rparr>, r)" ..
  show thesis
    by (rule that [OF h]) (simp_all add: t_def om_find_adjust assms(5))
qed

text \<open>
  Property C37: what the metric measures is the round-trip time.  The request that a station sends at time
  \<open>t0\<close> to its neighbor makes the neighbor send an answer, and when this answer arrives at time \<open>t1\<close> the
  duration \<open>t1 - t0\<close> is entered, smoothed, for the neighbor and for no other station.
\<close>

theorem rtt_measures_round_trip:
  assumes "native_ok (pe_layout env)" "om_ok (rtt_table ma)" "find_oldest rd_lastsend (rtt_table ma) = Some (rt_myNodeId rb, e)"
    and "NodeId_ok (rt_myNodeId ra)" "NodeId_ok (rt_myNodeId rb)" "time_ok t0"
    and "0 < rt_refs rb pid" "pid < rt_next_packet rb" "rt_time ra' = t1"
  shows "\<exists>ma' ra1 P p rb' Q p' ma''.
    RTT_on_wait env t0 rnd ma ra = oreturn (ma', ra1) \<and> SendPacket P False \<in> set (rt_log ra1) \<and> pkt_dest P = rt_myNodeId rb \<and>
    RTT_on_recv env pid P mb rb = oreturn (p, mb, rb') \<and> SendPacket Q False \<in> set (rt_log rb') \<and> pkt_dest Q = rt_myNodeId ra \<and>
    RTT_on_recv env qid Q ma' ra' = oreturn (p', ma'', ra') \<and>
    om_find (rt_myNodeId rb) (rtt_table ma'') =
      Some (e\<lparr>rd_lastsend := t0, rd_time := pe_smooth env (t1 - t0) (rd_time e), rd_lastrecv := t1\<rparr>) \<and>
    (\<forall>i. i \<noteq> rt_myNodeId rb \<longrightarrow> om_find i (rtt_table ma'') = om_find i (rtt_table ma))"
proof -
  let ?L = "pe_layout env" and ?a = "rt_myNodeId ra" and ?b = "rt_myNodeId rb"
  obtain ma' ra1 P where P: "RTT_go_measure env t0 rnd ma ra = oreturn (ma', ra1)"
    "rtt_table ma' = om_adjust ?b (\<lambda>e. e\<lparr>rd_lastsend := t0\<rparr>) (rtt_table ma)"
    "rt_log ra1 = rt_log ra @ [SendPacket P False, PacketReleased (rt_next_packet ra)]"
    "probe_ok ?L Metric_req ?a ?b P" "getTime1 ?L P = t0"
    by (rule RTT_go_measure_probe [OF assms(1,4,3,5,6)])
  have Pf: "pkt_ok P" "UM_getType P = MetricType_val Metric_req" "getSrc P = ?a" "pkt_dest P = ?b"
    using P(4) by (simp_all add: probe_ok_def)
  obtain p rb' Q where Q: "RTT_on_recv env pid P mb rb = oreturn (p, mb, rb')" "SendPacket Q False \<in> set (rt_log rb')"
    "probe_ok ?L Metric_resp ?b ?a Q" "getTime1 ?L Q = t0"
    by (rule RTT_on_recv_request [OF assms(1,5) Pf(1,2) _ _ assms(7,8), of mb])
      (use assms(4,6) Pf(3) P(5) in \<open>auto\<close>)
  have Qf: "pkt_ok Q" "UM_getType Q = MetricType_val Metric_resp" "getSrc Q = ?b" "pkt_dest Q = ?a"
    using Q(3) by (simp_all add: probe_ok_def)
  have e: "om_find ?b (rtt_table ma) = Some e"
    using find_oldest_Some(1) [OF assms(3)] assms(2) by (simp add: om_find_mem)
  have "om_ok (rtt_table ma')" "om_find (getSrc Q) (rtt_table ma') = Some (e\<lparr>rd_lastsend := t0\<rparr>)"
    using assms(2) e by (simp_all add: P(2) Qf(3) om_find_adjust)
  from RTT_on_recv_response [OF assms(1) Qf(1,2) this, of qid ra'] obtain p' ma'' where R:
    "RTT_on_recv env qid Q ma' ra' = oreturn (p', ma'', ra')"
    "om_find ?b (rtt_table ma'') = Some (e\<lparr>rd_lastsend := t0, rd_time := pe_smooth env (t1 - t0) (rd_time e), rd_lastrecv := t1\<rparr>)"
    "\<And>i. i \<noteq> ?b \<Longrightarrow> om_find i (rtt_table ma'') = om_find i (rtt_table ma')"
    by (auto simp: Qf(3) Q(4) assms(9))
  show ?thesis
    by (intro exI conjI) (use P Pf Q Qf R in \<open>auto simp: RTT_on_wait_def om_find_adjust\<close>)
qed


section \<open>The minimum of the last measurements\<close>

text \<open>The ring buffer, oldest measurement first.\<close>

definition pd_ring :: "pp_data \<Rightarrow> int list" where
  "pd_ring e = drop (pd_position e) (pd_times e) @ take (pd_position e) (pd_times e)"

definition ring_ok :: "nat \<Rightarrow> pp_data \<Rightarrow> bool" where
  "ring_ok c e \<longleftrightarrow> 0 < c \<and> length (pd_times e) = c \<and> pd_capacity e = c \<and> pd_position e < c"

lemma pd_setTime_ring:
  assumes "ring_ok c e"
  shows "ring_ok c (pd_setTime env t e) \<and> pd_ring (pd_setTime env t e) = tl (pd_ring e) @ [t]"
proof -
  let ?p = "pd_position e" and ?ts = "pd_times e"
  have h: "0 < c" "length ?ts = c" "pd_capacity e = c" "?p < c" "?ts \<noteq> []"
    using assms by (auto simp: ring_ok_def)
  have e: "pd_setTime env t e = e\<lparr>pd_times := ?ts[?p := t], pd_position := (?p + 1) mod c\<rparr>"
    using h by (simp add: pd_setTime_def)
  have ring: "pd_ring e = ?ts ! ?p # drop (Suc ?p) ?ts @ take ?p ?ts"
    using h by (simp add: pd_ring_def Cons_nth_drop_Suc [symmetric])
  have "pd_ring (pd_setTime env t e) = drop (Suc ?p) ?ts @ take ?p ?ts @ [t]"
  proof (cases "Suc ?p = c")
    case True
    then have "?ts[?p := t] = take ?p ?ts @ [t]"
      using h by (simp add: upd_conv_take_nth_drop)
    with True h show ?thesis by (simp add: e pd_ring_def)
  next
    case False
    with h have "(?p + 1) mod c = Suc ?p" "Suc ?p < c" by simp_all
    with h show ?thesis
      by (simp add: e pd_ring_def take_Suc_conv_app_nth)
  qed
  with ring h show ?thesis by (simp add: e ring_ok_def)
qed

lemma fold_setTime_ring:
  assumes "ring_ok c e" "length (pd_ring e) = c"
  shows "ring_ok c (fold (pd_setTime env) ts e) \<and> pd_ring (fold (pd_setTime env) ts e) = drop (length ts) (pd_ring e @ ts)"
  using assms
proof (induction ts arbitrary: e)
  case (Cons t ts)
  have n: "pd_ring e \<noteq> []" using Cons.prems by (auto simp: ring_ok_def)
  note S = pd_setTime_ring [OF Cons.prems(1), of env t]
  have "length (pd_ring (pd_setTime env t e)) = c" using S Cons.prems(2) n by (cases "pd_ring e") auto
  from Cons.IH [OF S [THEN conjunct1] this] S n show ?case
    by (cases "pd_ring e") auto
qed simp

lemma fold_min_upt:
  assumes "n \<le> length ts" "0 < n"
  shows "fold (\<lambda>i t. min t (ts ! i)) [1..<n] (ts ! 0) = Min (set (take n (ts :: int list)))"
  using assms
proof (induction n)
  case (Suc n)
  show ?case
  proof (cases "n = 0")
    case True
    then show ?thesis using Suc.prems by (cases ts) simp_all
  next
    case False
    then have "[1..<Suc n] = [1..<n] @ [n]" by simp
    moreover have "take n ts \<noteq> []" using False Suc.prems by auto
    ultimately show ?thesis
      using Suc False by (simp add: take_Suc_conv_app_nth min.commute)
  qed
qed simp

text \<open>
  With a buffer of \<open>c\<close> elements the packet-pair metric reports, for a station with the measurements
  \<open>ts\<close>, the minimum of the last \<open>c\<close> of them, where a duration of one second stands for every measurement
  that is still missing.
\<close>

theorem pktpair_minimum_of_last:
  assumes "0 < c"
  shows "fst (pd_getTime (fold (pd_setTime env) ts (pp_data_new env now c))) =
    Min (set (drop (length ts) (replicate c (pe_duration env 1 1) @ ts)))"
proof -
  let ?e = "pp_data_new env now c" and ?f = "fold (pd_setTime env) ts (pp_data_new env now c)"
  have "ring_ok c ?e" "pd_ring ?e = replicate c (pe_duration env 1 1)"
    using assms by (simp_all add: ring_ok_def pp_data_new_def pd_ring_def)
  then have R: "ring_ok c ?f" "pd_ring ?f = drop (length ts) (replicate c (pe_duration env 1 1) @ ts)"
    using fold_setTime_ring [of c ?e env ts] by simp_all
  have n: "pd_times ?f \<noteq> []" "length (pd_times ?f) = c" "pd_capacity ?f = c"
    using R(1) by (auto simp: ring_ok_def)
  have "fst (pd_getTime ?f) = Min (set (pd_times ?f))"
    using n fold_min_upt [of c "pd_times ?f"] assms by (simp add: pd_getTime_def Let_def)
  also have "set (pd_times ?f) = set (pd_ring ?f)"
    by (metis append_take_drop_id pd_ring_def set_append sup_commute)
  finally show ?thesis using R(2) by simp
qed

section \<open>The tables are emptied\<close>

text \<open>
  The own topology packet starts with \<open>begin_update\<close> and ends with \<open>end_update\<close>; stations are
  announced in between, through a pointer to the base class.
\<close>

lemma fold_Metric_addNode [simp]: "fold Metric_addNode is m = m"
  by (induction "is" arbitrary: m) (simp_all add: Metric_addNode_def)

lemma erase_mark: "(\<And>e. \<not> keep (f e)) \<Longrightarrow> erase_loop keep (mark_loop f m) = []"
  by (induction f m rule: mark_loop.induct) simp_all

lemma metrics_forget:
  "rtt_table (RTT_end_update (fold Metric_addNode is (RTT_begin_update m))) = []"
  "tt_table (TT_end_update (fold Metric_addNode is (TT_begin_update n))) = []"
  "pp_nodes (PP_end_update (fold Metric_addNode is (PP_begin_update k))) = []"
  by (simp_all add: RTT_end_update_def RTT_begin_update_def TT_end_update_def TT_begin_update_def
      PP_end_update_def PP_begin_update_def erase_mark)

text \<open>What the functions of the metrics themselves would achieve.\<close>

lemma RTT_addNode_keeps:
  assumes "om_ok (rtt_table m)" "om_find i (rtt_table m) = Some e"
  shows "om_find i (rtt_table (RTT_end_update (RTT_addNode env i (RTT_begin_update m)))) = Some (e\<lparr>rd_in_use := True\<rparr>)"
proof -
  let ?t = "mark_loop (\<lambda>e. e\<lparr>rd_in_use := False\<rparr>) (rtt_table m)"
  have keys: "map fst ?t = map fst (rtt_table m)" by (simp add: mark_loop_map case_prod_beta)
  then have ok: "om_ok ?t" using assms(1) by (simp add: om_ok_def)
  have "om_find i ?t = Some (e\<lparr>rd_in_use := False\<rparr>)"
    using om_find_Some_mem [OF assms(2)] by (subst om_find_mem [OF ok]) (force simp: mark_loop_map)
  then have a: "om_find i (om_adjust i (\<lambda>e. e\<lparr>rd_in_use := True\<rparr>) ?t) = Some (e\<lparr>rd_in_use := True\<rparr>)"
    by (simp add: om_find_adjust)
  have f: "om_ok (filter P xs)" if "om_ok xs" for P and xs :: "(NodeId \<times> rtt_data) list"
    using that by (induction xs) auto
  from om_find_Some_mem [OF a]
  have "om_find i (erase_loop rd_in_use (om_adjust i (\<lambda>e. e\<lparr>rd_in_use := True\<rparr>) ?t)) = Some (e\<lparr>rd_in_use := True\<rparr>)"
    unfolding erase_loop_filter by (subst om_find_mem) (simp_all add: f ok)
  with \<open>om_find i ?t = _\<close> show ?thesis
    by (simp add: RTT_addNode_def RTT_begin_update_def RTT_end_update_def)
qed

text \<open>The states the packet-pair metric can reach when the topology and the daemon call it.\<close>

inductive pp_reach :: "probe_env \<Rightarrow> PktPair \<Rightarrow> bool" for env where
  pp_new: "pp_reach env (fst (PktPair_new env cb d r))"
| pp_option: "pp_reach env m \<Longrightarrow> pp_reach env (m\<lparr>pp_interval := t, pp_packetSize := n, pp_bufferSize := b\<rparr>)"
| pp_start: "pp_reach env m \<Longrightarrow> pp_reach env (PP_start now m)"
| pp_quality: "pp_reach env m \<Longrightarrow> PP_my_get_quality env ndescr m = Inr (q, m') \<Longrightarrow> pp_reach env m'"
| pp_begin: "pp_reach env m \<Longrightarrow> pp_reach env (PP_begin_update m)"
| pp_add: "pp_reach env m \<Longrightarrow> pp_reach env (Metric_addNode i m)"
| pp_end: "pp_reach env m \<Longrightarrow> pp_reach env (PP_end_update m)"
| pp_recv: "pp_reach env m \<Longrightarrow> PP_on_recv env p m r = (p', m', r') \<Longrightarrow> pp_reach env m'"
| pp_wait: "pp_reach env m \<Longrightarrow> PP_on_wait env now m r = (m', r') \<Longrightarrow> pp_reach env m'"

lemma PP_empty:
  assumes "pp_nodes m = []"
  shows "PP_my_get_quality env ndescr m = Inr (max_quality, m)"
    "PP_on_wait env now m r = (m\<lparr>pp_waits := pp_waits m @ [now + pp_interval m]\<rparr>, r)"
    "pp_nodes (fst (snd (PP_on_recv env p m r))) = []"
  using assms
  by (simp_all add: PP_my_get_quality_def PP_on_wait_def find_oldest_def PP_on_recv_def Let_def om_find_def
      split: option.split prod.split)

lemma pp_reach_empty: "pp_reach env m \<Longrightarrow> pp_nodes m = []"
proof (induction rule: pp_reach.induct)
  case (pp_recv m p r p' m' r')
  then show ?case using PP_empty(3) [of m env p r] by simp
qed (auto simp: PktPair_new_def PP_start_def PP_empty PP_begin_update_def PP_end_update_def Metric_addNode_def)

text \<open>
  The packet-pair metric never probes a link.  In every state it can reach its table of stations is
  empty, so its timer sends nothing and only registers itself again, and it announces the worst
  quality for every neighbor.
\<close>

theorem pktpair_never_probes:
  assumes "pp_reach env m"
  shows "pp_nodes m = [] \<and> PP_my_get_quality env ndescr m = Inr (max_quality, m) \<and>
    PP_on_wait env now m r = (m\<lparr>pp_waits := pp_waits m @ [now + pp_interval m]\<rparr>, r)"
  using pp_reach_empty [OF assms] PP_empty by simp

section \<open>A request is released twice\<close>

text \<open>The received request, which its reader will release, has been released; the answer is not.\<close>

lemma rtt_request_released_twice:
  assumes "native_ok (pe_layout env)" "NodeId_ok (rt_myNodeId r)" "pkt_ok p" "UM_getType p = MetricType_val Metric_req"
    "NodeId_ok (getSrc p)" "time_ok (getTime1 (pe_layout env) p)" "rt_refs r pid = 1" "pid < rt_next_packet r"
  shows "\<exists>p' r'. RTT_on_recv env pid p m r = oreturn (p', m, r') \<and> rt_unref pid r' = ofail RtAssertFails \<and>
    rt_refs r' (rt_next_packet r) = 1"
proof -
  have "0 < rt_refs r pid" using assms(7) by simp
  then obtain p' r' where "RTT_on_recv env pid p m r = oreturn (p', m, r')"
    "rt_refs r' = (rt_refs r)(rt_next_packet r := 1, pid := rt_refs r pid - 1)"
    using RTT_on_recv_request [OF assms(1-6) _ assms(8)] by metis
  then show ?thesis using assms(7,8) by (auto simp: rt_unref_def)
qed

text \<open>A station that has not answered yet: the second query converts a value far out of range.\<close>

lemma rtt_unanswered_out_of_range:
  assumes "om_find (nd_id n) (rtt_table m) = None" "om_ok (rtt_table m)"
    and "pe_duration env 1 1 \<noteq> 0" "pe_scale env (pe_duration env 1 1) = 655350"
  shows "\<exists>m'. RTT_my_get_quality env n m = Inr (max_quality, m') \<and> RTT_my_get_quality env n m' = Inl FloatOutOfRange"
  using assms
  by (simp add: RTT_my_get_quality_def om_find_insert rtt_data_new_def scaled_quality_def quality_of_double_def)


section \<open>Concrete instances\<close>

text \<open>Big-endian objects of eight bytes.\<close>

definition example_layout :: native_layout where
  "example_layout = \<lparr>nl_abs_size = 8, nl_abs_bytes = (\<lambda>t. toArray (word_of_int t :: u64)), nl_abs_of = (\<lambda>bs. uint (fromArray bs :: u64)),
     nl_dur_size = 8, nl_dur_bytes = (\<lambda>t. toArray (word_of_int t :: u64)), nl_dur_of = (\<lambda>bs. uint (fromArray bs :: u64)),
     nl_uint_bytes = toArray, nl_uint_of = fromArray\<rparr>"

lemma example_layout_ok: "native_ok example_layout"
proof -
  have "uint (word_of_int t :: u64) = t" if "time_ok t" for t
    using that by (simp add: time_ok_def unsigned_of_int take_bit_int_eq_self)
  moreover have "fromArray (toArray v) = v" for v :: u64
    using fromArray_toArray [of v "[]"] by simp
  moreover have "fromArray (toArray v) = v" for v :: u32
    using fromArray_toArray [of v "[]"] by simp
  ultimately show ?thesis
    by (simp add: native_ok_def example_layout_def length_toArray)
qed

definition example_probe_env :: probe_env where
  "example_probe_env = \<lparr>pe_layout = example_layout, pe_duration = (\<lambda>n d. n * 1000 div d), pe_t0 = 0, pe_smooth = (\<lambda>d old. d),
     pe_scale = (\<lambda>t. t * 655350 div 1000), pe_getTT = (\<lambda>_. 1)\<rparr>"

definition example_rtt :: RTTMetric where
  "example_rtt = \<lparr>rtt_table = [(NodeId 2, rtt_data_new example_probe_env), (NodeId 3, rtt_data_new example_probe_env)],
     rtt_history = None, rtt_interval = 500, rtt_packetSize = 800, rtt_waits = []\<rparr>"

lemma example_rtt_ok: "om_ok (rtt_table example_rtt)" "\<And>i. i \<in> set (map fst (rtt_table example_rtt)) \<Longrightarrow> NodeId_ok i"
  by (auto simp: example_rtt_def NodeId_less_d NodeId_ok_def)

lemma example_daemon_ok: "NodeId_ok (rt_myNodeId example_routing)" "native_ok (pe_layout example_probe_env)"
  by (simp_all add: example_routing_fields NodeId_ok_def example_probe_env_def example_layout_ok)

theorem rtt_probes_every_station_witness:
  "\<exists>m' r' ds. RTT_rounds example_probe_env [(1000, 4), (2000, 7)] example_rtt example_routing = oreturn (m', r') \<and>
     sent_to (rt_log r') = sent_to (rt_log example_routing) @ ds \<and> set ds = {NodeId 2, NodeId 3}"
proof -
  have "\<exists>m' r' ds. RTT_rounds example_probe_env [(1000, 4), (2000, 7)] example_rtt example_routing = oreturn (m', r') \<and>
      sent_to (rt_log r') = sent_to (rt_log example_routing) @ ds \<and> distinct ds \<and> set ds = set (map fst (rtt_table example_rtt)) \<and>
      length (rtt_waits m') = length (rtt_waits example_rtt) + length [(1000 :: int, 4 :: int), (2000, 7)]"
    by (rule rtt_probes_every_station [OF example_daemon_ok(2,1) example_rtt_ok(1) _ example_rtt_ok(2)])
      (auto simp: example_rtt_def rtt_data_new_def example_probe_env_def time_ok_def)
  then show ?thesis by (auto simp: example_rtt_def)
qed

theorem rtt_measures_round_trip_witness:
  "\<exists>ma' ra1 P p rb' Q p' ma''.
     RTT_on_wait example_probe_env 1000 4 example_rtt example_routing = oreturn (ma', ra1) \<and> SendPacket P False \<in> set (rt_log ra1) \<and>
     RTT_on_recv example_probe_env 0 P example_rtt (example_routing\<lparr>rt_myNodeId := NodeId 2, rt_refs := (\<lambda>_. 1), rt_next_packet := 1\<rparr>)
       = oreturn (p, example_rtt, rb') \<and> SendPacket Q False \<in> set (rt_log rb') \<and>
     RTT_on_recv example_probe_env 0 Q ma' (example_routing\<lparr>rt_topology := example_new\<lparr>lastEventTime := 1500\<rparr>\<rparr>)
       = oreturn (p', ma'', example_routing\<lparr>rt_topology := example_new\<lparr>lastEventTime := 1500\<rparr>\<rparr>) \<and>
     map_option rd_time (om_find (NodeId 2) (rtt_table ma'')) = Some 500"
proof -
  let ?rb = "example_routing\<lparr>rt_myNodeId := NodeId 2, rt_refs := (\<lambda>_. 1), rt_next_packet := 1\<rparr>"
  let ?ra = "example_routing\<lparr>rt_topology := example_new\<lparr>lastEventTime := 1500\<rparr>\<rparr>"
  have o: "find_oldest rd_lastsend (rtt_table example_rtt) = Some (rt_myNodeId ?rb, rtt_data_new example_probe_env)"
    by (simp add: find_oldest_def example_rtt_def)
  have h: "NodeId_ok (rt_myNodeId ?rb)" "time_ok 1000" "0 < rt_refs ?rb 0" "0 < rt_next_packet ?rb" "rt_time ?ra = 1500"
    by (simp_all add: NodeId_ok_def time_ok_def rt_time_def)
  from rtt_measures_round_trip [OF example_daemon_ok(2) example_rtt_ok(1) o example_daemon_ok(1) h(1,2,3,4,5), where mb = example_rtt and qid = 0 and rnd = 4]
  obtain ma' ra1 P p rb' Q p' ma'' where
    1: "RTT_on_wait example_probe_env 1000 4 example_rtt example_routing = oreturn (ma', ra1)" "SendPacket P False \<in> set (rt_log ra1)"
    and 2: "RTT_on_recv example_probe_env 0 P example_rtt ?rb = oreturn (p, example_rtt, rb')" "SendPacket Q False \<in> set (rt_log rb')"
    and 3: "RTT_on_recv example_probe_env 0 Q ma' ?ra = oreturn (p', ma'', ?ra)"
    and 4: "om_find (rt_myNodeId ?rb) (rtt_table ma'') = Some (rtt_data_new example_probe_env\<lparr>rd_lastsend := 1000,
      rd_time := pe_smooth example_probe_env (1500 - 1000) (rd_time (rtt_data_new example_probe_env)), rd_lastrecv := 1500\<rparr>)"
    by (elim exE conjE)
  from 4 have "map_option rd_time (om_find (NodeId 2) (rtt_table ma'')) = Some 500"
    by (simp add: example_probe_env_def)
  with 1 2 3 show ?thesis by blast
qed

theorem pktpair_minimum_of_last_witness:
  "fst (pd_getTime (fold (pd_setTime example_probe_env) [7, 3, 9, 8] (pp_data_new example_probe_env 0 2))) = 8"
  using pktpair_minimum_of_last [of 2 example_probe_env "[7, 3, 9, 8]" 0] by (simp add: numeral_2_eq_2)

theorem pktpair_never_probes_witness:
  "PP_on_wait example_probe_env 1000 (fst (PktPair_new example_probe_env 0 0 example_routing)) example_routing =
     ((fst (PktPair_new example_probe_env 0 0 example_routing))\<lparr>pp_waits := [1500]\<rparr>, example_routing)"
  using pktpair_never_probes [OF pp_new, of example_probe_env 0 0 example_routing _ 1000 example_routing]
  by (simp add: PktPair_new_def example_probe_env_def)

end
