(* ===== verification/Send_Queue.thy ===== *)
theory Send_Queue
  imports Packet "HOL-Library.Multiset"
begin

text \<open>
  The sending side of the network devices: \<open>doSend\<close> of \<open>src/src/awds/basic.h\<close> and the queue of
  \<open>src/src/awds/SendQueue.h\<close> and \<open>src/src/SendQueue.cc\<close>.  Packets are objects on a heap, shared by
  pointers and reference counted; the queue holds pointers.  The state has the heap, the queue, the
  number of callbacks that are registered with the event loop, and a log of what leaves the
  program.  The result of writing to the device is a parameter.

  The reachability predicate \<open>sq_reach\<close> interleaves clients that create, enqueue and
  release packets with the event loop that fires the registered callback.
\<close>

section \<open>State\<close>

datatype sq_error = UseAfterFree | RefcountAssertFails | EmptyQueueAssertFails | PacketOverread

datatype sq_event =
  Sent nat NodeId "byte list" int
  | CalledBack nat nat int
  | Freed nat
  | ErrorSending
  | TimeoutSending

record SendQueue =
  sq_queue :: "nat list"
  sq_verbose :: bool
  sq_heap :: "nat \<Rightarrow> BasePacket option"
  sq_waits :: nat
  sq_log :: "sq_event list"

definition QUEUE_LENGTH :: nat where
  "QUEUE_LENGTH = 10"

definition SendQueue_new :: "(nat \<Rightarrow> BasePacket option) \<Rightarrow> SendQueue" where
  "SendQueue_new h =
     \<lparr>sq_queue = [], sq_verbose = False, sq_heap = h, sq_waits = 0, sq_log = []\<rparr>"

definition sq_emit :: "sq_event list \<Rightarrow> SendQueue \<Rightarrow> SendQueue" where
  "sq_emit es s = s\<lparr>sq_log := sq_log s @ es\<rparr>"

text \<open>Reference counting through a pointer.\<close>

definition ptr_ref :: "nat \<Rightarrow> SendQueue \<Rightarrow> sq_error + SendQueue" where
  "ptr_ref a s =
     (case sq_heap s a of None \<Rightarrow> Inl UseAfterFree
      | Some p \<Rightarrow> Inr (s\<lparr>sq_heap := (sq_heap s)(a \<mapsto> pkt_ref p)\<rparr>))"

definition callback_events :: "nat \<Rightarrow> (nat \<times> int) option \<Rightarrow> sq_event list" where
  "callback_events a c = (case c of None \<Rightarrow> [] | Some (cb, ret) \<Rightarrow> [CalledBack a cb ret])"

definition ptr_unref :: "nat \<Rightarrow> SendQueue \<Rightarrow> sq_error + SendQueue" where
  "ptr_unref a s =
     (case sq_heap s a of None \<Rightarrow> Inl UseAfterFree
      | Some p \<Rightarrow>
         (case pkt_unref p of
            UnrefAssertFails \<Rightarrow> Inl RefcountAssertFails
          | StillReferenced p' \<Rightarrow> Inr (s\<lparr>sq_heap := (sq_heap s)(a \<mapsto> p')\<rparr>)
          | Deleted c \<Rightarrow>
              Inr (sq_emit (callback_events a c @ [Freed a]) (s\<lparr>sq_heap := (sq_heap s)(a := None)\<rparr>))))"

section \<open>basic.h\<close>

text \<open>
  \<open>doSend\<close> writes the packet to its destination and reports the result to the callback, which is
  then cleared.  A size beyond the buffer would make the device read past it.
\<close>

definition doSend ::
    "(NodeId \<Rightarrow> byte list \<Rightarrow> int) \<Rightarrow> nat \<Rightarrow> SendQueue \<Rightarrow> sq_error + (bool \<times> SendQueue)" where
  "doSend write_fn a s =
     (case sq_heap s a of None \<Rightarrow> Inl UseAfterFree
      | Some p \<Rightarrow>
          if psize p > length (buffer p) then Inl PacketOverread
          else let bytes = take (psize p) (buffer p);
              ret = write_fn (pkt_dest p) bytes
            in Inr (ret \<ge> 0,
                 sq_emit (Sent a (pkt_dest p) bytes ret
                     # callback_events a (map_option (\<lambda>cb. (cb, ret)) (send_cb p)))
                   (s\<lparr>sq_heap := (sq_heap s)(a \<mapsto> p\<lparr>send_cb := None\<rparr>)\<rparr>)))"

section \<open>SendQueue.cc\<close>

definition registerCallback :: "SendQueue \<Rightarrow> SendQueue" where
  "registerCallback s = s\<lparr>sq_waits := sq_waits s + 1\<rparr>"

definition enqueuePacket :: "nat \<Rightarrow> bool \<Rightarrow> SendQueue \<Rightarrow> sq_error + (bool \<times> SendQueue)" where
  "enqueuePacket a high_prio s =
     (if \<not> high_prio \<and> length (sq_queue s) \<ge> QUEUE_LENGTH then Inr (False, s)
      else rbind (ptr_ref a s) (\<lambda>s.
        let s = (if high_prio then s\<lparr>sq_queue := a # sq_queue s\<rparr> else s\<lparr>sq_queue := sq_queue s @ [a]\<rparr>);
            s = (if length (sq_queue s) = 1 then registerCallback s else s)
        in Inr (True, s)))"

text \<open>The callback; \<open>ready\<close> tells whether the handle became ready or the wait timed out.\<close>

definition xmit_cb ::
    "(NodeId \<Rightarrow> byte list \<Rightarrow> int) \<Rightarrow> bool \<Rightarrow> SendQueue \<Rightarrow> sq_error + SendQueue" where
  "xmit_cb write_fn ready s =
     (case sq_queue s of
        [] \<Rightarrow> Inl EmptyQueueAssertFails
      | a # q \<Rightarrow>
          rbind
            (if ready then
               rbind (doSend write_fn a (s\<lparr>sq_queue := q\<rparr>)) (\<lambda>(ok, s).
                 ptr_unref a (if \<not> ok \<and> sq_verbose s then sq_emit [ErrorSending] s else s))
             else Inr (sq_emit [TimeoutSending] s))
            (\<lambda>s. Inr (if length (sq_queue s) > 0 then registerCallback s else s)))"

section \<open>The event loop\<close>

text \<open>The event loop takes a registered callback and calls it.\<close>

definition fire ::
    "(NodeId \<Rightarrow> byte list \<Rightarrow> int) \<Rightarrow> bool \<Rightarrow> SendQueue \<Rightarrow> sq_error + SendQueue" where
  "fire write_fn ready s = xmit_cb write_fn ready (s\<lparr>sq_waits := sq_waits s - 1\<rparr>)"

text \<open>As many callbacks as there are packets, with a device that is always ready.\<close>

fun drain ::
    "(NodeId \<Rightarrow> byte list \<Rightarrow> int) \<Rightarrow> nat \<Rightarrow> SendQueue \<Rightarrow> sq_error + SendQueue" where
  "drain write_fn 0 s = Inr s"
| "drain write_fn (Suc n) s =
     (if sq_waits s = 0 then Inr s else rbind (fire write_fn True s) (drain write_fn n))"

text \<open>The packets that were written, with their destinations and contents.\<close>

fun sent_packets :: "sq_event list \<Rightarrow> (nat \<times> NodeId \<times> byte list) list" where
  "sent_packets [] = []"
| "sent_packets (Sent a d b r # es) = (a, d, b) # sent_packets es"
| "sent_packets (_ # es) = sent_packets es"

abbreviation sent_addrs :: "sq_event list \<Rightarrow> nat list" where
  "sent_addrs es \<equiv> map fst (sent_packets es)"

definition contents :: "SendQueue \<Rightarrow> nat \<Rightarrow> nat \<times> NodeId \<times> byte list" where
  "contents s a =
     (case sq_heap s a of None \<Rightarrow> (a, NodeId_default, [])
      | Some p \<Rightarrow> (a, pkt_dest p, take (psize p) (buffer p)))"

text \<open>
  Reachable states.  \<open>low\<close> tells which packets are sent with low priority, \<open>acc\<close> lists the packets
  that were accepted, \<open>held\<close> counts the references the clients hold.  Clients may change a packet
  they hold, but not its count, and never make it larger than its buffer.
\<close>

inductive sq_reach ::
    "(NodeId \<Rightarrow> byte list \<Rightarrow> int) \<Rightarrow> (nat \<Rightarrow> bool) \<Rightarrow> nat list \<Rightarrow> (nat \<Rightarrow> nat) \<Rightarrow> SendQueue \<Rightarrow> bool"
  for write_fn low where
  reach_new: "sq_reach write_fn low [] (\<lambda>_. 0) (SendQueue_new Map.empty)"
| reach_packet: "sq_reach write_fn low acc held s \<Longrightarrow> sq_heap s a = None \<Longrightarrow>
    refcount p = 1 \<Longrightarrow> psize p \<le> length (buffer p) \<Longrightarrow>
    sq_reach write_fn low acc (held(a := 1)) (s\<lparr>sq_heap := (sq_heap s)(a \<mapsto> p)\<rparr>)"
| reach_change: "sq_reach write_fn low acc held s \<Longrightarrow> held a > 0 \<Longrightarrow> sq_heap s a = Some p \<Longrightarrow>
    refcount p' = refcount p \<Longrightarrow> psize p' \<le> length (buffer p') \<Longrightarrow>
    sq_reach write_fn low acc held (s\<lparr>sq_heap := (sq_heap s)(a \<mapsto> p')\<rparr>)"
| reach_enqueue: "sq_reach write_fn low acc held s \<Longrightarrow> held a > 0 \<Longrightarrow>
    enqueuePacket a (\<not> low a) s = Inr (ok, s') \<Longrightarrow>
    sq_reach write_fn low (if ok then acc @ [a] else acc) held s'"
| reach_release: "sq_reach write_fn low acc held s \<Longrightarrow> held a > 0 \<Longrightarrow>
    ptr_unref a s = Inr s' \<Longrightarrow>
    sq_reach write_fn low acc (held(a := held a - 1)) s'"
| reach_fire: "sq_reach write_fn low acc held s \<Longrightarrow> sq_waits s > 0 \<Longrightarrow>
    fire write_fn ready s = Inr s' \<Longrightarrow>
    sq_reach write_fn low acc held s'"

section \<open>Reference counts\<close>

text \<open>The object at an address to which clients hold \<open>h\<close> references and the queue \<open>c\<close>.\<close>

definition object_ok :: "nat \<Rightarrow> nat \<Rightarrow> BasePacket option \<Rightarrow> bool" where
  "object_ok h c x \<longleftrightarrow>
     (case x of
        None \<Rightarrow> h + c = 0
      | Some p \<Rightarrow> refcount p = int (h + c) \<and> 0 < h + c \<and> psize p \<le> length (buffer p))"

definition sq_refs_ok :: "(nat \<Rightarrow> nat) \<Rightarrow> SendQueue \<Rightarrow> bool" where
  "sq_refs_ok held s \<longleftrightarrow> (\<forall>a. object_ok (held a) (count_list (sq_queue s) a) (sq_heap s a))"

definition waits_ok :: "SendQueue \<Rightarrow> bool" where
  "waits_ok s \<longleftrightarrow> sq_waits s = (if sq_queue s = [] then 0 else 1)"

definition order_ok :: "(nat \<Rightarrow> bool) \<Rightarrow> nat list \<Rightarrow> SendQueue \<Rightarrow> bool" where
  "order_ok low acc s \<longleftrightarrow>
     mset acc = mset (sent_addrs (sq_log s)) + mset (sq_queue s) \<and>
     filter low acc = filter low (sent_addrs (sq_log s)) @ filter low (sq_queue s) \<and>
     sorted_wrt (\<lambda>a b. low a \<longrightarrow> low b) (sq_queue s) \<and>
     length (filter low (sq_queue s)) \<le> QUEUE_LENGTH"

lemma sq_refs_okD:
  assumes "sq_refs_ok held s" "0 < held a \<or> a \<in> set (sq_queue s)"
  obtains p where "sq_heap s a = Some p" "refcount p = int (held a + count_list (sq_queue s) a)"
    "0 < held a + count_list (sq_queue s) a" "psize p \<le> length (buffer p)"
proof -
  have "object_ok (held a) (count_list (sq_queue s) a) (sq_heap s a)"
    using assms(1) by (simp add: sq_refs_ok_def)
  with assms(2) that show thesis
    by (cases "sq_heap s a") (auto simp: object_ok_def count_list_0_iff)
qed

text \<open>Counts are right when they are right at the changed address.\<close>

lemma sq_refs_ok_change:
  assumes "sq_refs_ok held s" "\<And>b. b \<noteq> a \<Longrightarrow> held' b = held b"
    "\<And>b. b \<noteq> a \<Longrightarrow> count_list (sq_queue s') b = count_list (sq_queue s) b"
    "\<And>b. b \<noteq> a \<Longrightarrow> sq_heap s' b = sq_heap s b"
    "object_ok (held' a) (count_list (sq_queue s') a) (sq_heap s' a)"
  shows "sq_refs_ok held' s'"
  unfolding sq_refs_ok_def
proof
  fix b
  show "object_ok (held' b) (count_list (sq_queue s') b) (sq_heap s' b)"
    using assms by (cases "b = a") (simp_all add: sq_refs_ok_def)
qed

lemma sq_emit_sel [simp]:
  "sq_queue (sq_emit es s) = sq_queue s" "sq_heap (sq_emit es s) = sq_heap s"
  "sq_waits (sq_emit es s) = sq_waits s" "sq_log (sq_emit es s) = sq_log s @ es"
  "sq_verbose (sq_emit es s) = sq_verbose s"
  by (simp_all add: sq_emit_def)

lemma registerCallback_sel [simp]:
  "sq_queue (registerCallback s) = sq_queue s" "sq_heap (registerCallback s) = sq_heap s"
  "sq_waits (registerCallback s) = sq_waits s + 1" "sq_log (registerCallback s) = sq_log s"
  "sq_verbose (registerCallback s) = sq_verbose s"
  by (simp_all add: registerCallback_def)

lemma sent_packets_append [simp]: "sent_packets (xs @ ys) = sent_packets xs @ sent_packets ys"
  by (induction xs rule: sent_packets.induct) auto

lemma sent_packets_callback [simp]: "sent_packets (callback_events a c) = []"
  by (simp add: callback_events_def split: option.split prod.split)

text \<open>What the two operations on counts do to a state whose counts are right.\<close>

lemma ptr_ref_ok:
  assumes "sq_refs_ok held s" "0 < held a"
  shows "\<exists>p. sq_heap s a = Some p \<and>
    ptr_ref a s = Inr (s\<lparr>sq_heap := (sq_heap s)(a \<mapsto> pkt_ref p)\<rparr>)"
  using assms by (auto elim!: sq_refs_okD simp: ptr_ref_def)

lemma ptr_unref_ok:
  assumes "sq_heap s a = Some p" "refcount p = int (Suc n)"
  shows "\<exists>h es. ptr_unref a s = Inr (sq_emit es (s\<lparr>sq_heap := h\<rparr>)) \<and> sent_packets es = [] \<and>
    h = (sq_heap s)(a := if n = 0 then None else Some (p\<lparr>refcount := int n\<rparr>))"
proof (cases "n = 0")
  case True
  then show ?thesis
    using assms by (auto simp: ptr_unref_def pkt_unref_def Let_def)
next
  case False
  then have "ptr_unref a s =
      Inr (sq_emit [] (s\<lparr>sq_heap := (sq_heap s)(a \<mapsto> p\<lparr>refcount := int n\<rparr>)\<rparr>))"
    using assms by (simp add: ptr_unref_def pkt_unref_def Let_def sq_emit_def)
  with False show ?thesis
    by (metis sent_packets.simps(1))
qed


lemma enqueue_refused:
  "\<not> hp \<Longrightarrow> QUEUE_LENGTH \<le> length (sq_queue s) \<Longrightarrow> enqueuePacket a hp s = Inr (False, s)"
  by (simp add: enqueuePacket_def)

lemma enqueue_accepted:
  assumes "sq_refs_ok held s" "0 < held a" "hp \<or> length (sq_queue s) < QUEUE_LENGTH"
  obtains s' p where "enqueuePacket a hp s = Inr (True, s')" "sq_heap s a = Some p"
    "sq_heap s' = (sq_heap s)(a \<mapsto> pkt_ref p)"
    "sq_queue s' = (if hp then a # sq_queue s else sq_queue s @ [a])"
    "sq_waits s' = sq_waits s + (if sq_queue s = [] then 1 else 0)"
    "sq_log s' = sq_log s" "sq_verbose s' = sq_verbose s"
proof -
  obtain p where p: "sq_heap s a = Some p"
    "ptr_ref a s = Inr (s\<lparr>sq_heap := (sq_heap s)(a \<mapsto> pkt_ref p)\<rparr>)"
    using ptr_ref_ok [OF assms(1,2)] by blast
  have g: "\<not> (\<not> hp \<and> length (sq_queue s) \<ge> QUEUE_LENGTH)"
    using assms(3) by auto
  define t where "t = s\<lparr>sq_heap := (sq_heap s)(a \<mapsto> pkt_ref p),
    sq_queue := if hp then a # sq_queue s else sq_queue s @ [a]\<rparr>"
  have "enqueuePacket a hp s =
      Inr (True, if sq_queue s = [] then registerCallback t else t)"
    using g p(2) by (simp add: enqueuePacket_def Let_def t_def)
  then show thesis
    by (rule that [OF _ p(1)]) (simp_all add: t_def)
qed

lemma fire_ready:
  assumes "sq_refs_ok held s" "sq_queue s = a # q"
  obtains s' p where "fire write_fn True s = Inr s'" "sq_heap s a = Some p"
    "sq_queue s' = q" "sq_waits s' = sq_waits s - 1 + (if q = [] then 0 else 1)"
    "sent_packets (sq_log s') = sent_packets (sq_log s) @ [contents s a]" "sq_verbose s' = sq_verbose s"
    "sq_heap s' = (sq_heap s)(a := if held a + count_list q a = 0 then None
       else Some (p\<lparr>send_cb := None, refcount := int (held a + count_list q a)\<rparr>))"
proof -
  obtain p where p: "sq_heap s a = Some p" "refcount p = int (Suc (held a + count_list q a))"
    "psize p \<le> length (buffer p)"
    using assms by (auto elim!: sq_refs_okD [of held s a])
  obtain ok es s1 where s1: "doSend write_fn a (s\<lparr>sq_waits := sq_waits s - 1, sq_queue := q\<rparr>) = Inr (ok, s1)"
    "s1 = sq_emit es (s\<lparr>sq_waits := sq_waits s - 1, sq_queue := q,
       sq_heap := (sq_heap s)(a \<mapsto> p\<lparr>send_cb := None\<rparr>)\<rparr>)"
    "sent_packets es = [contents s a]"
    using p(1,3) by (simp add: doSend_def Let_def contents_def)
  define s2 where "s2 = (if \<not> ok \<and> sq_verbose s1 then sq_emit [ErrorSending] s1 else s1)"
  have s2: "sq_heap s2 a = Some (p\<lparr>send_cb := None\<rparr>)" "sq_queue s2 = q"
    "sq_waits s2 = sq_waits s - 1" "sent_packets (sq_log s2) = sent_packets (sq_log s) @ [contents s a]"
    "sq_heap s2 = (sq_heap s)(a \<mapsto> p\<lparr>send_cb := None\<rparr>)" "sq_verbose s2 = sq_verbose s"
    using s1 by (simp_all add: s2_def)
  have "refcount (p\<lparr>send_cb := None\<rparr>) = int (Suc (held a + count_list q a))"
    using p(2) by simp
  from ptr_unref_ok [OF s2(1) this] obtain h es' where
    u: "ptr_unref a s2 = Inr (sq_emit es' (s2\<lparr>sq_heap := h\<rparr>))" "sent_packets es' = []"
      "h = (sq_heap s2)(a := if held a + count_list q a = 0 then None
         else Some (p\<lparr>send_cb := None, refcount := int (held a + count_list q a)\<rparr>))"
    by auto
  have f: "fire write_fn True s = Inr (if length q > 0
      then registerCallback (sq_emit es' (s2\<lparr>sq_heap := h\<rparr>)) else sq_emit es' (s2\<lparr>sq_heap := h\<rparr>))"
    using assms(2) s1(1) u(1) s2(2) by (simp add: fire_def xmit_cb_def s2_def [symmetric])
  show thesis
    by (rule that [OF f p(1)]) (use s2 u(2,3) in \<open>auto split: if_splits\<close>)
qed

lemma fire_timeout:
  assumes "sq_queue s = a # q" "0 < sq_waits s"
  shows "fire write_fn False s = Inr (sq_emit [TimeoutSending] s)"
  using assms by (simp add: fire_def xmit_cb_def sq_emit_def registerCallback_def)

section \<open>The invariants\<close>

lemma sq_refs_ok_enqueue:
  assumes "sq_refs_ok held s" "sq_heap s a = Some p" "0 < held a"
    "sq_heap s' = (sq_heap s)(a \<mapsto> pkt_ref p)"
    "sq_queue s' = a # sq_queue s \<or> sq_queue s' = sq_queue s @ [a]"
  shows "sq_refs_ok held s'"
proof (rule sq_refs_ok_change [OF assms(1), of a])
  have "object_ok (held a) (count_list (sq_queue s) a) (Some p)"
    using assms(1,2) by (metis sq_refs_ok_def)
  then show "object_ok (held a) (count_list (sq_queue s') a) (sq_heap s' a)"
    using assms(4,5) by (auto simp: object_ok_def pkt_ref_def)
qed (use assms in auto)

lemma sq_refs_ok_fire:
  assumes "sq_refs_ok held s" "sq_queue s = a # sq_queue s'" "sq_heap s a = Some p"
    "sq_heap s' = (sq_heap s)(a := if held a + count_list (sq_queue s') a = 0 then None
       else Some (p\<lparr>send_cb := None, refcount := int (held a + count_list (sq_queue s') a)\<rparr>))"
  shows "sq_refs_ok held s'"
proof (rule sq_refs_ok_change [OF assms(1), of a])
  have "object_ok (held a) (count_list (sq_queue s) a) (Some p)"
    using assms(1,3) by (metis sq_refs_ok_def)
  then show "object_ok (held a) (count_list (sq_queue s') a) (sq_heap s' a)"
    using assms(4) by (auto simp: object_ok_def)
qed (use assms in auto)

lemma sq_refs_ok_release:
  assumes "sq_refs_ok held s" "0 < held a" "ptr_unref a s = Inr s'"
  shows "sq_refs_ok (held(a := held a - 1)) s' \<and> sq_queue s' = sq_queue s \<and>
    sq_waits s' = sq_waits s \<and> sent_packets (sq_log s') = sent_packets (sq_log s)"
proof -
  obtain p where p: "sq_heap s a = Some p"
    "refcount p = int (Suc (held a - 1 + count_list (sq_queue s) a))" "psize p \<le> length (buffer p)"
    using assms(1,2) by (auto elim!: sq_refs_okD [of held s a])
  from ptr_unref_ok [OF p(1,2)] obtain h es where
    u: "s' = sq_emit es (s\<lparr>sq_heap := h\<rparr>)" "sent_packets es = []"
      "h = (sq_heap s)(a := if held a - 1 + count_list (sq_queue s) a = 0 then None
         else Some (p\<lparr>refcount := int (held a - 1 + count_list (sq_queue s) a)\<rparr>))"
    using assms(3) by auto
  have "sq_refs_ok (held(a := held a - 1)) s'"
    by (rule sq_refs_ok_change [OF assms(1), of a]) (use p(3) u(1,3) in \<open>auto simp: object_ok_def\<close>)
  with u show ?thesis by simp
qed

lemma sq_refs_ok_object: "sq_refs_ok held s \<Longrightarrow> object_ok (held a) (count_list (sq_queue s) a) (sq_heap s a)"
  by (simp add: sq_refs_ok_def)

lemma sq_refs_ok_packet:
  assumes "sq_refs_ok held s" "sq_heap s a = None" "refcount p = 1" "psize p \<le> length (buffer p)"
  shows "sq_refs_ok (held(a := 1)) (s\<lparr>sq_heap := (sq_heap s)(a \<mapsto> p)\<rparr>)"
proof (rule sq_refs_ok_change [OF assms(1), of a])
  show "object_ok ((held(a := 1)) a) (count_list (sq_queue (s\<lparr>sq_heap := (sq_heap s)(a \<mapsto> p)\<rparr>)) a)
      (sq_heap (s\<lparr>sq_heap := (sq_heap s)(a \<mapsto> p)\<rparr>) a)"
    using sq_refs_ok_object [OF assms(1), of a] assms(2-4) by (simp add: object_ok_def)
qed auto

lemma sq_refs_ok_touch:
  assumes "sq_refs_ok held s" "sq_heap s a = Some p" "refcount p' = refcount p"
    "psize p' \<le> length (buffer p')"
  shows "sq_refs_ok held (s\<lparr>sq_heap := (sq_heap s)(a \<mapsto> p')\<rparr>)"
proof (rule sq_refs_ok_change [OF assms(1), of a])
  show "object_ok (held a) (count_list (sq_queue (s\<lparr>sq_heap := (sq_heap s)(a \<mapsto> p')\<rparr>)) a)
      (sq_heap (s\<lparr>sq_heap := (sq_heap s)(a \<mapsto> p')\<rparr>) a)"
    using sq_refs_ok_object [OF assms(1), of a] assms(2-4) by (simp add: object_ok_def)
qed auto

lemma order_ok_enqueue:
  assumes "order_ok low acc s" "sq_log s' = sq_log s"
    "sq_queue s' = (if low a then sq_queue s @ [a] else a # sq_queue s)"
    "low a \<Longrightarrow> length (sq_queue s) < QUEUE_LENGTH"
  shows "order_ok low (acc @ [a]) s'"
proof -
  have "length (filter low (sq_queue s)) \<le> length (sq_queue s)" by simp
  with assms(4) have "low a \<Longrightarrow> length (filter low (sq_queue s)) < QUEUE_LENGTH" by linarith
  with assms(1-3) show ?thesis
    by (simp add: order_ok_def sorted_wrt_append Suc_leI)
qed

lemma order_ok_fire:
  assumes "order_ok low acc s" "sq_queue s = a # sq_queue s'"
    "sent_addrs (sq_log s') = sent_addrs (sq_log s) @ [a]"
  shows "order_ok low acc s'"
  using assms by (auto simp: order_ok_def split: if_splits)

lemma sq_reach_inv:
  "sq_reach write_fn low acc held s \<Longrightarrow> sq_refs_ok held s \<and> waits_ok s \<and> order_ok low acc s"
proof (induction rule: sq_reach.induct)
  case reach_new
  then show ?case
    by (simp add: sq_refs_ok_def object_ok_def waits_ok_def order_ok_def SendQueue_new_def)
next
  case (reach_packet acc held s a p)
  from sq_refs_ok_packet [OF _ reach_packet.hyps(2-4)] reach_packet.IH
  have "sq_refs_ok (held(a := 1)) (s\<lparr>sq_heap := (sq_heap s)(a \<mapsto> p)\<rparr>)" by simp
  with reach_packet.IH show ?case
    by (simp add: waits_ok_def order_ok_def fun_upd_def)
next
  case (reach_change acc held s a p p')
  from sq_refs_ok_touch [OF _ reach_change.hyps(3-5)] reach_change.IH
  have "sq_refs_ok held (s\<lparr>sq_heap := (sq_heap s)(a \<mapsto> p')\<rparr>)" by simp
  with reach_change.IH show ?case
    by (simp add: waits_ok_def order_ok_def)
next
  case (reach_enqueue acc held s a ok s')
  show ?case
  proof (cases "low a \<and> QUEUE_LENGTH \<le> length (sq_queue s)")
    case True
    then show ?thesis
      using reach_enqueue enqueue_refused [of "\<not> low a" s a] by auto
  next
    case False
    then have g: "\<not> low a \<or> length (sq_queue s) < QUEUE_LENGTH" by auto
    from reach_enqueue.IH have r: "sq_refs_ok held s" "waits_ok s" "order_ok low acc s" by auto
    obtain t p where t: "enqueuePacket a (\<not> low a) s = Inr (True, t)" "sq_heap s a = Some p"
      "sq_heap t = (sq_heap s)(a \<mapsto> pkt_ref p)"
      "sq_queue t = (if \<not> low a then a # sq_queue s else sq_queue s @ [a])"
      "sq_waits t = sq_waits s + (if sq_queue s = [] then 1 else 0)"
      "sq_log t = sq_log s" "sq_verbose t = sq_verbose s"
      by (rule enqueue_accepted [OF r(1) reach_enqueue.hyps(2) g])
    have eq: "ok = True" "s' = t" using t(1) reach_enqueue.hyps(3) by auto
    have "sq_refs_ok held t"
      by (rule sq_refs_ok_enqueue [OF r(1) t(2) reach_enqueue.hyps(2) t(3)]) (simp add: t(4))
    moreover have "waits_ok t" using r(2) t(4,5) by (auto simp: waits_ok_def)
    moreover have "order_ok low (acc @ [a]) t"
      by (rule order_ok_enqueue [OF r(3) t(6)]) (use t(4) g in auto)
    ultimately show ?thesis by (simp add: eq)
  qed
next
  case (reach_release acc held s a s')
  then show ?case
    using sq_refs_ok_release [of held s a s'] by (simp add: waits_ok_def order_ok_def fun_upd_def)
next
  case (reach_fire acc held s ready s')
  from reach_fire.IH have r: "sq_refs_ok held s" "waits_ok s" "order_ok low acc s" by auto
  with reach_fire.hyps(2) obtain a q where q: "sq_queue s = a # q"
    by (cases "sq_queue s") (auto simp: waits_ok_def)
  show ?case
  proof (cases ready)
    case True
    obtain t p where t: "fire write_fn True s = Inr t" "sq_heap s a = Some p"
      "sq_queue t = q" "sq_waits t = sq_waits s - 1 + (if q = [] then 0 else 1)"
      "sent_packets (sq_log t) = sent_packets (sq_log s) @ [contents s a]" "sq_verbose t = sq_verbose s"
      "sq_heap t = (sq_heap s)(a := if held a + count_list q a = 0 then None
         else Some (p\<lparr>send_cb := None, refcount := int (held a + count_list q a)\<rparr>))"
      by (rule fire_ready [OF r(1) q])
    have "s' = t" using t(1) reach_fire.hyps(3) True by simp
    moreover have "sq_refs_ok held t" by (rule sq_refs_ok_fire [OF r(1) _ t(2)]) (simp_all add: q t)
    moreover have "waits_ok t" using r(2) q t(3,4) by (simp add: waits_ok_def)
    moreover have "order_ok low acc t" by (rule order_ok_fire [OF r(3)]) (simp_all add: q t contents_def split: option.split)
    ultimately show ?thesis by simp
  next
    case False
    then have "s' = sq_emit [TimeoutSending] s"
      using reach_fire.hyps(2,3) fire_timeout [OF q] by simp
    then show ?thesis
      using r by (simp add: sq_refs_ok_def waits_ok_def order_ok_def)
  qed
qed


section \<open>Properties\<close>

text \<open>No operation that clients or the event loop may perform fails.\<close>

lemma fire_total:
  assumes "sq_refs_ok held s" "waits_ok s" "0 < sq_waits s"
  shows "\<exists>s'. fire write_fn ready s = Inr s'"
proof -
  obtain a q where q: "sq_queue s = a # q"
    using assms(2,3) by (cases "sq_queue s") (auto simp: waits_ok_def)
  show ?thesis
  proof (cases ready)
    case True
    obtain s' where "fire write_fn True s = Inr s'" by (rule fire_ready [OF assms(1) q])
    with True show ?thesis by simp
  qed (simp add: fire_timeout [OF q assms(3)])
qed

lemma enqueue_total:
  assumes "sq_refs_ok held s" "0 < held a"
  shows "\<exists>s'. enqueuePacket a high s = Inr (high \<or> length (sq_queue s) < QUEUE_LENGTH, s')"
proof (cases "high \<or> length (sq_queue s) < QUEUE_LENGTH")
  case True
  then show ?thesis
    using enqueue_accepted [OF assms] by metis
next
  case False
  then show ?thesis
    using enqueue_refused [of high s a] by auto
qed

lemma release_total:
  assumes "sq_refs_ok held s" "0 < held a"
  shows "\<exists>s'. ptr_unref a s = Inr s'"
proof -
  obtain p where "sq_heap s a = Some p" "refcount p = int (Suc (held a - 1 + count_list (sq_queue s) a))"
    using assms by (auto elim!: sq_refs_okD [of held s a])
  then show ?thesis
    using ptr_unref_ok [of s a p] by blast
qed

text \<open>Firing does not change the contents of the packets that stay in the queue.\<close>

lemma fire_contents:
  assumes "sq_heap s a = Some p" "b \<noteq> a \<or> x \<noteq> None"
    "x = None \<or> (\<exists>n. x = Some (p\<lparr>send_cb := None, refcount := n\<rparr>))"
    "sq_heap s' = (sq_heap s)(a := x)"
  shows "contents s' b = contents s b"
  using assms by (auto simp: contents_def)

lemma drain_ok:
  assumes "sq_refs_ok held s" "waits_ok s" "length (sq_queue s) = n"
  shows "\<exists>s'. drain write_fn n s = Inr s' \<and> sq_refs_ok held s' \<and> waits_ok s' \<and> sq_queue s' = [] \<and>
    sent_packets (sq_log s') = sent_packets (sq_log s) @ map (contents s) (sq_queue s)"
  using assms
proof (induction n arbitrary: s)
  case (Suc n)
  then obtain a q where q: "sq_queue s = a # q" by (cases "sq_queue s") auto
  obtain t p where t: "fire write_fn True s = Inr t" "sq_heap s a = Some p"
    "sq_queue t = q" "sq_waits t = sq_waits s - 1 + (if q = [] then 0 else 1)"
    "sent_packets (sq_log t) = sent_packets (sq_log s) @ [contents s a]" "sq_verbose t = sq_verbose s"
    "sq_heap t = (sq_heap s)(a := if held a + count_list q a = 0 then None
       else Some (p\<lparr>send_cb := None, refcount := int (held a + count_list q a)\<rparr>))"
    by (rule fire_ready [OF Suc.prems(1) q])
  have inv: "sq_refs_ok held t" by (rule sq_refs_ok_fire [OF Suc.prems(1) _ t(2)]) (simp_all add: q t)
  have w: "waits_ok t" "sq_waits s \<noteq> 0" using Suc.prems(2) q t(3,4) by (simp_all add: waits_ok_def)
  have c: "contents t b = contents s b" if "b \<in> set q" for b
    by (rule fire_contents [OF t(2) _ _ t(7)]) (use that in \<open>auto simp: count_list_0_iff\<close>)
  from Suc.IH [OF inv w(1)] t(3) q Suc.prems(3) obtain s' where
    "drain write_fn n t = Inr s'" "sq_refs_ok held s'" "waits_ok s'" "sq_queue s' = []"
    "sent_packets (sq_log s') = sent_packets (sq_log t) @ map (contents t) q"
    by auto
  with t(1,5) w q c show ?case
    by (auto cong: map_cong)
qed simp

text \<open>
  Property C20: the send queue is safe under every interleaving of clients and event loop.  A callback is
  registered with the event loop exactly while packets are waiting; every packet that a client
  holds or that waits is alive and counted exactly; and no enqueuing, releasing or firing of a callback
  meets a freed packet or a failing assertion.  A packet is refused only when it has low priority and
  \<open>QUEUE_LENGTH\<close> packets wait.
\<close>

theorem send_queue_safe:
  assumes "sq_reach write_fn low acc held s"
  shows "sq_waits s = (if sq_queue s = [] then 0 else 1) \<and>
    (\<forall>a. sq_heap s a = None \<longleftrightarrow> held a = 0 \<and> a \<notin> set (sq_queue s)) \<and>
    (\<forall>a p. sq_heap s a = Some p \<longrightarrow> refcount p = int (held a + count_list (sq_queue s) a)) \<and>
    (\<forall>ready. 0 < sq_waits s \<longrightarrow> (\<exists>s'. fire write_fn ready s = Inr s')) \<and>
    (\<forall>a high. 0 < held a \<longrightarrow>
      (\<exists>s'. enqueuePacket a high s = Inr (high \<or> length (sq_queue s) < QUEUE_LENGTH, s'))) \<and>
    (\<forall>a. 0 < held a \<longrightarrow> (\<exists>s'. ptr_unref a s = Inr s'))"
proof -
  have inv: "sq_refs_ok held s" "waits_ok s" using sq_reach_inv [OF assms] by auto
  have "sq_heap s a = None \<longleftrightarrow> held a = 0 \<and> a \<notin> set (sq_queue s)"
    "sq_heap s a = Some p \<longrightarrow> refcount p = int (held a + count_list (sq_queue s) a)" for a p
    using sq_refs_ok_object [OF inv(1), of a]
    by (auto simp: object_ok_def count_list_0_iff split: option.splits)
  then show ?thesis
    using inv fire_total [OF inv] enqueue_total [OF inv(1)] release_total [OF inv(1)]
    by (auto simp: waits_ok_def)
qed


text \<open>
  Property C22: waiting packets are sent.  When the device is ready for as many callbacks as packets are
  waiting, each of them is written once, in the order of the queue and with its contents and
  destination; then nothing waits and no callback is registered, and exactly the packets that clients
  hold are alive.
\<close>

theorem send_queue_drains:
  assumes "sq_reach write_fn low acc held s"
  shows "\<exists>s'. drain write_fn (length (sq_queue s)) s = Inr s' \<and> sq_queue s' = [] \<and> sq_waits s' = 0 \<and>
    sent_packets (sq_log s') = sent_packets (sq_log s) @ map (contents s) (sq_queue s) \<and>
    (\<forall>a. sq_heap s' a = None \<longleftrightarrow> held a = 0)"
proof -
  obtain s' where s': "drain write_fn (length (sq_queue s)) s = Inr s'" "sq_refs_ok held s'" "waits_ok s'"
    "sq_queue s' = []"
    "sent_packets (sq_log s') = sent_packets (sq_log s) @ map (contents s) (sq_queue s)"
    using sq_reach_inv [OF assms] drain_ok [OF _ _ refl] by blast
  have "sq_heap s' a = None \<longleftrightarrow> held a = 0" for a
    using sq_refs_ok_object [OF s'(2), of a] s'(4) by (auto simp: object_ok_def split: option.splits)
  with s' show ?thesis by (auto simp: waits_ok_def)
qed

section \<open>A concrete run\<close>

definition example_packet :: "nat \<Rightarrow> BasePacket" where
  "example_packet d = \<lparr>buffer = [1, 2, 3], psize = 2, refcount = 1, send_cb = None,
     pkt_dest = NodeId (of_nat d)\<rparr>"

text \<open>Two packets, the second one with high priority; then the clients release both.\<close>

definition example_queue :: SendQueue where
  "example_queue = \<lparr>sq_queue = [2, 1], sq_verbose = False,
     sq_heap = [1 \<mapsto> example_packet 1, 2 \<mapsto> example_packet 2], sq_waits = 1, sq_log = []\<rparr>"

lemma example_reach: "sq_reach (\<lambda>d b. 2) (\<lambda>a. a = 1) [1, 2] (\<lambda>_. 0) example_queue"
proof -
  let ?R = "sq_reach (\<lambda>d b. 2) (\<lambda>a. a = 1)"
  let ?h1 = "[1 \<mapsto> example_packet 1]" and ?h2 = "[1 \<mapsto> example_packet 1, 2 \<mapsto> example_packet 2]"
  let ?two = "\<lambda>p. p\<lparr>refcount := 2\<rparr>"
  have release_1: "(\<lambda>_ :: nat. 0 :: nat)(Suc 0 := 0) = (\<lambda>_. 0)"
    and release_2: "(\<lambda>_ :: nat. 0 :: nat)(2 := 0) = (\<lambda>_. 0)"
    by (auto simp: fun_eq_iff)
  have 1: "?R [] ((\<lambda>_. 0)(1 := 1)) (SendQueue_new ?h1)"
    using reach_packet [OF reach_new, of 1 "example_packet 1" "\<lambda>d b. 2" "\<lambda>a. a = 1"]
    by (simp add: SendQueue_new_def example_packet_def)
  have 2: "?R [] ((\<lambda>_. 0)(1 := 1, 2 := 1)) (SendQueue_new ?h2)"
    using reach_packet [OF 1, of 2 "example_packet 2"]
    by (simp add: SendQueue_new_def example_packet_def fun_upd_twist)
  have 3: "?R [1] ((\<lambda>_. 0)(1 := 1, 2 := 1))
      \<lparr>sq_queue = [1], sq_verbose = False,
       sq_heap = [1 \<mapsto> ?two (example_packet 1), 2 \<mapsto> example_packet 2], sq_waits = 1, sq_log = []\<rparr>"
    using reach_enqueue [OF 2, of 1 True]
    by (simp add: SendQueue_new_def enqueuePacket_def QUEUE_LENGTH_def ptr_ref_def pkt_ref_def
        registerCallback_def example_packet_def fun_upd_twist)
  have 4: "?R [1, 2] ((\<lambda>_. 0)(1 := 1, 2 := 1))
      \<lparr>sq_queue = [2, 1], sq_verbose = False,
       sq_heap = [1 \<mapsto> ?two (example_packet 1), 2 \<mapsto> ?two (example_packet 2)], sq_waits = 1, sq_log = []\<rparr>"
    using reach_enqueue [OF 3, of 2 True]
    by (simp add: enqueuePacket_def ptr_ref_def pkt_ref_def example_packet_def fun_upd_twist)
  have 5: "?R [1, 2] ((\<lambda>_. 0)(2 := 1))
      \<lparr>sq_queue = [2, 1], sq_verbose = False,
       sq_heap = [1 \<mapsto> example_packet 1, 2 \<mapsto> ?two (example_packet 2)], sq_waits = 1, sq_log = []\<rparr>"
    using reach_release [OF 4, of 1]
    by (simp add: release_1 ptr_unref_def pkt_unref_def Let_def example_packet_def fun_upd_twist)
  show ?thesis
    using reach_release [OF 5, of 2]
    by (simp add: release_2 ptr_unref_def pkt_unref_def Let_def example_packet_def example_queue_def
        fun_upd_idem_iff)
qed

theorem send_queue_safe_witness:
  "\<exists>s'. fire (\<lambda>d b. 2) True example_queue = Inr s'"
  using send_queue_safe [OF example_reach] by (simp add: example_queue_def)


theorem send_queue_drains_witness:
  "\<exists>s'. drain (\<lambda>d b. 2) 2 example_queue = Inr s' \<and> sq_queue s' = [] \<and>
     sent_packets (sq_log s') = [(2, NodeId 2, [1, 2]), (1, NodeId 1, [1, 2])] \<and>
     sq_heap s' 1 = None"
proof -
  obtain s' where "drain (\<lambda>d b. 2) (length (sq_queue example_queue)) example_queue = Inr s'"
    "sq_queue s' = []"
    "sent_packets (sq_log s') =
       sent_packets (sq_log example_queue) @ map (contents example_queue) (sq_queue example_queue)"
    "sq_heap s' 1 = None"
    using send_queue_drains [OF example_reach] by blast
  then have "drain (\<lambda>d b. 2) 2 example_queue = Inr s' \<and> sq_queue s' = [] \<and>
      sent_packets (sq_log s') = [(2, NodeId 2, [1, 2]), (1, NodeId 1, [1, 2])] \<and> sq_heap s' 1 = None"
    by (simp add: example_queue_def contents_def example_packet_def numeral_2_eq_2)
  then show ?thesis ..
qed

end
