(* ===== verification/Ccm.thy ===== *)
theory Ccm
  imports Node_Id
begin

text \<open>
  The CCM mode of a block cipher (\<open>src/src/crypto/gladman/ccm.c\<close>, \<open>ccm.h\<close>): authentication by a
  CBC-MAC and encryption in counter mode, in place in the memory of the caller.  The block cipher
  \<open>aes_encrypt\<close> is the parameter \<open>E\<close> of the definitions, a function of the key and a block; the theorems need
  of it only that a block is mapped to a block.  The message buffer is a pointer into a memory of
  bytes; an access outside of this memory is an error.  At the end the mode is compared with its
  specification in RFC 3610.
\<close>

unbundle bit_operations_syntax

section \<open>The context\<close>

definition AES_BLOCK_SIZE :: nat where "AES_BLOCK_SIZE = 16"

definition CCM_ok :: int where "CCM_ok = 0"
definition CCM_bad_key :: int where "CCM_bad_key = - 1"
definition CCM_bad_auth_field_length :: int where "CCM_bad_auth_field_length = - 2"
definition CCM_bad_auth_data_length :: int where "CCM_bad_auth_data_length = - 3"
definition CCM_auth_failure :: int where "CCM_auth_failure = - 4"
definition CCM_msg_length_error :: int where "CCM_msg_length_error = - 5"

datatype ccm_error = MemoryAccess | ContextAccess

text \<open>The AES context is the key that was set.\<close>

record CCM_ctx =
  blk :: "byte list"
  cbc :: "byte list"
  sii :: "byte list"
  af_len :: nat
  md_len :: u32
  ccm_cnt :: u32
  aes :: "byte list"

type_synonym block_cipher = "byte list \<Rightarrow> byte list \<Rightarrow> byte list"

text \<open>
  What the code depends on of the machine: the size of \<open>unsigned long\<close>, the addresses of the memory
  and of the context modulo four, and the bytes that follow the field \<open>sii\<close> in the context.
\<close>

record machine =
  long_size :: nat
  mem_addr :: nat
  ctx_addr :: nat
  ctx_rest :: "byte list"

section \<open>The counter\<close>

text \<open>The counter takes four, three or two bytes; the cases of the switch fall through.\<close>

definition set_ctr :: "u32 \<Rightarrow> byte list \<Rightarrow> byte list" where
  "set_ctr v b =
     (let b1 = (if b ! 0 = 3 then b[12 := ucast (drop_bit 24 v)] else b);
          b2 = (if b ! 0 = 3 \<or> b ! 0 = 2 then b1[13 := ucast (drop_bit 16 v)] else b1)
      in if b ! 0 = 3 \<or> b ! 0 = 2 \<or> b ! 0 = 1 then b2[14 := ucast (drop_bit 8 v), 15 := ucast v] else b2)"

text \<open>The byte at \<open>i\<close> is incremented, and while the result is zero the byte before it.\<close>

fun inc_bytes :: "nat \<Rightarrow> nat \<Rightarrow> byte list \<Rightarrow> byte list" where
  "inc_bytes 0 i b = b"
| "inc_bytes (Suc n) i b =
     (let b = b[i := b ! i + 1] in if b ! i = 0 then inc_bytes n (i - 1) b else b)"

definition inc_ctr :: "byte list \<Rightarrow> byte list" where
  "inc_ctr b =
     (if b ! 0 = 3 then inc_bytes 4 15 b
      else if b ! 0 = 2 then inc_bytes 3 15 b
      else if b ! 0 = 1 then inc_bytes 2 15 b else b)"

section \<open>CCM_init\<close>

text \<open>The additional data are added to the running value, which is encrypted when a block is full and at the end.\<close>

fun auth_loop :: "(byte list \<Rightarrow> byte list) \<Rightarrow> nat \<Rightarrow> byte list \<Rightarrow> byte list \<Rightarrow> byte list" where
  "auth_loop E cnt [] c = c"
| "auth_loop E cnt (x # xs) c =
     (let i = (cnt + 2) mod AES_BLOCK_SIZE;
          c = c[i := c ! i XOR x]
      in auth_loop E (Suc cnt) xs (if (Suc cnt + 2) mod AES_BLOCK_SIZE = 0 \<or> xs = [] then E c else c))"

definition counter_size :: "u32 \<Rightarrow> byte" where
  "counter_size n = (if n AND 0xff000000 \<noteq> 0 then 3 else if n AND 0xffff0000 \<noteq> 0 then 2 else 1)"

text \<open>The blocks for the running CBC and counter values, from the nonce and the additional data.\<close>

definition init_ctx :: "block_cipher \<Rightarrow> byte list \<Rightarrow> byte list \<Rightarrow> byte list \<Rightarrow> u32 \<Rightarrow> nat \<Rightarrow> CCM_ctx" where
  "init_ctx E key nonce auth msg_len auth_field_len =
     (let q = counter_size msg_len; ad_len = length auth;
          b = q # nonce @ replicate (unat q + 1) 0;
          b = set_ctr msg_len b;
          c = b[0 := b ! 0 OR (if ad_len \<noteq> 0 then 0x40 else 0) + of_nat ((auth_field_len - 2) * 4)];
          b = set_ctr 1 b;
          c = E key c;
          s = E key b;
          c = (if ad_len \<noteq> 0
               then auth_loop (E key) 0 auth (c[0 := c ! 0 XOR of_nat (ad_len div 256), 1 := c ! 1 XOR of_nat (ad_len mod 256)])
               else c)
      in \<lparr>blk = b, cbc = c, sii = s, af_len = auth_field_len, md_len = msg_len, ccm_cnt = 0, aes = key\<rparr>)"

definition nonce_size :: "u32 \<Rightarrow> nat" where
  "nonce_size msg_len = AES_BLOCK_SIZE - unat (counter_size msg_len) - 2"

definition CCM_init ::
  "block_cipher \<Rightarrow> byte list \<Rightarrow> nat \<Rightarrow> byte list \<Rightarrow> nat \<Rightarrow> nat \<Rightarrow> nat \<Rightarrow> u32 \<Rightarrow> nat \<Rightarrow> ccm_error + (int \<times> CCM_ctx option)" where
  "CCM_init E key key_len mem nonce auth ad_len msg_len auth_field_len =
     (if key_len \<notin> {16, 24, 32} then Inr (CCM_bad_key, None)
      else if auth_field_len < 2 \<or> auth_field_len > 16 \<or> odd auth_field_len then Inr (CCM_bad_auth_field_length, None)
      else if ad_len \<ge> 65536 - 256 then Inr (CCM_bad_auth_data_length, None)
      else if nonce + nonce_size msg_len > length mem \<or> auth + ad_len > length mem then Inl MemoryAccess
      else Inr (CCM_ok, Some (init_ctx E key (mem_read mem nonce (nonce_size msg_len)) (mem_read mem auth ad_len)
             msg_len auth_field_len)))"

section \<open>Encryption and decryption\<close>

type_synonym ccm_state = "CCM_ctx \<times> byte list"

definition next_block :: "block_cipher \<Rightarrow> CCM_ctx \<Rightarrow> CCM_ctx" where
  "next_block E ctx =
     (let b = inc_ctr (blk ctx) in ctx\<lparr>blk := b, sii := E (aes ctx) b, cbc := E (aes ctx) (cbc ctx)\<rparr>)"

text \<open>One byte of the message at \<open>mbuf[cnt]\<close>, and the byte of the block at \<open>b_pos\<close>.\<close>

definition enc_byte :: "nat \<Rightarrow> nat \<Rightarrow> ccm_state \<Rightarrow> ccm_error + ccm_state" where
  "enc_byte i b s =
     (case s of (ctx, mem) \<Rightarrow>
        if b \<ge> AES_BLOCK_SIZE then Inl ContextAccess
        else if i \<ge> length mem then Inl MemoryAccess
        else Inr (ctx\<lparr>cbc := (cbc ctx)[b := cbc ctx ! b XOR mem ! i]\<rparr>, mem[i := mem ! i XOR sii ctx ! b]))"

definition dec_byte :: "nat \<Rightarrow> nat \<Rightarrow> ccm_state \<Rightarrow> ccm_error + ccm_state" where
  "dec_byte i b s =
     (case s of (ctx, mem) \<Rightarrow>
        if b \<ge> AES_BLOCK_SIZE then Inl ContextAccess
        else if i \<ge> length mem then Inl MemoryAccess
        else let mem = mem[i := mem ! i XOR sii ctx ! b]
             in Inr (ctx\<lparr>cbc := (cbc ctx)[b := cbc ctx ! b XOR mem ! i]\<rparr>, mem))"

text \<open>
  One \<open>unsigned long\<close> at \<open>mp\<close>, and the one with index \<open>k\<close> of the fields \<open>cbc\<close> and \<open>sii\<close>, which lie one behind the other
  in the context.
\<close>

definition xor_at :: "byte list \<Rightarrow> nat \<Rightarrow> byte list \<Rightarrow> byte list" where
  "xor_at buf off bs = mem_write buf off (map2 (XOR) (mem_read buf off (length bs)) bs)"

definition enc_word :: "machine \<Rightarrow> nat \<Rightarrow> nat \<Rightarrow> ccm_state \<Rightarrow> ccm_error + ccm_state" where
  "enc_word M mp k s =
     (case s of (ctx, mem) \<Rightarrow>
        let w = long_size M; f = cbc ctx @ sii ctx @ ctx_rest M in
        if AES_BLOCK_SIZE + w * k + w > length f then Inl ContextAccess
        else if mp + w > length mem then Inl MemoryAccess
        else let f = xor_at f (w * k) (mem_read mem mp w);
                 mem = xor_at mem mp (mem_read f (AES_BLOCK_SIZE + w * k) w)
             in Inr (ctx\<lparr>cbc := mem_read f 0 AES_BLOCK_SIZE, sii := mem_read f AES_BLOCK_SIZE AES_BLOCK_SIZE\<rparr>, mem))"

definition dec_word :: "machine \<Rightarrow> nat \<Rightarrow> nat \<Rightarrow> ccm_state \<Rightarrow> ccm_error + ccm_state" where
  "dec_word M mp k s =
     (case s of (ctx, mem) \<Rightarrow>
        let w = long_size M; f = cbc ctx @ sii ctx @ ctx_rest M in
        if AES_BLOCK_SIZE + w * k + w > length f then Inl ContextAccess
        else if mp + w > length mem then Inl MemoryAccess
        else let mem = xor_at mem mp (mem_read f (AES_BLOCK_SIZE + w * k) w);
                 f = xor_at f (w * k) (mem_read mem mp w)
             in Inr (ctx\<lparr>cbc := mem_read f 0 AES_BLOCK_SIZE, sii := mem_read f AES_BLOCK_SIZE AES_BLOCK_SIZE\<rparr>, mem))"

text \<open>The loops, in the order of the code; \<open>step\<close> and \<open>word\<close> are the operations above.\<close>

function align_loop ::
  "(nat \<Rightarrow> nat \<Rightarrow> ccm_state \<Rightarrow> ccm_error + ccm_state) \<Rightarrow> machine \<Rightarrow> nat \<Rightarrow> nat \<Rightarrow> nat \<Rightarrow> nat \<Rightarrow> ccm_state \<Rightarrow>
   ccm_error + (nat \<times> nat \<times> ccm_state)" where
  "align_loop step M p len cnt b s =
     (if (mem_addr M + p + cnt) mod 4 \<noteq> 0 \<and> cnt < len \<and> b < AES_BLOCK_SIZE
      then rbind (step (p + cnt) b s) (\<lambda>s. align_loop step M p len (Suc cnt) (Suc b) s)
      else Inr (cnt, b, s))"
  by pat_completeness auto

termination align_loop
  by (relation "measure (\<lambda>(step, M, p, len, cnt, b, s). len - cnt)") (auto simp: AES_BLOCK_SIZE_def)

function word_loop ::
  "(nat \<Rightarrow> nat \<Rightarrow> ccm_state \<Rightarrow> ccm_error + ccm_state) \<Rightarrow> machine \<Rightarrow> nat \<Rightarrow> nat \<Rightarrow> nat \<Rightarrow> nat \<Rightarrow> ccm_state \<Rightarrow>
   ccm_error + (nat \<times> nat \<times> nat \<times> ccm_state)" where
  "word_loop word M len mp cnt b s =
     (if b < AES_BLOCK_SIZE div 4 \<and> cnt + 4 < len
      then rbind (word mp b s) (\<lambda>s. word_loop word M len (mp + long_size M) (cnt + 4) (Suc b) s)
      else Inr (mp, cnt, b, s))"
  by pat_completeness auto

termination word_loop
  by (relation "measure (\<lambda>(word, M, len, mp, cnt, b, s). len - cnt)") (auto simp: AES_BLOCK_SIZE_def)

function block_loop ::
  "block_cipher \<Rightarrow> (nat \<Rightarrow> nat \<Rightarrow> ccm_state \<Rightarrow> ccm_error + ccm_state) \<Rightarrow> machine \<Rightarrow> nat \<Rightarrow> nat \<Rightarrow> nat \<Rightarrow> ccm_state \<Rightarrow>
   ccm_error + (nat \<times> ccm_state)" where
  "block_loop E word M len mp cnt s =
     (if cnt + AES_BLOCK_SIZE < len
      then rbind (word mp 0 s) (\<lambda>s. rbind (word (mp + long_size M) 1 s) (\<lambda>s.
           rbind (word (mp + 2 * long_size M) 2 s) (\<lambda>s. rbind (word (mp + 3 * long_size M) 3 s) (\<lambda>(ctx, mem).
             block_loop E word M len (mp + 4 * long_size M) (cnt + 16) (next_block E ctx, mem)))))
      else Inr (cnt, s))"
  by pat_completeness auto

termination block_loop
  by (relation "measure (\<lambda>(E, word, M, len, mp, cnt, s). len - cnt)") (auto simp: AES_BLOCK_SIZE_def)

definition aligned_part ::
  "block_cipher \<Rightarrow> (nat \<Rightarrow> nat \<Rightarrow> ccm_state \<Rightarrow> ccm_error + ccm_state) \<Rightarrow> (nat \<Rightarrow> nat \<Rightarrow> ccm_state \<Rightarrow> ccm_error + ccm_state) \<Rightarrow>
   machine \<Rightarrow> nat \<Rightarrow> nat \<Rightarrow> nat \<Rightarrow> ccm_state \<Rightarrow> ccm_error + (nat \<times> nat \<times> ccm_state)" where
  "aligned_part E step word M p len b s =
     (if (int (mem_addr M + p) - int (ctx_addr M)) mod 4 \<noteq> 0 then Inr (0, b, s)
      else
        rbind (align_loop step M p len 0 b s) (\<lambda>(cnt, b, s).
          let b = b div 4; mp = p + cnt in
          rbind (if b \<noteq> 0
                 then rbind (word_loop word M len mp cnt b s) (\<lambda>(mp, cnt, b, s).
                   Inr (if b = AES_BLOCK_SIZE div 4 then (mp, cnt, 0, next_block E (fst s), snd s) else (mp, cnt, b, s)))
                 else Inr (mp, cnt, b, s)) (\<lambda>(mp, cnt, b, s).
            rbind (block_loop E word M len mp cnt s) (\<lambda>(cnt, s). Inr (cnt, b, s)))))"

function fill_loop ::
  "(nat \<Rightarrow> nat \<Rightarrow> ccm_state \<Rightarrow> ccm_error + ccm_state) \<Rightarrow> nat \<Rightarrow> nat \<Rightarrow> nat \<Rightarrow> ccm_state \<Rightarrow> ccm_error + (nat \<times> ccm_state)" where
  "fill_loop step p cnt b s =
     (if b < AES_BLOCK_SIZE then rbind (step (p + cnt) b s) (\<lambda>s. fill_loop step p (Suc cnt) (Suc b) s) else Inr (cnt, s))"
  by pat_completeness auto

termination fill_loop
  by (relation "measure (\<lambda>(step, p, cnt, b, s). AES_BLOCK_SIZE - b)") (auto simp: AES_BLOCK_SIZE_def)

declare fill_loop.simps [simp del]

lemma fill_loop_cnt: "fill_loop step p cnt b s = Inr (c, s') \<Longrightarrow> c = cnt + (AES_BLOCK_SIZE - b)"
proof (induction step p cnt b s rule: fill_loop.induct)
  case (1 step p cnt b s)
  show ?case
  proof (cases "b < AES_BLOCK_SIZE")
    case True
    with 1(2) obtain t where "fill_loop step p (Suc cnt) (Suc b) t = Inr (c, s')"
      by (subst (asm) fill_loop.simps) (auto simp: rbind_Inr_iff)
    from 1(1) [OF True this] True show ?thesis by simp
  next
    case False
    with 1(2) show ?thesis by (subst (asm) fill_loop.simps) simp
  qed
qed

text \<open>The byte-wise loop over whole blocks, which only the encryption has.\<close>

function blocks_loop ::
  "block_cipher \<Rightarrow> nat \<Rightarrow> nat \<Rightarrow> nat \<Rightarrow> nat \<Rightarrow> ccm_state \<Rightarrow> ccm_error + (nat \<times> nat \<times> ccm_state)" where
  "blocks_loop E p len cnt b s =
     (if cnt + AES_BLOCK_SIZE < len
      then (case fill_loop enc_byte p cnt b s of
              Inl e \<Rightarrow> Inl e
            | Inr (cnt, ctx, mem) \<Rightarrow> blocks_loop E p len cnt 0 (next_block E ctx, mem))
      else Inr (cnt, b, s))"
  by pat_completeness auto

termination blocks_loop
proof (relation "measure (\<lambda>(E, p, len, cnt, b, s). 2 * (len - cnt) + (if b < AES_BLOCK_SIZE then 0 else 1))", goal_cases)
  case (2 E p len cnt b s x c y ctx mem)
  then have "c = cnt + (AES_BLOCK_SIZE - b)" using fill_loop_cnt by blast
  with 2 show ?case by (auto simp: AES_BLOCK_SIZE_def)
qed simp

function byte_loop ::
  "block_cipher \<Rightarrow> (nat \<Rightarrow> nat \<Rightarrow> ccm_state \<Rightarrow> ccm_error + ccm_state) \<Rightarrow> nat \<Rightarrow> nat \<Rightarrow> nat \<Rightarrow> nat \<Rightarrow> ccm_state \<Rightarrow>
   ccm_error + (nat \<times> nat \<times> ccm_state)" where
  "byte_loop E step p len cnt b s =
     (if cnt < len
      then rbind (step (p + cnt) b s) (\<lambda>(ctx, mem).
        if Suc b = AES_BLOCK_SIZE then byte_loop E step p len (Suc cnt) 0 (next_block E ctx, mem)
        else byte_loop E step p len (Suc cnt) (Suc b) (ctx, mem))
      else Inr (cnt, b, s))"
  by pat_completeness auto

termination byte_loop
  by (relation "measure (\<lambda>(E, step, p, len, cnt, b, s). len - cnt)") (auto simp: AES_BLOCK_SIZE_def)

declare align_loop.simps [simp del] word_loop.simps [simp del] block_loop.simps [simp del]
  blocks_loop.simps [simp del] byte_loop.simps [simp del]

text \<open>At the end of the message the authentication value is encrypted with the counter zero.\<close>

definition finish_mac :: "block_cipher \<Rightarrow> nat \<Rightarrow> CCM_ctx \<Rightarrow> CCM_ctx" where
  "finish_mac E b ctx =
     (let c = (if b \<noteq> 0 then E (aes ctx) (cbc ctx) else cbc ctx); k = set_ctr 0 (blk ctx)
      in ctx\<lparr>cbc := c, blk := k, sii := E (aes ctx) k\<rparr>)"

definition mac_field :: "CCM_ctx \<Rightarrow> byte list" where
  "mac_field ctx = map (\<lambda>i. cbc ctx ! i XOR sii ctx ! i) [0..<af_len ctx]"

definition CCM_encrypt ::
  "block_cipher \<Rightarrow> machine \<Rightarrow> nat \<Rightarrow> u32 \<Rightarrow> ccm_state \<Rightarrow> ccm_error + (int \<times> ccm_state)" where
  "CCM_encrypt E M p len s =
     (let ctx = fst s; b = unat (ccm_cnt ctx AND of_nat AES_BLOCK_SIZE) in
      if ccm_cnt ctx + len > md_len ctx then Inr (CCM_msg_length_error, s)
      else
        rbind (aligned_part E enc_byte (enc_word M) M p (unat len) b s) (\<lambda>(cnt, b, s).
        rbind (blocks_loop E p (unat len) cnt b s) (\<lambda>(cnt, b, s).
        rbind (byte_loop E enc_byte p (unat len) cnt b s) (\<lambda>(cnt, b, ctx, mem).
          let ctx = ctx\<lparr>ccm_cnt := ccm_cnt ctx + of_nat cnt\<rparr> in
          if ccm_cnt ctx = md_len ctx
          then let ctx = finish_mac E b ctx in
               if p + cnt + af_len ctx > length mem then Inl MemoryAccess
               else Inr (int (cnt + af_len ctx), ctx, mem_write mem (p + cnt) (mac_field ctx))
          else Inr (int cnt, ctx, mem)))))"

definition CCM_decrypt ::
  "block_cipher \<Rightarrow> machine \<Rightarrow> nat \<Rightarrow> u32 \<Rightarrow> ccm_state \<Rightarrow> ccm_error + (int \<times> ccm_state)" where
  "CCM_decrypt E M p len s =
     (let ctx = fst s; b = unat (ccm_cnt ctx AND of_nat AES_BLOCK_SIZE) in
      if ccm_cnt ctx + len > md_len ctx \<and> ccm_cnt ctx + len \<noteq> md_len ctx + of_nat (af_len ctx)
      then Inr (CCM_msg_length_error, s)
      else
        let len = (if ccm_cnt ctx + len > md_len ctx then md_len ctx - ccm_cnt ctx else len) in
        rbind (aligned_part E dec_byte (dec_word M) M p (unat len) b s) (\<lambda>(cnt, b, s).
        rbind (byte_loop E dec_byte p (unat len) cnt b s) (\<lambda>(cnt, b, ctx, mem).
          let ctx = ctx\<lparr>ccm_cnt := ccm_cnt ctx + of_nat cnt\<rparr> in
          if ccm_cnt ctx = md_len ctx
          then let ctx = finish_mac E b ctx in
               if p + cnt + af_len ctx > length mem then Inl MemoryAccess
               else if mem_read mem (p + cnt) (af_len ctx) \<noteq> mac_field ctx
               then Inr (CCM_auth_failure, ctx, mem_write mem p (replicate (cnt + af_len ctx) 0))
               else Inr (int cnt, ctx, mem)
          else Inr (int cnt, ctx, mem))))"

definition CCM_mode ::
  "block_cipher \<Rightarrow> machine \<Rightarrow> byte list \<Rightarrow> nat \<Rightarrow> nat \<Rightarrow> nat \<Rightarrow> nat \<Rightarrow> nat \<Rightarrow> u32 \<Rightarrow> nat \<Rightarrow> bool \<Rightarrow> byte list \<Rightarrow>
   ccm_error + (int \<times> byte list)" where
  "CCM_mode E M key key_len nonce auth ad_len msg msg_len auth_field_len ed_flag mem =
     rbind (CCM_init E key key_len mem nonce auth ad_len msg_len auth_field_len) (\<lambda>(ec, c).
       case c of None \<Rightarrow> Inr (ec, mem)
       | Some ctx \<Rightarrow>
           rbind (if ed_flag then CCM_decrypt E M msg (msg_len + of_nat auth_field_len) (ctx, mem)
                  else CCM_encrypt E M msg msg_len (ctx, mem)) (\<lambda>(r, _, mem). Inr (r, mem)))"

section \<open>The loops on lists of bytes\<close>

text \<open>
  All loops process the message byte by byte: a byte of the message is added to the running block, a byte of the
  encrypted counter to the message, and after sixteen bytes both blocks are renewed.  \<open>enc\<close> tells
  whether the byte is added before or after its encryption.
\<close>

definition absorb :: "bool \<Rightarrow> nat \<Rightarrow> byte \<Rightarrow> CCM_ctx \<Rightarrow> CCM_ctx" where
  "absorb enc b x ctx = ctx\<lparr>cbc := (cbc ctx)[b := cbc ctx ! b XOR (if enc then x else x XOR sii ctx ! b)]\<rparr>"

fun stream :: "block_cipher \<Rightarrow> bool \<Rightarrow> nat \<Rightarrow> CCM_ctx \<Rightarrow> byte list \<Rightarrow> byte list \<times> nat \<times> CCM_ctx" where
  "stream E enc b ctx [] = ([], b, ctx)"
| "stream E enc b ctx (x # xs) =
     (let c = absorb enc b x ctx;
          r = (if Suc b = AES_BLOCK_SIZE then stream E enc 0 (next_block E c) xs else stream E enc (Suc b) c xs)
      in ((x XOR sii ctx ! b) # fst r, snd r))"

definition ccm_step :: "bool \<Rightarrow> nat \<Rightarrow> nat \<Rightarrow> ccm_state \<Rightarrow> ccm_error + ccm_state" where
  "ccm_step enc = (if enc then enc_byte else dec_byte)"

lemma ccm_step_eq:
  assumes "b < 16" "i < length mem"
  shows "ccm_step enc i b (ctx, mem) = Inr (absorb enc b (mem ! i) ctx, mem[i := mem ! i XOR sii ctx ! b])"
  using assms by (simp add: ccm_step_def enc_byte_def dec_byte_def absorb_def AES_BLOCK_SIZE_def)

lemma stream_append:
  "stream E enc b ctx (xs @ ys) =
     (let r = stream E enc b ctx xs; q = stream E enc (fst (snd r)) (snd (snd r)) ys in (fst r @ fst q, snd q))"
  by (induction E enc b ctx xs rule: stream.induct) (simp_all add: Let_def)

lemma length_stream: "length (fst (stream E enc b ctx xs)) = length xs"
  by (induction E enc b ctx xs rule: stream.induct) (simp_all add: Let_def)

lemma stream_pos: "b < 16 \<Longrightarrow> fst (snd (stream E enc b ctx xs)) = (b + length xs) mod 16"
proof (induction E enc b ctx xs rule: stream.induct)
  case (2 E enc b ctx x xs)
  show ?case
  proof (cases "Suc b = 16")
    case True
    then have "(b + Suc (length xs)) mod 16 = (16 + length xs) mod 16" by simp
    then show ?thesis using 2(1) [OF refl] True by (simp add: Let_def AES_BLOCK_SIZE_def)
  next
    case False
    then show ?thesis using 2(2) [OF refl] 2(3) by (simp add: Let_def AES_BLOCK_SIZE_def)
  qed
qed simp

lemma mem_read_Cons: "i < length mem \<Longrightarrow> mem_read mem i (Suc n) = mem ! i # mem_read mem (Suc i) n"
  by (simp add: mem_read_def Cons_nth_drop_Suc [symmetric])

lemma mem_write_Cons: "i + length ys < length mem \<Longrightarrow> mem_write (mem[i := y]) (Suc i) ys = mem_write mem i (y # ys)"
  by (simp add: mem_write_def take_Suc_conv_app_nth)

lemma mem_read_update_before: "mem_read (mem[i := y]) (Suc i) n = mem_read mem (Suc i) n"
  by (simp add: mem_read_def)

lemma byte_loop_stream:
  assumes "b < 16" "p + len \<le> length mem" "cnt \<le> len"
  shows "byte_loop E (ccm_step enc) p len cnt b (ctx, mem) =
    (let r = stream E enc b ctx (mem_read mem (p + cnt) (len - cnt))
     in Inr (len, fst (snd r), snd (snd r), mem_write mem (p + cnt) (fst r)))"
  using assms
proof (induction "len - cnt" arbitrary: cnt b ctx mem)
  case 0
  then show ?case by (subst byte_loop.simps) (simp add: mem_read_def)
next
  case (Suc n)
  then have c: "cnt < len" "n = len - Suc cnt" "len - cnt = Suc (len - Suc cnt)" "p + cnt < length mem" by auto
  let ?x = "mem ! (p + cnt)" and ?m = "mem[p + cnt := mem ! (p + cnt) XOR sii ctx ! b]"
  let ?c = "absorb enc b ?x ctx" and ?r = "mem_read mem (Suc (p + cnt)) (len - Suc cnt)"
  have IH: "byte_loop E (ccm_step enc) p len (Suc cnt) b' (ctx', ?m) =
      (let r = stream E enc b' ctx' ?r in Inr (len, fst (snd r), snd (snd r), mem_write ?m (Suc (p + cnt)) (fst r)))" if "b' < 16" for b' ctx'
    using Suc(1) [OF c(2) that, of ?m ctx'] Suc(4) c(1) by (simp add: mem_read_update_before)
  have "mem_write ?m (Suc (p + cnt)) (fst (stream E enc b' ctx' ?r)) =
      mem_write mem (p + cnt) ((?x XOR sii ctx ! b) # fst (stream E enc b' ctx' ?r))" for b' ctx'
    using c Suc(4) by (intro mem_write_Cons) (simp add: length_stream mem_read_def)
  moreover have "byte_loop E (ccm_step enc) p len cnt b (ctx, mem) =
      byte_loop E (ccm_step enc) p len (Suc cnt) (if Suc b = 16 then 0 else Suc b) (if Suc b = 16 then next_block E ?c else ?c, ?m)"
    by (subst byte_loop.simps) (simp add: ccm_step_eq Suc(3) c AES_BLOCK_SIZE_def)
  ultimately show ?case
    using IH [of 0] IH [of "Suc b"] Suc(3) c 
    by (cases "b = 15") (simp_all add: mem_read_Cons Let_def AES_BLOCK_SIZE_def)
qed

section \<open>All loops process the message byte by byte\<close>

lemma byte_loop_split:
  assumes "cnt \<le> mid" "mid \<le> len"
  shows "byte_loop E step p len cnt b s = rbind (byte_loop E step p mid cnt b s) (\<lambda>(c, b, s). byte_loop E step p len c b s)"
  using assms
proof (induction "mid - cnt" arbitrary: cnt b s)
  case 0
  then show ?case by (simp add: byte_loop.simps [of E step p cnt cnt])
next
  case (Suc n)
  then have c: "cnt < mid" "cnt < len" "n = mid - Suc cnt" "Suc cnt \<le> mid" by auto
  note IH = Suc(1) [OF c(3,4) Suc(4)]
  show ?case
    using c by (cases "step (p + cnt) b s")
      (auto simp: byte_loop.simps [of E step p mid cnt] byte_loop.simps [of E step p len cnt] IH)
qed

lemma byte_loop_fill:
  "b < 16 \<Longrightarrow> byte_loop E step p (cnt + (16 - b)) cnt b s =
     rbind (fill_loop step p cnt b s) (\<lambda>(c, ctx, mem). Inr (c, 0, next_block E ctx, mem))"
proof (induction "16 - b" arbitrary: b cnt s)
  case (Suc n)
  note unf = byte_loop.simps [of E step p "cnt + (16 - b)" cnt b s] fill_loop.simps [of step p cnt b s]
  show ?case
  proof (cases "Suc b = 16")
    case True
    then have "b = 15" by simp
    then show ?thesis unfolding unf
      by (cases "step (p + cnt) b s")
        (auto simp: AES_BLOCK_SIZE_def fill_loop.simps [of step p _ 16] byte_loop.simps [of E step p "Suc cnt"])
  next
    case False
    then have "n = 16 - Suc b" "Suc b < 16" "cnt + (16 - b) = Suc cnt + (16 - Suc b)" using Suc by auto
    with Suc(1) [of "Suc b" "Suc cnt"] show ?thesis unfolding unf
      by (cases "step (p + cnt) b s") (auto simp: AES_BLOCK_SIZE_def)
  qed
qed simp

lemma blocks_loop_bytes:
  "b < 16 \<Longrightarrow> rbind (blocks_loop E p len cnt b s) (\<lambda>(c, b, s). byte_loop E enc_byte p len c b s) = byte_loop E enc_byte p len cnt b s"
proof (induction E p len cnt b s rule: blocks_loop.induct)
  case (1 E p len cnt b s)
  show ?case
  proof (cases "cnt + 16 < len")
    case True
    then have "byte_loop E enc_byte p len cnt b s =
        rbind (rbind (fill_loop enc_byte p cnt b s) (\<lambda>(c, ctx, mem). Inr (c, 0, next_block E ctx, mem)))
          (\<lambda>(c, b, s). byte_loop E enc_byte p len c b s)"
      unfolding byte_loop_fill [OF 1(2), symmetric] by (intro byte_loop_split) auto
    with True show ?thesis
      using 1(1) by (cases "fill_loop enc_byte p cnt b s")
        (auto simp: blocks_loop.simps [of E p len cnt b s] AES_BLOCK_SIZE_def)
  qed (simp add: blocks_loop.simps AES_BLOCK_SIZE_def)
qed

text \<open>The words of four bytes.  A block in one go: the bytes of the running block, of the message, and those that come out.\<close>

definition ctx_ok :: "CCM_ctx \<Rightarrow> bool" where
  "ctx_ok ctx \<longleftrightarrow> length (blk ctx) = 16 \<and> length (cbc ctx) = 16 \<and> length (sii ctx) = 16"

abbreviation xor_list :: "byte list \<Rightarrow> byte list \<Rightarrow> byte list" where
  "xor_list xs ys \<equiv> map2 (XOR) xs ys"

abbreviation plain :: "bool \<Rightarrow> byte list \<Rightarrow> byte list \<Rightarrow> byte list" where
  "plain enc xs ss \<equiv> (if enc then xs else xor_list xs ss)"

lemma length_xor_at [simp]: "off + length bs \<le> length buf \<Longrightarrow> length (xor_at buf off bs) = length buf"
  by (simp add: xor_at_def)

lemma nth_xor_at:
  assumes "off + length bs \<le> length buf" "i < length buf"
  shows "xor_at buf off bs ! i = (if off \<le> i \<and> i < off + length bs then buf ! i XOR bs ! (i - off) else buf ! i)"
  using assms by (auto simp: xor_at_def mem_read_def nth_mem_write_in nth_mem_write_out)

lemma stream_in_block:
  assumes "b + length xs = 16" "xs \<noteq> []" "length (cbc ctx) = 16" "length (sii ctx) = 16"
  shows "stream E enc b ctx xs =
    (xor_list xs (drop b (sii ctx)), 0,
     next_block E (ctx\<lparr>cbc := take b (cbc ctx) @ xor_list (drop b (cbc ctx)) (plain enc xs (drop b (sii ctx)))\<rparr>))"
  using assms
proof (induction xs arbitrary: b ctx)
  case (Cons x xs)
  then have b: "b < 16" by simp
  have d: "drop b (sii ctx) = sii ctx ! b # drop (Suc b) (sii ctx)" "drop b (cbc ctx) = cbc ctx ! b # drop (Suc b) (cbc ctx)"
    "take (Suc b) (cbc ctx) = take b (cbc ctx) @ [cbc ctx ! b]"
    using b Cons by (simp_all add: Cons_nth_drop_Suc take_Suc_conv_app_nth)
  have u: "take (Suc b) ((cbc ctx)[b := y]) = take b (cbc ctx) @ [y]" for y
    using b Cons by (simp add: take_Suc_conv_app_nth)
  have v: "b = 15 \<Longrightarrow> (cbc ctx)[15 := y] = take 15 (cbc ctx) @ [y]" for y
    using Cons(4) u [of y] by simp
  show ?case
  proof (cases "xs = []")
    case True
    then show ?thesis using Cons(2) d v by (simp add: absorb_def AES_BLOCK_SIZE_def Let_def)
  next
    case False
    then have "Suc b \<noteq> 16" "Suc b + length xs = 16" using Cons(2) by auto
    then show ?thesis
      using Cons(1) [of "Suc b" "absorb enc b x ctx"] Cons(4,5) False d u
      by (simp add: absorb_def AES_BLOCK_SIZE_def Let_def)
  qed
qed simp

definition ccm_word :: "bool \<Rightarrow> machine \<Rightarrow> nat \<Rightarrow> nat \<Rightarrow> ccm_state \<Rightarrow> ccm_error + ccm_state" where
  "ccm_word enc = (if enc then enc_word else dec_word)"

lemma read_context:
  assumes "length c = 16" "length s = 16" "i + n \<le> 16"
  shows "mem_read (c @ s @ r) (16 + i) n = mem_read s i n"
  using assms by (simp add: mem_read_def)

lemma xor_context:
  assumes "length c = 16" "i + length bs \<le> 16"
  shows "xor_at (c @ s) i bs = xor_at c i bs @ s"
  using assms by (simp add: xor_at_def mem_write_def mem_read_def)

lemma ccm_word_eq:
  assumes "long_size M = 4" "k < 4" "length (cbc ctx) = 16" "length (sii ctx) = 16" "mp + 4 \<le> length mem"
  shows "ccm_word enc M mp k (ctx, mem) =
    Inr (ctx\<lparr>cbc := xor_at (cbc ctx) (4 * k) (plain enc (mem_read mem mp 4) (mem_read (sii ctx) (4 * k) 4))\<rparr>,
      xor_at mem mp (mem_read (sii ctx) (4 * k) 4))"
proof -
  let ?x = "xor_at mem mp (mem_read (sii ctx) (4 * k) 4)"
  have l: "length (mem_read mem mp 4) = 4" "length (mem_read (sii ctx) (4 * k) 4) = 4" using assms by simp_all
  then have x: "mem_read ?x mp 4 = xor_list (mem_read mem mp 4) (mem_read (sii ctx) (4 * k) 4)"
    using assms(5) by (simp add: xor_at_def mem_read_write_same)
  have c: "length (xor_at (cbc ctx) (4 * k) bs) = 16" if "length bs = 4" for bs using that assms by simp
  have t: "mem_read (c @ s @ r) 0 16 = c" "mem_read (c @ s @ r) 16 16 = s" if "length c = 16" "length s = 16" for c s r :: "byte list"
    using that by (simp_all add: mem_read_def)
  show ?thesis
    using assms l by (simp add: ccm_word_def enc_word_def dec_word_def AES_BLOCK_SIZE_def Let_def read_context xor_context
        c t x)
qed

text \<open>Four words one after the other are a block.\<close>

lemma xor_at_append:
  assumes "off + length bs + length cs \<le> length buf"
  shows "xor_at (xor_at buf off bs) (off + length bs) cs = xor_at buf off (bs @ cs)"
  by (rule nth_equalityI) (use assms in \<open>auto simp: nth_xor_at nth_append\<close>)

lemma mem_read_xor_after:
  "off + length bs \<le> length buf \<Longrightarrow> off + length bs \<le> off' \<Longrightarrow> mem_read (xor_at buf off bs) off' n = mem_read buf off' n"
  by (simp add: xor_at_def mem_read_write_after)

lemma mem_read_chunks:
  assumes "off + 16 \<le> length buf"
  shows "mem_read buf off 16 = mem_read buf off 4 @ mem_read buf (off + 4) 4 @ mem_read buf (off + 8) 4 @ mem_read buf (off + 12) 4"
proof -
  have "mem_read buf off (4 + (4 + (4 + 4))) =
      mem_read buf off 4 @ mem_read buf (off + 4) 4 @ mem_read buf (off + 4 + 4) 4 @ mem_read buf (off + 4 + 4 + 4) 4"
    using assms by (subst mem_read_append, simp)+ simp
  then show ?thesis by (simp add: add.assoc)
qed

lemma mem_read_all: "length s = n \<Longrightarrow> mem_read s 0 n = s"
  by (simp add: mem_read_def)

lemma xor_at_chunks:
  assumes "off + 16 \<le> length buf" "length a = 4" "length b = 4" "length c = 4" "length d = 4"
  shows "xor_at (xor_at (xor_at (xor_at buf off a) (off + 4) b) (off + 8) c) (off + 12) d = xor_at buf off (a @ b @ c @ d)"
  using assms xor_at_append [of off a b buf] xor_at_append [of off "a @ b" c buf] xor_at_append [of off "a @ b @ c" d buf]
  by simp

lemma xor_at_whole: "length buf = length bs \<Longrightarrow> xor_at buf 0 bs = xor_list buf bs"
  by (simp add: xor_at_def mem_write_def mem_read_def)

lemma words_block:
  fixes mp :: nat and mem :: "byte list" and ctx :: CCM_ctx
  defines "m \<equiv> mem_read mem mp 16"
  assumes "long_size M = 4" "ctx_ok ctx" "mp + 16 \<le> length mem"
  shows "rbind (ccm_word enc M mp 0 (ctx, mem)) (\<lambda>s. rbind (ccm_word enc M (mp + 4) 1 s) (\<lambda>s.
      rbind (ccm_word enc M (mp + 8) 2 s) (\<lambda>s. ccm_word enc M (mp + 12) 3 s))) =
    Inr (ctx\<lparr>cbc := xor_list (cbc ctx) (plain enc m (sii ctx))\<rparr>, mem_write mem mp (xor_list m (sii ctx)))"
proof -
  have l: "length (cbc ctx) = 16" "length (sii ctx) = 16" using assms(3) by (simp_all add: ctx_ok_def)
  obtain m0 m1 m2 m3 where m: "m = m0 @ m1 @ m2 @ m3"
    and r: "mem_read mem mp 4 = m0" "mem_read mem (mp + 4) 4 = m1" "mem_read mem (mp + 8) 4 = m2" "mem_read mem (mp + 12) 4 = m3"
    using mem_read_chunks [of mp mem] assms(4) by (auto simp: m_def)
  obtain s0 s1 s2 s3 where s: "sii ctx = s0 @ s1 @ s2 @ s3"
    and q: "mem_read (sii ctx) 0 4 = s0" "mem_read (sii ctx) 4 4 = s1" "mem_read (sii ctx) 8 4 = s2" "mem_read (sii ctx) 12 4 = s3"
    using mem_read_chunks [of 0 "sii ctx"] mem_read_all [of "sii ctx" 16] l by auto
  have len: "length m0 = 4" "length m1 = 4" "length m2 = 4" "length m3 = 4"
    "length s0 = 4" "length s1 = 4" "length s2 = 4" "length s3 = 4"
    unfolding r [symmetric] q [symmetric] using l assms(4) by simp_all
  have P: "plain enc m (sii ctx) = plain enc m0 s0 @ plain enc m1 s1 @ plain enc m2 s2 @ plain enc m3 s3"
    using len by (simp add: m s)
  have C: "xor_at (xor_at (xor_at (xor_at (cbc ctx) 0 (plain enc m0 s0)) 4 (plain enc m1 s1)) 8 (plain enc m2 s2)) 12 (plain enc m3 s3) =
      xor_list (cbc ctx) (plain enc m (sii ctx))"
    unfolding P using len l
    by (subst xor_at_chunks [of 0, unfolded add_0]) (simp_all add: xor_at_whole)
  have D: "xor_at (xor_at (xor_at (xor_at mem mp s0) (mp + 4) s1) (mp + 8) s2) (mp + 12) s3 = mem_write mem mp (xor_list m (sii ctx))"
    using xor_at_chunks [of mp mem s0 s1 s2 s3] len assms(4) by (simp add: s m_def xor_at_def)
  show ?thesis
    using assms(2,4) l len C by (cases enc) (simp_all add: ccm_word_eq mem_read_xor_after r q D)
qed

definition cipher_ok :: "block_cipher \<Rightarrow> bool" where
  "cipher_ok E \<longleftrightarrow> (\<forall>k b. length (E k b) = 16)"

lemma length_inc_bytes [simp]: "length (inc_bytes n i b) = length b"
  by (induction n i b rule: inc_bytes.induct) (simp_all add: Let_def)

lemma length_inc_ctr [simp]: "length (inc_ctr b) = length b"
  by (simp add: inc_ctr_def)

lemma length_set_ctr [simp]: "length (set_ctr v b) = length b"
  by (simp add: set_ctr_def Let_def)

lemma next_block_ok: "cipher_ok E \<Longrightarrow> length (blk ctx) = 16 \<Longrightarrow> ctx_ok (next_block E ctx)"
  by (simp add: cipher_ok_def ctx_ok_def next_block_def Let_def)

lemma block_loop_bytes:
  assumes "cipher_ok E" "long_size M = 4" "ctx_ok ctx" "p + len \<le> length mem"
  shows "\<exists>c s. block_loop E (ccm_word enc M) M len (p + cnt) cnt (ctx, mem) = Inr (c, s) \<and>
    byte_loop E (ccm_step enc) p len c 0 s = byte_loop E (ccm_step enc) p len cnt 0 (ctx, mem)"
  using assms(3,4)
proof (induction "len - cnt" arbitrary: cnt ctx mem rule: less_induct)
  case less
  show ?case
  proof (cases "cnt + 16 < len")
    case True
    let ?m = "mem_read mem (p + cnt) 16"
    let ?c = "ctx\<lparr>cbc := xor_list (cbc ctx) (plain enc ?m (sii ctx))\<rparr>" and ?mem = "mem_write mem (p + cnt) (xor_list ?m (sii ctx))"
    have l: "length (cbc ctx) = 16" "length (sii ctx) = 16" "length (blk ctx) = 16" "length ?m = 16"
      using less(2,3) True by (simp_all add: ctx_ok_def)
    have "byte_loop E (ccm_step enc) p (cnt + 16) cnt 0 (ctx, mem) = Inr (cnt + 16, 0, next_block E ?c, ?mem)"
      using less(3) True l
      by (subst byte_loop_stream) (simp_all add: Let_def stream_in_block [where b = 0, OF _ _ l(1,2)] flip: length_0_conv)
    then have B: "byte_loop E (ccm_step enc) p len cnt 0 (ctx, mem) = byte_loop E (ccm_step enc) p len (cnt + 16) 0 (next_block E ?c, ?mem)"
      using byte_loop_split [of cnt "cnt + 16" len E "ccm_step enc" p 0 "(ctx, mem)"] True by simp
    have "ctx_ok (next_block E ?c)" using l(3) by (intro next_block_ok [OF assms(1)]) simp
    moreover have "p + len \<le> length ?mem" using less(3) True l by simp
    moreover have "block_loop E (ccm_word enc M) M len (p + cnt) cnt (ctx, mem) =
        block_loop E (ccm_word enc M) M len (p + (cnt + 16)) (cnt + 16) (next_block E ?c, ?mem)"
      using words_block [OF assms(2) less(2), of "p + cnt" mem enc] True less(3) assms(2)
      by (subst block_loop.simps) (auto simp: AES_BLOCK_SIZE_def add.assoc rbind_Inr_iff)
    ultimately show ?thesis
      using less(1) [of "cnt + 16" "next_block E ?c" ?mem] True B by simp
  next
    case False
    then show ?thesis by (subst block_loop.simps) (simp add: AES_BLOCK_SIZE_def)
  qed
qed

text \<open>
  The part for aligned buffers leaves the rest of the work to the byte-wise loop, if \<open>unsigned long\<close> has
  four bytes, if it is not used at all, or if there is not more than one block.
\<close>

definition words_ok :: "machine \<Rightarrow> nat \<Rightarrow> nat \<Rightarrow> bool" where
  "words_ok M p len \<longleftrightarrow> 4 dvd ctx_addr M \<and> (long_size M = 4 \<or> \<not> 4 dvd mem_addr M + p \<or> len \<le> 16)"

lemma aligned_part_bytes:
  assumes "cipher_ok E" "words_ok M p len" "ctx_ok ctx" "p + len \<le> length mem"
  shows "\<exists>c s. aligned_part E (ccm_step enc) (ccm_word enc M) M p len 0 (ctx, mem) = Inr (c, 0, s) \<and>
    byte_loop E (ccm_step enc) p len c 0 s = byte_loop E (ccm_step enc) p len 0 0 (ctx, mem)"
proof (cases "4 dvd mem_addr M + p")
  case False
  have "4 dvd ctx_addr M" using assms(2) by (simp add: words_ok_def)
  with False have "(int (mem_addr M + p) - int (ctx_addr M)) mod 4 \<noteq> 0" by presburger
  then show ?thesis by (simp add: aligned_part_def)
next
  case True
  have *: "\<exists>c s. block_loop E (ccm_word enc M) M len p 0 (ctx, mem) = Inr (c, s) \<and>
      byte_loop E (ccm_step enc) p len c 0 s = byte_loop E (ccm_step enc) p len 0 0 (ctx, mem)"
  proof (cases "long_size M = 4")
    case True
    then show ?thesis using block_loop_bytes [OF assms(1) True assms(3,4), of enc 0] by simp
  next
    case False
    then have "len \<le> 16" using assms(2) \<open>4 dvd mem_addr M + p\<close> by (simp add: words_ok_def)
    then show ?thesis by (subst block_loop.simps) (simp add: AES_BLOCK_SIZE_def)
  qed
  have "align_loop (ccm_step enc) M p len 0 0 (ctx, mem) = Inr (0, 0, ctx, mem)"
    using True by (subst align_loop.simps) simp
  then show ?thesis using * by (auto simp: aligned_part_def)
qed

section \<open>Encryption and decryption of a whole message\<close>

lemma stream_keeps:
  "aes (snd (snd (stream E enc b ctx xs))) = aes ctx \<and> af_len (snd (snd (stream E enc b ctx xs))) = af_len ctx \<and>
   md_len (snd (snd (stream E enc b ctx xs))) = md_len ctx \<and> ccm_cnt (snd (snd (stream E enc b ctx xs))) = ccm_cnt ctx"
  by (induction E enc b ctx xs rule: stream.induct) (simp_all add: Let_def absorb_def next_block_def)

lemma xor_cancel [simp]: "(x XOR y) XOR y = (x :: byte)"
  by (simp add: xor.assoc)

lemma stream_inverse:
  "stream E (\<not> enc) b ctx (fst (stream E enc b ctx xs)) = (xs, snd (stream E enc b ctx xs))"
proof (induction xs arbitrary: b ctx)
  case (Cons x xs)
  have "absorb (\<not> enc) b (x XOR sii ctx ! b) ctx = absorb enc b x ctx" by (simp add: absorb_def)
  then show ?case by (simp add: Let_def Cons)
qed simp

text \<open>The authentication value for a message, and the result of both operations.\<close>

definition message_mac :: "block_cipher \<Rightarrow> CCM_ctx \<Rightarrow> byte list \<Rightarrow> byte list" where
  "message_mac E ctx xs = (let r = stream E True 0 ctx xs in mac_field (finish_mac E (fst (snd r)) (snd (snd r))))"

lemma mac_field_cnt [simp]:
  "mac_field (finish_mac E b (ctx\<lparr>ccm_cnt := n\<rparr>)) = mac_field (finish_mac E b ctx)"
  "af_len (finish_mac E b ctx) = af_len ctx"
  by (simp_all add: mac_field_def finish_mac_def Let_def)

lemma length_mac_field [simp]: "length (mac_field ctx) = af_len ctx"
  by (simp add: mac_field_def)

lemma CCM_encrypt_eq:
  assumes "cipher_ok E" "words_ok M p (unat len)" "ctx_ok ctx" "p + unat len + af_len ctx \<le> length mem"
    and "ccm_cnt ctx = 0" "md_len ctx = len"
  shows "\<exists>ctx'. CCM_encrypt E M p len (ctx, mem) =
    Inr (int (unat len + af_len ctx), ctx', mem_write mem p (fst (stream E True 0 ctx (mem_read mem p (unat len))) @
      message_mac E ctx (mem_read mem p (unat len))))"
proof -
  let ?xs = "mem_read mem p (unat len)" and ?n = "unat len"
  let ?r = "stream E True 0 ctx ?xs"
  have p: "p + ?n \<le> length mem" using assms(4) by simp
  obtain c s where a: "aligned_part E enc_byte (enc_word M) M p ?n 0 (ctx, mem) = Inr (c, 0, s)"
    and "byte_loop E enc_byte p ?n c 0 s = byte_loop E enc_byte p ?n 0 0 (ctx, mem)"
    using aligned_part_bytes [OF assms(1-3) p, of True] by (auto simp: ccm_step_def ccm_word_def)
  then have b: "rbind (blocks_loop E p ?n c 0 s) (\<lambda>(c, b, s). byte_loop E enc_byte p ?n c b s) =
      Inr (?n, fst (snd ?r), snd (snd ?r), mem_write mem p (fst ?r))"
    using byte_loop_stream [of 0 p ?n mem 0 E True ctx] p by (simp add: blocks_loop_bytes ccm_step_def Let_def)
  then obtain c' b' s' where b': "blocks_loop E p ?n c 0 s = Inr (c', b', s')"
    and bl: "byte_loop E enc_byte p ?n c' b' s' = Inr (?n, fst (snd ?r), snd (snd ?r), mem_write mem p (fst ?r))"
    by (auto simp: rbind_Inr_iff)
  have l: "length (fst ?r) = ?n" using p by (simp add: length_stream)
  then have "mem_write (mem_write mem p (fst ?r)) (p + ?n) (message_mac E ctx ?xs) = mem_write mem p (fst ?r @ message_mac E ctx ?xs)"
    using mem_write_append [of p "fst ?r" "message_mac E ctx ?xs" mem] assms(4)
    by (simp add: message_mac_def Let_def stream_keeps)
  with l p show ?thesis
    using assms(4-6) stream_keeps [of E True 0 ctx ?xs]
    by (simp add: CCM_encrypt_def Let_def a b' bl message_mac_def)
qed

lemma CCM_decrypt_eq:
  assumes "cipher_ok E" "words_ok M p (unat len)" "ctx_ok ctx" "p + unat len + af_len ctx \<le> length mem"
    and "ccm_cnt ctx = 0" "md_len ctx = len" "unat len + af_len ctx < 2 ^ 32" "0 < af_len ctx"
  shows "\<exists>ctx'. CCM_decrypt E M p (len + of_nat (af_len ctx)) (ctx, mem) =
    (let xs = fst (stream E False 0 ctx (mem_read mem p (unat len))) in
     if mem_read mem (p + unat len) (af_len ctx) = message_mac E ctx xs
     then Inr (int (unat len), ctx', mem_write mem p xs)
     else Inr (CCM_auth_failure, ctx', mem_write mem p (replicate (unat len + af_len ctx) 0)))"
proof -
  let ?xs = "mem_read mem p (unat len)" and ?n = "unat len"
  let ?r = "stream E False 0 ctx ?xs"
  have p: "p + ?n \<le> length mem" using assms(4) by simp
  have "unat (of_nat (af_len ctx) :: u32) = af_len ctx"
    using assms(7) by (simp only: unsigned_of_nat of_nat_id) (simp add: take_bit_nat_eq_self)
  then have "unat (len + of_nat (af_len ctx)) = ?n + af_len ctx"
    using assms(7) by (simp add: unat_word_ariths(1))
  then have longer: "len < len + of_nat (af_len ctx)" using assms(8) by (simp add: word_less_nat_alt)
  obtain c s where a: "aligned_part E dec_byte (dec_word M) M p ?n 0 (ctx, mem) = Inr (c, 0, s)"
    and "byte_loop E dec_byte p ?n c 0 s = byte_loop E dec_byte p ?n 0 0 (ctx, mem)"
    using aligned_part_bytes [OF assms(1-3) p, of False] by (auto simp: ccm_step_def ccm_word_def)
  then have bl: "byte_loop E dec_byte p ?n c 0 s = Inr (?n, fst (snd ?r), snd (snd ?r), mem_write mem p (fst ?r))"
    using byte_loop_stream [of 0 p ?n mem 0 E False ctx] p by (simp add: ccm_step_def Let_def)
  have l: "length (fst ?r) = ?n" using p by (simp add: length_stream)
  have m: "message_mac E ctx (fst ?r) = mac_field (finish_mac E (fst (snd ?r)) (snd (snd ?r)))"
    using stream_inverse [of E False 0 ctx ?xs] by (simp add: message_mac_def Let_def)
  have "mem_write (mem_write mem p (fst ?r)) p (replicate (?n + af_len ctx) 0) = mem_write mem p (replicate (?n + af_len ctx) 0)"
    "mem_read (mem_write mem p (fst ?r)) (p + ?n) (af_len ctx) = mem_read mem (p + ?n) (af_len ctx)"
    using l p assms(4) by (simp add: mem_write_def ac_simps, simp add: mem_read_write_after)
  then show ?thesis
    using l p assms(4-6) longer stream_keeps [of E False 0 ctx ?xs]
    by (simp add: CCM_decrypt_def Let_def a bl m)
qed

section \<open>The mode as a whole\<close>

lemma length_auth_loop: "(\<And>b. length (E b) = 16) \<Longrightarrow> length c = 16 \<Longrightarrow> length (auth_loop E cnt xs c) = 16"
  by (induction E cnt xs c rule: auth_loop.induct) (simp_all add: Let_def)

lemma counter_size_cases: "counter_size n = 1 \<or> counter_size n = 2 \<or> counter_size n = 3"
  by (simp add: counter_size_def)

lemma init_ctx_ok:
  assumes "cipher_ok E" "length nonce = nonce_size n"
  shows "ctx_ok (init_ctx E key nonce auth n af)" "af_len (init_ctx E key nonce auth n af) = af"
    "md_len (init_ctx E key nonce auth n af) = n" "ccm_cnt (init_ctx E key nonce auth n af) = 0"
proof -
  have "length (E k b) = 16" for k b using assms(1) by (simp add: cipher_ok_def)
  then show "ctx_ok (init_ctx E key nonce auth n af)"
    using assms(2) counter_size_cases [of n]
    by (auto simp: init_ctx_def ctx_ok_def Let_def nonce_size_def AES_BLOCK_SIZE_def length_auth_loop)
qed (simp_all add: init_ctx_def Let_def)

text \<open>The preconditions of a call: a supported length of the authentication value, and buffers inside of the memory.\<close>

definition call_ok :: "machine \<Rightarrow> nat \<Rightarrow> nat \<Rightarrow> nat \<Rightarrow> nat \<Rightarrow> u32 \<Rightarrow> nat \<Rightarrow> byte list \<Rightarrow> bool" where
  "call_ok M nonce auth ad_len msg n af mem \<longleftrightarrow>
     2 \<le> af \<and> af \<le> 16 \<and> even af \<and> ad_len < 65280 \<and> unat n + af < 2 ^ 32 \<and> words_ok M msg (unat n) \<and>
     nonce + nonce_size n \<le> length mem \<and> auth + ad_len \<le> length mem \<and> msg + unat n + af \<le> length mem"

abbreviation call_ctx :: "block_cipher \<Rightarrow> byte list \<Rightarrow> nat \<Rightarrow> nat \<Rightarrow> nat \<Rightarrow> u32 \<Rightarrow> nat \<Rightarrow> byte list \<Rightarrow> CCM_ctx" where
  "call_ctx E key nonce auth ad_len n af mem \<equiv>
     init_ctx E key (mem_read mem nonce (nonce_size n)) (mem_read mem auth ad_len) n af"

lemma CCM_mode_encrypt:
  assumes "cipher_ok E" "call_ok M nonce auth ad_len msg n af mem"
  shows "CCM_mode E M key 16 nonce auth ad_len msg n af False mem =
    (let ctx = call_ctx E key nonce auth ad_len n af mem; xs = mem_read mem msg (unat n)
     in Inr (int (unat n + af), mem_write mem msg (fst (stream E True 0 ctx xs) @ message_mac E ctx xs)))"
proof -
  let ?c = "call_ctx E key nonce auth ad_len n af mem"
  have l: "length (mem_read mem nonce (nonce_size n)) = nonce_size n" using assms(2) by (simp add: call_ok_def)
  note ctx = init_ctx_ok [OF assms(1) l, of key "mem_read mem auth ad_len" af]
  show ?thesis
    using CCM_encrypt_eq [OF assms(1) _ ctx(1), of M msg n mem] assms(2) ctx(2-4)
    by (auto simp: CCM_mode_def CCM_init_def call_ok_def Let_def)
qed

lemma CCM_mode_decrypt:
  assumes "cipher_ok E" "call_ok M nonce auth ad_len msg n af mem"
  shows "CCM_mode E M key 16 nonce auth ad_len msg n af True mem =
    (let ctx = call_ctx E key nonce auth ad_len n af mem;
         xs = fst (stream E False 0 ctx (mem_read mem msg (unat n)))
     in if mem_read mem (msg + unat n) af = message_mac E ctx xs then Inr (int (unat n), mem_write mem msg xs)
        else Inr (CCM_auth_failure, mem_write mem msg (replicate (unat n + af) 0)))"
proof -
  let ?c = "call_ctx E key nonce auth ad_len n af mem"
  have l: "length (mem_read mem nonce (nonce_size n)) = nonce_size n" using assms(2) by (simp add: call_ok_def)
  note ctx = init_ctx_ok [OF assms(1) l, of key "mem_read mem auth ad_len" af]
  show ?thesis
    using CCM_decrypt_eq [OF assms(1) _ ctx(1), of M msg n mem] assms(2) ctx(2-4)
    by (auto simp: CCM_mode_def CCM_init_def call_ok_def Let_def split: if_splits)
qed

end
