(* ===== verification/Ccm_Spec.thy ===== *)
theory Ccm_Spec
  imports Ccm
begin

text \<open>
  The specification of the CCM mode in RFC 3610 and the theorem that \<open>CCM_mode\<close> implements it:
  the counter blocks, the key stream they give, and the CBC-MAC over the first block, the
  additional data with their length, and the message.
\<close>

unbundle bit_operations_syntax

section \<open>The specification\<close>

text \<open>The bytes of a length are \<open>q + 1\<close>; the nonce takes the rest of the block.\<close>

definition rfc_q :: "nat \<Rightarrow> nat" where
  "rfc_q n = (if n < 2 ^ 16 then 1 else if n < 2 ^ 24 then 2 else 3)"

definition rfc_counter :: "nat \<Rightarrow> byte list \<Rightarrow> nat \<Rightarrow> byte list" where
  "rfc_counter q nonce i = of_nat q # nonce @ be_bytes (q + 1) i"

definition rfc_B0 :: "nat \<Rightarrow> byte list \<Rightarrow> nat \<Rightarrow> bool \<Rightarrow> nat \<Rightarrow> byte list" where
  "rfc_B0 q nonce n adata af =
     of_nat ((if adata then 64 else 0) + 8 * ((af - 2) div 2) + q) # nonce @ be_bytes (q + 1) n"

text \<open>The chained encryption of blocks; the last one is filled with zeros.\<close>

function cbc_blocks :: "(byte list \<Rightarrow> byte list) \<Rightarrow> byte list \<Rightarrow> byte list \<Rightarrow> byte list" where
  "cbc_blocks E c xs = (if xs = [] then c else cbc_blocks E (E (xor_at c 0 (take 16 xs))) (drop 16 xs))"
  by pat_completeness auto

termination cbc_blocks
  by (relation "measure (\<lambda>(E, c, xs). length xs)") auto

declare cbc_blocks.simps [simp del]

definition rfc_mac :: "(byte list \<Rightarrow> byte list) \<Rightarrow> nat \<Rightarrow> byte list \<Rightarrow> byte list \<Rightarrow> byte list \<Rightarrow> nat \<Rightarrow> byte list" where
  "rfc_mac E q nonce auth msg af =
     (let c = E (rfc_B0 q nonce (length msg) (auth \<noteq> []) af);
          c = (if auth \<noteq> [] then cbc_blocks E c (be_bytes 2 (length auth) @ auth) else c)
      in cbc_blocks E c msg)"

definition rfc_tag :: "(byte list \<Rightarrow> byte list) \<Rightarrow> nat \<Rightarrow> byte list \<Rightarrow> byte list \<Rightarrow> byte list \<Rightarrow> nat \<Rightarrow> byte list" where
  "rfc_tag E q nonce auth msg af = take af (xor_list (rfc_mac E q nonce auth msg af) (E (rfc_counter q nonce 0)))"

definition rfc_crypt :: "(byte list \<Rightarrow> byte list) \<Rightarrow> nat \<Rightarrow> byte list \<Rightarrow> byte list \<Rightarrow> byte list" where
  "rfc_crypt E q nonce msg =
     map (\<lambda>j. msg ! j XOR E (rfc_counter q nonce (1 + j div 16)) ! (j mod 16)) [0..<length msg]"

section \<open>The counter\<close>

lemma unat_shift: "unat (drop_bit n (v :: u32)) = unat v div 2 ^ n"
  using unat_drop_bit_eq [of n v] by (simp add: drop_bit_eq_div)

lemma byte_of_word: "(ucast (v :: u32) :: byte) = of_nat (unat v mod 256)"
  by (simp add: word_unat_eq_iff unsigned_ucast_eq unat_of_nat take_bit_eq_mod)

lemma bytes_of_word:
  "unat (drop_bit 8 (v :: u32)) = unat v div 256"
  "unat (drop_bit 16 v) = unat v div 256 div 256"
  "unat (drop_bit 24 v) = unat v div 256 div 256 div 256"
  by (simp_all add: unat_shift flip: div_mult2_eq)

lemma be_bytes_2: "be_bytes 2 v = [of_nat (v div 256 mod 256), of_nat (v mod 256)]"
  by (simp add: numeral_2_eq_2)

lemma be_bytes_3: "be_bytes 3 v = be_bytes 2 (v div 256) @ [of_nat (v mod 256)]"
  using be_bytes.simps(2) [of 2 v] by simp

lemma be_bytes_4: "be_bytes 4 v = be_bytes 3 (v div 256) @ [of_nat (v mod 256)]"
  using be_bytes.simps(2) [of 3 v] by simp

lemmas be_bytes_simps = be_bytes_2 be_bytes_3 be_bytes_4

lemma set_ctr_bytes:
  assumes "q \<in> {1, 2, 3}" "length nonce = 14 - q" "length t = q + 1"
  shows "set_ctr v (of_nat q # nonce @ t) = rfc_counter q nonce (unat v)"
proof -
  consider "q = 1" "length nonce = 13" "length t = 2" | "q = 2" "length nonce = 12" "length t = 3"
    | "q = 3" "length nonce = 11" "length t = 4" using assms by auto
  then show ?thesis
  proof cases
    case 1
    then obtain a b where "t = [a, b]" by (auto simp: length_Suc_conv eval_nat_numeral)
    then show ?thesis using 1 by (simp add: set_ctr_def rfc_counter_def Let_def list_update_append byte_of_word bytes_of_word be_bytes_simps)
  next
    case 2
    then obtain a b c where "t = [a, b, c]" by (auto simp: length_Suc_conv eval_nat_numeral)
    then show ?thesis using 2 by (simp add: set_ctr_def rfc_counter_def Let_def list_update_append byte_of_word bytes_of_word be_bytes_simps)
  next
    case 3
    then obtain a b c d where "t = [a, b, c, d]" by (auto simp: length_Suc_conv eval_nat_numeral)
    then show ?thesis using 3 by (simp add: set_ctr_def rfc_counter_def Let_def list_update_append byte_of_word bytes_of_word be_bytes_simps)
  qed
qed

lemma Suc_div_256: "Suc i div 256 = (if Suc i mod 256 = 0 then Suc (i div 256) else i div 256)"
  by (simp add: div_Suc)

lemma inc_bytes_be:
  "inc_bytes n (length h + n - 1) (h @ be_bytes n i @ t) = h @ be_bytes n (Suc i) @ t"
proof (induction n arbitrary: i t)
  case (Suc n)
  let ?x = "of_nat (Suc i mod 256) :: byte"
  let ?b = "h @ be_bytes (Suc n) i @ t" and ?b' = "h @ be_bytes n (i div 256) @ ?x # t"
  have x: "of_nat (i mod 256) + 1 = ?x" "?x = 0 \<longleftrightarrow> Suc i mod 256 = 0"
    by (simp_all add: word_unat_eq_iff unat_word_ariths unat_of_nat mod_simps)
  have "?b ! (length h + n) = of_nat (i mod 256)" by (simp add: nth_append)
  then have b: "?b[length h + n := ?b ! (length h + n) + 1] = ?b'" using x(1) by (simp add: list_update_append)
  have "?b' ! (length h + n) = ?x" by (simp add: nth_append)
  with b x(2) Suc [of "i div 256" "?x # t"] show ?case
    by (cases "Suc i mod 256 = 0") (simp_all add: Let_def Suc_div_256)
qed simp

lemma high_bits_zero: "n AND NOT (mask k) = 0 \<longleftrightarrow> unat n < 2 ^ k" for n :: u32
proof -
  have "n AND NOT (mask k) = 0 \<longleftrightarrow> take_bit k n = n"
  proof
    assume "n AND NOT (mask k) = 0"
    moreover have "n = (n AND mask k) OR (n AND NOT (mask k))" by (simp flip: bit.conj_disj_distrib)
    ultimately show "take_bit k n = n" by (simp add: take_bit_eq_mask)
  next
    assume "take_bit k n = n"
    then have "n AND mask k = n" by (simp add: take_bit_eq_mask)
    then have "n AND NOT (mask k) = n AND (mask k AND NOT (mask k))" by (metis and.assoc)
    then show "n AND NOT (mask k) = 0" by simp
  qed
  also have "\<dots> \<longleftrightarrow> take_bit k (unat n) = unat n"
    by (metis unsigned_take_bit_eq word_unat_eq_iff)
  also have "\<dots> \<longleftrightarrow> unat n < 2 ^ k" by (rule take_bit_nat_eq_self_iff)
  finally show ?thesis .
qed

lemma counter_size_rfc: "counter_size n = of_nat (rfc_q (unat n))"
proof -
  have "(0xff000000 :: u32) = NOT (mask 24)" "(0xffff0000 :: u32) = NOT (mask 16)"
    by (simp_all add: mask_eq_exp_minus_1 not_eq_complement)
  then show ?thesis by (simp only: counter_size_def high_bits_zero) (simp add: rfc_q_def)
qed

lemma rfc_q_cases: "rfc_q n \<in> {1, 2, 3}"
  by (simp add: rfc_q_def)

lemma rfc_q_unat: "unat (of_nat (rfc_q n) :: byte) = rfc_q n"
  using rfc_q_cases [of n] by auto

lemma nonce_size_rfc: "nonce_size n = 14 - rfc_q (unat n)"
  by (simp add: nonce_size_def counter_size_rfc rfc_q_unat AES_BLOCK_SIZE_def)

lemma inc_ctr_bytes:
  assumes "q \<in> {1, 2, 3}" "length nonce = 14 - q"
  shows "inc_ctr (rfc_counter q nonce i) = rfc_counter q nonce (Suc i)"
proof -
  have "length (of_nat q # nonce :: byte list) + (q + 1) - 1 = 15" using assms by auto
  then have inc: "inc_bytes n 15 (rfc_counter q nonce i) = rfc_counter q nonce (Suc i)" if "n = q + 1" for n
    using inc_bytes_be [of "q + 1" "of_nat q # nonce" i "[]"] unfolding rfc_counter_def that by (simp only: append_Nil2 append_Cons)
  have "rfc_counter q nonce i ! 0 = of_nat q" by (simp add: rfc_counter_def)
  then show ?thesis using assms(1) inc [of 2] inc [of 3] inc [of 4] by (auto simp: inc_ctr_def simp del: inc_bytes.simps)
qed

lemma length_rfc_counter: "q \<in> {1, 2, 3} \<Longrightarrow> length nonce = 14 - q \<Longrightarrow> length (rfc_counter q nonce i) = 16"
  by (auto simp: rfc_counter_def)

section \<open>The message\<close>

lemma xor_at_Nil [simp]: "xor_at buf off [] = buf"
  by (simp add: xor_at_def)

lemma stream_partial:
  assumes "b + length xs < 16" "length (cbc ctx) = 16" "length (sii ctx) = 16"
  shows "stream E True b ctx xs = (xor_list xs (drop b (sii ctx)), b + length xs, ctx\<lparr>cbc := xor_at (cbc ctx) b xs\<rparr>)"
  using assms
proof (induction xs arbitrary: b ctx)
  case (Cons x xs)
  have d: "drop b (sii ctx) = sii ctx ! b # drop (Suc b) (sii ctx)"
    using Cons by (simp add: Cons_nth_drop_Suc)
  have "xor_at ((cbc ctx)[b := cbc ctx ! b XOR x]) (Suc b) xs = xor_at (cbc ctx) b (x # xs)"
    by (rule nth_equalityI) (use Cons in \<open>auto simp: nth_xor_at nth_list_update nth_Cons'\<close>)
  then show ?case
    using Cons(1) [of "Suc b" "absorb True b x ctx"] Cons(2-4) d by (simp add: absorb_def AES_BLOCK_SIZE_def Let_def)
qed simp

lemma cbc_blocks_short: "length xs \<le> 16 \<Longrightarrow> cbc_blocks E c xs = (if xs = [] then c else E (xor_at c 0 xs))"
  by (simp add: cbc_blocks.simps [of E c xs] cbc_blocks.simps [of E _ "[]"])

definition closed_cbc :: "block_cipher \<Rightarrow> nat \<times> CCM_ctx \<Rightarrow> byte list" where
  "closed_cbc E r = (if fst r \<noteq> 0 then E (aes (snd r)) (cbc (snd r)) else cbc (snd r))"

lemma stream_spec:
  assumes "cipher_ok E" "q \<in> {1, 2, 3}" "length nonce = 14 - q"
    and "length (cbc ctx) = 16" "aes ctx = key" "blk ctx = rfc_counter q nonce i" "sii ctx = E key (rfc_counter q nonce i)"
  shows "(\<forall>j < length xs. fst (stream E True 0 ctx xs) ! j = xs ! j XOR E key (rfc_counter q nonce (i + j div 16)) ! (j mod 16)) \<and>
    closed_cbc E (snd (stream E True 0 ctx xs)) = cbc_blocks (E key) (cbc ctx) xs \<and>
    (\<exists>k. blk (snd (snd (stream E True 0 ctx xs))) = rfc_counter q nonce k)"
  using assms(4-7)
proof (induction "length xs" arbitrary: xs ctx i rule: less_induct)
  case less
  have E: "length (E k b) = 16" for k b using assms(1) by (simp add: cipher_ok_def)
  show ?case
  proof (cases "length xs < 16")
    case True
    then have "stream E True 0 ctx xs = (xor_list xs (sii ctx), length xs, ctx\<lparr>cbc := xor_at (cbc ctx) 0 xs\<rparr>)"
      using stream_partial [of 0 xs ctx E] less(2,5) E by simp
    then show ?thesis using True less E by (auto simp: closed_cbc_def cbc_blocks_short)
  next
    case False
    let ?u = "take 16 xs" and ?v = "drop 16 xs"
    let ?c = "next_block E (ctx\<lparr>cbc := xor_list (cbc ctx) ?u\<rparr>)"
    have "xs \<noteq> []" using False by auto
    then have u: "stream E True 0 ctx ?u = (xor_list ?u (sii ctx), 0, ?c)"
      using stream_in_block [of 0 ?u ctx E True] False less(2,5) E by auto
    have s: "stream E True 0 ctx xs = (xor_list ?u (sii ctx) @ fst (stream E True 0 ?c ?v), snd (stream E True 0 ?c ?v))"
      using stream_append [of E True 0 ctx ?u ?v] by (simp add: u Let_def)
    have n: "length (cbc ?c) = 16" "aes ?c = key" "blk ?c = rfc_counter q nonce (Suc i)" "sii ?c = E key (rfc_counter q nonce (Suc i))"
      "cbc ?c = E key (xor_list (cbc ctx) ?u)"
      using less(2-5) E inc_ctr_bytes [OF assms(2,3)] by (simp_all add: next_block_def Let_def)
    have IH: "\<forall>j < length ?v. fst (stream E True 0 ?c ?v) ! j = ?v ! j XOR E key (rfc_counter q nonce (Suc i + j div 16)) ! (j mod 16)"
      "closed_cbc E (snd (stream E True 0 ?c ?v)) = cbc_blocks (E key) (cbc ?c) ?v"
      "\<exists>k. blk (snd (snd (stream E True 0 ?c ?v))) = rfc_counter q nonce k"
      using less(1) [OF _ n(1-4), of ?v] False by auto
    have "fst (stream E True 0 ctx xs) ! j = xs ! j XOR E key (rfc_counter q nonce (i + j div 16)) ! (j mod 16)" if "j < length xs" for j
    proof (cases "j < 16")
      case True
      then show ?thesis using that False less(5) E by (simp add: s nth_append)
    next
      case ge: False
      then have "Suc i + (j - 16) div 16 = i + j div 16" "(j - 16) mod 16 = j mod 16"
        by (simp_all add: le_div_geq le_mod_geq not_less)
      moreover have "fst (stream E True 0 ctx xs) ! j = fst (stream E True 0 ?c ?v) ! (j - 16)"
        using ge that E less(5) by (simp add: s nth_append)
      moreover have "?v ! (j - 16) = xs ! j" "j - 16 < length ?v" using ge that by simp_all
      ultimately show ?thesis using IH(1) by metis
    qed
    moreover have "cbc_blocks (E key) (cbc ctx) xs = cbc_blocks (E key) (cbc ?c) ?v"
      using False less(2) n(5) by (subst cbc_blocks.simps) (auto simp: xor_at_whole)
    ultimately show ?thesis using IH(2,3) by (simp add: s)
  qed
qed

section \<open>The additional data\<close>

text \<open>Bytes that fill the running block up to its end, and bytes that end in it.\<close>

lemma xor_at_Cons:
  assumes "b + length xs < length c"
  shows "xor_at (c[b := c ! b XOR x]) (Suc b) xs = xor_at c b (x # xs)"
  by (rule nth_equalityI) (use assms in \<open>auto simp: nth_xor_at nth_list_update nth_Cons'\<close>)

lemma auth_loop_Cons:
  assumes "(cnt + 2) mod 16 = b"
  shows "auth_loop E cnt (x # xs) c =
    auth_loop E (Suc cnt) xs (if b = 15 \<or> xs = [] then E (c[b := c ! b XOR x]) else c[b := c ! b XOR x])"
proof -
  have "(Suc cnt + 2) mod 16 = 0 \<longleftrightarrow> b = 15"
    using assms mod_Suc [of "cnt + 2" 16] by simp
  then show ?thesis by (simp only: auth_loop.simps(2) AES_BLOCK_SIZE_def assms Let_def)
qed

lemma auth_pos_Suc: "(cnt + 2) mod 16 = b \<Longrightarrow> b < 15 \<Longrightarrow> (Suc cnt + 2) mod 16 = Suc (b :: nat)"
  using mod_Suc [of "cnt + 2" 16] by simp

declare auth_loop.simps(2) [simp del]

lemma auth_loop_block:
  assumes "(cnt + 2) mod 16 = b" "b + length xs = 16" "xs \<noteq> []" "length c = 16"
  shows "auth_loop E cnt (xs @ ys) c = auth_loop E (cnt + length xs) ys (E (xor_at c b xs))"
  using assms
proof (induction xs arbitrary: cnt b c)
  case (Cons x xs)
  let ?c = "c[b := c ! b XOR x]"
  have x: "xor_at ?c (Suc b) xs = xor_at c b (x # xs)" using Cons(3,5) by (intro xor_at_Cons) simp
  show ?case
  proof (cases "xs = []")
    case True
    then show ?thesis using Cons(3) x by (simp add: auth_loop_Cons [OF Cons(2)])
  next
    case False
    then have "b < 15" using Cons(3) by (cases xs) auto
    then show ?thesis
      using Cons(1) [OF auth_pos_Suc [OF Cons(2)], of ?c] Cons(3,5) False x by (simp add: auth_loop_Cons [OF Cons(2)])
  qed
qed simp

lemma auth_loop_last:
  assumes "(cnt + 2) mod 16 = b" "b + length xs \<le> 16" "xs \<noteq> []" "length c = 16"
  shows "auth_loop E cnt xs c = E (xor_at c b xs)"
  using assms
proof (induction xs arbitrary: cnt b c)
  case (Cons x xs)
  let ?c = "c[b := c ! b XOR x]"
  have x: "xor_at ?c (Suc b) xs = xor_at c b (x # xs)" using Cons(3,5) by (intro xor_at_Cons) simp
  show ?case
  proof (cases "xs = []")
    case True
    then show ?thesis using Cons(3) x by (simp add: auth_loop_Cons [OF Cons(2)])
  next
    case False
    then have "b < 15" using Cons(3) by (cases xs) auto
    then show ?thesis
      using Cons(1) [OF auth_pos_Suc [OF Cons(2)], of ?c] Cons(3,5) False x by (simp add: auth_loop_Cons [OF Cons(2)])
  qed
qed simp

lemma auth_loop_blocks:
  assumes "\<And>b. length (E b) = 16"
  shows "(cnt + 2) mod 16 = 0 \<Longrightarrow> length c = 16 \<Longrightarrow> auth_loop E cnt xs c = cbc_blocks E c xs"
proof (induction "length xs" arbitrary: xs cnt c rule: less_induct)
  case less
  show ?case
  proof (cases "length xs \<le> 16")
    case True
    then show ?thesis using auth_loop_last [OF less(2)] less(3) by (cases "xs = []") (simp_all add: cbc_blocks_short)
  next
    case False
    then have ne: "xs \<noteq> []" by auto
    have "auth_loop E cnt (take 16 xs @ drop 16 xs) c =
        auth_loop E (cnt + 16) (drop 16 xs) (E (xor_at c 0 (take 16 xs)))"
      using auth_loop_block [OF less(2), of "take 16 xs" c E "drop 16 xs"] less(3) False ne by (simp add: min_def)
    moreover have "(cnt + 16 + 2) mod 16 = 0" using less(2) by presburger
    ultimately show ?thesis
      using less(1) [of "drop 16 xs" "cnt + 16" "E (xor_at c 0 (take 16 xs))"] False assms ne
      by (simp add: cbc_blocks.simps [of E c xs])
  qed
qed

lemma auth_loop_spec:
  assumes "\<And>b. length (E b) = 16" "length c = 16" "auth \<noteq> []" "length auth < 65536"
  shows "auth_loop E 0 auth (c[0 := c ! 0 XOR of_nat (length auth div 256), 1 := c ! 1 XOR of_nat (length auth mod 256)]) =
    cbc_blocks E c (be_bytes 2 (length auth) @ auth)"
proof -
  let ?h = "be_bytes 2 (length auth)" and ?u = "take 14 auth" and ?v = "drop 14 auth"
  let ?c = "c[0 := c ! 0 XOR of_nat (length auth div 256), 1 := c ! 1 XOR of_nat (length auth mod 256)]"
  have h: "?h = [of_nat (length auth div 256), of_nat (length auth mod 256)]" using assms(4) by (simp add: be_bytes_2)
  have c: "?c = xor_at c 0 ?h"
    by (rule nth_equalityI) (use assms(2) in \<open>auto simp: h nth_xor_at nth_list_update less_Suc_eq\<close>)
  have x: "xor_at ?c 2 ?u = xor_at c 0 (?h @ ?u)"
    unfolding c using xor_at_append [of 0 ?h ?u c] assms(2) by (simp add: numeral_2_eq_2 h)
  show ?thesis
  proof (cases "length auth \<le> 14")
    case True
    then show ?thesis using auth_loop_last [of 0 2 auth ?c E] x assms(2,3) by (simp add: cbc_blocks_short h)
  next
    case False
    have "auth_loop E 0 (?u @ ?v) ?c = auth_loop E 14 ?v (E (xor_at c 0 (?h @ ?u)))"
      using auth_loop_block [of 0 2 ?u ?c E ?v] x False assms(2,3) by (simp add: min_def)
    also have "\<dots> = cbc_blocks E (E (xor_at c 0 (?h @ ?u))) ?v" using assms(1) by (intro auth_loop_blocks) auto
    also have "\<dots> = cbc_blocks E c (?h @ auth)" using False by (subst (2) cbc_blocks.simps) (simp add: h)
    finally show ?thesis by simp
  qed
qed

section \<open>The implementation\<close>

lemma flags_spec:
  assumes "q \<in> {1, 2, 3}" "2 \<le> af" "af \<le> 16" "even af"
  shows "(of_nat q :: byte) OR (if ad then 0x40 else 0) + of_nat ((af - 2) * 4) =
    of_nat ((if ad then 64 else 0) + 8 * ((af - 2) div 2) + q)"
proof -
  obtain k where k: "af = 2 * k" using assms(4) by (rule evenE)
  then have "k \<in> {1, 2, 3, 4, 5, 6, 7, 8}" using assms(2,3) by auto
  moreover have "\<forall>q \<in> {1, 2, 3}. \<forall>k \<in> {1, 2, 3, 4, 5, 6, 7, 8}. \<forall>ad.
      (of_nat q :: byte) OR (if ad then 0x40 else 0) + of_nat ((2 * k - 2) * 4) =
      of_nat ((if ad then 64 else 0) + 8 * ((2 * k - 2) div 2) + q)"
    by code_simp
  ultimately show ?thesis using assms(1) k by blast
qed

lemma init_ctx_spec:
  assumes "cipher_ok E" "length nonce = nonce_size n" "length auth < 65280" "2 \<le> af" "af \<le> 16" "even af"
  shows "blk (init_ctx E key nonce auth n af) = rfc_counter (rfc_q (unat n)) nonce 1"
    "sii (init_ctx E key nonce auth n af) = E key (rfc_counter (rfc_q (unat n)) nonce 1)"
    "cbc (init_ctx E key nonce auth n af) =
       (let c = E key (rfc_B0 (rfc_q (unat n)) nonce (unat n) (auth \<noteq> []) af)
        in if auth \<noteq> [] then cbc_blocks (E key) c (be_bytes 2 (length auth) @ auth) else c)"
proof -
  let ?q = "rfc_q (unat n)"
  have q: "?q \<in> {1, 2, 3}" by (rule rfc_q_cases)
  have l: "length nonce = 14 - ?q" using assms(2) by (simp add: nonce_size_rfc)
  have E: "length (E k b) = 16" for k b using assms(1) by (simp add: cipher_ok_def)
  have b: "set_ctr n (of_nat ?q # nonce @ replicate (?q + 1) 0) = rfc_counter ?q nonce (unat n)"
    "set_ctr 1 (rfc_counter ?q nonce (unat n)) = rfc_counter ?q nonce 1"
    using set_ctr_bytes [OF q l] by (simp_all add: rfc_counter_def)
  have B: "(rfc_counter ?q nonce (unat n))[0 := rfc_counter ?q nonce (unat n) ! 0 OR
      (if auth \<noteq> [] then 0x40 else 0) + of_nat ((af - 2) * 4)] = rfc_B0 ?q nonce (unat n) (auth \<noteq> []) af"
    using flags_spec [OF q assms(4-6), of "auth \<noteq> []"] by (simp add: rfc_counter_def rfc_B0_def)
  note unf = init_ctx_def counter_size_rfc rfc_q_unat Let_def length_0_conv b B
  show "blk (init_ctx E key nonce auth n af) = rfc_counter ?q nonce 1"
    "sii (init_ctx E key nonce auth n af) = E key (rfc_counter ?q nonce 1)"
    by (simp_all only: unf CCM_ctx.simps)
  show "cbc (init_ctx E key nonce auth n af) =
     (let c = E key (rfc_B0 ?q nonce (unat n) (auth \<noteq> []) af)
      in if auth \<noteq> [] then cbc_blocks (E key) c (be_bytes 2 (length auth) @ auth) else c)"
    using auth_loop_spec [of "E key" _ auth] E assms(3) by (simp only: unf CCM_ctx.simps) simp
qed

lemma mac_field_take:
  "af_len ctx \<le> 16 \<Longrightarrow> length (cbc ctx) = 16 \<Longrightarrow> length (sii ctx) = 16 \<Longrightarrow> mac_field ctx = take (af_len ctx) (xor_list (cbc ctx) (sii ctx))"
  by (rule nth_equalityI) (auto simp: mac_field_def)

lemma message_spec:
  assumes "cipher_ok E" "length nonce = nonce_size n" "length auth < 65280" "2 \<le> af" "af \<le> 16" "even af" "length xs = unat n"
  shows "fst (stream E True 0 (init_ctx E key nonce auth n af) xs) = rfc_crypt (E key) (rfc_q (unat n)) nonce xs"
    "message_mac E (init_ctx E key nonce auth n af) xs = rfc_tag (E key) (rfc_q (unat n)) nonce auth xs af"
proof -
  let ?q = "rfc_q (unat n)" and ?ctx = "init_ctx E key nonce auth n af"
  have q: "?q \<in> {1, 2, 3}" by (rule rfc_q_cases)
  have l: "length nonce = 14 - ?q" using assms(2) by (simp add: nonce_size_rfc)
  have E: "length (E k b) = 16" for k b using assms(1) by (simp add: cipher_ok_def)
  note ctx = init_ctx_spec [OF assms(1-6), of key] and ok = init_ctx_ok [OF assms(1,2), of key auth af]
  have c: "length (cbc ?ctx) = 16" "aes ?ctx = key" using ok(1) by (simp_all add: ctx_ok_def init_ctx_def Let_def)
  let ?r = "stream E True 0 ?ctx xs"
  have S: "\<forall>j < length xs. fst ?r ! j = xs ! j XOR E key (rfc_counter ?q nonce (1 + j div 16)) ! (j mod 16)"
    "closed_cbc E (snd ?r) = cbc_blocks (E key) (cbc ?ctx) xs" "\<exists>k. blk (snd (snd ?r)) = rfc_counter ?q nonce k"
    using stream_spec [OF assms(1) q l c ctx(1,2), of xs] by blast+
  then show "fst ?r = rfc_crypt (E key) ?q nonce xs"
    by (intro nth_equalityI) (simp_all add: length_stream rfc_crypt_def)
  have k: "aes (snd (snd ?r)) = key" "af_len (snd (snd ?r)) = af" using stream_keeps [of E True 0 ?ctx xs] c(2) ok(2) by simp_all
  have z: "set_ctr 0 (blk (snd (snd ?r))) = rfc_counter ?q nonce 0"
    using S(3) set_ctr_bytes [OF q l, of _ 0] by (auto simp: rfc_counter_def)
  let ?f = "finish_mac E (fst (snd ?r)) (snd (snd ?r))"
  have f: "cbc ?f = rfc_mac (E key) ?q nonce auth xs af" "sii ?f = E key (rfc_counter ?q nonce 0)" "af_len ?f = af"
    using S(2) z k ctx(3) assms(7) by (auto simp: finish_mac_def closed_cbc_def Let_def rfc_mac_def)
  have "length (cbc_blocks (E key) c ys) = 16" if "length c = 16" for c ys
    using that by (induction "E key" c ys rule: cbc_blocks.induct) (subst cbc_blocks.simps, simp add: E)
  then have "length (cbc ?f) = 16" unfolding f(1) by (simp add: rfc_mac_def Let_def E)
  then show "message_mac E ?ctx xs = rfc_tag (E key) ?q nonce auth xs af"
    using mac_field_take [of ?f] f E assms(5) by (simp add: message_mac_def Let_def rfc_tag_def)
qed

lemma rfc_crypt_inverse: "rfc_crypt E q nonce (rfc_crypt E q nonce xs) = xs"
  by (rule nth_equalityI) (simp_all add: rfc_crypt_def)

lemma length_rfc_crypt [simp]: "length (rfc_crypt E q nonce xs) = length xs"
  by (simp add: rfc_crypt_def)

lemma decrypt_spec:
  assumes "cipher_ok E" "length nonce = nonce_size n" "length auth < 65280" "2 \<le> af" "af \<le> 16" "even af" "length xs = unat n"
  shows "fst (stream E False 0 (init_ctx E key nonce auth n af) xs) = rfc_crypt (E key) (rfc_q (unat n)) nonce xs"
proof -
  let ?ctx = "init_ctx E key nonce auth n af" and ?ys = "rfc_crypt (E key) (rfc_q (unat n)) nonce xs"
  have "fst (stream E True 0 ?ctx ?ys) = xs"
    using message_spec(1) [OF assms(1-6), of ?ys key] assms(7) by (simp add: rfc_crypt_inverse)
  then show ?thesis using stream_inverse [of E True 0 ?ctx ?ys] by simp
qed

lemma CCM_mode_spec:
  assumes "cipher_ok E" "call_ok M nonce auth ad_len msg n af mem"
    and N: "mem_read mem nonce (nonce_size n) = N" and A: "mem_read mem auth ad_len = A" and X: "mem_read mem msg (unat n) = X"
    and q: "rfc_q (unat n) = q"
  shows "CCM_mode E M key 16 nonce auth ad_len msg n af False mem =
      Inr (int (unat n + af), mem_write mem msg (rfc_crypt (E key) q N X @ rfc_tag (E key) q N A X af))"
    "CCM_mode E M key 16 nonce auth ad_len msg n af True mem =
      (let Y = rfc_crypt (E key) q N X in
       if mem_read mem (msg + unat n) af = rfc_tag (E key) q N A Y af then Inr (int (unat n), mem_write mem msg Y)
       else Inr (CCM_auth_failure, mem_write mem msg (replicate (unat n + af) 0)))"
proof -
  have len: "length N = nonce_size n" "length A < 65280" "2 \<le> af" "af \<le> 16" "even af" "length X = unat n"
    using assms(2) by (auto simp: call_ok_def simp flip: N A X)
  note spec = message_spec [OF assms(1) len(1-5)] decrypt_spec [OF assms(1) len]
  show "CCM_mode E M key 16 nonce auth ad_len msg n af False mem =
      Inr (int (unat n + af), mem_write mem msg (rfc_crypt (E key) q N X @ rfc_tag (E key) q N A X af))"
    using CCM_mode_encrypt [OF assms(1,2)] len(6) by (simp add: spec Let_def N A X q)
  show "CCM_mode E M key 16 nonce auth ad_len msg n af True mem =
      (let Y = rfc_crypt (E key) q N X in
       if mem_read mem (msg + unat n) af = rfc_tag (E key) q N A Y af then Inr (int (unat n), mem_write mem msg Y)
       else Inr (CCM_auth_failure, mem_write mem msg (replicate (unat n + af) 0)))"
    using CCM_mode_decrypt [OF assms(1,2)] len(6) by (simp add: spec Let_def N A X q)
qed


section \<open>Examples\<close>

text \<open>A block cipher for evaluation: the block is added to the key.\<close>

definition example_cipher :: block_cipher where
  "example_cipher k b = map2 (XOR) (take 16 (b @ replicate 16 0)) (take 16 (k @ replicate 16 0))"

lemma example_cipher_ok: "cipher_ok example_cipher"
proof -
  have "length (take 16 (xs @ replicate 16 0)) = (16 :: nat)" for xs :: "byte list" by simp
  then show ?thesis by (simp add: cipher_ok_def example_cipher_def del: length_take)
qed

definition example_machine :: "nat \<Rightarrow> machine" where
  "example_machine w = \<lparr>long_size = w, mem_addr = 0, ctx_addr = 0, ctx_rest = replicate 16 0\<rparr>"

text \<open>A memory with a message of 20 bytes, room for its authentication value, and a nonce.\<close>

definition example_memory :: "byte list" where
  "example_memory = map of_nat [0..<20] @ replicate 16 0 @ map of_nat [100..<128]"

lemma example_call: "call_ok (example_machine 4) 36 36 16 0 20 16 example_memory"
proof -
  have "length example_memory = 64" by (simp add: example_memory_def)
  then show ?thesis
    by (simp add: call_ok_def words_ok_def example_machine_def nonce_size_def counter_size_def AES_BLOCK_SIZE_def)
qed


text \<open>
  With words of eight bytes the part for aligned buffers is not an implementation of the mode: it uses the bytes
  behind the field \<open>sii\<close>, and of a message of 20 bytes it writes 32 bytes.
\<close>

definition example_ctx :: CCM_ctx where
  "example_ctx = \<lparr>blk = 1 # replicate 15 0, cbc = replicate 16 0, sii = replicate 16 1, af_len = 16, md_len = 20, ccm_cnt = 0, aes = []\<rparr>"

lemma wide_words_differ:
  "map_sum id (\<lambda>(c, ctx, mem). map (\<lambda>i. mem ! i \<noteq> 0) [0, 15, 16, 24, 31])
     (block_loop example_cipher (enc_word M) M 20 0 0 (example_ctx, replicate 40 0)) =
   Inr (if w = 4 then [True, True, False, False, False] else [True, True, True, True, True])"
  if "w = 4 \<or> w = 8" "M = (example_machine w)\<lparr>ctx_rest := replicate 16 1\<rparr>" for w M
proof -
  have "map_sum id (\<lambda>(c, ctx, mem). map (\<lambda>i. mem ! i \<noteq> 0) [0, 15, 16, 24, 31])
      (block_loop example_cipher (enc_word M) M 20 0 0 (example_ctx, replicate 40 0)) = Inr [True, True, False, False, False]"
    if "M = (example_machine 4)\<lparr>ctx_rest := replicate 16 1\<rparr>" for M
    unfolding that by code_simp
  moreover have "map_sum id (\<lambda>(c, ctx, mem). map (\<lambda>i. mem ! i \<noteq> 0) [0, 15, 16, 24, 31])
      (block_loop example_cipher (enc_word M) M 20 0 0 (example_ctx, replicate 40 0)) = Inr [True, True, True, True, True]"
    if "M = (example_machine 8)\<lparr>ctx_rest := replicate 16 1\<rparr>" for M
    unfolding that by code_simp
  ultimately show ?thesis using that by auto
qed

end
