(* ===== verification/Topo_Text.thy ===== *)
theory Topo_Text
  imports Topo_Feed
begin

text \<open>
  The textual side of the topology (\<open>src/src/Topology.cc\<close>): finding a node by its name, the
  descriptions of the topology in dot, XML and plain syntax, and the shell command \<open>topo\<close>.  Output
  streams are strings.  The formats of a point in time and of a percentage, which are printed from
  floating point numbers, are the parameters \<open>show_time\<close> and \<open>show_percent\<close>.
\<close>

section \<open>C strings\<close>

text \<open>A C string is a string without its final zero.\<close>

definition text_of :: "byte list \<Rightarrow> string" where
  "text_of bs = map (\<lambda>b. char_of (unat b)) bs"

definition nul :: char where
  "nul = char_of (0 :: nat)"

text \<open>\<open>strncmp\<close> with the result zero, and \<open>strcmp\<close> likewise.\<close>

definition strncmp_eq :: "string \<Rightarrow> string \<Rightarrow> nat \<Rightarrow> bool" where
  "strncmp_eq a b n \<longleftrightarrow> take n (a @ [nul]) = take n (b @ [nul])"

definition is_space :: "char \<Rightarrow> bool" where
  "is_space c \<longleftrightarrow> c = CHR '' '' \<or> (9 :: nat) \<le> of_char c \<and> of_char c \<le> (13 :: nat)"

definition digit_value :: "char \<Rightarrow> nat option" where
  "digit_value c =
     (let n = of_char c :: nat
      in if 48 \<le> n \<and> n \<le> 57 then Some (n - 48) else if 65 \<le> n \<and> n \<le> 90 then Some (n - 55)
         else if 97 \<le> n \<and> n \<le> 122 then Some (n - 87) else None)"

definition digit_in :: "nat \<Rightarrow> char \<Rightarrow> nat option" where
  "digit_in base c = (case digit_value c of None \<Rightarrow> None | Some d \<Rightarrow> if d < base then Some d else None)"

text \<open>
  \<open>sscanf\<close> with \<open>%2X\<close>: after white space at most two characters are read, a sign and one digit or up to two
  digits.  The two characters \<open>0x\<close> are the beginning of a number but not a number, so nothing is
  converted.
\<close>

definition scan_hex2 :: "string \<Rightarrow> u32 option" where
  "scan_hex2 s =
     (case dropWhile is_space s of
        [] \<Rightarrow> None
      | c # cs \<Rightarrow>
          if c = CHR ''+'' \<or> c = CHR ''-'' then
            (case cs of [] \<Rightarrow> None
             | c1 # _ \<Rightarrow> map_option (\<lambda>d. if c = CHR ''-'' then - of_nat d else of_nat d) (digit_in 16 c1))
          else
            (case digit_in 16 c of None \<Rightarrow> None
             | Some d \<Rightarrow>
                 (case cs of [] \<Rightarrow> Some (of_nat d)
                  | c1 # _ \<Rightarrow>
                      if d = 0 \<and> c1 \<in> {CHR ''x'', CHR ''X''} then None
                      else (case digit_in 16 c1 of None \<Rightarrow> Some (of_nat d) | Some e \<Rightarrow> Some (of_nat (16 * d + e))))))"

text \<open>\<open>strtoul\<close> with base 0: the value and the rest of the string; values too large give the maximum.\<close>

fun digits_value :: "nat \<Rightarrow> nat \<Rightarrow> string \<Rightarrow> nat \<times> string" where
  "digits_value base v [] = (v, [])"
| "digits_value base v (c # cs) =
     (case digit_in base c of None \<Rightarrow> (v, c # cs) | Some d \<Rightarrow> digits_value base (v * base + d) cs)"

definition strtoul_digits :: "string \<Rightarrow> (nat \<times> string) option" where
  "strtoul_digits s =
     (case s of
        c # x # h # cs \<Rightarrow>
          if c = CHR ''0'' \<and> x \<in> {CHR ''x'', CHR ''X''} \<and> digit_in 16 h \<noteq> None then Some (digits_value 16 0 (h # cs))
          else if c = CHR ''0'' then Some (digits_value 8 0 s)
          else if digit_in 10 c \<noteq> None then Some (digits_value 10 0 s) else None
      | c # cs \<Rightarrow>
          if c = CHR ''0'' then Some (digits_value 8 0 s)
          else if digit_in 10 c \<noteq> None then Some (digits_value 10 0 s) else None
      | [] \<Rightarrow> None)"

definition strtoul :: "string \<Rightarrow> (u64 \<times> string) option" where
  "strtoul name =
     (let s = dropWhile is_space name;
          neg = (case s of c # _ \<Rightarrow> c = CHR ''-'' | [] \<Rightarrow> False);
          s = (case s of c # cs \<Rightarrow> if c = CHR ''+'' \<or> c = CHR ''-'' then cs else s | [] \<Rightarrow> s)
      in map_option (\<lambda>(v, r). (if v \<ge> 2 ^ 64 then - 1 else if neg then - of_nat v else of_nat v, r)) (strtoul_digits s))"

section \<open>getNodeByName\<close>

text \<open>The six pairs of digits of a twelve-digit name, parsed one after the other.\<close>

fun scan_mac :: "nat \<Rightarrow> string \<Rightarrow> byte list option" where
  "scan_mac 0 p = Some []"
| "scan_mac (Suc n) p =
     (case scan_hex2 p of None \<Rightarrow> None
      | Some v \<Rightarrow> map_option (\<lambda>bs. ucast v # bs) (scan_mac n (drop 2 p)))"

definition node_by_number :: "string \<Rightarrow> NodeId option" where
  "node_by_number name =
     (case strtoul name of
        Some (v, []) \<Rightarrow> Some (NodeId_num (ucast v))
      | _ \<Rightarrow> None)"

definition getNodeByName :: "string \<Rightarrow> RTopology \<Rightarrow> NodeId option" where
  "getNodeByName name t =
     (case find (\<lambda>(i, d). strncmp_eq name (text_of (nodeName d)) 32) (adjList t) of
        Some (i, _) \<Rightarrow> Some i
      | None \<Rightarrow>
          (case (if length name = 12 then scan_mac 6 name else None) of
             Some mac \<Rightarrow> Some (NodeId_fromArray mac)
           | None \<Rightarrow> node_by_number name))"

section \<open>Descriptions\<close>

definition endl :: string where
  "endl = [char_of (10 :: nat)]"

definition getNameList :: "RTopology \<Rightarrow> string" where
  "getNameList t =
     concat (map (\<lambda>(i, d). NodeId_print i @ [char_of (9 :: nat)] @ [char_of (39 :: nat)] @ text_of (nodeName d) @
       [char_of (39 :: nat)] @ endl) (adjList t))"

definition getAdjString :: "RTopology \<Rightarrow> string" where
  "getAdjString t =
     concat (map (\<lambda>(i, d). NodeId_print i @ '': '' @
       concat (map (\<lambda>l. NodeId_print (neighbor l) @ '' '') (linklist d)) @ endl) (adjList t))"

text \<open>The format \<open>%02x\<close>.\<close>

fun hex_digits :: "nat \<Rightarrow> string" where
  "hex_digits n =
     (if n < 16 then [''0123456789abcdef'' ! n] else hex_digits (n div 16) @ [''0123456789abcdef'' ! (n mod 16)])"

declare hex_digits.simps [simp del]

definition fmt_02x :: "u32 \<Rightarrow> string" where
  "fmt_02x v = (let s = hex_digits (unat v) in if length s < 2 then CHR ''0'' # s else s)"

text \<open>The color of a link is printed into a buffer of 13 bytes.\<close>

datatype text_error = BufferOverflow | NameLookup topo_error

definition colorstring :: "u32 \<Rightarrow> string" where
  "colorstring w = (let q = (w * 255) div 255 in fmt_02x q @ ''00'' @ fmt_02x (0xFFFF - q))"

definition print_color :: "u32 \<Rightarrow> text_error + string" where
  "print_color w = (let s = colorstring w in if length s + 1 > 13 then Inl BufferOverflow else Inr s)"

fun printAdjX_links :: "NodeId \<Rightarrow> LinkQuality list \<Rightarrow> text_error + string" where
  "printAdjX_links i [] = Inr []"
| "printAdjX_links i (l # ls) =
     rbind (print_color (metric_weight l)) (\<lambda>c.
       rbind (printAdjX_links i ls) (\<lambda>s.
         Inr ('' n'' @ NodeId_print i @ '' -> n'' @ NodeId_print (neighbor l) @ ''[color='' @ [char_of (34 :: nat)] @ ''#'' @ c @
           [char_of (34 :: nat)] @ '']; '' @ s)))"

fun printAdjX :: "AdjList \<Rightarrow> text_error + string" where
  "printAdjX [] = Inr []"
| "printAdjX ((i, d) # a) =
     rbind (printAdjX_links i (linklist d)) (\<lambda>s. rbind (printAdjX a) (\<lambda>r. Inr (s @ r)))"

definition topo_print :: "RTopology \<Rightarrow> text_error + string" where
  "topo_print t = rbind (printAdjX (adjList t)) (\<lambda>s. Inr (''digraph topo { '' @ s @ ''}'' @ endl))"

definition getDotString :: "RTopology \<Rightarrow> text_error + string" where
  "getDotString t =
     rbind (printAdjX (adjList t)) (\<lambda>s.
       Inr (''digraph topo { '' @ '' n'' @ NodeId_print (myNodeId t) @ '' [shape=box]; '' @ s @ ''}'' @ endl))"

definition quoted :: "string \<Rightarrow> string" where
  "quoted s = [char_of (34 :: nat)] @ s @ [char_of (34 :: nat)]"

fun xml_nodes :: "AdjList \<Rightarrow> AdjList \<Rightarrow> text_error + string" where
  "xml_nodes a [] = Inr []"
| "xml_nodes a ((i, d) # rest) =
     (case getNameOfNode i a of Inl e \<Rightarrow> Inl (NameLookup e)
      | Inr n \<Rightarrow> rbind (xml_nodes a rest) (\<lambda>s.
          Inr (''<node id='' @ quoted (NodeId_print i) @ '' name='' @ quoted (text_of n) @ '' />'' @ endl @ s)))"

definition xml_edges :: "(link_quality_t \<Rightarrow> string) \<Rightarrow> AdjList \<Rightarrow> string" where
  "xml_edges show_percent a =
     concat (map (\<lambda>(i, d). concat (map (\<lambda>l.
       ''<edge from='' @ quoted (NodeId_print i) @ '' to='' @ quoted (NodeId_print (neighbor l)) @ '' ><quality value='' @
       quoted (show_percent (lq_quality l) @ ''%'') @ '' /></edge>'' @ endl) (linklist d))) a)"

definition getXmlString :: "(int \<Rightarrow> string) \<Rightarrow> (link_quality_t \<Rightarrow> string) \<Rightarrow> RTopology \<Rightarrow> text_error + string" where
  "getXmlString show_time show_percent t =
     rbind (xml_nodes (adjList t) (adjList t)) (\<lambda>ns.
       Inr (''<topology timestamp='' @ quoted (show_time (lastEventTime t)) @ '' >'' @ endl @ ns @
         xml_edges show_percent (adjList t) @ ''</topology>'' @ endl))"

text \<open>The message for a removed node, as a list of items for the subscribers.\<close>

definition createRemoveMessages :: "NodeId \<Rightarrow> NDescr \<Rightarrow> RTopology \<Rightarrow> RTopology" where
  "createRemoveMessages node d t =
     (if xml_subscribed t
      then emit [XmlTopologyDelta (map (\<lambda>l. RemoveEdge node (neighbor l)) (linklist d) @ [RemoveNode node])] t else t)"

text \<open>The timer that removes old nodes; the result has the time of the next call.\<close>

definition cleanup_nodes :: "topo_env \<Rightarrow> RTopology \<Rightarrow> topo_error + (int \<times> RTopology)" where
  "cleanup_nodes env t = removeOldNodes env t"

section \<open>The routing table and the shell command\<close>

fun dump_loop :: "topo_env \<Rightarrow> NodeId list \<Rightarrow> RTopology \<Rightarrow> (topo_error + (string \<times> RTopology)) option" where
  "dump_loop env [] t = Some (Inr ([], t))"
| "dump_loop env (i # is) t =
     (case RTopology_getNextHop env i NodeId_default t of
        None \<Rightarrow> None
      | Some (Inl e) \<Rightarrow> Some (Inl e)
      | Some (Inr ((nh, found), t)) \<Rightarrow>
          map_option (map_sum id (\<lambda>(s, t).
            (NodeId_print i @ [char_of (9 :: nat)] @ (if found then NodeId_print nh else ''------------'') @ endl @ s, t)))
            (dump_loop env is t))"

definition dumpNextHops :: "topo_env \<Rightarrow> RTopology \<Rightarrow> (topo_error + (string \<times> RTopology)) option" where
  "dumpNextHops env t =
     map_option (map_sum id (\<lambda>(s, t). (''# destination'' @ [char_of (9 :: nat)] @ ''next hop'' @ endl @ s, t)))
       (dump_loop env (map fst (adjList t)) t)"

definition topo_cmd_usage :: string where
  "topo_cmd_usage = ''topo <cmd> '' @ endl @ '' with <cmd> '' @ endl @
     ''    dump        print the current topology'' @ endl @
     ''    get_locked  print the lock status of the topology'' @ endl @
     ''    lock        lock the topology'' @ endl @
     ''    unlock      unlock the topology'' @ endl @
     ''    names       list the known names of all stations'' @ endl @
     ''    nexthops    dump the local routing table (next hops)''"

definition topo_command_fn :: "topo_env \<Rightarrow> string list \<Rightarrow> RTopology \<Rightarrow> (topo_error + (string \<times> RTopology)) option" where
  "topo_command_fn env argv t =
     (if length argv = 2 \<and> argv ! 1 = ''dump'' then Some (Inr (getAdjString t @ endl, t))
      else if length argv = 2 \<and> argv ! 1 = ''nexthops'' then dumpNextHops env t
      else if length argv = 2 \<and> argv ! 1 = ''get_locked'' then Some (Inr ((if getLocked t then ''true'' else ''false'') @ endl, t))
      else if length argv = 2 \<and> argv ! 1 = ''lock'' then Some (Inr (''topology is now locked'' @ endl, setLocked True t))
      else if length argv = 2 \<and> argv ! 1 = ''unlock'' then Some (Inr (''topology is now unlocked'' @ endl, setLocked False t))
      else if length argv = 2 \<and> argv ! 1 = ''names'' then Some (Inr (getNameList t, t))
      else Some (Inr (topo_cmd_usage @ endl, t)))"


section \<open>Printing and reading identifiers\<close>

lemma hexnum_digit: "k < 16 \<Longrightarrow> digit_in 16 (hexnum ! k) = Some k \<and> \<not> is_space (hexnum ! k) \<and>
    hexnum ! k \<notin> {CHR ''+'', CHR ''-'', CHR ''x'', CHR ''X''}"
proof -
  have "\<forall>k \<in> set [0..<16]. digit_in 16 (hexnum ! k) = Some k \<and> \<not> is_space (hexnum ! k) \<and>
      hexnum ! k \<notin> {CHR ''+'', CHR ''-'', CHR ''x'', CHR ''X''}"
    by code_simp
  then show "k < 16 \<Longrightarrow> ?thesis" by simp
qed

lemma scan_hex2_digits:
  assumes "a < 16" "b < 16"
  shows "scan_hex2 (hexnum ! a # hexnum ! b # s) = Some (of_nat (16 * a + b))"
  using hexnum_digit [OF assms(1)] hexnum_digit [OF assms(2)] by (auto simp: scan_hex2_def)

lemma scan_mac_print: "scan_mac (length bs) (AbstractID_print bs) = Some bs"
proof (induction bs)
  case (Cons b bs)
  have b: "unat b < 256" using unsigned_less [of b] by simp
  then have "scan_hex2 (AbstractID_print (b # bs)) = Some (of_nat (16 * (unat b div 16) + unat b mod 16))"
    by (simp add: scan_hex2_digits)
  moreover have "16 * (unat b div 16) + unat b mod 16 = unat b" by simp
  moreover have "ucast (of_nat (unat b) :: u32) = b"
    using b by (subst word_unat_eq_iff) (simp only: unsigned_ucast_eq unsigned_of_nat of_nat_id, simp add: take_bit_nat_eq_self)
  ultimately show ?case using Cons.IH by simp
qed simp

lemma length_AbstractID_print: "length (AbstractID_print bs) = 2 * length bs"
  by (induction bs) simp_all

text \<open>
  Reading what was printed.  The twelve hexadecimal digits in which an identifier is
  printed everywhere are resolved to that identifier again by \<open>getNodeByName\<close>, unless a
  station has chosen just these digits as its name; the name of a station is resolved to a
  station whose name begins with the same 32 characters.
\<close>

theorem getNodeByName_resolves:
  assumes "NodeId_ok i" "\<forall>(j, d) \<in> set (adjList t). text_of (nodeName d) \<noteq> NodeId_print i"
    and "(j, d) \<in> set (adjList t)"
  shows "getNodeByName (NodeId_print i) t = Some i \<and>
    (\<exists>k e. getNodeByName (text_of (nodeName d)) t = Some k \<and> (k, e) \<in> set (adjList t) \<and>
      strncmp_eq (text_of (nodeName d)) (text_of (nodeName e)) 32)"
proof
  have len: "length (NodeId_print i) = 12" by (simp add: NodeId_print_eq length_AbstractID_print)
  have "strncmp_eq (NodeId_print i) (text_of (nodeName e)) 32 \<longrightarrow> text_of (nodeName e) = NodeId_print i" for e
  proof
    assume "strncmp_eq (NodeId_print i) (text_of (nodeName e)) 32"
    then have "NodeId_print i @ [nul] = take 32 (text_of (nodeName e) @ [nul])"
      using len by (simp add: strncmp_eq_def)
    moreover from arg_cong [OF this, of length] have "length (text_of (nodeName e)) = 12"
      using len by simp
    ultimately show "text_of (nodeName e) = NodeId_print i" by simp
  qed
  then have "find (\<lambda>(j, d). strncmp_eq (NodeId_print i) (text_of (nodeName d)) 32) (adjList t) = None"
    using assms(2) by (fastforce simp: find_None_iff)
  then show "getNodeByName (NodeId_print i) t = Some i"
    using scan_mac_print [of "NodeId_toArray i"] assms(1) len
    by (simp add: getNodeByName_def NodeId_print_eq)
next
  have "strncmp_eq (text_of (nodeName d)) (text_of (nodeName d)) 32" by (simp add: strncmp_eq_def)
  then obtain k e where f: "find (\<lambda>(i, e). strncmp_eq (text_of (nodeName d)) (text_of (nodeName e)) 32) (adjList t) = Some (k, e)"
    using assms(3) by (cases "find (\<lambda>(i, e). strncmp_eq (text_of (nodeName d)) (text_of (nodeName e)) 32) (adjList t)")
      (auto simp: find_None_iff)
  then have "(k, e) \<in> set (adjList t) \<and> strncmp_eq (text_of (nodeName d)) (text_of (nodeName e)) 32"
    by (auto simp: find_Some_iff in_set_conv_nth)
  with f show "\<exists>k e. getNodeByName (text_of (nodeName d)) t = Some k \<and> (k, e) \<in> set (adjList t) \<and>
      strncmp_eq (text_of (nodeName d)) (text_of (nodeName e)) 32"
    by (auto simp: getNodeByName_def)
qed


section \<open>The color of a link\<close>

lemma hex_digits_length:
  "length (hex_digits n) \<le> Suc k \<longleftrightarrow> n < 16 ^ Suc k"
proof (induction k arbitrary: n)
  case 0
  have "hex_digits (n div 16) \<noteq> []" by (subst hex_digits.simps) simp
  then show ?case by (subst hex_digits.simps) (auto simp: Suc_le_eq)
next
  case (Suc k)
  show ?case
  proof (cases "n < 16")
    case True
    moreover have "(16 :: nat) \<le> 16 ^ Suc (Suc k)" by simp
    ultimately have "n < 16 ^ Suc (Suc k)" by linarith
    with True show ?thesis by (subst hex_digits.simps) simp
  next
    case False
    then have "length (hex_digits n) = Suc (length (hex_digits (n div 16)))" by (subst hex_digits.simps) simp
    then show ?thesis using Suc.IH [of "n div 16"] by (simp add: div_less_iff_less_mult mult.commute)
  qed
qed

lemma hex_digits_nonempty: "0 < length (hex_digits n)"
  by (subst hex_digits.simps) simp

lemma fmt_02x_length: "length (fmt_02x v) = max 2 (length (hex_digits (unat v)))"
proof (cases "length (hex_digits (unat v)) < 2")
  case True
  with hex_digits_nonempty [of "unat v"] have "length (hex_digits (unat v)) = 1" by linarith
  then show ?thesis by (simp add: fmt_02x_def Let_def)
qed (simp add: fmt_02x_def Let_def)

lemma weight_scaled:
  assumes "w \<le> max_weight"
  shows "(w * 255) div 255 = w"
proof -
  have "unat w \<le> 4194303" using assms by (simp add: max_weight_def word_le_nat_alt unat_div)
  then have "unat (w * 255) = unat w * 255" by (simp add: unat_word_ariths)
  then show ?thesis by (simp add: word_unat_eq_iff unat_div)
qed

text \<open>The buffer is long enough exactly for weights that fit in 16 bits.\<close>

lemma print_color_overflow:
  assumes "w \<le> max_weight"
  shows "print_color w = Inl BufferOverflow \<longleftrightarrow> unat w > 0xFFFF"
proof -
  have w: "unat w \<le> 4194303" using assms by (simp add: max_weight_def word_le_nat_alt unat_div)
  have len: "length (colorstring w) = max 2 (length (hex_digits (unat w))) + 2 + max 2 (length (hex_digits (unat (0xFFFF - w))))"
    using weight_scaled [OF assms] by (simp add: colorstring_def Let_def fmt_02x_length)
  show ?thesis
  proof (cases "unat w \<le> 0xFFFF")
    case True
    then have "unat (0xFFFF - w) \<le> 0xFFFF" by (simp add: unat_sub word_le_nat_alt)
    then have "length (hex_digits (unat (0xFFFF - w))) \<le> 4" "length (hex_digits (unat w)) \<le> 4"
      using True hex_digits_length [of "unat (0xFFFF - w)" 3] hex_digits_length [of "unat w" 3] by simp_all
    then have "length (colorstring w) \<le> 10" unfolding len by simp
    with True show ?thesis by (simp add: print_color_def Let_def)
  next
    case False
    then have "unat (0xFFFF - w) = 2 ^ 32 + 0xFFFF - unat w"
      using w by (subst unat_sub_if') (auto simp: word_le_nat_alt)
    then have "\<not> length (hex_digits (unat (0xFFFF - w))) \<le> 7" "\<not> length (hex_digits (unat w)) \<le> 4"
      using False w hex_digits_length [of "unat (0xFFFF - w)" 6] hex_digits_length [of "unat w" 3] by simp_all
    then have "length (colorstring w) > 12" unfolding len by simp
    with False show ?thesis by (simp add: print_color_def Let_def)
  qed
qed


lemma printAdjX_links_overflow:
  "\<forall>l \<in> set ls. metric_weight l \<le> max_weight \<Longrightarrow>
   (printAdjX_links i ls = Inl BufferOverflow \<longleftrightarrow> (\<exists>l \<in> set ls. unat (metric_weight l) > 0xFFFF)) \<and>
   (printAdjX_links i ls = Inl BufferOverflow \<or> (\<exists>s. printAdjX_links i ls = Inr s))"
proof (induction ls)
  case (Cons l ls)
  have "print_color (metric_weight l) = Inl BufferOverflow \<or> (\<exists>c. print_color (metric_weight l) = Inr c)"
    by (simp add: print_color_def Let_def)
  then show ?case
    using Cons print_color_overflow [of "metric_weight l"]
    by (cases "print_color (metric_weight l)"; cases "printAdjX_links i ls") auto
qed simp

lemma printAdjX_overflow:
  "\<forall>(i, d) \<in> set a. \<forall>l \<in> set (linklist d). metric_weight l \<le> max_weight \<Longrightarrow>
   (printAdjX a = Inl BufferOverflow \<longleftrightarrow> (\<exists>(i, d) \<in> set a. \<exists>l \<in> set (linklist d). unat (metric_weight l) > 0xFFFF)) \<and>
   (printAdjX a = Inl BufferOverflow \<or> (\<exists>s. printAdjX a = Inr s))"
proof (induction a)
  case (Cons x a)
  obtain i d where x: "x = (i, d)" by (cases x)
  show ?case
    using Cons printAdjX_links_overflow [of "linklist d" i]
    by (cases "printAdjX_links i (linklist d)"; cases "printAdjX a") (auto simp: x)
qed simp

text \<open>
  The description in dot syntax overflows a buffer on the stack exactly when the topology has a
  link whose weight needs more than 16 bits.  The weight of a link that only one of its ends
  announces is such a weight, whatever the metric.
\<close>

theorem dot_string_overflows:
  assumes "\<forall>(i, d) \<in> set (adjList t). \<forall>l \<in> set (linklist d). metric_weight l \<le> max_weight"
  shows "(getDotString t = Inl BufferOverflow \<longleftrightarrow>
      (\<exists>(i, d) \<in> set (adjList t). \<exists>l \<in> set (linklist d). unat (metric_weight l) > 0xFFFF)) \<and>
    (lq_get a p = Some l \<longrightarrow> counterpart l = None \<longrightarrow>
      (\<exists>a'. calculate my_calculate p a = Inr a' \<and> map_option metric_weight (lq_get a' p) = Some max_weight)) \<and>
    unat max_weight > 0xFFFF"
proof (intro conjI impI)
  show "getDotString t = Inl BufferOverflow \<longleftrightarrow>
      (\<exists>(i, d) \<in> set (adjList t). \<exists>l \<in> set (linklist d). unat (metric_weight l) > 0xFFFF)"
    using printAdjX_overflow [OF assms] by (cases "printAdjX (adjList t)") (auto simp: getDotString_def)
  show "unat max_weight > 0xFFFF" by (simp add: max_weight_def unat_div)
next
  assume l: "lq_get a p = Some l" "counterpart l = None"
  let ?a = "lq_update p (\<lambda>l. l\<lparr>metric_weight := max_weight\<rparr>) a"
  have "min (- 1) max_weight = max_weight" by (simp add: max_weight_def)
  have u: "lq_get ?a p = Some (l\<lparr>metric_weight := max_weight\<rparr>)"
    using l(1) by (induction a) (auto simp: lq_get_def lq_update_def split: if_splits option.splits)
  then have "calculate my_calculate p a = Inr ?a"
    using l \<open>min (- 1) max_weight = max_weight\<close>
    by (simp add: calculate_def get_qualities_def lq_read_def set_metric_weight_def lq_modify_def)
  with u show "\<exists>a'. calculate my_calculate p a = Inr a' \<and> map_option metric_weight (lq_get a' p) = Some max_weight" by simp
qed


section \<open>Concrete instances\<close>

text \<open>A station with the name \<open>ab\<close> and a link that is not announced by its other end.\<close>

definition text_node :: NDescr where
  "text_node = (NDescr_new 0)\<lparr>nodeName := c_string ''ab'',
     linklist := [(LinkQuality_new (NodeId 2) 5)\<lparr>metric_weight := max_weight\<rparr>]\<rparr>"

definition text_topo :: RTopology where
  "text_topo = \<lparr>adjList = [(NodeId 1, text_node)], dirty = True, locked = False, myNodeId = NodeId 1, own_nodeName = [],
     next_buffer = 1, lastEventTime = 0, xml_subscribed = False, dot_subscribed = True, nodeObservers = [],
     linkObservers = [], linuxbasic_cb = False, topo_log = []\<rparr>"

theorem getNodeByName_resolves_witness:
  "getNodeByName (NodeId_print (NodeId 0x0A12CF0041B0)) text_topo = Some (NodeId 0x0A12CF0041B0) \<and>
   (\<exists>k. getNodeByName (text_of (nodeName text_node)) text_topo = Some k)"
proof -
  have len: "length (NodeId_print i) = 12" for i by (simp add: NodeId_print_eq length_AbstractID_print)
  have "length (text_of (nodeName text_node)) = 2"
    by (simp add: text_node_def c_string_def text_of_def)
  then have "text_of (nodeName text_node) \<noteq> NodeId_print i" for i
    using len [of i] by (intro notI) simp
  then have "\<forall>(j, d) \<in> set (adjList text_topo). text_of (nodeName d) \<noteq> NodeId_print (NodeId 0x0A12CF0041B0)"
    by (simp add: text_topo_def)
  then show ?thesis
    using getNodeByName_resolves [of "NodeId 0x0A12CF0041B0" text_topo "NodeId 1" text_node]
    by (auto simp: text_topo_def NodeId_ok_def)
qed

theorem dot_string_overflows_witness: "getDotString text_topo = Inl BufferOverflow"
proof -
  have "\<forall>(i, d) \<in> set (adjList text_topo). \<forall>l \<in> set (linklist d). metric_weight l \<le> max_weight"
    by (simp add: text_topo_def text_node_def)
  from dot_string_overflows [OF this] show ?thesis
    by (auto simp: text_topo_def text_node_def)
qed

end
