(* ===== verification/Crypto_Unit.thy ===== *)
theory Crypto_Unit
  imports Ccm_Spec Topo_Text
begin

text \<open>
  The cryptographic unit (\<open>src/src/crypto/CryptoUnit.h\<close>, \<open>AesCcmCryptoUnit.h\<close>,
  \<open>AesCcmCryptoUnit.cc\<close>, \<open>crypto_helpers.cc\<close>): signing and verifying, encrypting and decrypting packets with the CCM
  mode, and the rejection of replayed packets by their nonce.  The unit works in the buffer of a packet, a memory
  of bytes.  A pointer is an offset in this buffer and \<open>size_t\<close> has 64 bits, so that sums of pointers
  and sizes wrap; an access outside of the buffer is an error.
\<close>

section \<open>The unit\<close>

datatype cu_error = CcmError ccm_error | CuMemoryAccess | CuAssertFails

record AesCcmCryptoUnit =
  cu_key :: "byte list"
  cu_nonce :: "byte list"
  cu_lastIv :: u64
  cu_ivMap :: "(NodeId, u64) omap"

type_synonym cu_state = "AesCcmCryptoUnit \<times> byte list"
type_synonym 'a cu_result = "cu_error + ('a \<times> cu_state)"

text \<open>A block of memory is an offset and a size; the array ends with a null pointer.\<close>

type_synonym MemoryBlock = "nat \<times> nat"

text \<open>The fields \<open>key\<close> and \<open>ivMap\<close> of a new unit: the key is not set yet; the nonce consists of random bytes.\<close>

definition AesCcmCryptoUnit_new :: "byte list \<Rightarrow> byte list \<Rightarrow> AesCcmCryptoUnit" where
  "AesCcmCryptoUnit_new key random = \<lparr>cu_key = key, cu_nonce = random, cu_lastIv = 0, cu_ivMap = []\<rparr>"

definition setKey :: "byte list \<Rightarrow> AesCcmCryptoUnit \<Rightarrow> AesCcmCryptoUnit" where
  "setKey key cu = cu\<lparr>cu_key := take 16 key\<rparr>"

definition storeNonce :: "u64 \<Rightarrow> cu_state \<Rightarrow> unit cu_result" where
  "storeNonce p s =
     (case s of (cu, mem) \<Rightarrow>
        if unat p + 16 > length mem then Inl CuMemoryAccess
        else
          (let mem = mem_write mem (unat p + 8) (take 8 (cu_nonce cu));
               iv = cu_lastIv cu + 1;
               mem = mem_write mem (unat p) (toArray iv)
           in if fromArray (mem_read mem (unat p) 8) \<noteq> iv then Inl CuAssertFails
              else Inr ((), cu\<lparr>cu_lastIv := iv\<rparr>, mem)))"

text \<open>The areas are copied one after the other, and each is cleared when it has been copied.\<close>

fun saveNonsignArea :: "MemoryBlock list \<Rightarrow> byte list \<Rightarrow> cu_error + (byte list \<times> byte list)" where
  "saveNonsignArea [] mem = Inr ([], mem)"
| "saveNonsignArea ((p, n) # sg) mem =
     (if p + n > length mem then Inl CuMemoryAccess
      else rbind (saveNonsignArea sg (mem_write mem p (replicate n 0))) (\<lambda>(store, mem').
        Inr (mem_read mem p n @ store, mem')))"

fun restoreNonsignArea :: "byte list \<Rightarrow> MemoryBlock list \<Rightarrow> byte list \<Rightarrow> byte list" where
  "restoreNonsignArea store [] mem = mem"
| "restoreNonsignArea store ((p, n) # sg) mem = restoreNonsignArea (drop n store) sg (mem_write mem p (take n store))"

definition save_areas :: "MemoryBlock list option \<Rightarrow> byte list \<Rightarrow> cu_error + (byte list \<times> byte list)" where
  "save_areas sg mem = (case sg of None \<Rightarrow> Inr ([], mem) | Some bs \<Rightarrow> saveNonsignArea bs mem)"

definition restore_areas :: "byte list \<Rightarrow> MemoryBlock list option \<Rightarrow> byte list \<Rightarrow> byte list" where
  "restore_areas store sg mem = (case sg of None \<Rightarrow> mem | Some bs \<Rightarrow> restoreNonsignArea store bs mem)"

definition ccm_call ::
  "block_cipher \<Rightarrow> machine \<Rightarrow> byte list \<Rightarrow> u64 \<Rightarrow> u64 \<Rightarrow> u64 \<Rightarrow> u64 \<Rightarrow> u64 \<Rightarrow> bool \<Rightarrow> byte list \<Rightarrow> cu_error + (int \<times> byte list)" where
  "ccm_call E M key nonce auth ad_len msg msg_len ed_flag mem =
     map_sum CcmError id
       (CCM_mode E M key 16 (unat nonce) (unat auth) (unat ad_len) (unat msg) (ucast msg_len) 16 ed_flag mem)"

definition sign ::
  "block_cipher \<Rightarrow> machine \<Rightarrow> u64 \<Rightarrow> u64 \<Rightarrow> MemoryBlock list option \<Rightarrow> cu_state \<Rightarrow> unit cu_result" where
  "sign E M data data_len sg s =
     (let noncep = data + data_len in
      rbind (storeNonce noncep s) (\<lambda>(_, cu, mem).
      rbind (save_areas sg mem) (\<lambda>(store, mem).
      rbind (ccm_call E M (cu_key cu) noncep data (data_len + 16) (noncep + 16) 0 False mem) (\<lambda>(_, mem).
        Inr ((), cu, restore_areas store sg mem)))))"

definition verifyNonce :: "NodeId \<Rightarrow> u64 \<Rightarrow> cu_state \<Rightarrow> bool cu_result" where
  "verifyNonce src noncep s =
     (case s of (cu, mem) \<Rightarrow>
        if unat noncep + 8 > length mem then Inl CuMemoryAccess
        else
          (let iv = fromArray (mem_read mem (unat noncep) 8);
               old = (case om_find src (cu_ivMap cu) of Some v \<Rightarrow> v | None \<Rightarrow> iv - 1);
               cu = cu\<lparr>cu_ivMap := om_insert src old (cu_ivMap cu)\<rparr>
           in if old \<ge> iv then Inr (False, cu, mem)
              else Inr (True, cu\<lparr>cu_ivMap := om_insert src iv (cu_ivMap cu), cu_lastIv := max (cu_lastIv cu) iv\<rparr>, mem)))"

definition verifySignature ::
  "block_cipher \<Rightarrow> machine \<Rightarrow> NodeId \<Rightarrow> u64 \<Rightarrow> u64 \<Rightarrow> MemoryBlock list option \<Rightarrow> cu_state \<Rightarrow> bool cu_result" where
  "verifySignature E M src data data_len sg s =
     (case s of (cu, mem) \<Rightarrow>
        let noncep = data + data_len in
        rbind (save_areas sg mem) (\<lambda>(store, mem).
        rbind (ccm_call E M (cu_key cu) noncep data (data_len + 16) (noncep + 16) 0 True mem) (\<lambda>(ret, mem).
        rbind (verifyNonce src noncep (cu, restore_areas store sg mem)) (\<lambda>(fresh, s).
          Inr (fresh \<and> ret \<ge> 0, s)))))"

text \<open>The areas that are authenticated are copied behind the nonce.\<close>

fun copy_areas :: "nat \<Rightarrow> MemoryBlock list \<Rightarrow> byte list \<Rightarrow> cu_error + (nat \<times> byte list)" where
  "copy_areas auth_end [] mem = Inr (auth_end, mem)"
| "copy_areas auth_end ((p, n) # sg) mem =
     (if p + n > length mem \<or> auth_end + n > length mem then Inl CuMemoryAccess
      else copy_areas (auth_end + n) sg (mem_write mem auth_end (mem_read mem p n)))"

definition crypt ::
  "block_cipher \<Rightarrow> machine \<Rightarrow> bool \<Rightarrow> u64 \<Rightarrow> u64 \<Rightarrow> MemoryBlock list option \<Rightarrow> cu_state \<Rightarrow> bool cu_result" where
  "crypt E M isDecrypt data data_len sg s =
     (case s of (cu, mem) \<Rightarrow>
        let noncep = data + data_len + 16 in
        rbind (copy_areas (unat noncep + 16) (case sg of None \<Rightarrow> [] | Some bs \<Rightarrow> bs) mem) (\<lambda>(auth_end, mem).
        rbind (ccm_call E M (cu_key cu) noncep noncep (of_nat (auth_end - unat noncep)) data data_len isDecrypt mem) (\<lambda>(ret, mem).
          Inr (ret \<ge> 0, cu, mem))))"

definition encrypt ::
  "block_cipher \<Rightarrow> machine \<Rightarrow> u64 \<Rightarrow> u64 \<Rightarrow> MemoryBlock list option \<Rightarrow> cu_state \<Rightarrow> unit cu_result" where
  "encrypt E M data data_len sg s =
     rbind (storeNonce (data + data_len + 16) s) (\<lambda>(_, s).
     rbind (crypt E M False data data_len sg s) (\<lambda>(_, s). Inr ((), s)))"

definition decrypt ::
  "block_cipher \<Rightarrow> machine \<Rightarrow> u64 \<Rightarrow> u64 \<Rightarrow> MemoryBlock list option \<Rightarrow> cu_state \<Rightarrow> bool cu_result" where
  "decrypt E M data data_len sg s = crypt E M True data data_len sg s"

definition decryptDupDetect ::
  "block_cipher \<Rightarrow> machine \<Rightarrow> NodeId \<Rightarrow> u64 \<Rightarrow> u64 \<Rightarrow> MemoryBlock list option \<Rightarrow> cu_state \<Rightarrow> bool cu_result" where
  "decryptDupDetect E M src data data_len sg s =
     (let noncep = data + data_len + 16 in
      rbind (decrypt E M data data_len sg s) (\<lambda>(ret, s).
        if \<not> ret then Inr (False, s)
        else rbind (verifyNonce src noncep s) (\<lambda>(fresh, s). Inr (fresh, s))))"

section \<open>Areas\<close>

definition in_areas :: "MemoryBlock list \<Rightarrow> nat \<Rightarrow> bool" where
  "in_areas bs i \<longleftrightarrow> (\<exists>(p, n) \<in> set bs. p \<le> i \<and> i < p + n)"

text \<open>Areas inside of a range, no two of which overlap.\<close>

fun areas_ok :: "nat \<Rightarrow> nat \<Rightarrow> MemoryBlock list \<Rightarrow> bool" where
  "areas_ok lo hi [] \<longleftrightarrow> True"
| "areas_ok lo hi ((p, n) # bs) \<longleftrightarrow> lo \<le> p \<and> p + n \<le> hi \<and> (\<forall>i. p \<le> i \<and> i < p + n \<longrightarrow> \<not> in_areas bs i) \<and> areas_ok lo hi bs"

lemma in_areas_simps [simp]: "\<not> in_areas [] i" "in_areas ((p, n) # bs) i \<longleftrightarrow> p \<le> i \<and> i < p + n \<or> in_areas bs i"
  by (simp_all add: in_areas_def)

lemma in_areas_range: "areas_ok lo hi bs \<Longrightarrow> in_areas bs i \<Longrightarrow> lo \<le> i \<and> i < hi"
  by (induction lo hi bs rule: areas_ok.induct) auto

lemma nth_mem_write:
  assumes "off + length bs \<le> length buf" "i < length buf"
  shows "mem_write buf off bs ! i = (if off \<le> i \<and> i < off + length bs then bs ! (i - off) else buf ! i)"
  using assms by (auto simp: nth_mem_write_in nth_mem_write_out)

text \<open>What is saved can be put back into every memory.\<close>

lemma save_restore:
  assumes "areas_ok lo hi bs" "hi \<le> length mem"
  shows "\<exists>store z. saveNonsignArea bs mem = Inr (store, z) \<and> length z = length mem \<and>
    (\<forall>i < length mem. z ! i = (if in_areas bs i then 0 else mem ! i)) \<and>
    (\<forall>m. length m = length mem \<longrightarrow> length (restoreNonsignArea store bs m) = length mem \<and>
      (\<forall>i < length mem. restoreNonsignArea store bs m ! i = (if in_areas bs i then mem ! i else m ! i)))"
  using assms
proof (induction bs arbitrary: mem)
  case (Cons b bs)
  obtain p n where b: "b = (p, n)" by (cases b)
  let ?mem = "mem_write mem p (replicate n 0)"
  have B: "p + n \<le> length mem" "areas_ok lo hi bs" "\<And>i. p \<le> i \<Longrightarrow> i < p + n \<Longrightarrow> \<not> in_areas bs i"
    using Cons(2,3) by (auto simp: b)
  have l: "length ?mem = length mem" using B(1) by simp
  obtain store z where S: "saveNonsignArea bs ?mem = Inr (store, z)" "length z = length mem"
    "\<forall>i < length mem. z ! i = (if in_areas bs i then 0 else ?mem ! i)"
    "\<forall>m. length m = length mem \<longrightarrow> length (restoreNonsignArea store bs m) = length mem \<and>
      (\<forall>i < length mem. restoreNonsignArea store bs m ! i = (if in_areas bs i then ?mem ! i else m ! i))"
    using Cons(1) [OF B(2), of ?mem] Cons(3) l by auto
  have "saveNonsignArea (b # bs) mem = Inr (mem_read mem p n @ store, z)" using B(1) S(1) by (simp add: b)
  moreover have "z ! i = (if in_areas (b # bs) i then 0 else mem ! i)" if "i < length mem" for i
    using S(3) B(1) that by (auto simp: b nth_mem_write)
  moreover have "length (restoreNonsignArea (mem_read mem p n @ store) (b # bs) m) = length mem \<and>
      (\<forall>i < length mem. restoreNonsignArea (mem_read mem p n @ store) (b # bs) m ! i = (if in_areas (b # bs) i then mem ! i else m ! i))"
    if "length m = length mem" for m
  proof -
    have r: "restoreNonsignArea (mem_read mem p n @ store) (b # bs) m = restoreNonsignArea store bs (mem_write m p (mem_read mem p n))"
      using B(1) by (simp add: b)
    have l': "length (mem_write m p (mem_read mem p n)) = length mem" using B(1) that by simp
    show ?thesis
      using S(4) l' B that unfolding r by (auto simp: b nth_mem_write mem_read_def)
  qed
  ultimately show ?case using S(2) by blast
qed simp

section \<open>Signatures\<close>

text \<open>The signature of the bytes of a packet and of the nonce that follows them.\<close>

definition signature_of :: "block_cipher \<Rightarrow> byte list \<Rightarrow> nat \<Rightarrow> nat \<Rightarrow> byte list \<Rightarrow> byte list" where
  "signature_of E key p n z = rfc_tag (E key) 1 (mem_read z (p + n) 13) (mem_read z p (n + 16)) [] 16"

lemma unat_of_nat_u64: "x < 2 ^ 64 \<Longrightarrow> unat (of_nat x :: u64) = x"
  by (simp only: unsigned_of_nat of_nat_id) (simp add: take_bit_nat_eq_self)

lemma unat_small [simp]:
  "x \<le> MaxSize \<Longrightarrow> unat (of_nat x :: u64) = x" "x \<le> MaxSize \<Longrightarrow> unat (of_nat x + 16 :: u64) = x + 16"
  "x \<le> MaxSize \<Longrightarrow> unat (of_nat x + 32 :: u64) = x + 32"
proof -
  assume "x \<le> MaxSize"
  then have "x + 32 < 2 ^ 64" by (simp add: MaxSize_def)
  then show "unat (of_nat x :: u64) = x" "unat (of_nat x + 16 :: u64) = x + 16" "unat (of_nat x + 32 :: u64) = x + 32"
    using unat_of_nat_u64 [of x] unat_of_nat_u64 [of "x + 16"] unat_of_nat_u64 [of "x + 32"] by simp_all
qed

lemma length_rfc_tag:
  assumes "cipher_ok E" "af \<le> 16"
  shows "length (rfc_tag (E key) q N A X af) = af"
proof -
  have E: "length (E k b) = 16" for k b using assms(1) by (simp add: cipher_ok_def)
  have "length (cbc_blocks (E key) c ys) = 16" if "length c = 16" for c ys
    using that by (induction "E key" c ys rule: cbc_blocks.induct) (subst cbc_blocks.simps, simp add: E)
  then show ?thesis using assms(2) by (simp add: rfc_tag_def rfc_mac_def Let_def E)
qed

lemma signature_call:
  assumes "cipher_ok E" "4 dvd ctx_addr M" "length z = MaxSize" "p + n + 32 \<le> MaxSize"
  shows "ccm_call E M key (of_nat p + of_nat n) (of_nat p) (of_nat n + 16) (of_nat p + of_nat n + 16) 0 False z =
      Inr (16, mem_write z (p + n + 16) (signature_of E key p n z))"
    "ccm_call E M key (of_nat p + of_nat n) (of_nat p) (of_nat n + 16) (of_nat p + of_nat n + 16) 0 True z =
      (if mem_read z (p + n + 16) 16 = signature_of E key p n z then Inr (0, z)
       else Inr (CCM_auth_failure, mem_write z (p + n + 16) (replicate 16 0)))"
proof -
  have s: "nonce_size 0 = 13" "rfc_q (unat (0 :: u32)) = 1" by (simp_all add: nonce_size_rfc rfc_q_def)
  have "p + n \<le> MaxSize" "p \<le> MaxSize" "n \<le> MaxSize" using assms(4) by auto
  then have u: "unat (of_nat p + of_nat n :: u64) = p + n" "unat (of_nat p :: u64) = p" "unat (of_nat n + 16 :: u64) = n + 16"
    "unat (of_nat p + of_nat n + 16 :: u64) = p + n + 16"
    using unat_small [of "p + n"] by simp_all
  have ok: "call_ok M (p + n) p (n + 16) (p + n + 16) 0 16 z"
    using assms(2-4) s by (simp add: call_ok_def words_ok_def MaxSize_def)
  have e: "rfc_crypt (E key) q N [] = []" "mem_read z (p + n + 16) (unat (0 :: u32)) = []" for q N
    by (simp_all add: rfc_crypt_def mem_read_def)
  note spec = CCM_mode_spec [OF assms(1) ok refl refl e(2) s(2), of key]
  show "ccm_call E M key (of_nat p + of_nat n) (of_nat p) (of_nat n + 16) (of_nat p + of_nat n + 16) 0 False z =
      Inr (16, mem_write z (p + n + 16) (signature_of E key p n z))"
    using spec(1) by (simp add: ccm_call_def u s e signature_of_def)
  show "ccm_call E M key (of_nat p + of_nat n) (of_nat p) (of_nat n + 16) (of_nat p + of_nat n + 16) 0 True z =
      (if mem_read z (p + n + 16) 16 = signature_of E key p n z then Inr (0, z)
       else Inr (CCM_auth_failure, mem_write z (p + n + 16) (replicate 16 0)))"
    using spec(2) by (simp add: ccm_call_def u s e signature_of_def Let_def)
qed

definition areas :: "MemoryBlock list option \<Rightarrow> MemoryBlock list" where
  "areas sg = (case sg of None \<Rightarrow> [] | Some bs \<Rightarrow> bs)"

definition zeroed :: "MemoryBlock list \<Rightarrow> byte list \<Rightarrow> byte list" where
  "zeroed bs m = map (\<lambda>i. if in_areas bs i then 0 else m ! i) [0..<length m]"

lemma save_areas_eq: "save_areas sg mem = saveNonsignArea (areas sg) mem" "restore_areas store sg mem = restoreNonsignArea store (areas sg) mem"
  by (simp_all add: save_areas_def restore_areas_def areas_def split: option.split)

text \<open>Saving clears the areas; putting back what was saved gives the areas of the old memory in the new one.\<close>

lemma save_areas_ok:
  assumes "areas_ok lo hi (areas sg)" "hi \<le> length mem"
  obtains store where "save_areas sg mem = Inr (store, zeroed (areas sg) mem)"
    "\<And>m. length m = length mem \<Longrightarrow> restore_areas store sg m = map (\<lambda>i. if in_areas (areas sg) i then mem ! i else m ! i) [0..<length mem]"
proof -
  obtain store z where S: "saveNonsignArea (areas sg) mem = Inr (store, z)" "length z = length mem"
    "\<forall>i < length mem. z ! i = (if in_areas (areas sg) i then 0 else mem ! i)"
    "\<forall>m. length m = length mem \<longrightarrow> length (restoreNonsignArea store (areas sg) m) = length mem \<and>
      (\<forall>i < length mem. restoreNonsignArea store (areas sg) m ! i = (if in_areas (areas sg) i then mem ! i else m ! i))"
    using save_restore [OF assms] by blast
  have "z = zeroed (areas sg) mem" by (rule nth_equalityI) (use S(2,3) in \<open>simp_all add: zeroed_def\<close>)
  moreover have "restoreNonsignArea store (areas sg) m = map (\<lambda>i. if in_areas (areas sg) i then mem ! i else m ! i) [0..<length mem]"
    if "length m = length mem" for m
    by (rule nth_equalityI) (use S(4) that in simp_all)
  ultimately show thesis using that [of store] S(1) by (simp add: save_areas_eq)
qed

lemma storeNonce_eq:
  assumes "p + 16 \<le> length mem" "length mem = MaxSize" "length (cu_nonce cu) = 16"
  shows "storeNonce (of_nat p) (cu, mem) =
    Inr ((), cu\<lparr>cu_lastIv := cu_lastIv cu + 1\<rparr>, mem_write mem p (toArray (cu_lastIv cu + 1) @ take 8 (cu_nonce cu)))"
proof -
  let ?a = "toArray (cu_lastIv cu + 1)" and ?b = "take 8 (cu_nonce cu)"
  have l: "length ?a = 8" "length ?b = 8" using assms(3) by (simp_all add: length_toArray)
  have "mem_write (mem_write mem (p + 8) ?b) p ?a = mem_write mem p (?a @ ?b)"
    using assms(1) l by (simp add: mem_write_def min_def add.commute)
  moreover have "fromArray (mem_read (mem_write mem p (?a @ ?b)) p 8) = cu_lastIv cu + 1"
    using fromArray_toArray [of "cu_lastIv cu + 1" "[]"] assms(1) l by (simp add: mem_read_def mem_write_def)
  moreover have "p \<le> MaxSize" using assms(1,2) by simp
  ultimately show ?thesis using assms(1) by (simp add: storeNonce_def Let_def)
qed

lemma zeroed_read:
  assumes "\<And>i. i < length a \<Longrightarrow> \<not> in_areas bs i \<Longrightarrow> lo \<le> i \<Longrightarrow> i < lo + k \<Longrightarrow> a ! i = b ! i" "length a = length b" "lo + k \<le> length a"
  shows "mem_read (zeroed bs a) lo k = mem_read (zeroed bs b) lo k"
  by (rule nth_equalityI) (use assms in \<open>auto simp: mem_read_def zeroed_def\<close>)

text \<open>The signature depends on the packet and its nonce outside of the areas only.\<close>

lemma signature_of_cong:
  assumes "\<And>i. \<not> in_areas bs i \<Longrightarrow> p \<le> i \<Longrightarrow> i < p + n + 16 \<Longrightarrow> a ! i = b ! i" "length a = length b" "p + n + 16 \<le> length a"
  shows "signature_of E key p n (zeroed bs a) = signature_of E key p n (zeroed bs b)"
  using zeroed_read [of a bs p "n + 16" b] zeroed_read [of a bs "p + n" 13 b] assms by (simp add: signature_of_def)

lemma sign_eq:
  assumes "cipher_ok E" "4 dvd ctx_addr M" "length mem = MaxSize" "p + n + 32 \<le> MaxSize" "length (cu_nonce cu) = 16"
    and "areas_ok p (p + n) (areas sg)"
  shows "\<exists>mem'. sign E M (of_nat p) (of_nat n) sg (cu, mem) = Inr ((), cu\<lparr>cu_lastIv := cu_lastIv cu + 1\<rparr>, mem') \<and>
    length mem' = MaxSize \<and> (\<forall>i < MaxSize. i < p + n \<or> p + n + 32 \<le> i \<longrightarrow> mem' ! i = mem ! i) \<and>
    mem_read mem' (p + n) 8 = toArray (cu_lastIv cu + 1) \<and>
    mem_read mem' (p + n + 16) 16 = signature_of E (cu_key cu) p n (zeroed (areas sg) mem')"
proof -
  let ?iv = "cu_lastIv cu + 1" and ?bs = "areas sg"
  let ?nb = "toArray ?iv @ take 8 (cu_nonce cu)"
  define m where "m = mem_write mem (p + n) ?nb"
  have nb: "length ?nb = 16" using assms(5) by (simp add: length_toArray)
  have m: "length m = MaxSize" "\<And>i. i < MaxSize \<Longrightarrow> m ! i = (if p + n \<le> i \<and> i < p + n + 16 then ?nb ! (i - (p + n)) else mem ! i)"
    using assms(3,4) nb by (auto simp: m_def nth_mem_write)
  have st: "storeNonce (of_nat p + of_nat n) (cu, mem) = Inr ((), cu\<lparr>cu_lastIv := ?iv\<rparr>, m)"
    using storeNonce_eq [of "p + n" mem cu] assms(3-5) by (simp add: m_def)
  obtain store where S: "save_areas sg m = Inr (store, zeroed ?bs m)"
    "\<And>m'. length m' = length m \<Longrightarrow> restore_areas store sg m' = map (\<lambda>i. if in_areas ?bs i then m ! i else m' ! i) [0..<length m]"
    using save_areas_ok [OF assms(6), of m] assms(4) m(1) by auto
  define s where "s = signature_of E (cu_key cu) p n (zeroed ?bs m)"
  define z where "z = mem_write (zeroed ?bs m) (p + n + 16) s"
  define r where "r = map (\<lambda>i. if in_areas ?bs i then m ! i else z ! i) [0..<length m]"
  have s: "length s = 16" using assms(1) by (simp add: s_def signature_of_def length_rfc_tag)
  have zm: "length (zeroed ?bs m) = MaxSize" using m(1) by (simp add: zeroed_def)
  then have z: "length z = MaxSize" "\<And>i. i < MaxSize \<Longrightarrow> z ! i = (if p + n + 16 \<le> i \<and> i < p + n + 32 then s ! (i - (p + n + 16)) else zeroed ?bs m ! i)"
    using s assms(4) by (auto simp: z_def nth_mem_write)
  have "sign E M (of_nat p) (of_nat n) sg (cu, mem) = Inr ((), cu\<lparr>cu_lastIv := ?iv\<rparr>, r)"
    using st S signature_call(1) [OF assms(1,2) zm assms(4), of "cu_key cu"] z(1) m(1)
    by (simp add: sign_def Let_def s_def [symmetric] z_def [symmetric] r_def)
  moreover have r: "length r = MaxSize"
    "\<And>i. i < MaxSize \<Longrightarrow> r ! i = (if p + n + 16 \<le> i \<and> i < p + n + 32 then s ! (i - (p + n + 16)) else m ! i)"
    using m(1) z(2) assms(4) in_areas_range [OF assms(6)] by (fastforce simp: r_def zeroed_def)+
  moreover have "mem_read r (p + n) 8 = toArray ?iv"
    by (rule nth_equalityI) (use assms(4) m(2) r nb in \<open>auto simp: mem_read_def length_toArray nth_append\<close>)
  moreover have "mem_read r (p + n + 16) 16 = s"
    by (rule nth_equalityI) (use assms(4) s r in \<open>auto simp: mem_read_def\<close>)
  moreover have "s = signature_of E (cu_key cu) p n (zeroed ?bs r)"
    unfolding s_def by (rule signature_of_cong) (use r m(1) assms(4) in auto)
  ultimately show ?thesis using m(2) by (intro exI [of _ r]) auto
qed

lemma patch_same:
  "length m = length mem \<Longrightarrow> m = zeroed bs mem \<Longrightarrow> map (\<lambda>i. if in_areas bs i then mem ! i else m ! i) [0..<length mem] = mem"
  by (rule nth_equalityI) (simp_all add: zeroed_def)

lemma verifySignature_eq:
  assumes "cipher_ok E" "4 dvd ctx_addr M" "length mem = MaxSize" "p + n + 32 \<le> MaxSize"
    and "areas_ok p (p + n) (areas sg)"
  shows "verifySignature E M src (of_nat p) (of_nat n) sg (cu, mem) =
    (let good = (mem_read mem (p + n + 16) 16 = signature_of E (cu_key cu) p n (zeroed (areas sg) mem))
     in rbind (verifyNonce src (of_nat (p + n)) (cu, if good then mem else mem_write mem (p + n + 16) (replicate 16 0)))
          (\<lambda>(fresh, s). Inr (fresh \<and> good, s)))"
proof -
  let ?bs = "areas sg"
  obtain store where S: "save_areas sg mem = Inr (store, zeroed ?bs mem)"
    "\<And>m'. length m' = length mem \<Longrightarrow> restore_areas store sg m' = map (\<lambda>i. if in_areas ?bs i then mem ! i else m' ! i) [0..<length mem]"
    using save_areas_ok [OF assms(5), of mem] assms(3,4) by auto
  have z: "length (zeroed ?bs mem) = MaxSize" using assms(3) by (simp add: zeroed_def)
  have read: "mem_read (zeroed ?bs mem) (p + n + 16) 16 = mem_read mem (p + n + 16) 16"
    by (rule nth_equalityI) (use assms(3,4) in_areas_range [OF assms(5)] z in \<open>force simp: mem_read_def zeroed_def\<close>)+
  have good: "restore_areas store sg (zeroed ?bs mem) = mem"
    unfolding S(2) [OF z [unfolded assms(3) [symmetric]]] by (rule patch_same) (simp_all add: z assms(3))
  have bad: "restore_areas store sg (mem_write (zeroed ?bs mem) (p + n + 16) (replicate 16 0)) = mem_write mem (p + n + 16) (replicate 16 0)"
    by (rule nth_equalityI)
      (use S(2) z assms(3,4) in_areas_range [OF assms(5)] in \<open>force simp: nth_mem_write zeroed_def\<close>)+
  show ?thesis
    using S(1) signature_call(2) [OF assms(1,2) z assms(4), of "cu_key cu"] read good bad
    by (simp add: verifySignature_def Let_def CCM_auth_failure_def)
qed

lemma verifyNonce_eq:
  assumes "p + 8 \<le> length mem" "length mem = MaxSize" "iv = fromArray (mem_read mem p 8)"
  shows "verifyNonce src (of_nat p) (cu, mem) =
    (let old = (case om_find src (cu_ivMap cu) of Some v \<Rightarrow> v | None \<Rightarrow> iv - 1);
         cu' = cu\<lparr>cu_ivMap := om_insert src old (cu_ivMap cu)\<rparr>
     in if old \<ge> iv then Inr (False, cu', mem)
        else Inr (True, cu'\<lparr>cu_ivMap := om_insert src iv (cu_ivMap cu'), cu_lastIv := max (cu_lastIv cu) iv\<rparr>, mem))"
  unfolding assms(3) using assms(1,2) by (simp add: verifyNonce_def Let_def)

text \<open>A nonce is fresh if no packet with this or a higher one was accepted from the station.\<close>

definition fresh :: "NodeId \<Rightarrow> u64 \<Rightarrow> AesCcmCryptoUnit \<Rightarrow> bool" where
  "fresh src iv cu = (case om_find src (cu_ivMap cu) of None \<Rightarrow> iv \<noteq> 0 | Some v \<Rightarrow> v < iv)"

lemma minus_one_less: "iv - 1 < iv \<longleftrightarrow> iv \<noteq> (0 :: u64)"
  by (cases "iv = 0") (simp_all add: word_less_nat_alt unat_minus_one unat_gt_0)

lemma verifyNonce_fresh:
  assumes "p + 8 \<le> length mem" "length mem = MaxSize" "iv = fromArray (mem_read mem p 8)" "om_ok (cu_ivMap cu)"
  obtains cu' where "verifyNonce src (of_nat p) (cu, mem) = Inr (fresh src iv cu, cu', mem)"
    "fresh src iv cu \<Longrightarrow> om_find src (cu_ivMap cu') = Some iv"
    "\<not> fresh src iv cu \<Longrightarrow> om_find src (cu_ivMap cu') = Some (case om_find src (cu_ivMap cu) of Some v \<Rightarrow> v | None \<Rightarrow> iv - 1)"
    "\<And>i. i \<noteq> src \<Longrightarrow> om_find i (cu_ivMap cu') = om_find i (cu_ivMap cu)" "om_ok (cu_ivMap cu')" "cu_key cu' = cu_key cu"
proof -
  have f: "fresh src iv cu \<longleftrightarrow> \<not> (case om_find src (cu_ivMap cu) of Some v \<Rightarrow> v | None \<Rightarrow> iv - 1) \<ge> iv"
    using minus_one_less [of iv] by (auto simp: fresh_def not_le split: option.split)
  let ?old = "case om_find src (cu_ivMap cu) of Some v \<Rightarrow> v | None \<Rightarrow> iv - 1"
  let ?c = "cu\<lparr>cu_ivMap := om_insert src ?old (cu_ivMap cu)\<rparr>"
  let ?cu = "if fresh src iv cu then ?c\<lparr>cu_ivMap := om_insert src iv (cu_ivMap ?c), cu_lastIv := max (cu_lastIv cu) iv\<rparr> else ?c"
  have eq: "verifyNonce src (of_nat p) (cu, mem) = Inr (fresh src iv cu, ?cu, mem)"
    using f verifyNonce_eq [OF assms(1-3), of src cu] by (simp add: Let_def)
  have "om_ok (om_insert src ?old (cu_ivMap cu))" using assms(4) by (rule om_insert_ok)
  then show thesis by (intro that [OF eq]) (simp_all add: om_insert_ok om_find_insert assms(4))
qed

text \<open>
  Property C15: a signed packet is accepted by every station that has the key.  Between signing and verifying the bytes
  of the excluded areas, which are changed by the stations that forward the packet, may change in
  any way.  The packet is accepted exactly if its nonce is fresh, and it is not changed by the check.
\<close>

theorem signed_packet_accepted:
  assumes "cipher_ok E" "4 dvd ctx_addr M" "4 dvd ctx_addr M'" "length mem = MaxSize" "p + n + 32 \<le> MaxSize"
    and "length (cu_nonce a) = 16" "areas_ok p (p + n) (areas sg)" "cu_key b = cu_key a" "om_ok (cu_ivMap b)"
  shows "\<exists>a' signed. sign E M (of_nat p) (of_nat n) sg (a, mem) = Inr ((), a', signed) \<and> length signed = MaxSize \<and>
    (\<forall>i < p + n. signed ! i = mem ! i) \<and>
    (\<forall>received. length received = MaxSize \<longrightarrow>
      (\<forall>i. p \<le> i \<longrightarrow> i < p + n + 32 \<longrightarrow> \<not> in_areas (areas sg) i \<longrightarrow> received ! i = signed ! i) \<longrightarrow>
      (\<exists>b'. verifySignature E M' src (of_nat p) (of_nat n) sg (b, received) =
        Inr (fresh src (cu_lastIv a + 1) b, b', received)))"
proof -
  obtain signed where S: "sign E M (of_nat p) (of_nat n) sg (a, mem) = Inr ((), a\<lparr>cu_lastIv := cu_lastIv a + 1\<rparr>, signed)"
    "length signed = MaxSize" "\<forall>i < MaxSize. i < p + n \<or> p + n + 32 \<le> i \<longrightarrow> signed ! i = mem ! i"
    "mem_read signed (p + n) 8 = toArray (cu_lastIv a + 1)"
    "mem_read signed (p + n + 16) 16 = signature_of E (cu_key a) p n (zeroed (areas sg) signed)"
    using sign_eq [OF assms(1,2,4-7)] by blast
  have "\<exists>b'. verifySignature E M' src (of_nat p) (of_nat n) sg (b, received) = Inr (fresh src (cu_lastIv a + 1) b, b', received)"
    if r: "length received = MaxSize" "\<And>i. p \<le> i \<Longrightarrow> i < p + n + 32 \<Longrightarrow> \<not> in_areas (areas sg) i \<Longrightarrow> received ! i = signed ! i" for received
  proof -
    have same: "mem_read received (p + n + k) m = mem_read signed (p + n + k) m" if "k + m \<le> 32" for k m
    proof (rule nth_equalityI)
      fix i assume i: "i < length (mem_read received (p + n + k) m)"
      have "\<not> in_areas (areas sg) (p + n + k + i)" using in_areas_range [OF assms(7)] by fastforce
      moreover have "i < m" using i r(1) assms(5) that by simp
      ultimately show "mem_read received (p + n + k) m ! i = mem_read signed (p + n + k) m ! i"
        using that r(1) S(2) assms(5) r(2) [of "p + n + k + i"] by (simp add: mem_read_def)
    qed (use r(1) S(2) in \<open>simp add: mem_read_def\<close>)
    have "signature_of E (cu_key a) p n (zeroed (areas sg) received) = signature_of E (cu_key a) p n (zeroed (areas sg) signed)"
      by (rule signature_of_cong) (use r S(2) assms(5) in auto)
    then have good: "mem_read received (p + n + 16) 16 = signature_of E (cu_key b) p n (zeroed (areas sg) received)"
      using same [of 16 16] S(5) assms(8) by simp
    have iv: "cu_lastIv a + 1 = fromArray (mem_read received (p + n) 8)"
      using same [of 0 8] S(4) fromArray_toArray [of "cu_lastIv a + 1" "[]"] by simp
    obtain b' where "verifyNonce src (of_nat (p + n)) (b, received) = Inr (fresh src (cu_lastIv a + 1) b, b', received)"
      using verifyNonce_fresh [OF _ r(1) iv assms(9), of src] assms(5) r(1) by auto
    then show ?thesis
      using verifySignature_eq [OF assms(1,3) r(1) assms(5,7), of src b] good by (auto simp: Let_def)
  qed
  then show ?thesis using S assms(5) by (intro exI conjI) (assumption | auto)+
qed

lemma verifySignature_fresh:
  assumes "cipher_ok E" "4 dvd ctx_addr M" "length mem = MaxSize" "p + n + 32 \<le> MaxSize" "areas_ok p (p + n) (areas sg)" "om_ok (cu_ivMap cu)"
  shows "\<exists>s r iv. verifySignature E M src (of_nat p) (of_nat n) sg (cu, mem) = Inr (r, s) \<and> (r \<longrightarrow> fresh src iv cu)"
proof -
  have "\<exists>iv cu'. verifyNonce src (of_nat (p + n)) (cu, m) = Inr (fresh src iv cu, cu', m)" if "length m = MaxSize" for m
    using verifyNonce_fresh [OF _ that refl assms(6), of "p + n" src] that assms(4) by (metis add_leD1 add_le_mono le_trans
        add.assoc numeral_le_iff semiring_norm(68,71) nat_add_left_cancel_le)
  from this [of mem] this [of "mem_write mem (p + n + 16) (replicate 16 0)"] show ?thesis
    using assms(3,4) by (subst verifySignature_eq [OF assms(1-5)]) (auto simp: Let_def)
qed

text \<open>
  Property C38: a forged packet silences a station.  A packet with a wrong signature is rejected, but its nonce is
  recorded nevertheless.  If the nonce is the highest one, every later packet of the station is
  rejected, whatever its signature.
\<close>

theorem forged_nonce_silences_station:
  assumes "cipher_ok E" "4 dvd ctx_addr M" "length mem = MaxSize" "p + n + 32 \<le> MaxSize" "areas_ok p (p + n) (areas sg)"
    and "mem_read mem (p + n + 16) 16 \<noteq> signature_of E (cu_key cu) p n (zeroed (areas sg) mem)"
    and "mem_read mem (p + n) 8 = replicate 8 0xFF" "fresh src (- 1) cu" "om_ok (cu_ivMap cu)"
  shows "\<exists>cu' mem'. verifySignature E M src (of_nat p) (of_nat n) sg (cu, mem) = Inr (False, cu', mem') \<and>
    (\<forall>p' n' sg' later. length later = MaxSize \<longrightarrow> p' + n' + 32 \<le> MaxSize \<longrightarrow> areas_ok p' (p' + n') (areas sg') \<longrightarrow>
      (\<exists>s. verifySignature E M src (of_nat p') (of_nat n') sg' (cu', later) = Inr (False, s)))"
proof -
  let ?mem = "mem_write mem (p + n + 16) (replicate 16 0)"
  have "(- 1 :: u64) = fromArray (replicate 8 0xFF)" by code_simp
  then have iv: "(- 1 :: u64) = fromArray (mem_read ?mem (p + n) 8)"
    using assms(3,4,7) by (simp add: mem_read_write_before)
  have len: "length ?mem = MaxSize" "p + n + 8 \<le> length ?mem" using assms(3,4) by simp_all
  obtain cu' where cu': "verifyNonce src (of_nat (p + n)) (cu, ?mem) = Inr (True, cu', ?mem)"
    "om_find src (cu_ivMap cu') = Some (- 1)" "om_ok (cu_ivMap cu')"
    using verifyNonce_fresh [OF len(2,1) iv assms(9), of src] assms(8) by auto
  then have "verifySignature E M src (of_nat p) (of_nat n) sg (cu, mem) = Inr (False, cu', ?mem)"
    using verifySignature_eq [OF assms(1-5), of src cu] assms(6) by (simp add: Let_def)
  moreover have "\<exists>s. verifySignature E M src (of_nat p') (of_nat n') sg' (cu', later) = Inr (False, s)"
    if l: "length later = MaxSize" "p' + n' + 32 \<le> MaxSize" "areas_ok p' (p' + n') (areas sg')" for p' n' sg' later
  proof -
    have "\<not> fresh src iv cu'" for iv using cu'(2) by (simp add: fresh_def)
    with verifySignature_fresh [OF assms(1,2) l cu'(3), of src] show ?thesis by auto
  qed
  ultimately show ?thesis by blast
qed

section \<open>Encryption\<close>

text \<open>The copies of the areas lie one behind the other.\<close>

definition area_bytes :: "MemoryBlock list \<Rightarrow> byte list \<Rightarrow> byte list" where
  "area_bytes bs mem = concat (map (\<lambda>(p, n). mem_read mem p n) bs)"

definition area_size :: "MemoryBlock list \<Rightarrow> nat" where
  "area_size bs = sum_list (map snd bs)"

lemma copy_areas_eq:
  assumes "\<forall>(p, n) \<in> set bs. p + n \<le> e" "e + area_size bs \<le> length mem"
  shows "copy_areas e bs mem = Inr (e + area_size bs, mem_write mem e (area_bytes bs mem)) \<and> length (area_bytes bs mem) = area_size bs"
  using assms
proof (induction bs arbitrary: e mem)
  case (Cons b bs)
  obtain p n where b: "b = (p, n)" by (cases b)
  let ?m = "mem_write mem e (mem_read mem p n)"
  have len: "p + n \<le> e" "e + n \<le> length mem" "length (mem_read mem p n) = n" using Cons(2,3) by (auto simp: b area_size_def)
  have "mem_read ?m p' n' = mem_read mem p' n'" if "(p', n') \<in> set bs" for p' n'
    using Cons(2) that len by (intro mem_read_write_before) auto
  then have bytes: "area_bytes bs ?m = area_bytes bs mem" by (auto simp: area_bytes_def intro!: arg_cong [of _ _ concat])
  have "\<forall>(p', n') \<in> set bs. p' + n' \<le> e + n" "e + n + area_size bs \<le> length ?m"
    using Cons(2,3) len by (fastforce simp: b area_size_def)+
  note IH = Cons(1) [OF this, unfolded bytes]
  have "mem_write ?m (e + n) (area_bytes bs mem) = mem_write mem e (mem_read mem p n @ area_bytes bs mem)"
    using mem_write_append [of e "mem_read mem p n" "area_bytes bs mem" mem] len IH Cons(3) by (simp add: b area_size_def)
  with IH len show ?case by (simp add: b area_size_def area_bytes_def)
qed (simp add: area_size_def area_bytes_def)

text \<open>The authenticated data are the nonce and the areas.\<close>

definition auth_of :: "MemoryBlock list \<Rightarrow> nat \<Rightarrow> nat \<Rightarrow> byte list \<Rightarrow> byte list" where
  "auth_of bs p n mem = mem_read mem (p + n + 16) 16 @ area_bytes bs mem"

abbreviation cipher_of :: "block_cipher \<Rightarrow> byte list \<Rightarrow> nat \<Rightarrow> nat \<Rightarrow> byte list \<Rightarrow> byte list" where
  "cipher_of E key p n mem \<equiv> rfc_crypt (E key) 1 (mem_read mem (p + n + 16) 13) (mem_read mem p n)"

abbreviation tag_of :: "block_cipher \<Rightarrow> byte list \<Rightarrow> MemoryBlock list \<Rightarrow> nat \<Rightarrow> nat \<Rightarrow> byte list \<Rightarrow> byte list \<Rightarrow> byte list" where
  "tag_of E key bs p n mem text \<equiv> rfc_tag (E key) 1 (mem_read mem (p + n + 16) 13) (auth_of bs p n mem) text 16"

lemma crypt_eq:
  assumes "cipher_ok E" "words_ok M p n" "length mem = MaxSize" "p + n + 32 + area_size (areas sg) \<le> MaxSize"
    and "\<forall>(q, k) \<in> set (areas sg). q + k \<le> p"
  shows "\<exists>m. crypt E M False (of_nat p) (of_nat n) sg (cu, mem) = Inr (True, cu, m) \<and> length m = MaxSize \<and>
      (\<forall>i < p + n + 32. m ! i = mem_write mem p (cipher_of E (cu_key cu) p n mem @ tag_of E (cu_key cu) (areas sg) p n mem (mem_read mem p n)) ! i)"
    "\<exists>m. crypt E M True (of_nat p) (of_nat n) sg (cu, mem) =
        Inr (mem_read mem (p + n) 16 = tag_of E (cu_key cu) (areas sg) p n mem (cipher_of E (cu_key cu) p n mem), cu, m) \<and> length m = MaxSize \<and>
      (mem_read mem (p + n) 16 = tag_of E (cu_key cu) (areas sg) p n mem (cipher_of E (cu_key cu) p n mem) \<longrightarrow>
        (\<forall>i < p + n + 32. m ! i = mem_write mem p (cipher_of E (cu_key cu) p n mem) ! i))"
proof -
  let ?bs = "areas sg" and ?e = "p + n + 32" and ?key = "cu_key cu"
  define m where "m = mem_write mem ?e (area_bytes ?bs mem)"
  have "\<forall>(q, k) \<in> set ?bs. q + k \<le> ?e" using assms(5) by fastforce
  from copy_areas_eq [OF this, of mem] have c: "copy_areas ?e ?bs mem = Inr (?e + area_size ?bs, m)" "length (area_bytes ?bs mem) = area_size ?bs"
    using assms(3,4) by (simp_all add: m_def)
  have m: "length m = MaxSize" "\<And>i. i < ?e \<Longrightarrow> m ! i = mem ! i"
    using assms(3,4) c(2) by (auto simp: m_def nth_mem_write)
  have r: "mem_read m i k = mem_read mem i k" if "i + k \<le> ?e" for i k
    using that assms(3,4) c(2) by (simp add: m_def mem_read_write_before)
  have A: "mem_read m (p + n + 16) (16 + area_size ?bs) = auth_of ?bs p n mem"
    using mem_read_append [of "p + n + 16" 16 "area_size ?bs" m] r [of "p + n + 16" 16] assms(3,4) m(1) c(2)
    by (simp add: auth_of_def m_def mem_read_write_same add.assoc)
  have n: "n < 2 ^ 16" using assms(4) by (simp add: MaxSize_def)
  then have n32: "unat (ucast (of_nat n :: u64) :: u32) = n"
    using unat_small [of n] assms(4) by (simp add: unsigned_ucast_eq take_bit_nat_eq_self)
  have u: "unat (of_nat p + of_nat n + 16 :: u64) = p + n + 16" "unat (of_nat p :: u64) = p"
    "unat (of_nat (?e + area_size ?bs - (p + n + 16)) :: u64) = 16 + area_size ?bs"
    using unat_small [of "p + n"] unat_small [of "16 + area_size ?bs"] assms(4) by simp_all
  let ?n = "ucast (of_nat n :: u64) :: u32"
  have q: "rfc_q (unat ?n) = 1" "nonce_size ?n = 13" using n n32 by (simp_all add: nonce_size_rfc rfc_q_def)
  have ok: "call_ok M (p + n + 16) (p + n + 16) (16 + area_size ?bs) p ?n 16 m"
    using assms(2,4) m(1) by (simp add: call_ok_def n32 q(2) MaxSize_def)
  have N: "mem_read m (p + n + 16) (nonce_size ?n) = mem_read mem (p + n + 16) 13"
    "mem_read m p (unat ?n) = mem_read mem p n" "mem_read m (p + n) 16 = mem_read mem (p + n) 16"
    using q(2) n32 r by simp_all
  note spec = CCM_mode_spec [OF assms(1) ok N(1) A N(2) q(1), of ?key, unfolded n32]
  have e: "p + n + 16 + 16 = ?e" by simp
  have unf: "crypt E M f (of_nat p) (of_nat n) sg (cu, mem) =
      rbind (map_sum CcmError id (CCM_mode E M ?key 16 (p + n + 16) (p + n + 16) (16 + area_size ?bs) p ?n 16 f m))
        (\<lambda>(ret, mem). Inr (ret \<ge> 0, cu, mem))" for f
    by (simp only: crypt_def ccm_call_def Let_def areas_def [symmetric] prod.case u(1,2) e c(1) rbind.simps u(3))
  have l: "length (mem_read mem p n) = n" "p + n + 16 \<le> MaxSize" using assms(3,4) by simp_all
  let ?c = "cipher_of E ?key p n mem"
  have tag: "length (tag_of E ?key ?bs p n mem t) = 16" for t by (rule length_rfc_tag [OF assms(1)]) simp
  have w: "mem_write m p bs ! i = mem_write mem p bs ! i" if "i < ?e" "length bs \<le> n + 16" for i bs
    using that m assms(3,4) by (simp add: nth_mem_write)
  show "\<exists>m. crypt E M False (of_nat p) (of_nat n) sg (cu, mem) = Inr (True, cu, m) \<and> length m = MaxSize \<and>
      (\<forall>i < ?e. m ! i = mem_write mem p (?c @ tag_of E ?key ?bs p n mem (mem_read mem p n)) ! i)"
    using spec(1) l tag w m(1) by (auto simp: unf)
  let ?good = "mem_read mem (p + n) 16 = tag_of E ?key ?bs p n mem ?c"
  show "\<exists>m. crypt E M True (of_nat p) (of_nat n) sg (cu, mem) = Inr (?good, cu, m) \<and> length m = MaxSize \<and>
      (?good \<longrightarrow> (\<forall>i < ?e. m ! i = mem_write mem p ?c ! i))"
    using spec(2) l w m(1) N(3) by (auto simp: unf CCM_auth_failure_def Let_def)
qed

lemma mem_read_cong:
  assumes "\<And>i. off \<le> i \<Longrightarrow> i < off + n \<Longrightarrow> a ! i = b ! i" "off + n \<le> length a" "off + n \<le> length b"
  shows "mem_read a off n = mem_read b off n"
  by (rule nth_equalityI) (use assms in \<open>auto simp: mem_read_def\<close>)

lemma area_bytes_cong:
  assumes "\<And>i. in_areas bs i \<Longrightarrow> a ! i = b ! i" "length a = length b" "\<forall>(q, k) \<in> set bs. q + k \<le> length a"
  shows "area_bytes bs a = area_bytes bs b"
proof -
  have "mem_read a q k = mem_read b q k" if "(q, k) \<in> set bs" for q k
    using assms that by (intro mem_read_cong) (auto simp: in_areas_def)
  then show ?thesis by (auto simp: area_bytes_def intro!: arg_cong [of _ _ concat])
qed

text \<open>A packet is authentic if its authentication value is that of its decrypted text.\<close>

definition authentic :: "block_cipher \<Rightarrow> byte list \<Rightarrow> MemoryBlock list \<Rightarrow> nat \<Rightarrow> nat \<Rightarrow> byte list \<Rightarrow> bool" where
  "authentic E key bs p n mem \<longleftrightarrow> mem_read mem (p + n) 16 = tag_of E key bs p n mem (cipher_of E key p n mem)"

lemma encrypt_authentic:
  assumes "cipher_ok E" "words_ok M p n" "length mem = MaxSize" "p + n + 32 + area_size (areas sg) \<le> MaxSize"
    and "\<forall>(q, k) \<in> set (areas sg). q + k \<le> p" "length (cu_nonce a) = 16"
  shows "\<exists>sent. encrypt E M (of_nat p) (of_nat n) sg (a, mem) = Inr ((), a\<lparr>cu_lastIv := cu_lastIv a + 1\<rparr>, sent) \<and>
    length sent = MaxSize \<and> authentic E (cu_key a) (areas sg) p n sent \<and> cipher_of E (cu_key a) p n sent = mem_read mem p n \<and>
    mem_read sent (p + n + 16) 8 = toArray (cu_lastIv a + 1) \<and> (\<forall>i < p. sent ! i = mem ! i)"
proof -
  let ?bs = "areas sg" and ?key = "cu_key a" and ?iv = "cu_lastIv a + 1"
  let ?nb = "toArray ?iv @ take 8 (cu_nonce a)"
  have nb: "length ?nb = 16" "length (toArray ?iv) = 8" using assms(6) by (simp_all add: length_toArray)
  define m where "m = mem_write mem (p + n + 16) ?nb"
  have m: "length m = MaxSize" "mem_read m p n = mem_read mem p n" "mem_read m (p + n + 16) 8 = toArray ?iv"
    using assms(3,4) nb mem_read_write_inside [of "p + n + 16" ?nb mem 0 8]
    by (simp_all add: m_def mem_read_write_before) (simp add: mem_read_def)
  have st: "storeNonce (of_nat p + of_nat n + 16) (a, mem) = Inr ((), a\<lparr>cu_lastIv := ?iv\<rparr>, m)"
    using storeNonce_eq [of "p + n + 16" mem a] assms(3,4,6) by (simp add: m_def)
  let ?t = "tag_of E ?key ?bs p n m (mem_read mem p n)" and ?c = "cipher_of E ?key p n m"
  have l: "length ?c = n" "length ?t = 16" using assms(1,3,4) m(1) by (simp_all add: length_rfc_tag)
  obtain sent where S: "crypt E M False (of_nat p) (of_nat n) sg (a\<lparr>cu_lastIv := ?iv\<rparr>, m) = Inr (True, a\<lparr>cu_lastIv := ?iv\<rparr>, sent)"
    "length sent = MaxSize" "\<forall>i < p + n + 32. sent ! i = mem_write m p (?c @ ?t) ! i"
    using crypt_eq(1) [OF assms(1,2) m(1) assms(4,5), of "a\<lparr>cu_lastIv := ?iv\<rparr>"] m(2) by auto
  have w: "mem_read sent i k = mem_read (mem_write m p (?c @ ?t)) i k" if "i + k \<le> p + n + 32" for i k
    using that S(2,3) m(1) l assms(4) by (intro mem_read_cong) auto
  have N: "mem_read sent (p + n + 16) k = mem_read m (p + n + 16) k" if "k \<le> 16" for k
    using w [of "p + n + 16" k] that l m(1) assms(4) by (simp add: mem_read_write_after)
  have C: "mem_read sent p n = ?c" "mem_read sent (p + n) 16 = ?t"
    using w [of p n] w [of "p + n" 16] l m(1) assms(4)
      mem_read_write_inside [of p "?c @ ?t" m 0 n] mem_read_write_inside [of p "?c @ ?t" m n 16]
    by (simp_all add: mem_read_def)
  have "area_bytes ?bs sent = area_bytes ?bs m"
    using S(2,3) l m(1) assms(4,5) by (intro area_bytes_cong) (fastforce simp: in_areas_def nth_mem_write)+
  then have "auth_of ?bs p n sent = auth_of ?bs p n m" using N [of 16] by (simp add: auth_of_def)
  moreover have "cipher_of E ?key p n sent = mem_read mem p n" using N [of 13] C(1) m(2) by (simp add: rfc_crypt_inverse)
  moreover have "\<forall>i < p. sent ! i = mem ! i"
    using S(3) assms(3,4) l m(1) nb by (auto simp: nth_mem_write m_def)
  ultimately show ?thesis using st S(1,2) N C(2) m(3) by (auto simp: encrypt_def authentic_def)
qed

lemma decrypt_authentic:
  assumes "cipher_ok E" "words_ok M p n" "length mem = MaxSize" "p + n + 32 + area_size (areas sg) \<le> MaxSize"
    and "\<forall>(q, k) \<in> set (areas sg). q + k \<le> p" "authentic E (cu_key b) (areas sg) p n mem" "om_ok (cu_ivMap b)"
  shows "\<exists>b' m. decryptDupDetect E M src (of_nat p) (of_nat n) sg (b, mem) =
      Inr (fresh src (fromArray (mem_read mem (p + n + 16) 8)) b, b', m) \<and> mem_read m p n = cipher_of E (cu_key b) p n mem \<and>
      length m = MaxSize \<and> (\<forall>i < p. m ! i = mem ! i)"
proof -
  let ?text = "cipher_of E (cu_key b) p n mem"
  have ln: "length ?text = n" using assms(3,4) by simp
  obtain m where D: "crypt E M True (of_nat p) (of_nat n) sg (b, mem) = Inr (True, b, m)" "length m = MaxSize"
    "\<forall>i < p + n + 32. m ! i = mem_write mem p ?text ! i"
    using crypt_eq(2) [OF assms(1-5), of b] assms(6) by (auto simp: authentic_def)
  have "mem_read m i k = mem_read (mem_write mem p ?text) i k" if "i + k \<le> p + n + 32" for i k
    using that D(2,3) assms(3,4) ln by (intro mem_read_cong) auto
  from this [of p n] this [of "p + n + 16" 8]
  have m: "mem_read m p n = ?text" "mem_read m (p + n + 16) 8 = mem_read mem (p + n + 16) 8"
    using ln assms(3,4) by (simp_all add: mem_read_write_same mem_read_write_after)
  obtain b' where "verifyNonce src (of_nat (p + n + 16)) (b, m) = Inr (fresh src (fromArray (mem_read mem (p + n + 16) 8)) b, b', m)"
    using verifyNonce_fresh [OF _ D(2) refl assms(7), of "p + n + 16" src] assms(4) D(2) m(2) by auto
  moreover have "\<forall>i < p. m ! i = mem ! i" using D(3) assms(3,4) ln by (auto simp: nth_mem_write)
  ultimately show ?thesis using D(1,2) m(1) by (auto simp: decryptDupDetect_def decrypt_def)
qed

lemma authentic_cong:
  assumes "\<And>i. in_areas bs i \<or> p \<le> i \<and> i < p + n + 32 \<Longrightarrow> a ! i = b ! i" "length a = length b" "p + n + 32 \<le> length a"
    and "\<forall>(q, k) \<in> set bs. q + k \<le> p"
  shows "authentic E key bs p n a = authentic E key bs p n b" "cipher_of E key p n a = cipher_of E key p n b"
    "mem_read a (p + n + 16) 8 = mem_read b (p + n + 16) 8"
proof -
  have r: "mem_read a i k = mem_read b i k" if "p \<le> i" "i + k \<le> p + n + 32" for i k
    using that assms(1-3) by (intro mem_read_cong) auto
  have "area_bytes bs a = area_bytes bs b" using assms by (intro area_bytes_cong) fastforce+
  then show "authentic E key bs p n a = authentic E key bs p n b" "cipher_of E key p n a = cipher_of E key p n b"
    "mem_read a (p + n + 16) 8 = mem_read b (p + n + 16) 8"
    by (simp_all add: authentic_def auth_of_def r)
qed

text \<open>
  An encrypted packet is decrypted by every station that has the key.  The receiver needs the header areas
  that are authenticated, the ciphertext, its authentication value and the nonce; the rest of the
  packet may differ.  If the nonce is fresh the packet is accepted and the plaintext is restored.
\<close>

theorem encrypted_packet_decrypted:
  assumes "cipher_ok E" "words_ok M p n" "words_ok M' p n" "length mem = MaxSize" "p + n + 32 + area_size (areas sg) \<le> MaxSize"
    and "\<forall>(q, k) \<in> set (areas sg). q + k \<le> p" "length (cu_nonce a) = 16" "cu_key b = cu_key a" "om_ok (cu_ivMap b)"
  shows "\<exists>a' sent. encrypt E M (of_nat p) (of_nat n) sg (a, mem) = Inr ((), a', sent) \<and> length sent = MaxSize \<and>
    (\<forall>received. length received = MaxSize \<longrightarrow>
      (\<forall>i. in_areas (areas sg) i \<or> p \<le> i \<and> i < p + n + 32 \<longrightarrow> received ! i = sent ! i) \<longrightarrow>
      (\<exists>b' m. decryptDupDetect E M' src (of_nat p) (of_nat n) sg (b, received) = Inr (fresh src (cu_lastIv a + 1) b, b', m) \<and>
        mem_read m p n = mem_read mem p n))"
proof -
  let ?iv = "cu_lastIv a + 1"
  obtain sent where S: "encrypt E M (of_nat p) (of_nat n) sg (a, mem) = Inr ((), a\<lparr>cu_lastIv := ?iv\<rparr>, sent)" "length sent = MaxSize"
    "authentic E (cu_key a) (areas sg) p n sent" "cipher_of E (cu_key a) p n sent = mem_read mem p n"
    "mem_read sent (p + n + 16) 8 = toArray ?iv"
    using encrypt_authentic [OF assms(1,2,4-7)] by blast
  have "\<exists>b' m. decryptDupDetect E M' src (of_nat p) (of_nat n) sg (b, received) = Inr (fresh src ?iv b, b', m) \<and>
      mem_read m p n = mem_read mem p n"
    if r: "length received = MaxSize" "\<forall>i. in_areas (areas sg) i \<or> p \<le> i \<and> i < p + n + 32 \<longrightarrow> received ! i = sent ! i" for received
  proof -
    have "authentic E (cu_key b) (areas sg) p n received" "cipher_of E (cu_key b) p n received = mem_read mem p n"
      "fromArray (mem_read received (p + n + 16) 8) = ?iv"
      using authentic_cong [of "areas sg" p n received sent] r S assms(5,6,8) fromArray_toArray [of ?iv "[]"] by simp_all
    then show ?thesis using decrypt_authentic [OF assms(1,3) r(1) assms(5,6) _ assms(9), of src] by auto
  qed
  with S(1,2) show ?thesis by blast
qed

section \<open>Replayed packets\<close>

text \<open>
  What a station receives: packets with a signature or with encrypted contents, each claimed to be from some station.
  A call that leaves the buffer would end the daemon; such packets are not considered.
\<close>

datatype received =
  Signed NodeId u64 u64 "MemoryBlock list option" "byte list"
  | Encrypted NodeId u64 u64 "MemoryBlock list option" "byte list"

fun check_received :: "block_cipher \<Rightarrow> machine \<Rightarrow> received \<Rightarrow> AesCcmCryptoUnit \<Rightarrow> bool cu_result" where
  "check_received E M (Signed src p n sg mem) cu = verifySignature E M src p n sg (cu, mem)"
| "check_received E M (Encrypted src p n sg mem) cu = decryptDupDetect E M src p n sg (cu, mem)"

fun received_source :: "received \<Rightarrow> NodeId" where
  "received_source (Signed src p n sg mem) = src"
| "received_source (Encrypted src p n sg mem) = src"

text \<open>The nonces of the accepted packets, as they are entered into the map.\<close>

fun accepted_nonces :: "block_cipher \<Rightarrow> machine \<Rightarrow> received list \<Rightarrow> AesCcmCryptoUnit \<Rightarrow> (NodeId \<times> u64) list" where
  "accepted_nonces E M [] cu = []"
| "accepted_nonces E M (r # rs) cu =
     (case check_received E M r cu of
        Inl e \<Rightarrow> []
      | Inr (ok, cu', mem) \<Rightarrow>
          (if ok then [(received_source r, the (om_find (received_source r) (cu_ivMap cu')))] else []) @ accepted_nonces E M rs cu')"

text \<open>A check never lowers an entry of the map; an accepted packet raises that of its source.\<close>

definition iv_grows :: "NodeId \<Rightarrow> bool \<Rightarrow> AesCcmCryptoUnit \<Rightarrow> AesCcmCryptoUnit \<Rightarrow> bool" where
  "iv_grows src ok cu cu' \<longleftrightarrow> om_ok (cu_ivMap cu') \<and>
     (\<forall>i v. om_find i (cu_ivMap cu) = Some v \<longrightarrow> (\<exists>v'. om_find i (cu_ivMap cu') = Some v' \<and> v \<le> v' \<and> (ok \<longrightarrow> i = src \<longrightarrow> v < v'))) \<and>
     (ok \<longrightarrow> om_find src (cu_ivMap cu') \<noteq> None)"

lemma verifyNonce_grows:
  assumes "verifyNonce src p (cu, mem) = Inr (ok, cu', mem')" "om_ok (cu_ivMap cu)"
  shows "iv_grows src ok cu cu'"
  using assms(1) om_insert_ok [OF assms(2)]
  by (auto simp: verifyNonce_def iv_grows_def Let_def om_find_insert om_insert_ok assms(2) split: if_splits option.splits)

lemma iv_grows_weaken: "iv_grows src ok cu cu' \<Longrightarrow> ok' \<longrightarrow> ok \<Longrightarrow> iv_grows src ok' cu cu'"
  unfolding iv_grows_def by meson

lemma crypt_keeps_unit: "crypt E M d p n sg (cu, mem) = Inr (r, cu', mem') \<Longrightarrow> cu' = cu"
  by (auto simp: crypt_def Let_def rbind_Inr_iff)

lemma check_received_grows:
  assumes "check_received E M r cu = Inr (ok, cu', mem)" "om_ok (cu_ivMap cu)"
  shows "iv_grows (received_source r) ok cu cu'"
proof (cases r)
  case (Signed src p n sg m)
  then obtain m1 fresh' where "verifyNonce src (p + n) (cu, m1) = Inr (fresh', cu', mem)" "ok \<longrightarrow> fresh'"
    using assms(1) by (auto simp: verifySignature_def Let_def rbind_Inr_iff)
  from iv_grows_weaken [OF verifyNonce_grows [OF this(1) assms(2)] this(2)] show ?thesis using Signed by simp
next
  case (Encrypted src p n sg m)
  then obtain ret cu1 m1 where c: "crypt E M True p n sg (cu, m) = Inr (ret, cu1, m1)"
    "if ret then verifyNonce src (p + n + 16) (cu1, m1) = Inr (ok, cu', mem) else \<not> ok \<and> cu' = cu1"
    using assms(1) by (auto simp: decryptDupDetect_def decrypt_def Let_def rbind_Inr_iff split: if_splits)
  then show ?thesis
    using verifyNonce_grows [OF _ assms(2)] crypt_keeps_unit [OF c(1)] Encrypted assms(2)
    by (auto simp: iv_grows_def split: if_splits)
qed

lemma accepted_above:
  "om_ok (cu_ivMap cu) \<Longrightarrow> om_find src (cu_ivMap cu) = Some v \<Longrightarrow> (src, iv) \<in> set (accepted_nonces E M rs cu) \<Longrightarrow> v < iv"
proof (induction rs arbitrary: cu v)
  case (Cons r rs)
  obtain ok cu' mem where c: "check_received E M r cu = Inr (ok, cu', mem)"
    using Cons(4) by (cases "check_received E M r cu") auto
  note g = check_received_grows [OF c Cons(2)]
  then obtain v' where v': "om_find src (cu_ivMap cu') = Some v'" "v \<le> v'" "ok \<longrightarrow> src = received_source r \<longrightarrow> v < v'"
    using Cons(3) unfolding iv_grows_def by blast
  consider "ok" "src = received_source r" "iv = v'" | "(src, iv) \<in> set (accepted_nonces E M rs cu')"
    using Cons(4) c v'(1) by (auto split: if_splits)
  then show ?case
  proof cases
    case 2
    then have "v' < iv" using Cons(1) g v'(1) by (auto simp: iv_grows_def)
    with v'(2) show ?thesis by simp
  qed (use v'(3) in simp)
qed simp


section \<open>Short packets\<close>

text \<open>
  If a packet ends before its authentication value is complete, the computed length of the message is negative.  As an
  unsigned number it is larger than what is decrypted, so that the end of the message is never reached.
\<close>

lemma decrypt_unfinished:
  assumes "cipher_ok E" "4 dvd ctx_addr M" "ctx_ok ctx" "ccm_cnt ctx = 0" "len < md_len ctx" "unat len \<le> 16" "p + unat len \<le> length mem"
  shows "\<exists>ctx' ys. CCM_decrypt E M p len (ctx, mem) = Inr (int (unat len), ctx', mem_write mem p ys) \<and> length ys = unat len"
proof -
  let ?r = "stream E False 0 ctx (mem_read mem p (unat len))"
  have "words_ok M p (unat len)" using assms(2,6) by (simp add: words_ok_def)
  from aligned_part_bytes [OF assms(1) this assms(3,7), of False]
  obtain c s where a: "aligned_part E dec_byte (dec_word M) M p (unat len) 0 (ctx, mem) = Inr (c, 0, s)"
    and "byte_loop E dec_byte p (unat len) c 0 s = byte_loop E dec_byte p (unat len) 0 0 (ctx, mem)"
    by (auto simp: ccm_step_def ccm_word_def)
  then have b: "byte_loop E dec_byte p (unat len) c 0 s = Inr (unat len, fst (snd ?r), snd (snd ?r), mem_write mem p (fst ?r))"
    using byte_loop_stream [of 0 p "unat len" mem 0 E False ctx] assms(7) by (simp add: ccm_step_def Let_def)
  have "ccm_cnt (snd (snd ?r)) = 0" "md_len (snd (snd ?r)) = md_len ctx"
    using stream_keeps [of E False 0 ctx "mem_read mem p (unat len)"] assms(4) by simp_all
  moreover have "length (fst ?r) = unat len" using assms(7) by (simp add: length_stream)
  ultimately show ?thesis
    using assms(4,5) a b by (auto simp: CCM_decrypt_def Let_def not_less intro!: exI)
qed

lemma negative_length:
  assumes "1 \<le> k" "k \<le> 16"
  shows "(ucast (- of_nat k :: u64) :: u32) = - of_nat k" "unat (- of_nat k :: u32) = 2 ^ 32 - k"
    "unat (- of_nat k + 16 :: u32) = 16 - k"
proof -
  show "(ucast (- of_nat k :: u64) :: u32) = - of_nat k" by transfer (simp add: take_bit_minus)
  have k: "k \<le> 2 ^ 32" using assms by simp
  have "(- of_nat k :: u32) = of_nat (2 ^ 32 - k)" by (subst of_nat_diff [OF k]) simp
  also have "unat (of_nat (2 ^ 32 - k) :: u32) = 2 ^ 32 - k" using assms by (simp only: unat_of_nat) simp
  finally show "unat (- of_nat k :: u32) = 2 ^ 32 - k" .
  have "(- of_nat k + 16 :: u32) = of_nat (16 - k)" using assms by (simp add: of_nat_diff)
  also have "unat (of_nat (16 - k) :: u32) = 16 - k" using assms by (simp only: unat_of_nat) simp
  finally show "unat (- of_nat k + 16 :: u32) = 16 - k" .
qed

lemma CCM_mode_short:
  assumes "cipher_ok E" "4 dvd ctx_addr M" "1 \<le> k" "k \<le> 16" "np + 11 \<le> length mem" "np + ad_len \<le> length mem" "ad_len < 65280"
    and "p + 16 \<le> length mem"
  shows "\<exists>ys. CCM_mode E M key 16 np np ad_len p (- of_nat k) 16 True mem = Inr (int (16 - k), mem_write mem p ys) \<and> length ys = 16 - k"
proof -
  have n: "unat (- of_nat k :: u32) = 2 ^ 32 - k" "unat (- of_nat k + 16 :: u32) = 16 - k"
    by (rule negative_length [OF assms(3,4)])+
  have s: "nonce_size (- of_nat k) = 11" using assms(3,4) n(1) by (simp add: nonce_size_rfc rfc_q_def)
  let ?c = "call_ctx E key np np ad_len (- of_nat k) 16 mem"
  have "length (mem_read mem np (nonce_size (- of_nat k))) = nonce_size (- of_nat k)" using assms(5) s by simp
  note ctx = init_ctx_ok [OF assms(1) this, of key "mem_read mem np ad_len" 16]
  have "- of_nat k + 16 < md_len ?c" using n assms(3,4) ctx(3) by (simp add: word_less_nat_alt)
  moreover have "p + (16 - k) \<le> length mem" using assms(8) by simp
  ultimately obtain ctx' ys where "CCM_decrypt E M p (- of_nat k + 16) (?c, mem) = Inr (int (16 - k), ctx', mem_write mem p ys)" "length ys = 16 - k"
    using decrypt_unfinished [OF assms(1,2) ctx(1,4), of "- of_nat k + 16" p mem, unfolded n(2)] assms(4,8) by auto
  then show ?thesis using assms(5-7) s by (auto simp: CCM_mode_def CCM_init_def)
qed

lemma short_packet_decrypted:
  assumes "cipher_ok E" "4 dvd ctx_addr M" "length mem = MaxSize" "1 \<le> k" "k \<le> 16" "p + 48 + area_size (areas sg) \<le> MaxSize"
    and "\<forall>(q, n) \<in> set (areas sg). q + n \<le> p" "om_ok (cu_ivMap cu)" "fresh src (fromArray (mem_read mem (p + 16 - k) 8)) cu"
  shows "\<exists>cu' m. decryptDupDetect E M src (of_nat p) (of_nat (p + 32 - k) - 32 - of_nat p) sg (cu, mem) = Inr (True, cu', m) \<and>
    length m = MaxSize \<and> (\<forall>i. i < p \<or> p + 16 - k \<le> i \<and> i < p + 32 - k \<longrightarrow> m ! i = mem ! i)"
proof -
  let ?bs = "areas sg" and ?np = "p + 16 - k"
  let ?dl = "of_nat (p + 32 - k) - 32 - of_nat p :: u64"
  have dl: "?dl = - of_nat k" "of_nat p + ?dl + 16 = of_nat ?np" using assms(5) by (simp_all add: of_nat_diff)
  have len: "length (area_bytes ?bs mem) = area_size ?bs" and c: "copy_areas (?np + 16) ?bs mem =
      Inr (?np + 16 + area_size ?bs, mem_write mem (?np + 16) (area_bytes ?bs mem))"
    using copy_areas_eq [of ?bs "?np + 16" mem] assms(3,5-7) by fastforce+
  define m where "m = mem_write mem (?np + 16) (area_bytes ?bs mem)"
  have m: "length m = MaxSize" "mem_read m ?np 8 = mem_read mem ?np 8"
    using len assms(3,5,6) by (simp_all add: m_def mem_read_write_before)
  obtain ys where ys: "CCM_mode E M (cu_key cu) 16 ?np ?np (16 + area_size ?bs) p (- of_nat k) 16 True m = Inr (int (16 - k), mem_write m p ys)"
    "length ys = 16 - k"
  proof -
    have "?np + 11 \<le> length m" "?np + (16 + area_size ?bs) \<le> length m" "16 + area_size ?bs < 65280" "p + 16 \<le> length m"
      using m(1) assms(4-6) by (auto simp: MaxSize_def)
    from CCM_mode_short [OF assms(1,2,4,5) this, of "cu_key cu"] show thesis using that by auto
  qed
  have u: "unat (of_nat ?np :: u64) = ?np" "unat (of_nat p :: u64) = p" "?np + 16 + area_size ?bs - ?np = 16 + area_size ?bs"
    "unat (of_nat (16 + area_size ?bs) :: u64) = 16 + area_size ?bs"
    using assms(6) unat_small(1) [of ?np] unat_small(1) [of p] unat_small(1) [of "16 + area_size ?bs"] by simp_all
  have "crypt E M True (of_nat p) ?dl sg (cu, mem) = Inr (True, cu, mem_write m p ys)"
    by (simp only: crypt_def ccm_call_def Let_def areas_def [symmetric] prod.case dl(2) u c rbind.simps m_def [symmetric]
        negative_length(1) [OF assms(4,5), folded dl(1)] ys(1) map_sum.simps id_apply) simp
  moreover have r: "fromArray (mem_read mem ?np 8) = (fromArray (mem_read (mem_write m p ys) ?np 8) :: u64)" "length (mem_write m p ys) = MaxSize"
    using ys(2) m assms(5,6) by (simp_all add: mem_read_write_after)
  obtain cu' where "verifyNonce src (of_nat ?np) (cu, mem_write m p ys) = Inr (True, cu', mem_write m p ys)"
  proof -
    have "?np + 8 \<le> length (mem_write m p ys)" using r(2) assms(4-6) by simp
    from verifyNonce_fresh [OF this r(2,1) assms(8), of src] show thesis using assms(9) that by auto
  qed
  moreover have "mem_write m p ys ! i = mem ! i" if "i < p \<or> ?np \<le> i \<and> i < p + 32 - k" for i
    using that ys(2) m(1) len assms(3,5,6) by (auto simp: m_def nth_mem_write)
  ultimately show ?thesis using r(2) unfolding decryptDupDetect_def decrypt_def Let_def dl(2) by auto
qed

text \<open>
  A packet that is too short is accepted without authentication.  If only 16 to 31 bytes follow the header,
  \<open>decryptDupDetect\<close> accepts the packet as soon as the bytes in the place of the nonce are fresh, whatever
  the key and whatever the other bytes.
\<close>

theorem short_packet_accepted:
  assumes "cipher_ok E" "4 dvd ctx_addr M" "length mem = MaxSize" "1 \<le> k" "k \<le> 16" "p + 48 + area_size (areas sg) \<le> MaxSize"
    and "\<forall>(q, n) \<in> set (areas sg). q + n \<le> p" "om_ok (cu_ivMap cu)" "fresh src (fromArray (mem_read mem (p + 16 - k) 8)) cu"
  shows "\<exists>cu' m. decryptDupDetect E M src (of_nat p) (of_nat (p + 32 - k) - 32 - of_nat p) sg (cu, mem) = Inr (True, cu', m)"
  using short_packet_decrypted [OF assms] by blast

section \<open>Concrete instances\<close>

definition example_unit :: AesCcmCryptoUnit where
  "example_unit = \<lparr>cu_key = [1, 2, 3, 4], cu_nonce = replicate 16 7, cu_lastIv = 41, cu_ivMap = []\<rparr>"

lemma example_unit_simps [simp]:
  "cu_ivMap example_unit = []" "length (cu_nonce example_unit) = 16" "cu_lastIv example_unit = 41"
  by (simp_all add: example_unit_def)

lemma example_machine_simps [simp]: "ctx_addr (example_machine w) = 0" "mem_addr (example_machine w) = 0"
  by (simp_all add: example_machine_def)

theorem signed_packet_accepted_witness:
  "\<exists>a signed b. sign example_cipher (example_machine 8) (of_nat 0) (of_nat 20) (Some [(9, 7)]) (example_unit, replicate MaxSize 5) = Inr ((), a, signed) \<and>
    verifySignature example_cipher (example_machine 4) (NodeId 3) (of_nat 0) (of_nat 20) (Some [(9, 7)]) (example_unit, signed[10 := 77]) =
      Inr (True, b, signed[10 := 77])"
proof -
  have p: "length (replicate MaxSize (5 :: byte)) = MaxSize" "0 + 20 + 32 \<le> MaxSize" "areas_ok 0 (0 + 20) (areas (Some [(9, 7)]))"
    "4 dvd ctx_addr (example_machine 8)" "4 dvd ctx_addr (example_machine 4)" "om_ok (cu_ivMap example_unit)"
    by (simp_all add: MaxSize_def areas_def)
  obtain a signed where S: "sign example_cipher (example_machine 8) (of_nat 0) (of_nat 20) (Some [(9, 7)]) (example_unit, replicate MaxSize 5) = Inr ((), a, signed)"
    "length signed = MaxSize"
    "\<And>received. length received = MaxSize \<Longrightarrow>
      (\<forall>i. 0 \<le> i \<longrightarrow> i < 0 + 20 + 32 \<longrightarrow> \<not> in_areas (areas (Some [(9, 7)])) i \<longrightarrow> received ! i = signed ! i) \<Longrightarrow>
      \<exists>b. verifySignature example_cipher (example_machine 4) (NodeId 3) (of_nat 0) (of_nat 20) (Some [(9, 7)]) (example_unit, received) =
        Inr (fresh (NodeId 3) (cu_lastIv example_unit + 1) example_unit, b, received)"
    using signed_packet_accepted [OF example_cipher_ok p(4,5,1,2) example_unit_simps(2) p(3) refl p(6), of "NodeId 3"] by blast
  have "fresh (NodeId 3) (cu_lastIv example_unit + 1) example_unit" by (simp add: fresh_def om_find_def)
  moreover have "\<forall>i. 0 \<le> i \<longrightarrow> i < 0 + 20 + 32 \<longrightarrow> \<not> in_areas (areas (Some [(9, 7)])) i \<longrightarrow> (signed[10 := 77]) ! i = signed ! i"
    by (auto simp: areas_def in_areas_def nth_list_update)
  ultimately obtain b where "verifySignature example_cipher (example_machine 4) (NodeId 3) (of_nat 0) (of_nat 20) (Some [(9, 7)])
      (example_unit, signed[10 := 77]) = Inr (True, b, signed[10 := 77])"
    using S(3) [of "signed[10 := 77]"] S(2) by auto
  with S(1) show ?thesis by blast
qed

theorem encrypted_packet_decrypted_witness:
  "\<exists>a sent b m. encrypt example_cipher (example_machine 8) (of_nat 17) (of_nat 100) (Some [(0, 9), (16, 1)]) (example_unit, replicate MaxSize 5) = Inr ((), a, sent) \<and>
    decryptDupDetect example_cipher (example_machine 8) (NodeId 3) (of_nat 17) (of_nat 100) (Some [(0, 9), (16, 1)]) (example_unit, sent) = Inr (True, b, m) \<and>
    mem_read m 17 100 = replicate 100 5"
proof -
  have p: "words_ok (example_machine 8) 17 100" "length (replicate MaxSize (5 :: byte)) = MaxSize"
    "17 + 100 + 32 + area_size (areas (Some [(0, 9), (16, 1)])) \<le> MaxSize" "\<forall>(q, k) \<in> set (areas (Some [(0, 9), (16, 1)])). q + k \<le> 17"
    "om_ok (cu_ivMap example_unit)"
    by (simp_all add: MaxSize_def areas_def area_size_def words_ok_def)
  have "fresh (NodeId 3) (cu_lastIv example_unit + 1) example_unit" by (simp add: fresh_def om_find_def)
  moreover have "mem_read (replicate MaxSize (5 :: byte)) 17 100 = replicate 100 5" by (simp add: mem_read_def MaxSize_def)
  ultimately show ?thesis
    using encrypted_packet_decrypted [OF example_cipher_ok p(1,1,2,3,4) example_unit_simps(2) refl p(5), of "NodeId 3"] by (auto simp: areas_def)
qed


theorem forged_nonce_silences_station_witness:
  "\<exists>mem cu mem'. verifySignature example_cipher (example_machine 8) (NodeId 3) (of_nat 0) (of_nat 20) None (example_unit, mem) = Inr (False, cu, mem') \<and>
    (\<forall>later. length later = MaxSize \<longrightarrow>
      (\<exists>s. verifySignature example_cipher (example_machine 8) (NodeId 3) (of_nat 1) (of_nat 30) None (cu, later) = Inr (False, s)))"
proof -
  let ?m = "\<lambda>x. mem_write (mem_write (replicate MaxSize 0) (0 + 20) (replicate 8 0xFF)) (0 + 20 + 16) (replicate 16 x) :: byte list"
  let ?sig = "\<lambda>x. signature_of example_cipher (cu_key example_unit) 0 20 (zeroed (areas None) (?m x))"
  have l: "length (?m x) = MaxSize" for x by (simp add: MaxSize_def)
  have "?sig 0 = ?sig 1" by (rule signature_of_cong) (auto simp: MaxSize_def nth_mem_write)
  moreover have "mem_read (?m x) (0 + 20 + 16) 16 = replicate 16 x" for x
    by (rule mem_read_write_same) (simp_all add: MaxSize_def)
  moreover have "replicate 16 (0 :: byte) \<noteq> replicate 16 1" by simp
  ultimately obtain x where x: "mem_read (?m x) (0 + 20 + 16) 16 \<noteq> ?sig x" by metis
  have n: "mem_read (?m x) (0 + 20) 8 = replicate 8 0xFF"
    by (simp add: mem_read_write_before mem_read_write_same MaxSize_def)
  have p: "0 + 20 + 32 \<le> MaxSize" "areas_ok 0 (0 + 20) (areas None)" "4 dvd ctx_addr (example_machine 8)"
    "fresh (NodeId 3) (- 1) example_unit" "om_ok (cu_ivMap example_unit)"
    by (simp_all add: MaxSize_def areas_def fresh_def om_find_def)
  have q: "1 + 30 + 32 \<le> MaxSize" "areas_ok 1 (1 + 30) (areas None)" by (simp_all add: MaxSize_def areas_def)
  from forged_nonce_silences_station [OF example_cipher_ok p(3) l p(1,2) x n p(4,5)] q show ?thesis by blast
qed

theorem short_packet_accepted_witness:
  "\<exists>cu m. decryptDupDetect example_cipher (example_machine 8) (NodeId 3) (of_nat 23) (of_nat (23 + 32 - 10) - 32 - of_nat 23) None
     (example_unit, replicate MaxSize 1) = Inr (True, cu, m)"
proof -
  have "(fromArray (replicate 8 1) :: u64) \<noteq> 0" by code_simp
  moreover have "mem_read (replicate MaxSize (1 :: byte)) (23 + 16 - 10) 8 = replicate 8 1" by (simp add: mem_read_def MaxSize_def)
  ultimately have "fresh (NodeId 3) (fromArray (mem_read (replicate MaxSize 1) (23 + 16 - 10) 8)) example_unit"
    by (simp add: fresh_def om_find_def)
  then show ?thesis
    by (intro short_packet_accepted [OF example_cipher_ok]) (simp_all add: MaxSize_def areas_def area_size_def)
qed

end
