(* ===== verification/Src_Filter.thy ===== *)
theory Src_Filter
  imports Routing_Properties Topo_Text
begin

text \<open>
  The firewall that filters by the station a packet comes from (\<open>src/src/SrcFilter.cc\<close>,
  \<open>src/src/awds/SrcFilter.h\<close>, \<open>src/src/awds/Firewall.h\<close>): the rules, the parser of the options that add rules, and
  the shell command.  The arguments of a command are a list of strings; the pointer behind them is null.
\<close>

section \<open>Rules\<close>

record SrcFilter =
  sf_rules :: "(NodeId, bool) omap"
  sf_default_policy :: bool

datatype sf_error = NullArgument

definition SrcFilter_new :: SrcFilter where
  "SrcFilter_new = \<lparr>sf_rules = [], sf_default_policy = True\<rparr>"

definition sf_lookup :: "SrcFilter \<Rightarrow> NodeId \<Rightarrow> bool" where
  "sf_lookup f src = (case om_find src (sf_rules f) of Some b \<Rightarrow> b | None \<Rightarrow> sf_default_policy f)"

definition check_packet :: "SrcFilter \<Rightarrow> BasePacket \<Rightarrow> bool" where
  "check_packet f p =
     (case getType p of
        PacketTypeFlood \<Rightarrow> sf_lookup f (getLastHop (Flood p))
      | PacketTypeBeacon \<Rightarrow> sf_lookup f (getSrc p)
      | PacketTypeUnicast \<Rightarrow> True
      | PacketTypeForward \<Rightarrow> True)"

text \<open>One rule, the argument that follows \<open>--rule\<close>: the filter, the output, and whether the rule is an error.\<close>

datatype rule_result = RuleAdded | RuleSkipped | RuleSyntax

definition syntax_message :: "string \<Rightarrow> string" where
  "syntax_message r =
     ''syntax error: '' @ [char_of (39 :: nat)] @ r @ [char_of (39 :: nat)] @ '' should be '' @ [char_of (39 :: nat)] @
     ''--rule +host'' @ [char_of (39 :: nat)] @ '' or '' @ [char_of (39 :: nat)] @ ''--rule -host'' @ [char_of (39 :: nat)] @ endl"

definition unknown_message :: "string \<Rightarrow> string" where
  "unknown_message r = ''cannot find a matching node name for rule '' @ [char_of (39 :: nat)] @ r @ [char_of (39 :: nat)] @ endl"

definition add_rule :: "RTopology \<Rightarrow> string \<Rightarrow> SrcFilter \<Rightarrow> rule_result \<times> SrcFilter \<times> string" where
  "add_rule t r f =
     (if r = [] \<or> hd r \<notin> {CHR ''+'', CHR ''-''} then (RuleSyntax, f, syntax_message r)
      else let accept = (hd r = CHR ''+'') in
        if tl r = ''default'' then (RuleSkipped, f\<lparr>sf_default_policy := accept\<rparr>, [])
        else case getNodeByName (tl r) t of
            None \<Rightarrow> (RuleSkipped, f, unknown_message r)
          | Some i \<Rightarrow> (RuleAdded, f\<lparr>sf_rules := om_insert i accept (sf_rules f)\<rparr>, []))"

text \<open>
  The loop over the arguments.  After a rule for the default policy or an unknown station the loop goes on with
  the argument of the rule itself, since \<open>continue\<close> skips the increment.
\<close>

function addRules_loop :: "RTopology \<Rightarrow> string list \<Rightarrow> nat \<Rightarrow> SrcFilter \<Rightarrow> string \<Rightarrow> sf_error + (int \<times> SrcFilter \<times> string)" where
  "addRules_loop t argv idx f out =
     (if idx < length argv then
        if argv ! idx = ''--rule'' \<and> idx + 1 \<le> length argv then
          if idx + 1 = length argv then Inl NullArgument
          else (case add_rule t (argv ! (idx + 1)) f of
              (RuleSyntax, f', s) \<Rightarrow> Inr (1, f', out @ s)
            | (RuleSkipped, f', s) \<Rightarrow> addRules_loop t argv (idx + 1) f' (out @ s)
            | (RuleAdded, f', s) \<Rightarrow> addRules_loop t argv (idx + 2) f' (out @ s))
        else addRules_loop t argv (idx + 1) f out
      else Inr (0, f, out))"
  by pat_completeness auto
termination by (relation "measure (\<lambda>(t, argv, idx, f, out). length argv - idx)") auto

declare addRules_loop.simps [simp del]

definition addRules :: "RTopology \<Rightarrow> string list \<Rightarrow> SrcFilter \<Rightarrow> sf_error + (int \<times> SrcFilter \<times> string)" where
  "addRules t argv f = addRules_loop t argv 1 f []"

definition dumpRules :: "SrcFilter \<Rightarrow> string" where
  "dumpRules f =
     (if sf_default_policy f then ''+'' else ''-'') @ ''default'' @ endl @
     concat (map (\<lambda>(i, b). (if b then ''+'' else ''-'') @ NodeId_print i @ endl) (sf_rules f))"

definition cmd_filter :: "string \<Rightarrow> RTopology \<Rightarrow> string list \<Rightarrow> SrcFilter \<Rightarrow> sf_error + (int \<times> SrcFilter \<times> string)" where
  "cmd_filter help_text t argv f =
     (if length argv > 1 then
        if argv ! 1 = ''show'' then Inr (0, f, dumpRules f)
        else addRules t (tl argv) f
      else Inr (0, f, help_text @ endl))"

section \<open>Firewalls\<close>

text \<open>
  What the daemon relies on of a firewall: it decides by the station a beacon or flood packet was received
  from, and it lets every other packet pass.
\<close>

definition received_from :: "BasePacket \<Rightarrow> NodeId" where
  "received_from p = (if getType p = PacketTypeFlood then getLastHop p else getSrc p)"

definition filterable :: "BasePacket \<Rightarrow> bool" where
  "filterable p \<longleftrightarrow> getType p \<in> {PacketTypeBeacon, PacketTypeFlood}"

locale station_firewall =
  fixes check :: "BasePacket \<Rightarrow> bool" and trusted :: "NodeId \<Rightarrow> bool"
  assumes decides: "pkt_ok p \<Longrightarrow> filterable p \<Longrightarrow> check p \<longleftrightarrow> trusted (received_from p)"
    and passes: "pkt_ok p \<Longrightarrow> \<not> filterable p \<Longrightarrow> check p"
begin

lemma blocked_packet_ignored:
  assumes "re_firewall env = Some check" "pkt_ok p" "filterable p" "\<not> trusted (received_from p)"
  shows "recv_packet env pid p r = oreturn r"
  using assms decides by (simp add: recv_packet_def)

lemma trusted_packet_unfiltered:
  assumes "re_firewall env = Some check" "pkt_ok p" "filterable p \<longrightarrow> trusted (received_from p)"
  shows "recv_packet env pid p r =
    (if getSrc p = rt_myNodeId r then oreturn r
     else case getType p of
         PacketTypeBeacon \<Rightarrow> recv_beacon env pid p r
       | PacketTypeFlood \<Rightarrow> obind (recv_flood env p r) (\<lambda>(_, r). oreturn r)
       | PacketTypeUnicast \<Rightarrow> obind (recv_unicast env p r) (\<lambda>(_, r). oreturn r)
       | PacketTypeForward \<Rightarrow> obind (sendFlowPacket env p r) (\<lambda>(_, _, r). oreturn r))"
proof -
  have "check p" using assms decides passes by blast
  with assms(1) show ?thesis by (simp add: recv_packet_def)
qed

end

lemma Flood_same_type:
  assumes "pkt_ok p" "getType p = PacketTypeFlood"
  shows "getLastHop (Flood p) = getLastHop p"
  by (simp add: Flood_def setType_def getLastHop_def mem_read_def offset_defs drop_update_cancel take_update_cancel)

interpretation src_filter: station_firewall "check_packet f" "sf_lookup f" for f
proof
  fix p assume "pkt_ok p"
  then show "filterable p \<Longrightarrow> check_packet f p \<longleftrightarrow> sf_lookup f (received_from p)" "\<not> filterable p \<Longrightarrow> check_packet f p"
    using Flood_same_type [of p] by (auto simp: filterable_def check_packet_def received_from_def split: PacketType.split)
qed

section \<open>What rules mean\<close>

text \<open>A rule is a sign and a name; the arguments that stand for a list of rules.\<close>

definition rule_args :: "(bool \<times> string) list \<Rightarrow> string list" where
  "rule_args rs = concat (map (\<lambda>(b, h). [''--rule'', (if b then CHR ''+'' else CHR ''-'') # h]) rs)"

definition rules_for :: "RTopology \<Rightarrow> NodeId \<Rightarrow> (bool \<times> string) list \<Rightarrow> (bool \<times> string) list" where
  "rules_for t i rs = filter (\<lambda>(b, h). h \<noteq> ''default'' \<and> getNodeByName h t = Some i) rs"

definition default_rules :: "(bool \<times> string) list \<Rightarrow> (bool \<times> string) list" where
  "default_rules rs = filter (\<lambda>(b, h). h = ''default'') rs"

text \<open>The last rule for the station decides, otherwise the last rule for the default policy, otherwise packets are accepted.\<close>

definition verdict :: "RTopology \<Rightarrow> (bool \<times> string) list \<Rightarrow> NodeId \<Rightarrow> bool" where
  "verdict t rs i =
     (if rules_for t i rs \<noteq> [] then fst (last (rules_for t i rs))
      else if default_rules rs \<noteq> [] then fst (last (default_rules rs)) else True)"

definition rule_known :: "RTopology \<Rightarrow> bool \<times> string \<Rightarrow> bool" where
  "rule_known t r \<longleftrightarrow> snd r = ''default'' \<or> getNodeByName (snd r) t \<noteq> None"

text \<open>What one rule does to the filter.\<close>

definition apply_rule :: "RTopology \<Rightarrow> bool \<times> string \<Rightarrow> SrcFilter \<Rightarrow> SrcFilter" where
  "apply_rule t r f =
     (if snd r = ''default'' then f\<lparr>sf_default_policy := fst r\<rparr>
      else case getNodeByName (snd r) t of None \<Rightarrow> f | Some i \<Rightarrow> f\<lparr>sf_rules := om_insert i (fst r) (sf_rules f)\<rparr>)"

lemma add_rule_known:
  assumes "rule_known t (b, h)"
  shows "add_rule t ((if b then CHR ''+'' else CHR ''-'') # h) f =
    (if h = ''default'' then RuleSkipped else RuleAdded, apply_rule t (b, h) f, [])"
  using assms by (auto simp: add_rule_def apply_rule_def rule_known_def)

lemma addRules_loop_end: "addRules_loop t argv (length argv) f out = Inr (0, f, out)"
  by (simp add: addRules_loop.simps)

lemma addRules_loop_skip:
  "''--rule'' \<noteq> x \<Longrightarrow> addRules_loop t (pre @ x # xs) (length pre) f out = addRules_loop t ((pre @ [x]) @ xs) (length (pre @ [x])) f out"
  by (subst addRules_loop.simps) (simp add: nth_append)

lemma addRules_loop_rule:
  assumes "rule_known t (b, h)"
  shows "addRules_loop t (pre @ rule_args ((b, h) # rs)) (length pre) f out =
    addRules_loop t ((pre @ rule_args [(b, h)]) @ rule_args rs) (length (pre @ rule_args [(b, h)])) (apply_rule t (b, h) f) out"
proof -
  let ?r = "(if b then CHR ''+'' else CHR ''-'') # h"
  have "addRules_loop t (pre @ rule_args ((b, h) # rs)) (length pre) f out =
      (if h = ''default'' then addRules_loop t (pre @ ''--rule'' # ?r # rule_args rs) (length pre + 1) (apply_rule t (b, h) f) out
       else addRules_loop t (pre @ ''--rule'' # ?r # rule_args rs) (length pre + 2) (apply_rule t (b, h) f) out)"
    using add_rule_known [OF assms, of f] by (subst addRules_loop.simps) (simp add: rule_args_def nth_append)
  moreover have "addRules_loop t (pre @ ''--rule'' # ?r # rule_args rs) (length pre + 1) g out =
      addRules_loop t (pre @ ''--rule'' # ?r # rule_args rs) (length pre + 2) g out" if "h = ''default''" for g
    using addRules_loop_skip [of ?r t "pre @ [''--rule'']" "rule_args rs" g out] that by simp
  ultimately show ?thesis by (simp add: rule_args_def)
qed

lemma addRules_loop_rules:
  "\<forall>r \<in> set rs. rule_known t r \<Longrightarrow>
     addRules_loop t (pre @ rule_args rs) (length pre) f out = Inr (0, fold (apply_rule t) rs f, out)"
proof (induction rs arbitrary: pre f)
  case Nil
  show ?case using addRules_loop_end [of t pre f out] by (simp add: rule_args_def)
next
  case (Cons r rs)
  obtain b h where r: "r = (b, h)" by (cases r)
  with Cons.prems have k: "rule_known t (b, h)" "\<forall>r \<in> set rs. rule_known t r" by simp_all
  show ?case unfolding r addRules_loop_rule [OF k(1)] Cons.IH [OF k(2)] by simp
qed

lemma sf_lookup_fold:
  assumes "om_ok (sf_rules f)"
  shows "sf_lookup (fold (apply_rule t) rs f) i =
    (if rules_for t i rs \<noteq> [] then fst (last (rules_for t i rs))
     else case om_find i (sf_rules f) of Some b \<Rightarrow> b
       | None \<Rightarrow> if default_rules rs \<noteq> [] then fst (last (default_rules rs)) else sf_default_policy f)"
  using assms
proof (induction rs arbitrary: f)
  case (Cons r rs)
  have "om_ok (sf_rules (apply_rule t r f))"
    using Cons.prems by (auto simp: apply_rule_def om_insert_ok split: option.split)
  moreover have "om_find i (sf_rules (apply_rule t r f)) =
      (if rules_for t i [r] \<noteq> [] then Some (fst r) else om_find i (sf_rules f))"
    using Cons.prems by (cases r) (auto simp: apply_rule_def rules_for_def om_find_insert split: option.split)
  moreover have "sf_default_policy (apply_rule t r f) = (if default_rules [r] \<noteq> [] then fst r else sf_default_policy f)"
    by (cases r) (auto simp: apply_rule_def default_rules_def split: option.split)
  ultimately show ?case
    using Cons.IH [of "apply_rule t r f"]
    by (cases r) (auto simp: rules_for_def default_rules_def split: option.split if_splits)
qed (simp add: rules_for_def default_rules_def sf_lookup_def)

lemma new_filter_verdict: "sf_lookup (fold (apply_rule t) rs SrcFilter_new) i = verdict t rs i"
  by (subst sf_lookup_fold) (simp_all add: SrcFilter_new_def verdict_def om_find_def)

lemma recv_packet_without_firewall:
  "recv_packet (env\<lparr>re_firewall := None\<rparr>) pid p r =
    (if getSrc p = rt_myNodeId r then oreturn r
     else case getType p of
         PacketTypeBeacon \<Rightarrow> recv_beacon env pid p r
       | PacketTypeFlood \<Rightarrow> obind (recv_flood env p r) (\<lambda>(_, r). oreturn r)
       | PacketTypeUnicast \<Rightarrow> obind (recv_unicast env p r) (\<lambda>(_, r). oreturn r)
       | PacketTypeForward \<Rightarrow> obind (sendFlowPacket env p r) (\<lambda>(_, _, r). oreturn r))"
proof -
  let ?e = "env\<lparr>re_firewall := None\<rparr>"
  have e: "re_topo ?e = re_topo env" "re_crypto ?e = re_crypto env" "re_call ?e = re_call env" "re_send ?e = re_send env"
    "re_firewall ?e = None" by simp_all
  have d: "deliver ?e x = deliver env x" for x :: "(nat \<times> nat) option"
    by (intro ext) (simp only: deliver_def e)
  have u: "update_neigh ?e = update_neigh env" by (intro ext) (simp only: update_neigh_def e cong: prod.case_cong option.case_cong)
  have n: "refreshNeigh ?e = refreshNeigh env" by (intro ext) (simp only: refreshNeigh_def u)
  have c: "flood_contents ?e = flood_contents env" by (intro ext) (simp only: flood_contents_def e d)
  have f: "flood_repeat ?e = flood_repeat env" by (intro ext) (simp only: flood_repeat_def)
  have b: "recv_beacon ?e = recv_beacon env" by (intro ext) (simp only: recv_beacon_def e n)
  have fl: "recv_flood ?e = recv_flood env" by (intro ext) (simp only: recv_flood_def c f)
  have uc: "recv_unicast ?e = recv_unicast env" by (intro ext) (simp only: recv_unicast_def e d)
  have fw: "sendFlowPacket ?e = sendFlowPacket env" by (intro ext) (simp only: sendFlowPacket_def e d)
  show ?thesis by (simp add: recv_packet_def b fl uc fw split: PacketType.split)
qed

text \<open>
  Property C18: the firewall enforces its rules.  When the filter has been given a list of rules whose names are known, without
  any complaint, a beacon or flood packet from a station whose last rule (or, if it has none, the last rule for the
  default policy) is to block leaves the state of the daemon unchanged, and any other packet is handled as it
  is without a firewall.
\<close>

theorem srcfilter_enforces_rules:
  assumes "\<forall>r \<in> set rs. rule_known t r" "pkt_ok p" "re_firewall env = Some (check_packet f)"
    "addRules t (prog # rule_args rs) SrcFilter_new = Inr (ret, f, out)"
  shows "ret = 0 \<and> out = [] \<and>
    recv_packet env pid p r =
      (if filterable p \<and> \<not> verdict t rs (received_from p) then oreturn r
       else recv_packet (env\<lparr>re_firewall := None\<rparr>) pid p r)"
proof -
  have f: "ret = 0" "out = []" "f = fold (apply_rule t) rs SrcFilter_new"
    using assms(4) addRules_loop_rules [OF assms(1), of "[prog]" SrcFilter_new "[]"] by (simp_all add: addRules_def)
  have v: "sf_lookup f i = verdict t rs i" for i unfolding f(3) by (rule new_filter_verdict)
  show ?thesis
  proof (cases "filterable p \<and> \<not> verdict t rs (received_from p)")
    case True
    then show ?thesis using f(1,2) src_filter.blocked_packet_ignored [OF assms(3,2)] by (simp add: v)
  next
    case False
    then have "filterable p \<longrightarrow> sf_lookup f (received_from p)" by (simp add: v)
    from src_filter.trusted_packet_unfiltered [OF assms(3,2) this] f(1,2) show ?thesis
      unfolding if_not_P [OF False] by (simp add: recv_packet_without_firewall)
  qed
qed

lemma addRules_loop_no_rule:
  "''--rule'' \<notin> set xs \<Longrightarrow> addRules_loop t (pre @ xs) (length pre) f out = Inr (0, f, out)"
proof (induction xs arbitrary: pre)
  case Nil
  show ?case using addRules_loop_end [of t pre f out] by simp
next
  case (Cons x xs)
  then show ?case using addRules_loop_skip [of x t pre xs f out] Cons.IH [of "pre @ [x]"] by simp
qed

text \<open>
  The shell command of the firewall does not add the rules it is given.  In the documented syntax, a list of
  signed names, and also in the syntax of the command line with one rule, the command reports success, prints nothing and
  changes nothing; a final \<open>--rule\<close> reads the null pointer behind the arguments.
\<close>

theorem srcfilter_command_has_no_effect:
  assumes "x \<noteq> ''show''" "''--rule'' \<notin> set xs"
  shows "cmd_filter h t (c # x # xs) f = Inr (0, f, []) \<and> cmd_filter h t (c # x # xs @ [''--rule'']) f = Inl NullArgument"
proof -
  have "addRules_loop t (pre @ ys @ [''--rule'']) (length pre) f out = Inl NullArgument" if "''--rule'' \<notin> set ys" for pre ys out
    using that
  proof (induction ys arbitrary: pre)
    case Nil
    show ?case by (subst addRules_loop.simps) simp
  next
    case (Cons y ys)
    then show ?case
      using addRules_loop_skip [of y t pre "ys @ [''--rule'']" f out] Cons.IH [of "pre @ [y]"] by simp
  qed
  from this [OF assms(2), of "[x]" "[]"] show ?thesis
    using assms addRules_loop_no_rule [OF assms(2), of t "[x]" f "[]"] by (simp add: cmd_filter_def addRules_def)
qed

section \<open>Concrete instances\<close>

definition example_rules :: "(bool \<times> string) list" where
  "example_rules = [(False, ''default''), (True, ''00000000000A''), (True, ''00000000000B''), (False, ''00000000000A'')]"

text \<open>A flood packet received from the station with the given number.\<close>

definition example_flood :: "u64 \<Rightarrow> BasePacket" where
  "example_flood i = setLastHop (NodeId i) (Flood new_BasePacket)"

lemma example_rules_known: "\<forall>r \<in> set example_rules. rule_known example_new r"
  by code_simp

lemma example_verdict:
  "verdict example_new example_rules (NodeId 10) = False" "verdict example_new example_rules (NodeId 11) = True"
  "verdict example_new example_rules (NodeId 12) = False"
  by code_simp+

lemma example_flood_from: "filterable (example_flood 12)" "received_from (example_flood 12) = NodeId 12" "pkt_ok (example_flood 12)"
proof -
  show "pkt_ok (example_flood 12)" by (simp add: example_flood_def pkt_ok_def Flood_def setType_def setLastHop_def new_BasePacket_def offset_defs MaxSize_def)
  show "filterable (example_flood 12)" "received_from (example_flood 12) = NodeId 12" by code_simp+
qed

theorem srcfilter_enforces_rules_witness:
  "\<exists>f. addRules example_new (''srcfilter'' # rule_args example_rules) SrcFilter_new = Inr (0, f, []) \<and>
    recv_packet (example_renv\<lparr>re_firewall := Some (check_packet f)\<rparr>) 3 (example_flood 12) example_routing = oreturn example_routing"
proof -
  let ?f = "fold (apply_rule example_new) example_rules SrcFilter_new"
  have a: "addRules example_new (''srcfilter'' # rule_args example_rules) SrcFilter_new = Inr (0, ?f, [])"
    using addRules_loop_rules [OF example_rules_known, of "[''srcfilter'']" SrcFilter_new "[]"] by (simp add: addRules_def)
  have "re_firewall (example_renv\<lparr>re_firewall := Some (check_packet ?f)\<rparr>) = Some (check_packet ?f)" by simp
  from srcfilter_enforces_rules [OF example_rules_known example_flood_from(3) this a, of 3 example_routing] a show ?thesis
    by (auto simp: example_flood_from example_verdict)
qed

theorem srcfilter_command_has_no_effect_witness:
  "cmd_filter ''usage'' example_new [''srcfilter'', ''--rule'', ''-00000000000A''] SrcFilter_new = Inr (0, SrcFilter_new, []) \<and>
   cmd_filter ''usage'' example_new [''srcfilter'', ''-default'', ''-00000000000A''] SrcFilter_new = Inr (0, SrcFilter_new, [])"
  using srcfilter_command_has_no_effect [of "''--rule''" "[''-00000000000A'']" "''usage''" example_new "''srcfilter''" SrcFilter_new]
    srcfilter_command_has_no_effect [of "''-default''" "[''-00000000000A'']" "''usage''" example_new "''srcfilter''" SrcFilter_new]
  by simp

end
