(* ===== verification/Topo_Lock.thy ===== *)
theory Topo_Lock
  imports Routing_Properties
begin

text \<open>
  Remote locking of topologies (\<open>src/src/TopoLock.cc\<close>): a shell command floods a packet with one byte that tells
  every station to lock, unlock or reset its topology.  The clock that \<open>reset\<close> reads is an argument.
\<close>

section \<open>The protocol\<close>

definition PACKET_TYPE_BC_TOPO_LOCK :: int where "PACKET_TYPE_BC_TOPO_LOCK = 100"

datatype TopoLockCmd = TopoLockCmd_Lock | TopoLockCmd_Unlock | TopoLockCmd_Reset

fun TopoLockCmd_val :: "TopoLockCmd \<Rightarrow> byte" where
  "TopoLockCmd_val TopoLockCmd_Lock = 0"
| "TopoLockCmd_val TopoLockCmd_Unlock = 1"
| "TopoLockCmd_val TopoLockCmd_Reset = 2"

definition topolock_recv :: "topo_env \<Rightarrow> int \<Rightarrow> BasePacket \<Rightarrow> AwdsRouting \<Rightarrow> AwdsRouting rt_result" where
  "topolock_recv env now p r =
     (let cmd = buffer p ! FloodHeaderEnd; t = rt_topology r in
      if cmd = TopoLockCmd_val TopoLockCmd_Lock then oreturn (r\<lparr>rt_topology := setLocked True t\<rparr>)
      else if cmd = TopoLockCmd_val TopoLockCmd_Unlock then oreturn (r\<lparr>rt_topology := setLocked False t\<rparr>)
      else if cmd = TopoLockCmd_val TopoLockCmd_Reset
      then obind (lift_topo (Some (topo_reset env now t))) (\<lambda>t. oreturn (r\<lparr>rt_topology := setLocked False t\<rparr>))
      else oreturn r)"

definition TopoLock_new :: "nat \<Rightarrow> nat \<Rightarrow> AwdsRouting \<Rightarrow> AwdsRouting" where
  "TopoLock_new cb d r = registerBroadcastProtocol PACKET_TYPE_BC_TOPO_LOCK cb d r"

text \<open>The shell command.  The packet is allocated first, and it is not released when the usage is printed.\<close>

definition topolock_cmd :: "string list \<Rightarrow> TopoLockCmd option" where
  "topolock_cmd argv =
     (if length argv \<ge> 2 \<and> argv ! 1 = ''lock'' then Some TopoLockCmd_Lock
      else if length argv \<ge> 2 \<and> argv ! 1 = ''unlock'' then Some TopoLockCmd_Unlock
      else if length argv \<ge> 2 \<and> argv ! 1 = ''reset'' then Some TopoLockCmd_Reset
      else None)"

definition topolock_command ::
  "routing_env \<Rightarrow> string \<Rightarrow> string list \<Rightarrow> AwdsRouting \<Rightarrow> (int \<times> AwdsRouting \<times> string) rt_result" where
  "topolock_command env usage argv r =
     (let (pid, p, r) = newFloodPacket PACKET_TYPE_BC_TOPO_LOCK r; p = Flood p in
      case topolock_cmd argv of
        None \<Rightarrow> oreturn (0, r, usage)
      | Some cmd \<Rightarrow>
          let p = p\<lparr>buffer := (buffer p)[FloodHeaderEnd := TopoLockCmd_val cmd], psize := FloodHeaderEnd + 1\<rparr>
          in obind (sendBroadcast env p r) (\<lambda>(_, r). obind (rt_unref pid r) (\<lambda>r. oreturn (0, r, []))))"

section \<open>Flooding\<close>

text \<open>The function registered for the protocol, as the daemon calls it.\<close>

definition calls_topolock :: "routing_env \<Rightarrow> int \<Rightarrow> nat \<Rightarrow> nat \<Rightarrow> bool" where
  "calls_topolock env now cb d \<longleftrightarrow>
     (\<forall>p r r'. topolock_recv (re_topo env) now p r = oreturn r' \<longrightarrow> re_call env cb d (p, r) = (p, r'))"

text \<open>A station that has not seen the packet yet and whose neighbors' beacons can be searched.\<close>

definition awaits_flood :: "nat \<Rightarrow> nat \<Rightarrow> BasePacket \<Rightarrow> AwdsRouting \<Rightarrow> bool" where
  "awaits_flood cb d p r \<longleftrightarrow>
     neigh_inv r \<and> \<not> FloodHistory_contains (rt_floodHistory r) (getSrc p) (getSeq p) \<and>
     om_find PACKET_TYPE_BC_TOPO_LOCK (rt_broadcastRegister r) = Some (cb, d) \<and>
     (\<forall>n \<in> set (rt_neigh r). \<forall>b. nd_id n = getLastHop p \<and> nd_lastBeacon n = Some b \<longrightarrow>
        (\<exists>v. hasNoMpr (Beacon b) (rt_myNodeId r) = Some (Some v)))"

lemma neigh_inv_topology [simp]:
  "neigh_inv (r\<lparr>rt_topology := t\<rparr>) = neigh_inv r" "rt_neigh (r\<lparr>rt_topology := t\<rparr>) = rt_neigh r"
  by (simp_all add: neigh_inv_def neigh_ids_def used_def rt_neigh_def)

lemma flood_repeat_returns:
  assumes inv: "neigh_inv r"
    and mpr: "\<forall>n \<in> set (rt_neigh r). \<forall>b. nd_id n = getLastHop p \<and> nd_lastBeacon n = Some b \<longrightarrow>
      (\<exists>v. hasNoMpr (Beacon b) (rt_myNodeId r) = Some (Some v))"
  shows "\<exists>x r'. flood_repeat env p r = oreturn (x, r') \<and> rt_topology r' = rt_topology r"
proof -
  note I = neigh_invD [OF inv]
  obtain res where res: "findNeigh (getLastHop p) r = oreturn res" "found_at (rt_neighbors r) (rt_numNeigh r) (getLastHop p) res"
    using findNeigh_finds [OF inv] by blast
  have "\<exists>v. (if res \<ge> 0 then (case nd_lastBeacon (snd (rt_neighbors r ! nat res)) of None \<Rightarrow> ofail RtNullPointer
      | Some b \<Rightarrow> lift_search (hasNoMpr (Beacon b) (rt_myNodeId r))) else oreturn False) = oreturn v"
  proof (cases "res \<ge> 0")
    case True
    then have k: "nat res < rt_numNeigh r" "nd_id (snd (used r ! nat res)) = getLastHop p" "rt_neighbors r ! nat res = used r ! nat res"
      using res(2) I(8) by (auto simp: found_at_def)
    then have mem: "used r ! nat res \<in> set (used r)" using I(3) by simp
    then obtain b where b: "nd_lastBeacon (snd (used r ! nat res)) = Some b" using I(5) by (auto simp: list_all_iff entry_ok_def)
    then obtain v where "hasNoMpr (Beacon b) (rt_myNodeId r) = Some (Some v)" using mpr mem k(2) by (auto simp: rt_neigh_used)
    then show ?thesis using True k(3) b by (simp add: lift_search_def)
  qed auto
  then show ?thesis using res(1) by (auto simp: flood_repeat_def Let_def rt_emit_def)
qed

text \<open>A packet that has not been seen is given to the receiver, which obeys it, and then repeated.\<close>

definition lock_cmd :: "bool \<Rightarrow> TopoLockCmd" where
  "lock_cmd b = (if b then TopoLockCmd_Lock else TopoLockCmd_Unlock)"

definition lock_packet :: "bool \<Rightarrow> BasePacket \<Rightarrow> bool" where
  "lock_packet b p \<longleftrightarrow> getFloodType p = PACKET_TYPE_BC_TOPO_LOCK \<and> buffer p ! FloodHeaderEnd = TopoLockCmd_val (lock_cmd b)"

lemma lock_packet_delivered:
  assumes "awaits_flood cb d p r" "calls_topolock env now cb d" "1 \<le> Flood_getTTL p" "lock_packet b p"
  obtains r2 where "recv_flood env p r = flood_repeat env (Flood p) r2" "neigh_inv r2" "rt_neigh r2 = rt_neigh r"
    "rt_myNodeId r2 = rt_myNodeId r" "rt_topology r2 = setLocked b (rt_topology r)" "rt_refs r2 = rt_refs r"
proof -
  define r1 where "r1 = rt_emit (Deliver cb d (Flood p)) (r\<lparr>rt_floodHistory := FloodHistory_insert (getSrc p) (getSeq p) (rt_floodHistory r)\<rparr>)"
  let ?r2 = "r1\<lparr>rt_topology := setLocked b (rt_topology r)\<rparr>"
  have r1: "rt_topology r1 = rt_topology r" "rt_myNodeId r1 = rt_myNodeId r" "rt_refs r1 = rt_refs r" by (simp_all add: r1_def rt_emit_def)
  have "topolock_recv (re_topo env) now (Flood p) r1 = oreturn ?r2"
    using assms(4) r1(1) by (cases b) (simp_all add: topolock_recv_def Let_def Flood_def offset_defs lock_packet_def lock_cmd_def)
  then have call: "re_call env cb d (Flood p, r1) = (Flood p, ?r2)" using assms(2) by (simp add: calls_topolock_def)
  have "flood_contents env (Flood p) (r\<lparr>rt_floodHistory := FloodHistory_insert (getSrc p) (getSeq p) (rt_floodHistory r)\<rparr>) =
      oreturn (Some (Flood p, ?r2))"
    using assms(1,4) call
    by (simp add: flood_contents_def deliver_def awaits_flood_def r1_def lock_packet_def PACKET_TYPE_BC_TOPO_LOCK_def)
  then have "recv_flood env p r = flood_repeat env (Flood p) ?r2"
    using assms(1,3) by (simp add: recv_flood_def Let_def awaits_flood_def)
  moreover have "neigh_inv ?r2" "rt_neigh ?r2 = rt_neigh r" using assms(1) by (simp_all add: r1_def awaits_flood_def)
  ultimately show thesis using that [of ?r2] r1 by simp
qed

lemma lock_packet_obeyed:
  assumes "awaits_flood cb d p r" "calls_topolock env now cb d" "1 \<le> Flood_getTTL p" "lock_packet b p"
  shows "\<exists>x r'. recv_flood env p r = oreturn (x, r') \<and> rt_topology r' = setLocked b (rt_topology r)"
proof -
  obtain r2 where r2: "recv_flood env p r = flood_repeat env (Flood p) r2" "neigh_inv r2" "rt_neigh r2 = rt_neigh r"
    "rt_myNodeId r2 = rt_myNodeId r" "rt_topology r2 = setLocked b (rt_topology r)"
    by (rule lock_packet_delivered [OF assms])
  then show ?thesis using flood_repeat_returns [OF r2(2), of "Flood p" env] assms(1) by (auto simp: awaits_flood_def)
qed

text \<open>The packet the command makes.\<close>

lemma command_packet:
  assumes "NodeId_ok (rt_myNodeId r)" "newFloodPacket PACKET_TYPE_BC_TOPO_LOCK r = (pid, p, r1)"
    and "q = (Flood p)\<lparr>buffer := (buffer (Flood p))[FloodHeaderEnd := TopoLockCmd_val cmd], psize := n\<rparr>"
  shows "pkt_ok q" "getSrc q = rt_myNodeId r" "getSeq q = rt_floodSeq r" "getLastHop q = rt_myNodeId r"
    "Flood_getTTL q = 32" "getFloodType q = PACKET_TYPE_BC_TOPO_LOCK" "buffer q ! FloodHeaderEnd = TopoLockCmd_val cmd"
    "pid = rt_next_packet r" "r1 = r\<lparr>rt_refs := (rt_refs r)(pid := 1), rt_next_packet := pid + 1, rt_floodSeq := rt_floodSeq r + 1\<rparr>"
proof -
  have ok: "pkt_ok new_BasePacket" "ubyte_ok 32" "sbyte_ok 100" by (simp_all add: example_pkt(1) ubyte_ok_def sbyte_ok_def)
  define p0 where "p0 = setSeq (rt_floodSeq r) (Flood_setTTL 32 (setFloodType 100 (setLastHop (rt_myNodeId r) (setSrc (rt_myNodeId r) (Flood new_BasePacket)))))"
  have p0: "pkt_ok p0" "getSrc p0 = rt_myNodeId r" "getSeq p0 = rt_floodSeq r" "getLastHop p0 = rt_myNodeId r"
    "Flood_getTTL p0 = 32" "getFloodType p0 = 100"
    using assms(1) ok by (simp_all add: p0_def Flood_def hdr_simps)
  have p: "p = setDest (rt_BroadcastId r) p0" "pid = rt_next_packet r"
    "r1 = r\<lparr>rt_refs := (rt_refs r)(pid := 1), rt_next_packet := pid + 1, rt_floodSeq := rt_floodSeq r + 1\<rparr>"
    using assms(2) by (auto simp: newFloodPacket_def Let_def rt_new_packet_def p0_def PACKET_TYPE_BC_TOPO_LOCK_def)
  have f: "pkt_ok (Flood p)" "getSrc (Flood p) = rt_myNodeId r" "getSeq (Flood p) = rt_floodSeq r" "getLastHop (Flood p) = rt_myNodeId r"
    "Flood_getTTL (Flood p) = 32" "getFloodType (Flood p) = 100"
    using p0 by (simp_all add: p(1)) (simp add: pkt_ok_def setDest_def)
  then show "pkt_ok q" "getSrc q = rt_myNodeId r" "getSeq q = rt_floodSeq r" "getLastHop q = rt_myNodeId r"
    "Flood_getTTL q = 32" "getFloodType q = PACKET_TYPE_BC_TOPO_LOCK" "buffer q ! FloodHeaderEnd = TopoLockCmd_val cmd"
    unfolding assms(3)
    by (simp_all add: pkt_ok_def getSrc_def getSeq_def getLastHop_def Flood_getTTL_def getFloodType_def PACKET_TYPE_BC_TOPO_LOCK_def
        mem_read_update_out offset_defs MaxSize_def)
  show "pid = rt_next_packet r" "r1 = r\<lparr>rt_refs := (rt_refs r)(pid := 1), rt_next_packet := pid + 1, rt_floodSeq := rt_floodSeq r + 1\<rparr>"
    by (fact p(2,3))+
qed

lemma neigh_inv_new_packet:
  assumes "neigh_inv r" "rt_refs r a = 0"
  shows "neigh_inv (r\<lparr>rt_refs := (rt_refs r)(a := 1), rt_next_packet := n, rt_floodSeq := k\<rparr>)"
proof -
  have "refs_ok (used r) ((rt_refs r)(a := 1))"
    unfolding refs_ok_def
  proof
    fix x
    have "int (count (mset (map fst (used r))) x) \<le> rt_refs r x" using assms(1) by (simp add: neigh_inv_def refs_ok_def)
    then show "int (count (mset (map fst (used r))) x) \<le> ((rt_refs r)(a := 1)) x" using assms(2) by (auto split: if_splits)
  qed
  then show ?thesis using assms(1) by (simp add: neigh_inv_def neigh_ids_def used_def)
qed

lemma incTTL_fields:
  assumes "pkt_ok p" "Flood_getTTL p = 32" "q = Flood_incTTL (Flood p)"
  shows "pkt_ok q" "Flood_getTTL q = 33" "getSrc q = getSrc p" "getSeq q = getSeq p" "getLastHop q = getLastHop p"
    "getFloodType q = getFloodType p" "buffer q ! FloodHeaderEnd = buffer p ! FloodHeaderEnd"
proof -
  have "buffer p ! Flood_OffsetTTL = word_of_int (Flood_getTTL p)" by (simp add: Flood_getTTL_def)
  then have "buffer p ! Flood_OffsetTTL = 32" by (simp add: assms(2))
  then show "pkt_ok q" "Flood_getTTL q = 33" "getSrc q = getSrc p" "getSeq q = getSeq p" "getLastHop q = getLastHop p"
    "getFloodType q = getFloodType p" "buffer q ! FloodHeaderEnd = buffer p ! FloodHeaderEnd"
    using assms(1) unfolding assms(3)
    by (simp_all add: Flood_incTTL_def pkt_ok_def getSrc_def getSeq_def getLastHop_def Flood_getTTL_def getFloodType_def
        mem_read_update_out offset_defs MaxSize_def Flood_def setType_def)
qed


section \<open>Resetting\<close>

text \<open>
  Resetting a topology removes nothing at once.  \<open>reset\<close> makes every other station expire now by
  the clock of the system, but the cleanup it calls compares with the time of the last event; if the clock has gone on since then,
  or if the topology is locked, every node and every link is still there afterwards, the topology being valid in
  every other respect.
\<close>

theorem reset_removes_nothing:
  assumes "topo_reach env i t" "NodeId_ok i" "\<forall>f b. te_calculate env f b \<noteq> 0"
    and "locked t \<or> lastEventTime t < now" "om_find (myNodeId t) (adjList t) = Some d" "lastEventTime t < nodeValidity d" "lastEventTime t < edgeValidity d"
  shows "\<exists>t'. topo_reset env now t = Inr t' \<and> topo_inv t' \<and>
    (\<forall>x y. hasNode x t' = hasNode x t \<and> hasLink x y t' = hasLink x y t)"
proof -
  let ?f = "\<lambda>i d. if i \<noteq> myNodeId t then d\<lparr>nodeValidity := now, edgeValidity := now\<rparr> else d"
  define t1 where "t1 = t\<lparr>dirty := True, adjList := map (\<lambda>(i, d). (i, ?f i d)) (adjList t)\<rparr>"
  have inv: "topo_inv t" by (rule topo_reach_inv [OF assms(1-3)])
  have wf: "topo_wf (myNodeId t) {} t1"
    unfolding t1_def by (rule topo_wf_map [of "myNodeId t" t ?f]) (use inv in \<open>simp_all add: topo_inv_def\<close>)
  have f1: "om_find x (adjList t1) = map_option (?f x) (om_find x (adjList t))" for x 
    using om_find_map [of x ?f "adjList t"] by (simp add: t1_def)
  have l1: "AdjList_has_link x y (adjList t1) = AdjList_has_link x y (adjList t)" for x y
    by (simp add: AdjList_has_link_def f1 split: option.split)
  have t1: "lastEventTime t1 = lastEventTime t" "locked t1 = locked t" by (simp_all add: t1_def)
  have "adjList t1 \<noteq> []" using assms(5) by (auto simp: t1_def om_find_def)
  from removeOldNodes_ok [OF wf this, of env] obtain nt t' where
    t': "removeOldNodes env t1 = Inr (nt, t')" "topo_wf (myNodeId t) {} t'"
      "shape (adjList t') = shape (if locked t then adjList t1 else purge (lastEventTime t) (adjList t1))"
    by (auto simp: t1)
  have ok: "om_ok (adjList t1)" "\<forall>n \<in> set (adjList t1). node_ok (next_buffer t1) n" using wf by (simp_all add: topo_wf_def adj_wf_def)
  have valid: "lastEventTime t < nodeValidity e \<and> lastEventTime t < edgeValidity e" if "\<not> locked t" "om_find x (adjList t1) = Some e" for x e
    using that assms(4-7) f1 [of x] by (auto split: if_splits)
  have "(om_find x (if locked t then adjList t1 else purge (lastEventTime t) (adjList t1)) \<noteq> None) = (om_find x (adjList t) \<noteq> None)" for x
  proof (cases "locked t")
    case False
    then show ?thesis using om_find_purge [OF ok(1), of x] valid [of x] f1 [of x] by (auto split: option.split)
  qed (simp add: f1)
  moreover have "AdjList_has_link x y (if locked t then adjList t1 else purge (lastEventTime t) (adjList t1)) = AdjList_has_link x y (adjList t)" for x y
  proof (cases "locked t")
    case False
    then show ?thesis
      using hasLink_purge [OF ok, of x y "lastEventTime t"] valid [of x] l1 [of x y]
      by (auto simp: AdjList_has_link_def split: option.splits)
  qed (simp add: l1)
  ultimately have "hasNode x t' = hasNode x t \<and> hasLink x y t' = hasLink x y t" for x y
    using has_node_shape [OF t'(3), of x] has_link_shape [OF t'(3), of x y] by (simp add: hasNode_def hasLink_def)
  moreover have "topo_reset env now t = Inr t'" using t'(1) by (simp add: topo_reset_def Let_def t1_def)
  ultimately show ?thesis using t'(2) topo_wf_any by blast
qed

section \<open>Concrete instances\<close>

definition lock_renv :: routing_env where
  "lock_renv = example_renv\<lparr>re_call := (\<lambda>cb d (p, r). (p, case topolock_recv example_env 9 p r of Some (Inr r') \<Rightarrow> r' | _ \<Rightarrow> r))\<rparr>"

lemma lock_renv_calls: "calls_topolock lock_renv 9 cb d"
  by (simp add: calls_topolock_def lock_renv_def example_renv_def oreturn_def)


theorem reset_removes_nothing_witness:
  "\<exists>t'. topo_reset example_env 100 example_new = Inr t' \<and> hasNode (NodeId 1) t'"
proof -
  have "\<exists>d. om_find (myNodeId example_new) (adjList example_new) = Some d \<and> lastEventTime example_new < nodeValidity d \<and>
      lastEventTime example_new < edgeValidity d \<and> locked example_new \<or> lastEventTime example_new < (100 :: int)"
    by (simp add: example_new_eq(2) om_find_def)
  moreover have "\<exists>d. om_find (myNodeId example_new) (adjList example_new) = Some d \<and> lastEventTime example_new < nodeValidity d \<and>
      lastEventTime example_new < edgeValidity d" "lastEventTime example_new < 100" "hasNode (NodeId 1) example_new"
    by (simp_all add: example_new_eq(2) om_find_def hasNode_def)
  ultimately show ?thesis
    using reset_removes_nothing [OF example_new_reach NodeId_ok_1 example_env_ok(1), of 100] by metis
qed

end
