(* ===== verification/Shell.thy ===== *)
theory Shell
  imports Topo_Text
begin

text \<open>
  The interactive shell of the daemon (\<open>src/src/shell.cc\<close>, \<open>src/src/awds/ext/Shell.h\<close>): the table of
  commands, the clients, and the assembly of command lines from the bytes that arrive.  The functions
  that commands call are the parameter \<open>call\<close>: a function pointer and its data pointer are numbers, and the
  function changes what it sees of the client and a state of its own.  What \<open>read\<close> returns is an
  argument of the handler; an output stream is the string that has been written.
\<close>

section \<open>Clients and commands\<close>

definition CMD_BUF_MAX :: nat where "CMD_BUF_MAX = 1024"

definition CMD_PARAM_MAX :: nat where "CMD_PARAM_MAX = 128"

definition newline :: char where "newline = char_of (10 :: nat)"

definition CMD_IFS :: "char list" where
  "CMD_IFS = [CHR '' '', char_of (9 :: nat), char_of (13 :: nat), newline]"

datatype shell_error = ShAssertFails | ShNoClient | ShBufferOverflow

datatype ClientState = CS_Idle | CS_Blocked

record ShellClient =
  cl_sockout :: string
  cl_state :: ClientState

record ShellCommand =
  sc_command :: "nat option"
  sc_data :: nat
  sc_desc :: string
  sc_help :: "string option"

text \<open>
  \<open>tc_cmd_buf\<close> holds the first \<open>cmd_buf_len\<close> bytes of the buffer; the bytes behind them are written before
  they are read.  \<open>tc_waits\<close> records the deadlines of the calls of \<open>waitFor\<close> on the handle of the client.
\<close>

record TcpShellClient =
  tc_client :: ShellClient
  tc_cmd_buf :: string
  tc_waits :: "int list"

record TcpShell =
  sh_commands :: "(string \<times> ShellCommand) list"
  sh_clients :: "(int, TcpShellClient) omap"

type_synonym 'w command_fn = "nat \<Rightarrow> nat \<Rightarrow> string list \<Rightarrow> ShellClient \<times> 'w \<Rightarrow> int \<times> ShellClient \<times> 'w"

definition sh_put :: "string \<Rightarrow> ShellClient \<Rightarrow> ShellClient" where
  "sh_put s cl = cl\<lparr>cl_sockout := cl_sockout cl @ s\<rparr>"

text \<open>The map is sorted by name, which \<open>help\<close> shows; strings are compared by their characters as numbers.\<close>

fun string_less :: "string \<Rightarrow> string \<Rightarrow> bool" where
  "string_less [] b = (b \<noteq> [])"
| "string_less (x # a) [] = False"
| "string_less (x # a) (y # b) = ((of_char x :: nat) < of_char y \<or> x = y \<and> string_less a b)"

fun put_command :: "string \<Rightarrow> ShellCommand \<Rightarrow> (string \<times> ShellCommand) list \<Rightarrow> (string \<times> ShellCommand) list" where
  "put_command n c [] = [(n, c)]"
| "put_command n c ((m, d) # cs) =
     (if m = n then (n, c) # cs
      else if string_less n m then (n, c) # (m, d) # cs
      else (m, d) # put_command n c cs)"

definition add_command :: "string \<Rightarrow> nat option \<Rightarrow> nat \<Rightarrow> string \<Rightarrow> string option \<Rightarrow> TcpShell \<Rightarrow> TcpShell" where
  "add_command name command d desc hlp sh =
     sh\<lparr>sh_commands := put_command name \<lparr>sc_command = command, sc_data = d, sc_desc = desc, sc_help = hlp\<rparr> (sh_commands sh)\<rparr>"

definition get_command :: "string \<Rightarrow> TcpShell \<Rightarrow> ShellCommand option" where
  "get_command name sh = map_of (sh_commands sh) name"

definition shell_help :: "TcpShell \<Rightarrow> string list \<Rightarrow> ShellClient \<Rightarrow> int \<times> ShellClient" where
  "shell_help sh argv cl =
     (if length argv > 1 then
        (case get_command (argv ! 1) sh of
           Some c \<Rightarrow>
             let cl = sh_put (argv ! 1 @ [char_of (9 :: nat)] @ ''- '' @ sc_desc c @ endl) cl
             in (0, case sc_help c of None \<Rightarrow> cl | Some h \<Rightarrow> sh_put (endl @ h @ endl) cl)
         | None \<Rightarrow> (1, sh_put (''Unknown command '' @ [char_of (39 :: nat)] @ argv ! 1 @ [char_of (39 :: nat)] @ ''!'' @ endl) cl))
      else (0, sh_put (concat (map (\<lambda>(n, c). n @ [char_of (9 :: nat)] @ ''- '' @ sc_desc c @ endl) (sh_commands sh))) cl))"

definition exec_command :: "TcpShell \<Rightarrow> 'w command_fn \<Rightarrow> string list \<Rightarrow> ShellClient \<times> 'w \<Rightarrow> int \<times> ShellClient \<times> 'w" where
  "exec_command sh call argv s =
     (case s of (cl, w) \<Rightarrow>
        case argv of [] \<Rightarrow> (0, cl, w)
        | a # _ \<Rightarrow>
            if a = [] then (0, cl, w)
            else case get_command a sh of
                None \<Rightarrow>
                  (0, sh_put (''Illegal command '' @ [char_of (39 :: nat)] @ a @ [char_of (39 :: nat)] @ ''! Use '' @
                     [char_of (39 :: nat)] @ ''help'' @ [char_of (39 :: nat)] @ ''.'' @ endl) cl, w)
              | Some c \<Rightarrow> (case sc_command c of None \<Rightarrow> (0, cl, w) | Some f \<Rightarrow> call f (sc_data c) argv (cl, w)))"

section \<open>Lines\<close>

text \<open>One call of \<open>strtok_r\<close>: the token and what is left of the string.\<close>

definition strtok_r :: "string \<Rightarrow> (string \<times> string) option" where
  "strtok_r s =
     (let s = dropWhile (\<lambda>c. c \<in> set CMD_IFS) s in
      if s = [] then None
      else Some (takeWhile (\<lambda>c. c \<notin> set CMD_IFS) s, drop 1 (dropWhile (\<lambda>c. c \<notin> set CMD_IFS) s)))"

text \<open>The loop that fills \<open>argv\<close>; the number of elements that are left decreases.\<close>

fun argv_loop :: "nat \<Rightarrow> string \<Rightarrow> string list" where
  "argv_loop 0 s = []"
| "argv_loop (Suc n) s = (case strtok_r s of None \<Rightarrow> [] | Some (t, r) \<Rightarrow> t # argv_loop n r)"

definition parse_command :: "TcpShell \<Rightarrow> 'w command_fn \<Rightarrow> string \<Rightarrow> ShellClient \<times> 'w \<Rightarrow> bool \<times> ShellClient \<times> 'w" where
  "parse_command sh call buf s =
     (if length buf = 0 \<or> length buf > CMD_BUF_MAX \<or> nul \<in> set buf then (False, s)
      else (True, snd (exec_command sh call (argv_loop (CMD_PARAM_MAX - 1) buf) s)))"

text \<open>\<open>prompt\<close>, of which the call of \<open>waitFor\<close> belongs to the client as a whole.\<close>

definition prompt :: "ShellClient \<Rightarrow> ShellClient" where
  "prompt cl = sh_put ''# '' cl"

definition prompt_wait :: "int \<Rightarrow> TcpShellClient \<Rightarrow> TcpShellClient" where
  "prompt_wait deadline c = c\<lparr>tc_client := prompt (tc_client c), tc_waits := tc_waits c @ [deadline]\<rparr>"

text \<open>The loop over the lines in the buffer: the line is handled and the rest is moved to the front.\<close>

function lines_loop :: "TcpShell \<Rightarrow> 'w command_fn \<Rightarrow> string \<Rightarrow> ShellClient \<times> 'w \<Rightarrow> string \<times> ShellClient \<times> 'w" where
  "lines_loop sh call buf s =
     (if newline \<notin> set buf then (buf, s)
      else let line = takeWhile (\<lambda>c. c \<noteq> newline) buf;
             (cl, w) = (if line \<noteq> [] then snd (parse_command sh call line s) else s);
             cl = (if cl_state cl = CS_Idle then prompt cl else cl)
        in lines_loop sh call (drop (length line + 1) buf) (cl, w))"
  by pat_completeness auto
termination by (relation "measure (\<lambda>(sh, call, buf, s). length buf)") (auto dest: length_pos_if_in_set)

declare lines_loop.simps [simp del]

datatype read_result = ReadTimeout | ReadClosed | ReadByte char

text \<open>
  The handler of a client: one byte is read, at the end of the used part of the buffer, and if the
  buffer is full afterwards its last byte is given up.
\<close>

definition read_client_data ::
  "TcpShell \<Rightarrow> 'w command_fn \<Rightarrow> int \<Rightarrow> read_result \<Rightarrow> TcpShellClient \<Rightarrow> 'w \<Rightarrow> shell_error + (TcpShellClient option \<times> 'w)" where
  "read_client_data sh call deadline inp c w =
     (let wait = (\<lambda>c. if cl_state (tc_client c) = CS_Idle then c\<lparr>tc_waits := tc_waits c @ [deadline]\<rparr> else c) in
      case inp of
        ReadTimeout \<Rightarrow> Inr (Some (wait c), w)
      | ReadClosed \<Rightarrow> if cl_state (tc_client c) = CS_Blocked then Inl ShAssertFails else Inr (None, w)
      | ReadByte b \<Rightarrow>
          if length (tc_cmd_buf c) \<ge> CMD_BUF_MAX then Inl ShBufferOverflow
          else let buf = tc_cmd_buf c @ [b];
                 buf = (if length buf \<ge> CMD_BUF_MAX then take (CMD_BUF_MAX - 1) buf else buf);
                 (buf, cl, w) = lines_loop sh call buf (tc_client c, w)
            in Inr (Some (wait (c\<lparr>tc_client := cl, tc_cmd_buf := buf\<rparr>)), w))"

text \<open>The handler with the map of clients: a client whose connection has ended is erased.\<close>

definition client_ready ::
  "TcpShell \<Rightarrow> 'w command_fn \<Rightarrow> int \<Rightarrow> int \<Rightarrow> read_result \<Rightarrow> 'w \<Rightarrow> shell_error + (TcpShell \<times> 'w)" where
  "client_ready sh call fd deadline inp w =
     (case om_find fd (sh_clients sh) of None \<Rightarrow> Inl ShNoClient
      | Some c \<Rightarrow>
          rbind (read_client_data sh call deadline inp c w) (\<lambda>(r, w).
            Inr (case r of None \<Rightarrow> sh\<lparr>sh_clients := om_erase fd (sh_clients sh)\<rparr>
                 | Some c \<Rightarrow> sh\<lparr>sh_clients := om_insert fd c (sh_clients sh)\<rparr>, w)))"

definition new_client :: TcpShellClient where
  "new_client = \<lparr>tc_client = \<lparr>cl_sockout = [], cl_state = CS_Idle\<rparr>, tc_cmd_buf = [], tc_waits = []\<rparr>"

definition accept_connection :: "int \<Rightarrow> int \<Rightarrow> TcpShell \<Rightarrow> TcpShell" where
  "accept_connection client_fd deadline sh =
     sh\<lparr>sh_clients := om_insert client_fd
       (prompt_wait deadline (new_client\<lparr>tc_client := sh_put (''Welcome to localhost!'' @ endl) (tc_client new_client)\<rparr>))
       (sh_clients sh)\<rparr>"

definition shell_block :: "ShellClient \<Rightarrow> shell_error + ShellClient" where
  "shell_block cl = (if cl_state cl \<noteq> CS_Idle then Inl ShAssertFails else Inr (cl\<lparr>cl_state := CS_Blocked\<rparr>))"

definition unblock :: "int \<Rightarrow> TcpShellClient \<Rightarrow> shell_error + TcpShellClient" where
  "unblock deadline c =
     (if cl_state (tc_client c) \<noteq> CS_Blocked then Inl ShAssertFails
      else Inr (prompt_wait deadline (c\<lparr>tc_client := (tc_client c)\<lparr>cl_state := CS_Idle\<rparr>\<rparr>)))"

definition exit_cmd :: "ShellClient \<Rightarrow> int \<times> ShellClient" where
  "exit_cmd cl = (0, sh_put (''Good bye!'' @ endl) cl)"

section \<open>Words of a line\<close>

text \<open>The words of a line: the maximal runs of characters that do not separate.\<close>

fun words_from :: "string \<Rightarrow> string \<Rightarrow> string list" where
  "words_from acc [] = (if acc = [] then [] else [acc])"
| "words_from acc (c # cs) =
     (if c \<in> set CMD_IFS then (if acc = [] then words_from [] cs else acc # words_from [] cs)
      else words_from (acc @ [c]) cs)"

definition line_words :: "string \<Rightarrow> string list" where
  "line_words s = words_from [] s"

lemma words_from_acc:
  "acc \<noteq> [] \<Longrightarrow> words_from acc s =
     (acc @ takeWhile (\<lambda>c. c \<notin> set CMD_IFS) s) # line_words (drop 1 (dropWhile (\<lambda>c. c \<notin> set CMD_IFS) s))"
  by (induction s arbitrary: acc) (auto simp: line_words_def)

lemma line_words_strtok:
  "line_words s = (case strtok_r s of None \<Rightarrow> [] | Some (t, r) \<Rightarrow> t # line_words r)"
proof (induction s)
  case Nil
  show ?case by (simp add: line_words_def strtok_r_def)
next
  case (Cons c s)
  show ?case
  proof (cases "c \<in> set CMD_IFS")
    case True
    then show ?thesis using Cons.IH by (simp add: line_words_def strtok_r_def)
  next
    case False
    then show ?thesis using words_from_acc [of "[c]" s] by (simp add: line_words_def strtok_r_def)
  qed
qed

lemma argv_loop_words: "argv_loop n s = take n (line_words s)"
proof (induction n arbitrary: s)
  case (Suc n)
  then show ?case by (subst line_words_strtok) (auto split: option.split)
qed simp

section \<open>Bytes and lines\<close>

text \<open>Bytes that arrive one after the other, each read with its own deadline.\<close>

fun read_bytes :: "TcpShell \<Rightarrow> 'w command_fn \<Rightarrow> int \<Rightarrow> string \<Rightarrow> TcpShellClient \<Rightarrow> 'w \<Rightarrow> shell_error + (TcpShellClient option \<times> 'w)" where
  "read_bytes sh call d [] c w = Inr (Some c, w)"
| "read_bytes sh call d (b # bs) c w =
     rbind (read_client_data sh call d (ReadByte b) c w) (\<lambda>(r, w).
       case r of None \<Rightarrow> Inr (None, w) | Some c \<Rightarrow> read_bytes sh call d bs c w)"

text \<open>What a line does: the command is executed with the words of the line, then the prompt is shown.\<close>

definition run_line :: "TcpShell \<Rightarrow> 'w command_fn \<Rightarrow> string \<Rightarrow> ShellClient \<times> 'w \<Rightarrow> ShellClient \<times> 'w" where
  "run_line sh call l s =
     (let (cl, w) = (if nul \<in> set l then s else snd (exec_command sh call (take 127 (line_words l)) s))
      in (if cl_state cl = CS_Idle then prompt cl else cl, w))"

definition line_ok :: "string \<Rightarrow> bool" where
  "line_ok l \<longleftrightarrow> newline \<notin> set l \<and> length l < 1023"

lemma exec_command_no_words [simp]: "exec_command sh call [] s = (0, s)"
  by (simp add: exec_command_def split: prod.split)

lemma lines_loop_no_newline: "newline \<notin> set buf \<Longrightarrow> lines_loop sh call buf s = (buf, s)"
  by (simp add: lines_loop.simps)

lemma lines_loop_line:
  assumes "newline \<notin> set l" "length l \<le> CMD_BUF_MAX"
  shows "lines_loop sh call (l @ [newline]) s = ([], run_line sh call l s)"
proof -
  have t: "takeWhile (\<lambda>c. c \<noteq> newline) (l @ [newline]) = l"
    using assms(1) by (subst takeWhile_append2) auto
  have "snd (if l \<noteq> [] then parse_command sh call l s else (True, s)) =
      (if nul \<in> set l then s else snd (exec_command sh call (take 127 (line_words l)) s))"
    using assms(2) by (auto simp: parse_command_def argv_loop_words CMD_PARAM_MAX_def line_words_def)
  then have "(if l \<noteq> [] then snd (parse_command sh call l s) else s) =
      (if nul \<in> set l then s else snd (exec_command sh call (take 127 (line_words l)) s))"
    by (auto split: if_splits)
  then show ?thesis
    by (subst lines_loop.simps) (simp add: t lines_loop_no_newline run_line_def split: prod.split)
qed

text \<open>A byte that does not end a line is added to the buffer; a newline executes what is there.\<close>

lemma read_byte_plain:
  assumes "length (tc_cmd_buf c) < 1023" "newline \<notin> set (tc_cmd_buf c)" "b \<noteq> newline"
  shows "\<exists>c'. read_client_data sh call d (ReadByte b) c w = Inr (Some c', w) \<and>
    tc_client c' = tc_client c \<and> tc_cmd_buf c' = take 1023 (tc_cmd_buf c @ [b])"
  using assms by (auto simp: read_client_data_def Let_def lines_loop_no_newline CMD_BUF_MAX_def)

lemma read_byte_newline:
  assumes "length (tc_cmd_buf c) < 1023" "newline \<notin> set (tc_cmd_buf c)"
  shows "\<exists>c' w'. read_client_data sh call d (ReadByte newline) c w = Inr (Some c', w') \<and>
    (tc_client c', w') = run_line sh call (tc_cmd_buf c) (tc_client c, w) \<and> tc_cmd_buf c' = [] \<and>
    (cl_state (tc_client c') = CS_Idle \<longrightarrow> tc_waits c' \<noteq> [] \<and> last (tc_waits c') = d)"
  using assms
  by (auto simp: read_client_data_def Let_def lines_loop_line CMD_BUF_MAX_def split: prod.split)

lemma read_bytes_line:
  assumes "newline \<notin> set l" "length (tc_cmd_buf c) + length l < 1023" "newline \<notin> set (tc_cmd_buf c)"
  shows "\<exists>c' w'. read_bytes sh call d (l @ newline # bs) c w = read_bytes sh call d bs c' w' \<and>
    (tc_client c', w') = run_line sh call (tc_cmd_buf c @ l) (tc_client c, w) \<and> tc_cmd_buf c' = []  \<and>
    (cl_state (tc_client c') = CS_Idle \<longrightarrow> tc_waits c' \<noteq> [] \<and> last (tc_waits c') = d)"
  using assms
proof (induction l arbitrary: c)
  case Nil
  then obtain c' w' where "read_client_data sh call d (ReadByte newline) c w = Inr (Some c', w')"
    "(tc_client c', w') = run_line sh call (tc_cmd_buf c) (tc_client c, w)" "tc_cmd_buf c' = []"
    "cl_state (tc_client c') = CS_Idle \<longrightarrow> tc_waits c' \<noteq> [] \<and> last (tc_waits c') = d"
    using read_byte_newline [of c sh call d w] by auto
  then show ?case by (auto intro!: exI [of _ c'] exI [of _ w'])
next
  case (Cons b l)
  then obtain c1 where c1: "read_client_data sh call d (ReadByte b) c w = Inr (Some c1, w)"
    "tc_client c1 = tc_client c" "tc_cmd_buf c1 = tc_cmd_buf c @ [b]"
    using read_byte_plain [of c b sh call d w] by auto
  with Cons.IH [of c1] Cons.prems show ?case by simp
qed

text \<open>
  Property C17: the shell executes exactly the lines that arrive.  When the bytes of a sequence of lines
  of fewer than 1023 characters are read one after the other, the commands are executed in the order of the lines, each once and
  with (at most 127 of) the words of its line as arguments, a prompt follows every command that does not block the client,
  nothing is left in the buffer, no byte is written outside of it, and a client that is idle waits for more.
\<close>

theorem shell_executes_lines:
  assumes "tc_cmd_buf c = []" "\<forall>l \<in> set ls. line_ok l"
  shows "\<exists>c' w'. read_bytes sh call d (concat (map (\<lambda>l. l @ [newline]) ls)) c w = Inr (Some c', w') \<and>
    (tc_client c', w') = fold (run_line sh call) ls (tc_client c, w) \<and> tc_cmd_buf c' = [] \<and>
    (ls \<noteq> [] \<and> cl_state (tc_client c') = CS_Idle \<longrightarrow> tc_waits c' \<noteq> [] \<and> last (tc_waits c') = d)"
  using assms
proof (induction ls arbitrary: c w)
  case (Cons l ls)
  then have "newline \<notin> set l" "length (tc_cmd_buf c) + length l < 1023" "newline \<notin> set (tc_cmd_buf c)"
    by (auto simp: line_ok_def)
  from read_bytes_line [OF this, of sh call d "concat (map (\<lambda>l. l @ [newline]) ls)" w] obtain c1 w1 where
    c1: "read_bytes sh call d (l @ newline # concat (map (\<lambda>l. l @ [newline]) ls)) c w =
        read_bytes sh call d (concat (map (\<lambda>l. l @ [newline]) ls)) c1 w1"
      "(tc_client c1, w1) = run_line sh call l (tc_client c, w)" "tc_cmd_buf c1 = []"
      "cl_state (tc_client c1) = CS_Idle \<longrightarrow> tc_waits c1 \<noteq> [] \<and> last (tc_waits c1) = d"
    using Cons.prems(1) by auto
  show ?case
  proof (cases ls)
    case Nil
    with c1 show ?thesis by simp
  next
    case (Cons a b)
    with c1 Cons.IH [of c1 w1] Cons.prems(2) show ?thesis by auto
  qed
qed simp

text \<open>
  Property C39: a line of 1023 characters or more ends the dialogue.  Once 1023 bytes without a newline are in the
  buffer, no newline is ever found in it again: whatever arrives, no command is executed and nothing is
  written to the client, although it stays connected.
\<close>

theorem overlong_line_deadlocks:
  assumes "tc_cmd_buf c = l" "length l = 1023" "newline \<notin> set l"
  shows "\<exists>c'. read_bytes sh call d bs c w = Inr (Some c', w) \<and> tc_client c' = tc_client c \<and> tc_cmd_buf c' = l"
  using assms(1)
proof (induction bs arbitrary: c)
  case (Cons b bs)
  then obtain c1 where "read_client_data sh call d (ReadByte b) c w = Inr (Some c1, w)" "tc_client c1 = tc_client c" "tc_cmd_buf c1 = l"
    using assms(2,3) by (auto simp: read_client_data_def Let_def lines_loop_no_newline CMD_BUF_MAX_def)
  with Cons.IH [of c1] show ?case by simp
qed simp

section \<open>Concrete instances\<close>

text \<open>A command that records its arguments.\<close>

definition example_call :: "string list list command_fn" where
  "example_call f d argv s = (case s of (cl, w) \<Rightarrow> (0, cl, w @ [argv]))"

definition example_shell :: TcpShell where
  "example_shell = add_command ''topo'' (Some 1) 2 ''show the topology'' None \<lparr>sh_commands = [], sh_clients = []\<rparr>"

theorem shell_executes_lines_witness:
  "\<exists>c. read_bytes example_shell example_call 5 (concat (map (\<lambda>l. l @ [newline]) [''topo  lock'', '''', ''quit'', '' topo''])) new_client [] =
    Inr (Some c, [[''topo'', ''lock''], [''topo'']])"
proof -
  have "\<forall>l \<in> set [''topo  lock'', '''', ''quit'', '' topo'']. line_ok l" by code_simp
  moreover have "snd (fold (run_line example_shell example_call) [''topo  lock'', '''', ''quit'', '' topo''] (tc_client new_client, [])) =
    [[''topo'', ''lock''], [''topo'']]" by code_simp
  moreover have "tc_cmd_buf new_client = []" by (simp add: new_client_def)
  ultimately show ?thesis
    using shell_executes_lines [of new_client "[''topo  lock'', '''', ''quit'', '' topo'']" example_shell example_call 5 "[]"]
    by (metis snd_conv)
qed

theorem overlong_line_deadlocks_witness:
  "\<exists>c. read_bytes example_shell example_call 5 (newline # ''topo'' @ [newline]) (new_client\<lparr>tc_cmd_buf := replicate 1023 CHR ''x''\<rparr>) [] =
    Inr (Some c, [])"
proof -
  have "CHR ''x'' \<noteq> newline" by code_simp
  then show ?thesis
    using overlong_line_deadlocks [of "new_client\<lparr>tc_cmd_buf := replicate 1023 CHR ''x''\<rparr>" "replicate 1023 CHR ''x''"
      example_shell example_call 5 "newline # ''topo'' @ [newline]" "[]"] by auto
qed

end
