(* ===== verification/Debug_Output.thy ===== *)
theory Debug_Output
  imports Shell
begin

text \<open>
  The debug output of the daemon (\<open>src/src/debug_cmd.cc\<close>): a stream buffer that copies what is written to the streams
  that watch it and keeps the last bytes in a ring buffer, and the shell command that shows it.  Streams are
  addresses; what is written to them is recorded.
\<close>

section \<open>The redirector\<close>

record OutputRedirector =
  or_outputSet :: "nat list"
  or_logfile :: "nat option"
  or_history :: "byte list"
  or_histSize :: nat
  or_bytesInHistory :: nat
  or_histEnd :: nat
  or_deleted :: "nat list"
  or_written :: "(nat \<times> byte list) list"

datatype dbg_error = StreamDeleted | DbgShell shell_error

text \<open>The bytes of a new buffer are not initialised.\<close>

definition OutputRedirector_new :: "byte list \<Rightarrow> OutputRedirector" where
  "OutputRedirector_new junk =
     \<lparr>or_outputSet = [], or_logfile = None, or_history = junk, or_histSize = 64 * 1024, or_bytesInHistory = 0, or_histEnd = 0,
      or_deleted = [], or_written = []\<rparr>"

definition dumpHistory :: "int \<Rightarrow> OutputRedirector \<Rightarrow> byte list" where
  "dumpHistory s r =
     (let s = (if s = - 1 then int (or_histSize r) else s);
          s = (if s > int (or_bytesInHistory r) then int (or_bytesInHistory r) else s);
          dumpStart = int (or_histEnd r) - s
      in if dumpStart < 0
         then mem_read (or_history r) (nat (dumpStart + int (or_histSize r))) (nat (- dumpStart)) @
           mem_read (or_history r) 0 (or_histEnd r)
         else mem_read (or_history r) (nat dumpStart) (nat s))"

definition storeInHistory :: "byte list \<Rightarrow> OutputRedirector \<Rightarrow> OutputRedirector" where
  "storeInHistory dat r =
     (let size = or_histSize r;
          dat = (if length dat > size then drop (length dat - size) dat else dat);
          num = length dat;
          w2 = int (or_histEnd r + num) - int size;
          h = (if w2 \<le> 0 then mem_write (or_history r) (or_histEnd r) dat
               else mem_write (mem_write (or_history r) (or_histEnd r) (take (num - nat w2) dat)) 0 (drop (num - nat w2) dat));
          b = or_bytesInHistory r + num
      in r\<lparr>or_history := h, or_bytesInHistory := (if b > size then size else b), or_histEnd := (or_histEnd r + num) mod size\<rparr>)"

text \<open>The copy that is written to the streams is a C string and ends at the first zero.\<close>

definition writeToOstreams :: "byte list \<Rightarrow> OutputRedirector \<Rightarrow> OutputRedirector" where
  "writeToOstreams dat r =
     r\<lparr>or_written := or_written r @ map (\<lambda>o'. (o', takeWhile (\<lambda>b. b \<noteq> 0) dat)) (or_outputSet r)\<rparr>"

definition writeSomeBytes :: "byte list \<Rightarrow> OutputRedirector \<Rightarrow> OutputRedirector" where
  "writeSomeBytes dat r = storeInHistory dat (writeToOstreams dat r)"

section \<open>The shell command\<close>

text \<open>A key in the watching client ends the output to it.\<close>

definition std_input :: "int \<Rightarrow> bool \<Rightarrow> nat \<Rightarrow> TcpShellClient \<times> OutputRedirector \<Rightarrow> shell_error + (TcpShellClient \<times> OutputRedirector)" where
  "std_input deadline ready sockout s =
     (case s of (c, r) \<Rightarrow>
        if ready then rbind (unblock deadline c) (\<lambda>c. Inr (c, r\<lparr>or_outputSet := removeAll sockout (or_outputSet r)\<rparr>))
        else Inr (c, r))"

text \<open>\<open>new\<close> is the address of the stream that is opened.  The pointer to a log file that was closed is kept.\<close>

definition debug_logfile :: "nat \<Rightarrow> string \<Rightarrow> OutputRedirector \<Rightarrow> dbg_error + OutputRedirector" where
  "debug_logfile new filename r =
     rbind (case or_logfile r of None \<Rightarrow> Inr r
        | Some l \<Rightarrow>
            if l \<in> set (or_deleted r) then Inl StreamDeleted
            else Inr (r\<lparr>or_deleted := l # or_deleted r, or_outputSet := removeAll l (or_outputSet r)\<rparr>)) (\<lambda>r.
       Inr (if filename \<noteq> ''off'' then r\<lparr>or_logfile := Some new, or_outputSet := List.insert new (or_outputSet r)\<rparr> else r))"

text \<open>
  The result is the return value, the bytes that are written to the client, the time until which the command waits for a key, if it does, and the new
  states.
\<close>

definition debug_command_fn ::
  "nat \<Rightarrow> nat \<Rightarrow> int \<Rightarrow> string list \<Rightarrow> ShellClient \<times> OutputRedirector \<Rightarrow>
   dbg_error + (int \<times> byte list \<times> int option \<times> ShellClient \<times> OutputRedirector)" where
  "debug_command_fn new sockout deadline argv s =
     (case s of (sc, r) \<Rightarrow>
        if length argv = 2 \<and> argv ! 1 = ''hist'' then Inr (0, dumpHistory (- 1) r, None, sc, r)
        else if length argv = 3 \<and> argv ! 1 = ''logfile'' then
          rbind (debug_logfile new (argv ! 2) r) (\<lambda>r. Inr (- 1, [], None, sc, r))
        else if length argv = 1 then
          (let out = dumpHistory (- 1) r; r = r\<lparr>or_outputSet := List.insert sockout (or_outputSet r)\<rparr>
           in case shell_block sc of Inl e \<Rightarrow> Inl (DbgShell e) | Inr sc \<Rightarrow> Inr (0, out, Some deadline, sc, r))
        else Inr (- 1, [], None, sc, r))"

section \<open>The ring buffer\<close>

text \<open>The bytes in the history, the oldest first.\<close>

definition hist_bytes :: "OutputRedirector \<Rightarrow> byte list" where
  "hist_bytes r =
     map (\<lambda>i. or_history r ! ((or_histEnd r + (or_histSize r - or_bytesInHistory r) + i) mod or_histSize r)) [0..<or_bytesInHistory r]"

definition hist_ok :: "OutputRedirector \<Rightarrow> bool" where
  "hist_ok r \<longleftrightarrow> 0 < or_histSize r \<and> length (or_history r) = or_histSize r \<and> or_histEnd r < or_histSize r \<and>
     or_bytesInHistory r \<le> or_histSize r"

definition last_bytes :: "nat \<Rightarrow> byte list \<Rightarrow> byte list" where
  "last_bytes n xs = drop (length xs - n) xs"

lemma last_bytes_append: "last_bytes n (last_bytes n xs @ ys) = last_bytes n (xs @ ys)"
  by (cases "length xs \<le> n") (auto simp: last_bytes_def add.commute)

lemma wrap_index: "a < N \<Longrightarrow> b < N \<Longrightarrow> (a + b) mod N = (if a + b < N then a + b else a + b - N)" for a b N :: nat
  by (simp add: mod_if)

text \<open>Where the bytes of a block that is stored end up, counted from the old end of the ring.\<close>

lemma stored_nth:
  assumes "hist_ok r" "length dat \<le> or_histSize r" "j < or_histSize r"
  shows "or_history (storeInHistory dat r) ! ((or_histEnd r + j) mod or_histSize r) =
    (if j < length dat then dat ! j else or_history r ! ((or_histEnd r + j) mod or_histSize r))"
proof -
  let ?e = "or_histEnd r" and ?N = "or_histSize r" and ?h = "or_history r"
  have ok: "length ?h = ?N" "?e < ?N" using assms(1) by (simp_all add: hist_ok_def)
  note w = wrap_index [OF ok(2) assms(3)]
  show ?thesis
  proof (cases "?e + length dat \<le> ?N")
    case True
    then have "or_history (storeInHistory dat r) = mem_write ?h ?e dat" using assms(2) by (simp add: storeInHistory_def Let_def)
    moreover have "?e + j - ?N < ?e" if "\<not> ?e + j < ?N" using that assms(3) by simp
    ultimately show ?thesis using True ok assms(2,3) by (auto simp: w nth_mem_write_out nth_mem_write_in)
  next
    case False
    let ?k = "?N - ?e"
    have "length dat - nat (int (?e + length dat) - int ?N) = ?k" using False ok assms(2) by linarith
    then have "or_history (storeInHistory dat r) = mem_write (mem_write ?h ?e (take ?k dat)) 0 (drop ?k dat)"
      using False assms(2) by (simp add: storeInHistory_def Let_def)
    moreover have "length (take ?k dat) = ?k" "length (drop ?k dat) = length dat - ?k" using False ok by simp_all
    moreover have "?e + j - ?N < ?e" if "\<not> ?e + j < ?N" using that assms(3) by simp
    ultimately show ?thesis using False ok assms(2,3) by (auto simp: w nth_mem_write_out nth_mem_write_in)
  qed
qed

lemma store_short:
  assumes "hist_ok r" "length dat \<le> or_histSize r"
  shows "hist_ok (storeInHistory dat r) \<and> or_histSize (storeInHistory dat r) = or_histSize r \<and>
    hist_bytes (storeInHistory dat r) = last_bytes (or_histSize r) (hist_bytes r @ dat)"
proof -
  let ?e = "or_histEnd r" and ?N = "or_histSize r" and ?b = "or_bytesInHistory r" and ?n = "length dat"
  let ?r = "storeInHistory dat r" and ?b' = "min (or_bytesInHistory r + length dat) (or_histSize r)"
  have ok: "0 < ?N" "length (or_history r) = ?N" "?e < ?N" "?b \<le> ?N" using assms(1) by (simp_all add: hist_ok_def)
  have r: "or_histSize ?r = ?N" "or_bytesInHistory ?r = ?b'" "or_histEnd ?r = (?e + ?n) mod ?N"
    using assms(2) by (simp_all add: storeInHistory_def Let_def)
  have "length (or_history ?r) = ?N"
    using assms(2) ok by (auto simp: storeInHistory_def Let_def)
  then have "hist_ok ?r" using ok r by (simp add: hist_ok_def)
  moreover have "hist_bytes ?r = last_bytes ?N (hist_bytes r @ dat)"
  proof (rule nth_equalityI)
    show l: "length (hist_bytes ?r) = length (last_bytes ?N (hist_bytes r @ dat))"
      using r by (simp add: hist_bytes_def last_bytes_def)
    fix i assume "i < length (hist_bytes ?r)"
    then have i: "i < ?b'" by (simp add: hist_bytes_def r)
    let ?j = "?n + (?N - ?b') + i"
    have "hist_bytes ?r ! i = or_history ?r ! (((?e + ?n) mod ?N + (?N - ?b') + i) mod ?N)"
      using i by (simp add: hist_bytes_def r)
    also have "((?e + ?n) mod ?N + (?N - ?b') + i) mod ?N = (?e + ?j) mod ?N"
      by (metis add.assoc mod_add_left_eq)
    finally have new: "hist_bytes ?r ! i = or_history ?r ! ((?e + ?j) mod ?N)" .
    have len: "length (hist_bytes r @ dat) = ?b + ?n" by (simp add: hist_bytes_def)
    have le: "?b + ?n - ?N \<le> length (hist_bytes r @ dat)" and eq: "?b + ?n - ?N = ?b + ?n - ?b'" unfolding len by auto
    then have spec: "last_bytes ?N (hist_bytes r @ dat) ! i = (hist_bytes r @ dat) ! (?b + ?n - ?b' + i)"
      using nth_drop [OF le, of i] unfolding last_bytes_def len eq by blast
    show "hist_bytes ?r ! i = last_bytes ?N (hist_bytes r @ dat) ! i"
    proof (cases "i < ?b' - ?n")
      case True
      define m where "m = ?b + ?n - ?b' + i"
      have j: "?j < ?N" "\<not> ?j < ?n" "?j = ?N - ?b + m" "m < ?b"
        using True i ok(4) assms(2) by (auto simp: m_def)
      have "(hist_bytes r @ dat) ! m = or_history r ! ((?e + (?N - ?b + m)) mod ?N)"
        using j(4) by (simp add: nth_append hist_bytes_def add.assoc)
      then show ?thesis unfolding new spec stored_nth [OF assms j(1)] m_def [symmetric] using j(2,3) by simp
    next
      case False
      define k where "k = ?j - ?N"
      have k: "?j = k + ?N" "k < ?N" "k < ?n" "?b + ?n - ?b' + i = ?b + k"
        using False i ok(4) assms(2) by (auto simp: k_def)
      have "(?e + ?j) mod ?N = (?e + k) mod ?N" unfolding k(1) by (simp flip: add.assoc)
      then show ?thesis using stored_nth [OF assms k(2)] k(3) unfolding new spec k(4) by (simp add: nth_append hist_bytes_def)
    qed
  qed
  ultimately show ?thesis using r(1) by blast
qed

lemma store_spec:
  assumes "hist_ok r"
  shows "hist_ok (storeInHistory dat r) \<and> or_histSize (storeInHistory dat r) = or_histSize r \<and>
    hist_bytes (storeInHistory dat r) = last_bytes (or_histSize r) (hist_bytes r @ dat)"
proof (cases "length dat \<le> or_histSize r")
  case False
  let ?d = "drop (length dat - or_histSize r) dat"
  have "storeInHistory dat r = storeInHistory ?d r" using False by (simp add: storeInHistory_def Let_def)
  moreover have "last_bytes (or_histSize r) (hist_bytes r @ ?d) = last_bytes (or_histSize r) (hist_bytes r @ dat)"
    using False by (simp add: last_bytes_def)
  moreover have "length ?d \<le> or_histSize r" using False by simp
  ultimately show ?thesis using store_short [OF assms, of ?d] by simp
qed (rule store_short [OF assms])

lemma hist_nth:
  "j < or_bytesInHistory r \<Longrightarrow>
    hist_bytes r ! j = or_history r ! ((or_histEnd r + (or_histSize r - or_bytesInHistory r) + j) mod or_histSize r)"
  by (simp add: hist_bytes_def)

lemma dump_spec:
  assumes "hist_ok r" "- 1 \<le> s"
  shows "dumpHistory s r = last_bytes (if s = - 1 then or_histSize r else nat s) (hist_bytes r)"
proof -
  let ?e = "or_histEnd r" and ?N = "or_histSize r" and ?b = "or_bytesInHistory r"
  have ok: "length (or_history r) = ?N" "?e < ?N" "?b \<le> ?N" using assms(1) by (simp_all add: hist_ok_def)
  define k where "k = min ?b (if s = - 1 then ?N else nat s)"
  have k: "k \<le> ?b" "last_bytes (if s = - 1 then ?N else nat s) (hist_bytes r) = drop (?b - k) (hist_bytes r)"
    by (auto simp: k_def last_bytes_def hist_bytes_def min_def)
  have d: "dumpHistory s r = (if ?e < k then mem_read (or_history r) (?e + ?N - k) (k - ?e) @ mem_read (or_history r) 0 ?e
      else mem_read (or_history r) (?e - k) k)"
    using assms(2) ok(3) by (auto simp: dumpHistory_def Let_def k_def min_def nat_diff_distrib' nat_add_distrib intro!: arg_cong2 [of _ _ _ _ "mem_read (or_history r)"])
  have "dumpHistory s r = drop (?b - k) (hist_bytes r)"
  proof (rule nth_equalityI)
    show l: "length (dumpHistory s r) = length (drop (?b - k) (hist_bytes r))"
      using ok k(1) by (auto simp: d hist_bytes_def)
    fix i assume "i < length (dumpHistory s r)"
    then have i: "i < k" using l k(1) by (simp add: hist_bytes_def)
    have "drop (?b - k) (hist_bytes r) ! i = hist_bytes r ! (?b - k + i)" using k(1) by (simp add: hist_bytes_def)
    also have "\<dots> = or_history r ! ((?e + (?N - ?b) + (?b - k + i)) mod ?N)" using i k(1) by (intro hist_nth) simp
    also have "(?e + (?N - ?b) + (?b - k + i)) mod ?N = (?e + (?N - k + i)) mod ?N"
      using k(1) ok(3) by (intro arg_cong [of _ _ "\<lambda>x. x mod ?N"]) simp
    also have "\<dots> = (if ?e + i < k then ?e + (?N - k + i) else ?e + i - k)"
      using wrap_index [OF ok(2), of "?N - k + i"] i k(1) ok(3) by auto
    finally show "dumpHistory s r ! i = drop (?b - k) (hist_bytes r) ! i"
      using i ok k(1) by (auto simp: d nth_append mem_read_def min_def intro!: arg_cong [of _ _ "nth (or_history r)"])
  qed
  then show ?thesis using k(2) by simp
qed

lemma new_hist_ok: "length junk = 64 * 1024 \<Longrightarrow> hist_ok (OutputRedirector_new junk)" "hist_bytes (OutputRedirector_new junk) = []"
  "or_histSize (OutputRedirector_new junk) = 64 * 1024"
  by (simp_all add: hist_ok_def hist_bytes_def OutputRedirector_new_def)

lemma write_history: "hist_ok (writeToOstreams dat r) = hist_ok r" "hist_bytes (writeToOstreams dat r) = hist_bytes r"
  "or_histSize (writeToOstreams dat r) = or_histSize r"
  by (simp_all add: writeToOstreams_def hist_ok_def hist_bytes_def)

lemma fold_history:
  assumes "hist_ok r"
  shows "hist_ok (fold writeSomeBytes ds r) \<and> or_histSize (fold writeSomeBytes ds r) = or_histSize r \<and>
    (hist_bytes r = last_bytes (or_histSize r) xs \<longrightarrow>
      hist_bytes (fold writeSomeBytes ds r) = last_bytes (or_histSize r) (xs @ concat ds))"
  using assms
proof (induction ds arbitrary: r xs)
  case (Cons d ds)
  have s: "hist_ok (writeSomeBytes d r)" "or_histSize (writeSomeBytes d r) = or_histSize r"
    "hist_bytes (writeSomeBytes d r) = last_bytes (or_histSize r) (hist_bytes r @ d)"
    using store_spec [of "writeToOstreams d r" d] Cons.prems by (simp_all add: writeSomeBytes_def write_history)
  have "hist_bytes (writeSomeBytes d r) = last_bytes (or_histSize r) (xs @ d)" if "hist_bytes r = last_bytes (or_histSize r) xs"
    using s(3) that by (simp add: last_bytes_append)
  with Cons.IH [OF s(1), of "xs @ d"] s(2) show ?case by simp
qed simp

text \<open>
  Property C23: the history holds the last 64 kilobytes of the debug output.  After any sequence of writes to a new
  redirector, whatever their sizes, \<open>dumpHistory\<close> prints exactly the last \<open>s\<close> bytes of all that was written, or all that is kept for the
  default argument.
\<close>

theorem debug_history_is_tail:
  assumes "length junk = 64 * 1024" "r = fold writeSomeBytes ds (OutputRedirector_new junk)"
  shows "dumpHistory (- 1) r = last_bytes (64 * 1024) (concat ds) \<and>
    (0 \<le> s \<and> s \<le> 64 * 1024 \<longrightarrow> dumpHistory s r = last_bytes (nat s) (concat ds))"
proof -
  have r: "hist_ok r" "or_histSize r = 64 * 1024" "hist_bytes r = last_bytes (64 * 1024) (concat ds)"
    using fold_history [OF new_hist_ok(1) [OF assms(1)], of ds "[]"] assms(2) by (simp_all add: new_hist_ok last_bytes_def)
  have "last_bytes k (last_bytes (64 * 1024) (concat ds)) = last_bytes k (concat ds)" if "k \<le> 64 * 1024" for k
    using that by (cases "length (concat ds) \<le> 64 * 1024") (auto simp: last_bytes_def)
  then show ?thesis using dump_spec [OF r(1)] r(2,3) by auto
qed

text \<open>
  Closing the log file twice uses a deleted stream.  After the command \<open>debug logfile off\<close> with an open log file every further
  command that concerns the log file closes and deletes the stream again.
\<close>

lemma logfile_closed_twice:
  assumes "or_logfile r = Some l" "l \<notin> set (or_deleted r)"
  shows "\<exists>r'. debug_command_fn n1 c d [prog, ''logfile'', ''off''] (sc, r) = Inr (- 1, [], None, sc, r') \<and>
    debug_command_fn n2 c' d' [prog, ''logfile'', f] (sc', r') = Inl StreamDeleted"
  using assms by (simp add: debug_command_fn_def debug_logfile_def)

section \<open>Concrete instances\<close>

theorem debug_history_is_tail_witness:
  "dumpHistory 3 (fold writeSomeBytes [[1, 2], [], [3, 4]] (OutputRedirector_new (replicate (64 * 1024) 0))) = [2, 3, 4]"
proof -
  have "length (replicate (64 * 1024) (0 :: byte)) = 64 * 1024" by (simp only: length_replicate)
  from debug_history_is_tail [OF this refl, of "[[1, 2], [], [3, 4]]" 3] show ?thesis by (simp add: last_bytes_def)
qed

end
