(* ===== verification/Daemon_Commands.thy ===== *)
theory Daemon_Commands
  imports Routing_Properties Topo_Text
begin

text \<open>
  The shell commands of the routing daemon that change its periods and its verbosity (\<open>src/src/AwdsRouting.cc\<close>), and the
  helpers of the cryptographic unit that read a key file and random bytes (\<open>src/src/crypto/crypto_helpers.cc\<close>).  The
  contents of files are arguments; the format of a duration is the parameter \<open>show_duration\<close>.
\<close>

section \<open>Commands\<close>

text \<open>\<open>atoi\<close>: the value is cut to the range of \<open>long\<close> and then converted to \<open>int\<close>.\<close>

definition c_atoi :: "string \<Rightarrow> int" where
  "c_atoi str =
     (let s = dropWhile is_space str;
          neg = (case s of c # _ \<Rightarrow> c = CHR ''-'' | [] \<Rightarrow> False);
          s = (case s of c # cs \<Rightarrow> if c = CHR ''+'' \<or> c = CHR ''-'' then cs else s | [] \<Rightarrow> s);
          v = int (fst (digits_value 10 0 s));
          v = (if neg then - v else v);
          v = (if v > 2 ^ 63 - 1 then 2 ^ 63 - 1 else if v < - (2 ^ 63) then - (2 ^ 63) else v)
      in sint (word_of_int v :: u32))"

definition topoPeriod_command_fn :: "string \<Rightarrow> string list \<Rightarrow> AwdsRouting \<Rightarrow> int \<times> AwdsRouting \<times> string" where
  "topoPeriod_command_fn usage argv r =
     (if length argv = 2 \<and> argv ! 1 = ''show'' then
        (0, r, (if rt_topoPeriodType r = Adaptive then ''Adaptive: '' else ''Constant: '') @ decimal_int (rt_topoPeriod_ms r) @ '' ms'' @ endl)
      else if length argv = 2 \<and> argv ! 1 = ''adaptive'' then
        (0, r\<lparr>rt_topoPeriodType := Adaptive\<rparr>, ''Setting adaptive period.'' @ endl)
      else if length argv = 3 \<and> argv ! 1 = ''constant'' then
        (let p = c_atoi (argv ! 2) in
         if p = 0 then (- 1, r, ''Invalid value: '' @ decimal_int p @ endl)
         else (0, r\<lparr>rt_topoPeriodType := Constant, rt_topoPeriod_ms := p\<rparr>, ''Setting constant period to '' @ decimal_int p @ '' ms.'' @ endl))
      else (- 1, r, usage))"

definition beaconPeriod_command_fn ::
  "routing_env \<Rightarrow> (int \<Rightarrow> string) \<Rightarrow> string \<Rightarrow> string list \<Rightarrow> AwdsRouting \<Rightarrow> int \<times> AwdsRouting \<times> string" where
  "beaconPeriod_command_fn env show_duration usage argv r =
     (if length argv = 2 \<and> argv ! 1 = ''show'' then (0, r, show_duration (rt_beaconPeriod r * 1000) @ '' ms'' @ endl)
      else if length argv = 3 \<and> argv ! 1 = ''set'' then
        (let p = c_atoi (argv ! 2) in
         if p = 0 then (- 1, r, ''Invalid value: '' @ decimal_int p @ endl)
         else (0, r\<lparr>rt_beaconPeriod := te_duration (re_topo env) p 1000\<rparr>, ''Setting period to '' @ decimal_int p @ '' ms.'' @ endl))
      else (- 1, r, usage))"

definition verbose_command_fn :: "string \<Rightarrow> string list \<Rightarrow> AwdsRouting \<Rightarrow> int \<times> AwdsRouting \<times> string" where
  "verbose_command_fn usage argv r =
     (if length argv = 1 then (0, r, ''verbose: '' @ (if rt_verbose r then ''on'' else ''off'') @ endl)
      else if length argv = 2 then
        if argv ! 1 = ''on'' then (0, r\<lparr>rt_verbose := True\<rparr>, [])
        else if argv ! 1 = ''off'' then (0, r\<lparr>rt_verbose := False\<rparr>, [])
        else (- 1, r, usage)
      else (- 1, r, usage))"

section \<open>Numbers\<close>

lemma digit_char: "k < 10 \<Longrightarrow> digit_in 10 (''0123456789'' ! k) = Some k"
proof -
  have "\<forall>k \<in> {0, 1, 2, 3, 4, 5, 6, 7, 8, 9 :: nat}. digit_in 10 (''0123456789'' ! k) = Some k" by code_simp
  moreover assume "k < 10"
  then have "k \<in> {0, 1, 2, 3, 4, 5, 6, 7, 8, 9 :: nat}" by auto
  ultimately show ?thesis by blast
qed

lemma digits_value_append:
  "digits_value b v (xs @ ys) = (case digits_value b v xs of (w, []) \<Rightarrow> digits_value b w ys | (w, r) \<Rightarrow> (w, r @ ys))"
  by (induction b v xs rule: digits_value.induct) (auto split: option.split list.split prod.split)

lemma digits_value_decimal: "digits_value 10 0 (decimal n) = (n, [])"
proof (induction n rule: decimal.induct)
  case (1 n)
  show ?case
  proof (cases "n < 10")
    case True
    then show ?thesis using digit_char by (subst decimal.simps) simp
  next
    case False
    then have "digits_value 10 0 (decimal n) = (case digits_value 10 0 (decimal (n div 10)) of (w, []) \<Rightarrow>
        digits_value 10 w [''0123456789'' ! (n mod 10)] | (w, r) \<Rightarrow> (w, r @ [''0123456789'' ! (n mod 10)]))"
      by (subst decimal.simps) (simp only: digits_value_append if_False)
    then show ?thesis using 1 False digit_char [of "n mod 10"] by simp
  qed
qed

lemma decimal_first: "\<exists>c cs. decimal n = c # cs \<and> \<not> is_space c \<and> c \<noteq> CHR ''+'' \<and> c \<noteq> CHR ''-''"
proof (induction n rule: decimal.induct)
  case (1 n)
  have d: "\<forall>k \<in> {0, 1, 2, 3, 4, 5, 6, 7, 8, 9 :: nat}. \<not> is_space (''0123456789'' ! k) \<and> ''0123456789'' ! k \<noteq> CHR ''+'' \<and> ''0123456789'' ! k \<noteq> CHR ''-''"
    by code_simp
  show ?case
  proof (cases "n < 10")
    case True
    then have "n \<in> {0, 1, 2, 3, 4, 5, 6, 7, 8, 9 :: nat}" by auto
    with d True show ?thesis by (subst decimal.simps) auto
  next
    case False
    with 1 obtain c cs where "decimal (n div 10) = c # cs" "\<not> is_space c \<and> c \<noteq> CHR ''+'' \<and> c \<noteq> CHR ''-''" by auto
    with False show ?thesis by (subst decimal.simps) simp
  qed
qed

lemma atoi_decimal:
  assumes "- (2 ^ 31) \<le> p" "p < 2 ^ 31"
  shows "c_atoi (decimal_int p) = p"
proof -
  obtain c cs where c: "decimal (nat \<bar>p\<bar>) = c # cs" "\<not> is_space c" "c \<noteq> CHR ''+''" "c \<noteq> CHR ''-''"
    using decimal_first [of "nat \<bar>p\<bar>"] by auto
  have v: "digits_value 10 0 (c # cs) = (nat \<bar>p\<bar>, [])" using digits_value_decimal [of "nat \<bar>p\<bar>"] c(1) by simp
  have m: "\<not> is_space CHR ''-''" by code_simp
  have "sint (word_of_int p :: u32) = p" using assms by (simp add: signed_take_bit_int_eq_self signed_of_int)
  moreover have "\<not> p > 2 ^ 63 - 1" "\<not> p < - (2 ^ 63)" using assms by simp_all
  ultimately show ?thesis
    using c v m by (cases "p < 0") (simp_all add: c_atoi_def decimal_int_def Let_def del: digits_value.simps)
qed

section \<open>The beacon period\<close>

lemma send_beacon_hangs:
  assumes "neigh_inv r" "rt_beaconPeriod r \<le> 0" "rt_nextBeacon r \<le> rt_time r"
  shows "send_beacon env r = None"
proof -
  obtain ns l where "calcMpr r = oreturn (r\<lparr>rt_hop2list := l, rt_neighbors := ns\<rparr>)" using calcMpr_sets [OF assms(1)] by blast
  moreover have "next_beacon (rt_time r) (rt_beaconPeriod r) (rt_nextBeacon r) = None" using assms(2,3) by (rule next_beacon_diverges)
  ultimately show ?thesis
    by (simp add: send_beacon_def rt_new_packet_def Let_def rt_unref_def rt_emit_def rt_time_def)
qed


section \<open>Key files\<close>

datatype key_error = KeyBufferIndex | KeyOutOfBounds | RandomOverflow

text \<open>
  The loop over the sixteen bytes: \<open>None\<close> if a number is missing.  The buffer holds a zero behind the bytes that were
  read; a position behind the buffer is an error.
\<close>

fun key_loop :: "nat \<Rightarrow> nat \<Rightarrow> string \<Rightarrow> key_error + byte list option" where
  "key_loop 0 pos buf = Inr (Some [])"
| "key_loop (Suc n) pos buf =
     (let pos = pos + length (takeWhile (\<lambda>c. c = CHR '' '') (drop pos buf)) in
      if pos \<ge> length buf then Inl KeyOutOfBounds
      else case scan_hex2 (takeWhile (\<lambda>c. c \<noteq> nul) (drop pos buf)) of
          None \<Rightarrow> Inr None
        | Some v \<Rightarrow> rbind (key_loop n (pos + 2) buf) (\<lambda>k. Inr (map_option (\<lambda>k. ucast v # k) k)))"

text \<open>\<open>ret\<close> is the result of \<open>read\<close> and \<open>buf\<close> the buffer of 128 bytes after it.\<close>

definition readKeyFromFile :: "int \<Rightarrow> string \<Rightarrow> key_error + byte list" where
  "readKeyFromFile ret buf =
     (if ret < 0 \<or> ret \<ge> int (length buf) then Inl KeyBufferIndex
      else let buf = buf[nat ret := nul] in
        rbind (if ret \<ge> 32 then key_loop 16 0 buf else Inr None) (\<lambda>k.
          Inr (case k of None \<Rightarrow> map (\<lambda>c. of_nat (of_char c)) (take 16 buf) | Some newkey \<Rightarrow> newkey)))"

text \<open>
  Random bytes: the arguments are the missing number, the position, and what the calls of \<open>read\<close> return.  \<open>None\<close> if they
  do not suffice.
\<close>

fun random_loop :: "nat \<Rightarrow> nat \<Rightarrow> byte list list \<Rightarrow> byte list \<Rightarrow> (key_error + byte list) option" where
  "random_loop num cdest rs mem =
     (if num = 0 then Some (Inr mem)
      else case rs of [] \<Rightarrow> None
      | bs # rs \<Rightarrow>
          let bs = take num bs in
          if cdest + length bs > length mem then Some (Inl RandomOverflow)
          else random_loop (num - length bs) (cdest + (num - length bs)) rs (mem_write mem cdest bs))"

declare random_loop.simps [simp del]

definition getRandomByte :: "byte list list \<Rightarrow> byte list \<Rightarrow> (key_error + byte list) option" where
  "getRandomByte rs dest = random_loop (length dest) 0 rs dest"

text \<open>A key as text: each byte as two digits, with spaces before it.\<close>

definition key_text :: "(nat \<times> byte) list \<Rightarrow> string" where
  "key_text k = concat (map (\<lambda>(s, b). replicate s CHR '' '' @ [hexnum ! (unat b div 16), hexnum ! (unat b mod 16)]) k)"

lemma hex_digits_plain:
  assumes "a < 16"
  shows "hexnum ! a \<noteq> CHR '' ''" "hexnum ! a \<noteq> nul"
proof -
  have "\<forall>k \<in> set [0..<16]. hexnum ! k \<noteq> CHR '' '' \<and> hexnum ! k \<noteq> nul" by code_simp
  moreover have "a \<in> set [0..<16]" using assms by simp
  ultimately show "hexnum ! a \<noteq> CHR '' ''" "hexnum ! a \<noteq> nul" by blast+
qed

lemma takeWhile_blanks: "x \<noteq> c \<Longrightarrow> takeWhile (\<lambda>y. y = c) (replicate s c @ x # xs) = replicate s c"
  by (induction s) simp_all

lemma key_loop_text:
  "key_loop (length k) (length pre) (pre @ key_text k @ rest) = Inr (Some (map snd k))"
proof (induction k arbitrary: pre)
  case (Cons x k)
  obtain s b where x: "x = (s, b)" by (cases x)
  let ?d = "[hexnum ! (unat b div 16), hexnum ! (unat b mod 16)]"
  let ?buf = "pre @ key_text (x # k) @ rest"
  have "unat b < 256" using unsigned_less [of b] by simp
  then have b: "unat b div 16 < 16" "unat b mod 16 < 16" "unat b < 256" by auto
  have buf: "?buf = (pre @ replicate s CHR '' '' @ ?d) @ key_text k @ rest" by (simp add: key_text_def x)
  have sp: "takeWhile (\<lambda>c. c = CHR '' '') (drop (length pre) ?buf) = replicate s CHR '' ''"
    using hex_digits_plain(1) [OF b(1)] by (simp add: key_text_def x takeWhile_blanks)
  have at: "drop (length pre + s) ?buf = ?d @ key_text k @ rest" by (simp add: key_text_def x)
  have "takeWhile (\<lambda>c. c \<noteq> nul) (?d @ key_text k @ rest) = hexnum ! (unat b div 16) # hexnum ! (unat b mod 16) # takeWhile (\<lambda>c. c \<noteq> nul) (key_text k @ rest)"
    using hex_digits_plain(2) [OF b(1)] hex_digits_plain(2) [OF b(2)] by simp
  then have scan: "scan_hex2 (takeWhile (\<lambda>c. c \<noteq> nul) (drop (length pre + s) ?buf)) = Some (of_nat (unat b))"
    using scan_hex2_digits [OF b(1,2)] unfolding at by simp
  have "ucast (of_nat (unat b) :: u32) = b"
    using b(3) by (subst word_unat_eq_iff) (simp only: unsigned_ucast_eq unsigned_of_nat of_nat_id, simp add: take_bit_nat_eq_self)
  moreover have "key_loop (length k) (length pre + s + 2) ?buf = Inr (Some (map snd k))"
    using Cons.IH [of "pre @ replicate s CHR '' '' @ ?d"] unfolding buf by (simp add: add.assoc)
  moreover have "length pre + s < length ?buf" by (simp add: key_text_def x)
  ultimately show ?case
    unfolding length_Cons key_loop.simps Let_def sp length_replicate scan by (simp add: x)
qed (simp add: key_text_def)

text \<open>
  Property C25: a key file in hexadecimal form gives the key.  If the file holds the two digits of each of the sixteen bytes, with any
  number of spaces before them and anything behind them as long as fewer than 128 bytes are read, the key is the
  sequence of these bytes, and nothing outside of the buffer is accessed.
\<close>

theorem key_file_roundtrip:
  assumes "length k = 16" "buf = key_text k @ rest" "length buf = 128" "length (key_text k) \<le> n" "n < 128"
  shows "readKeyFromFile (int n) buf = Inr (map snd k)"
proof -
  have "2 * length k \<le> length (key_text k)" for k :: "(nat \<times> byte) list"
    by (induction k) (auto simp: key_text_def)
  from this [of k] have n: "32 \<le> n" using assms(1,4) by simp
  have "buf[n := nul] = key_text k @ rest[n - length (key_text k) := nul]"
    using assms(2,4) by (simp add: list_update_append)
  then have "key_loop 16 0 (buf[n := nul]) = Inr (Some (map snd k))"
    using key_loop_text [of k "[]" "rest[n - length (key_text k) := nul]"] assms(1) by simp
  then show ?thesis using assms(3,5) n by (simp add: readKeyFromFile_def)
qed

text \<open>Random bytes that arrive in two parts of which the first is the smaller one are written behind the destination.\<close>

lemma random_bytes_overflow:
  assumes "0 < length a" "2 * length a < length dest" "length a + length b = length dest"
  shows "getRandomByte [a, b] dest = Some (Inl RandomOverflow)"
proof -
  have "length dest < length dest - length a + length b" "dest \<noteq> []" "a \<noteq> []" using assms by auto
  then show ?thesis using assms(3) by (auto simp: getRandomByte_def random_loop.simps)
qed

lemma random_bytes_at_once: "length a = length dest \<Longrightarrow> getRandomByte [a] dest = Some (Inr a)"
  by (cases "dest = []") (simp_all add: getRandomByte_def random_loop.simps mem_write_def)

section \<open>Concrete instances\<close>


theorem key_file_roundtrip_witness:
  "readKeyFromFile 32 (''000102030405060708090A0B0C0D0E0F'' @ replicate 96 CHR ''x'') = Inr [0, 1, 2, 3, 4, 5, 6, 7, 8, 9, 10, 11, 12, 13, 14, 15]"
proof -
  let ?k = "map (\<lambda>b. (0, b)) [0, 1, 2, 3, 4, 5, 6, 7, 8, 9, 10, 11, 12, 13, 14, 15 :: byte] :: (nat \<times> byte) list"
  have t: "key_text ?k = ''000102030405060708090A0B0C0D0E0F''" by code_simp
  from key_file_roundtrip [of ?k "key_text ?k @ replicate 96 CHR ''x''" "replicate 96 CHR ''x''" 32] show ?thesis
    unfolding t by simp
qed

end
