(* ===== verification/Tap.thy ===== *)
theory Tap
  imports Crypto_Unit Routing_Properties
begin

text \<open>
  The virtual network interface (\<open>src/src/TapInterface.cc\<close>, \<open>src/src/awds/tapiface.h\<close>): frames that the system
  writes to the device are sent through the mesh, to the station behind which the destination has been seen or to
  all stations, and frames that arrive are written to the device.  The table of addresses is learned from the frames
  that arrive.  The cryptographic unit is the one of \<open>Crypto_Unit\<close>, or there is none.  Opening the device
  and setting its size are calls of the system and not modelled.
\<close>

section \<open>State\<close>

definition PROTO_NR :: int where "PROTO_NR = 0x62"

record MacEntry =
  me_id :: NodeId
  me_validity :: int

text \<open>A frame written to the device, or a call of \<open>write\<close> with a length that exceeds the packet buffer.\<close>

datatype tap_event = TapFrame "byte list" | TapBadWrite u64

record TapInterface =
  tap_macTable :: "(NodeId, MacEntry) omap"
  tap_written :: "tap_event list"
  tap_waits :: "int list"

datatype tap_error = TapAssertFails | TapBufferOverflow | TapCrypto cu_error | TapRouting rt_error

type_synonym 'a tap_result = "(tap_error + 'a) option"

definition tbind :: "'a tap_result \<Rightarrow> ('a \<Rightarrow> 'b tap_result) \<Rightarrow> 'b tap_result" where
  "tbind m f = (case m of None \<Rightarrow> None | Some (Inl e) \<Rightarrow> Some (Inl e) | Some (Inr x) \<Rightarrow> f x)"

definition lift_routing :: "'a rt_result \<Rightarrow> 'a tap_result" where
  "lift_routing m = map_option (map_sum TapRouting id) m"

lemma tbind_simps [simp]: "tbind (Some (Inr x)) f = f x" "tbind (Some (Inl e)) f = Some (Inl e)" "tbind None f = None"
  by (simp_all add: tbind_def)

definition TapInterface_new :: TapInterface where
  "TapInterface_new = \<lparr>tap_macTable = [], tap_written = [], tap_waits = []\<rparr>"

text \<open>The rest of \<open>init\<close>: the device is waited for and the receivers are registered.\<close>

definition tap_init :: "routing_env \<Rightarrow> nat \<Rightarrow> nat \<Rightarrow> nat \<Rightarrow> TapInterface \<times> AwdsRouting \<Rightarrow> TapInterface \<times> AwdsRouting" where
  "tap_init env uc bc d s =
     (case s of (tap, r) \<Rightarrow>
        (tap\<lparr>tap_waits := tap_waits tap @ [rt_time r + te_duration (re_topo env) 10 1]\<rparr>,
         registerBroadcastProtocol PROTO_NR bc d (registerUnicastProtocol PROTO_NR uc d r)))"

section \<open>The table of addresses\<close>

text \<open>The addresses of a frame are its first six bytes, the destination, and the next six, the source.\<close>

definition getNodeForMacAddress :: "byte list \<Rightarrow> int \<Rightarrow> TapInterface \<Rightarrow> NodeId option" where
  "getNodeForMacAddress mac t tap =
     (case om_find (NodeId_fromArray (mem_read mac 0 6)) (tap_macTable tap) of
        None \<Rightarrow> None
      | Some e \<Rightarrow> if me_validity e < t then None else Some (me_id e))"

definition storeSrcAndMac :: "routing_env \<Rightarrow> NodeId \<Rightarrow> byte list \<Rightarrow> int \<Rightarrow> TapInterface \<Rightarrow> TapInterface" where
  "storeSrcAndMac env i buf t tap =
     (let m = NodeId_fromArray (mem_read buf 6 6)
      in tap\<lparr>tap_macTable := om_insert m \<lparr>me_id = i, me_validity = t + te_duration (re_topo env) 30 1\<rparr> (tap_macTable tap)\<rparr>)"

section \<open>Sending\<close>

text \<open>The parts of the header that are authenticated: those a relay does not change.\<close>

definition flood_sign :: "MemoryBlock list" where
  "flood_sign = [(0, 3 + 6), (Flood_OffsetFloodType, 1)]"

definition unicast_sign :: "MemoryBlock list" where
  "unicast_sign = [(0, 3 + 2 * 6), (OffsetUcType, 1)]"

text \<open>The frame is copied behind the header and encrypted if there is a unit.\<close>

definition tap_contents ::
  "block_cipher \<Rightarrow> machine \<Rightarrow> nat \<Rightarrow> MemoryBlock list \<Rightarrow> byte list \<Rightarrow> BasePacket \<Rightarrow> AesCcmCryptoUnit option \<Rightarrow>
   (BasePacket \<times> AesCcmCryptoUnit option) tap_result" where
  "tap_contents E M off sg dat p cu =
     (if off + length dat > MaxSize then Some (Inl TapBufferOverflow)
      else let p = p\<lparr>buffer := mem_write (buffer p) off dat, psize := off + length dat\<rparr> in
        case cu of None \<Rightarrow> Some (Inr (p, None))
        | Some c \<Rightarrow>
            (case encrypt E M (of_nat off) (of_nat (length dat)) (Some sg) (c, buffer p) of
               Inl e \<Rightarrow> Some (Inl (TapCrypto e))
             | Inr (_, c, mem) \<Rightarrow> Some (Inr (p\<lparr>buffer := mem, psize := psize p + 32\<rparr>, Some c))))"

text \<open>
  The handler of the device: \<open>buf\<close> is the buffer of 3000 bytes and \<open>ret\<close> the number of bytes read into
  it.  \<open>cb\<close> is the callback \<open>tap_sendcb\<close>.
\<close>

definition tap_recv ::
  "block_cipher \<Rightarrow> machine \<Rightarrow> routing_env \<Rightarrow> nat \<Rightarrow> bool \<Rightarrow> int \<Rightarrow> byte list \<Rightarrow> int \<Rightarrow>
   TapInterface \<times> AesCcmCryptoUnit option \<times> AwdsRouting \<Rightarrow> (TapInterface \<times> AesCcmCryptoUnit option \<times> AwdsRouting) tap_result" where
  "tap_recv E M env cb ready t buf ret s =
     (case s of (tap, cu, r) \<Rightarrow>
        if \<not> ready then Some (Inr (tap\<lparr>tap_waits := tap_waits tap @ [t + te_duration (re_topo env) 10 1]\<rparr>, cu, r))
        else if ret < 0 then Some (Inl TapAssertFails)
        else let dat = take (nat ret) buf in
          case getNodeForMacAddress buf t tap of
            None \<Rightarrow>
              let (pid, p, r) = newFloodPacket PROTO_NR r in
              tbind (tap_contents E M FloodHeaderEnd flood_sign dat p cu) (\<lambda>(p, cu).
              tbind (lift_routing (sendBroadcast env (p\<lparr>send_cb := Some cb\<rparr>) r)) (\<lambda>(_, r).
              tbind (lift_routing (rt_unref pid r)) (\<lambda>r. Some (Inr (tap, cu, r)))))
          | Some destNode \<Rightarrow>
              let (pid, p, r) = newUnicastPacket PROTO_NR r in
              tbind (tap_contents E M UnicastPacketEnd unicast_sign dat (setUcDest destNode (UnicastPacket p)) cu) (\<lambda>(p, cu).
              tbind (lift_routing (sendUnicast env (p\<lparr>send_cb := Some cb\<rparr>) r)) (\<lambda>(_, r).
              tbind (lift_routing (rt_unref pid r)) (\<lambda>r. Some (Inr (tap, cu, r))))))"

definition tap_sendcb :: "routing_env \<Rightarrow> int \<Rightarrow> TapInterface \<Rightarrow> TapInterface" where
  "tap_sendcb env now tap = tap\<lparr>tap_waits := tap_waits tap @ [now + te_duration (re_topo env) 10 1]\<rparr>"

section \<open>Receiving\<close>

text \<open>Decryption; the size of the packet wraps in the argument when it is too short.\<close>

definition tap_open ::
  "block_cipher \<Rightarrow> machine \<Rightarrow> nat \<Rightarrow> MemoryBlock list \<Rightarrow> BasePacket \<Rightarrow> AesCcmCryptoUnit option \<Rightarrow>
   tap_error + (bool \<times> BasePacket \<times> AesCcmCryptoUnit option)" where
  "tap_open E M off sg p cu =
     (case cu of None \<Rightarrow> Inr (True, p, None)
      | Some c \<Rightarrow>
          (case decryptDupDetect E M (getSrc p) (of_nat off) (of_nat (psize p) - 32 - of_nat off) (Some sg) (c, buffer p) of
             Inl e \<Rightarrow> Inl (TapCrypto e)
           | Inr (ok, c, mem) \<Rightarrow>
               let p = p\<lparr>buffer := mem\<rparr> in Inr (ok, if ok then p\<lparr>psize := psize p - 32\<rparr> else p, Some c)))"

definition tap_write :: "nat \<Rightarrow> BasePacket \<Rightarrow> TapInterface \<Rightarrow> TapInterface" where
  "tap_write off p tap =
     (let len = of_nat (psize p) - of_nat off :: u64
      in tap\<lparr>tap_written := tap_written tap @
           [if off + unat len \<le> MaxSize then TapFrame (mem_read (buffer p) off (unat len)) else TapBadWrite len]\<rparr>)"

definition tap_deliver ::
  "block_cipher \<Rightarrow> machine \<Rightarrow> routing_env \<Rightarrow> nat \<Rightarrow> MemoryBlock list \<Rightarrow> int \<Rightarrow> BasePacket \<Rightarrow>
   TapInterface \<times> AesCcmCryptoUnit option \<Rightarrow> tap_error + (BasePacket \<times> TapInterface \<times> AesCcmCryptoUnit option)" where
  "tap_deliver E M env off sg now p s =
     (case s of (tap, cu) \<Rightarrow>
        rbind (tap_open E M off sg p cu) (\<lambda>(ok, p, cu).
          if \<not> ok then Inr (p, tap, cu)
          else Inr (p, storeSrcAndMac env (getSrc p) (drop off (buffer p)) now (tap_write off p tap), cu)))"

definition tap_recv_unicast ::
  "block_cipher \<Rightarrow> machine \<Rightarrow> routing_env \<Rightarrow> int \<Rightarrow> BasePacket \<Rightarrow>
   TapInterface \<times> AesCcmCryptoUnit option \<Rightarrow> tap_error + (BasePacket \<times> TapInterface \<times> AesCcmCryptoUnit option)" where
  "tap_recv_unicast E M env now p s = tap_deliver E M env UnicastPacketEnd unicast_sign now p s"

definition tap_recv_broadcast ::
  "block_cipher \<Rightarrow> machine \<Rightarrow> routing_env \<Rightarrow> NodeId \<Rightarrow> int \<Rightarrow> BasePacket \<Rightarrow>
   TapInterface \<times> AesCcmCryptoUnit option \<Rightarrow> tap_error + (BasePacket \<times> TapInterface \<times> AesCcmCryptoUnit option)" where
  "tap_recv_broadcast E M env my now p s =
     (let p = Flood p in
      case s of (tap, cu) \<Rightarrow> if getSrc p = my then Inr (p, tap, cu) else tap_deliver E M env FloodHeaderEnd flood_sign now p s)"

section \<open>Frames\<close>

text \<open>The table returns what has been learned until it expires.\<close>

lemma learned_address:
  assumes "om_ok (tap_macTable tap)" "t \<le> now + te_duration (re_topo env) 30 1" "mem_read mac 0 6 = mem_read buf 6 6"
  shows "getNodeForMacAddress mac t (storeSrcAndMac env i buf now tap) = Some i"
  using assms by (simp add: getNodeForMacAddress_def storeSrcAndMac_def Let_def om_find_insert)

text \<open>Both stations work without a unit, or their units have the same key and the nonce is new to the receiver.\<close>

definition units_agree :: "NodeId \<Rightarrow> AesCcmCryptoUnit option \<Rightarrow> AesCcmCryptoUnit option \<Rightarrow> bool" where
  "units_agree src cu cv \<longleftrightarrow>
     (case cu of None \<Rightarrow> cv = None
      | Some a \<Rightarrow>
          (case cv of None \<Rightarrow> False | Some b \<Rightarrow> cu_key b = cu_key a \<and> om_ok (cu_ivMap b) \<and> fresh src (cu_lastIv a + 1) b))"

text \<open>A packet as it arrives: relays have changed at most the bytes from \<open>lo\<close> to \<open>hi\<close>.\<close>

definition relayed :: "nat \<Rightarrow> nat \<Rightarrow> BasePacket \<Rightarrow> BasePacket \<Rightarrow> bool" where
  "relayed lo hi q p \<longleftrightarrow>
     pkt_ok p \<and> psize p = psize q \<and> (\<forall>i < psize q. i < lo \<or> hi \<le> i \<longrightarrow> buffer p ! i = buffer q ! i)"

text \<open>What the receiver does with the frame.\<close>

definition frame_received :: "routing_env \<Rightarrow> NodeId \<Rightarrow> byte list \<Rightarrow> int \<Rightarrow> TapInterface \<Rightarrow> TapInterface" where
  "frame_received env src dat now tap = storeSrcAndMac env src dat now (tap\<lparr>tap_written := tap_written tap @ [TapFrame dat]\<rparr>)"

lemma tap_finish:
  assumes "mem_read (buffer p) off (length dat) = dat" "psize p = off + length dat" "off + length dat \<le> MaxSize" "12 \<le> length dat"
    "pkt_ok p"
  shows "storeSrcAndMac env src (drop off (buffer p)) now (tap_write off p tap) = frame_received env src dat now tap"
proof -
  have l: "unat (of_nat (off + length dat) - of_nat off :: u64) = length dat"
    using assms(3) unat_small(1) [of "length dat"] by simp
  have "mem_read (drop off (buffer p)) 6 6 = mem_read (mem_read (buffer p) off (length dat)) 6 6"
    using assms(4) by (simp add: mem_read_def drop_take take_take add.commute)
  then have "mem_read (drop off (buffer p)) 6 6 = mem_read dat 6 6" using assms(1) by simp
  then show ?thesis using assms(1-3) l by (simp add: storeSrcAndMac_def tap_write_def frame_received_def Let_def)
qed

text \<open>A frame that has been put into a packet is what the receiver of the packet writes to its device.\<close>

definition frame_opens :: "block_cipher \<Rightarrow> machine \<Rightarrow> routing_env \<Rightarrow> nat \<Rightarrow> MemoryBlock list \<Rightarrow> int \<Rightarrow> nat \<Rightarrow> nat \<Rightarrow> byte list \<Rightarrow>
    AesCcmCryptoUnit option \<Rightarrow> BasePacket \<Rightarrow> bool" where
  "frame_opens E M env off sg now lo hi dat cu q \<longleftrightarrow>
     (\<forall>p tap cv. relayed lo hi q p \<and> units_agree (getSrc p) cu cv \<longrightarrow>
       (\<exists>x cv'. tap_deliver E M env off sg now p (tap, cv) = Inr (x, frame_received env (getSrc p) dat now tap, cv')))"

lemma frame_opened_plain:
  assumes "pkt_ok p" "off + length dat \<le> MaxSize" "12 \<le> length dat" "hi \<le> off"
  shows "\<exists>q. tap_contents E M off sg dat p None = Some (Inr (q, None)) \<and> pkt_ok q \<and> (\<forall>i < off. buffer q ! i = buffer p ! i) \<and>
    frame_opens E M' env off sg now lo hi dat None q"
proof -
  let ?n = "length dat" and ?m = "mem_write (buffer p) off dat"
  let ?p = "p\<lparr>buffer := ?m, psize := off + ?n\<rparr>"
  have m: "length ?m = MaxSize" "mem_read ?m off ?n = dat" "\<forall>i < off. ?m ! i = buffer p ! i"
    using assms(1,2) by (auto simp: pkt_ok_def mem_read_write_same nth_mem_write)
  have "tap_deliver E M' env off sg now p' (tap, None) = Inr (p', frame_received env (getSrc p') dat now tap, None)"
    if "relayed lo hi ?p p'" for p' tap
  proof -
    have "mem_read (buffer p') off ?n = mem_read ?m off ?n"
      using that m(1) assms(2,4) by (intro mem_read_cong) (auto simp: relayed_def pkt_ok_def)
    then show ?thesis
      using that m(2) assms(2,3) tap_finish [of p' off dat env "getSrc p'" now tap]
      by (simp add: relayed_def tap_deliver_def tap_open_def)
  qed
  then have "frame_opens E M' env off sg now lo hi dat None ?p" by (auto simp: frame_opens_def units_agree_def)
  then show ?thesis using assms(2) m by (auto simp: tap_contents_def Let_def pkt_ok_def)
qed

lemma frame_opened_cipher:
  assumes "cipher_ok E" "words_ok M off (length dat)" "words_ok M' off (length dat)" "pkt_ok p" "off + length dat + 32 + area_size sg \<le> MaxSize"
    and "\<forall>(q, k) \<in> set sg. q + k \<le> off" "12 \<le> length dat" "\<forall>i. in_areas sg i \<longrightarrow> i < lo \<or> hi \<le> i" "hi \<le> off" "9 \<le> off"
    and "length (cu_nonce a) = 16"
  shows "\<exists>q. tap_contents E M off sg dat p (Some a) = Some (Inr (q, Some (a\<lparr>cu_lastIv := cu_lastIv a + 1\<rparr>))) \<and> pkt_ok q \<and>
    (\<forall>i < off. buffer q ! i = buffer p ! i) \<and> frame_opens E M' env off sg now lo hi dat (Some a) q"
proof -
  let ?n = "length dat" and ?m = "mem_write (buffer p) off dat" and ?iv = "cu_lastIv a + 1"
  let ?p = "p\<lparr>buffer := ?m, psize := off + ?n\<rparr>"
  have m: "length ?m = MaxSize" "mem_read ?m off ?n = dat" "\<forall>i < off. ?m ! i = buffer p ! i"
    using assms(4,5) by (auto simp: pkt_ok_def mem_read_write_same nth_mem_write)
  have sg: "areas (Some sg) = sg" by (simp add: areas_def)
  obtain sent where S: "encrypt E M (of_nat off) (of_nat ?n) (Some sg) (a, ?m) = Inr ((), a\<lparr>cu_lastIv := ?iv\<rparr>, sent)"
    "length sent = MaxSize" "authentic E (cu_key a) sg off ?n sent" "cipher_of E (cu_key a) off ?n sent = dat"
    "mem_read sent (off + ?n + 16) 8 = toArray ?iv" "\<forall>i < off. sent ! i = ?m ! i"
    using encrypt_authentic [OF assms(1,2) m(1), of "Some sg" a] assms(5,6,11) m(2) unfolding sg by auto
  let ?q = "?p\<lparr>buffer := sent, psize := off + ?n + 32\<rparr>"
  have "\<exists>x cv'. tap_deliver E M' env off sg now p' (tap, cv) = Inr (x, frame_received env (getSrc p') dat now tap, cv')"
    if r: "relayed lo hi ?q p'" "units_agree (getSrc p') (Some a) cv" for p' tap cv
  proof -
    obtain b where b: "cv = Some b" "cu_key b = cu_key a" "om_ok (cu_ivMap b)" "fresh (getSrc p') ?iv b"
      using r(2) by (auto simp: units_agree_def split: option.splits)
    have p': "length (buffer p') = MaxSize" "psize p' = off + ?n + 32"
      "\<And>i. in_areas sg i \<or> off \<le> i \<and> i < off + ?n + 32 \<Longrightarrow> buffer p' ! i = sent ! i"
      using r(1) assms(6,8,9) by (fastforce simp: relayed_def pkt_ok_def in_areas_def)+
    have au: "authentic E (cu_key b) sg off ?n (buffer p')" "cipher_of E (cu_key b) off ?n (buffer p') = dat"
      "fromArray (mem_read (buffer p') (off + ?n + 16) 8) = ?iv"
      using authentic_cong [of sg off ?n "buffer p'" sent] p' S b(2) assms(5,6) fromArray_toArray [of ?iv "[]"] by simp_all
    obtain b' mem where D: "decryptDupDetect E M' (getSrc p') (of_nat off) (of_nat ?n) (Some sg) (b, buffer p') = Inr (True, b', mem)"
      "mem_read mem off ?n = dat" "length mem = MaxSize" "\<forall>i < off. mem ! i = buffer p' ! i"
      using decrypt_authentic [OF assms(1,3) p'(1), of "Some sg" b "getSrc p'"] assms(5,6) au b(3,4) unfolding sg by auto
    let ?p'' = "p'\<lparr>buffer := mem, psize := off + ?n\<rparr>"
    have src: "getSrc ?p'' = getSrc p'"
      using src.get_local [of ?p'' p'] D(3,4) p'(1) assms(10) by (simp add: pkt_ok_def offset_defs)
    have fin: "storeSrcAndMac env (getSrc p') (drop off (buffer ?p'')) now (tap_write off ?p'' tap) = frame_received env (getSrc p') dat now tap"
      using D(2,3) assms(5,7) by (intro tap_finish) (simp_all add: pkt_ok_def)
    have "of_nat (psize p') - 32 - of_nat off = (of_nat ?n :: u64)" using p'(2) by simp
    then have "tap_open E M' off sg p' cv = Inr (True, ?p'', Some b')" using D(1) p'(2) by (simp add: tap_open_def b(1))
    then show ?thesis using fin src by (simp add: tap_deliver_def)
  qed
  then have "frame_opens E M' env off sg now lo hi dat (Some a) ?q" by (auto simp: frame_opens_def)
  moreover have "tap_contents E M off sg dat p (Some a) = Some (Inr (?q, Some (a\<lparr>cu_lastIv := ?iv\<rparr>)))"
    using S(1) assms(5) by (simp add: tap_contents_def Let_def)
  ultimately show ?thesis using S(2,6) m(3) by (auto simp: pkt_ok_def)
qed

text \<open>The unit after a packet has been encrypted.\<close>

definition unit_used :: "AesCcmCryptoUnit option \<Rightarrow> AesCcmCryptoUnit option" where
  "unit_used cu = map_option (\<lambda>a. a\<lparr>cu_lastIv := cu_lastIv a + 1\<rparr>) cu"

definition unit_ready :: "AesCcmCryptoUnit option \<Rightarrow> bool" where
  "unit_ready cu \<longleftrightarrow> (case cu of None \<Rightarrow> True | Some a \<Rightarrow> length (cu_nonce a) = 16)"

lemma frame_opened:
  assumes "cipher_ok E" "words_ok M off (length dat)" "words_ok M' off (length dat)" "pkt_ok p" "off + length dat + 32 + area_size sg \<le> MaxSize"
    and "\<forall>(q, k) \<in> set sg. q + k \<le> off" "12 \<le> length dat" "\<forall>i. in_areas sg i \<longrightarrow> i < lo \<or> hi \<le> i" "hi \<le> off" "9 \<le> off"
    and "unit_ready cu"
  shows "\<exists>q. tap_contents E M off sg dat p cu = Some (Inr (q, unit_used cu)) \<and> pkt_ok q \<and>
    (\<forall>i < off. buffer q ! i = buffer p ! i) \<and> frame_opens E M' env off sg now lo hi dat cu q"
proof (cases cu)
  case None
  then show ?thesis using frame_opened_plain [OF assms(4) _ assms(7,9)] assms(5) by (simp add: unit_used_def)
next
  case (Some a)
  then show ?thesis using frame_opened_cipher [OF assms(1-10), of a] assms(11) by (simp add: unit_used_def unit_ready_def)
qed

text \<open>The packets a station makes for its frames.\<close>

lemma new_unicast:
  assumes "newUnicastPacket PROTO_NR r = (pid, p, r1)" "NodeId_ok (rt_myNodeId r)" "NodeId_ok dest"
    and "q = setUcDest dest (UnicastPacket p)"
  shows "pkt_ok q" "getSrc q = rt_myNodeId r" "getUcDest q = dest" "getUcPacketType q = PROTO_NR" "pid = rt_next_packet r"
proof -
  have ok: "pkt_ok new_BasePacket" "ubyte_ok 32" "ubyte_ok PROTO_NR" by (simp_all add: example_pkt(1) ubyte_ok_def PROTO_NR_def)
  have p: "pid = rt_next_packet r"
    "p = setUcPacketType PROTO_NR (setSeq (rt_unicastSeq r) (Uc_setTTL 32 (setNextHop (rt_myNodeId r) (setSrc (rt_myNodeId r)
       (setTraceFlag False (UnicastPacket new_BasePacket))))))"
    using assms(1) by (auto simp: newUnicastPacket_def Let_def rt_new_packet_def)
  show "pid = rt_next_packet r" by (fact p(1))
  show "pkt_ok q" "getSrc q = rt_myNodeId r" "getUcDest q = dest" "getUcPacketType q = PROTO_NR"
    using ok assms(2,3) unfolding assms(4) p(2) by (simp_all add: UnicastPacket_def hdr_simps)
qed

lemma new_flood:
  assumes "newFloodPacket PROTO_NR r = (pid, p, r1)" "NodeId_ok (rt_myNodeId r)"
  shows "pkt_ok p" "getSrc p = rt_myNodeId r" "getFloodType p = PROTO_NR" "getType p = PacketTypeFlood" "pid = rt_next_packet r"
proof -
  have ok: "pkt_ok new_BasePacket" "ubyte_ok 32" "sbyte_ok PROTO_NR" by (simp_all add: example_pkt(1) ubyte_ok_def sbyte_ok_def PROTO_NR_def)
  define q where "q = setSeq (rt_floodSeq r) (Flood_setTTL 32 (setFloodType PROTO_NR (setLastHop (rt_myNodeId r)
       (setSrc (rt_myNodeId r) (Flood new_BasePacket)))))"
  have p: "pid = rt_next_packet r" "p = setDest (rt_BroadcastId r) q"
    using assms(1) by (auto simp: newFloodPacket_def Let_def rt_new_packet_def q_def)
  show "pid = rt_next_packet r" by (fact p(1))
  have "pkt_ok q" "getSrc q = rt_myNodeId r" "getFloodType q = PROTO_NR" "getType q = PacketTypeFlood"
    using ok assms(2) unfolding q_def by (simp_all add: Flood_def hdr_simps)
  then show "pkt_ok p" "getSrc p = rt_myNodeId r" "getFloodType p = PROTO_NR" "getType p = PacketTypeFlood"
    unfolding p(2) by (simp_all add: setDest_def pkt_ok_def getSrc_def getFloodType_def getType_def)
qed

lemma Flood_id:
  assumes "getType p = PacketTypeFlood"
  shows "Flood p = p"
proof -
  have "buffer p ! 0 AND 3 = 1" using assms by (auto simp: getType_def Let_def split: if_splits)
  moreover have "(buffer p ! 0 AND NOT 3) OR (buffer p ! 0 AND 3) = buffer p ! 0" by (rule bit_eqI) (auto simp: bit_simps)
  ultimately have "(buffer p ! 0 AND NOT 3) OR 1 = buffer p ! 0" by simp
  then show ?thesis by (simp add: Flood_def setType_def list_update_same_conv list_update_id)
qed

lemma tap_layout:
  "area_size unicast_sign = 16" "\<forall>(q, k) \<in> set unicast_sign. q + k \<le> UnicastPacketEnd"
  "\<forall>i. in_areas unicast_sign i \<longrightarrow> i < OffsetNextHop \<or> OffsetUcType \<le> i" "OffsetUcType \<le> UnicastPacketEnd"
  "9 \<le> UnicastPacketEnd" "UnicastPacketEnd = 23"
  "area_size flood_sign = 10" "\<forall>(q, k) \<in> set flood_sign. q + k \<le> FloodHeaderEnd"
  "\<forall>i. in_areas flood_sign i \<longrightarrow> i < Flood_OffsetLastHop \<or> Flood_OffsetFloodType \<le> i" "Flood_OffsetFloodType \<le> FloodHeaderEnd"
  "9 \<le> FloodHeaderEnd" "FloodHeaderEnd = 17"
  by (auto simp: unicast_sign_def flood_sign_def area_size_def offset_defs)

text \<open>What follows when the packet has been handed to the routing: the reference is given up and the unit has counted.\<close>

definition tap_sent :: "nat \<Rightarrow> TapInterface \<Rightarrow> AesCcmCryptoUnit option \<Rightarrow> (BasePacket \<times> AwdsRouting) rt_result \<Rightarrow>
    (TapInterface \<times> AesCcmCryptoUnit option \<times> AwdsRouting) tap_result" where
  "tap_sent pid tap cu m =
     tbind (lift_routing m) (\<lambda>(_, r). tbind (lift_routing (rt_unref pid r)) (\<lambda>r. Some (Inr (tap, unit_used cu, r))))"

lemma relayed_src:
  assumes "relayed lo hi q p" "pkt_ok q" "9 \<le> lo" "9 \<le> psize q"
  shows "getSrc p = getSrc q"
  using assms by (intro src.get_local) (auto simp: relayed_def offset_defs)

lemma frame_opensD:
  assumes "frame_opens E M env off sg now lo hi dat cu q" "relayed lo hi q p" "units_agree (getSrc p) cu cv"
  shows "\<exists>x cv'. tap_deliver E M env off sg now p (tap, cv) = Inr (x, frame_received env (getSrc p) dat now tap, cv')"
  using assms by (simp add: frame_opens_def)

lemma tap_contents_size:
  "tap_contents E M off sg dat p cu = Some (Inr (q, cu')) \<Longrightarrow> off \<le> psize q"
  by (auto simp: tap_contents_def Let_def split: if_splits option.splits sum.splits)

lemma tap_sends_unicast:
  assumes "cipher_ok E" "words_ok M UnicastPacketEnd n" "words_ok M' UnicastPacketEnd n" "12 \<le> n" "n \<le> 3000" "length buf = 3000"
    and "unit_ready cu" "NodeId_ok (rt_myNodeId r)" "getNodeForMacAddress buf t tap = Some dest" "NodeId_ok dest"
  shows "\<exists>q r1. tap_recv E M env cb True t buf (int n) (tap, cu, r) = tap_sent (rt_next_packet r) tap cu (sendUnicast env q r1) \<and>
    pkt_ok q \<and> getUcDest q = dest \<and> getUcPacketType q = PROTO_NR \<and>
    (\<forall>p tapB cv. relayed OffsetNextHop OffsetUcType q p \<and> units_agree (rt_myNodeId r) cu cv \<longrightarrow>
      (\<exists>x cv'. tap_recv_unicast E M' env now p (tapB, cv) = Inr (x, frame_received env (rt_myNodeId r) (take n buf) now tapB, cv')))"
proof -
  let ?dat = "take n buf"
  have n: "length ?dat = n" using assms(5,6) by simp
  obtain pid p r1 where new: "newUnicastPacket PROTO_NR r = (pid, p, r1)" by (metis prod_cases3)
  define p1 where "p1 = setUcDest dest (UnicastPacket p)"
  note p1 = new_unicast [OF new assms(8,10) p1_def]
  have w: "words_ok M UnicastPacketEnd (length ?dat)" "words_ok M' UnicastPacketEnd (length ?dat)" using assms(2,3) n by simp_all
  have len: "UnicastPacketEnd + length ?dat + 32 + area_size unicast_sign \<le> MaxSize" "12 \<le> length ?dat"
    using assms(4,5) n by (simp_all add: tap_layout MaxSize_def)
  obtain q where q: "tap_contents E M UnicastPacketEnd unicast_sign ?dat p1 cu = Some (Inr (q, unit_used cu))" "pkt_ok q"
    "\<forall>i < UnicastPacketEnd. buffer q ! i = buffer p1 ! i"
    "frame_opens E M' env UnicastPacketEnd unicast_sign now OffsetNextHop OffsetUcType ?dat cu q"
    using frame_opened [OF assms(1) w p1(1) len(1) tap_layout(2) len(2) tap_layout(3-5) assms(7)] by blast
  let ?q = "q\<lparr>send_cb := Some cb\<rparr>"
  have "getUcDest q = getUcDest p1" "getUcPacketType q = getUcPacketType p1" "getSrc q = getSrc p1"
    using q(2,3) p1(1) by (auto intro!: uc_dest.get_local uc_type.get_local src.get_local simp: offset_defs)
  then have f: "getUcDest ?q = dest" "getUcPacketType ?q = PROTO_NR" "getSrc q = rt_myNodeId r"
    using p1(2-4) by (simp_all add: getUcDest_def getUcPacketType_def)
  have "tap_recv E M env cb True t buf (int n) (tap, cu, r) = tap_sent (rt_next_packet r) tap cu (sendUnicast env ?q r1)"
    using q(1) new assms(9) p1(5) by (simp add: tap_recv_def tap_sent_def Let_def p1_def [symmetric])
  moreover have "\<exists>x cv'. tap_recv_unicast E M' env now p' (tapB, cv) = Inr (x, frame_received env (rt_myNodeId r) ?dat now tapB, cv')"
    if r: "relayed OffsetNextHop OffsetUcType ?q p'" "units_agree (rt_myNodeId r) cu cv" for p' tapB cv
  proof -
    have rel: "relayed OffsetNextHop OffsetUcType q p'" using r(1) by (simp add: relayed_def)
    from relayed_src [OF rel q(2)] tap_contents_size [OF q(1)] f(3) have "getSrc p' = rt_myNodeId r"
      by (simp add: offset_defs)
    then show ?thesis using frame_opensD [OF q(4) rel, of cv tapB] r(2) by (simp add: tap_recv_unicast_def)
  qed
  moreover have "pkt_ok ?q" using q(2) by (simp add: pkt_ok_def)
  ultimately show ?thesis using f(1,2) by blast
qed

lemma tap_sends_flood:
  assumes "cipher_ok E" "words_ok M FloodHeaderEnd n" "words_ok M' FloodHeaderEnd n" "12 \<le> n" "n \<le> 3000" "length buf = 3000"
    and "unit_ready cu" "NodeId_ok (rt_myNodeId r)" "getNodeForMacAddress buf t tap = None"
  shows "\<exists>q r1. tap_recv E M env cb True t buf (int n) (tap, cu, r) = tap_sent (rt_next_packet r) tap cu (sendBroadcast env q r1) \<and>
    pkt_ok q \<and> getFloodType q = PROTO_NR \<and>
    (\<forall>p tapB cv my. relayed Flood_OffsetLastHop Flood_OffsetFloodType q p \<and> units_agree (rt_myNodeId r) cu cv \<and> my \<noteq> rt_myNodeId r \<longrightarrow>
      (\<exists>x cv'. tap_recv_broadcast E M' env my now p (tapB, cv) = Inr (x, frame_received env (rt_myNodeId r) (take n buf) now tapB, cv')))"
proof -
  let ?dat = "take n buf"
  have n: "length ?dat = n" using assms(5,6) by simp
  obtain pid p r1 where new: "newFloodPacket PROTO_NR r = (pid, p, r1)" by (metis prod_cases3)
  note p = new_flood [OF new assms(8)]
  have w: "words_ok M FloodHeaderEnd (length ?dat)" "words_ok M' FloodHeaderEnd (length ?dat)" using assms(2,3) n by simp_all
  have len: "FloodHeaderEnd + length ?dat + 32 + area_size flood_sign \<le> MaxSize" "12 \<le> length ?dat"
    using assms(4,5) n by (simp_all add: tap_layout MaxSize_def)
  obtain q where q: "tap_contents E M FloodHeaderEnd flood_sign ?dat p cu = Some (Inr (q, unit_used cu))" "pkt_ok q"
    "\<forall>i < FloodHeaderEnd. buffer q ! i = buffer p ! i"
    "frame_opens E M' env FloodHeaderEnd flood_sign now Flood_OffsetLastHop Flood_OffsetFloodType ?dat cu q"
    using frame_opened [OF assms(1) w p(1) len(1) tap_layout(8) len(2) tap_layout(9-11) assms(7)] by blast
  let ?q = "q\<lparr>send_cb := Some cb\<rparr>"
  have "getFloodType q = getFloodType p" "getType q = getType p" "getSrc q = getSrc p"
    using q(2,3) p(1) by (auto intro!: fl_type.get_local pk_type.get_local src.get_local simp: offset_defs)
  then have f: "getFloodType ?q = PROTO_NR" "getType q = PacketTypeFlood" "getSrc q = rt_myNodeId r"
    using p(2-4) by (simp_all add: getFloodType_def)
  have "tap_recv E M env cb True t buf (int n) (tap, cu, r) = tap_sent (rt_next_packet r) tap cu (sendBroadcast env ?q r1)"
    using q(1) new assms(9) p(5) by (simp add: tap_recv_def tap_sent_def Let_def)
  moreover have "\<exists>x cv'. tap_recv_broadcast E M' env my now p' (tapB, cv) = Inr (x, frame_received env (rt_myNodeId r) ?dat now tapB, cv')"
    if r: "relayed Flood_OffsetLastHop Flood_OffsetFloodType ?q p'" "units_agree (rt_myNodeId r) cu cv" "my \<noteq> rt_myNodeId r" for p' tapB cv my
  proof -
    have rel: "relayed Flood_OffsetLastHop Flood_OffsetFloodType q p'" using r(1) by (simp add: relayed_def)
    have size: "17 \<le> psize q" using tap_contents_size [OF q(1)] by (simp add: tap_layout)
    then have src: "getSrc p' = rt_myNodeId r" using relayed_src [OF rel q(2)] f(3) by (simp add: offset_defs)
    have "getType p' = getType q" using rel q(2) size by (intro pk_type.get_local) (auto simp: relayed_def offset_defs)
    then have "Flood p' = p'" using f(2) by (simp add: Flood_id)
    then show ?thesis using frame_opensD [OF q(4) rel, of cv tapB] r(2,3) src by (simp add: tap_recv_broadcast_def)
  qed
  moreover have "pkt_ok ?q" using q(2) by (simp add: pkt_ok_def)
  ultimately show ?thesis using f(1) by blast
qed


text \<open>
  Property C40: a station without the key can redirect the traffic of an encrypted network.  A unicast packet with only 16 bytes behind its
  header is accepted by the interface whatever its bytes are, if those in the place of the nonce are fresh: it
  makes the station call \<open>write\<close> with a length outside of the buffer and learn that the address in bytes 6 to 11 behind the header is found at
  the station that the packet claims to be from, so that frames for that address are sent there for the next 30 seconds.
\<close>

theorem forged_packet_redirects_frames:
  assumes "cipher_ok E" "4 dvd ctx_addr M" "pkt_ok p" "psize p = UnicastPacketEnd + 16" "om_ok (cu_ivMap c)" "om_ok (tap_macTable tap)"
    and "fresh (getSrc p) (fromArray (mem_read (buffer p) UnicastPacketEnd 8)) c"
  shows "\<exists>x tap' c' len. tap_recv_unicast E M env now p (tap, Some c) = Inr (x, tap', Some c') \<and>
    tap_written tap' = tap_written tap @ [TapBadWrite len] \<and>
    (\<forall>mac t. mem_read mac 0 6 = mem_read (buffer p) (UnicastPacketEnd + 6) 6 \<and> t \<le> now + te_duration (re_topo env) 30 1 \<longrightarrow>
      getNodeForMacAddress mac t tap' = Some (getSrc p))"
proof -
  have sg: "areas (Some unicast_sign) = unicast_sign" by (simp add: areas_def)
  have m: "length (buffer p) = MaxSize" "(1 :: nat) \<le> 16" "(16 :: nat) \<le> 16" "23 + 48 + area_size (areas (Some unicast_sign)) \<le> MaxSize"
    "\<forall>(q, n) \<in> set (areas (Some unicast_sign)). q + n \<le> 23" "fresh (getSrc p) (fromArray (mem_read (buffer p) (23 + 16 - 16) 8)) c"
    using assms(3,7) tap_layout(1,2,6) unfolding sg by (simp_all add: pkt_ok_def MaxSize_def)
  obtain c' mem where D: "decryptDupDetect E M (getSrc p) (of_nat 23) (of_nat (23 + 32 - 16) - 32 - of_nat 23) (Some unicast_sign) (c, buffer p) = Inr (True, c', mem)"
    "length mem = MaxSize" "\<forall>i. i < 23 \<or> 23 + 16 - 16 \<le> i \<and> i < 23 + 32 - 16 \<longrightarrow> mem ! i = buffer p ! i"
    using short_packet_decrypted [OF assms(1,2) m(1-5) assms(5) m(6)] by blast
  let ?p = "p\<lparr>buffer := mem, psize := psize p - 32\<rparr>"
  let ?len = "of_nat (psize p - 32) - of_nat 23 :: u64"
  have size: "psize p = 39" using assms(4) by (simp add: tap_layout)
  have same: "mem ! i = buffer p ! i" if "i < 39" for i using D(3) that by auto
  have src: "getSrc ?p = getSrc p" using same D(2) m(1) by (intro src.get_local) (simp_all add: pkt_ok_def offset_defs)
  have "mem_read mem 29 6 = mem_read (buffer p) 29 6" using same D(2) m(1) by (intro mem_read_cong) (simp_all add: MaxSize_def)
  then have mac: "mem_read (drop 23 mem) 6 6 = mem_read (buffer p) 29 6" by (simp add: mem_read_def)
  have len: "?len = - 16" by (simp add: size)
  have "unat (- 16 :: u64) = 2 ^ 64 - 16" by simp
  then have bad: "\<not> 23 + unat ?len \<le> MaxSize" unfolding len by (simp add: MaxSize_def)
  have "tap_open E M 23 unicast_sign p (Some c) = Inr (True, ?p, Some c')"
    using D(1) by (simp add: tap_open_def size)
  then have "tap_recv_unicast E M env now p (tap, Some c) =
      Inr (?p, storeSrcAndMac env (getSrc p) (drop 23 mem) now (tap_write 23 ?p tap), Some c')"
    using src by (simp add: tap_recv_unicast_def tap_deliver_def tap_layout(6))
  moreover have "tap_written (storeSrcAndMac env (getSrc p) (drop 23 mem) now (tap_write 23 ?p tap)) = tap_written tap @ [TapBadWrite ?len]"
    using bad by (simp add: storeSrcAndMac_def tap_write_def Let_def)
  moreover have "om_ok (tap_macTable (tap_write 23 ?p tap))" using assms(6) by (simp add: tap_write_def Let_def)
  ultimately show ?thesis
    using learned_address mac by (auto simp: tap_layout(6))
qed

section \<open>Concrete instances\<close>

lemma example_words: "words_ok (example_machine 4) 23 60" "words_ok (example_machine 4) 17 60"
  by (simp_all add: words_ok_def example_machine_def)


theorem forged_packet_redirects_frames_witness:
  "\<exists>x tap' c'. tap_recv_unicast example_cipher (example_machine 8) example_renv 0 (new_BasePacket\<lparr>buffer := replicate MaxSize 1, psize := 39\<rparr>)
     (TapInterface_new, Some example_unit) = Inr (x, tap', Some c') \<and>
    getNodeForMacAddress (replicate 6 1) 1 tap' = Some (NodeId 0x010101010101)"
proof -
  let ?p = "new_BasePacket\<lparr>buffer := replicate MaxSize 1, psize := 39\<rparr>"
  have "(fromArray (replicate 8 1) :: u64) \<noteq> 0" by code_simp
  moreover have r: "mem_read (replicate MaxSize (1 :: byte)) k n = replicate n 1" if "k + n \<le> MaxSize" for k n
    using that by (simp add: mem_read_def)
  ultimately have "fresh (getSrc ?p) (fromArray (mem_read (buffer ?p) UnicastPacketEnd 8)) example_unit"
    by (simp add: fresh_def om_find_def tap_layout MaxSize_def)
  moreover have "getSrc ?p = NodeId_fromArray (replicate 6 1)" using r by (simp add: getSrc_def offset_defs MaxSize_def)
  moreover have "NodeId_fromArray (replicate 6 1) = NodeId 0x010101010101" by code_simp
  moreover have "mem_read (replicate 6 1) 0 6 = mem_read (buffer ?p) (UnicastPacketEnd + 6) 6" using r by (simp add: tap_layout MaxSize_def mem_read_def)
  moreover have "(1 :: int) \<le> 0 + te_duration (re_topo example_renv) 30 1" by (simp add: example_renv_def example_duration)
  ultimately show ?thesis
    using forged_packet_redirects_frames [OF example_cipher_ok, of "example_machine 8" ?p example_unit TapInterface_new example_renv 0]
    by (auto simp: tap_layout pkt_ok_def TapInterface_new_def)
qed

end
