(* ===== verification/Pinger.thy ===== *)
theory Pinger
  imports Tap Shell Daemon_Commands
begin

text \<open>
  The module that pings other stations (\<open>src/src/pinger.cc\<close>): the parser of its options, the timer that sends requests, the
  receiver that answers requests and measures answers, and the shell command.  Floating point operations are in the record
  \<open>doubles\<close>; how GEA stores a duration in eight bytes, and the parser of a floating point number with its conversion into a duration, are
  parameters.
\<close>

section \<open>State\<close>

record 'd doubles =
  d_duration :: "int \<Rightarrow> 'd"
  d_min :: "'d \<Rightarrow> 'd \<Rightarrow> 'd"
  d_max :: "'d \<Rightarrow> 'd \<Rightarrow> 'd"
  d_add :: "'d \<Rightarrow> 'd \<Rightarrow> 'd"
  d_first_min :: 'd
  d_first_max :: 'd
  d_zero :: 'd

record duration_bytes =
  db_toArray :: "int \<Rightarrow> byte list"
  db_fromArray :: "byte list \<Rightarrow> int"

text \<open>What the code relies on of the storage of durations: eight bytes, from which one that fits into 64 bits is read back.\<close>

definition duration_bytes_ok :: "duration_bytes \<Rightarrow> bool" where
  "duration_bytes_ok db \<longleftrightarrow> 
     (\<forall>d. length (db_toArray db d) = 8 \<and> (- (2 ^ 63) \<le> d \<and> d < 2 ^ 63 \<longrightarrow> db_fromArray db (db_toArray db d) = d))"

record 'd Pinger =
  pg_busy :: bool
  pg_dest :: NodeId
  pg_ttl :: u32
  pg_numRepeat :: int
  pg_doTracePath :: bool
  pg_minRTT :: 'd
  pg_maxRTT :: 'd
  pg_sumRTT :: 'd
  pg_numReceived :: int
  pg_numTransmitted :: int
  pg_period :: int
  pg_pingSize :: u64
  pg_myT0 :: int
  pg_paths :: "NodeId list list"
  pg_waits :: "int list"

datatype pg_error = PgRouting rt_error | PgOutOfBounds | PgShell shell_error

type_synonym 'a pg_result = "(pg_error + 'a) option"

definition pg_lift :: "'a rt_result \<Rightarrow> 'a pg_result" where
  "pg_lift m = map_option (map_sum PgRouting id) m"

definition pbind :: "'a pg_result \<Rightarrow> ('a \<Rightarrow> 'b pg_result) \<Rightarrow> 'b pg_result" where
  "pbind m f = (case m of None \<Rightarrow> None | Some (Inl e) \<Rightarrow> Some (Inl e) | Some (Inr x) \<Rightarrow> f x)"

lemma pbind_simps [simp]: "pbind (Some (Inr x)) f = f x" "pbind (Some (Inl e)) f = Some (Inl e)" "pbind None f = None"
  by (simp_all add: pbind_def)

definition PACKET_TYPE_UC_PING :: int where "PACKET_TYPE_UC_PING = 42"

definition PingTraceNum :: nat where "PingTraceNum = UnicastPacketEnd"
definition PingDirection :: nat where "PingDirection = PingTraceNum + 2"
definition PingTimeStamp :: nat where "PingTimeStamp = PingDirection + 1"
definition PingHeaderEnd :: nat where "PingHeaderEnd = PingTimeStamp + 8"

lemmas ping_offsets = PingTraceNum_def PingDirection_def PingTimeStamp_def PingHeaderEnd_def

definition resetStats :: "'d doubles \<Rightarrow> 'd Pinger \<Rightarrow> 'd Pinger" where
  "resetStats D g = g\<lparr>pg_minRTT := d_first_min D, pg_maxRTT := d_first_max D, pg_sumRTT := d_zero D, pg_numReceived := 0, pg_numTransmitted := 0\<rparr>"

section \<open>Options\<close>

text \<open>\<open>strtol\<close> with base 0: the value and the rest of the string, or nothing if there is no number.\<close>

definition c_strtol :: "string \<Rightarrow> (int \<times> string) option" where
  "c_strtol name =
     (let s = dropWhile is_space name;
          neg = (case s of c # _ \<Rightarrow> c = CHR ''-'' | [] \<Rightarrow> False);
          s = (case s of c # cs \<Rightarrow> if c = CHR ''+'' \<or> c = CHR ''-'' then cs else s | [] \<Rightarrow> s)
      in map_option (\<lambda>(v, r). let v = (if neg then - int v else int v)
           in (if v > 2 ^ 63 - 1 then 2 ^ 63 - 1 else if v < - (2 ^ 63) then - (2 ^ 63) else v, r)) (strtoul_digits s))"

text \<open>The value that is stored, and whether the whole argument was a number.\<close>

definition number_arg :: "string \<Rightarrow> int \<times> bool" where
  "number_arg a = (case c_strtol a of None \<Rightarrow> (0, False) | Some (v, r) \<Rightarrow> (v, r = []))"

text \<open>
  The loop over the arguments; \<open>seconds\<close> stands for \<open>strtod\<close> and \<open>setSeconds\<close> and gives nothing if the argument is not a number.  The
  second component of the result is the name of the destination, if the arguments are well-formed.
\<close>

fun opts_loop :: "(string \<Rightarrow> int option) \<Rightarrow> string list \<Rightarrow> string option \<Rightarrow> 'd Pinger \<Rightarrow> 'd Pinger \<times> string option" where
  "opts_loop seconds [] destName g = (g, destName)"
| "opts_loop seconds (a # as) destName g =
     (if a = ''-p'' then opts_loop seconds as destName (g\<lparr>pg_doTracePath := True\<rparr>)
      else if a \<in> {''-s'', ''-i'', ''-t''} then
        (case as of [] \<Rightarrow> (g, None)
         | v # as \<Rightarrow>
             if a = ''-s'' then
               (let (n, ok) = number_arg v; g = g\<lparr>pg_pingSize := word_of_int n\<rparr>
                in if ok then opts_loop seconds as destName g else (g, None))
             else if a = ''-i'' then
               (case seconds v of None \<Rightarrow> (g, None) | Some d \<Rightarrow> opts_loop seconds as destName (g\<lparr>pg_period := d\<rparr>))
             else
               (let (n, ok) = number_arg v; g = g\<lparr>pg_ttl := word_of_int n\<rparr>
                in if ok then opts_loop seconds as destName g else (g, None)))
      else if destName \<noteq> None then (g, None)
      else opts_loop seconds as (Some a) g)"

declare opts_loop.simps [simp del]

definition parse_opts :: "routing_env \<Rightarrow> (string \<Rightarrow> int option) \<Rightarrow> RTopology \<Rightarrow> string list \<Rightarrow> 'd Pinger \<Rightarrow> int \<times> 'd Pinger" where
  "parse_opts env seconds t argv g =
     (let g = g\<lparr>pg_period := te_duration (re_topo env) 1 1, pg_pingSize := 200, pg_ttl := 64, pg_numRepeat := - 1, pg_doTracePath := False\<rparr>;
          (g, destName) = opts_loop seconds (tl argv) None g
      in case destName of None \<Rightarrow> (- 1, g)
         | Some n \<Rightarrow> (case getNodeByName n t of None \<Rightarrow> (- 1, g) | Some i \<Rightarrow> (0, g\<lparr>pg_dest := i\<rparr>)))"

section \<open>Requests and answers\<close>

definition ping_packet :: "duration_bytes \<Rightarrow> int \<Rightarrow> 'd Pinger \<Rightarrow> BasePacket \<Rightarrow> BasePacket" where
  "ping_packet db t g p =
     (let p = TraceUcPacket (setDest (pg_dest g) p);
          p = setUcDest (pg_dest g) p;
          p = Uc_setTTL (uint (pg_ttl g)) p;
          p = p\<lparr>psize := max (unat (pg_pingSize g)) PingHeaderEnd\<rparr>;
          p = p\<lparr>buffer := (buffer p)[PingDirection := of_char CHR ''i'']\<rparr>;
          p = p\<lparr>buffer := mem_write (buffer p) PingTimeStamp (db_toArray db (t - pg_myT0 g))\<rparr>
      in if pg_doTracePath g then setTraceFlag True (setTracePointer PingHeaderEnd p) else p)"

text \<open>The timer, or a key in the shell of the client, which ends the ping.\<close>

definition next_ping ::
  "routing_env \<Rightarrow> duration_bytes \<Rightarrow> int \<Rightarrow> bool \<Rightarrow> int \<Rightarrow> 'd Pinger \<times> TcpShellClient \<times> AwdsRouting \<Rightarrow>
   ('d Pinger \<times> TcpShellClient \<times> AwdsRouting) pg_result" where
  "next_ping env db deadline ready t s =
     (case s of (g, c, r) \<Rightarrow>
        if ready then
          (case unblock deadline c of Inl e \<Rightarrow> Some (Inl (PgShell e)) | Inr c \<Rightarrow> Some (Inr (g\<lparr>pg_busy := False\<rparr>, c, r)))
        else let (pid, p, r) = newUnicastPacket PACKET_TYPE_UC_PING r;
               p = ping_packet db t g p;
               g = g\<lparr>pg_pingSize := of_nat (psize p)\<rparr>
          in pbind (pg_lift (sendUnicast env p r)) (\<lambda>(_, r).
             pbind (pg_lift (rt_unref pid r)) (\<lambda>r.
               Some (Inr (g\<lparr>pg_numTransmitted := pg_numTransmitted g + 1, pg_waits := pg_waits g @ [t + pg_period g]\<rparr>, c, r)))))"

text \<open>The path in an answer: the identifiers from the end of the header to the trace pointer.\<close>

function path_loop :: "nat \<Rightarrow> nat \<Rightarrow> byte list \<Rightarrow> pg_error + NodeId list" where
  "path_loop nPtr tPtr buf =
     (if nPtr < tPtr then
        if nPtr + 6 > length buf then Inl PgOutOfBounds
        else rbind (path_loop (nPtr + 6) tPtr buf) (\<lambda>ns. Inr (NodeId_fromArray (mem_read buf nPtr 6) # ns))
      else Inr [])"
  by pat_completeness auto
termination by (relation "measure (\<lambda>(n, t, b). t - n)") auto

declare path_loop.simps [simp del]

definition ping_answer :: "AwdsRouting \<Rightarrow> BasePacket \<Rightarrow> BasePacket" where
  "ping_answer r p =
     (let p = TraceUcPacket p; p = setUcDest (getSrc p) p; p = setSrc (rt_myNodeId r) p
      in p\<lparr>buffer := (buffer p)[PingDirection := of_char CHR ''o'']\<rparr>)"

definition pong_stats :: "'d doubles \<Rightarrow> int \<Rightarrow> 'd Pinger \<Rightarrow> 'd Pinger" where
  "pong_stats D rtt g =
     (let deltaT = d_duration D rtt
      in g\<lparr>pg_minRTT := d_min D (pg_minRTT g) deltaT, pg_maxRTT := d_max D (pg_maxRTT g) deltaT,
           pg_sumRTT := d_add D (pg_sumRTT g) deltaT, pg_numReceived := pg_numReceived g + 1\<rparr>)"

definition ping_recv ::
  "routing_env \<Rightarrow> 'd doubles \<Rightarrow> duration_bytes \<Rightarrow> nat \<Rightarrow> BasePacket \<Rightarrow> 'd Pinger \<times> AwdsRouting \<Rightarrow> ('d Pinger \<times> AwdsRouting) pg_result" where
  "ping_recv env D db pid p s =
     (case s of (g, r) \<Rightarrow>
        let p = TraceUcPacket p in
        if buffer p ! PingDirection = of_char CHR ''i'' then
          pbind (pg_lift (sendUnicast env (ping_answer r p) (rt_ref pid r))) (\<lambda>(_, r).
          pbind (pg_lift (rt_unref pid r)) (\<lambda>r. Some (Inr (g, r))))
        else
          let timestamp = db_fromArray db (mem_read (buffer p) PingTimeStamp 8);
              rtt = rt_time r - (pg_myT0 g + timestamp)
          in pbind (if getTraceFlag p
                    then Some (map_sum id (\<lambda>ns. g\<lparr>pg_paths := pg_paths g @ [ns]\<rparr>) (path_loop PingHeaderEnd (getTracePointer p) (buffer p)))
                    else Some (Inr g)) (\<lambda>g. Some (Inr (pong_stats D rtt g, r))))"

section \<open>The command\<close>

definition startPing :: "routing_env \<Rightarrow> 'd doubles \<Rightarrow> int \<Rightarrow> 'd Pinger \<Rightarrow> int \<times> 'd Pinger" where
  "startPing env D now g =
     (if pg_busy g then (- 1, g)
      else let g = resetStats D (g\<lparr>pg_busy := True\<rparr>) in (0, g\<lparr>pg_waits := pg_waits g @ [now + te_duration (re_topo env) 1 10000]\<rparr>))"

definition ping_command_fn ::
  "routing_env \<Rightarrow> 'd doubles \<Rightarrow> (string \<Rightarrow> int option) \<Rightarrow> string \<Rightarrow> int \<Rightarrow> string list \<Rightarrow> RTopology \<Rightarrow>
   ShellClient \<times> 'd Pinger \<Rightarrow> shell_error + (int \<times> ShellClient \<times> 'd Pinger)" where
  "ping_command_fn env D seconds long_help now argv t s =
     (case s of (sc, g) \<Rightarrow>
        if length argv \<le> 1 then Inr (- 1, sh_put (long_help @ endl) sc, g)
        else if pg_busy g then Inr (0, sh_put (''ping already running'' @ endl) sc, g)
        else let (ret, g) = parse_opts env seconds t argv g in
          if ret \<noteq> 0 then Inr (- 1, sh_put (long_help @ endl) sc, g)
          else if pg_busy g then Inr (- 1, sh_put (''pinger is already in use '' @ endl) sc, g)
          else rbind (shell_block sc) (\<lambda>sc. Inr (0, sc, snd (startPing env D now g))))"

definition Pinger_new :: "routing_env \<Rightarrow> nat \<Rightarrow> nat \<Rightarrow> int \<Rightarrow> 'd Pinger \<Rightarrow> AwdsRouting \<Rightarrow> 'd Pinger \<times> AwdsRouting" where
  "Pinger_new env cb d now g r =
     (g\<lparr>pg_period := te_duration (re_topo env) 2 1, pg_busy := False, pg_ttl := 44, pg_myT0 := now\<rparr>,
      registerUnicastProtocol PACKET_TYPE_UC_PING cb d r)"

text \<open>
  The module is started with the daemon: \<open>r\<close> is the object \<open>routing\<close> of the repository, if there is one, and \<open>sh\<close> the shell.  The
  result of the parser is not looked at.
\<close>

definition add_shell :: "string \<Rightarrow> string \<Rightarrow> nat \<Rightarrow> nat \<Rightarrow> TcpShell option \<Rightarrow> TcpShell option" where
  "add_shell short_help long_help fn pinger sh = map_option (add_command ''ping'' (Some fn) pinger short_help (Some long_help)) sh"

definition pinger_main ::
  "routing_env \<Rightarrow> 'd doubles \<Rightarrow> (string \<Rightarrow> int option) \<Rightarrow> string \<Rightarrow> string \<Rightarrow> nat \<Rightarrow> nat \<Rightarrow> nat \<Rightarrow> int \<Rightarrow> int \<Rightarrow> string list \<Rightarrow> 'd Pinger \<Rightarrow>
   AwdsRouting option \<times> TcpShell option \<Rightarrow> int \<times> ('d Pinger \<times> AwdsRouting \<times> TcpShell option) option" where
  "pinger_main env D seconds short_help long_help cb fn pinger now lastEvent argv g s =
     (case s of (routing, sh) \<Rightarrow>
        if ''--help'' \<in> set argv then (- 1, None)
        else case routing of None \<Rightarrow> (- 1, None)
        | Some r \<Rightarrow>
            let (g, r) = Pinger_new env cb pinger now g r;
                sh = add_shell short_help long_help fn pinger sh;
                g = (if length argv > 1
                     then snd (startPing env D lastEvent (snd (parse_opts env seconds (rt_topology r) argv g))) else g)
            in (0, Some (g, r, sh)))"

section \<open>A ping and its answer\<close>

text \<open>
  The way of a packet: relays change the next hop and the remaining hops, and the stations it visits, among them the sender and the destination,
  add their identifiers if the path is traced.
\<close>

inductive travels :: "NodeId list \<Rightarrow> BasePacket \<Rightarrow> BasePacket \<Rightarrow> bool" where
  arrive: "relayed OffsetNextHop OffsetUcType p q \<Longrightarrow> travels [] p q"
| visit: "relayed OffsetNextHop OffsetUcType p m \<Longrightarrow> travels ns (trace_packet n m) q \<Longrightarrow> travels (n # ns) p q"

text \<open>What the receivers read of a ping of \<open>N\<close> bytes.\<close>

definition path_ok :: "NodeId list \<Rightarrow> BasePacket \<Rightarrow> bool" where
  "path_ok ns p \<longleftrightarrow> getTracePointer p = PingHeaderEnd + 6 * length ns \<and>
     mem_read (buffer p) PingHeaderEnd (6 * length ns) = concat (map NodeId_toArray ns)"

definition ping_ok :: "nat \<Rightarrow> bool \<Rightarrow> byte \<Rightarrow> byte list \<Rightarrow> NodeId \<Rightarrow> NodeId \<Rightarrow> NodeId list \<Rightarrow> BasePacket \<Rightarrow> bool" where
  "ping_ok N trace dir ts src dest ns p \<longleftrightarrow>
     pkt_ok p \<and> psize p = N \<and> PingHeaderEnd \<le> N \<and> N \<le> MaxSize \<and> getTraceFlag p = trace \<and> buffer p ! PingDirection = dir \<and>
     mem_read (buffer p) PingTimeStamp 8 = ts \<and> getSrc p = src \<and> getUcDest p = dest \<and> getUcPacketType p = PACKET_TYPE_UC_PING \<and>
     (trace \<longrightarrow> PingHeaderEnd + 6 * length ns \<le> N \<and> path_ok ns p)"

lemmas ping_layout = ping_offsets offset_defs MaxSize_def

text \<open>All of it depends only on bytes that relays leave alone.\<close>

lemma ping_ok_local:
  assumes "ping_ok N trace dir ts src dest ns p" "pkt_ok q" "psize q = psize p" "getTraceFlag q = getTraceFlag p"
    and "\<And>i. i < psize p \<Longrightarrow> 0 < i \<Longrightarrow> i < OffsetNextHop \<or> OffsetUcType \<le> i \<Longrightarrow> buffer q ! i = buffer p ! i"
  shows "ping_ok N trace dir ts src dest ns q"
proof -
  have p: "pkt_ok p" "psize p = N" "PingHeaderEnd \<le> N" "N \<le> MaxSize" using assms(1) by (auto simp: ping_ok_def)
  have len: "length (buffer p) = MaxSize" "length (buffer q) = MaxSize" using p(1) assms(2) by (simp_all add: pkt_ok_def)
  have same: "buffer q ! i = buffer p ! i" if "i < N" "0 < i" "i < 15 \<or> 22 \<le> i" for i
    using assms(5) [of i] that p(2) by (simp add: offset_defs)
  have f: "getSrc q = getSrc p" "getUcDest q = getUcDest p" "getUcPacketType q = getUcPacketType p" "getTracePointer q = getTracePointer p"
    using p(3) by (intro src.get_local uc_dest.get_local uc_type.get_local tr_ptr.get_local assms(2) p(1) same; simp add: ping_layout)+
  have r: "mem_read (buffer q) k n = mem_read (buffer p) k n" if "23 \<le> k" "k + n \<le> N" for k n
    using that p(4) len by (intro mem_read_cong same) auto
  have "buffer q ! PingDirection = buffer p ! PingDirection" "mem_read (buffer q) PingTimeStamp 8 = mem_read (buffer p) PingTimeStamp 8"
    using same [of PingDirection] r [of PingTimeStamp 8] p(3) by (simp_all add: ping_layout)
  moreover have "mem_read (buffer q) PingHeaderEnd n = mem_read (buffer p) PingHeaderEnd n" if "PingHeaderEnd + n \<le> N" for n
    using r [of PingHeaderEnd n] that by (simp add: ping_layout)
  ultimately show ?thesis using assms(1-4) f by (simp add: ping_ok_def path_ok_def)
qed

lemma ping_ok_relayed:
  assumes "ping_ok N trace dir ts src dest ns p" "relayed OffsetNextHop OffsetUcType p q"
  shows "ping_ok N trace dir ts src dest ns q"
proof -
  have q: "pkt_ok q" "psize q = psize p" "\<forall>i < psize p. i < OffsetNextHop \<or> OffsetUcType \<le> i \<longrightarrow> buffer q ! i = buffer p ! i"
    using assms(2) by (simp_all add: relayed_def)
  have "pkt_ok p" "0 < psize p" using assms(1) by (auto simp: ping_ok_def ping_layout)
  then have flag: "getTraceFlag q = getTraceFlag p" using q by (intro pk_trace.get_local) (auto simp: offset_defs)
  from q(3) show ?thesis by (intro ping_ok_local [OF assms(1) q(1,2) flag]) blast
qed

lemma ping_ok_type:
  assumes "ping_ok N trace dir ts src dest ns p"
  shows "ping_ok N trace dir ts src dest ns (TraceUcPacket p)"
proof -
  have p: "pkt_ok p" "psize p \<le> MaxSize" using assms by (auto simp: ping_ok_def)
  then show ?thesis using assms
    by (intro ping_ok_local [OF assms])
      (simp_all add: TraceUcPacket_def UnicastPacket_def pk_type.set_ok pk_type.rest_set type_trace_independent pk_type.frame)
qed

lemma ping_ok_traced:
  assumes "ping_ok N trace dir ts src dest ns p" "trace \<longrightarrow> PingHeaderEnd + 6 * length ns + 6 < N" "NodeId_ok n"
  shows "ping_ok N trace dir ts src dest (ns @ [n]) (trace_packet n p)"
proof (cases trace)
  case False
  then show ?thesis using assms(1) by (simp add: trace_packet_def ping_ok_def)
next
  case True
  let ?p = "TraceUcPacket p"
  let ?off = "PingHeaderEnd + 6 * length ns"
  let ?q = "?p\<lparr>buffer := mem_write (buffer ?p) ?off (NodeId_toArray n)\<rparr>"
  let ?r = "setTracePointer (?off + 6) ?q"
  have p: "ping_ok N True dir ts src dest ns ?p" using ping_ok_type [OF assms(1)] True by simp
  then have ok: "pkt_ok ?p" "psize ?p = N" "N \<le> MaxSize" "getTraceFlag ?p" "getTracePointer ?p = ?off" "path_ok ns ?p"
    by (simp_all add: ping_ok_def path_ok_def)
  have room: "?off + 6 < N" using assms(2) True by simp
  have len: "length (buffer ?p) = MaxSize" "pkt_ok ?q" using ok(1,3) room by (simp_all add: pkt_ok_def)
  have tr: "trace_packet n p = ?r"
    using assms(1) True room ok(2,5) by (simp add: trace_packet_def appendNode_def Let_def ping_ok_def)
  have b: "buffer ?r ! i = buffer ?p ! i" if "i < MaxSize" "i < 23 \<or> 25 \<le> i" "i < ?off \<or> ?off + 6 \<le> i" for i
    using that len room ok(3) by (subst tr_ptr.frame) (simp_all add: offset_defs nth_mem_write_out)
  have field: "getTraceFlag ?r = getTraceFlag ?p" "getSrc ?r = getSrc ?p" "getUcDest ?r = getUcDest ?p" "getUcPacketType ?r = getUcPacketType ?p"
    by (intro pk_trace.get_local src.get_local uc_dest.get_local uc_type.get_local tr_ptr.set_ok len(2) ok(1) b; simp add: ping_layout)+
  have r: "mem_read (buffer ?r) k m = mem_read (buffer ?p) k m" if "25 \<le> k" "k + m \<le> ?off" for k m
    using that len room ok(3) tr_ptr.set_ok [OF len(2)] by (intro mem_read_cong b) (auto simp: pkt_ok_def)
  have "getTracePointer ?r = ?off + 6" using len(2) room ok(3) by (intro tr_ptr.get_set) (simp_all add: MaxSize_def)
  moreover have "mem_read (buffer ?r) ?off 6 = mem_read (buffer ?q) ?off 6"
    using len room ok(3) tr_ptr.set_ok [OF len(2)]
    by (intro mem_read_cong tr_ptr.frame) (auto simp: pkt_ok_def ping_layout)
  then have "mem_read (buffer ?r) ?off 6 = NodeId_toArray n"
    using mem_read_write_same [of ?off "NodeId_toArray n" "buffer ?p"] len(1) room ok(3) by simp
  then have "mem_read (buffer ?r) PingHeaderEnd (6 * length ns + 6) = concat (map NodeId_toArray (ns @ [n]))"
    using mem_read_append [of PingHeaderEnd "6 * length ns" 6 "buffer ?r"] r [of PingHeaderEnd "6 * length ns"] ok(6) room ok(3)
      tr_ptr.set_ok [OF len(2)] by (simp add: path_ok_def pkt_ok_def ping_layout)
  ultimately have "path_ok (ns @ [n]) ?r" by (simp add: path_ok_def add.commute)
  moreover have "buffer ?r ! PingDirection = buffer ?p ! PingDirection" "mem_read (buffer ?r) PingTimeStamp 8 = mem_read (buffer ?p) PingTimeStamp 8"
    using b [of PingDirection] r [of PingTimeStamp 8] by (simp_all add: ping_layout)
  ultimately show ?thesis using p field room True tr_ptr.set_ok [OF len(2)] tr_ptr.rest_set
    unfolding tr by (simp add: ping_ok_def)
qed

lemma ping_ok_travels:
  assumes "travels ms p q" "ping_ok N trace dir ts src dest ns p" "trace \<longrightarrow> PingHeaderEnd + 6 * (length ns + length ms) < N" "list_all NodeId_ok ms"
  shows "ping_ok N trace dir ts src dest (ns @ ms) q"
  using assms
proof (induction arbitrary: ns)
  case (arrive p q)
  then show ?case using ping_ok_relayed by simp
next
  case (visit p m ms n q)
  have "ping_ok N trace dir ts src dest (ns @ [n]) (trace_packet n m)"
    using visit.prems by (intro ping_ok_traced ping_ok_relayed [OF _ visit.hyps(1)]) auto
  from visit.IH [OF this] visit.prems show ?case by auto
qed

text \<open>The request: a packet with the time of sending, and the flag if the path is to be traced.\<close>

lemma ping_ok_stamped:
  assumes "pkt_ok p" "length ts = 8" "PingHeaderEnd \<le> N" "N \<le> MaxSize" "\<not> getTraceFlag p" "getUcPacketType p = PACKET_TYPE_UC_PING"
  shows "ping_ok N False dir ts (getSrc p) (getUcDest p) []
    (p\<lparr>psize := N, buffer := mem_write ((buffer p)[PingDirection := dir]) PingTimeStamp ts\<rparr>)" (is "ping_ok N _ _ _ _ _ _ ?q")
proof -
  have len: "length (buffer p) = MaxSize" using assms(1) by (simp add: pkt_ok_def)
  have same: "buffer ?q ! i = buffer p ! i" if "i < 25" for i
    using that len assms(2) by (simp add: nth_mem_write_out ping_layout)
  have ok: "pkt_ok ?q" using len assms(2) by (simp add: pkt_ok_def ping_layout)
  have f: "getSrc ?q = getSrc p" "getUcDest ?q = getUcDest p" "getUcPacketType ?q = getUcPacketType p" "getTraceFlag ?q = getTraceFlag p"
    by (intro src.get_local uc_dest.get_local uc_type.get_local pk_trace.get_local assms(1) ok same; simp add: offset_defs)+
  have "buffer ?q ! PingDirection = dir" "mem_read (buffer ?q) PingTimeStamp 8 = ts"
    using len assms(2) mem_read_write_same [of PingTimeStamp ts "(buffer p)[PingDirection := dir]"]
    by (simp_all add: nth_mem_write_out ping_layout)
  then show ?thesis using assms(3-6) ok f unfolding ping_ok_def by simp
qed

lemma ping_ok_start_trace:
  assumes "ping_ok N False dir ts src dest [] p"
  shows "ping_ok N True dir ts src dest [] (setTraceFlag True (setTracePointer PingHeaderEnd p))" (is "ping_ok _ _ _ _ _ _ _ ?q")
proof -
  have p: "pkt_ok p" using assms by (simp add: ping_ok_def)
  then have ok: "pkt_ok (setTracePointer PingHeaderEnd p)" "pkt_ok ?q" by (simp_all add: tr_ptr.set_ok pk_trace.set_ok)
  have same: "buffer ?q ! i = buffer p ! i" if "0 < i" "i < 23 \<or> 25 \<le> i" "i < MaxSize" for i
    using that p ok by (simp add: pk_trace.frame tr_ptr.frame offset_defs)
  have f: "getSrc ?q = getSrc p" "getUcDest ?q = getUcDest p" "getUcPacketType ?q = getUcPacketType p"
    by (intro src.get_local uc_dest.get_local uc_type.get_local p ok same; simp add: ping_layout)+
  have "getTracePointer ?q = getTracePointer (setTracePointer PingHeaderEnd p)"
    by (intro tr_ptr.get_local ok pk_trace.frame) (simp_all add: ping_layout)
  then have tp: "getTracePointer ?q = PingHeaderEnd" using p by (simp add: tr_ptr.get_set ping_layout)
  have "mem_read (buffer ?q) PingTimeStamp 8 = mem_read (buffer p) PingTimeStamp 8"
    using p ok(2) by (intro mem_read_cong same) (auto simp: ping_layout pkt_ok_def)
  moreover have "buffer ?q ! PingDirection = buffer p ! PingDirection" by (rule same) (simp_all add: ping_layout)
  moreover have "psize ?q = psize p" by (simp add: tr_ptr.rest_set pk_trace.rest_set)
  moreover have "mem_read (buffer ?q) PingHeaderEnd 0 = []" by (simp add: mem_read_def)
  ultimately show ?thesis
    using assms f ok tp by (simp add: ping_ok_def path_ok_def pk_trace.get_set)
qed

lemma ping_ok_request:
  assumes "duration_bytes_ok db" "newUnicastPacket PACKET_TYPE_UC_PING r = (pid, p, r1)" "NodeId_ok (rt_myNodeId r)" "NodeId_ok (pg_dest g)"
    and "unat (pg_pingSize g) \<le> MaxSize"
  shows "ping_ok (max (unat (pg_pingSize g)) PingHeaderEnd) (pg_doTracePath g) (of_char CHR ''i'') (db_toArray db (t - pg_myT0 g))
    (rt_myNodeId r) (pg_dest g) [] (ping_packet db t g p)"
proof -
  have "ubyte_ok PACKET_TYPE_UC_PING" by (simp add: ubyte_ok_def PACKET_TYPE_UC_PING_def)
  then obtain p0 r0 where new: "newUnicastPacket PACKET_TYPE_UC_PING r = (rt_next_packet r, p0, r0)" "pkt_ok p0"
    "getSrc p0 = rt_myNodeId r" "\<not> getTraceFlag p0" "getUcPacketType p0 = PACKET_TYPE_UC_PING"
    by (rule newUnicastPacket_eq [OF _ assms(3)])
  define p1 where "p1 = Uc_setTTL (uint (pg_ttl g)) (setUcDest (pg_dest g) (TraceUcPacket (setDest (pg_dest g) p)))"
  have p0: "pkt_ok (setDest (pg_dest g) p)" "p = p0" using new(1,2) assms(2) by (simp_all add: setDest_def pkt_ok_def)
  have set: "getSrc (setDest i q) = getSrc q" "getTraceFlag (setDest i q) = getTraceFlag q" "getUcPacketType (setDest i q) = getUcPacketType q" for i q
    by (simp_all add: setDest_def getSrc_def getTraceFlag_bit getUcPacketType_def)
  have p1: "pkt_ok p1" "getSrc p1 = rt_myNodeId r" "getUcDest p1 = pg_dest g" "getUcPacketType p1 = PACKET_TYPE_UC_PING" "\<not> getTraceFlag p1"
    using p0(1) new(3-5) assms(4) set unfolding p1_def p0(2) by (simp_all add: TraceUcPacket_def UnicastPacket_def hdr_simps)
  let ?N = "max (unat (pg_pingSize g)) PingHeaderEnd" and ?ts = "db_toArray db (t - pg_myT0 g)"
  have "PingHeaderEnd \<le> ?N" "?N \<le> MaxSize" "length ?ts = 8" using assms(1,5) by (simp_all add: ping_layout duration_bytes_ok_def)
  from ping_ok_stamped [OF p1(1) this(3,1,2) p1(5,4), of "of_char CHR ''i''"] p1(2,3) ping_ok_start_trace show ?thesis
    by (auto simp: ping_packet_def Let_def p1_def [symmetric])
qed

lemma ping_ok_answer:
  assumes "ping_ok N trace dir ts src dest ns p" "NodeId_ok (rt_myNodeId r)" "NodeId_ok src"
  shows "ping_ok N trace (of_char CHR ''o'') ts (rt_myNodeId r) src ns (ping_answer r p)"
proof -
  let ?p = "TraceUcPacket p"
  let ?q = "setSrc (rt_myNodeId r) (setUcDest (getSrc ?p) ?p)"
  let ?r = "?q\<lparr>buffer := (buffer ?q)[PingDirection := of_char CHR ''o'']\<rparr>"
  note p = ping_ok_type [OF assms(1)]
  then have ok: "pkt_ok ?p" "psize ?p = N" "PingHeaderEnd \<le> N" "N \<le> MaxSize" "getSrc ?p = src" "getTraceFlag ?p = trace"
    by (simp_all add: ping_ok_def)
  have q: "pkt_ok ?q" "pkt_ok (setUcDest (getSrc ?p) ?p)" using ok(1) by (simp_all add: src.set_ok uc_dest.set_ok)
  have "pkt_ok (x\<lparr>buffer := (buffer x)[i := b]\<rparr>) \<longleftrightarrow> pkt_ok x" for x i b by (simp add: pkt_ok_def)
  then have r: "pkt_ok ?r" using q(1) by blast
  have same: "buffer ?r ! i = buffer ?p ! i" if "i < MaxSize" "i < 1 \<or> 15 \<le> i" "i \<noteq> 25" for i
  proof -
    have "buffer ?r ! i = buffer ?q ! i" using that(3) by (simp add: ping_layout)
    also have "\<dots> = buffer (setUcDest (getSrc ?p) ?p) ! i" using that by (intro src.frame [OF q(2)]) (auto simp: offset_defs)
    also have "\<dots> = buffer ?p ! i" using that by (intro uc_dest.frame [OF ok(1)]) (auto simp: offset_defs)
    finally show ?thesis .
  qed
  have m: "mem_read (buffer ?r) k n = mem_read (buffer ?p) k n" if "26 \<le> k" "k + n \<le> MaxSize" for k n
    using that ok(1) r by (intro mem_read_cong same) (auto simp: pkt_ok_def)
  have "getUcPacketType ?r = getUcPacketType ?p" "getTracePointer ?r = getTracePointer ?p" "getTraceFlag ?r = getTraceFlag ?p"
    by (intro uc_type.get_local tr_ptr.get_local pk_trace.get_local r ok(1) same; simp add: ping_layout)+
  moreover have "getSrc ?r = getSrc ?q" "getUcDest ?r = getUcDest ?q"
    by (intro src.get_local uc_dest.get_local r q(1); simp add: ping_layout)+
  moreover have "getSrc ?q = rt_myNodeId r" "getUcDest ?q = src"
    using assms(2,3) ok(1,5) q(2) by (simp_all add: hdr_simps)
  moreover have "mem_read (buffer ?r) PingTimeStamp 8 = mem_read (buffer ?p) PingTimeStamp 8" by (rule m) (simp_all add: ping_layout)
  moreover have "mem_read (buffer ?r) PingHeaderEnd k = mem_read (buffer ?p) PingHeaderEnd k" if "PingHeaderEnd + k \<le> N" for k
    using m [of PingHeaderEnd k] that ok(4) by (simp add: ping_layout)
  moreover have "buffer ?r ! PingDirection = of_char CHR ''o''" using q(1) by (simp add: pkt_ok_def ping_layout)
  moreover have "psize ?r = psize ?p" by (simp add: src.rest_set uc_dest.rest_set)
  ultimately show ?thesis
    using p r unfolding ping_answer_def Let_def by (auto simp: ping_ok_def path_ok_def)
qed

text \<open>The path is read back from the packet.\<close>

lemma path_loop_reads:
  assumes "list_all NodeId_ok ns" "mem_read buf off (6 * length ns) = concat (map NodeId_toArray ns)" "off + 6 * length ns \<le> length buf"
  shows "path_loop off (off + 6 * length ns) buf = Inr ns"
  using assms
proof (induction ns arbitrary: off)
  case (Cons n ns)
  have "mem_read buf off (6 + 6 * length ns) = mem_read buf off 6 @ mem_read buf (off + 6) (6 * length ns)"
    using Cons.prems(3) by (intro mem_read_append) simp
  moreover have "length (mem_read buf off 6) = 6" using Cons.prems(3) by simp
  ultimately have h: "mem_read buf off 6 = NodeId_toArray n" "mem_read buf (off + 6) (6 * length ns) = concat (map NodeId_toArray ns)"
    using Cons.prems(2) by simp_all
  then have "path_loop (off + 6) (off + 6 + 6 * length ns) buf = Inr ns" using Cons.prems by (intro Cons.IH) simp_all
  then show ?case using Cons.prems h(1) by (subst path_loop.simps) (simp add: add.assoc)
qed (simp add: path_loop.simps)

text \<open>
  Property C14: a ping measures the time to the destination and back, and finds the path.  The request is for the chosen station, and after any way through
  the network the station answers it to the sender, whose identifier and time stamp it keeps.  When the answer arrives,
  the measured time is the one that passed since the request was sent, and with a trace the recorded path names the visited stations in
  their order, as long as they have room in the packet.
\<close>

theorem ping_measures_round_trip:
  assumes "duration_bytes_ok db" "NodeId_ok (rt_myNodeId rA)" "NodeId_ok (pg_dest g)" "NodeId_ok (rt_myNodeId rB)"
    and "newUnicastPacket PACKET_TYPE_UC_PING rA = (pid, p, rA')" "unat (pg_pingSize g) \<le> MaxSize"
    and "travels ns (ping_packet db t g p) q" "travels ms (ping_answer rB q) a" "list_all NodeId_ok (ns @ ms)"
    and "pg_doTracePath g \<longrightarrow> PingHeaderEnd + 6 * length (ns @ ms) < unat (pg_pingSize g)" "pg_myT0 h = pg_myT0 g"
    and "pg_myT0 g \<le> t" "t < pg_myT0 g + 2 ^ 63"
  shows "getUcDest q = pg_dest g \<and> getUcDest a = rt_myNodeId rA \<and> getSrc a = rt_myNodeId rB \<and>
    ping_recv env D db k q (gB, rB) =
      pbind (pg_lift (sendUnicast env (ping_answer rB (TraceUcPacket q)) (rt_ref k rB))) (\<lambda>(_, r).
        pbind (pg_lift (rt_unref k r)) (\<lambda>r. Some (Inr (gB, r)))) \<and>
    ping_recv env D db k a (h, r) =
      Some (Inr (pong_stats D (rt_time r - t) (if pg_doTracePath g then h\<lparr>pg_paths := pg_paths h @ [ns @ ms]\<rparr> else h), r))"
proof -
  let ?N = "max (unat (pg_pingSize g)) PingHeaderEnd" and ?ts = "db_toArray db (t - pg_myT0 g)" and ?f = "pg_doTracePath g"
  have ok: "list_all NodeId_ok ns" "list_all NodeId_ok ms" using assms(9) by simp_all
  have room: "?f \<longrightarrow> PingHeaderEnd + 6 * (length ns + length ms) < ?N" using assms(10) by auto
  have q: "ping_ok ?N ?f (of_char CHR ''i'') ?ts (rt_myNodeId rA) (pg_dest g) ns q"
    using ping_ok_travels [OF assms(7) ping_ok_request [OF assms(1,5,2,3,6)] _ ok(1)] room by (simp only: append_Nil list.size) fastforce
  then have a: "ping_ok ?N ?f (of_char CHR ''o'') ?ts (rt_myNodeId rB) (rt_myNodeId rA) (ns @ ms) a"
    using ping_ok_travels [OF assms(8) ping_ok_answer [OF q assms(4,2)] _ ok(2)] room by simp
  note a' = ping_ok_type [OF a]
  have "db_fromArray db ?ts = t - pg_myT0 g" using assms(1,12,13) by (simp add: duration_bytes_ok_def)
  then have time: "rt_time r - (pg_myT0 h + db_fromArray db (mem_read (buffer (TraceUcPacket a)) PingTimeStamp 8)) = rt_time r - t"
    using a' assms(11) by (simp add: ping_ok_def)
  have path: "path_loop PingHeaderEnd (getTracePointer (TraceUcPacket a)) (buffer (TraceUcPacket a)) = Inr (ns @ ms)" if ?f
  proof -
    have "path_ok (ns @ ms) (TraceUcPacket a)" "PingHeaderEnd + 6 * length (ns @ ms) \<le> length (buffer (TraceUcPacket a))"
      using a' that by (auto simp: ping_ok_def pkt_ok_def)
    then show ?thesis using path_loop_reads [OF assms(9)] by (metis path_ok_def)
  qed
  have dir: "buffer (TraceUcPacket q) ! PingDirection = of_char CHR ''i''" "buffer (TraceUcPacket a) ! PingDirection = of_char CHR ''o''" "getTraceFlag (TraceUcPacket a) = ?f"
    using ping_ok_type [OF q] a' by (simp_all add: ping_ok_def)
  have "ping_recv env D db k a (h, r) =
      Some (Inr (pong_stats D (rt_time r - t) (if ?f then h\<lparr>pg_paths := pg_paths h @ [ns @ ms]\<rparr> else h), r))"
    using path dir(2,3) unfolding ping_recv_def Let_def prod.case time by auto
  with q a dir(1) show ?thesis by (simp add: ping_ok_def ping_recv_def)
qed

text \<open>A trace pointer behind the end of the buffer, in a packet that anyone can send, makes the receiver read there.\<close>

lemma path_loop_leaves:
  assumes "length buf < ptr" "off \<le> length buf"
  shows "path_loop off ptr buf = Inl PgOutOfBounds"
  using assms
proof (induction off ptr buf rule: path_loop.induct)
  case (1 off ptr buf)
  show ?case
  proof (cases "off + 6 \<le> length buf")
    case True
    then have "path_loop (off + 6) ptr buf = Inl PgOutOfBounds" using 1 by simp
    with True 1(2,3) show ?thesis by (subst path_loop.simps) simp
  qed (use 1(2,3) in \<open>simp add: path_loop.simps [of off]\<close>)
qed

lemma pong_path_out_of_bounds:
  assumes "pkt_ok p" "getTraceFlag p" "MaxSize < getTracePointer p" "buffer p ! PingDirection \<noteq> of_char CHR ''i''"
  shows "ping_recv env D db k p (g, r) = Some (Inl PgOutOfBounds)"
proof -
  let ?p = "TraceUcPacket p"
  have p: "pkt_ok ?p" "getTraceFlag ?p" using assms(1,2) by (simp_all add: TraceUcPacket_def UnicastPacket_def hdr_simps)
  have "getTracePointer ?p = getTracePointer p" "buffer ?p ! PingDirection = buffer p ! PingDirection"
    using assms(1) by (simp_all add: TraceUcPacket_def UnicastPacket_def hdr_simps pk_type.frame ping_layout)
  moreover from this have "path_loop PingHeaderEnd (getTracePointer ?p) (buffer ?p) = Inl PgOutOfBounds"
    using p(1) assms(3) by (intro path_loop_leaves) (simp_all add: pkt_ok_def ping_layout)
  ultimately show ?thesis using p(2) assms(4) by (simp add: ping_recv_def Let_def)
qed

text \<open>A ping that was started with the daemon runs whatever its arguments are, even for a station that does not exist.\<close>

lemma opts_loop_busy:
  fixes g :: "'d Pinger"
  shows "pg_busy (fst (opts_loop seconds as n g)) = pg_busy g"
proof (induction as arbitrary: n g rule: length_induct)
  case (1 as)
  then have IH: "length bs < length as \<Longrightarrow> pg_busy (fst (opts_loop seconds bs m h)) = pg_busy h" for bs m and h :: "'d Pinger" by blast
  show ?case
  proof (cases as)
    case (Cons a bs)
    with IH show ?thesis
      unfolding Cons opts_loop.simps(2) [of seconds a bs n g]
      by (cases bs) (simp_all add: if_distrib [of fst] if_distrib [of pg_busy] Let_def split_beta split: option.split)
  qed (simp add: opts_loop.simps)
qed

lemma pinger_main_starts:
  assumes "''--help'' \<notin> set argv" "2 \<le> length argv"
  shows "\<exists>g' r' sh'. pinger_main env D seconds sh lh cb fn i now e argv g (Some r, shell) = (0, Some (g', r', sh')) \<and>
    pg_busy g' \<and> e + te_duration (re_topo env) 1 10000 \<in> set (pg_waits g')"
proof -
  have "pg_busy (snd (parse_opts env seconds t argv h)) = pg_busy h" for t and h :: "'a Pinger"
    by (simp add: parse_opts_def Let_def split_beta opts_loop_busy split: option.split)
  then show ?thesis using assms
    by (simp add: pinger_main_def Pinger_new_def startPing_def resetStats_def Let_def)
qed

section \<open>Concrete instances\<close>

text \<open>Every path with room for it can be travelled.\<close>

lemma can_travel:
  assumes "ping_ok N trace dir ts src dest ns p" "trace \<longrightarrow> PingHeaderEnd + 6 * (length ns + length ms) < N" "list_all NodeId_ok ms"
  shows "\<exists>q. travels ms p q"
  using assms
proof (induction ms arbitrary: ns p)
  case Nil
  then show ?case by (auto intro!: exI [of _ p] travels.arrive simp: relayed_def ping_ok_def)
next
  case (Cons m ms)
  have "ping_ok N trace dir ts src dest (ns @ [m]) (trace_packet m p)" using Cons.prems by (intro ping_ok_traced) auto
  from Cons.IH [OF this] obtain q where "travels ms (trace_packet m p) q" using Cons.prems by auto
  moreover have "relayed OffsetNextHop OffsetUcType p p" using Cons.prems(1) by (simp add: relayed_def ping_ok_def)
  ultimately show ?case by (blast intro: travels.visit)
qed

definition example_durations :: duration_bytes where
  "example_durations = \<lparr>db_toArray = \<lambda>d. toArray (word_of_int d :: u64), db_fromArray = \<lambda>bs. sint (fromArray bs :: u64)\<rparr>"

definition example_doubles :: "int doubles" where
  "example_doubles = \<lparr>d_duration = id, d_min = min, d_max = max, d_add = (+), d_first_min = 5000000, d_first_max = - 12, d_zero = 0\<rparr>"

definition example_pinger :: "int Pinger" where
  "example_pinger = \<lparr>pg_busy = True, pg_dest = NodeId 2, pg_ttl = 64, pg_numRepeat = - 1, pg_doTracePath = True, pg_minRTT = 5000000,
     pg_maxRTT = - 12, pg_sumRTT = 0, pg_numReceived = 0, pg_numTransmitted = 1, pg_period = 1, pg_pingSize = 200, pg_myT0 = 0, pg_paths = [],
     pg_waits = []\<rparr>"

lemma example_durations_ok: "duration_bytes_ok example_durations"
proof -
  have "sint (word_of_int d :: u64) = d" if "- (2 ^ 63) \<le> d" "d < 2 ^ 63" for d
  proof -
    have "sint (word_of_int d :: u64) = signed_take_bit 63 d" by (transfer fixing: d) simp
    then show ?thesis using that by (simp add: signed_take_bit_int_eq_self)
  qed
  then show ?thesis
    using fromArray_toArray [where ?'a = 64, of _ "[]"] by (simp add: duration_bytes_ok_def example_durations_def length_toArray)
qed

theorem ping_measures_round_trip_witness:
  "\<exists>pid p r q a. newUnicastPacket PACKET_TYPE_UC_PING example_routing = (pid, p, r) \<and>
    travels [NodeId 1, NodeId 2] (ping_packet example_durations 7 example_pinger p) q \<and>
    travels [NodeId 2, NodeId 1] (ping_answer (example_routing\<lparr>rt_myNodeId := NodeId 2\<rparr>) q) a \<and>
    ping_recv example_renv example_doubles example_durations 0 a (example_pinger, example_routing\<lparr>rt_topology := (rt_topology example_routing)\<lparr>lastEventTime := 10\<rparr>\<rparr>) =
      Some (Inr (example_pinger\<lparr>pg_minRTT := 3, pg_maxRTT := 3, pg_sumRTT := 3, pg_numReceived := 1,
        pg_paths := [[NodeId 1, NodeId 2, NodeId 2, NodeId 1]]\<rparr>, example_routing\<lparr>rt_topology := (rt_topology example_routing)\<lparr>lastEventTime := 10\<rparr>\<rparr>))"
proof -
  let ?g = example_pinger and ?B = "example_routing\<lparr>rt_myNodeId := NodeId 2\<rparr>" and ?r = "example_routing\<lparr>rt_topology := (rt_topology example_routing)\<lparr>lastEventTime := 10\<rparr>\<rparr>"
  obtain pid p r where new: "newUnicastPacket PACKET_TYPE_UC_PING example_routing = (pid, p, r)" by (metis prod_cases3)
  have g: "NodeId_ok (rt_myNodeId example_routing)" "NodeId_ok (pg_dest ?g)" "NodeId_ok (rt_myNodeId ?B)" "unat (pg_pingSize ?g) \<le> MaxSize"
    by (simp_all add: example_routing_fields NodeId_ok_def example_pinger_def MaxSize_def)
  note req = ping_ok_request [OF example_durations_ok new g(1,2,4), of 7]
  obtain q where q: "travels [NodeId 1, NodeId 2] (ping_packet example_durations 7 ?g p) q"
    using can_travel [OF req, of "[NodeId 1, NodeId 2]"] by (auto simp: example_pinger_def NodeId_ok_def ping_layout)
  from ping_ok_travels [OF q req] have
    "ping_ok 200 True (of_char CHR ''i'') (db_toArray example_durations 7) (NodeId 1) (NodeId 2) [NodeId 1, NodeId 2] q"
    by (simp add: example_pinger_def NodeId_ok_def ping_layout example_routing_fields)
  from can_travel [OF ping_ok_answer [OF this g(3)], of "[NodeId 2, NodeId 1]"]
  obtain a where a: "travels [NodeId 2, NodeId 1] (ping_answer ?B q) a"
    by (auto simp: NodeId_ok_def ping_layout)
  have "list_all NodeId_ok ([NodeId 1, NodeId 2] @ [NodeId 2, NodeId 1])"
    "pg_doTracePath ?g \<longrightarrow> PingHeaderEnd + 6 * length ([NodeId 1, NodeId 2] @ [NodeId 2, NodeId 1]) < unat (pg_pingSize ?g)"
    "pg_myT0 ?g \<le> 7" "7 < pg_myT0 ?g + 2 ^ 63"
    by (simp_all add: NodeId_ok_def example_pinger_def ping_layout)
  note conjunct2 [OF conjunct2 [OF conjunct2 [OF conjunct2 [OF
    ping_measures_round_trip [OF example_durations_ok g(1-3) new g(4) q a this(1,2) refl this(3,4),
      of example_renv example_doubles 0 ?g ?r]]]]]
  then have "ping_recv example_renv example_doubles example_durations 0 a (?g, ?r) =
      Some (Inr (?g\<lparr>pg_minRTT := 3, pg_maxRTT := 3, pg_sumRTT := 3, pg_numReceived := 1,
        pg_paths := [[NodeId 1, NodeId 2, NodeId 2, NodeId 1]]\<rparr>, ?r))"
    by (simp add: pong_stats_def example_doubles_def example_pinger_def rt_time_def)
  with new q a show ?thesis by blast
qed

end
