(* ===== verification/Spec2Isabelle.thy ===== *)
theory Spec2Isabelle
  imports Kernel_Socket Metric_Properties Send_Queue Crypto_Unit Src_Filter Topo_Lock Debug_Output Daemon_Commands Pinger
begin

text \<open>
  AWDS, a layer-two mesh network: verification of the routing daemon and of its kernel module.

  \<^bold>\<open>The program.\<close>  Every station runs a daemon (\<open>src/src\<close>), which exchanges beacons with its
  neighbors, floods topology packets, computes shortest paths and forwards unicast packets, and may use a kernel module (\<open>src/linux-module\<close>)
  that forwards packets with the routing table the daemon installs.  Around the routing there are link metrics, a send queue, a
  cryptographic unit, a firewall, a virtual network interface and a shell.  The parts interact by calls: packets come from a handle and go
  to \<open>AwdsRouting::recv_packet\<close>; topology packets go on to \<open>RTopology::feed\<close>, which calls the metric and, when the graph has changed,
  \<open>updateTopology\<close>, which hands a table to the kernel; other packets go to receivers registered by type (the interface, the remote lock, the metrics),
  which send packets through the routing in turn.

  \<^bold>\<open>Modelling.\<close>  Structures and classes are records with the fields of the source, enumerations are datatypes, and every function, method or loop
  of a modelled part is one definition, composed as in the source.  Integers have their width where it matters (\<open>byte\<close>, \<open>u16\<close>, \<open>u32\<close>,
  \<open>u64\<close>), so that they wrap; identifiers are 64-bit words holding six bytes.  A packet is a buffer of 4096 bytes with its size; headers are read and
  written at the offsets of the source.  A \<open>std::map\<close> is a list sorted by key.  Failed assertions, null and dangling pointers, accesses out of bounds, undefined
  shifts and divisions by zero are error values (\<open>Inl\<close>); loops without an evident end are partial functions with the result \<open>None\<close> when they do not end,
  and the theorems about them show that they return.  Calls that leave the modelled code (sending, timers, observers, calls of the kernel) are recorded in
  logs.  Points in time and durations of the GEA library are integers; what GEA computes (\<open>te_duration\<close>, \<open>re_nanosecs\<close>), the installed metric, \<open>std::sort\<close>
  (locale \<open>std_sort\<close>), registered receivers, results of system calls, floating point arithmetic, the byte layout of the machine and the AES block cipher are
  parameters, with what the code relies on as hypotheses.

  \<^bold>\<open>Theories.\<close>
  \<^item> \<open>Awds_Prelude\<close>: memory as byte lists, ordered maps with their laws (locale \<open>finite_map\<close>), results, the collections of simplification rules.
  \<^item> \<open>Node_Id\<close> (\<open>AbstractId.h\<close>, \<open>NodeId.h\<close>, \<open>toArray.h\<close>): identifiers and byte order; the order agrees with the generic class and every conversion is inverted.
  \<^item> \<open>Packet\<close> (\<open>BasePacket.h\<close>, \<open>SrcPacket.h\<close>, \<open>Flood.h\<close>, \<open>UnicastPacket.h\<close>, \<open>TraceUcPacket.h\<close>, \<open>FlowPacket.h\<close>): reference counts and the header classes; each header
    field is an interpretation of the locale \<open>header_field\<close>, and fields that do not overlap are independent.
  \<^item> \<open>Flood_History\<close>, \<open>Isqrt\<close>: the ring buffer of packets that were seen refines the list of the last 128, and the integer square root is exact.
  \<^item> \<open>Beacon\<close> (\<open>beacon.h\<close>, \<open>beacon.cc\<close>, \<open>NodeDescr.h\<close>): beacons, multipoint relays, two-hop counts, link quality; the binary search finds what was written.
  \<^item> \<open>Topo_Base\<close>, \<open>Topo_Routes\<close>, \<open>Topo_Packet\<close>, \<open>Topo_Feed\<close>, \<open>Topo_Links\<close>, \<open>Topo_Inv\<close>, \<open>Topo_Update\<close>, \<open>Topo_Properties\<close>, \<open>Topo_Text\<close>
    (\<open>Topology.h\<close>, \<open>Topology.cc\<close>, \<open>TopoPacket.h\<close>, \<open>TopoPacket.cc\<close>, \<open>Metric.h\<close>): the adjacency list with links that point to their counterparts, shortest paths and next
    hops, packets, the merge of new links, cleanup, reset, the table for the kernel, names and descriptions.  The step relation \<open>topo_reach\<close> has the operations
    of the daemon as steps; the invariant \<open>topo_inv\<close> holds in every reachable state, and the assertions of the source follow from it.  Distances are those of
    shortest walks, next hops lie on them, and packets forwarded along them arrive.
  \<^item> \<open>Awds_Routing\<close>, \<open>Routing_Neighbors\<close>, \<open>Routing_Packets\<close>, \<open>Routing_Properties\<close>, \<open>Daemon_Commands\<close> (\<open>AwdsRouting.h\<close>, \<open>AwdsRouting.cc\<close>, \<open>crypto_helpers.cc\<close>): the daemon;
    the invariant \<open>neigh_inv\<close> of its neighbors, floods that are handled once, unicast packets on shortest paths, timers that end, the adaptive period, the
    commands that change the periods, key files.
  \<^item> \<open>Metric_Etx\<close>, \<open>Metric_Packet\<close>, \<open>Metric_Probe\<close>, \<open>Metric_Properties\<close> (\<open>EtxMetric.cc\<close>, \<open>UCMetricPacket.cc\<close>, \<open>UCastMetric.cc\<close>, \<open>RTTMetric.cc\<close>, \<open>TTMetric.cc\<close>, \<open>PktPair.cc\<close>).
  \<^item> \<open>Send_Queue\<close> (\<open>SendQueue.cc\<close>): the queue as a step relation; no packet is used after it was freed, packets leave in order, and the queue drains.
  \<^item> \<open>Ccm\<close>, \<open>Ccm_Spec\<close> (\<open>crypto/gladman/ccm.c\<close>): the CCM mode with its byte and word loops refines RFC 3610, transcribed in \<open>Ccm_Spec\<close>.
  \<^item> \<open>Crypto_Unit\<close> (\<open>crypto/AesCcmCryptoUnit.cc\<close>): signatures and encryption with nonces; what is accepted, what is not, and what a forger achieves.
  \<^item> \<open>Tap\<close> (\<open>TapInterface.cc\<close>), \<open>Src_Filter\<close> (\<open>SrcFilter.cc\<close>, locale \<open>station_firewall\<close>), \<open>Topo_Lock\<close> (\<open>TopoLock.cc\<close>), \<open>Pinger\<close> (\<open>pinger.cc\<close>), \<open>Shell\<close> (\<open>shell.cc\<close>), \<open>Debug_Output\<close>
    (\<open>debug_cmd.cc\<close>): the modules around the daemon, each composed with the parts it calls.
  \<^item> \<open>Kernel_Base\<close>, \<open>Kernel_Route\<close>, \<open>Kernel_Unicast\<close>, \<open>Kernel_Instances\<close>, \<open>Kernel_Socket\<close> (\<open>awds_module.c\<close>, \<open>awds_module.h\<close>, \<open>awds_defines.h\<close>): the kernel module over a record of its
    static variables, locks and heap; lookup and forwarding, the table of destinations, instances and interfaces, sockets, the packet handler.
  \<^item> This theory: the table that the daemon computes makes the kernel forward as the daemon routes.

  \<^bold>\<open>Bounds.\<close>  The array of neighbors has 40 elements, the flood history 128, the send queue the length set in \<open>settings.h\<close>.  Theorems about the routes assume at most 1024
  nodes, which keeps sums of 16-bit weights below the maximal distance and the table for the kernel below the limit of its length; the adaptive period is bounded for the same number.
  Fuel occurs only in loops whose number of rounds is evident (the bytes of a block, the elements of an array) and is that number.  CCM is proved for words of four bytes
  or messages that are not aligned with the context; \<open>Ccm_Spec\<close> shows that the code differs from RFC 3610 otherwise.

  \<^bold>\<open>Two views of the cryptographic unit.\<close>  In \<open>Awds_Routing\<close> the unit is a parameter without state, since the daemon uses only the result of its calls; \<open>Crypto_Unit\<close> models
  the unit the repository has, with its counters, and \<open>Tap\<close> is composed with that one.

  \<^bold>\<open>Not modelled.\<close>  The AES block cipher (\<open>aescrypt.c\<close>, \<open>aeskey.c\<close>, \<open>aestab.c\<close>, \<open>aesopt.h\<close>) is third-party code of macros and tables; every theorem holds for any block
  cipher on sixteen bytes.  Input and output proper (\<open>basic.cc\<close>, \<open>linuxbasic.cc\<close>, \<open>rawbasic.cc\<close>, \<open>udpBasic.cc\<close>, \<open>unixfdostream.h\<close>), entry points and parsing of command lines, the
  start of the process, the statistics file and the debugging macros of the kernel module make system calls or print and keep no state of their own.  \<open>MarshalStream.h\<close>, \<open>Callback.h\<close> and
  \<open>CancelTimer.h\<close> are templates around GEA; \<open>Traffic.cc\<close>, \<open>topowatch.cc\<close>, \<open>dumpTopo.cc\<close>, \<open>signaler.cc\<close> and \<open>gea2mad.cc\<close> are small tools that send, print or translate what other parts hold.
  Concurrency does not occur in the daemon, which is driven by events; in the kernel module the states of its mutexes are modelled, but not the preemption between two instructions.
\<close>

section \<open>Daemon and kernel module\<close>

lemma updateTopology_length:
  assumes "topo_inv t" "updateTopology env t = Some (Inr t')"
  shows "length (adjList t') \<le> length (adjList t)"
proof -
  have "routing_shape (shape (adjList t')) =
      routing_shape (shape (if locked t then adjList t else purge (lastEventTime t) (adjList t)))"
    using updateTopology_keeps [OF assms] by blast
  from arg_cong [OF this, of length] show ?thesis
    using length_purge [of "lastEventTime t" "adjList t"] by (simp add: routing_shape_def shape_def split: if_splits)
qed

lemma updateTopology_node:
  assumes "topo_inv t" "updateTopology env t = Some (Inr t')" "om_find x (adjList t) = Some d" "lastEventTime t < nodeValidity d"
  shows "om_find x (adjList t') \<noteq> None"
proof -
  let ?p = "if locked t then adjList t else purge (lastEventTime t) (adjList t)"
  have "routing_shape (shape (adjList t')) = routing_shape (shape ?p)" using updateTopology_keeps [OF assms(1,2)] by blast
  then have "source_links (adjList t') x = source_links ?p x" by (metis source_links_shapes)
  moreover have "source_links ?p x \<noteq> None"
    using om_find_purge [OF topo_inv_om_ok [OF assms(1)]] assms(3,4) by (simp add: source_links_def)
  ultimately show ?thesis by (auto simp: source_links_def)
qed

text \<open>
  Property C1: the kernel forwards the way the daemon routes.  In a reachable state of the
  topology whose own node is valid, \<open>updateTopology\<close> ends by handing a table to the kernel; the
  ioctl call that installs this table succeeds, and from then on the kernel's lookup for a frame
  returns exactly the next hop that the daemon has computed for the destination of the frame, and nothing for
  a destination the daemon does not know.
\<close>

theorem kernel_forwards_as_daemon_routes:
  assumes "topo_reach env i t" "NodeId_ok i" "\<forall>f b. te_calculate env f b \<noteq> 0" "std_sort (te_sort env)"
    and "length (adjList t) \<le> 1024" "om_find (myNodeId t) (adjList t) = Some d" "lastEventTime t < nodeValidity d"
    and "linuxbasic_cb t" "\<not> k_mutex s" "lx_access_ok lx 8" "\<not> lx_kmalloc_fails lx (k_next s)"
  shows "\<exists>t' data s'. updateTopology env t = Some (Inr t') \<and> List.last (topo_log t') = KernelUpdate data \<and>
    awds_socket_ioctl lx AIOCSRTTBL data s = Inr ((0, data), s') \<and>
    (\<forall>skb. AWDS_DEST_OFFSET + ETH_ALEN \<le> skb_len skb \<longrightarrow>
      (\<exists>r. awds_check_routing skb s' = Inr (r, s') \<and>
        next_hop_result s' r = map_option (\<lambda>e. NodeId_toArray (nextHop e))
          (om_find (NodeId_fromArray (mem_read (skb_data skb) AWDS_DEST_OFFSET ETH_ALEN)) (adjList t'))))"
proof -
  have inv: "topo_inv t" by (rule topo_reach_inv [OF assms(1-3)])
  obtain t' where t': "updateTopology env t = Some (Inr t')" "routes (myNodeId t) (adjList t')"
    "List.last (topo_log t') = KernelUpdate (topology_data (adjList t'))"
    using updateTopology_returns [OF inv assms(4-7)] assms(8) by blast
  let ?a = "adjList t'" and ?es = "table_entries (adjList t')"
  have inv': "topo_inv t'" using updateTopology_keeps [OF inv t'(1)] by blast
  then have ok: "om_ok ?a" "\<forall>i \<in> set (map fst ?a). NodeId_ok i"
    by (auto simp: topo_inv_def topo_wf_def adj_wf_def node_ok_def)
  have len: "length ?a \<le> 1024" using updateTopology_length [OF inv t'(1)] assms(5) by simp
  have ne: "?a \<noteq> []" using updateTopology_node [OF inv t'(1) assms(6,7)] by (auto simp: om_find_def)
  have data: "topology_data ?a = store_int (of_nat (12 * length ?es)) @ routing_image ?es @ []"
    using topology_data_image by simp
  have sz: "12 * length ?es < 2 ^ 31" "?es \<noteq> []" using len ne by (simp_all add: table_entries_def)
  from install_then_route [OF assms(9-11) sz(2,1) entries_ok_table table_sorted [OF ok] data] obtain s' where
    s': "awds_socket_ioctl lx AIOCSRTTBL (topology_data ?a) s = Inr ((0, topology_data ?a), s')"
      "\<forall>skb. skb_len skb \<ge> AWDS_DEST_OFFSET + ETH_ALEN \<longrightarrow> (\<exists>r. awds_check_routing skb s' = Inr (r, s') \<and>
        next_hop_result s' r = map_of ?es (mem_read (skb_data skb) AWDS_DEST_OFFSET ETH_ALEN))" by blast
  have "map_of ?es b = map_option (\<lambda>e. NodeId_toArray (nextHop e)) (om_find (NodeId_fromArray b) ?a)"
    if "length b = 6" for b
    using table_lookup [OF ok(2), of "NodeId_fromArray b"] that by simp
  then show ?thesis using t'(1,3) s' by (intro exI [of _ t'] exI [of _ "topology_data ?a"] exI [of _ s'])
      (simp add: skb_len_def ETH_ALEN_def)
qed

theorem kernel_forwards_as_daemon_routes_witness:
  "\<exists>t' data s'. updateTopology example_env example_new = Some (Inr t') \<and> List.last (topo_log t') = KernelUpdate data \<and>
    awds_socket_ioctl linux_up AIOCSRTTBL data kernel_loaded = Inr ((0, data), s')"
proof -
  have "length (adjList example_new) \<le> 1024" "lastEventTime example_new < nodeValidity (snd (hd (adjList example_new)))"
    "om_find (myNodeId example_new) (adjList example_new) = Some (snd (hd (adjList example_new)))" "linuxbasic_cb example_new"
    by (simp_all add: example_new_eq(2) om_find_def)
  moreover have "\<not> k_mutex kernel_loaded" "lx_access_ok linux_up 8" "\<not> lx_kmalloc_fails linux_up (k_next kernel_loaded)"
    by (simp_all add: kernel_loaded_defs)
  ultimately show ?thesis
    using kernel_forwards_as_daemon_routes [OF example_new_reach NodeId_ok_1 example_env_ok] by blast
qed

end
